(* ===== verification/Lw_Prelude.thy ===== *)
theory Lw_Prelude
  imports Main "HOL-Library.Word"
begin

text \<open>
  Shared vocabulary of the development: the machine integers and checked or saturating
  operations of the Rust standard library that the sources use, little-endian byte strings,
  fallible results and their sequencing, and the generic lemmas the component theories rest on.

  Conventions: \<open>u8\<close>, \<open>u16\<close>, \<open>u32\<close> and \<open>u64\<close> are words of HOL-Library; \<open>usize\<close> is 64 bits wide
  (the targets the program ships to); plain \<open>+\<close> and \<open>*\<close> wrap, as in the release profile, which
  leaves overflow checks off. A \<open>Result<T, E>\<close> is a value of \<open>'e + 'a\<close> with \<open>Inl\<close> the error, and
  the \<open>?\<close> operator is \<open>and_then\<close>.
\<close>

section \<open>Machine integers\<close>

type_synonym u8 = "8 word"
type_synonym u16 = "16 word"
type_synonym u32 = "32 word"
type_synonym u64 = "64 word"
type_synonym usize = "64 word"

named_theorems rust_arith \<open>readings of the checked and saturating operations over naturals\<close>

definition sat_add :: "'a::len word \<Rightarrow> 'a word \<Rightarrow> 'a word" where
  "sat_add a b = (if unat a + unat b < 2 ^ LENGTH('a) then a + b else - 1)"

definition sat_sub :: "'a::len word \<Rightarrow> 'a word \<Rightarrow> 'a word" where
  "sat_sub a b = (if b \<le> a then a - b else 0)"

definition sat_mul :: "'a::len word \<Rightarrow> 'a word \<Rightarrow> 'a word" where
  "sat_mul a b = (if unat a * unat b < 2 ^ LENGTH('a) then a * b else - 1)"

definition checked_add :: "'a::len word \<Rightarrow> 'a word \<Rightarrow> 'a word option" where
  "checked_add a b = (if unat a + unat b < 2 ^ LENGTH('a) then Some (a + b) else None)"

definition checked_mul :: "'a::len word \<Rightarrow> 'a word \<Rightarrow> 'a word option" where
  "checked_mul a b = (if unat a * unat b < 2 ^ LENGTH('a) then Some (a * b) else None)"

definition checked_rem :: "'a::len word \<Rightarrow> 'a word \<Rightarrow> 'a word option" where
  "checked_rem a b = (if b = 0 then None else Some (a mod b))"

definition checked_div :: "'a::len word \<Rightarrow> 'a word \<Rightarrow> 'a word option" where
  "checked_div a b = (if b = 0 then None else Some (a div b))"

definition div_ceil :: "'a::len word \<Rightarrow> 'a word \<Rightarrow> 'a word" where
  "div_ceil a b = (if a mod b = 0 then a div b else a div b + 1)"

lemma unat_lt_two_power: "unat (w :: 'a::len word) < 2 ^ LENGTH('a)"
  by (rule unsigned_less)

lemma unat_max_word [simp]: "unat (- 1 :: 'a::len word) = 2 ^ LENGTH('a) - 1"
  by (simp add: unsigned_minus_1_eq_mask mask_eq_exp_minus_1)

lemma unat_sat_add [rust_arith]:
  "unat (sat_add a b) = min (2 ^ LENGTH('a) - 1) (unat a + unat (b :: 'a::len word))"
  by (auto simp: sat_add_def unat_word_ariths)

lemma unat_sat_sub [rust_arith]: "unat (sat_sub a b) = unat a - unat (b :: 'a::len word)"
  by (auto simp: sat_sub_def unat_sub word_le_nat_alt)

lemma unat_sat_mul [rust_arith]:
  "unat (sat_mul a b) = min (2 ^ LENGTH('a) - 1) (unat a * unat (b :: 'a::len word))"
  by (auto simp: sat_mul_def unat_word_ariths)

lemma unat_ucast_up: "LENGTH('a::len) \<le> LENGTH('b::len) \<Longrightarrow> unat (ucast (w :: 'a word) :: 'b word) = unat w"
  by (simp add: unsigned_ucast_eq take_bit_nat_eq_self_iff) (meson less_le_trans one_le_numeral power_increasing unat_lt_two_power)

lemma unat_max: "unat (max a b) = max (unat a) (unat (b :: 'a::len word))"
  by (simp add: max_def word_le_nat_alt)

lemma unat_min: "unat (min a b) = min (unat a) (unat (b :: 'a::len word))"
  by (simp add: min_def word_le_nat_alt)

lemma checked_add_Some [rust_arith]:
  "checked_add a b = Some c \<longleftrightarrow> unat a + unat b < 2 ^ LENGTH('a) \<and> c = a + (b :: 'a::len word)"
  by (auto simp: checked_add_def)

lemma checked_mul_Some [rust_arith]:
  "checked_mul a b = Some c \<longleftrightarrow> unat a * unat b < 2 ^ LENGTH('a) \<and> c = a * (b :: 'a::len word)"
  by (auto simp: checked_mul_def)

lemma unat_add_small:
  "unat a + unat b < 2 ^ LENGTH('a) \<Longrightarrow> unat (a + b) = unat a + unat (b :: 'a::len word)"
  by (simp add: unat_word_ariths)

lemma unat_mul_small:
  "unat a * unat b < 2 ^ LENGTH('a) \<Longrightarrow> unat (a * b) = unat a * unat (b :: 'a::len word)"
  by (simp add: unat_word_ariths)

lemma sat_add_small: "unat a + unat b < 2 ^ LENGTH('a) \<Longrightarrow> sat_add a b = a + (b :: 'a::len word)"
  by (simp add: sat_add_def)

lemma unat_div_ceil:
  "unat (div_ceil a b) =
     (if unat a mod unat b = 0 then unat a div unat b else unat a div unat b + 1)"
  if "b \<noteq> 0" for a b :: "'a::len word"
proof -
  have q: "unat (a div b) = unat a div unat b" and r: "unat (a mod b) = unat a mod unat b"
    by (rule unat_div_distrib unat_mod_distrib)+
  have z: "a mod b = 0 \<longleftrightarrow> unat a mod unat b = 0"
    by (metis r unat_0 word_unat_eq_iff)
  have "unat (a div b + 1) = unat a div unat b + 1" if "unat a mod unat b \<noteq> 0"
  proof -
    have "1 < unat b" using \<open>b \<noteq> 0\<close> that by (cases "unat b = 1") (auto simp: unat_gt_0 Suc_lessI)
    moreover have "0 < unat a" using that by (cases "unat a = 0") auto
    ultimately have "unat a div unat b < unat a" by simp
    then have "unat a div unat b + 1 < 2 ^ LENGTH('a)"
      using unat_lt_two_power [of a] by linarith
    then show ?thesis by (simp add: unat_word_ariths q)
  qed
  then show ?thesis by (simp add: div_ceil_def z q)
qed

lemma div_ceil_upper: "unat a \<le> unat (div_ceil a b) * unat b" if "b \<noteq> 0"
  for a b :: "'a::len word"
proof (cases "unat a mod unat b = 0")
  case True
  with that show ?thesis by (simp add: unat_div_ceil mod_eq_0_iff_dvd)
next
  case False
  have "0 < unat b" using that by (simp add: unat_gt_0)
  then have "unat a mod unat b < unat b" by simp
  moreover have "unat a = unat a div unat b * unat b + unat a mod unat b" by simp
  ultimately have "unat a \<le> unat a div unat b * unat b + unat b" by linarith
  with that False show ?thesis by (simp add: unat_div_ceil algebra_simps)
qed

section \<open>Fallible results\<close>

text \<open>The \<open>?\<close> operator: an error is returned at once, a value goes to the rest of the body.\<close>

definition and_then :: "'e + 'a \<Rightarrow> ('a \<Rightarrow> 'e + 'b) \<Rightarrow> 'e + 'b" where
  "and_then r k = (case r of Inl e \<Rightarrow> Inl e | Inr a \<Rightarrow> k a)"

lemma and_then_simps [simp]:
  "and_then (Inl e) k = Inl e"
  "and_then (Inr a) k = k a"
  by (simp_all add: and_then_def)

lemma and_then_Inr_iff:
  "and_then r k = Inr b \<longleftrightarrow> (\<exists>a. r = Inr a \<and> k a = Inr b)"
  by (cases r) auto

lemma and_then_Inl_iff:
  "and_then r k = Inl e \<longleftrightarrow> r = Inl e \<or> (\<exists>a. r = Inr a \<and> k a = Inl e)"
  by (cases r) auto

lemma and_then_cong [fundef_cong]:
  "r = r' \<Longrightarrow> (\<And>a. r' = Inr a \<Longrightarrow> k a = k' a) \<Longrightarrow> and_then r k = and_then r' k'"
  by (cases r') auto

section \<open>Lists\<close>

text \<open>\<open>Vec::remove\<close>, at an index in range.\<close>

definition remove_at :: "nat \<Rightarrow> 'a list \<Rightarrow> 'a list" where
  "remove_at i xs = take i xs @ drop (Suc i) xs"

section \<open>Little-endian byte strings\<close>

fun le_bytes :: "nat \<Rightarrow> nat \<Rightarrow> u8 list" where
  "le_bytes 0 v = []"
| "le_bytes (Suc n) v = word_of_nat (v mod 256) # le_bytes n (v div 256)"

fun le_nat :: "u8 list \<Rightarrow> nat" where
  "le_nat [] = 0"
| "le_nat (b # bs) = unat b + 256 * le_nat bs"

lemma length_le_bytes [simp]: "length (le_bytes n v) = n"
  by (induction n arbitrary: v) auto

lemma le_nat_le_bytes: "le_nat (le_bytes n v) = v mod 256 ^ n"
proof (induction n arbitrary: v)
  case (Suc n)
  have "unat (word_of_nat (v mod 256) :: u8) = v mod 256"
    by (simp add: unat_of_nat take_bit_eq_mod)
  with Suc show ?case by (simp add: mod_mult2_eq mult.commute add.commute)
qed simp

lemma le_nat_bound: "le_nat bs < 256 ^ length bs"
proof (induction bs)
  case (Cons b bs)
  have "unat b < 256" using unat_lt_two_power [of b] by simp
  with Cons show ?case by simp
qed simp

definition word_le :: "u8 list \<Rightarrow> 'a::len word" where
  "word_le bs = word_of_nat (le_nat bs)"

lemma word_le_le_bytes:
  assumes "8 * n = LENGTH('a::len)"
  shows "word_le (le_bytes n (unat (w :: 'a word))) = w"
proof -
  have "(256 :: nat) ^ n = 2 ^ LENGTH('a)"
    by (simp flip: assms add: power_mult)
  then show ?thesis
    by (simp add: word_le_def le_nat_le_bytes)
qed

section \<open>Searching and folding\<close>

text \<open>\<open>Option::is_none_or\<close> and \<open>Option::is_some_and\<close>.\<close>

definition is_none_or :: "'a option \<Rightarrow> ('a \<Rightarrow> bool) \<Rightarrow> bool" where
  "is_none_or v f = (case v of None \<Rightarrow> True | Some x \<Rightarrow> f x)"

definition is_some_and :: "'a option \<Rightarrow> ('a \<Rightarrow> bool) \<Rightarrow> bool" where
  "is_some_and v f = (case v of None \<Rightarrow> False | Some x \<Rightarrow> f x)"

text \<open>\<open>Iterator::position\<close>.\<close>

fun index_where :: "('a \<Rightarrow> bool) \<Rightarrow> 'a list \<Rightarrow> nat option" where
  "index_where P [] = None"
| "index_where P (x # xs) = (if P x then Some 0 else map_option Suc (index_where P xs))"

lemma index_where_Some:
  "index_where P xs = Some i \<Longrightarrow> i < length xs \<and> P (xs ! i) \<and> (\<forall>j < i. \<not> P (xs ! j))"
proof (induction xs arbitrary: i)
  case (Cons x xs)
  then show ?case by (auto split: if_splits simp: nth_Cons split: nat.splits)
qed simp

lemma index_where_None: "index_where P xs = None \<longleftrightarrow> (\<forall>x \<in> set xs. \<not> P x)"
  by (induction xs) auto

lemma find_SomeD: "find P xs = Some x \<Longrightarrow> x \<in> set xs \<and> P x"
  by (auto simp: find_Some_iff)

text \<open>A loop that collects errors as it goes. If no error is left at the end there was none after any step;
  the invariant may mention the items done so far.\<close>

lemma fold_clean:
  assumes "clean (fold f xs s)" and "\<And>x s. clean (f x s) \<Longrightarrow> clean s"
    and "keeps [] s" and "\<And>done x s. keeps done s \<Longrightarrow> clean (f x s) \<Longrightarrow> keeps (done @ [x]) (f x s)"
  shows "clean s \<and> keeps xs (fold f xs s)"
  using assms(1)
proof (induction xs rule: rev_induct)
  case Nil
  with assms(3) show ?case by simp
next
  case (snoc x xs)
  then have "clean (fold f xs s)" by (auto intro: assms(2))
  with snoc assms(4) show ?case by simp
qed

end
