(* ===== verification/Ggml.thy ===== *)
theory Ggml
  imports Lw_Prelude
begin

text \<open>
  The ggml tensor type table of \<open>lightweight-core/src/ggml.rs\<close>: the type enum, its on-disk ids,
  names and block geometry, and the operations on them (\<open>from_id\<close>, \<open>bytes_for_elements\<close>,
  \<open>is_quantized\<close>, \<open>is_known\<close>, \<open>from_name\<close>). Shown: ids and names identify a type in both
  directions, the geometry of every known type is usable as a divisor, and \<open>bytes_for_elements\<close>
  is the exact block-rounded size as long as the product fits in 64 bits; where it does not,
  the release arithmetic wraps, which the last lemmas make concrete.
\<close>

section \<open>The table\<close>

datatype ggml_type =
    F32 | F16 | Q4_0 | Q4_1 | Q5_0 | Q5_1 | Q8_0 | Q8_1 | Q2_K | Q3_K | Q4_K | Q5_K | Q6_K |
    Q8_K | IQ2_XXS | IQ2_XS | IQ3_XXS | IQ1_S | IQ4_NL | IQ3_S | IQ2_S | IQ4_XS | I8 | I16 |
    I32 | I64 | F64 | IQ1_M | BF16 | TQ1_0 | TQ2_0 | MXFP4 | NVFP4 | Q1_0 | Q2_0 | Unknown u32

definition ggml_all :: "ggml_type list" where
  "ggml_all =
    [F32, F16, Q4_0, Q4_1, Q5_0, Q5_1, Q8_0, Q8_1, Q2_K, Q3_K, Q4_K, Q5_K, Q6_K, Q8_K, IQ2_XXS,
     IQ2_XS, IQ3_XXS, IQ1_S, IQ4_NL, IQ3_S, IQ2_S, IQ4_XS, I8, I16, I32, I64, F64, IQ1_M, BF16,
     TQ1_0, TQ2_0, MXFP4, NVFP4, Q1_0, Q2_0]"

definition from_id :: "u32 \<Rightarrow> ggml_type" where
  "from_id i =
    (if i = 0 then F32 else
     if i = 1 then F16 else
     if i = 2 then Q4_0 else
     if i = 3 then Q4_1 else
     if i = 6 then Q5_0 else
     if i = 7 then Q5_1 else
     if i = 8 then Q8_0 else
     if i = 9 then Q8_1 else
     if i = 10 then Q2_K else
     if i = 11 then Q3_K else
     if i = 12 then Q4_K else
     if i = 13 then Q5_K else
     if i = 14 then Q6_K else
     if i = 15 then Q8_K else
     if i = 16 then IQ2_XXS else
     if i = 17 then IQ2_XS else
     if i = 18 then IQ3_XXS else
     if i = 19 then IQ1_S else
     if i = 20 then IQ4_NL else
     if i = 21 then IQ3_S else
     if i = 22 then IQ2_S else
     if i = 23 then IQ4_XS else
     if i = 24 then I8 else
     if i = 25 then I16 else
     if i = 26 then I32 else
     if i = 27 then I64 else
     if i = 28 then F64 else
     if i = 29 then IQ1_M else
     if i = 30 then BF16 else
     if i = 34 then TQ1_0 else
     if i = 35 then TQ2_0 else
     if i = 39 then MXFP4 else
     if i = 40 then NVFP4 else
     if i = 41 then Q1_0 else
     if i = 42 then Q2_0 else
     Unknown i)"

fun ggml_id :: "ggml_type \<Rightarrow> u32" where
  "ggml_id F32 = 0"
| "ggml_id F16 = 1"
| "ggml_id Q4_0 = 2"
| "ggml_id Q4_1 = 3"
| "ggml_id Q5_0 = 6"
| "ggml_id Q5_1 = 7"
| "ggml_id Q8_0 = 8"
| "ggml_id Q8_1 = 9"
| "ggml_id Q2_K = 10"
| "ggml_id Q3_K = 11"
| "ggml_id Q4_K = 12"
| "ggml_id Q5_K = 13"
| "ggml_id Q6_K = 14"
| "ggml_id Q8_K = 15"
| "ggml_id IQ2_XXS = 16"
| "ggml_id IQ2_XS = 17"
| "ggml_id IQ3_XXS = 18"
| "ggml_id IQ1_S = 19"
| "ggml_id IQ4_NL = 20"
| "ggml_id IQ3_S = 21"
| "ggml_id IQ2_S = 22"
| "ggml_id IQ4_XS = 23"
| "ggml_id I8 = 24"
| "ggml_id I16 = 25"
| "ggml_id I32 = 26"
| "ggml_id I64 = 27"
| "ggml_id F64 = 28"
| "ggml_id IQ1_M = 29"
| "ggml_id BF16 = 30"
| "ggml_id TQ1_0 = 34"
| "ggml_id TQ2_0 = 35"
| "ggml_id MXFP4 = 39"
| "ggml_id NVFP4 = 40"
| "ggml_id Q1_0 = 41"
| "ggml_id Q2_0 = 42"
| "ggml_id (Unknown i) = i"

fun ggml_name :: "ggml_type \<Rightarrow> string" where
  "ggml_name F32 = ''f32''"
| "ggml_name F16 = ''f16''"
| "ggml_name Q4_0 = ''q4_0''"
| "ggml_name Q4_1 = ''q4_1''"
| "ggml_name Q5_0 = ''q5_0''"
| "ggml_name Q5_1 = ''q5_1''"
| "ggml_name Q8_0 = ''q8_0''"
| "ggml_name Q8_1 = ''q8_1''"
| "ggml_name Q2_K = ''q2_K''"
| "ggml_name Q3_K = ''q3_K''"
| "ggml_name Q4_K = ''q4_K''"
| "ggml_name Q5_K = ''q5_K''"
| "ggml_name Q6_K = ''q6_K''"
| "ggml_name Q8_K = ''q8_K''"
| "ggml_name IQ2_XXS = ''iq2_xxs''"
| "ggml_name IQ2_XS = ''iq2_xs''"
| "ggml_name IQ3_XXS = ''iq3_xxs''"
| "ggml_name IQ1_S = ''iq1_s''"
| "ggml_name IQ4_NL = ''iq4_nl''"
| "ggml_name IQ3_S = ''iq3_s''"
| "ggml_name IQ2_S = ''iq2_s''"
| "ggml_name IQ4_XS = ''iq4_xs''"
| "ggml_name I8 = ''i8''"
| "ggml_name I16 = ''i16''"
| "ggml_name I32 = ''i32''"
| "ggml_name I64 = ''i64''"
| "ggml_name F64 = ''f64''"
| "ggml_name IQ1_M = ''iq1_m''"
| "ggml_name BF16 = ''bf16''"
| "ggml_name TQ1_0 = ''tq1_0''"
| "ggml_name TQ2_0 = ''tq2_0''"
| "ggml_name MXFP4 = ''mxfp4''"
| "ggml_name NVFP4 = ''nvfp4''"
| "ggml_name Q1_0 = ''q1_0''"
| "ggml_name Q2_0 = ''q2_0''"
| "ggml_name (Unknown i) = ''unknown''"

fun block_size :: "ggml_type \<Rightarrow> u64 option" where
  "block_size F32 = Some 1"
| "block_size F16 = Some 1"
| "block_size Q4_0 = Some 32"
| "block_size Q4_1 = Some 32"
| "block_size Q5_0 = Some 32"
| "block_size Q5_1 = Some 32"
| "block_size Q8_0 = Some 32"
| "block_size Q8_1 = Some 32"
| "block_size Q2_K = Some 256"
| "block_size Q3_K = Some 256"
| "block_size Q4_K = Some 256"
| "block_size Q5_K = Some 256"
| "block_size Q6_K = Some 256"
| "block_size Q8_K = Some 256"
| "block_size IQ2_XXS = Some 256"
| "block_size IQ2_XS = Some 256"
| "block_size IQ3_XXS = Some 256"
| "block_size IQ1_S = Some 256"
| "block_size IQ4_NL = Some 32"
| "block_size IQ3_S = Some 256"
| "block_size IQ2_S = Some 256"
| "block_size IQ4_XS = Some 256"
| "block_size I8 = Some 1"
| "block_size I16 = Some 1"
| "block_size I32 = Some 1"
| "block_size I64 = Some 1"
| "block_size F64 = Some 1"
| "block_size IQ1_M = Some 256"
| "block_size BF16 = Some 1"
| "block_size TQ1_0 = Some 256"
| "block_size TQ2_0 = Some 256"
| "block_size MXFP4 = Some 32"
| "block_size NVFP4 = Some 64"
| "block_size Q1_0 = Some 128"
| "block_size Q2_0 = Some 64"
| "block_size (Unknown i) = None"

fun type_size :: "ggml_type \<Rightarrow> u64 option" where
  "type_size F32 = Some 4"
| "type_size F16 = Some 2"
| "type_size Q4_0 = Some 18"
| "type_size Q4_1 = Some 20"
| "type_size Q5_0 = Some 22"
| "type_size Q5_1 = Some 24"
| "type_size Q8_0 = Some 34"
| "type_size Q8_1 = Some 36"
| "type_size Q2_K = Some 84"
| "type_size Q3_K = Some 110"
| "type_size Q4_K = Some 144"
| "type_size Q5_K = Some 176"
| "type_size Q6_K = Some 210"
| "type_size Q8_K = Some 292"
| "type_size IQ2_XXS = Some 66"
| "type_size IQ2_XS = Some 74"
| "type_size IQ3_XXS = Some 98"
| "type_size IQ1_S = Some 50"
| "type_size IQ4_NL = Some 18"
| "type_size IQ3_S = Some 110"
| "type_size IQ2_S = Some 82"
| "type_size IQ4_XS = Some 136"
| "type_size I8 = Some 1"
| "type_size I16 = Some 2"
| "type_size I32 = Some 4"
| "type_size I64 = Some 8"
| "type_size F64 = Some 8"
| "type_size IQ1_M = Some 56"
| "type_size BF16 = Some 2"
| "type_size TQ1_0 = Some 54"
| "type_size TQ2_0 = Some 66"
| "type_size MXFP4 = Some 17"
| "type_size NVFP4 = Some 36"
| "type_size Q1_0 = Some 18"
| "type_size Q2_0 = Some 18"
| "type_size (Unknown i) = None"

section \<open>Operations\<close>

definition bytes_for_elements :: "ggml_type \<Rightarrow> u64 \<Rightarrow> u64 option" where
  "bytes_for_elements t elements =
    (case (block_size t, type_size t) of
       (Some bs, Some ts) \<Rightarrow> Some (div_ceil elements bs * ts)
     | _ \<Rightarrow> None)"

definition is_quantized :: "ggml_type \<Rightarrow> bool" where
  "is_quantized t = (case block_size t of Some bs \<Rightarrow> bs > 1 | None \<Rightarrow> False)"

fun is_known :: "ggml_type \<Rightarrow> bool" where
  "is_known (Unknown i) = False"
| "is_known t = True"

text \<open>\<open>str::eq_ignore_ascii_case\<close>: bytes are compared after folding \<open>A..Z\<close> to \<open>a..z\<close>.\<close>

definition ascii_lower :: "char \<Rightarrow> char" where
  "ascii_lower c =
    (if 65 \<le> (of_char c :: nat) \<and> (of_char c :: nat) \<le> 90
     then char_of ((of_char c :: nat) + 32) else c)"

definition eq_ignore_ascii_case :: "string \<Rightarrow> string \<Rightarrow> bool" where
  "eq_ignore_ascii_case a b \<longleftrightarrow> map ascii_lower a = map ascii_lower b"

definition from_name :: "string \<Rightarrow> ggml_type option" where
  "from_name s = find (\<lambda>candidate. eq_ignore_ascii_case (ggml_name candidate) s) ggml_all"

section \<open>Identity of the types\<close>

lemma is_known_iff_all: "is_known t \<longleftrightarrow> t \<in> set ggml_all"
  by (cases t) (simp_all add: ggml_all_def)

lemma distinct_ggml_all: "distinct ggml_all"
  by (simp add: ggml_all_def)

lemma from_id_ggml_id: "is_known t \<Longrightarrow> from_id (ggml_id t) = t"
  by (cases t) (simp_all add: from_id_def)

lemma ggml_id_from_id [simp]: "ggml_id (from_id i) = i"
  by (simp add: from_id_def)

text \<open>
  Ids that \<open>from_id\<close> maps to a known type. A fixture that declares a tensor of type
  \<open>Unknown i\<close> with such an id is read back as the known type.
\<close>

definition canonical :: "ggml_type \<Rightarrow> bool" where
  "canonical t \<longleftrightarrow> from_id (ggml_id t) = t"

lemma canonical_from_id [simp]: "canonical (from_id i)"
  by (simp add: canonical_def)

lemma distinct_names: "distinct (map (\<lambda>t. map ascii_lower (ggml_name t)) ggml_all)"
  by code_simp

lemma find_Some_unique:
  "distinct (map f xs) \<Longrightarrow> find (\<lambda>x. f x = y) xs = Some x \<longleftrightarrow> x \<in> set xs \<and> f x = y"
  by (induction xs) (auto simp: image_iff)

lemma from_name_Some_iff:
  "from_name s = Some t \<longleftrightarrow> is_known t \<and> eq_ignore_ascii_case (ggml_name t) s"
  unfolding from_name_def eq_ignore_ascii_case_def is_known_iff_all
  by (rule find_Some_unique [OF distinct_names])

section \<open>Block geometry\<close>

lemma block_size_pos: "block_size t = Some bs \<Longrightarrow> bs \<noteq> 0"
  by (cases t) auto

lemma geometry_known: "is_known t \<longleftrightarrow> block_size t \<noteq> None" "is_known t \<longleftrightarrow> type_size t \<noteq> None"
  by (cases t; simp)+

lemma type_size_bound: "type_size t = Some ts \<Longrightarrow> 1 \<le> unat ts \<and> unat ts \<le> 292"
  by (cases t) auto

lemma bytes_for_elements_None_iff: "bytes_for_elements t n = None \<longleftrightarrow> \<not> is_known t"
  by (cases t) (simp_all add: bytes_for_elements_def)

text \<open>The size meant by the documentation: whole blocks, over the naturals.\<close>

definition exact_bytes :: "ggml_type \<Rightarrow> nat \<Rightarrow> nat option" where
  "exact_bytes t n =
    (case (block_size t, type_size t) of
       (Some bs, Some ts) \<Rightarrow>
         Some ((if n mod unat bs = 0 then n div unat bs else n div unat bs + 1) * unat ts)
     | _ \<Rightarrow> None)"

lemma bytes_for_elements_exact:
  assumes "exact_bytes t (unat n) = Some m"
  shows "\<exists>w. bytes_for_elements t n = Some w \<and> unat w = m mod 2 ^ 64"
proof -
  obtain bs ts where g: "block_size t = Some bs" "type_size t = Some ts"
    using assms by (auto simp: exact_bytes_def split: option.splits)
  have "unat (div_ceil n bs * ts) = (unat (div_ceil n bs) * unat ts) mod 2 ^ 64"
    by (simp add: unat_word_ariths)
  with g assms show ?thesis
    by (simp add: bytes_for_elements_def exact_bytes_def unat_div_ceil [OF block_size_pos [OF g(1)]])
qed

text \<open>A type is the answer for a name exactly when it is in the table and its own name is the
  given one up to ASCII case, so no two types share a name; and both directions of the numeric id
  agree, so the id of a tensor survives being read.\<close>

theorem ggml_lookup:
  "(from_name s = Some t \<longleftrightarrow> t \<in> set ggml_all \<and> eq_ignore_ascii_case (ggml_name t) s) \<and>
   ggml_id (from_id i) = i \<and> (is_known t = (t \<in> set ggml_all)) \<and>
   list_all (\<lambda>u. from_id (ggml_id u) = u) ggml_all"
  by (simp add: from_name_Some_iff is_known_iff_all list_all_iff)
    (simp add: from_id_ggml_id flip: is_known_iff_all)

text \<open>The byte size of a tensor is the number of whole blocks its elements occupy times the size
  of a block, as a 64-bit value: exact as long as the product fits, and reduced modulo \<open>2 ^ 64\<close>
  beyond. It is absent exactly for the types the program does not know.\<close>

theorem tensor_bytes:
  "bytes_for_elements t n = map_option word_of_nat (exact_bytes t (unat n)) \<and>
   (bytes_for_elements t n = None) = (\<not> is_known t)"
proof (cases "exact_bytes t (unat n)")
  case None
  then show ?thesis
    using geometry_known [of t]
    by (cases "block_size t"; cases "type_size t") (simp_all add: exact_bytes_def bytes_for_elements_def)
next
  case (Some m)
  then obtain w where w: "bytes_for_elements t n = Some w" "unat w = m mod 2 ^ 64"
    using bytes_for_elements_exact by blast
  then have "w = word_of_nat m" by (simp add: word_unat_eq_iff unat_of_nat take_bit_eq_mod)
  with Some w(1) show ?thesis using bytes_for_elements_None_iff [of t n] by simp
qed

end
