(* ===== verification/Gguf_Value.thy ===== *)
theory Gguf_Value
  imports Ggml
begin

text \<open>
  GGUF metadata values and parse failures: \<open>lightweight-gguf/src/value.rs\<close> and
  \<open>lightweight-gguf/src/error.rs\<close>. A Rust \<open>String\<close> is the list of its UTF-8 bytes, an \<open>i8\<close> \dots
  \<open>i64\<close> is the word of its two's complement bits, and an \<open>f32\<close> or \<open>f64\<close> is its bit pattern: the
  reader only stores them. The path an error carries is left out, since it is the same for every
  error of one call.
\<close>

section \<open>Value types\<close>

type_synonym bytes = "u8 list"

definition bytes_of :: "string \<Rightarrow> bytes" where
  "bytes_of s = map (\<lambda>c. of_char c) s"

datatype gguf_value_type =
    U8T | I8T | U16T | I16T | U32T | I32T | F32T | BoolT | StringT | ArrayT | U64T | I64T | F64T

definition from_tag :: "u32 \<Rightarrow> gguf_value_type option" where
  "from_tag tag =
    (if tag = 0 then Some U8T else
     if tag = 1 then Some I8T else
     if tag = 2 then Some U16T else
     if tag = 3 then Some I16T else
     if tag = 4 then Some U32T else
     if tag = 5 then Some I32T else
     if tag = 6 then Some F32T else
     if tag = 7 then Some BoolT else
     if tag = 8 then Some StringT else
     if tag = 9 then Some ArrayT else
     if tag = 10 then Some U64T else
     if tag = 11 then Some I64T else
     if tag = 12 then Some F64T else None)"

fun fixed_width :: "gguf_value_type \<Rightarrow> u64 option" where
  "fixed_width U8T = Some 1"
| "fixed_width I8T = Some 1"
| "fixed_width BoolT = Some 1"
| "fixed_width U16T = Some 2"
| "fixed_width I16T = Some 2"
| "fixed_width U32T = Some 4"
| "fixed_width I32T = Some 4"
| "fixed_width F32T = Some 4"
| "fixed_width U64T = Some 8"
| "fixed_width I64T = Some 8"
| "fixed_width F64T = Some 8"
| "fixed_width StringT = None"
| "fixed_width ArrayT = None"

record array_summary =
  as_element_type :: gguf_value_type
  as_len :: u64
  as_offset :: u64
  as_byte_len :: u64

datatype gguf_value =
    U8V u8 | I8V u8 | U16V u16 | I16V u16 | U32V u32 | I32V u32 | U64V u64 | I64V u64
  | F32V u32 | F64V u64 | BoolV bool | StringV bytes | ArrayV array_summary

fun value_type :: "gguf_value \<Rightarrow> gguf_value_type" where
  "value_type (U8V v) = U8T"
| "value_type (I8V v) = I8T"
| "value_type (U16V v) = U16T"
| "value_type (I16V v) = I16T"
| "value_type (U32V v) = U32T"
| "value_type (I32V v) = I32T"
| "value_type (U64V v) = U64T"
| "value_type (I64V v) = I64T"
| "value_type (F32V v) = F32T"
| "value_type (F64V v) = F64T"
| "value_type (BoolV v) = BoolT"
| "value_type (StringV v) = StringT"
| "value_type (ArrayV v) = ArrayT"

fun as_u64 :: "gguf_value \<Rightarrow> u64 option" where
  "as_u64 (U8V v) = Some (ucast v)"
| "as_u64 (U16V v) = Some (ucast v)"
| "as_u64 (U32V v) = Some (ucast v)"
| "as_u64 (U64V v) = Some v"
| "as_u64 (I8V v) = (if 0 \<le> sint v then Some (ucast v) else None)"
| "as_u64 (I16V v) = (if 0 \<le> sint v then Some (ucast v) else None)"
| "as_u64 (I32V v) = (if 0 \<le> sint v then Some (ucast v) else None)"
| "as_u64 (I64V v) = (if 0 \<le> sint v then Some v else None)"
| "as_u64 (F32V v) = None"
| "as_u64 (F64V v) = None"
| "as_u64 (BoolV v) = None"
| "as_u64 (StringV v) = None"
| "as_u64 (ArrayV v) = None"

definition as_u32 :: "gguf_value \<Rightarrow> u32 option" where
  "as_u32 v = Option.bind (as_u64 v) (\<lambda>w. if unat w < 2 ^ 32 then Some (ucast w) else None)"

fun as_bool :: "gguf_value \<Rightarrow> bool option" where
  "as_bool (BoolV v) = Some v"
| "as_bool _ = None"

fun as_str :: "gguf_value \<Rightarrow> bytes option" where
  "as_str (StringV v) = Some v"
| "as_str _ = None"

fun as_array :: "gguf_value \<Rightarrow> array_summary option" where
  "as_array (ArrayV s) = Some s"
| "as_array _ = None"

section \<open>Parse failures\<close>

datatype gguf_error =
    OpenE
  | ReadE (re_offset: u64)
  | BadMagic (bm_found: bytes)
  | UnsupportedVersion (uv_found: u32) (uv_min: u32) (uv_max: u32)
  | Truncated (tr_offset: u64) (tr_needed: u64) (tr_available: u64)
  | UnknownValueType (ut_key: bytes) (ut_value_type: u32) (ut_offset: u64)
  | NestedArray (na_key: bytes) (na_offset: u64)
  | InvalidUtf8 (iu_key: bytes) (iu_offset: u64)
  | MetadataTooLarge (ml_claimed: u64) (ml_limit: u64)
  | ImplausibleCount (ic_what: string) (ic_claimed: u64) (ic_available: u64) (ic_offset: u64)
  | TooManyDimensions (td_name: bytes) (td_dims: u32) (td_limit: u32)
  | DimensionOverflow (do_name: bytes)

fun error_offset :: "gguf_error \<Rightarrow> u64 option" where
  "error_offset (ReadE offset) = Some offset"
| "error_offset (Truncated offset _ _) = Some offset"
| "error_offset (UnknownValueType _ _ offset) = Some offset"
| "error_offset (NestedArray _ offset) = Some offset"
| "error_offset (ImplausibleCount _ _ _ offset) = Some offset"
| "error_offset (InvalidUtf8 _ offset) = Some offset"
| "error_offset _ = None"

fun is_io_error :: "gguf_error \<Rightarrow> bool" where
  "is_io_error OpenE = True"
| "is_io_error (ReadE _) = True"
| "is_io_error _ = False"

definition fixed_array_byte_len :: "gguf_value_type \<Rightarrow> u64 \<Rightarrow> u64 option" where
  "fixed_array_byte_len element_type len =
    Option.bind (fixed_width element_type) (\<lambda>width. checked_mul width len)"

definition ensure_fits :: "string \<Rightarrow> u64 \<Rightarrow> u64 \<Rightarrow> u64 \<Rightarrow> gguf_error + unit" where
  "ensure_fits what claimed available offset =
    (if claimed > available then Inl (ImplausibleCount what claimed available offset) else Inr ())"

section \<open>UTF-8\<close>

text \<open>
  \<open>String::from_utf8\<close> accepts exactly the well-formed sequences of the Unicode standard
  (table 3-7): no overlong form, no surrogate, nothing past \<open>U+10FFFF\<close>.
\<close>

definition in_range :: "u8 \<Rightarrow> u8 \<Rightarrow> u8 \<Rightarrow> bool" where
  "in_range lo hi b \<longleftrightarrow> lo \<le> b \<and> b \<le> hi"

abbreviation cont :: "u8 \<Rightarrow> bool" where
  "cont \<equiv> in_range 0x80 0xBF"

fun utf8_valid :: "bytes \<Rightarrow> bool" where
  "utf8_valid [] = True"
| "utf8_valid (b # bs) =
    (if b < 0x80 then utf8_valid bs
     else if in_range 0xC2 0xDF b then
       (case bs of c1 # r \<Rightarrow> cont c1 \<and> utf8_valid r | _ \<Rightarrow> False)
     else if in_range 0xE0 0xEF b then
       (case bs of c1 # c2 # r \<Rightarrow>
          in_range (if b = 0xE0 then 0xA0 else 0x80) (if b = 0xED then 0x9F else 0xBF) c1
            \<and> cont c2 \<and> utf8_valid r
        | _ \<Rightarrow> False)
     else if in_range 0xF0 0xF4 b then
       (case bs of c1 # c2 # c3 # r \<Rightarrow>
          in_range (if b = 0xF0 then 0x90 else 0x80) (if b = 0xF4 then 0x8F else 0xBF) c1
            \<and> cont c2 \<and> cont c3 \<and> utf8_valid r
        | _ \<Rightarrow> False)
     else False)"

lemma utf8_valid_ascii: "(\<forall>b \<in> set bs. b < 0x80) \<Longrightarrow> utf8_valid bs"
  by (induction bs) auto

section \<open>Facts about values\<close>

lemma as_u32_as_u64: "as_u32 v = Some w \<Longrightarrow> \<exists>u. as_u64 v = Some u \<and> unat u = unat w"
  by (auto simp: as_u32_def bind_eq_Some_conv take_bit_eq_mod
      unsigned_ucast_eq split: if_splits)

lemma fixed_width_range:
  "fixed_width t = Some w \<Longrightarrow> unat w \<in> {1, 2, 4, 8}"
  by (cases t) auto

lemma fixed_array_byte_len_Some:
  "fixed_array_byte_len t len = Some n \<Longrightarrow>
    \<exists>w. fixed_width t = Some w \<and> unat n = unat w * unat len"
  by (auto simp: fixed_array_byte_len_def bind_eq_Some_conv checked_mul_Some unat_mul_small)

lemma ensure_fits_Inr [simp]: "ensure_fits what n a off = Inr u \<longleftrightarrow> n \<le> a"
  by (auto simp: ensure_fits_def)

lemma ensure_fits_ok [simp]: "n \<le> a \<Longrightarrow> ensure_fits what n a off = Inr ()"
  by (simp add: ensure_fits_def)

lemma ensure_fits_Inl: "ensure_fits what n a off = Inl e \<Longrightarrow> e = ImplausibleCount what n a off"
  by (auto simp: ensure_fits_def split: if_splits)

end
