(* ===== verification/Gguf_Reader.thy ===== *)
theory Gguf_Reader
  imports Gguf_Value
begin

text \<open>
  The GGUF header reader, \<open>lightweight-gguf/src/reader.rs\<close>, in the order of that file.

  A \<open>Cursor\<close> is the record \<open>cursor\<close>. Its \<open>inner\<close> field stands for the \<open>BufReader\<close> over the file:
  the bytes that have not been read yet. \<open>read_exact\<close> fails when fewer bytes are left, as the
  standard library's does at the end of the file, and a seek past the end succeeds and leaves
  nothing to read. Operations take the cursor and return it updated next to their value;
  \<open>usize::try_from\<close> of a \<open>u64\<close> cannot fail on a 64-bit target, so its error branch has no
  counterpart. Each \<open>for _ in 0..n\<close> is a recursion on the number of rounds left.
\<close>

section \<open>Constants and data\<close>

definition MAGIC :: bytes where "MAGIC = bytes_of ''GGUF''"
definition MIN_VERSION :: u32 where "MIN_VERSION = 2"
definition MAX_VERSION :: u32 where "MAX_VERSION = 3"
definition DEFAULT_ALIGNMENT :: u64 where "DEFAULT_ALIGNMENT = 32"
definition MAX_DIMS :: u32 where "MAX_DIMS = 4"
definition ALIGNMENT_KEY :: bytes where "ALIGNMENT_KEY = bytes_of ''general.alignment''"
definition MIN_KV_BYTES :: u64 where "MIN_KV_BYTES = 12"
definition MIN_TENSOR_BYTES :: u64 where "MIN_TENSOR_BYTES = 24"

record read_limits =
  max_metadata_bytes :: u64
  max_string_bytes :: u64

definition default_limits :: read_limits where
  "default_limits =
    \<lparr>max_metadata_bytes = 64 * 1024 * 1024, max_string_bytes = 16 * 1024 * 1024\<rparr>"

record tensor_info =
  ti_name :: bytes
  ti_dims :: "u64 list"
  ti_n_dims :: u32
  ti_ggml_type :: ggml_type
  ti_offset :: u64

fun product_checked :: "u64 \<Rightarrow> u64 list \<Rightarrow> u64 option" where
  "product_checked acc [] = Some acc"
| "product_checked acc (dim # dims) =
     (case checked_mul acc dim of None \<Rightarrow> None | Some acc' \<Rightarrow> product_checked acc' dims)"

definition elements :: "tensor_info \<Rightarrow> u64 option" where
  "elements t = product_checked 1 (ti_dims t)"

definition byte_size :: "tensor_info \<Rightarrow> u64 option" where
  "byte_size t = Option.bind (elements t) (bytes_for_elements (ti_ggml_type t))"

record gguf_file =
  gf_version :: u32
  gf_alignment :: u64
  gf_metadata :: "bytes \<rightharpoonup> gguf_value"
  gf_tensors :: "tensor_info list"
  gf_data_offset :: u64
  gf_file_size :: u64

record cursor =
  inner :: bytes
  offset :: u64
  file_size :: u64
  limits :: read_limits

section \<open>The cursor\<close>

definition decode_unsigned :: "bytes \<Rightarrow> u64" where
  "decode_unsigned bs = word_le (take 8 (bs @ replicate 8 0))"

definition align_up :: "u64 \<Rightarrow> u64 \<Rightarrow> u64" where
  "align_up off alignment =
    (case checked_rem off alignment of
       None \<Rightarrow> off
     | Some remainder \<Rightarrow>
         if remainder = 0 then off else sat_add off (sat_sub alignment remainder))"

definition remaining :: "cursor \<Rightarrow> u64" where
  "remaining c = sat_sub (file_size c) (offset c)"

definition need :: "cursor \<Rightarrow> u64 \<Rightarrow> gguf_error + unit" where
  "need c n =
    (if n > remaining c then Inl (Truncated (offset c) n (remaining c)) else Inr ())"

definition check_metadata_budget :: "cursor \<Rightarrow> gguf_error + unit" where
  "check_metadata_budget c =
    (if offset c > max_metadata_bytes (limits c)
     then Inl (MetadataTooLarge (offset c) (max_metadata_bytes (limits c))) else Inr ())"

text \<open>\<open>Read::read_exact\<close> on what is left of the file.\<close>

definition read_exact :: "nat \<Rightarrow> bytes \<Rightarrow> (bytes \<times> bytes) option" where
  "read_exact n bs = (if n \<le> length bs then Some (take n bs, drop n bs) else None)"

definition read_array :: "nat \<Rightarrow> cursor \<Rightarrow> gguf_error + bytes \<times> cursor" where
  "read_array n c =
    and_then (need c (word_of_nat n)) (\<lambda>_.
      case read_exact n (inner c) of
        None \<Rightarrow> Inl (ReadE (offset c))
      | Some (buffer, rest) \<Rightarrow>
          Inr (buffer, c\<lparr>inner := rest, offset := sat_add (offset c) (word_of_nat n)\<rparr>))"

definition read_bytes :: "u64 \<Rightarrow> cursor \<Rightarrow> gguf_error + bytes \<times> cursor" where
  "read_bytes len c =
    and_then (need c len) (\<lambda>_.
      case read_exact (unat len) (inner c) of
        None \<Rightarrow> Inl (ReadE (offset c))
      | Some (buffer, rest) \<Rightarrow>
          Inr (buffer, c\<lparr>inner := rest, offset := sat_add (offset c) len\<rparr>))"

definition skip :: "u64 \<Rightarrow> cursor \<Rightarrow> gguf_error + unit \<times> cursor" where
  "skip len c =
    and_then (need c len) (\<lambda>_.
      if unat len \<ge> 2 ^ 63
      then Inl (ImplausibleCount ''bytes to skip'' len (remaining c) (offset c))
      else Inr ((), c\<lparr>inner := drop (unat len) (inner c), offset := sat_add (offset c) len\<rparr>))"

definition read_u8 :: "cursor \<Rightarrow> gguf_error + u8 \<times> cursor" where
  "read_u8 c = and_then (read_array 1 c) (\<lambda>(bs, c). Inr (word_le bs, c))"

definition read_u16 :: "cursor \<Rightarrow> gguf_error + u16 \<times> cursor" where
  "read_u16 c = and_then (read_array 2 c) (\<lambda>(bs, c). Inr (word_le bs, c))"

definition read_u32 :: "cursor \<Rightarrow> gguf_error + u32 \<times> cursor" where
  "read_u32 c = and_then (read_array 4 c) (\<lambda>(bs, c). Inr (word_le bs, c))"

definition read_u64 :: "cursor \<Rightarrow> gguf_error + u64 \<times> cursor" where
  "read_u64 c = and_then (read_array 8 c) (\<lambda>(bs, c). Inr (word_le bs, c))"

definition read_string :: "bytes \<Rightarrow> cursor \<Rightarrow> gguf_error + bytes \<times> cursor" where
  "read_string context c =
    and_then (read_u64 c) (\<lambda>(len, c).
      if len > max_string_bytes (limits c)
      then Inl (ImplausibleCount ''string bytes'' len (max_string_bytes (limits c)) (offset c))
      else and_then (read_bytes len c) (\<lambda>(bs, c').
        if utf8_valid bs then Inr (bs, c') else Inl (InvalidUtf8 context (offset c))))"

section \<open>Arrays and values\<close>

fun skip_strings :: "nat \<Rightarrow> cursor \<Rightarrow> gguf_error + unit \<times> cursor" where
  "skip_strings 0 c = Inr ((), c)"
| "skip_strings (Suc n) c =
    and_then (read_u64 c) (\<lambda>(element_len, c).
      if element_len > max_string_bytes (limits c)
      then Inl (ImplausibleCount ''string bytes'' element_len (max_string_bytes (limits c)) (offset c))
      else and_then (skip element_len c) (\<lambda>(_, c). skip_strings n c))"

definition skip_elements ::
  "gguf_value_type \<Rightarrow> u64 \<Rightarrow> cursor \<Rightarrow> gguf_error + u64 \<times> cursor" where
  "skip_elements element_type len c =
    (if element_type = StringT then
       and_then (ensure_fits ''array elements'' (sat_mul len 8) (remaining c) (offset c)) (\<lambda>_.
         and_then (skip_strings (unat len) c) (\<lambda>(_, c').
           Inr (sat_sub (offset c') (offset c), c')))
     else
       (case fixed_array_byte_len element_type len of
          None \<Rightarrow> Inl (ImplausibleCount ''array elements'' len (remaining c) (offset c))
        | Some byte_len \<Rightarrow> and_then (skip byte_len c) (\<lambda>(_, c'). Inr (byte_len, c'))))"

definition read_array_summary :: "bytes \<Rightarrow> cursor \<Rightarrow> gguf_error + array_summary \<times> cursor" where
  "read_array_summary key c =
    and_then (read_u32 c) (\<lambda>(tag, c1).
      case from_tag tag of
        None \<Rightarrow> Inl (UnknownValueType key tag (offset c))
      | Some element_type \<Rightarrow>
          if element_type = ArrayT then Inl (NestedArray key (offset c))
          else and_then (read_u64 c1) (\<lambda>(len, c2).
            and_then (skip_elements element_type len c2) (\<lambda>(byte_len, c3).
              Inr (\<lparr>as_element_type = element_type, as_len = len, as_offset = offset c2,
                    as_byte_len = byte_len\<rparr>, c3))))"

fun read_value :: "bytes \<Rightarrow> gguf_value_type \<Rightarrow> cursor \<Rightarrow> gguf_error + gguf_value \<times> cursor" where
  "read_value key U8T c = and_then (read_u8 c) (\<lambda>(v, c). Inr (U8V v, c))"
| "read_value key I8T c = and_then (read_u8 c) (\<lambda>(v, c). Inr (I8V v, c))"
| "read_value key U16T c = and_then (read_u16 c) (\<lambda>(v, c). Inr (U16V v, c))"
| "read_value key I16T c = and_then (read_u16 c) (\<lambda>(v, c). Inr (I16V v, c))"
| "read_value key U32T c = and_then (read_u32 c) (\<lambda>(v, c). Inr (U32V v, c))"
| "read_value key I32T c = and_then (read_u32 c) (\<lambda>(v, c). Inr (I32V v, c))"
| "read_value key U64T c = and_then (read_u64 c) (\<lambda>(v, c). Inr (U64V v, c))"
| "read_value key I64T c = and_then (read_u64 c) (\<lambda>(v, c). Inr (I64V v, c))"
| "read_value key F32T c = and_then (read_u32 c) (\<lambda>(v, c). Inr (F32V v, c))"
| "read_value key F64T c = and_then (read_u64 c) (\<lambda>(v, c). Inr (F64V v, c))"
| "read_value key BoolT c = and_then (read_u8 c) (\<lambda>(v, c). Inr (BoolV (v \<noteq> 0), c))"
| "read_value key StringT c = and_then (read_string key c) (\<lambda>(v, c). Inr (StringV v, c))"
| "read_value key ArrayT c = and_then (read_array_summary key c) (\<lambda>(v, c). Inr (ArrayV v, c))"

definition read_kv :: "cursor \<Rightarrow> gguf_error + (bytes \<times> gguf_value) \<times> cursor" where
  "read_kv c =
    and_then (read_string (bytes_of ''<key>'') c) (\<lambda>(key, c1).
      and_then (read_u32 c1) (\<lambda>(tag, c2).
        case from_tag tag of
          None \<Rightarrow> Inl (UnknownValueType key tag (offset c1))
        | Some vt \<Rightarrow> and_then (read_value key vt c2) (\<lambda>(value, c3). Inr ((key, value), c3))))"

section \<open>Tensor descriptions\<close>

fun read_dims ::
  "bytes \<Rightarrow> u32 \<Rightarrow> nat \<Rightarrow> nat \<Rightarrow> u64 list \<Rightarrow> cursor \<Rightarrow> gguf_error + u64 list \<times> cursor" where
  "read_dims name n_dims 0 index dims c = Inr (dims, c)"
| "read_dims name n_dims (Suc k) index dims c =
    and_then (read_u64 c) (\<lambda>(extent, c).
      if index < length dims
      then read_dims name n_dims k (Suc index) (dims[index := extent]) c
      else Inl (TooManyDimensions name n_dims MAX_DIMS))"

definition read_tensor_info :: "cursor \<Rightarrow> gguf_error + tensor_info \<times> cursor" where
  "read_tensor_info c =
    and_then (read_string (bytes_of ''<tensor name>'') c) (\<lambda>(name, c).
      and_then (read_u32 c) (\<lambda>(n_dims, c).
        if n_dims > MAX_DIMS then Inl (TooManyDimensions name n_dims MAX_DIMS)
        else and_then (read_dims name n_dims (unat n_dims) 0 (replicate (unat MAX_DIMS) 1) c)
          (\<lambda>(dims, c).
            and_then (read_u32 c) (\<lambda>(type_id, c).
              and_then (read_u64 c) (\<lambda>(off, c).
                let info = \<lparr>ti_name = name, ti_dims = dims, ti_n_dims = n_dims,
                            ti_ggml_type = from_id type_id, ti_offset = off\<rparr>
                in if elements info = None then Inl (DimensionOverflow name)
                   else Inr (info, c))))))"

section \<open>The file\<close>

fun read_kvs ::
  "nat \<Rightarrow> (bytes \<rightharpoonup> gguf_value) \<Rightarrow> cursor \<Rightarrow> gguf_error + (bytes \<rightharpoonup> gguf_value) \<times> cursor" where
  "read_kvs 0 metadata c = Inr (metadata, c)"
| "read_kvs (Suc n) metadata c =
    and_then (read_kv c) (\<lambda>((key, value), c).
      and_then (check_metadata_budget c) (\<lambda>_.
        read_kvs n (metadata(key \<mapsto> value)) c))"

fun read_tensors ::
  "nat \<Rightarrow> tensor_info list \<Rightarrow> cursor \<Rightarrow> gguf_error + tensor_info list \<times> cursor" where
  "read_tensors 0 tensors c = Inr (tensors, c)"
| "read_tensors (Suc n) tensors c =
    and_then (read_tensor_info c) (\<lambda>(info, c).
      and_then (check_metadata_budget c) (\<lambda>_.
        read_tensors n (tensors @ [info]) c))"

definition is_power_of_two :: "u64 \<Rightarrow> bool" where
  "is_power_of_two w \<longleftrightarrow> list_ex (\<lambda>k. w = 2 ^ k) [0..<64]"

definition resolve_alignment :: "(bytes \<rightharpoonup> gguf_value) \<Rightarrow> gguf_error + u64" where
  "resolve_alignment metadata =
    (case metadata ALIGNMENT_KEY of
       None \<Rightarrow> Inr DEFAULT_ALIGNMENT
     | Some v \<Rightarrow>
         let alignment = (case as_u64 v of None \<Rightarrow> 0 | Some a \<Rightarrow> a)
         in if alignment = 0 \<or> \<not> is_power_of_two alignment
            then Inl (ImplausibleCount ''byte alignment (must be a power of two)''
                        alignment DEFAULT_ALIGNMENT 0)
            else Inr alignment)"

fun verify_tensors :: "u64 \<Rightarrow> u64 \<Rightarrow> tensor_info list \<Rightarrow> gguf_error + unit" where
  "verify_tensors data_offset fsize [] = Inr ()"
| "verify_tensors data_offset fsize (tensor # tensors) =
    (case byte_size tensor of
       None \<Rightarrow> verify_tensors data_offset fsize tensors
     | Some sz \<Rightarrow>
         if sat_add (sat_add data_offset (ti_offset tensor)) sz > fsize
         then Inl (Truncated (sat_add data_offset (ti_offset tensor)) sz
                     (sat_sub fsize (sat_add data_offset (ti_offset tensor))))
         else verify_tensors data_offset fsize tensors)"

definition verify_tensor_data_present :: "gguf_file \<Rightarrow> gguf_error + unit" where
  "verify_tensor_data_present f =
    verify_tensors (gf_data_offset f) (gf_file_size f) (gf_tensors f)"

definition parse_body :: "u32 \<Rightarrow> u64 \<Rightarrow> u64 \<Rightarrow> u64 \<Rightarrow> cursor \<Rightarrow> gguf_error + gguf_file \<times> cursor" where
  "parse_body version tensor_count kv_count fsize c =
    and_then (ensure_fits ''metadata keys'' (sat_mul kv_count MIN_KV_BYTES) (remaining c) (offset c))
      (\<lambda>_. and_then (read_kvs (unat kv_count) Map.empty c) (\<lambda>(metadata, c).
        and_then (resolve_alignment metadata) (\<lambda>alignment.
          and_then (ensure_fits ''tensors'' (sat_mul tensor_count MIN_TENSOR_BYTES)
                      (remaining c) (offset c)) (\<lambda>_.
            and_then (read_tensors (unat tensor_count) [] c) (\<lambda>(tensors, c).
              Inr (\<lparr>gf_version = version, gf_alignment = alignment, gf_metadata = metadata,
                    gf_tensors = tensors,
                    gf_data_offset = (if tensors = [] then offset c else align_up (offset c) alignment),
                    gf_file_size = fsize\<rparr>, c))))))"

definition parse_header :: "u64 \<Rightarrow> cursor \<Rightarrow> gguf_error + gguf_file \<times> cursor" where
  "parse_header fsize c =
    and_then (read_array 4 c) (\<lambda>(magic, c).
      if magic \<noteq> MAGIC then Inl (BadMagic magic)
      else and_then (read_u32 c) (\<lambda>(version, c).
        if \<not> (MIN_VERSION \<le> version \<and> version \<le> MAX_VERSION)
        then Inl (UnsupportedVersion version MIN_VERSION MAX_VERSION)
        else and_then (read_u64 c) (\<lambda>(tensor_count, c).
          and_then (read_u64 c) (\<lambda>(kv_count, c).
            parse_body version tensor_count kv_count fsize c))))"

definition parse :: "cursor \<Rightarrow> u64 \<Rightarrow> bool \<Rightarrow> gguf_error + gguf_file" where
  "parse c fsize verify_data =
    and_then (parse_header fsize c) (\<lambda>(file, _).
      if verify_data
      then and_then (verify_tensor_data_present file) (\<lambda>_. Inr file)
      else Inr file)"

text \<open>
  \<open>open_inner\<close> on the contents of the file at the path, \<open>None\<close> when it cannot be opened, and the
  two public entry points.
\<close>

definition file_cursor :: "bytes \<Rightarrow> read_limits \<Rightarrow> cursor" where
  "file_cursor contents lim =
    \<lparr>inner = contents, offset = 0, file_size = word_of_nat (length contents), limits = lim\<rparr>"

definition open_inner :: "bytes option \<Rightarrow> read_limits \<Rightarrow> bool \<Rightarrow> gguf_error + gguf_file" where
  "open_inner file lim verify_data =
    (case file of
       None \<Rightarrow> Inl OpenE
     | Some contents \<Rightarrow>
         parse (file_cursor contents lim) (word_of_nat (length contents)) verify_data)"

definition open_with_limits :: "bytes option \<Rightarrow> read_limits \<Rightarrow> gguf_error + gguf_file" where
  "open_with_limits file lim = open_inner file lim True"

definition open_header_only :: "bytes option \<Rightarrow> gguf_error + gguf_file" where
  "open_header_only file = open_inner file default_limits False"

section \<open>Reading a parsed file\<close>

definition tensor_data_bytes :: "gguf_file \<Rightarrow> u64" where
  "tensor_data_bytes f = sat_sub (gf_file_size f) (gf_data_offset f)"

definition get_u64 :: "gguf_file \<Rightarrow> bytes \<Rightarrow> u64 option" where
  "get_u64 f key = Option.bind (gf_metadata f key) as_u64"

definition get_array :: "gguf_file \<Rightarrow> bytes \<Rightarrow> array_summary option" where
  "get_array f key = Option.bind (gf_metadata f key) as_array"

fun sum_checked :: "('a \<Rightarrow> u64 option) \<Rightarrow> u64 \<Rightarrow> 'a list \<Rightarrow> u64 option" where
  "sum_checked g acc [] = Some acc"
| "sum_checked g acc (x # xs) =
    (case g x of
       None \<Rightarrow> None
     | Some n \<Rightarrow> (case checked_add acc n of None \<Rightarrow> None | Some acc' \<Rightarrow> sum_checked g acc' xs))"

definition parameter_count :: "gguf_file \<Rightarrow> u64 option" where
  "parameter_count f = sum_checked elements 0 (gf_tensors f)"

definition weight_bytes :: "gguf_file \<Rightarrow> u64 option" where
  "weight_bytes f = sum_checked byte_size 0 (gf_tensors f)"

fun read_elements :: "nat \<Rightarrow> u64 \<Rightarrow> u64 \<Rightarrow> u64 \<Rightarrow> bytes \<Rightarrow> gguf_error + u64 list" where
  "read_elements 0 index width base bs = Inr []"
| "read_elements (Suc k) index width base bs =
    (case read_exact (unat width) bs of
       None \<Rightarrow> Inl (ReadE (sat_add base (sat_mul index width)))
     | Some (slot, rest) \<Rightarrow>
         and_then (read_elements k (index + 1) width base rest) (\<lambda>out.
           Inr (decode_unsigned slot # out)))"

definition read_u64_array :: "bytes option \<Rightarrow> gguf_file \<Rightarrow> bytes \<Rightarrow> gguf_error + u64 list option" where
  "read_u64_array file f key =
    (case get_array f key of
       None \<Rightarrow> Inr (map_option (\<lambda>value. [value]) (get_u64 f key))
     | Some summary \<Rightarrow>
         (case fixed_width (as_element_type summary) of
            None \<Rightarrow> Inr None
          | Some width \<Rightarrow>
              (case file of
                 None \<Rightarrow> Inl OpenE
               | Some contents \<Rightarrow>
                   and_then (read_elements (unat (as_len summary)) 0 width (as_offset summary)
                              (drop (unat (as_offset summary)) contents)) (\<lambda>out.
                     Inr (Some out)))))"

end
