(* ===== verification/Gguf_Safety.thy ===== *)
theory Gguf_Safety
  imports Gguf_Reader
begin

text \<open>
  What the reader's module comment promises, as laws. \<open>cursor_reader\<close> is the contract of every
  read: on a cursor whose \<open>offset\<close> agrees with the bytes left, a read either consumes a prefix of
  those bytes and moves the offset by exactly that much, or fails with a parse error, never with an
  I/O error (each read is refused before it is attempted); and what it returns depends only on the
  prefix it consumed. The laws are closed under sequencing, so every operation of the reader up to
  \<open>parse_header\<close> is an interpretation.
\<close>

section \<open>Cursors\<close>

definition cursor_ok :: "cursor \<Rightarrow> bool" where
  "cursor_ok c \<longleftrightarrow> unat (offset c) + length (inner c) = unat (file_size c)"

definition advance :: "nat \<Rightarrow> cursor \<Rightarrow> cursor" where
  "advance n c = c\<lparr>inner := drop n (inner c), offset := offset c + word_of_nat n\<rparr>"

definition extend :: "bytes \<Rightarrow> cursor \<Rightarrow> cursor" where
  "extend xs c = c\<lparr>inner := inner c @ xs, file_size := file_size c + word_of_nat (length xs)\<rparr>"

definition room :: "bytes \<Rightarrow> cursor \<Rightarrow> bool" where
  "room xs c \<longleftrightarrow> unat (file_size c) + length xs < 2 ^ 64"

lemma advance_simps [simp]:
  "inner (advance n c) = drop n (inner c)"
  "file_size (advance n c) = file_size c"
  "limits (advance n c) = limits c"
  by (simp_all add: advance_def)

lemma extend_simps [simp]:
  "inner (extend xs c) = inner c @ xs"
  "offset (extend xs c) = offset c"
  "limits (extend xs c) = limits c"
  by (simp_all add: extend_def)

lemma unat_word_of_nat_small: "n < 2 ^ 64 \<Longrightarrow> unat (word_of_nat n :: u64) = n"
  by (simp add: unat_of_nat take_bit_eq_mod)

lemma cursor_ok_bounds:
  assumes "cursor_ok c"
  shows "length (inner c) < 2 ^ 64" "unat (offset c) + length (inner c) < 2 ^ 64"
  using assms unat_lt_two_power [of "file_size c"] by (simp_all add: cursor_ok_def)

lemma remaining_ok: "cursor_ok c \<Longrightarrow> unat (remaining c) = length (inner c)"
  by (simp add: remaining_def unat_sat_sub cursor_ok_def)

lemma need_ok:
  assumes "cursor_ok c"
  shows "need c n =
    (if unat n \<le> length (inner c) then Inr () else Inl (Truncated (offset c) n (remaining c)))"
  using remaining_ok [OF assms] by (auto simp: need_def word_less_nat_alt)

lemma unat_offset_advance:
  assumes "cursor_ok c" "n \<le> length (inner c)"
  shows "unat (offset (advance n c)) = unat (offset c) + n"
proof -
  have "n < 2 ^ 64" and "unat (offset c) + n < 2 ^ 64"
    using cursor_ok_bounds [OF assms(1)] assms(2) by simp_all
  then show ?thesis
    by (simp add: advance_def unat_add_small unat_word_of_nat_small)
qed

lemma cursor_ok_advance: "cursor_ok c \<Longrightarrow> n \<le> length (inner c) \<Longrightarrow> cursor_ok (advance n c)"
  using unat_offset_advance by (simp add: cursor_ok_def)

lemma advance_advance [simp]: "advance m (advance n c) = advance (n + m) c"
  by (simp add: advance_def add.commute)

lemma advance_0 [simp]: "advance 0 c = c"
  by (simp add: advance_def)

lemma advance_extend: "n \<le> length (inner c) \<Longrightarrow> advance n (extend xs c) = extend xs (advance n c)"
  by (simp add: advance_def extend_def)

lemma unat_file_size_extend:
  assumes "room xs c"
  shows "unat (file_size (extend xs c)) = unat (file_size c) + length xs"
proof -
  have "length xs < 2 ^ 64" using assms by (simp add: room_def)
  then have "unat (word_of_nat (length xs) :: u64) = length xs" by (rule unat_word_of_nat_small)
  with assms show ?thesis by (simp add: extend_def unat_add_small room_def)
qed

lemma cursor_ok_extend: "cursor_ok c \<Longrightarrow> room xs c \<Longrightarrow> cursor_ok (extend xs c)"
  by (simp add: cursor_ok_def unat_file_size_extend)

lemma room_advance [simp]: "room xs (advance n c) = room xs c"
  by (simp add: room_def)

lemma remaining_extend_le:
  "cursor_ok c \<Longrightarrow> room xs c \<Longrightarrow> n \<le> remaining c \<Longrightarrow> n \<le> remaining (extend xs c)"
  using remaining_ok [of c] remaining_ok [of "extend xs c"] cursor_ok_extend [of c xs]
  by (simp add: word_le_nat_alt)

lemma offset_word_add:
  assumes "cursor_ok c" "unat w \<le> length (inner c)"
  shows "sat_add (offset c) w = offset c + w"
  using cursor_ok_bounds [OF assms(1)] assms(2) by (intro sat_add_small) simp

section \<open>The contract of a read\<close>

locale cursor_reader =
  fixes r :: "cursor \<Rightarrow> gguf_error + 'a \<times> cursor"
  assumes consumes:
      "cursor_ok c \<Longrightarrow> r c = Inr (v, c') \<Longrightarrow> \<exists>n \<le> length (inner c). c' = advance n c"
    and no_io: "cursor_ok c \<Longrightarrow> r c = Inl e \<Longrightarrow> \<not> is_io_error e"
    and prefix_only:
      "cursor_ok c \<Longrightarrow> room xs c \<Longrightarrow> r c = Inr (v, c') \<Longrightarrow>
        r (extend xs c) = Inr (v, extend xs c')"
begin

lemma keeps_ok: "cursor_ok c \<Longrightarrow> r c = Inr (v, c') \<Longrightarrow> cursor_ok c'"
  using consumes cursor_ok_advance by blast

lemma keeps_frame:
  assumes "cursor_ok c" "r c = Inr (v, c')"
  shows "file_size c' = file_size c" "limits c' = limits c" "room xs c' = room xs c"
  using consumes [OF assms] by (auto simp: room_def)

lemma offset_moves:
  assumes "cursor_ok c" "r c = Inr (v, c')"
  shows "unat (offset c') + length (inner c') = unat (offset c) + length (inner c)"
    "unat (offset c) \<le> unat (offset c')"
  using consumes [OF assms] unat_offset_advance [OF assms(1)] by auto

end

lemma readerI:
  assumes "\<And>c. cursor_ok c \<Longrightarrow> \<exists>f n e. \<not> is_io_error e \<and>
      r c = (if n \<le> length (inner c) then Inr (f, advance n c) else Inl e) \<and>
      (n \<le> length (inner c) \<longrightarrow>
        (\<forall>xs. room xs c \<longrightarrow> r (extend xs c) = Inr (f, advance n (extend xs c))))"
  shows "cursor_reader r"
proof unfold_locales
  fix c v c' assume c: "cursor_ok c" "r c = Inr (v, c')"
  with assms [OF c(1)] show "\<exists>n \<le> length (inner c). c' = advance n c"
    by (fastforce split: if_splits)
next
  fix c e assume c: "cursor_ok c" "r c = Inl e"
  with assms [OF c(1)] show "\<not> is_io_error e"
    by (fastforce split: if_splits)
next
  fix c xs v c' assume c: "cursor_ok c" "room xs c" "r c = Inr (v, c')"
  with assms [OF c(1)] show "r (extend xs c) = Inr (v, extend xs c')"
    by (fastforce simp: advance_extend split: if_splits)
qed

subsection \<open>Closure under the reader's combinators\<close>

lemma reader_return: "cursor_reader (\<lambda>c. Inr (v, c))"
  by unfold_locales (auto intro: exI [of _ 0])

lemma reader_fail: "\<not> is_io_error e \<Longrightarrow> cursor_reader (\<lambda>c. Inl e)"
  by unfold_locales auto

lemma reader_seq_at:
  assumes r: "cursor_reader r" and k: "\<And>off v. cursor_reader (k off v)"
  shows "cursor_reader (\<lambda>c. and_then (r c) (\<lambda>(v, c'). k (offset c) v c'))"
proof unfold_locales
  fix c v c'
  assume c: "cursor_ok c" and *: "and_then (r c) (\<lambda>(v, c'). k (offset c) v c') = Inr (v, c')"
  then obtain u d where u: "r c = Inr (u, d)" and d: "k (offset c) u d = Inr (v, c')"
    by (auto simp: and_then_Inr_iff)
  from cursor_reader.consumes [OF r c u] obtain n where n: "n \<le> length (inner c)" "d = advance n c"
    by blast
  from cursor_reader.consumes [OF k cursor_reader.keeps_ok [OF r c u] d]
  obtain m where "m \<le> length (inner d)" "c' = advance m d" by blast
  with n have "n + m \<le> length (inner c)" "c' = advance (n + m) c" by auto
  then show "\<exists>n \<le> length (inner c). c' = advance n c" by blast
next
  fix c e
  assume c: "cursor_ok c" and *: "and_then (r c) (\<lambda>(v, c'). k (offset c) v c') = Inl e"
  then consider "r c = Inl e" | u d where "r c = Inr (u, d)" "k (offset c) u d = Inl e"
    by (auto simp: and_then_Inl_iff)
  then show "\<not> is_io_error e"
    using cursor_reader.no_io [OF r c] cursor_reader.no_io [OF k cursor_reader.keeps_ok [OF r c]]
    by cases blast+
next
  fix c xs v c'
  assume c: "cursor_ok c" "room xs c"
    and *: "and_then (r c) (\<lambda>(v, c'). k (offset c) v c') = Inr (v, c')"
  then obtain u d where u: "r c = Inr (u, d)" and d: "k (offset c) u d = Inr (v, c')"
    by (auto simp: and_then_Inr_iff)
  have "r (extend xs c) = Inr (u, extend xs d)"
    by (rule cursor_reader.prefix_only [OF r c u])
  moreover have "k (offset c) u (extend xs d) = Inr (v, extend xs c')"
    using cursor_reader.prefix_only [OF k _ _ d] cursor_reader.keeps_ok [OF r c(1) u]
      cursor_reader.keeps_frame(3) [OF r c(1) u] c(2) by blast
  ultimately show "and_then (r (extend xs c)) (\<lambda>(v, c'). k (offset (extend xs c)) v c')
      = Inr (v, extend xs c')" by simp
qed

lemma reader_seq:
  "cursor_reader r \<Longrightarrow> (\<And>v. cursor_reader (k v)) \<Longrightarrow>
    cursor_reader (\<lambda>c. and_then (r c) (\<lambda>(v, c'). k v c'))"
  using reader_seq_at [of r "\<lambda>off v. k v"] by simp

lemma reader_map: "cursor_reader r \<Longrightarrow> cursor_reader (\<lambda>c. and_then (r c) (\<lambda>(v, c'). Inr (f v, c')))"
  by (rule reader_seq, assumption, rule reader_return)

text \<open>A check that looks at the cursor and may refuse, before the rest of the body.\<close>

lemma reader_guard:
  assumes io: "\<And>c e. cursor_ok c \<Longrightarrow> g c = Inl e \<Longrightarrow> \<not> is_io_error e"
    and ext: "\<And>c xs. cursor_ok c \<Longrightarrow> room xs c \<Longrightarrow> g c = Inr () \<Longrightarrow> g (extend xs c) = Inr ()"
    and k: "cursor_reader k"
  shows "cursor_reader (\<lambda>c. and_then (g c) (\<lambda>_. k c))"
proof unfold_locales
  fix c v c' assume "cursor_ok c" "and_then (g c) (\<lambda>_. k c) = Inr (v, c')"
  then show "\<exists>n \<le> length (inner c). c' = advance n c"
    using cursor_reader.consumes [OF k] by (auto simp: and_then_Inr_iff)
next
  fix c e assume "cursor_ok c" "and_then (g c) (\<lambda>_. k c) = Inl e"
  then show "\<not> is_io_error e"
    using cursor_reader.no_io [OF k] io by (auto simp: and_then_Inl_iff)
next
  fix c xs v c' assume "cursor_ok c" "room xs c" "and_then (g c) (\<lambda>_. k c) = Inr (v, c')"
  then show "and_then (g (extend xs c)) (\<lambda>_. k (extend xs c)) = Inr (v, extend xs c')"
    using cursor_reader.prefix_only [OF k] ext by (auto simp: and_then_Inr_iff)
qed

lemma reader_if:
  "(b \<Longrightarrow> cursor_reader r) \<Longrightarrow> (\<not> b \<Longrightarrow> cursor_reader s) \<Longrightarrow> cursor_reader (\<lambda>c. if b then r c else s c)"
  by (cases b) auto

lemma reader_check:
  assumes io: "\<And>c. \<not> is_io_error (e c)" and ext: "\<And>c xs. P (extend xs c) = P c"
    and k: "cursor_reader k"
  shows "cursor_reader (\<lambda>c. if P c then Inl (e c) else k c)"
proof unfold_locales
  fix c v c' assume "cursor_ok c" "(if P c then Inl (e c) else k c) = Inr (v, c')"
  then show "\<exists>n \<le> length (inner c). c' = advance n c"
    using cursor_reader.consumes [OF k] by (auto split: if_splits)
next
  fix c e' assume "cursor_ok c" "(if P c then Inl (e c) else k c) = Inl e'"
  then show "\<not> is_io_error e'"
    using cursor_reader.no_io [OF k] io by (auto split: if_splits)
next
  fix c xs v c' assume "cursor_ok c" "room xs c" "(if P c then Inl (e c) else k c) = Inr (v, c')"
  then show "(if P (extend xs c) then Inl (e (extend xs c)) else k (extend xs c))
      = Inr (v, extend xs c')"
    using cursor_reader.prefix_only [OF k] by (auto simp: ext split: if_splits)
qed

lemmas reader_intros = reader_return reader_fail reader_if reader_check

section \<open>The operations\<close>

lemma read_bytes_ok:
  assumes "cursor_ok c"
  shows "read_bytes len c =
    (if unat len \<le> length (inner c)
     then Inr (take (unat len) (inner c), advance (unat len) c)
     else Inl (Truncated (offset c) len (remaining c)))"
  using offset_word_add [OF assms, of len]
  by (auto simp: read_bytes_def need_ok [OF assms] read_exact_def advance_def)

lemma read_array_ok:
  assumes "cursor_ok c" "n < 2 ^ 64"
  shows "read_array n c =
    (if n \<le> length (inner c) then Inr (take n (inner c), advance n c)
     else Inl (Truncated (offset c) (word_of_nat n) (remaining c)))"
  using read_bytes_ok [OF assms(1), of "word_of_nat n"] unat_word_of_nat_small [OF assms(2)]
  by (simp add: read_bytes_def read_array_def)

lemma skip_ok:
  assumes "cursor_ok c"
  shows "skip len c =
    (if unat len \<le> length (inner c) then
       if unat len \<ge> 2 ^ 63
       then Inl (ImplausibleCount ''bytes to skip'' len (remaining c) (offset c))
       else Inr ((), advance (unat len) c)
     else Inl (Truncated (offset c) len (remaining c)))"
  using offset_word_add [OF assms, of len]
  by (auto simp: skip_def need_ok [OF assms] advance_def)

lemma reader_read_bytes: "cursor_reader (read_bytes len)"
proof (rule readerI)
  fix c assume c: "cursor_ok c"
  show "\<exists>f n e. \<not> is_io_error e \<and>
      read_bytes len c = (if n \<le> length (inner c) then Inr (f, advance n c) else Inl e) \<and>
      (n \<le> length (inner c) \<longrightarrow>
        (\<forall>xs. room xs c \<longrightarrow> read_bytes len (extend xs c) = Inr (f, advance n (extend xs c))))"
    by (rule exI [of _ "take (unat len) (inner c)"], rule exI [of _ "unat len"],
        rule exI [of _ "Truncated (offset c) len (remaining c)"])
      (simp add: c read_bytes_ok cursor_ok_extend)
qed

lemma reader_read_array: "n < 2 ^ 64 \<Longrightarrow> cursor_reader (read_array n)"
  using reader_read_bytes [of "word_of_nat n"] unat_word_of_nat_small [of n]
  by (simp add: read_bytes_def [abs_def] read_array_def [abs_def])

lemma reader_skip: "cursor_reader (skip len)"
proof (rule readerI)
  fix c assume c: "cursor_ok c"
  let ?e = "if unat len \<le> length (inner c)
      then ImplausibleCount ''bytes to skip'' len (remaining c) (offset c)
      else Truncated (offset c) len (remaining c)"
  show "\<exists>f n e. \<not> is_io_error e \<and>
      skip len c = (if n \<le> length (inner c) then Inr (f, advance n c) else Inl e) \<and>
      (n \<le> length (inner c) \<longrightarrow>
        (\<forall>xs. room xs c \<longrightarrow> skip len (extend xs c) = Inr (f, advance n (extend xs c))))"
    by (rule exI [of _ "()"],
        rule exI [of _ "if unat len \<ge> 2 ^ 63 then Suc (length (inner c)) else unat len"],
        rule exI [of _ ?e])
      (simp add: c skip_ok cursor_ok_extend)
qed

lemma reader_scalars:
  "cursor_reader read_u8" "cursor_reader read_u16" "cursor_reader read_u32" "cursor_reader read_u64"
  unfolding read_u8_def [abs_def] read_u16_def [abs_def] read_u32_def [abs_def] read_u64_def [abs_def]
  by (rule reader_map, rule reader_read_array, simp)+

lemma reader_read_string: "cursor_reader (read_string context)"
proof -
  have k: "cursor_reader (\<lambda>c. if len > max_string_bytes (limits c)
      then Inl (ImplausibleCount ''string bytes'' len (max_string_bytes (limits c)) (offset c))
      else and_then (read_bytes len c) (\<lambda>(bs, c').
        if utf8_valid bs then Inr (bs, c') else Inl (InvalidUtf8 context (offset c))))" for len
    by (intro reader_check reader_seq_at [where k = "\<lambda>off bs c'.
          if utf8_valid bs then Inr (bs, c') else Inl (InvalidUtf8 context off)"]
        reader_read_bytes reader_if reader_return reader_fail) simp_all
  show ?thesis
    unfolding read_string_def [abs_def] by (rule reader_seq [OF reader_scalars(4) k])
qed

lemma reader_skip_strings: "cursor_reader (skip_strings n)"
proof (induction n)
  case 0
  show ?case unfolding skip_strings.simps [abs_def] by (rule reader_return)
next
  case (Suc n)
  have k: "cursor_reader (\<lambda>c. if len > max_string_bytes (limits c)
      then Inl (ImplausibleCount ''string bytes'' len (max_string_bytes (limits c)) (offset c))
      else and_then (skip len c) (\<lambda>(_, c). skip_strings n c))" for len
    by (intro reader_check reader_seq reader_skip Suc) simp_all
  show ?case
    unfolding skip_strings.simps [abs_def] by (rule reader_seq [OF reader_scalars(4) k])
qed

lemma reader_ensure_fits:
  assumes "cursor_reader k"
  shows "cursor_reader (\<lambda>c. and_then (ensure_fits what n (remaining c) (offset c)) (\<lambda>_. k c))"
  by (rule reader_guard [OF _ _ assms])
    (auto dest: ensure_fits_Inl intro: remaining_extend_le)

lemma reader_budget:
  assumes "cursor_reader k"
  shows "cursor_reader (\<lambda>c. and_then (check_metadata_budget c) (\<lambda>_. k c))"
  by (rule reader_guard [OF _ _ assms])
    (auto simp: check_metadata_budget_def split: if_splits)

lemma reader_skip_elements: "cursor_reader (skip_elements t len)"
proof (cases "t = StringT")
  case True
  show ?thesis
    unfolding skip_elements_def [abs_def] if_P [OF True]
    by (intro reader_ensure_fits reader_seq_at [where k = "\<lambda>off _ c'.
          Inr (sat_sub (offset c') off, c')"] reader_skip_strings)
      (unfold_locales, auto intro: exI [of _ 0])
next
  case False
  have "cursor_reader (\<lambda>c. and_then (skip n c) (\<lambda>(_, c'). Inr (n, c')))" for n
    by (rule reader_map [OF reader_skip])
  moreover have "cursor_reader (\<lambda>c. Inl (ImplausibleCount ''array elements'' len (remaining c)
      (offset c)) :: gguf_error + u64 \<times> cursor)"
    by unfold_locales auto
  ultimately show ?thesis
    unfolding skip_elements_def [abs_def] if_not_P [OF False]
    by (cases "fixed_array_byte_len t len") simp_all
qed

lemma reader_read_array_summary: "cursor_reader (read_array_summary key)"
proof -
  have 1: "cursor_reader (\<lambda>c2. and_then (skip_elements t len c2) (\<lambda>(byte_len, c3).
      Inr (\<lparr>as_element_type = t, as_len = len, as_offset = offset c2, as_byte_len = byte_len\<rparr>, c3)))"
    for t len
    by (rule reader_seq_at [where k = "\<lambda>off byte_len c3. Inr (\<lparr>as_element_type = t, as_len = len,
        as_offset = off, as_byte_len = byte_len\<rparr>, c3)"]) (rule reader_skip_elements reader_return)+
  have 2: "cursor_reader (\<lambda>c1. case from_tag tag of
        None \<Rightarrow> Inl (UnknownValueType key tag off)
      | Some t \<Rightarrow> if t = ArrayT then Inl (NestedArray key off)
          else and_then (read_u64 c1) (\<lambda>(len, c2).
            and_then (skip_elements t len c2) (\<lambda>(byte_len, c3).
              Inr (\<lparr>as_element_type = t, as_len = len, as_offset = offset c2,
                    as_byte_len = byte_len\<rparr>, c3))))" for tag off
    by (cases "from_tag tag")
      (auto intro!: reader_fail reader_if reader_seq [OF reader_scalars(4) 1])
  show ?thesis
    unfolding read_array_summary_def [abs_def] by (rule reader_seq_at [OF reader_scalars(3) 2])
qed

lemma reader_read_value: "cursor_reader (read_value key t)"
proof -
  note maps = reader_map [OF reader_scalars(1)] reader_map [OF reader_scalars(2)]
    reader_map [OF reader_scalars(3)] reader_map [OF reader_scalars(4)]
    reader_map [OF reader_read_string] reader_map [OF reader_read_array_summary]
  show ?thesis
    by (cases t) (simp_all add: read_value.simps [abs_def] maps del: read_value.simps)
qed

lemma reader_read_kv: "cursor_reader read_kv"
proof -
  have 1: "cursor_reader (\<lambda>c2. case from_tag tag of
        None \<Rightarrow> Inl (UnknownValueType key tag off)
      | Some vt \<Rightarrow> and_then (read_value key vt c2) (\<lambda>(value, c3). Inr ((key, value), c3)))"
    for key tag off
    by (cases "from_tag tag") (auto intro: reader_fail reader_map [OF reader_read_value])
  have 2: "cursor_reader (\<lambda>c1. and_then (read_u32 c1) (\<lambda>(tag, c2). case from_tag tag of
        None \<Rightarrow> Inl (UnknownValueType key tag (offset c1))
      | Some vt \<Rightarrow> and_then (read_value key vt c2) (\<lambda>(value, c3). Inr ((key, value), c3))))" for key
    by (rule reader_seq_at [OF reader_scalars(3) 1])
  show ?thesis
    unfolding read_kv_def [abs_def] by (rule reader_seq [OF reader_read_string 2])
qed

lemma reader_read_dims: "cursor_reader (read_dims name n_dims k index dims)"
proof (induction k arbitrary: index dims)
  case 0
  show ?case unfolding read_dims.simps [abs_def] by (rule reader_return)
next
  case (Suc k)
  show ?case
    unfolding read_dims.simps [abs_def]
    by (intro reader_seq reader_scalars reader_if Suc reader_fail) simp
qed

lemma reader_read_tensor_info: "cursor_reader read_tensor_info"
proof -
  have 1: "cursor_reader (\<lambda>c. let info = \<lparr>ti_name = name, ti_dims = dims, ti_n_dims = n_dims,
        ti_ggml_type = from_id i, ti_offset = off\<rparr>
      in if elements info = None then Inl (DimensionOverflow name) else Inr (info, c))"
    for name dims n_dims i off
    unfolding Let_def by (intro reader_if reader_return reader_fail) simp
  show ?thesis
    unfolding read_tensor_info_def [abs_def]
    by (intro reader_seq reader_read_string reader_scalars reader_if reader_fail
        reader_read_dims 1) simp
qed

lemma reader_read_kvs: "cursor_reader (read_kvs n m)"
proof (induction n arbitrary: m)
  case 0
  show ?case unfolding read_kvs.simps [abs_def] by (rule reader_return)
next
  case (Suc n)
  have "cursor_reader (\<lambda>c. case kv of (key, v) \<Rightarrow>
      and_then (check_metadata_budget c) (\<lambda>_. read_kvs n (m(key \<mapsto> v)) c))" for kv
    by (cases kv) (simp add: reader_budget [OF Suc])
  from reader_seq [OF reader_read_kv this] show ?case
    unfolding read_kvs.simps [abs_def] by (simp add: case_prod_unfold)
qed

lemma reader_read_tensors: "cursor_reader (read_tensors n ts)"
proof (induction n arbitrary: ts)
  case 0
  show ?case unfolding read_tensors.simps [abs_def] by (rule reader_return)
next
  case (Suc n)
  show ?case
    unfolding read_tensors.simps [abs_def]
    by (intro reader_seq reader_read_tensor_info reader_budget Suc)
qed

lemma reader_parse_body: "cursor_reader (parse_body version tc kc fsize)"
proof -
  have 1: "cursor_reader (\<lambda>c. Inr (\<lparr>gf_version = version, gf_alignment = a, gf_metadata = m,
      gf_tensors = ts, gf_data_offset = (if ts = [] then offset c else align_up (offset c) a),
      gf_file_size = fsize\<rparr>, c))" for a m ts
    by unfold_locales (auto intro: exI [of _ 0])
  have 2: "cursor_reader (\<lambda>c. and_then (resolve_alignment m) (\<lambda>a.
      and_then (ensure_fits ''tensors'' (sat_mul tc MIN_TENSOR_BYTES) (remaining c) (offset c)) (\<lambda>_.
        and_then (read_tensors (unat tc) [] c) (\<lambda>(ts, c).
          Inr (\<lparr>gf_version = version, gf_alignment = a, gf_metadata = m, gf_tensors = ts,
            gf_data_offset = (if ts = [] then offset c else align_up (offset c) a),
            gf_file_size = fsize\<rparr>, c)))))" for m
    by (cases "resolve_alignment m")
      (auto simp: resolve_alignment_def Let_def split: option.splits if_splits
        intro!: reader_fail reader_ensure_fits reader_seq [OF reader_read_tensors 1])
  show ?thesis
    unfolding parse_body_def [abs_def]
    by (intro reader_ensure_fits reader_seq [OF reader_read_kvs 2])
qed

lemma reader_parse_header: "cursor_reader (parse_header fsize)"
  unfolding parse_header_def [abs_def]
  by (intro reader_seq reader_read_array reader_scalars reader_if reader_fail reader_parse_body)
    simp_all

text \<open>Every operation of the cursor keeps the contract.\<close>

interpretation read_u8: cursor_reader read_u8 by (rule reader_scalars)
interpretation read_u16: cursor_reader read_u16 by (rule reader_scalars)
interpretation read_u32: cursor_reader read_u32 by (rule reader_scalars)
interpretation read_u64: cursor_reader read_u64 by (rule reader_scalars)
interpretation read_bytes: cursor_reader "read_bytes len" for len by (rule reader_read_bytes)
interpretation skip: cursor_reader "skip len" for len by (rule reader_skip)
interpretation read_string: cursor_reader "read_string ctx" for ctx
  by (rule reader_read_string)
interpretation read_array_summary: cursor_reader "read_array_summary key" for key
  by (rule reader_read_array_summary)
interpretation read_kv: cursor_reader read_kv by (rule reader_read_kv)
interpretation read_tensor_info: cursor_reader read_tensor_info by (rule reader_read_tensor_info)
interpretation read_kvs: cursor_reader "read_kvs n m" for n m by (rule reader_read_kvs)
interpretation read_tensors: cursor_reader "read_tensors n ts" for n ts by (rule reader_read_tensors)
interpretation header: cursor_reader "parse_header fsize" for fsize by (rule reader_parse_header)

end
