(* ===== verification/Gguf_Writer.thy ===== *)
theory Gguf_Writer
  imports Gguf_Safety
begin

text \<open>
  The fixture writer, \<open>lightweight-gguf/src/fixture.rs\<close>: the program's second implementation of
  the format. Each Rust function that extends the \<open>out\<close> buffer is the function that returns the
  bytes it appends. \<open>build\<close> returns \<open>None\<close> where the source's assertion on the data size panics.

  The locale \<open>codec\<close> is the agreement between a writer and a reader: reading what was written gives
  the value back and stops exactly at its end. It is interpreted on every pair of the two sources.
\<close>

section \<open>Fixtures\<close>

definition MAX_FIXTURE_DATA_BYTES :: u64 where
  "MAX_FIXTURE_DATA_BYTES = 64 * 1024 * 1024"

datatype fixture_value =
    FixU8 u8 | FixI8 u8 | FixU16 u16 | FixI16 u16 | FixU32 u32 | FixI32 u32 | FixU64 u64
  | FixI64 u64 | FixF32 u32 | FixF64 u64 | FixBool bool | FixStr bytes
  | FixU32Array "u32 list" | FixU64Array "u64 list" | FixF32Array "u32 list"
  | FixStrArray "bytes list"

record fixture_tensor =
  ft_name :: bytes
  ft_dims :: "u64 list"
  ft_ggml_type :: ggml_type

record gguf_builder =
  gb_version :: u32
  gb_alignment :: u64
  gb_metadata :: "(bytes \<times> fixture_value) list"
  gb_tensors :: "fixture_tensor list"

definition builder_new :: gguf_builder where
  "builder_new = \<lparr>gb_version = MAX_VERSION, gb_alignment = DEFAULT_ALIGNMENT, gb_metadata = [],
                  gb_tensors = []\<rparr>"

definition builder_version :: "u32 \<Rightarrow> gguf_builder \<Rightarrow> gguf_builder" where
  "builder_version version b = b\<lparr>gb_version := version\<rparr>"

definition builder_kv :: "bytes \<Rightarrow> fixture_value \<Rightarrow> gguf_builder \<Rightarrow> gguf_builder" where
  "builder_kv key v b = b\<lparr>gb_metadata := gb_metadata b @ [(key, v)]\<rparr>"

definition builder_alignment :: "u64 \<Rightarrow> gguf_builder \<Rightarrow> gguf_builder" where
  "builder_alignment a b =
    builder_kv (bytes_of ''general.alignment'') (FixU32 (ucast a)) (b\<lparr>gb_alignment := a\<rparr>)"

definition builder_tensor :: "bytes \<Rightarrow> u64 list \<Rightarrow> ggml_type \<Rightarrow> gguf_builder \<Rightarrow> gguf_builder" where
  "builder_tensor name dims t b =
    b\<lparr>gb_tensors := gb_tensors b @ [\<lparr>ft_name = name, ft_dims = dims, ft_ggml_type = t\<rparr>]\<rparr>"

section \<open>Writing\<close>

definition u16_le :: "u16 \<Rightarrow> bytes" where "u16_le w = le_bytes 2 (unat w)"
definition u32_le :: "u32 \<Rightarrow> bytes" where "u32_le w = le_bytes 4 (unat w)"
definition u64_le :: "u64 \<Rightarrow> bytes" where "u64_le w = le_bytes 8 (unat w)"

definition write_string :: "bytes \<Rightarrow> bytes" where
  "write_string v = u64_le (word_of_nat (length v)) @ v"

definition write_array_header :: "u32 \<Rightarrow> nat \<Rightarrow> bytes" where
  "write_array_header element_tag len = u32_le 9 @ u32_le element_tag @ u64_le (word_of_nat len)"

fun write_value :: "fixture_value \<Rightarrow> bytes" where
  "write_value (FixU8 v) = u32_le 0 @ [v]"
| "write_value (FixI8 v) = u32_le 1 @ [v]"
| "write_value (FixU16 v) = u32_le 2 @ u16_le v"
| "write_value (FixI16 v) = u32_le 3 @ u16_le v"
| "write_value (FixU32 v) = u32_le 4 @ u32_le v"
| "write_value (FixI32 v) = u32_le 5 @ u32_le v"
| "write_value (FixF32 v) = u32_le 6 @ u32_le v"
| "write_value (FixBool v) = u32_le 7 @ [if v then 1 else 0]"
| "write_value (FixStr v) = u32_le 8 @ write_string v"
| "write_value (FixU64 v) = u32_le 10 @ u64_le v"
| "write_value (FixI64 v) = u32_le 11 @ u64_le v"
| "write_value (FixF64 v) = u32_le 12 @ u64_le v"
| "write_value (FixU32Array items) = write_array_header 4 (length items) @ concat (map u32_le items)"
| "write_value (FixU64Array items) = write_array_header 10 (length items) @ concat (map u64_le items)"
| "write_value (FixF32Array items) = write_array_header 6 (length items) @ concat (map u32_le items)"
| "write_value (FixStrArray items) = write_array_header 8 (length items) @ concat (map write_string items)"

definition write_kv :: "bytes \<times> fixture_value \<Rightarrow> bytes" where
  "write_kv kv = write_string (fst kv) @ write_value (snd kv)"

definition fixture_elements :: "fixture_tensor \<Rightarrow> u64" where
  "fixture_elements t = prod_list (ft_dims t)"

definition fixture_bytes :: "fixture_tensor \<Rightarrow> u64" where
  "fixture_bytes t =
    (case bytes_for_elements (ft_ggml_type t) (fixture_elements t) of
       None \<Rightarrow> fixture_elements t
     | Some n \<Rightarrow> n)"

definition write_tensor :: "u64 \<Rightarrow> fixture_tensor \<Rightarrow> bytes" where
  "write_tensor data_size t =
    write_string (ft_name t) @ u32_le (word_of_nat (length (ft_dims t)))
      @ concat (map u64_le (ft_dims t)) @ u32_le (ggml_id (ft_ggml_type t)) @ u64_le data_size"

fun write_tensors :: "u64 \<Rightarrow> fixture_tensor list \<Rightarrow> bytes \<times> u64" where
  "write_tensors data_size [] = ([], data_size)"
| "write_tensors data_size (t # ts) =
    (let (out, total) = write_tensors (sat_add data_size (fixture_bytes t)) ts
     in (write_tensor data_size t @ out, total))"

definition padding :: "gguf_builder \<Rightarrow> nat \<Rightarrow> bytes" where
  "padding b len =
    (if gb_tensors b \<noteq> [] \<and> gb_alignment b > 0 then
       let remainder = (word_of_nat len :: u64) mod gb_alignment b
       in if remainder \<noteq> 0 then replicate (unat (gb_alignment b - remainder)) 0 else []
     else [])"

definition header_bytes :: "gguf_builder \<Rightarrow> bytes" where
  "header_bytes b =
    MAGIC @ u32_le (gb_version b) @ u64_le (word_of_nat (length (gb_tensors b)))
      @ u64_le (word_of_nat (length (gb_metadata b)))
      @ concat (map write_kv (gb_metadata b)) @ fst (write_tensors 0 (gb_tensors b))"

definition build :: "gguf_builder \<Rightarrow> bytes option" where
  "build b =
    (let out = header_bytes b; data_size = snd (write_tensors 0 (gb_tensors b))
     in if data_size \<le> MAX_FIXTURE_DATA_BYTES
        then Some (out @ padding b (length out) @ replicate (unat data_size) 0)
        else None)"

section \<open>Writers against readers\<close>

locale codec =
  fixes enc :: "'a \<Rightarrow> bytes"
    and dec :: "cursor \<Rightarrow> gguf_error + 'b \<times> cursor"
    and view :: "u64 \<Rightarrow> 'a \<Rightarrow> 'b"
    and fits :: "read_limits \<Rightarrow> 'a \<Rightarrow> bool"
  assumes decode:
    "cursor_ok c \<Longrightarrow> unat (file_size c) < 2 ^ 63 \<Longrightarrow> inner c = enc x @ rest \<Longrightarrow>
      fits (limits c) x \<Longrightarrow> dec c = Inr (view (offset c) x, advance (length (enc x)) c)"
begin

lemma decode_then:
  "cursor_ok c \<Longrightarrow> unat (file_size c) < 2 ^ 63 \<Longrightarrow> inner c = enc x @ rest \<Longrightarrow> fits (limits c) x \<Longrightarrow>
    and_then (dec c) k = k (view (offset c) x, advance (length (enc x)) c)"
  by (simp add: decode)

text \<open>After a decoded item the cursor stands on the bytes that follow it.\<close>

lemma after:
  assumes "cursor_ok c" "inner c = enc x @ rest"
  shows "cursor_ok (advance (length (enc x)) c)" "inner (advance (length (enc x)) c) = rest"
    "unat (offset (advance (length (enc x)) c)) = unat (offset c) + length (enc x)"
  using assms by (auto intro: cursor_ok_advance unat_offset_advance)

end

lemma length_le [simp]:
  "length (u16_le v) = 2" "length (u32_le w) = 4" "length (u64_le x) = 8"
  by (simp_all add: u16_le_def u32_le_def u64_le_def)

lemma word_le_roundtrip [simp]:
  "word_le [b] = (b :: u8)" "word_le (u16_le v) = v" "word_le (u32_le w) = w" "word_le (u64_le x) = x"
proof -
  show "word_le [b] = b" by (simp add: word_le_def)
qed (simp_all add: u16_le_def u32_le_def u64_le_def word_le_le_bytes)

interpretation codec_u8: codec "\<lambda>b. [b]" read_u8 "\<lambda>_ v. v" "\<lambda>_ _. True"
  by unfold_locales (simp add: read_u8_def read_array_ok)

interpretation codec_u16: codec u16_le read_u16 "\<lambda>_ v. v" "\<lambda>_ _. True"
  by unfold_locales (simp add: read_u16_def read_array_ok)

interpretation codec_u32: codec u32_le read_u32 "\<lambda>_ v. v" "\<lambda>_ _. True"
  by unfold_locales (simp add: read_u32_def read_array_ok)

interpretation codec_u64: codec u64_le read_u64 "\<lambda>_ v. v" "\<lambda>_ _. True"
  by unfold_locales (simp add: read_u64_def read_array_ok)

lemmas scalar_decode = codec_u8.decode_then codec_u16.decode_then codec_u32.decode_then
  codec_u64.decode_then

end
