(* ===== verification/Gguf_Roundtrip.thy ===== *)
theory Gguf_Roundtrip
  imports Gguf_Writer
begin

text \<open>
  Reading back what the fixture writer wrote. \<open>view_value\<close> says how a written value looks to the
  reader (an array is a summary with its place in the file), \<open>expected\<close> how a whole builder does;
  the main result is that \<open>open_with_limits\<close> on \<open>build b\<close> returns exactly \<open>expected b\<close> for every
  builder within the reader's limits.
\<close>

section \<open>Strings\<close>

definition string_fits :: "read_limits \<Rightarrow> bytes \<Rightarrow> bool" where
  "string_fits lim s \<longleftrightarrow> utf8_valid s \<and> length s \<le> unat (max_string_bytes lim)"

lemma length_write_string [simp]: "length (write_string s) = 8 + length s"
  by (simp add: write_string_def)

lemma inner_length_small: "cursor_ok c \<Longrightarrow> inner c = xs @ rest \<Longrightarrow> length xs < 2 ^ 64"
  using cursor_ok_bounds(1) [of c] by simp

interpretation codec_string: codec write_string "read_string ctx" "\<lambda>_ v. v" string_fits for ctx
proof unfold_locales
  fix c :: cursor and x rest :: bytes
  assume c: "cursor_ok c" "unat (file_size c) < 2 ^ 63" "inner c = write_string x @ rest"
    and fits: "string_fits (limits c) x"
  let ?len = "word_of_nat (length x) :: u64"
  have len: "unat ?len = length x"
    using inner_length_small [OF c(1,3)] by (intro unat_word_of_nat_small) simp
  from c(3) have i: "inner c = u64_le ?len @ x @ rest" by (simp add: write_string_def)
  have c1: "cursor_ok (advance 8 c)" "inner (advance 8 c) = x @ rest"
    using codec_u64.after [OF c(1) i] by simp_all
  have "\<not> ?len > max_string_bytes (limits c)"
    using fits len by (simp add: string_fits_def word_less_nat_alt)
  then show "read_string ctx c = Inr (x, advance (length (write_string x)) c)"
    using fits c1 by (simp add: read_string_def codec_u64.decode_then [OF c(1,2) i]
        read_bytes_ok [OF c1(1)] len string_fits_def)
qed

lemma skip_strings_written:
  assumes "cursor_ok c" "unat (file_size c) < 2 ^ 63"
    and "inner c = concat (map write_string items) @ rest"
    and "\<forall>s \<in> set items. length s \<le> unat (max_string_bytes (limits c))"
  shows "skip_strings (length items) c
    = Inr ((), advance (length (concat (map write_string items))) c)"
  using assms
proof (induction items arbitrary: c)
  case Nil
  then show ?case by simp
next
  case (Cons s items)
  let ?len = "word_of_nat (length s) :: u64"
  have i: "inner c = u64_le ?len @ s @ concat (map write_string items) @ rest"
    using Cons.prems(3) by (simp add: write_string_def [of s])
  have len: "unat ?len = length s"
    using cursor_ok_bounds(1) [OF Cons.prems(1)] i
    by (intro unat_word_of_nat_small) simp
  have c1: "cursor_ok (advance 8 c)" "inner (advance 8 c) = s @ concat (map write_string items) @ rest"
    using codec_u64.after [OF Cons.prems(1) i] by simp_all
  have small: "length s < 2 ^ 63"
    using Cons.prems(1,2) i by (simp add: cursor_ok_def)
  have sk: "skip ?len (advance 8 c) = Inr ((), advance (8 + length s) c)"
    using len small i by (simp add: skip_ok [OF c1(1)])
  have lim: "\<not> ?len > max_string_bytes (limits c)"
    using Cons.prems(4) len by (simp add: word_less_nat_alt)
  have c2: "cursor_ok (advance (8 + length s) c)"
    using Cons.prems(1) i by (intro cursor_ok_advance) simp_all
  have "skip_strings (length items) (advance (8 + length s) c)
      = Inr ((), advance (length (concat (map write_string items))) (advance (8 + length s) c))"
    using Cons.prems i c2 by (intro Cons.IH) simp_all
  then show ?case
    using lim by (simp add: codec_u64.decode_then [OF Cons.prems(1,2) i] sk del: length_concat)
qed

section \<open>Arrays\<close>

lemma unat_len_small: "cursor_ok c \<Longrightarrow> inner c = body @ rest \<Longrightarrow> n \<le> length body \<Longrightarrow>
    unat (word_of_nat n :: u64) = n"
  using inner_length_small by (intro unat_word_of_nat_small) fastforce

lemma skip_elements_fixed:
  assumes c: "cursor_ok c" "unat (file_size c) < 2 ^ 63" "inner c = body @ rest"
    and w: "fixed_width t = Some w" "length body = unat w * n"
  shows "skip_elements t (word_of_nat n) c
    = Inr (word_of_nat (length body), advance (length body) c)"
proof -
  have "n \<le> length body" using w fixed_width_range [OF w(1)] by auto
  then have n: "unat (word_of_nat n :: u64) = n" by (rule unat_len_small [OF c(1,3)])
  have b: "unat (word_of_nat (length body) :: u64) = length body"
    by (rule unat_len_small [OF c(1,3)]) simp
  have t: "t \<noteq> StringT" using w(1) by auto
  have small: "length body < 2 ^ 63" using c by (simp add: cursor_ok_def)
  have "w * word_of_nat n = (word_of_nat (length body) :: u64)"
    using w(2) by simp
  then have "fixed_array_byte_len t (word_of_nat n) = Some (word_of_nat (length body))"
    using w(1) n w(2) small by (simp add: fixed_array_byte_len_def checked_mul_def)
  then show ?thesis
    using t b small c(3) by (simp add: skip_elements_def skip_ok [OF c(1)])
qed

lemma skip_elements_strings:
  assumes c: "cursor_ok c" "unat (file_size c) < 2 ^ 63"
    and i: "inner c = concat (map write_string items) @ rest"
    and lim: "\<forall>s \<in> set items. length s \<le> unat (max_string_bytes (limits c))"
  shows "skip_elements StringT (word_of_nat (length items)) c
    = Inr (word_of_nat (length (concat (map write_string items))),
           advance (length (concat (map write_string items))) c)"
proof -
  let ?body = "concat (map write_string items)" and ?n = "word_of_nat (length items) :: u64"
  have "8 * length items \<le> length ?body" by (induction items) auto
  then have n: "unat ?n = length items" and fit: "length items * 8 \<le> length ?body"
    using unat_len_small [OF c(1) i] by simp_all
  have "unat (sat_mul ?n 8) \<le> unat (remaining c)"
    using fit n i by (simp add: unat_sat_mul remaining_ok [OF c(1)])
  then have e: "sat_mul ?n 8 \<le> remaining c"
    by (simp add: word_le_nat_alt)
  have o: "unat (offset (advance (length ?body) c)) = unat (offset c) + length ?body"
    by (rule unat_offset_advance [OF c(1)]) (simp add: i)
  have "unat (sat_sub (offset (advance (length ?body) c)) (offset c)) = length ?body"
    by (simp add: unat_sat_sub o)
  then have "sat_sub (offset (advance (length ?body) c)) (offset c) = word_of_nat (length ?body)"
    by (simp add: word_unat_eq_iff unat_len_small [OF c(1) i] del: length_concat)
  then show ?thesis
    using e skip_strings_written [OF c i lim] n by (simp add: skip_elements_def del: length_concat)
qed

lemma array_summary_written:
  assumes c: "cursor_ok c" "unat (file_size c) < 2 ^ 63"
    and i: "inner c = u32_le tag @ u64_le (word_of_nat n) @ body @ rest"
    and t: "from_tag tag = Some t" "t \<noteq> ArrayT"
    and sk: "skip_elements t (word_of_nat n) (advance 12 c)
      = Inr (word_of_nat (length body), advance (length body) (advance 12 c))"
  shows "read_array_summary key c =
    Inr (\<lparr>as_element_type = t, as_len = word_of_nat n, as_offset = offset c + 12,
          as_byte_len = word_of_nat (length body)\<rparr>, advance (12 + length body) c)"
proof -
  have c1: "cursor_ok (advance 4 c)" "inner (advance 4 c) = u64_le (word_of_nat n) @ body @ rest"
    using codec_u32.after [OF c(1) i] by simp_all
  have o: "offset (advance 12 c) = offset c + 12"
    by (simp add: advance_def)
  show ?thesis
    using t sk c(2)
    by (simp add: read_array_summary_def codec_u32.decode_then [OF c i]
        codec_u64.decode_then [OF c1(1) _ c1(2)] o)
qed

section \<open>Values\<close>

fun tag_of :: "fixture_value \<Rightarrow> u32" where
  "tag_of (FixU8 _) = 0" | "tag_of (FixI8 _) = 1" | "tag_of (FixU16 _) = 2" | "tag_of (FixI16 _) = 3"
| "tag_of (FixU32 _) = 4" | "tag_of (FixI32 _) = 5" | "tag_of (FixF32 _) = 6" | "tag_of (FixBool _) = 7"
| "tag_of (FixStr _) = 8" | "tag_of (FixU64 _) = 10" | "tag_of (FixI64 _) = 11" | "tag_of (FixF64 _) = 12"
| "tag_of (FixU32Array _) = 9" | "tag_of (FixU64Array _) = 9" | "tag_of (FixF32Array _) = 9"
| "tag_of (FixStrArray _) = 9"

definition type_of :: "fixture_value \<Rightarrow> gguf_value_type" where
  "type_of v = the (from_tag (tag_of v))"

definition payload :: "fixture_value \<Rightarrow> bytes" where
  "payload v = drop 4 (write_value v)"

definition view_array :: "gguf_value_type \<Rightarrow> u64 \<Rightarrow> nat \<Rightarrow> nat \<Rightarrow> gguf_value" where
  "view_array t off n byte_len =
    ArrayV \<lparr>as_element_type = t, as_len = word_of_nat n, as_offset = off + 12,
            as_byte_len = word_of_nat byte_len\<rparr>"

fun view_value :: "u64 \<Rightarrow> fixture_value \<Rightarrow> gguf_value" where
  "view_value off (FixU8 v) = U8V v"
| "view_value off (FixI8 v) = I8V v"
| "view_value off (FixU16 v) = U16V v"
| "view_value off (FixI16 v) = I16V v"
| "view_value off (FixU32 v) = U32V v"
| "view_value off (FixI32 v) = I32V v"
| "view_value off (FixU64 v) = U64V v"
| "view_value off (FixI64 v) = I64V v"
| "view_value off (FixF32 v) = F32V v"
| "view_value off (FixF64 v) = F64V v"
| "view_value off (FixBool v) = BoolV v"
| "view_value off (FixStr v) = StringV v"
| "view_value off (FixU32Array xs) = view_array U32T off (length xs) (4 * length xs)"
| "view_value off (FixU64Array xs) = view_array U64T off (length xs) (8 * length xs)"
| "view_value off (FixF32Array xs) = view_array F32T off (length xs) (4 * length xs)"
| "view_value off (FixStrArray xs) =
     view_array StringT off (length xs) (length (concat (map write_string xs)))"

fun value_fits :: "read_limits \<Rightarrow> fixture_value \<Rightarrow> bool" where
  "value_fits lim (FixStr v) = string_fits lim v"
| "value_fits lim (FixStrArray vs) = (\<forall>v \<in> set vs. length v \<le> unat (max_string_bytes lim))"
| "value_fits lim _ = True"

lemma write_value_split: "write_value v = u32_le (tag_of v) @ payload v"
  by (cases v) (simp_all add: payload_def write_array_header_def)

lemma from_tag_of: "from_tag (tag_of v) = Some (type_of v)"
  by (cases v) (simp_all add: type_of_def from_tag_def)

lemma length_concat_le [simp]:
  "length (concat (map u32_le xs)) = 4 * length xs" "length (concat (map u64_le ys)) = 8 * length ys"
  by (induction xs) (simp_all, induction ys, simp_all)

lemma payload_array:
  assumes "write_value v = write_array_header tag n @ body"
  shows "payload v = u32_le tag @ u64_le (word_of_nat n) @ body"
  using assms by (simp add: payload_def write_array_header_def)

lemma fixed_array_written:
  assumes c: "cursor_ok c" "unat (file_size c) < 2 ^ 63" "inner c = payload v @ rest"
    and v: "write_value v = write_array_header tag n @ body"
    and t: "from_tag tag = Some t" "fixed_width t = Some w" "length body = unat w * n"
  shows "read_array_summary key c =
    Inr (\<lparr>as_element_type = t, as_len = word_of_nat n, as_offset = offset c + 12,
          as_byte_len = word_of_nat (length body)\<rparr>, advance (length (payload v)) c)"
proof -
  have i: "inner c = u32_le tag @ u64_le (word_of_nat n) @ body @ rest"
    using c(3) payload_array [OF v] by simp
  have c12: "cursor_ok (advance 12 c)" "inner (advance 12 c) = body @ rest"
    using c(1) i by (auto intro: cursor_ok_advance)
  have "t \<noteq> ArrayT" using t(2) by auto
  from array_summary_written [OF c(1,2) i t(1) this skip_elements_fixed [OF c12(1) _ c12(2) t(2,3)]]
  show ?thesis using c(2) payload_array [OF v] by simp
qed

lemma string_array_written:
  assumes c: "cursor_ok c" "unat (file_size c) < 2 ^ 63" "inner c = payload (FixStrArray xs) @ rest"
    and fits: "value_fits (limits c) (FixStrArray xs)"
  shows "read_array_summary key c =
    Inr (\<lparr>as_element_type = StringT, as_len = word_of_nat (length xs), as_offset = offset c + 12,
          as_byte_len = word_of_nat (length (concat (map write_string xs)))\<rparr>,
         advance (length (payload (FixStrArray xs))) c)"
proof -
  let ?body = "concat (map write_string xs)"
  have p: "payload (FixStrArray xs) = u32_le 8 @ u64_le (word_of_nat (length xs)) @ ?body"
    by (rule payload_array) simp
  have i: "inner c = u32_le 8 @ u64_le (word_of_nat (length xs)) @ ?body @ rest"
    using c(3) p by simp
  have c12: "cursor_ok (advance 12 c)" "inner (advance 12 c) = ?body @ rest"
    using c(1) i by (auto intro: cursor_ok_advance)
  have t: "from_tag 8 = Some StringT" "StringT \<noteq> ArrayT" by (simp_all add: from_tag_def)
  show ?thesis
    using array_summary_written [OF c(1,2) i t skip_elements_strings [OF c12(1) _ c12(2)]] c(2) fits p
    by simp
qed

lemma read_value_written:
  assumes c: "cursor_ok c" "unat (file_size c) < 2 ^ 63" "inner c = payload v @ rest"
    and fits: "value_fits (limits c) v"
  shows "read_value key (type_of v) c
    = Inr (view_value (offset c) v, advance (length (payload v)) c)"
proof (cases v)
  case (FixU32Array xs)
  from fixed_array_written [OF c, where tag = 4 and n = "length xs" and t = U32T and w = 4] FixU32Array
  show ?thesis by (simp add: type_of_def from_tag_def view_array_def)
next
  case (FixU64Array xs)
  from fixed_array_written [OF c, where tag = 10 and n = "length xs" and t = U64T and w = 8] FixU64Array
  show ?thesis by (simp add: type_of_def from_tag_def view_array_def)
next
  case (FixF32Array xs)
  from fixed_array_written [OF c, where tag = 6 and n = "length xs" and t = F32T and w = 4] FixF32Array
  show ?thesis by (simp add: type_of_def from_tag_def view_array_def)
next
  case (FixStrArray xs)
  with string_array_written [of c xs rest] c fits show ?thesis
    by (simp add: type_of_def from_tag_def view_array_def del: length_concat)
next
  case (FixStr s)
  with c fits have "inner c = write_string s @ rest" "string_fits (limits c) s"
    by (simp_all add: payload_def)
  with FixStr c show ?thesis
    by (simp add: type_of_def from_tag_def codec_string.decode_then payload_def)
qed (use c in \<open>simp_all add: type_of_def from_tag_def payload_def scalar_decode split: if_splits\<close>)

section \<open>Key-value entries\<close>

definition kv_fits :: "read_limits \<Rightarrow> bytes \<times> fixture_value \<Rightarrow> bool" where
  "kv_fits lim kv \<longleftrightarrow> string_fits lim (fst kv) \<and> value_fits lim (snd kv)"

definition view_kv :: "u64 \<Rightarrow> bytes \<times> fixture_value \<Rightarrow> bytes \<times> gguf_value" where
  "view_kv off kv = (fst kv, view_value (off + word_of_nat (12 + length (fst kv))) (snd kv))"

interpretation codec_kv: codec write_kv read_kv view_kv kv_fits
proof unfold_locales
  fix c :: cursor and kv :: "bytes \<times> fixture_value" and rest :: bytes
  assume c: "cursor_ok c" "unat (file_size c) < 2 ^ 63" "inner c = write_kv kv @ rest"
    and fits: "kv_fits (limits c) kv"
  obtain k v where kv: "kv = (k, v)" by (cases kv)
  have i: "inner c = write_string k @ u32_le (tag_of v) @ payload v @ rest"
    using c(3) by (simp add: kv write_kv_def write_value_split)
  have c1: "cursor_ok (advance (8 + length k) c)"
      "inner (advance (8 + length k) c) = u32_le (tag_of v) @ payload v @ rest"
    using codec_string.after [OF c(1) i] by simp_all
  have c2: "cursor_ok (advance (12 + length k) c)" "inner (advance (12 + length k) c) = payload v @ rest"
    using codec_u32.after [OF c1] by (simp_all add: add.commute add.left_commute)
  have o: "offset (advance (12 + length k) c) = offset c + word_of_nat (12 + length k)"
    by (simp add: advance_def)
  have rv: "read_value k (type_of v) (advance (12 + length k) c)
      = Inr (view_value (offset c + word_of_nat (12 + length k)) v,
             advance (12 + length k + length (payload v)) c)"
    using read_value_written [OF c2(1) _ c2(2)] c(2) fits o by (simp add: kv kv_fits_def)
  have r32: "read_u32 (advance (8 + length k) c) = Inr (tag_of v, advance (12 + length k) c)"
    using codec_u32.decode [OF c1(1) _ c1(2)] c(2) by (simp add: add.commute add.left_commute)
  have len: "length (write_kv kv) = 12 + length k + length (payload v)"
    by (simp add: kv write_kv_def write_value_split)
  have "string_fits (limits c) k" using fits by (simp add: kv kv_fits_def)
  then show "read_kv c = Inr (view_kv (offset c) kv, advance (length (write_kv kv)) c)"
    using r32 rv unfolding len
    by (simp add: read_kv_def codec_string.decode_then [OF c(1,2) i] from_tag_of kv view_kv_def)
qed

text \<open>The metadata map the reader builds, entry by entry.\<close>

fun view_kvs :: "u64 \<Rightarrow> (bytes \<times> fixture_value) list \<Rightarrow> (bytes \<rightharpoonup> gguf_value) \<Rightarrow> (bytes \<rightharpoonup> gguf_value)"
where
  "view_kvs off [] m = m"
| "view_kvs off (kv # kvs) m =
    view_kvs (off + word_of_nat (length (write_kv kv))) kvs
      (m(fst (view_kv off kv) \<mapsto> snd (view_kv off kv)))"

lemma read_kvs_written:
  assumes "cursor_ok c" "unat (file_size c) < 2 ^ 63" "inner c = concat (map write_kv kvs) @ rest"
    and "\<forall>kv \<in> set kvs. kv_fits (limits c) kv"
    and "unat (offset c) + length (concat (map write_kv kvs)) \<le> unat (max_metadata_bytes (limits c))"
  shows "read_kvs (length kvs) m c
    = Inr (view_kvs (offset c) kvs m, advance (length (concat (map write_kv kvs))) c)"
  using assms
proof (induction kvs arbitrary: c m)
  case Nil
  then show ?case by simp
next
  case (Cons kv kvs)
  let ?n = "length (write_kv kv)" and ?rest = "concat (map write_kv kvs) @ rest"
  have i: "inner c = write_kv kv @ ?rest" using Cons.prems(3) by simp
  note after = codec_kv.after [OF Cons.prems(1) i]
  have budget: "check_metadata_budget (advance ?n c) = Inr ()"
    using Cons.prems(5) after(3) by (simp add: check_metadata_budget_def word_less_nat_alt)
  have o: "offset (advance ?n c) = offset c + word_of_nat ?n" by (simp add: advance_def)
  have "read_kvs (length kvs) m' (advance ?n c)
      = Inr (view_kvs (offset c + word_of_nat ?n) kvs m',
             advance (?n + length (concat (map write_kv kvs))) c)" for m'
    using Cons.IH [of "advance ?n c" m'] Cons.prems after by (simp add: o)
  then show ?case
    using Cons.prems(4)
    by (simp add: codec_kv.decode_then [OF Cons.prems(1,2) i] budget case_prod_unfold)
qed

section \<open>Tensor descriptions\<close>

lemma read_dims_written:
  assumes "cursor_ok c" "unat (file_size c) < 2 ^ 63" "inner c = concat (map u64_le ds) @ rest"
    and "index + length ds \<le> length dims"
  shows "read_dims name nd (length ds) index dims c
    = Inr (take index dims @ ds @ drop (index + length ds) dims, advance (8 * length ds) c)"
  using assms
proof (induction ds arbitrary: c index dims)
  case Nil
  then show ?case by simp
next
  case (Cons d ds)
  have i: "inner c = u64_le d @ concat (map u64_le ds) @ rest" using Cons.prems(3) by simp
  note after = codec_u64.after [OF Cons.prems(1) i]
  have "read_dims name nd (length ds) (Suc index) (dims[index := d]) (advance 8 c)
      = Inr (take (Suc index) (dims[index := d]) @ ds @ drop (Suc index + length ds) (dims[index := d]),
             advance (8 * length ds) (advance 8 c))"
    using Cons.prems after by (intro Cons.IH) simp_all
  moreover have "take (Suc index) (dims[index := d]) = take index dims @ [d]"
    using Cons.prems(4) by (simp add: take_Suc_conv_app_nth)
  ultimately show ?case
    using Cons.prems(4) by (simp add: codec_u64.decode_then [OF Cons.prems(1,2) i])
qed

definition view_tensor :: "u64 \<times> fixture_tensor \<Rightarrow> tensor_info" where
  "view_tensor p =
    \<lparr>ti_name = ft_name (snd p),
     ti_dims = ft_dims (snd p) @ replicate (4 - length (ft_dims (snd p))) 1,
     ti_n_dims = word_of_nat (length (ft_dims (snd p))),
     ti_ggml_type = ft_ggml_type (snd p), ti_offset = fst p\<rparr>"

definition tensor_fits :: "read_limits \<Rightarrow> fixture_tensor \<Rightarrow> bool" where
  "tensor_fits lim t \<longleftrightarrow> string_fits lim (ft_name t) \<and> length (ft_dims t) \<le> 4 \<and>
     product_checked 1 (ft_dims t) \<noteq> None \<and> canonical (ft_ggml_type t)"

lemma checked_mul_1 [simp]: "checked_mul a (1 :: u64) = Some a"
  using unat_lt_two_power [of a] by (simp add: checked_mul_def)

lemma product_checked_ones [simp]: "product_checked acc (replicate k 1) = Some acc"
  by (induction k) simp_all

lemma product_checked_append:
  "product_checked acc (xs @ ys) = Option.bind (product_checked acc xs) (\<lambda>a. product_checked a ys)"
  by (induction xs arbitrary: acc) (auto split: option.splits)

lemma product_checked_prod: "product_checked acc xs = Some p \<Longrightarrow> p = acc * prod_list xs"
proof (induction xs arbitrary: acc)
  case (Cons x xs)
  from Cons.prems have "product_checked (acc * x) xs = Some p"
    by (auto simp: checked_mul_Some split: option.splits)
  from Cons.IH [OF this] show ?case by (simp add: mult.assoc)
qed simp

lemma elements_view_tensor: "elements (view_tensor p) = product_checked 1 (ft_dims (snd p))"
  by (simp add: elements_def view_tensor_def product_checked_append split: bind_split)

interpretation codec_tensor: codec "\<lambda>p. write_tensor (fst p) (snd p)" read_tensor_info
  "\<lambda>_. view_tensor" "\<lambda>lim p. tensor_fits lim (snd p)"
proof unfold_locales
  fix c :: cursor and p :: "u64 \<times> fixture_tensor" and rest :: bytes
  assume c: "cursor_ok c" "unat (file_size c) < 2 ^ 63"
    and w: "inner c = write_tensor (fst p) (snd p) @ rest"
    and fits: "tensor_fits (limits c) (snd p)"
  obtain ds t where p: "p = (ds, t)" by (cases p)
  let ?name = "ft_name t" and ?n = "length (ft_dims t)" and ?nd = "word_of_nat (length (ft_dims t)) :: u32"
  let ?L = "length ?name"
  have n: "?n \<le> 4" "unat ?nd = ?n"
    using fits by (auto simp: tensor_fits_def p unat_of_nat take_bit_eq_mod)
  have i: "inner c = write_string ?name @ u32_le ?nd @ concat (map u64_le (ft_dims t))
      @ u32_le (ggml_id (ft_ggml_type t)) @ u64_le ds @ rest"
    using w by (simp add: p write_tensor_def)
  have 1: "cursor_ok (advance (8 + ?L) c)" "inner (advance (8 + ?L) c) = u32_le ?nd @ concat (map u64_le (ft_dims t))
      @ u32_le (ggml_id (ft_ggml_type t)) @ u64_le ds @ rest"
    using codec_string.after [OF c(1) i] by simp_all
  have 2: "cursor_ok (advance (12 + ?L) c)" "inner (advance (12 + ?L) c) = concat (map u64_le (ft_dims t))
      @ u32_le (ggml_id (ft_ggml_type t)) @ u64_le ds @ rest"
    using codec_u32.after [OF 1] by simp_all
  have 3: "cursor_ok (advance (12 + ?L + 8 * ?n) c)" "inner (advance (12 + ?L + 8 * ?n) c)
      = u32_le (ggml_id (ft_ggml_type t)) @ u64_le ds @ rest"
    using c(1) i by (auto intro: cursor_ok_advance)
  have 4: "cursor_ok (advance (16 + ?L + 8 * ?n) c)" "inner (advance (16 + ?L + 8 * ?n) c) = u64_le ds @ rest"
    using c(1) i by (auto intro: cursor_ok_advance)
  have r1: "read_u32 (advance (8 + ?L) c) = Inr (?nd, advance (12 + ?L) c)"
    using codec_u32.decode [OF 1(1) _ 1(2)] c(2) by simp
  have r2: "read_dims ?name ?nd ?n 0 (replicate 4 1) (advance (12 + ?L) c)
      = Inr (ft_dims t @ replicate (4 - ?n) 1, advance (12 + ?L + 8 * ?n) c)"
    using read_dims_written [OF 2(1) _ 2(2), of 0 "replicate 4 1"] c(2) n(1) by simp
  have r3: "read_u32 (advance (12 + ?L + 8 * ?n) c)
      = Inr (ggml_id (ft_ggml_type t), advance (16 + ?L + 8 * ?n) c)"
    using codec_u32.decode [OF 3(1) _ 3(2)] c(2) by (simp add: add.commute add.left_commute)
  have r4: "read_u64 (advance (16 + ?L + 8 * ?n) c) = Inr (ds, advance (24 + ?L + 8 * ?n) c)"
    using codec_u64.decode [OF 4(1) _ 4(2)] c(2) by (simp add: add.commute add.left_commute)
  have len: "length (write_tensor (fst p) (snd p)) = 24 + ?L + 8 * ?n"
    by (simp add: p write_tensor_def)
  have nd: "\<not> ?nd > MAX_DIMS" "unat MAX_DIMS = 4"
    using n by (simp_all add: MAX_DIMS_def word_less_nat_alt)
  have el: "elements (view_tensor p) \<noteq> None" and ty: "from_id (ggml_id (ft_ggml_type t)) = ft_ggml_type t"
    and st: "string_fits (limits c) ?name"
    using fits by (simp_all add: elements_view_tensor p tensor_fits_def canonical_def)
  have vt: "\<lparr>ti_name = ?name, ti_dims = ft_dims t @ replicate (4 - ?n) 1, ti_n_dims = ?nd,
      ti_ggml_type = ft_ggml_type t, ti_offset = ds\<rparr> = view_tensor p"
    by (simp add: view_tensor_def p)
  show "read_tensor_info c = Inr (view_tensor p, advance (length (write_tensor (fst p) (snd p))) c)"
    unfolding len read_tensor_info_def codec_string.decode_then [OF c i st] length_write_string
    using el by (simp add: r1 r2 r3 r4 nd n(2) ty vt Let_def)
qed

text \<open>Each tensor with the data offset the writer gives it.\<close>

fun place :: "u64 \<Rightarrow> fixture_tensor list \<Rightarrow> (u64 \<times> fixture_tensor) list" where
  "place ds [] = []"
| "place ds (t # ts) = (ds, t) # place (sat_add ds (fixture_bytes t)) ts"

lemma length_place [simp]: "length (place ds ts) = length ts"
  by (induction ts arbitrary: ds) simp_all

lemma set_place: "p \<in> set (place ds ts) \<Longrightarrow> snd p \<in> set ts"
  by (induction ts arbitrary: ds) auto

lemma place_eq_Nil [simp]: "place ds ts = [] \<longleftrightarrow> ts = []"
  by (cases ts) simp_all

lemma fst_write_tensors:
  "fst (write_tensors ds ts) = concat (map (\<lambda>p. write_tensor (fst p) (snd p)) (place ds ts))"
  by (induction ts arbitrary: ds) (simp_all add: case_prod_unfold Let_def)

lemma write_tensors_mono: "unat ds \<le> unat (snd (write_tensors ds ts))"
proof (induction ts arbitrary: ds)
  case (Cons t ts)
  have "unat ds \<le> unat (sat_add ds (fixture_bytes t))"
    using unat_lt_two_power [of ds] by (simp add: unat_sat_add)
  also note Cons
  finally show ?case by (simp add: case_prod_unfold Let_def)
qed simp

lemma place_within:
  assumes "p \<in> set (place ds ts)" "unat (snd (write_tensors ds ts)) < 2 ^ 64 - 1"
  shows "unat (fst p) + unat (fixture_bytes (snd p)) \<le> unat (snd (write_tensors ds ts))"
  using assms
proof (induction ts arbitrary: ds)
  case (Cons t ts)
  let ?ds = "sat_add ds (fixture_bytes t)"
  have total: "snd (write_tensors ds (t # ts)) = snd (write_tensors ?ds ts)"
    by (simp add: case_prod_unfold Let_def)
  have le: "unat ?ds \<le> unat (snd (write_tensors ?ds ts))" by (rule write_tensors_mono)
  then have "unat ds + unat (fixture_bytes t) \<le> unat (snd (write_tensors ?ds ts))"
    using Cons.prems(2) unfolding total by (simp add: unat_sat_add)
  with Cons show ?case unfolding total by auto
qed simp

lemma read_tensors_written:
  assumes "cursor_ok c" "unat (file_size c) < 2 ^ 63"
    and "inner c = concat (map (\<lambda>p. write_tensor (fst p) (snd p)) ps) @ rest"
    and "\<forall>p \<in> set ps. tensor_fits (limits c) (snd p)"
    and "unat (offset c) + length (concat (map (\<lambda>p. write_tensor (fst p) (snd p)) ps))
          \<le> unat (max_metadata_bytes (limits c))"
  shows "read_tensors (length ps) acc c
    = Inr (acc @ map view_tensor ps,
           advance (length (concat (map (\<lambda>p. write_tensor (fst p) (snd p)) ps))) c)"
  using assms
proof (induction ps arbitrary: c acc)
  case Nil
  then show ?case by simp
next
  case (Cons p ps)
  let ?enc = "\<lambda>p. write_tensor (fst p) (snd p)"
  let ?n = "length (?enc p)" and ?rest = "concat (map ?enc ps) @ rest"
  have i: "inner c = ?enc p @ ?rest" using Cons.prems(3) by simp
  note after = codec_tensor.after [OF Cons.prems(1) i]
  have budget: "check_metadata_budget (advance ?n c) = Inr ()"
    using Cons.prems(5) after(3) by (simp add: check_metadata_budget_def word_less_nat_alt)
  have "read_tensors (length ps) (acc @ [view_tensor p]) (advance ?n c)
      = Inr (acc @ view_tensor p # map view_tensor ps,
             advance (?n + length (concat (map ?enc ps))) c)"
    using Cons.IH [of "advance ?n c" "acc @ [view_tensor p]"] Cons.prems after by simp
  then show ?case
    using Cons.prems(4) by (simp add: codec_tensor.decode_then [OF Cons.prems(1,2) i] budget)
qed

section \<open>Whole files\<close>

definition expected :: "gguf_builder \<Rightarrow> gguf_file" where
  "expected b =
    (let header = header_bytes b; pad = padding b (length header);
         data = unat (snd (write_tensors 0 (gb_tensors b)))
     in \<lparr>gf_version = gb_version b, gf_alignment = gb_alignment b,
         gf_metadata = view_kvs 24 (gb_metadata b) Map.empty,
         gf_tensors = map view_tensor (place 0 (gb_tensors b)),
         gf_data_offset = word_of_nat (length header + length pad),
         gf_file_size = word_of_nat (length header + length pad + data)\<rparr>)"

definition builder_ok :: "read_limits \<Rightarrow> gguf_builder \<Rightarrow> bool" where
  "builder_ok lim b \<longleftrightarrow>
     MIN_VERSION \<le> gb_version b \<and> gb_version b \<le> MAX_VERSION \<and>
     (\<forall>kv \<in> set (gb_metadata b). kv_fits lim kv) \<and>
     (\<forall>t \<in> set (gb_tensors b). tensor_fits lim t) \<and>
     resolve_alignment (view_kvs 24 (gb_metadata b) Map.empty) = Inr (gb_alignment b) \<and>
     length (header_bytes b) \<le> unat (max_metadata_bytes lim) \<and>
     length (header_bytes b) + length (padding b (length (header_bytes b))) < 2 ^ 62"

lemma verify_tensors_ok:
  assumes "\<forall>t \<in> set ts. \<forall>n. byte_size t = Some n \<longrightarrow>
      unat doff + unat (ti_offset t) + unat n \<le> unat fsize"
  shows "verify_tensors doff fsize ts = Inr ()"
  using assms
proof (induction ts)
  case (Cons t ts)
  show ?case
  proof (cases "byte_size t")
    case (Some n)
    with Cons.prems have "unat doff + unat (ti_offset t) + unat n \<le> unat fsize" by simp
    then have "\<not> sat_add (sat_add doff (ti_offset t)) n > fsize"
      using unat_lt_two_power [of fsize] by (simp add: word_less_nat_alt unat_sat_add)
    with Some Cons show ?thesis by simp
  qed (use Cons in simp)
qed simp

lemma byte_size_view_tensor:
  assumes "tensor_fits lim (snd p)" "byte_size (view_tensor p) = Some n"
  shows "n = fixture_bytes (snd p)"
proof -
  obtain e where e: "product_checked 1 (ft_dims (snd p)) = Some e"
    using assms(1) by (auto simp: tensor_fits_def)
  then have "e = fixture_elements (snd p)"
    using product_checked_prod by (fastforce simp: fixture_elements_def)
  moreover have "ti_ggml_type (view_tensor p) = ft_ggml_type (snd p)"
    by (simp add: view_tensor_def)
  ultimately show ?thesis
    using e assms(2) by (simp add: byte_size_def elements_view_tensor fixture_bytes_def)
qed

lemma align_up_padding:
  assumes "gb_tensors b \<noteq> []" "gb_alignment b \<noteq> 0" "len + length (padding b len) < 2 ^ 63"
  shows "align_up (word_of_nat len) (gb_alignment b) = word_of_nat (len + length (padding b len))"
proof -
  let ?a = "gb_alignment b" and ?w = "word_of_nat len :: u64"
  let ?r = "?w mod ?a"
  have a: "?a > 0" using assms(2) by (simp add: word_gt_0)
  have w: "unat ?w = len" using assms(3) by (intro unat_word_of_nat_small) simp
  have "unat ?r < unat ?a" using assms(2) by (simp add: unat_mod_distrib unat_gt_0)
  then have s: "sat_sub ?a ?r = ?a - ?r" "unat (?a - ?r) = unat ?a - unat ?r"
    by (simp_all add: sat_sub_def word_le_nat_alt unat_sub)
  show ?thesis
  proof (cases "?r = 0")
    case True
    with assms a show ?thesis by (simp add: align_up_def checked_rem_def padding_def)
  next
    case False
    with assms a have p: "length (padding b len) = unat (?a - ?r)" by (simp add: padding_def Let_def)
    have "sat_add ?w (?a - ?r) = ?w + (?a - ?r)"
      using assms(3) p w by (intro sat_add_small) simp
    also have "\<dots> = word_of_nat (len + length (padding b len))" by (simp add: p)
    finally show ?thesis using False assms(2) s by (simp add: align_up_def checked_rem_def)
  qed
qed

lemma length_write_kv: "12 \<le> length (write_kv kv)"
  by (simp add: write_kv_def write_value_split)

lemma length_kvs: "12 * length kvs \<le> length (concat (map write_kv kvs))"
  by (induction kvs) (use length_write_kv in \<open>auto simp: add_le_mono\<close>)

lemma length_tensors: "24 * length ps \<le> length (concat (map (\<lambda>p. write_tensor (fst p) (snd p)) ps))"
  by (induction ps) (auto simp: write_tensor_def)

lemma count_fits:
  assumes "cursor_ok c" "k * n \<le> length (inner c)" "0 < k" "k < 2 ^ 64"
  shows "unat (word_of_nat n :: u64) = n" "sat_mul (word_of_nat n) (word_of_nat k) \<le> remaining c"
proof -
  have "n \<le> k * n" using assms(3) by simp
  then have "n < 2 ^ 64" using assms(2) cursor_ok_bounds(1) [OF assms(1)] by linarith
  then show n: "unat (word_of_nat n :: u64) = n" by (rule unat_word_of_nat_small)
  then show "sat_mul (word_of_nat n) (word_of_nat k) \<le> remaining c"
    using assms by (simp add: word_le_nat_alt unat_sat_mul remaining_ok unat_word_of_nat_small mult.commute)
qed

lemma resolve_alignment_nonzero: "resolve_alignment m = Inr a \<Longrightarrow> a \<noteq> 0"
  by (auto simp: resolve_alignment_def DEFAULT_ALIGNMENT_def Let_def split: option.splits if_splits)

lemma parse_body_written:
  assumes c: "cursor_ok c" "unat (file_size c) < 2 ^ 63" "offset c = 24"
    and i: "inner c = concat (map write_kv (gb_metadata b)) @ fst (write_tensors 0 (gb_tensors b)) @ rest"
    and ok: "builder_ok (limits c) b"
  shows "\<exists>c'. parse_body (gb_version b) (word_of_nat (length (gb_tensors b)))
      (word_of_nat (length (gb_metadata b))) fsize c = Inr ((expected b)\<lparr>gf_file_size := fsize\<rparr>, c')"
proof -
  let ?kvs = "gb_metadata b" and ?ps = "place 0 (gb_tensors b)"
  let ?K = "length (concat (map write_kv ?kvs))"
  let ?T = "length (concat (map (\<lambda>p. write_tensor (fst p) (snd p)) ?ps))"
  have i': "inner c = concat (map write_kv ?kvs) @ concat (map (\<lambda>p. write_tensor (fst p) (snd p)) ?ps) @ rest"
    using i by (simp add: fst_write_tensors)
  have H: "length (header_bytes b) = 24 + ?K + ?T"
    by (simp add: header_bytes_def fst_write_tensors MAGIC_def bytes_of_def del: length_concat)
  have budget: "24 + ?K + ?T \<le> unat (max_metadata_bytes (limits c))"
    using ok H by (simp add: builder_ok_def del: length_concat)
  have o: "unat (offset c) = 24" using c(3) by simp
  have kf: "12 * length ?kvs \<le> length (inner c)"
    using length_kvs [of ?kvs] i' by (simp del: length_concat)
  note kc = count_fits [OF c(1) kf, simplified]
  have rk: "read_kvs (length ?kvs) Map.empty c = Inr (view_kvs 24 ?kvs Map.empty, advance ?K c)"
    using read_kvs_written [OF c(1,2) i'] ok budget o c(3) by (simp add: builder_ok_def del: length_concat)
  have c1: "cursor_ok (advance ?K c)" "inner (advance ?K c)
      = concat (map (\<lambda>p. write_tensor (fst p) (snd p)) ?ps) @ rest"
    using c(1) i' by (auto intro: cursor_ok_advance simp del: length_concat)
  have o1: "unat (offset (advance ?K c)) = 24 + ?K"
    using unat_offset_advance [OF c(1), of ?K] i' o by (simp del: length_concat)
  have tf: "24 * length (gb_tensors b) \<le> length (inner (advance ?K c))"
    using length_tensors [of ?ps] c1(2) by (simp del: length_concat advance_simps)
  note tc = count_fits [OF c1(1) tf, simplified]
  have "\<forall>p \<in> set ?ps. tensor_fits (limits c) (snd p)"
    using ok set_place by (fastforce simp: builder_ok_def)
  then have rt: "read_tensors (length ?ps) [] (advance ?K c)
      = Inr (map view_tensor ?ps, advance (?K + ?T) c)"
    using read_tensors_written [OF c1(1) _ c1(2)] c(2) o1 budget by (simp del: length_concat)
  have ra: "resolve_alignment (view_kvs 24 ?kvs Map.empty) = Inr (gb_alignment b)"
    using ok by (simp add: builder_ok_def)
  have o2: "offset (advance (?K + ?T) c) = word_of_nat (length (header_bytes b))"
    using c(3) H by (simp add: advance_def del: length_concat)
  have d: "(if map view_tensor ?ps = [] then offset (advance (?K + ?T) c)
      else align_up (offset (advance (?K + ?T) c)) (gb_alignment b)) = gf_data_offset (expected b)"
  proof (cases "gb_tensors b = []")
    case True
    then show ?thesis unfolding o2 by (simp add: expected_def padding_def Let_def)
  next
    case False
    with align_up_padding [of b "length (header_bytes b)"] ok resolve_alignment_nonzero [OF ra]
    show ?thesis unfolding o2 by (simp add: expected_def Let_def builder_ok_def)
  qed
  show ?thesis
    using kc tc rk rt ra d
    by (simp add: parse_body_def MIN_KV_BYTES_def MIN_TENSOR_BYTES_def expected_def Let_def
        del: length_concat)
qed

lemma parse_header_written:
  assumes c: "cursor_ok c" "unat (file_size c) < 2 ^ 63" "offset c = 0"
    and i: "inner c = header_bytes b @ rest" and ok: "builder_ok (limits c) b"
  shows "\<exists>c'. parse_header fsize c = Inr ((expected b)\<lparr>gf_file_size := fsize\<rparr>, c')"
proof -
  let ?tc = "word_of_nat (length (gb_tensors b)) :: u64"
  let ?kc = "word_of_nat (length (gb_metadata b)) :: u64"
  let ?body = "concat (map write_kv (gb_metadata b)) @ fst (write_tensors 0 (gb_tensors b)) @ rest"
  have m: "length MAGIC = 4" by (simp add: MAGIC_def bytes_of_def)
  have i0: "inner c = MAGIC @ u32_le (gb_version b) @ u64_le ?tc @ u64_le ?kc @ ?body"
    using i by (simp add: header_bytes_def)
  have r0: "read_array 4 c = Inr (MAGIC, advance 4 c)"
    using i0 m by (simp add: read_array_ok [OF c(1)])
  have at: "cursor_ok (advance n c)" if "n \<le> 24" for n
    using that i0 m c(1) by (intro cursor_ok_advance) auto
  have 1: "inner (advance 4 c) = u32_le (gb_version b) @ u64_le ?tc @ u64_le ?kc @ ?body"
    and 2: "inner (advance 8 c) = u64_le ?tc @ u64_le ?kc @ ?body"
    and 3: "inner (advance 16 c) = u64_le ?kc @ ?body"
    and 4: "inner (advance 24 c) = ?body"
    using i0 m by simp_all
  have r1: "read_u32 (advance 4 c) = Inr (gb_version b, advance 8 c)"
    and r2: "read_u64 (advance 8 c) = Inr (?tc, advance 16 c)"
    and r3: "read_u64 (advance 16 c) = Inr (?kc, advance 24 c)"
    using codec_u32.decode [OF at _ 1] codec_u64.decode [OF at _ 2] codec_u64.decode [OF at _ 3] c(2)
    by simp_all
  have o: "offset (advance 24 c) = 24" using c(3) by (simp add: advance_def)
  have "\<exists>c'. parse_body (gb_version b) ?tc ?kc fsize (advance 24 c)
      = Inr ((expected b)\<lparr>gf_file_size := fsize\<rparr>, c')"
    using parse_body_written [OF at _ o 4] c(2) ok by simp
  moreover have "MIN_VERSION \<le> gb_version b" "gb_version b \<le> MAX_VERSION"
    using ok by (simp_all add: builder_ok_def)
  ultimately show ?thesis
    by (simp add: parse_header_def r0 r1 r2 r3)
qed

end
