(* ===== verification/Gguf_Correct.thy ===== *)
theory Gguf_Correct
  imports Gguf_Roundtrip "HOL-Library.Code_Target_Nat"
begin

text \<open>
  The properties of the GGUF reader and writer, over the laws of \<open>Gguf_Safety\<close> and
  \<open>Gguf_Roundtrip\<close>, with a concrete file as the witness of each.
\<close>

section \<open>Whole-file lemmas\<close>

lemma cursor_ok_file: "length contents < 2 ^ 64 \<Longrightarrow> cursor_ok (file_cursor contents lim)"
  by (simp add: cursor_ok_def file_cursor_def unat_word_of_nat_small)

lemma and_then_assoc: "and_then (and_then r k) l = and_then r (\<lambda>a. and_then (k a) l)"
  by (cases r) simp_all

lemma parse_body_fsize:
  "parse_body v tc kc fsize c =
    and_then (parse_body v tc kc 0 c) (\<lambda>(f, c'). Inr (f\<lparr>gf_file_size := fsize\<rparr>, c'))"
  by (simp add: parse_body_def and_then_assoc case_prod_unfold)

lemma parse_header_steps:
  "parse_header fsize c = and_then (read_array 4 c) (\<lambda>(magic, c).
      and_then (if magic \<noteq> MAGIC then Inl (BadMagic magic) else Inr ()) (\<lambda>_.
      and_then (read_u32 c) (\<lambda>(version, c).
      and_then (if \<not> (MIN_VERSION \<le> version \<and> version \<le> MAX_VERSION)
                then Inl (UnsupportedVersion version MIN_VERSION MAX_VERSION) else Inr ()) (\<lambda>_.
      and_then (read_u64 c) (\<lambda>(tensor_count, c).
      and_then (read_u64 c) (\<lambda>(kv_count, c).
        parse_body version tensor_count kv_count fsize c))))))"
  by (simp add: parse_header_def if_distrib [of "\<lambda>r. and_then r _"] cong: if_cong)

lemma parse_header_fsize:
  "parse_header fsize c =
    and_then (parse_header 0 c) (\<lambda>(f, c'). Inr (f\<lparr>gf_file_size := fsize\<rparr>, c'))"
  unfolding parse_header_steps and_then_assoc case_prod_unfold
  by (subst parse_body_fsize) (simp only: case_prod_unfold)

lemma open_inner_Inr:
  assumes "open_inner (Some contents) lim v = Inr f"
  obtains c' where "parse_header (word_of_nat (length contents)) (file_cursor contents lim) = Inr (f, c')"
    "v \<Longrightarrow> verify_tensor_data_present f = Inr ()"
  using assms by (auto simp: open_inner_def parse_def and_then_Inr_iff split: if_splits)

lemma verify_tensors_Inr:
  assumes "verify_tensors doff fsize ts = Inr ()" "t \<in> set ts" "byte_size t = Some n"
    "unat fsize < 2 ^ 64 - 1"
  shows "unat doff + unat (ti_offset t) + unat n \<le> unat fsize"
  using assms
proof (induction ts)
  case (Cons s ts)
  show ?case
  proof (cases "t = s")
    case True
    with Cons.prems(1,3) have "sat_add (sat_add doff (ti_offset t)) n \<le> fsize"
      by (auto split: if_splits)
    with Cons.prems(4) show ?thesis by (simp add: word_le_nat_alt unat_sat_add)
  next
    case False
    with Cons show ?thesis by (auto split: option.splits if_splits)
  qed
qed simp

lemma parse_header_Inr:
  assumes "parse_header fsize c = Inr (f, c')"
  obtains magic c1 version c2 tensor_count c3 kv_count c4
  where "read_array 4 c = Inr (magic, c1)" "magic = MAGIC" "read_u32 c1 = Inr (version, c2)"
    "MIN_VERSION \<le> version" "version \<le> MAX_VERSION" "read_u64 c2 = Inr (tensor_count, c3)"
    "read_u64 c3 = Inr (kv_count, c4)" "parse_body version tensor_count kv_count fsize c4 = Inr (f, c')"
  using assms by (fastforce simp: parse_header_steps and_then_Inr_iff split: if_splits)

lemma parse_body_Inr:
  assumes "parse_body version tensor_count kv_count fsize c = Inr (f, c')"
  obtains c1 where
    "ensure_fits ''metadata keys'' (sat_mul kv_count MIN_KV_BYTES) (remaining c) (offset c) = Inr ()"
    "read_kvs (unat kv_count) Map.empty c = Inr (gf_metadata f, c1)"
    "resolve_alignment (gf_metadata f) = Inr (gf_alignment f)"
    "ensure_fits ''tensors'' (sat_mul tensor_count MIN_TENSOR_BYTES) (remaining c1) (offset c1) = Inr ()"
    "read_tensors (unat tensor_count) [] c1 = Inr (gf_tensors f, c')"
    "gf_data_offset f =
      (if gf_tensors f = [] then offset c' else align_up (offset c') (gf_alignment f))"
    "gf_version f = version" "gf_file_size f = fsize"
  using assms by (fastforce simp: parse_body_def and_then_Inr_iff)

lemma expected_file_size:
  assumes "build b = Some out" "builder_ok lim b"
  shows "gf_file_size (expected b) = word_of_nat (length out)" "length out < 2 ^ 63"
    "unat (gf_data_offset (expected b)) + unat (snd (write_tensors 0 (gb_tensors b))) = length out"
    "unat (snd (write_tensors 0 (gb_tensors b))) \<le> 64 * 1024 * 1024"
    "\<exists>rest. out = header_bytes b @ rest"
proof -
  let ?d = "snd (write_tensors 0 (gb_tensors b))"
  let ?h = "length (header_bytes b) + length (padding b (length (header_bytes b)))"
  have d: "unat ?d \<le> 64 * 1024 * 1024"
    and out: "out = header_bytes b @ padding b (length (header_bytes b)) @ replicate (unat ?d) 0"
    using assms(1)
    by (auto simp: build_def Let_def MAX_FIXTURE_DATA_BYTES_def word_le_nat_alt split: if_splits)
  have h: "?h < 2 ^ 62" using assms(2) by (simp add: builder_ok_def)
  have "unat (gf_data_offset (expected b)) = ?h"
    using h unat_word_of_nat_small [of ?h] by (simp add: expected_def Let_def)
  then show "unat (gf_data_offset (expected b)) + unat ?d = length out" by (simp add: out)
  show "gf_file_size (expected b) = word_of_nat (length out)"
    by (simp add: expected_def Let_def out add.assoc)
  show "length out < 2 ^ 63" using h d by (simp add: out)
  show "unat ?d \<le> 64 * 1024 * 1024" by (rule d)
  show "\<exists>rest. out = header_bytes b @ rest" using out by blast
qed

lemma verify_expected:
  assumes "build b = Some out" "builder_ok lim b"
  shows "verify_tensor_data_present (expected b) = Inr ()"
  unfolding verify_tensor_data_present_def
proof (rule verify_tensors_ok, intro ballI allI impI)
  fix t n assume t: "t \<in> set (gf_tensors (expected b))" and n: "byte_size t = Some n"
  note size = expected_file_size [OF assms]
  from t obtain p where p: "p \<in> set (place 0 (gb_tensors b))" and t': "t = view_tensor p"
    by (auto simp: expected_def Let_def)
  have fits: "tensor_fits lim (snd p)" using assms(2) set_place [OF p] by (simp add: builder_ok_def)
  have "unat (fst p) + unat n \<le> unat (snd (write_tensors 0 (gb_tensors b)))"
    using place_within [OF p] size(4) byte_size_view_tensor [OF fits] n t' by simp
  moreover have "ti_offset t = fst p" by (simp add: t' view_tensor_def)
  ultimately show "unat (gf_data_offset (expected b)) + unat (ti_offset t) + unat n
      \<le> unat (gf_file_size (expected b))"
    using size(1-3) by (simp add: unat_word_of_nat_small)
qed

section \<open>What the writer builds, the reader reads back\<close>

lemma open_inner_written:
  assumes "builder_ok lim b" "build b = Some out"
  shows "open_inner (Some out) lim v = Inr (expected b)"
proof -
  note size = expected_file_size [OF assms(2,1)]
  let ?c = "file_cursor out lim"
  obtain rest where "out = header_bytes b @ rest" using size(5) by blast
  moreover have "cursor_ok ?c" using size(2) by (intro cursor_ok_file) simp
  moreover have "unat (file_size ?c) < 2 ^ 63" "limits ?c = lim"
    using size(2) by (simp_all add: file_cursor_def unat_word_of_nat_small)
  ultimately obtain c' where "parse_header (word_of_nat (length out)) ?c
      = Inr ((expected b)\<lparr>gf_file_size := word_of_nat (length out)\<rparr>, c')"
    using parse_header_written [of ?c b rest] assms(1) by (auto simp: file_cursor_def)
  moreover have "(expected b)\<lparr>gf_file_size := word_of_nat (length out)\<rparr> = expected b"
    using size(1) by (metis gguf_file.surjective gguf_file.update_convs(6))
  ultimately show ?thesis
    using verify_expected [OF assms(2,1)] by (simp add: open_inner_def parse_def)
qed

text \<open>C1. Opening a file that the fixture writer built gives back exactly what was put into the
  builder: version, alignment, metadata (later keys replacing earlier ones, arrays as summaries of
  where their elements lie), tensors with the offsets the writer laid out, the data offset and the
  file size. The hypothesis is that the builder stays within the reader's limits.\<close>

theorem gguf_roundtrip:
  assumes "builder_ok lim b" "build b = Some out"
  shows "open_with_limits (Some out) lim = Inr (expected b)"
  unfolding open_with_limits_def by (rule open_inner_written [OF assms])

section \<open>Safety of opening a file\<close>

text \<open>Opening a file that exists never fails with an I/O error: every read and seek is refused
  with a parse error before it can run past the end, whatever the bytes and the limits are.\<close>

theorem open_never_io:
  assumes "length contents < 2 ^ 64" "open_inner (Some contents) lim verify_data = Inl e"
  shows "\<not> is_io_error e"
proof -
  let ?h = "parse_header (word_of_nat (length contents)) (file_cursor contents lim)"
  have verify: "\<not> is_io_error e" if "verify_tensors d s ts = Inl e" for d s ts
    using that by (induction d s ts rule: verify_tensors.induct) (auto split: option.splits if_splits)
  show ?thesis
    using assms(2) header.no_io [OF cursor_ok_file [OF assms(1)]] verify
    by (auto simp: open_inner_def parse_def and_then_Inl_iff verify_tensor_data_present_def
        split: if_splits)
qed

text \<open>A header that parses, parses the same from any longer file: \<open>open_header_only\<close> on a
  prefix that holds the whole header gives the result for the complete file, the recorded file size
  apart. This is what lets a model be inspected from a partial download.\<close>

theorem header_only_prefix:
  assumes "open_header_only (Some pre) = Inr f" "length (pre @ suf) < 2 ^ 64"
  shows "open_header_only (Some (pre @ suf)) =
    Inr (f\<lparr>gf_file_size := word_of_nat (length (pre @ suf))\<rparr>)"
proof -
  let ?c = "file_cursor pre default_limits" and ?n = "word_of_nat (length (pre @ suf)) :: u64"
  obtain c' where h: "parse_header (word_of_nat (length pre)) ?c = Inr (f, c')"
    using assms(1) by (auto simp: open_header_only_def elim: open_inner_Inr)
  have ok: "cursor_ok ?c" and "room suf ?c"
    using assms(2) by (simp_all add: cursor_ok_file room_def file_cursor_def unat_word_of_nat_small
        del: file_cursor_def) (simp add: file_cursor_def unat_word_of_nat_small)
  then have "parse_header (word_of_nat (length pre)) (Gguf_Safety.extend suf ?c) = Inr (f, Gguf_Safety.extend suf c')"
    using header.prefix_only h by blast
  moreover have "Gguf_Safety.extend suf ?c = file_cursor (pre @ suf) default_limits"
    by (simp add: Gguf_Safety.extend_def file_cursor_def)
  ultimately have "parse_header ?n (file_cursor (pre @ suf) default_limits)
      = Inr (f\<lparr>gf_file_size := ?n\<rparr>, Gguf_Safety.extend suf c')"
    using parse_header_fsize [of "word_of_nat (length pre)"] parse_header_fsize [of ?n]
    by (fastforce simp: and_then_Inr_iff)
  then show ?thesis
    by (simp add: open_header_only_def open_inner_def parse_def del: of_nat_add length_append)
qed


section \<open>Bounds of the header\<close>

lemma read_tensors_length:
  "read_tensors n ts c = Inr (ts', c') \<Longrightarrow> length ts' = length ts + n"
  by (induction n arbitrary: ts c) (fastforce simp: and_then_Inr_iff)+

lemma read_kvs_dom:
  "read_kvs n m c = Inr (m', c') \<Longrightarrow> finite (dom m) \<Longrightarrow>
    finite (dom m') \<and> card (dom m') \<le> card (dom m) + n"
proof (induction n arbitrary: m c)
  case (Suc n)
  from Suc.prems(1) obtain k v d where r: "read_kvs n (m(k \<mapsto> v)) d = Inr (m', c')"
    by (auto simp: and_then_Inr_iff)
  have "card (insert k (dom m)) \<le> Suc (card (dom m))"
    using Suc.prems(2) by (simp add: card_insert_if)
  moreover have "finite (dom m') \<and> card (dom m') \<le> card (insert k (dom m)) + n"
    using Suc.IH [OF r] Suc.prems(2) by (simp only: dom_fun_upd) simp
  ultimately show ?case by auto
qed simp

lemma checked_budget: "check_metadata_budget c = Inr () \<Longrightarrow> offset c \<le> max_metadata_bytes (limits c)"
  by (auto simp: check_metadata_budget_def split: if_splits)

lemma read_kvs_budget:
  "cursor_ok c \<Longrightarrow> read_kvs n m c = Inr (m', c') \<Longrightarrow> n > 0 \<Longrightarrow>
    offset c' \<le> max_metadata_bytes (limits c)"
proof (induction n arbitrary: m c)
  case (Suc n)
  from Suc.prems(2) obtain k v d where d: "read_kv c = Inr ((k, v), d)" "check_metadata_budget d = Inr ()"
    and r: "read_kvs n (m(k \<mapsto> v)) d = Inr (m', c')"
    by (auto simp: and_then_Inr_iff)
  have "cursor_ok d" "limits d = limits c"
    using read_kv.keeps_ok [OF Suc.prems(1) d(1)] read_kv.keeps_frame [OF Suc.prems(1) d(1)] by auto
  with Suc.IH [OF _ r] r checked_budget [OF d(2)] show ?case by (cases n) simp_all
qed simp

lemma read_tensors_budget:
  "cursor_ok c \<Longrightarrow> read_tensors n ts c = Inr (ts', c') \<Longrightarrow> n > 0 \<Longrightarrow>
    offset c' \<le> max_metadata_bytes (limits c)"
proof (induction n arbitrary: ts c)
  case (Suc n)
  from Suc.prems(2) obtain t d where d: "read_tensor_info c = Inr (t, d)" "check_metadata_budget d = Inr ()"
    and r: "read_tensors n (ts @ [t]) d = Inr (ts', c')"
    by (auto simp: and_then_Inr_iff)
  have "cursor_ok d" "limits d = limits c"
    using read_tensor_info.keeps_ok [OF Suc.prems(1) d(1)]
      read_tensor_info.keeps_frame [OF Suc.prems(1) d(1)] by auto
  with Suc.IH [OF _ r] r checked_budget [OF d(2)] show ?case by (cases n) simp_all
qed simp

lemma sat_mul_fits:
  assumes "cursor_ok c" "sat_mul w k \<le> remaining c" "length (inner c) < 2 ^ 64 - 1"
  shows "unat k * unat w \<le> length (inner c)"
  using assms by (simp add: word_le_nat_alt remaining_ok unat_sat_mul mult.commute)

lemma align_up_spec:
  assumes "a \<noteq> 0" "unat off + unat a \<le> 2 ^ 64"
  shows "unat a dvd unat (align_up off a)" "unat off \<le> unat (align_up off a)"
    "unat (align_up off a) < unat off + unat a"
proof -
  let ?r = "off mod a"
  have r: "unat ?r = unat off mod unat a" by (simp add: unat_mod_distrib)
  have a: "unat a > 0" using assms(1) by (simp add: unat_gt_0)
  have room: "x \<le> 2 ^ 64 \<Longrightarrow> 0 < y \<Longrightarrow> min (2 ^ 64 - 1) (x - y) = x - y" for x y :: nat
    by simp
  have eq: "unat (align_up off a)
      = (if unat off mod unat a = 0 then unat off else unat off + (unat a - unat off mod unat a))"
  proof (cases "?r = 0")
    case True
    with r assms(1) show ?thesis by (simp add: align_up_def checked_rem_def)
  next
    case False
    then have "unat ?r > 0" by (simp add: unat_gt_0)
    then have "min (2 ^ 64 - 1) (unat off + unat a - unat ?r) = unat off + unat a - unat ?r"
      using assms(2) by (intro room)
    moreover have "unat ?r < unat a" using r a by simp
    moreover have "0 < unat ?r" using False by (simp only: unat_gt_0 not_False_eq_True)
    ultimately show ?thesis using r False assms(1)
      by (simp add: align_up_def checked_rem_def unat_sat_add unat_sat_sub)
  qed
  have "unat off + (unat a - unat off mod unat a) = unat a * (unat off div unat a + 1)"
    using mod_less_divisor [OF a, of "unat off"] mult_div_mod_eq [of "unat a" "unat off"]
    by (simp only: distrib_left)
  with eq show "unat a dvd unat (align_up off a)" by (auto simp: mod_0_imp_dvd)
  show "unat off \<le> unat (align_up off a)" "unat (align_up off a) < unat off + unat a"
    using eq a mod_less_divisor [OF a, of "unat off"] by (simp_all add: le_diff_conv2)
qed

lemma resolve_alignment_power:
  assumes "resolve_alignment m = Inr a"
  shows "\<exists>k < 64. a = 2 ^ k"
proof -
  have "DEFAULT_ALIGNMENT = 2 ^ 5" by (simp add: DEFAULT_ALIGNMENT_def)
  then have "is_power_of_two a" using assms
    by (auto simp: resolve_alignment_def is_power_of_two_def list_ex_iff Let_def
        split: option.splits if_splits intro!: bexI [of _ 5])
  then show ?thesis by (auto simp: is_power_of_two_def list_ex_iff)
qed

lemma unat_power_of_two:
  assumes "k < 64"
  shows "unat (2 ^ k :: u64) = 2 ^ k"
proof -
  have "(2 :: nat) ^ k < 2 ^ 64" using assms by (intro power_strict_increasing) simp_all
  from unat_word_of_nat_small [OF this] show ?thesis by simp
qed

lemma parse_header_parts:
  assumes "cursor_ok c" "parse_header fsize c = Inr (f, c')"
  obtains tensor_count kv_count c4 c5 where
    "cursor_ok c4" "limits c4 = limits c" "length (inner c4) \<le> length (inner c)"
    "cursor_ok c5" "limits c5 = limits c" "length (inner c5) \<le> length (inner c)"
    "cursor_ok c'" "unat (offset c') + length (inner c') = unat (offset c) + length (inner c)"
    "gf_version f \<in> {2, 3}"
    "sat_mul kv_count MIN_KV_BYTES \<le> remaining c4"
    "read_kvs (unat kv_count) Map.empty c4 = Inr (gf_metadata f, c5)"
    "resolve_alignment (gf_metadata f) = Inr (gf_alignment f)"
    "sat_mul tensor_count MIN_TENSOR_BYTES \<le> remaining c5"
    "read_tensors (unat tensor_count) [] c5 = Inr (gf_tensors f, c')"
    "gf_data_offset f =
      (if gf_tensors f = [] then offset c' else align_up (offset c') (gf_alignment f))"
    "gf_file_size f = fsize"
proof -
  from assms(2) obtain magic c1 version c2 tc c3 kc c4 where
    r: "read_array 4 c = Inr (magic, c1)" "read_u32 c1 = Inr (version, c2)"
      "MIN_VERSION \<le> version" "version \<le> MAX_VERSION" "read_u64 c2 = Inr (tc, c3)"
      "read_u64 c3 = Inr (kc, c4)"
    and b: "parse_body version tc kc fsize c4 = Inr (f, c')" by (rule parse_header_Inr)
  from b obtain c5 where b':
    "ensure_fits ''metadata keys'' (sat_mul kc MIN_KV_BYTES) (remaining c4) (offset c4) = Inr ()"
    "read_kvs (unat kc) Map.empty c4 = Inr (gf_metadata f, c5)"
    "resolve_alignment (gf_metadata f) = Inr (gf_alignment f)"
    "ensure_fits ''tensors'' (sat_mul tc MIN_TENSOR_BYTES) (remaining c5) (offset c5) = Inr ()"
    "read_tensors (unat tc) [] c5 = Inr (gf_tensors f, c')"
    "gf_data_offset f =
      (if gf_tensors f = [] then offset c' else align_up (offset c') (gf_alignment f))"
    "gf_version f = version" "gf_file_size f = fsize" by (rule parse_body_Inr)
  have magic: "cursor_reader (read_array 4)" by (rule reader_read_array) simp
  note ok1 = cursor_reader.keeps_ok [OF magic assms(1) r(1)]
  note ok2 = read_u32.keeps_ok [OF ok1 r(2)]
  note ok3 = read_u64.keeps_ok [OF ok2 r(5)]
  note ok4 = read_u64.keeps_ok [OF ok3 r(6)]
  note ok5 = read_kvs.keeps_ok [OF ok4 b'(2)]
  note mv = cursor_reader.offset_moves [OF magic assms(1) r(1)] read_u32.offset_moves [OF ok1 r(2)]
    read_u64.offset_moves [OF ok2 r(5)] read_u64.offset_moves [OF ok3 r(6)]
    read_kvs.offset_moves [OF ok4 b'(2)] read_tensors.offset_moves [OF ok5 b'(5)]
  note fr = cursor_reader.keeps_frame(2) [OF magic assms(1) r(1)] read_u32.keeps_frame(2) [OF ok1 r(2)]
    read_u64.keeps_frame(2) [OF ok2 r(5)] read_u64.keeps_frame(2) [OF ok3 r(6)]
    read_kvs.keeps_frame(2) [OF ok4 b'(2)]
  have "version = 2 \<or> version = 3"
    using r(3,4) by (simp add: MIN_VERSION_def MAX_VERSION_def) unat_arith
  moreover have "length (inner c4) \<le> length (inner c)" "length (inner c5) \<le> length (inner c)"
    "unat (offset c') + length (inner c') = unat (offset c) + length (inner c)"
    using mv by linarith+
  ultimately show ?thesis
    using that [of c4 c5 kc tc] ok4 ok5 read_tensors.keeps_ok [OF ok5 b'(5)] fr b' by simp
qed

lemma open_parts:
  assumes "open_inner (Some contents) lim v = Inr f" "length contents < 2 ^ 64"
  obtains tensor_count kv_count c4 c5 c' where
    "cursor_ok c4" "length (inner c4) \<le> length contents"
    "cursor_ok c5" "limits c5 = lim" "length (inner c5) \<le> length contents"
    "unat (offset c') + length (inner c') = length contents"
    "sat_mul kv_count MIN_KV_BYTES \<le> remaining c4"
    "read_kvs (unat kv_count) Map.empty c4 = Inr (gf_metadata f, c5)"
    "sat_mul tensor_count MIN_TENSOR_BYTES \<le> remaining c5"
    "read_tensors (unat tensor_count) [] c5 = Inr (gf_tensors f, c')"
    "gf_version f \<in> {2, 3}" "resolve_alignment (gf_metadata f) = Inr (gf_alignment f)"
    "gf_data_offset f =
      (if gf_tensors f = [] then offset c' else align_up (offset c') (gf_alignment f))"
proof -
  from assms(1) obtain c' where "parse_header (word_of_nat (length contents)) (file_cursor contents lim)
      = Inr (f, c')" by (rule open_inner_Inr)
  with cursor_ok_file [OF assms(2)] show ?thesis
    by (rule parse_header_parts) (rule that; simp add: file_cursor_def)
qed

text \<open>Where a successful open puts the tensor data: the format version is 2 or 3, the alignment
  is a power of two, and when there are tensors the data offset is the first multiple of the
  alignment at or after the end of the header, with the header inside both the file and the
  metadata budget.\<close>

theorem data_offset_aligned:
  assumes "open_inner (Some contents) lim verify_data = Inr f" "length contents < 2 ^ 63"
    and "gf_tensors f \<noteq> []"
  shows "gf_version f \<in> {2, 3} \<and> (\<exists>k < 64. gf_alignment f = 2 ^ k) \<and>
    unat (gf_alignment f) dvd unat (gf_data_offset f) \<and>
    (\<exists>header_len \<le> length contents. header_len \<le> unat (max_metadata_bytes lim) \<and>
       header_len \<le> unat (gf_data_offset f) \<and>
       unat (gf_data_offset f) < header_len + unat (gf_alignment f))"
proof -
  have small: "length contents < 2 ^ 64" using assms(2) by simp
  obtain tc :: u64 and c5 c' where
    t: "read_tensors (unat tc) [] c5 = Inr (gf_tensors f, c')" and p: "cursor_ok c5" "limits c5 = lim"
    "gf_version f \<in> {2, 3}" "unat (offset c') + length (inner c') = length contents"
    "resolve_alignment (gf_metadata f) = Inr (gf_alignment f)"
    "gf_data_offset f =
      (if gf_tensors f = [] then offset c' else align_up (offset c') (gf_alignment f))"
    by (rule open_parts [OF assms(1) small]) (rule that, assumption+)
  obtain k where k: "k < 64" "gf_alignment f = 2 ^ k" using resolve_alignment_power [OF p(5)] by blast
  then have "unat (gf_alignment f) \<le> 2 ^ 63"
    using power_increasing [of k 63 "2 :: nat"] by (simp add: unat_power_of_two)
  then have "unat (offset c') + unat (gf_alignment f) \<le> 2 ^ 64" using p(4) assms(2) by simp
  note up = align_up_spec [OF resolve_alignment_nonzero [OF p(5)] this]
  have "unat tc > 0" using read_tensors_length [OF t] assms(3) by (cases "gf_tensors f") auto
  then have "offset c' \<le> max_metadata_bytes lim"
    using read_tensors_budget [OF p(1) t] p(2) by simp
  then have "unat (offset c') \<le> unat (max_metadata_bytes lim)" by (simp add: word_le_nat_alt)
  moreover have "gf_data_offset f = align_up (offset c') (gf_alignment f)" using p(6) assms(3) by simp
  ultimately show ?thesis
    using up k p(3,4) by (intro conjI) (auto intro: exI [of _ "unat (offset c')"])
qed

text \<open>The counts of the header are bounded by the file before anything is allocated for them:
  a file of \<open>n\<close> bytes has at most \<open>n / 12\<close> metadata keys and \<open>n / 24\<close> tensors.\<close>

theorem header_counts_bounded:
  assumes "open_inner (Some contents) lim verify_data = Inr f" "length contents < 2 ^ 64 - 1"
  shows "12 * card (dom (gf_metadata f)) \<le> length contents \<and> finite (dom (gf_metadata f)) \<and>
    24 * length (gf_tensors f) \<le> length contents"
proof -
  have small: "length contents < 2 ^ 64" using assms(2) by simp
  obtain tc kc :: u64 and c4 c5 c' where
    t: "read_kvs (unat kc) Map.empty c4 = Inr (gf_metadata f, c5)"
    "read_tensors (unat tc) [] c5 = Inr (gf_tensors f, c')" and p: "cursor_ok c4" "length (inner c4) \<le> length contents"
    "cursor_ok c5" "length (inner c5) \<le> length contents"
    "sat_mul kc MIN_KV_BYTES \<le> remaining c4" "sat_mul tc MIN_TENSOR_BYTES \<le> remaining c5"
    by (rule open_parts [OF assms(1) small]) (rule that, assumption+)
  have "12 * unat kc \<le> length contents" "24 * unat tc \<le> length contents"
    using sat_mul_fits [OF p(1,5)] sat_mul_fits [OF p(3,6)] p(2,4) assms(2)
    by (simp_all add: MIN_KV_BYTES_def MIN_TENSOR_BYTES_def)
  then show ?thesis
    using read_kvs_dom [OF t(1)] read_tensors_length [OF t(2)] by simp
qed

section \<open>Sums over the tensors\<close>

lemma product_checked_exact:
  "product_checked acc ds = Some n \<Longrightarrow> unat n = unat acc * prod_list (map unat ds)"
  by (induction ds arbitrary: acc)
    (auto simp: checked_mul_Some unat_mul_small mult.assoc split: option.splits)

lemma sum_checked_exact:
  assumes "\<forall>x \<in> set xs. g x \<noteq> None"
  shows "sum_checked g acc xs =
    (let total = unat acc + (\<Sum>x \<leftarrow> xs. unat (the (g x)))
     in if total < 2 ^ 64 then Some (word_of_nat total) else None)"
  using assms
proof (induction xs arbitrary: acc)
  case Nil
  then show ?case using unat_lt_two_power [of acc] by simp
next
  case (Cons x xs)
  then obtain m where m: "g x = Some m" by auto
  show ?case
  proof (cases "unat acc + unat m < 2 ^ 64")
    case True
    with Cons m show ?thesis
      by (simp add: checked_add_def unat_add_small Let_def add.assoc)
  qed (use m in \<open>simp add: checked_add_def\<close>)
qed

lemma read_tensors_elements:
  "read_tensors n ts c = Inr (ts', c') \<Longrightarrow> t \<in> set ts' \<Longrightarrow> t \<in> set ts \<or> elements t \<noteq> None"
proof (induction n arbitrary: ts c)
  case (Suc n)
  then obtain info d where i: "read_tensor_info c = Inr (info, d)"
    and r: "read_tensors n (ts @ [info]) d = Inr (ts', c')" by (auto simp: and_then_Inr_iff)
  have "elements info \<noteq> None"
    using i by (auto simp: read_tensor_info_def and_then_Inr_iff Let_def split: if_splits)
  with Suc.IH [OF r Suc.prems(2)] show ?case by auto
qed simp

text \<open>The parameter count of an opened file is the exact sum, over its tensors, of the product of
  their dimensions, and \<open>None\<close> exactly when that sum does not fit in 64 bits: no product and no sum
  wraps silently.\<close>

theorem parameter_count_exact:
  assumes "open_inner (Some contents) lim verify_data = Inr f" "length contents < 2 ^ 64"
  shows "parameter_count f =
    (let total = (\<Sum>t \<leftarrow> gf_tensors f. prod_list (map unat (ti_dims t)))
     in if total < 2 ^ 64 then Some (word_of_nat total) else None)"
proof -
  obtain tc :: u64 and c5 c' where t: "read_tensors (unat tc) [] c5 = Inr (gf_tensors f, c')"
    by (rule open_parts [OF assms]) (rule that, assumption+)
  then have some: "elements t \<noteq> None" if "t \<in> set (gf_tensors f)" for t
    using read_tensors_elements that by fastforce
  have "unat (the (elements t)) = prod_list (map unat (ti_dims t))" if "t \<in> set (gf_tensors f)" for t
    using some [OF that] product_checked_exact [of 1 "ti_dims t"] by (auto simp: elements_def)
  then have "(\<Sum>t \<leftarrow> gf_tensors f. unat (the (elements t)))
      = (\<Sum>t \<leftarrow> gf_tensors f. prod_list (map unat (ti_dims t)))"
    by (intro arg_cong [of _ _ sum_list] map_cong) auto
  then show ?thesis
    using sum_checked_exact [of "gf_tensors f" elements 0] some by (simp add: parameter_count_def)
qed

section \<open>Reading arrays back\<close>

lemma read_elements_written:
  assumes "\<forall>x \<in> set xs. length (enc x) = unat w \<and> decode_unsigned (enc x) = g x"
  shows "read_elements (length xs) i w base (concat (map enc xs) @ rest) = Inr (map g xs)"
  using assms by (induction xs arbitrary: i) (simp_all add: read_exact_def)

lemma le_nat_zeros: "le_nat (bs @ replicate k 0) = le_nat bs"
  by (induction bs) (induction k, simp_all)

lemma decode_unsigned_le:
  "decode_unsigned (u32_le x) = ucast x" "decode_unsigned (u64_le y) = y"
proof -
  have "take 8 (u64_le y @ replicate 8 0) = u64_le y" by simp
  then show "decode_unsigned (u64_le y) = y" by (simp only: decode_unsigned_def word_le_roundtrip)
  have "take 8 (u32_le x @ replicate 8 0) = u32_le x @ replicate 4 0" by (simp add: take_append)
  moreover have "le_nat (u32_le x) = unat x"
    using unat_lt_two_power [of x] by (simp add: u32_le_def le_nat_le_bytes)
  ultimately show "decode_unsigned (u32_le x) = ucast x"
    by (simp add: decode_unsigned_def word_le_def le_nat_zeros)
qed

fun unsigned_items :: "fixture_value \<Rightarrow> u64 list option" where
  "unsigned_items (FixU32Array xs) = Some (map ucast xs)"
| "unsigned_items (FixU64Array xs) = Some xs"
| "unsigned_items v = None"

lemma view_kvs_outside:
  "k \<notin> fst ` set kvs \<Longrightarrow> view_kvs off kvs m k = m k"
  by (induction kvs arbitrary: off m) (auto simp: view_kv_def)

lemma view_kvs_lookup:
  "k \<notin> fst ` set post \<Longrightarrow> view_kvs off (pre @ (k, v) # post) m k =
    Some (view_value (off + word_of_nat (length (concat (map write_kv pre)) + (12 + length k))) v)"
  by (induction pre arbitrary: off m)
    (simp_all add: view_kvs_outside view_kv_def add.assoc del: length_concat)

lemma array_payload:
  assumes "unsigned_items v = Some items"
  obtains t w array_header body where "write_value v = array_header @ body" "length array_header = 16"
    "\<And>off. view_value off v = view_array t off (length items) (length body)"
    "fixed_width t = Some w" "length items \<le> length body"
    "\<And>i base rest. read_elements (length items) i w base (body @ rest) = Inr items"
  using assms
proof (cases v)
  case (FixU32Array xs)
  have "read_elements (length xs) i 4 base (concat (map u32_le xs) @ rest) = Inr (map ucast xs)"
    for i base rest by (rule read_elements_written) (simp add: decode_unsigned_le)
  with FixU32Array assms that [of "write_array_header 4 (length xs)" "concat (map u32_le xs)" U32T 4]
  show ?thesis by (auto simp: write_array_header_def)
next
  case (FixU64Array xs)
  have "read_elements (length xs) i 8 base (concat (map u64_le xs) @ rest) = Inr xs" for i base rest
    using read_elements_written [of xs u64_le 8 "\<lambda>x. x"] by (simp add: decode_unsigned_le)
  with FixU64Array assms that [of "write_array_header 10 (length xs)" "concat (map u64_le xs)" U64T 8]
  show ?thesis by (auto simp: write_array_header_def)
qed auto

text \<open>An integer array that was written into the metadata is read back element by element
  from the place its summary names, zero-extended to 64 bits; the estimator reads the per-layer
  head counts this way.\<close>

theorem read_u64_array_written:
  assumes "builder_ok lim b" "build b = Some out"
    and "gb_metadata b = pre @ (key, v) # post" "key \<notin> fst ` set post"
    and "unsigned_items v = Some items"
  shows "read_u64_array (Some out) (expected b) key = Inr (Some items)"
proof -
  from assms(5) obtain t w array_header body where
    v: "write_value v = array_header @ body" "length array_header = 16"
    "\<And>off. view_value off v = view_array t off (length items) (length body)"
    "fixed_width t = Some w" "length items \<le> length body"
    and elems: "\<And>i base rest. read_elements (length items) i w base (body @ rest) = Inr items"
    by (rule array_payload) blast
  let ?h = "MAGIC @ u32_le (gb_version b) @ u64_le (word_of_nat (length (gb_tensors b)))
      @ u64_le (word_of_nat (length (gb_metadata b))) @ concat (map write_kv pre) @ write_string key
      @ array_header"
  let ?off = "word_of_nat (length ?h) :: u64"
  obtain rest where out: "out = ?h @ body @ rest"
    using expected_file_size(5) [OF assms(2,1)] assms(3) v(1)
    by (auto simp: header_bytes_def write_kv_def)
  have small: "length out < 2 ^ 64" using expected_file_size(2) [OF assms(2,1)] by simp
  have h: "length ?h = 24 + (length (concat (map write_kv pre)) + (12 + length key)) + 12"
    using v(2) by (simp add: MAGIC_def bytes_of_def del: length_concat)
  have off: "unat ?off = length ?h"
    using small unfolding out by (intro unat_word_of_nat_small) (simp del: length_concat)
  have n: "unat (word_of_nat (length items) :: u64) = length items"
    using small v(5) unfolding out by (intro unat_word_of_nat_small) (simp del: length_concat)
  have g: "gf_metadata (expected b) key = Some (view_array t (?off - 12) (length items) (length body))"
    unfolding h using view_kvs_lookup [OF assms(4), of 24 pre v Map.empty] assms(3) v(3)
    by (simp add: expected_def Let_def del: length_concat)
  have "drop (unat ?off) out = body @ rest" unfolding off out by simp
  then show ?thesis
    using n by (simp add: read_u64_array_def get_array_def g view_array_def v(4) elems
        del: length_append length_concat)
qed

section \<open>A concrete file\<close>

definition sample :: gguf_builder where
  "sample =
    builder_tensor (bytes_of ''a'') [2, 2] F32
      (builder_kv (bytes_of ''heads'') (FixU32Array [8, 2]) builder_new)"

definition sample_bytes :: bytes where
  "sample_bytes = the (build sample)"

lemma sample_sizes:
  "length (header_bytes sample) = 102" "length (padding sample 102) = 26"
  "snd (write_tensors 0 (gb_tensors sample)) = 16"
  by code_simp+

lemma build_sample: "build sample = Some sample_bytes" "length sample_bytes = 144"
  unfolding sample_bytes_def build_def
  by (simp_all add: sample_sizes MAX_FIXTURE_DATA_BYTES_def)

lemma sample_fits:
  "\<forall>kv \<in> set (gb_metadata sample). kv_fits default_limits kv"
  "\<forall>t \<in> set (gb_tensors sample). tensor_fits default_limits t"
  "resolve_alignment (view_kvs 24 (gb_metadata sample) Map.empty) = Inr (gb_alignment sample)"
  "MIN_VERSION \<le> gb_version sample" "gb_version sample \<le> MAX_VERSION"
  by code_simp+

lemma sample_ok: "builder_ok default_limits sample"
  using sample_fits by (simp add: builder_ok_def sample_sizes default_limits_def)

lemma open_sample: "open_inner (Some sample_bytes) default_limits v = Inr (expected sample)"
  by (rule open_inner_written [OF sample_ok build_sample(1)])

lemma sample_tensors:
  "gf_tensors (expected sample) = [\<lparr>ti_name = bytes_of ''a'', ti_dims = [2, 2, 1, 1], ti_n_dims = 2,
     ti_ggml_type = F32, ti_offset = 0\<rparr>]"
  by code_simp

lemma sample_header_only:
  "\<exists>f. open_header_only (Some sample_bytes) = Inr f \<and> gf_tensors f \<noteq> []"
  using open_sample [of False] by (simp add: open_header_only_def sample_tensors)

text \<open>The properties of this theory on the sample file.\<close>

theorem gguf_roundtrip_witness:
  "builder_ok default_limits sample \<and> build sample = Some sample_bytes \<and>
   open_with_limits (Some sample_bytes) default_limits = Inr (expected sample)"
  using gguf_roundtrip [OF sample_ok build_sample(1)] sample_ok build_sample(1) by simp

theorem open_never_io_witness:
  "case open_inner (Some MAGIC) default_limits True of
     Inl e \<Rightarrow> e = Truncated 4 4 0 \<and> \<not> is_io_error e | Inr _ \<Rightarrow> False"
proof -
  have "case open_inner (Some MAGIC) default_limits True of
      Inl e \<Rightarrow> e = Truncated 4 4 0 | Inr _ \<Rightarrow> False" by code_simp
  moreover have "length MAGIC < 2 ^ 64" by (simp add: MAGIC_def bytes_of_def)
  ultimately show ?thesis
    using open_never_io [of MAGIC default_limits True] by (auto split: sum.splits)
qed

theorem header_only_prefix_witness:
  "open_header_only (Some (sample_bytes @ [0])) =
     Inr ((expected sample)\<lparr>gf_file_size := word_of_nat (length (sample_bytes @ [0]))\<rparr>)"
  by (rule header_only_prefix) (simp_all add: open_header_only_def open_sample build_sample)


theorem data_offset_aligned_witness:
  "unat (gf_alignment (expected sample)) dvd unat (gf_data_offset (expected sample)) \<and>
   gf_tensors (expected sample) \<noteq> []"
  using data_offset_aligned [OF open_sample [of True]] by (simp add: build_sample sample_tensors)

theorem header_counts_bounded_witness:
  "12 * card (dom (gf_metadata (expected sample))) \<le> 144 \<and>
   24 * length (gf_tensors (expected sample)) \<le> 144"
  using header_counts_bounded [OF open_sample [of True]] by (simp add: build_sample)

theorem parameter_count_exact_witness: "parameter_count (expected sample) = Some 4"
  using parameter_count_exact [OF open_sample [of True]] by (simp add: build_sample sample_tensors)

theorem read_u64_array_written_witness:
  "read_u64_array (Some sample_bytes) (expected sample) (bytes_of ''heads'') = Inr (Some [8, 2])"
  by (rule read_u64_array_written [OF sample_ok build_sample(1),
        where pre = "[]" and post = "[]" and v = "FixU32Array [8, 2]"])
    (simp_all add: sample_def builder_tensor_def builder_kv_def builder_new_def)

section \<open>A size that wraps\<close>

text \<open>
  \<open>bytes_for_elements\<close> multiplies the block count by the block size without a check. A file of
  64 bytes that declares one 32-bit tensor of \<open>2 ^ 62\<close> elements, whose data would be \<open>2 ^ 64\<close> bytes,
  therefore has a computed size of zero bytes.
\<close>

definition wrapping_file :: bytes where
  "wrapping_file =
    MAGIC @ u32_le 3 @ u64_le 1 @ u64_le 0 @ write_string (bytes_of ''t'') @ u32_le 1
      @ u64_le 4611686018427387904 @ u32_le 0 @ u64_le 0 @ replicate 7 0"

definition wrapping :: gguf_builder where
  "wrapping = builder_tensor (bytes_of ''t'') [4611686018427387904] F32 builder_new"

lemma wrapping_sizes:
  "header_bytes wrapping = take 57 wrapping_file" "length wrapping_file = 64"
  "padding wrapping 57 = replicate 7 0"
  "snd (write_tensors 0 (gb_tensors wrapping)) = 0"
  by code_simp+

lemma build_wrapping: "build wrapping = Some wrapping_file"
proof -
  have "wrapping_file = take 57 wrapping_file @ replicate 7 0" by code_simp
  then show ?thesis
    by (simp add: build_def Let_def wrapping_sizes MAX_FIXTURE_DATA_BYTES_def)
qed

lemma wrapping_fits:
  "gb_metadata wrapping = []" "\<forall>t \<in> set (gb_tensors wrapping). tensor_fits default_limits t"
  "resolve_alignment Map.empty = Inr (gb_alignment wrapping)"
  "MIN_VERSION \<le> gb_version wrapping" "gb_version wrapping \<le> MAX_VERSION"
  by code_simp+

lemma wrapping_ok: "builder_ok default_limits wrapping"
  using wrapping_fits by (simp add: builder_ok_def wrapping_sizes default_limits_def)

lemma wrapping_sums:
  "parameter_count (expected wrapping) = Some 4611686018427387904" "weight_bytes (expected wrapping) = Some 0"
  by code_simp+

text \<open>The check that the tensor data is present does not hold for every declared size: the
  reader accepts a 64-byte file whose only tensor has \<open>2 ^ 62\<close> 4-byte elements, and reports zero
  bytes of weights for it.\<close>

theorem oversized_tensor_accepted:
  "length wrapping_file = 64 \<and>
   (\<exists>f. open_with_limits (Some wrapping_file) default_limits = Inr f \<and>
     parameter_count f = Some 4611686018427387904 \<and> weight_bytes f = Some 0)"
  using open_inner_written [OF wrapping_ok build_wrapping] wrapping_sizes(2) wrapping_sums
  by (simp add: open_with_limits_def)

end
