(* ===== verification/Lw_Float.thy ===== *)
theory Lw_Float
  imports Lw_Prelude
begin

text \<open>
  The \<open>f64\<close> of the sources: IEEE 754 binary64, as the bit pattern. The magnitude (the pattern without the sign
  bit) orders the values; \<open>f64_units\<close> reads a finite magnitude as a multiple of \<open>2\<^sup>-\<^sup>1\<^sup>0\<^sup>7\<^sup>4\<close>. Each operation is
  the exact result, a quotient of naturals, rounded to the nearest value with ties to the even pattern.
\<close>

section \<open>Patterns\<close>

type_synonym f64 = "64 word"

definition F64_INF :: nat where "F64_INF = 0x7FF0000000000000"
definition F64_ONE :: f64 where "F64_ONE = 0x3FF0000000000000"
definition F64_HALF :: f64 where "F64_HALF = 0x3FE0000000000000"
definition F64_NAN :: f64 where "F64_NAN = 0x7FF8000000000000"

definition f64_neg :: "f64 \<Rightarrow> bool" where "f64_neg x \<longleftrightarrow> 2 ^ 63 \<le> unat x"
definition f64_mag :: "f64 \<Rightarrow> nat" where "f64_mag x = unat x mod 2 ^ 63"
definition f64_pack :: "bool \<Rightarrow> nat \<Rightarrow> f64" where "f64_pack s k = word_of_nat (k + (if s then 2 ^ 63 else 0))"

definition is_nan :: "f64 \<Rightarrow> bool" where "is_nan x \<longleftrightarrow> F64_INF < f64_mag x"
definition is_finite :: "f64 \<Rightarrow> bool" where "is_finite x \<longleftrightarrow> f64_mag x < F64_INF"

definition f64_key :: "f64 \<Rightarrow> int" where
  "f64_key x = (if f64_neg x then - int (f64_mag x) else int (f64_mag x))"

definition f64_lt :: "f64 \<Rightarrow> f64 \<Rightarrow> bool" where
  "f64_lt x y \<longleftrightarrow> \<not> is_nan x \<and> \<not> is_nan y \<and> f64_key x < f64_key y"

definition f64_le :: "f64 \<Rightarrow> f64 \<Rightarrow> bool" where
  "f64_le x y \<longleftrightarrow> \<not> is_nan x \<and> \<not> is_nan y \<and> f64_key x \<le> f64_key y"

definition f64_eq :: "f64 \<Rightarrow> f64 \<Rightarrow> bool" where
  "f64_eq x y \<longleftrightarrow> \<not> is_nan x \<and> \<not> is_nan y \<and> f64_key x = f64_key y"

text \<open>\<open>(0.0..=1.0).contains(x)\<close>.\<close>

definition unit_range :: "f64 \<Rightarrow> bool" where
  "unit_range x \<longleftrightarrow> f64_le 0 x \<and> f64_le x F64_ONE"

section \<open>Rounding\<close>

definition f64_units :: "nat \<Rightarrow> nat" where
  "f64_units k = (if k < 2 ^ 52 then k else (2 ^ 52 + k mod 2 ^ 52) * 2 ^ (k div 2 ^ 52 - 1))"

text \<open>The greatest number of \<open>m\<close> bits above \<open>s\<close> that satisfies a test, bit by bit.\<close>

fun greatest_bits :: "nat \<Rightarrow> (nat \<Rightarrow> bool) \<Rightarrow> nat \<Rightarrow> nat" where
  "greatest_bits 0 P s = s"
| "greatest_bits (Suc m) P s = greatest_bits m P (if P (s + 2 ^ m) then s + 2 ^ m else s)"

definition f64_floor :: "nat \<Rightarrow> nat \<Rightarrow> nat" where
  "f64_floor n d = greatest_bits 63 (\<lambda>k. f64_units k * d \<le> n * 2 ^ 1074) 0"

definition f64_round :: "nat \<Rightarrow> nat \<Rightarrow> nat" where
  "f64_round n d =
    (let k = f64_floor n d;
         mid = (f64_units k + f64_units (Suc k)) * d;
         twice = 2 * n * 2 ^ 1074
     in min F64_INF (if twice < mid \<or> (twice = mid \<and> even k) then k else Suc k))"

section \<open>Operations\<close>

definition f64_mul :: "f64 \<Rightarrow> f64 \<Rightarrow> f64" where
  "f64_mul x y =
    (let s = (f64_neg x \<noteq> f64_neg y) in
     if is_nan x \<or> is_nan y then F64_NAN
     else if \<not> is_finite x \<or> \<not> is_finite y
     then (if f64_mag x = 0 \<or> f64_mag y = 0 then F64_NAN else f64_pack s F64_INF)
     else f64_pack s (f64_round (f64_units (f64_mag x) * f64_units (f64_mag y)) (2 ^ 2148)))"

definition f64_div :: "f64 \<Rightarrow> f64 \<Rightarrow> f64" where
  "f64_div x y =
    (let s = (f64_neg x \<noteq> f64_neg y) in
     if is_nan x \<or> is_nan y \<or> (\<not> is_finite x \<and> \<not> is_finite y) \<or> (f64_mag x = 0 \<and> f64_mag y = 0) then F64_NAN
     else if \<not> is_finite x \<or> f64_mag y = 0 then f64_pack s F64_INF
     else if \<not> is_finite y then f64_pack s 0
     else f64_pack s (f64_round (f64_units (f64_mag x)) (f64_units (f64_mag y))))"

definition f64_int :: "f64 \<Rightarrow> int" where
  "f64_int x = (if f64_neg x then - int (f64_units (f64_mag x)) else int (f64_units (f64_mag x)))"

definition f64_add :: "f64 \<Rightarrow> f64 \<Rightarrow> f64" where
  "f64_add x y =
    (if is_nan x \<or> is_nan y then F64_NAN
     else if \<not> is_finite x
     then (if \<not> is_finite y \<and> f64_neg x \<noteq> f64_neg y then F64_NAN else x)
     else if \<not> is_finite y then y
     else let v = f64_int x + f64_int y
          in if v = 0 then f64_pack (f64_neg x \<and> f64_neg y) 0
             else f64_pack (v < 0) (f64_round (nat \<bar>v\<bar>) (2 ^ 1074)))"

definition f64_sub :: "f64 \<Rightarrow> f64 \<Rightarrow> f64" where
  "f64_sub x y = f64_add x (f64_pack (\<not> f64_neg y) (f64_mag y))"

section \<open>Rounding is monotone and exact\<close>

lemma f64_units_Suc: "f64_units k < f64_units (Suc k)"
proof (cases "Suc k < 2 ^ 52")
  case True
  then show ?thesis by (simp add: f64_units_def)
next
  case False
  show ?thesis
  proof (cases "k < 2 ^ 52")
    case True
    with False have "Suc k = 2 ^ 52" by linarith
    moreover from this have "k < 2 ^ 52" by linarith
    ultimately show ?thesis by (simp add: f64_units_def)
  next
    case k: False
    let ?m = "k mod 2 ^ 52" and ?e = "k div 2 ^ 52"
    have e: "1 \<le> ?e" using k by (simp add: Suc_le_eq div_greater_zero_iff)
    show ?thesis
    proof (cases "Suc ?m = 2 ^ 52")
      case True
      then have "Suc k div 2 ^ 52 = Suc ?e" "Suc k mod 2 ^ 52 = 0" by (simp_all add: div_Suc mod_Suc)
      moreover from e obtain e' where "?e = Suc e'" by (cases ?e) auto
      moreover have "?m < 2 ^ 52" by simp
      ultimately show ?thesis using k False by (simp add: f64_units_def)
    next
      case m: False
      then have "Suc k div 2 ^ 52 = ?e" "Suc k mod 2 ^ 52 = Suc ?m" by (simp_all add: div_Suc mod_Suc)
      with k False show ?thesis by (simp add: f64_units_def)
    qed
  qed
qed

lemma f64_units_mono: "k < l \<Longrightarrow> f64_units k < f64_units l"
  using f64_units_Suc by (rule lift_Suc_mono_less)

lemma f64_units_le_iff: "f64_units k \<le> f64_units l \<longleftrightarrow> k \<le> l"
  using f64_units_mono by (metis leD leI nat_less_le)

lemma greatest_bits:
  assumes "P s"
  shows "s \<le> greatest_bits m P s \<and> greatest_bits m P s < s + 2 ^ m \<and> P (greatest_bits m P s)
    \<and> ((\<forall>k l. k \<le> l \<longrightarrow> P l \<longrightarrow> P k) \<longrightarrow> (\<forall>k < s + 2 ^ m. P k \<longrightarrow> k \<le> greatest_bits m P s))"
  using assms
proof (induction m arbitrary: s)
  case (Suc m)
  show ?case
  proof (cases "P (s + 2 ^ m)")
    case True
    from Suc.IH [OF True] True show ?thesis by (auto simp: algebra_simps)
  next
    case False
    have "k < s + 2 ^ m" if "\<forall>k l. k \<le> l \<longrightarrow> P l \<longrightarrow> P k" "P k" for k
      using that False by (metis leI)
    with Suc.IH [OF Suc.prems] False show ?thesis by (fastforce simp: algebra_simps)
  qed
qed auto

lemma f64_floor:
  assumes "0 < d"
  shows "f64_units (f64_floor n d) * d \<le> n * 2 ^ 1074 \<and> f64_floor n d < 2 ^ 63
    \<and> (\<forall>k < 2 ^ 63. f64_units k * d \<le> n * 2 ^ 1074 \<longrightarrow> k \<le> f64_floor n d)"
proof -
  let ?P = "\<lambda>k. f64_units k * d \<le> n * 2 ^ 1074"
  have "?P k" if "k \<le> l" "?P l" for k l
    using that f64_units_le_iff [of k l] by (meson mult_le_mono1 order_trans)
  then have "\<forall>k l. k \<le> l \<longrightarrow> ?P l \<longrightarrow> ?P k" by blast
  moreover have "?P 0" by (simp add: f64_units_def)
  ultimately show ?thesis using greatest_bits [of ?P 0 63] unfolding f64_floor_def by simp
qed

lemma f64_floor_next: "0 < d \<Longrightarrow> Suc (f64_floor n d) < 2 ^ 63 \<Longrightarrow> n * 2 ^ 1074 < f64_units (Suc (f64_floor n d)) * d"
  using f64_floor [of d n] by (metis not_less Suc_n_not_le_n)

lemma f64_floor_mono:
  assumes "n * e \<le> m * d" "0 < d" "0 < e"
  shows "f64_floor n d \<le> f64_floor m e"
proof -
  let ?u = "f64_units (f64_floor n d)"
  have "?u * d * e \<le> n * 2 ^ 1074 * e" using f64_floor [OF assms(2)] by (intro mult_le_mono1) blast
  also have "\<dots> = (n * e) * 2 ^ 1074" by (simp only: ac_simps)
  also have "\<dots> \<le> (m * d) * 2 ^ 1074" using assms(1) by (rule mult_le_mono1)
  finally have "(?u * e) * d \<le> (m * 2 ^ 1074) * d" by (simp only: ac_simps)
  then have "?u * e \<le> m * 2 ^ 1074" using assms(2) by (simp only: mult_le_cancel2)
  with f64_floor [OF assms(3), of m] f64_floor [OF assms(2), of n] show ?thesis by blast
qed

lemma f64_round_mono:
  assumes "n * e \<le> m * d" "0 < d" "0 < e"
  shows "f64_round n d \<le> f64_round m e"
proof (cases "f64_floor n d = f64_floor m e")
  case False
  with f64_floor_mono [OF assms] show ?thesis by (auto simp: f64_round_def Let_def min_def)
next
  case True
  define k where "k = f64_floor n d"
  define c where "c = f64_units k + f64_units (Suc k)"
  define p :: nat where "p = 2 ^ 1074"
  have *: "(2 * n * p) * e \<le> (2 * m * p) * d" using assms(1) by (simp add: ac_simps)
  have down: "(2 * n * p < c * d \<longrightarrow> 2 * n * p < c * d) \<and> (2 * m * p < c * e \<longrightarrow> 2 * n * p < c * d)
      \<and> (2 * m * p = c * e \<longrightarrow> 2 * n * p \<le> c * d)"
  proof (intro conjI impI)
    assume "2 * m * p < c * e"
    then have "(2 * m * p) * d < (c * e) * d" using assms(2) by simp
    with * have "(2 * n * p) * e < (c * d) * e" by (simp only: ac_simps)
    then show "2 * n * p < c * d" using assms(3) by (simp only: mult_less_cancel2)
  next
    assume "2 * m * p = c * e"
    with * have "(2 * n * p) * e \<le> (c * d) * e" by (simp only: ac_simps)
    then show "2 * n * p \<le> c * d" using assms(3) by (simp only: mult_le_cancel2)
  qed blast
  let ?down = "\<lambda>n d. 2 * n * p < c * d \<or> (2 * n * p = c * d \<and> even k)"
  have up: "?down n d" if "?down m e"
    using that down by (auto simp: le_less)
  have "f64_round n d = min F64_INF (if ?down n d then k else Suc k)"
    "f64_round m e = min F64_INF (if ?down m e then k else Suc k)"
    using True by (simp_all only: f64_round_def Let_def k_def c_def p_def)
  with up show ?thesis by (auto simp: min_def)
qed

lemma f64_round_exact:
  assumes "n * 2 ^ 1074 = f64_units k * d" "0 < d" "k \<le> F64_INF"
  shows "f64_round n d = k"
proof -
  have small: "k < 2 ^ 63" using assms(3) by (simp add: F64_INF_def)
  have "k \<le> f64_floor n d" using f64_floor [OF assms(2), of n] small assms(1) by auto
  moreover have "f64_units (f64_floor n d) * d \<le> f64_units k * d" using f64_floor [OF assms(2), of n] assms(1) by simp
  then have "f64_floor n d \<le> k" using assms(2) f64_units_le_iff by (simp only: mult_le_cancel2)
  ultimately have k: "f64_floor n d = k" by simp
  have "f64_units k * d + f64_units k * d < f64_units k * d + f64_units (Suc k) * d"
    using f64_units_Suc [of k] assms(2) by simp
  then have "2 * n * 2 ^ 1074 < (f64_units k + f64_units (Suc k)) * d"
    using assms(1) by (simp only: distrib_right mult_2)
  with k assms(3) show ?thesis by (simp only: f64_round_def Let_def min_def if_True simp_thms) simp
qed

lemma f64_round_le_INF: "f64_round n d \<le> F64_INF"
  by (simp add: f64_round_def Let_def)

lemma f64_round_0: "0 < d \<Longrightarrow> f64_round 0 d = 0"
  by (rule f64_round_exact) (simp_all add: f64_units_def)

section \<open>Values between zero and one\<close>

lemma unat_f64_pack: "k \<le> F64_INF \<Longrightarrow> unat (f64_pack s k) = k + (if s then 2 ^ 63 else 0)"
  unfolding f64_pack_def unat_of_nat take_bit_eq_mod by (simp add: F64_INF_def)

lemma f64_mag_pack [simp]: "k \<le> F64_INF \<Longrightarrow> f64_mag (f64_pack s k) = k"
  unfolding f64_mag_def by (simp only: unat_f64_pack) (simp add: F64_INF_def)

lemma f64_neg_pack [simp]: "k \<le> F64_INF \<Longrightarrow> f64_neg (f64_pack s k) = s"
  unfolding f64_neg_def by (simp only: unat_f64_pack) (simp add: F64_INF_def)

lemma f64_key_pack: "k \<le> F64_INF \<Longrightarrow> f64_key (f64_pack s k) = (if s then - int k else int k)"
  by (simp add: f64_key_def)

lemma is_nan_pack [simp]: "k \<le> F64_INF \<Longrightarrow> \<not> is_nan (f64_pack s k)"
  by (simp add: is_nan_def)

definition F64_ONE_MAG :: nat where "F64_ONE_MAG = 0x3FF0000000000000"

lemma f64_key_ONE: "f64_key F64_ONE = int F64_ONE_MAG" "\<not> is_nan F64_ONE" "f64_key 0 = 0" "\<not> is_nan 0"
  by (simp_all add: f64_key_def f64_neg_def f64_mag_def F64_ONE_def F64_ONE_MAG_def is_nan_def F64_INF_def)

text \<open>A value between zero and one is its magnitude, and only zero may carry the sign.\<close>

lemma unit_range_mag:
  "unit_range x \<longleftrightarrow> f64_mag x \<le> F64_ONE_MAG \<and> (f64_neg x \<longrightarrow> f64_mag x = 0)"
  by (auto simp: unit_range_def f64_le_def f64_key_ONE) (auto simp: f64_key_def is_nan_def F64_ONE_MAG_def F64_INF_def split: if_splits)

lemma unit_range_key: "unit_range x \<Longrightarrow> f64_key x = int (f64_mag x)"
  by (auto simp: unit_range_mag f64_key_def)

lemma unit_range_finite: "unit_range x \<Longrightarrow> is_finite x" "unit_range x \<Longrightarrow> \<not> is_nan x"
  by (auto simp: unit_range_mag is_finite_def is_nan_def F64_ONE_MAG_def F64_INF_def)

lemma unit_range_le: "unit_range x \<Longrightarrow> unit_range y \<Longrightarrow> f64_le x y \<longleftrightarrow> f64_mag x \<le> f64_mag y"
  by (simp add: f64_le_def unit_range_finite unit_range_key)

lemma f64_units_ONE: "f64_units F64_ONE_MAG = 2 ^ 1074"
  by (simp add: f64_units_def F64_ONE_MAG_def)

lemma unit_range_units: "unit_range x \<Longrightarrow> f64_units (f64_mag x) \<le> 2 ^ 1074"
  using f64_units_le_iff [of "f64_mag x" F64_ONE_MAG] by (simp only: unit_range_mag f64_units_ONE)

lemma f64_mul_unit:
  assumes "unit_range x" "unit_range y"
  shows "unit_range (f64_mul x y)
    \<and> f64_mag (f64_mul x y) = f64_round (f64_units (f64_mag x) * f64_units (f64_mag y)) (2 ^ 2148)"
proof -
  let ?n = "f64_units (f64_mag x) * f64_units (f64_mag y)"
  have eq: "f64_mul x y = f64_pack (f64_neg x \<noteq> f64_neg y) (f64_round ?n (2 ^ 2148))"
    using assms by (simp add: f64_mul_def unit_range_finite)
  have "?n \<le> 2 ^ 1074 * 2 ^ 1074" using unit_range_units assms by (intro mult_le_mono) blast+
  also have "(2 :: nat) ^ 1074 * 2 ^ 1074 = 2 ^ 2148" by (simp flip: power_add)
  finally have "?n * 1 \<le> 1 * 2 ^ 2148" by simp
  then have "f64_round ?n (2 ^ 2148) \<le> f64_round 1 1" by (rule f64_round_mono) simp_all
  moreover have "f64_round 1 1 = F64_ONE_MAG"
    by (rule f64_round_exact) (simp_all add: f64_units_ONE, simp add: F64_ONE_MAG_def F64_INF_def)
  moreover have "f64_round ?n (2 ^ 2148) = 0" if "f64_neg x \<noteq> f64_neg y"
  proof -
    have "?n = 0" using that assms by (auto simp: unit_range_mag f64_units_def)
    then show ?thesis by (simp only: f64_round_0) (simp add: f64_round_0)
  qed
  ultimately show ?thesis using f64_round_le_INF [of ?n "2 ^ 2148"] by (auto simp: unit_range_mag eq)
qed

lemma f64_mul_mono:
  assumes "unit_range w" "unit_range x" "unit_range y" "f64_le x y"
  shows "f64_le (f64_mul w x) (f64_mul w y)"
proof -
  have "f64_units (f64_mag x) \<le> f64_units (f64_mag y)" using assms by (simp add: unit_range_le f64_units_le_iff)
  then have "f64_round (f64_units (f64_mag w) * f64_units (f64_mag x)) (2 ^ 2148)
      \<le> f64_round (f64_units (f64_mag w) * f64_units (f64_mag y)) (2 ^ 2148)"
    by (intro f64_round_mono mult_le_mono) simp_all
  with assms f64_mul_unit show ?thesis by (simp add: unit_range_le)
qed

lemma f64_int_unit: "unit_range x \<Longrightarrow> f64_int x = int (f64_units (f64_mag x))"
  by (auto simp: f64_int_def unit_range_mag f64_units_def)

lemma f64_add_unit:
  assumes "unit_range x" "unit_range y"
  shows "is_finite (f64_add x y) \<and> \<not> is_nan (f64_add x y)
    \<and> f64_key (f64_add x y) = int (f64_round (f64_units (f64_mag x) + f64_units (f64_mag y)) (2 ^ 1074))"
proof -
  let ?n = "f64_units (f64_mag x) + f64_units (f64_mag y)"
  have sum: "f64_int x + f64_int y = int ?n" using assms by (simp add: f64_int_unit)
  have bits: "f64_add x y = (if ?n = 0 then f64_pack (f64_neg x \<and> f64_neg y) 0 else f64_pack False (f64_round ?n (2 ^ 1074)))"
  proof -
    have "f64_add x y = (let v = f64_int x + f64_int y in if v = 0 then f64_pack (f64_neg x \<and> f64_neg y) 0
        else f64_pack (v < 0) (f64_round (nat \<bar>v\<bar>) (2 ^ 1074)))"
      using assms by (simp only: f64_add_def unit_range_finite if_False not_False_eq_True simp_thms)
    then show ?thesis unfolding sum Let_def by (simp only: of_nat_eq_0_iff abs_of_nat nat_int) simp
  qed
  have "?n * 1 \<le> 2 * 2 ^ 1074"
    using add_mono [OF unit_range_units [OF assms(1)] unit_range_units [OF assms(2)]] by (simp only: mult_2 mult_1_right)
  then have "f64_round ?n (2 ^ 1074) \<le> f64_round 2 1" by (rule f64_round_mono) simp_all
  moreover have "f64_round 2 1 = 0x4000000000000000"
    by (rule f64_round_exact) (simp_all add: f64_units_def F64_INF_def)
  ultimately have "f64_round ?n (2 ^ 1074) < F64_INF" by (simp add: F64_INF_def)
  with bits show ?thesis by (auto simp: is_finite_def f64_key_pack f64_round_0 F64_INF_def [symmetric])
qed

lemma f64_add_mono:
  assumes "unit_range x" "unit_range y" "unit_range x'" "unit_range y'" "f64_le x x'" "f64_le y y'"
  shows "f64_le (f64_add x y) (f64_add x' y')"
proof -
  have "f64_units (f64_mag x) \<le> f64_units (f64_mag x')" "f64_units (f64_mag y) \<le> f64_units (f64_mag y')"
    using assms by (simp_all add: unit_range_le f64_units_le_iff)
  then have "f64_round (f64_units (f64_mag x) + f64_units (f64_mag y)) (2 ^ 1074)
      \<le> f64_round (f64_units (f64_mag x') + f64_units (f64_mag y')) (2 ^ 1074)"
    by (intro f64_round_mono mult_le_mono add_mono) simp_all
  with assms f64_add_unit show ?thesis by (simp add: f64_le_def)
qed

lemma f64_le_total: "\<not> is_nan x \<Longrightarrow> \<not> is_nan y \<Longrightarrow> \<not> f64_lt x y \<longleftrightarrow> f64_le y x"
  by (auto simp: f64_lt_def f64_le_def)

lemma f64_mul_zero: "unit_range w \<Longrightarrow> f64_mag w = 0 \<Longrightarrow> unit_range x \<Longrightarrow> f64_mag (f64_mul w x) = 0"
  using f64_mul_unit [of w x] by (simp add: f64_units_def f64_round_0)

section \<open>Evaluation\<close>

text \<open>A normal number is \<open>m * 2 ^ e\<close> units with a mantissa of 53 bits, and its magnitude is \<open>e * 2 ^ 52 + m\<close>. On such
  numbers the operations are computed on the mantissas alone.\<close>

lemma f64_round_ratio: "n * e = m * d \<Longrightarrow> 0 < d \<Longrightarrow> 0 < e \<Longrightarrow> f64_round n d = f64_round m e"
  by (metis f64_round_mono order_antisym order_refl)

lemma f64_units_normal:
  assumes "2 ^ 52 \<le> m" "m \<le> 2 ^ 53"
  shows "f64_units (e * 2 ^ 52 + m) = m * 2 ^ e"
proof (cases "m = 2 ^ 53")
  case True
  have "e * 2 ^ 52 + m = (e + 2) * 2 ^ 52" using True by simp
  then have "f64_units (e * 2 ^ 52 + m) = 2 ^ 52 * 2 ^ (e + 1)" by (simp only: f64_units_def) simp
  with True show ?thesis by simp
next
  case False
  define r where "r = m - 2 ^ 52"
  from False assms have m: "m = 2 ^ 52 + r" "r < 2 ^ 52" by (auto simp: r_def)
  have "f64_units (r + (e + 1) * 2 ^ 52) = (2 ^ 52 + r) * 2 ^ (e + 1 - 1)"
    using m(2)
    by (simp only: f64_units_def div_mult_self1 [OF power_not_zero] mod_mult_self1 div_less mod_less) simp
  moreover have "e * 2 ^ 52 + m = r + (e + 1) * 2 ^ 52" using m by simp
  ultimately show ?thesis by (simp only: m(1) [symmetric] add_diff_cancel_right')
qed

lemma f64_round_nearest:
  assumes "2 ^ 52 \<le> m" "m < 2 ^ 53" "e \<le> 1074" "0 < d"
    and "m * d \<le> n * 2 ^ (1074 - e)" "n * 2 ^ (1074 - e) < (m + 1) * d"
  shows "f64_round n d =
    (if 2 * n * 2 ^ (1074 - e) < (2 * m + 1) * d \<or> (2 * n * 2 ^ (1074 - e) = (2 * m + 1) * d \<and> even m)
     then e * 2 ^ 52 + m else e * 2 ^ 52 + (m + 1))"
proof -
  define c :: nat where "c = 2 ^ e"
  define q :: nat where "q = n * 2 ^ (1074 - e)"
  let ?k = "e * 2 ^ 52 + m"
  have split: "n * 2 ^ 1074 = q * c" using assms(3) by (simp add: q_def c_def flip: power_add)
  have c: "0 < c" by (simp add: c_def)
  have units: "f64_units ?k = m * c" "f64_units (Suc ?k) = (m + 1) * c"
    using f64_units_normal [of m e] f64_units_normal [of "m + 1" e] assms(1,2) by (simp_all only: c_def) simp_all
  have small: "Suc ?k < 2 ^ 63" using assms(2,3) by simp
  have scaled: "f64_units ?k * d = (m * d) * c" "f64_units (Suc ?k) * d = ((m + 1) * d) * c"
    unfolding units by (simp_all only: ac_simps)
  have "f64_units ?k * d \<le> n * 2 ^ 1074" unfolding scaled split using assms(5) by (intro mult_le_mono1) (simp only: q_def)
  moreover have "n * 2 ^ 1074 < f64_units (Suc ?k) * d"
    unfolding scaled split using assms(6) c by (simp only: q_def mult_less_cancel2)
  moreover have "f64_units (f64_floor n d) * d \<le> n * 2 ^ 1074" using f64_floor [OF assms(4)] by blast
  ultimately have "f64_units (f64_floor n d) * d < f64_units (Suc ?k) * d" "?k \<le> f64_floor n d"
    using f64_floor [OF assms(4), of n] Suc_lessD [OF small] le_less_trans by blast+
  then have k: "f64_floor n d = ?k"
    using f64_units_le_iff [of "Suc ?k" "f64_floor n d"] by (simp only: mult_less_cancel2) linarith
  have mid: "(f64_units ?k + f64_units (Suc ?k)) * d = ((2 * m + 1) * d) * c" unfolding units by algebra
  have twice: "2 * n * 2 ^ 1074 = (2 * q) * c" using split by (simp only: ac_simps)
  have "?k \<le> F64_INF" "Suc ?k \<le> F64_INF" using assms(2,3) by (simp_all add: F64_INF_def)
  moreover have parity: "even ?k \<longleftrightarrow> even m" by simp
  have "f64_round n d = min F64_INF (if (2 * q) * c < ((2 * m + 1) * d) * c
      \<or> ((2 * q) * c = ((2 * m + 1) * d) * c \<and> even ?k) then ?k else Suc ?k)"
    unfolding f64_round_def k Let_def mid twice ..
  moreover have "(2 * q) * c < ((2 * m + 1) * d) * c \<longleftrightarrow> 2 * q < (2 * m + 1) * d"
    "(2 * q) * c = ((2 * m + 1) * d) * c \<longleftrightarrow> 2 * q = (2 * m + 1) * d"
    using c by (simp_all only: mult_less_cancel2 mult_cancel2) auto
  moreover have "2 * n * 2 ^ (1074 - e) = 2 * q" by (simp only: q_def mult.assoc)
  ultimately show ?thesis by (simp only: parity min_def if_True split: if_split) simp
qed

definition normal :: "f64 \<Rightarrow> nat \<Rightarrow> nat \<Rightarrow> bool" where
  "normal x e m \<longleftrightarrow> f64_mag x = e * 2 ^ 52 + m \<and> \<not> f64_neg x \<and> 2 ^ 52 \<le> m \<and> m < 2 ^ 53 \<and> e \<le> 1074"

lemma normal_facts:
  assumes "normal x e m"
  shows "f64_units (f64_mag x) = m * 2 ^ e" "is_finite x" "\<not> is_nan x" "\<not> f64_neg x" "f64_mag x \<noteq> 0"
  using assms f64_units_normal [of m e]
  by (auto simp: normal_def is_finite_def is_nan_def F64_INF_def)

lemma f64_mul_normal:
  assumes "normal x ex mx" "normal y ey my"
  shows "f64_mul x y = f64_pack False (f64_round (mx * my) (2 ^ (2148 - ex - ey)))"
proof -
  have "ex + ey \<le> 2148" using assms by (simp add: normal_def)
  then have "(2 :: nat) ^ 2148 = 2 ^ ex * 2 ^ ey * 2 ^ (2148 - ex - ey)" by (simp flip: power_add)
  then have "(mx * 2 ^ ex * (my * 2 ^ ey)) * 2 ^ (2148 - ex - ey) = mx * my * 2 ^ 2148" by (simp only: ac_simps)
  then have "f64_round (mx * 2 ^ ex * (my * 2 ^ ey)) (2 ^ 2148) = f64_round (mx * my) (2 ^ (2148 - ex - ey))"
    by (rule f64_round_ratio) simp_all
  with assms normal_facts show ?thesis by (simp add: f64_mul_def)
qed

lemma f64_div_normal:
  assumes "normal x ex mx" "normal y ey my" "e \<le> ex" "e \<le> ey"
  shows "f64_div x y = f64_pack False (f64_round (mx * 2 ^ (ex - e)) (my * 2 ^ (ey - e)))"
proof -
  have "(2 :: nat) ^ ex = 2 ^ (ex - e) * 2 ^ e" "(2 :: nat) ^ ey = 2 ^ (ey - e) * 2 ^ e"
    using assms(3,4) by (simp_all flip: power_add)
  then have "f64_round (mx * 2 ^ ex) (my * 2 ^ ey) = f64_round (mx * 2 ^ (ex - e)) (my * 2 ^ (ey - e))"
    using assms(2) by (intro f64_round_ratio) (simp_all add: normal_def)
  with normal_facts [OF assms(1)] normal_facts [OF assms(2)] show ?thesis by (simp add: f64_div_def)
qed

text \<open>Sums and differences: the exact result scaled down to the common exponent.\<close>

lemma f64_round_scaled:
  assumes "e \<le> 1074" "n = 2 ^ e * s"
  shows "f64_round n (2 ^ 1074) = f64_round s (2 ^ (1074 - e))"
proof (rule f64_round_ratio)
  have "(2 :: nat) ^ 1074 = 2 ^ e * 2 ^ (1074 - e)" using assms(1) by (simp flip: power_add)
  then show "n * 2 ^ (1074 - e) = s * 2 ^ 1074" unfolding assms(2) by (simp only: ac_simps)
qed simp_all

lemma f64_add_pos:
  assumes "is_finite x" "is_finite y" "f64_int x + f64_int y = int n" "n \<noteq> 0"
  shows "f64_add x y = f64_pack False (f64_round n (2 ^ 1074))"
proof -
  have "\<not> is_nan x" "\<not> is_nan y" using assms(1,2) by (simp_all add: is_finite_def is_nan_def)
  with assms show ?thesis
    by (simp only: f64_add_def Let_def if_False not_False_eq_True simp_thms of_nat_eq_0_iff of_nat_less_0_iff abs_of_nat nat_int)
qed

lemma f64_add_normal:
  assumes "normal x ex mx" "normal y ey my" "e \<le> ex" "e \<le> ey"
  shows "f64_add x y = f64_pack False (f64_round (mx * 2 ^ (ex - e) + my * 2 ^ (ey - e)) (2 ^ (1074 - e)))"
proof -
  let ?n = "mx * 2 ^ ex + my * 2 ^ ey"
  have "f64_add x y = f64_pack False (f64_round ?n (2 ^ 1074))"
  proof (rule f64_add_pos)
    show "f64_int x + f64_int y = int ?n" using normal_facts [OF assms(1)] normal_facts [OF assms(2)] by (simp add: f64_int_def)
    show "?n \<noteq> 0" using assms(1) by (simp add: normal_def)
  qed (rule normal_facts [OF assms(1)] normal_facts [OF assms(2)])+
  also have "f64_round ?n (2 ^ 1074) = f64_round (mx * 2 ^ (ex - e) + my * 2 ^ (ey - e)) (2 ^ (1074 - e))"
    using assms by (intro f64_round_scaled) (simp_all add: normal_def distrib_left mult.left_commute flip: power_add)
  finally show ?thesis .
qed

lemma f64_sub_normal:
  assumes "normal x ex mx" "normal y ey my" "e \<le> ex" "e \<le> ey" "my * 2 ^ (ey - e) < mx * 2 ^ (ex - e)"
  shows "f64_sub x y = f64_pack False (f64_round (mx * 2 ^ (ex - e) - my * 2 ^ (ey - e)) (2 ^ (1074 - e)))"
proof -
  let ?n = "2 ^ e * (mx * 2 ^ (ex - e) - my * 2 ^ (ey - e))"
  have scale: "mx * 2 ^ ex = 2 ^ e * (mx * 2 ^ (ex - e))" "my * 2 ^ ey = 2 ^ e * (my * 2 ^ (ey - e))"
    using assms(3,4) by (simp_all add: mult.left_commute flip: power_add)
  have small: "f64_mag y \<le> F64_INF" using assms(2) by (simp add: normal_def F64_INF_def)
  have "f64_sub x y = f64_pack False (f64_round ?n (2 ^ 1074))"
    unfolding f64_sub_def
  proof (rule f64_add_pos)
    have "f64_int x = int (mx * 2 ^ ex)" "f64_int (f64_pack (\<not> f64_neg y) (f64_mag y)) = - int (my * 2 ^ ey)"
      using normal_facts [OF assms(1)] normal_facts [OF assms(2)] small by (simp_all add: f64_int_def)
    moreover have "my * 2 ^ ey \<le> mx * 2 ^ ex" unfolding scale using assms(5) by simp
    ultimately have "f64_int x + f64_int (f64_pack (\<not> f64_neg y) (f64_mag y)) = int (mx * 2 ^ ex - my * 2 ^ ey)"
      by (simp only: of_nat_diff)
    then show "f64_int x + f64_int (f64_pack (\<not> f64_neg y) (f64_mag y)) = int ?n"
      unfolding scale by (simp only: diff_mult_distrib2)
    show "?n \<noteq> 0" using assms(5) by simp
    show "is_finite x" by (rule normal_facts [OF assms(1)])
    show "is_finite (f64_pack (\<not> f64_neg y) (f64_mag y))" using small normal_facts(2) [OF assms(2)] by (simp add: is_finite_def)
  qed
  also have "f64_round ?n (2 ^ 1074) = f64_round (mx * 2 ^ (ex - e) - my * 2 ^ (ey - e)) (2 ^ (1074 - e))"
    using assms by (intro f64_round_scaled) (simp_all add: normal_def)
  finally show ?thesis .
qed

lemma f64_mul_0: "is_finite x \<Longrightarrow> \<not> f64_neg x \<Longrightarrow> f64_mul x 0 = 0"
  by (simp add: f64_mul_def is_finite_def is_nan_def f64_neg_def f64_mag_def F64_INF_def f64_units_def f64_round_0 f64_pack_def)

lemma f64_pack_mag: "f64_pack (f64_neg x) (f64_mag x) = x"
proof -
  have "f64_mag x + (if f64_neg x then 2 ^ 63 else 0) = unat x"
    using unat_lt_two_power [of x] by (auto simp: f64_mag_def f64_neg_def le_mod_geq not_le)
  moreover have "word_of_nat (unat x) = x" by simp
  ultimately show ?thesis unfolding f64_pack_def by metis
qed

lemma f64_add_0:
  assumes "normal x e m"
  shows "f64_add x 0 = x"
proof -
  have "f64_add x 0 = f64_pack False (f64_round (f64_units (f64_mag x)) (2 ^ 1074))"
  proof (rule f64_add_pos)
    show "f64_int x + f64_int 0 = int (f64_units (f64_mag x))"
      using normal_facts(4) [OF assms] by (simp add: f64_int_def f64_mag_def [of 0] f64_neg_def [of 0] f64_units_def [of 0])
    show "f64_units (f64_mag x) \<noteq> 0" using normal_facts(1) [OF assms] assms by (simp add: normal_def)
  qed (use normal_facts [OF assms] in \<open>simp_all add: is_finite_def f64_mag_def [of 0] F64_INF_def\<close>)
  also have "f64_round (f64_units (f64_mag x)) (2 ^ 1074) = f64_mag x"
    using normal_facts(2) [OF assms] by (intro f64_round_exact) (simp_all add: is_finite_def)
  finally show ?thesis using f64_pack_mag [of x] normal_facts(4) [OF assms] by simp
qed

end
