(* ===== verification/Lw_Float_Int.thy ===== *)
theory Lw_Float_Int
  imports Lw_Float
begin

text \<open>
  Conversions between \<open>f64\<close> and integers, and the values on which \<open>f64\<close> arithmetic is exact: \<open>exactly x n s\<close> says that
  \<open>x\<close> is \<open>n / 2 ^ s\<close>. Sums and products of such values with a numerator below \<open>2 ^ 53\<close> are exact again.
\<close>

section \<open>Conversions\<close>

definition f64_of_u64 :: "u64 \<Rightarrow> f64" where
  "f64_of_u64 w = f64_pack False (f64_round (unat w) 1)"

text \<open>\<open>x as u64\<close>: toward zero, saturating, and zero for a value that is not a number.\<close>

definition f64_to_u64 :: "f64 \<Rightarrow> u64" where
  "f64_to_u64 x =
    (if is_nan x \<or> f64_neg x then 0
     else if \<not> is_finite x then - 1
     else word_of_nat (min (2 ^ 64 - 1) (f64_units (f64_mag x) div 2 ^ 1074)))"

definition f64_ceil :: "f64 \<Rightarrow> f64" where
  "f64_ceil x =
    (if is_nan x then F64_NAN
     else if \<not> is_finite x then x
     else if f64_neg x then f64_pack True (f64_round (f64_units (f64_mag x) div 2 ^ 1074) 1)
     else f64_pack False (f64_round ((f64_units (f64_mag x) + 2 ^ 1074 - 1) div 2 ^ 1074) 1))"

definition f64_max :: "f64 \<Rightarrow> f64 \<Rightarrow> f64" where
  "f64_max x y = (if is_nan x then y else if is_nan y then x else if f64_lt x y then y else x)"

text \<open>\<open>f32 as f64\<close>: exact, and a value that is not a number stays one.\<close>

definition f64_of_f32 :: "u32 \<Rightarrow> f64" where
  "f64_of_f32 w =
    (let s = (2 ^ 31 \<le> unat w);
         k = unat w mod 2 ^ 31;
         n = (if k < 2 ^ 23 then k else (2 ^ 23 + k mod 2 ^ 23) * 2 ^ (k div 2 ^ 23 - 1))
     in if 0x7F800000 < k then F64_NAN
        else if k = 0x7F800000 then f64_pack s F64_INF
        else f64_pack s (f64_round n (2 ^ 149)))"

section \<open>Exact values\<close>

definition exactly :: "f64 \<Rightarrow> nat \<Rightarrow> nat \<Rightarrow> bool" where
  "exactly x n s \<longleftrightarrow> is_finite x \<and> \<not> f64_neg x \<and> f64_units (f64_mag x) * 2 ^ s = n * 2 ^ 1074"

lemma normalised:
  assumes "0 < n" "n < 2 ^ 53"
  shows "\<exists>j \<le> 52. 2 ^ 52 \<le> n * 2 ^ j \<and> n * 2 ^ j < (2 :: nat) ^ 53"
proof -
  obtain i where i: "2 ^ i \<le> n" "n < (2 :: nat) ^ (i + 1)"
    using ex_power_ivl1 [of 2 n] assms(1) by (auto simp: Suc_le_eq)
  have "(2 :: nat) ^ i < 2 ^ 53" using i(1) assms(2) by (rule le_less_trans)
  then have "i < 53" by (rule power_less_imp_less_exp [rotated]) simp
  then obtain j where j: "52 = i + j" by (metis less_Suc_eq_le le_iff_add numeral_eq_Suc pred_numeral_simps(3) semiring_norm(28,26,27))
  have "2 ^ i * 2 ^ j \<le> n * 2 ^ j" "n * 2 ^ j < 2 ^ (i + 1) * (2 :: nat) ^ j" using i by simp_all
  then have "2 ^ (i + j) \<le> n * 2 ^ j" "n * 2 ^ j < (2 :: nat) ^ (Suc (i + j))" by (simp_all add: power_add)
  then have "j \<le> 52 \<and> 2 ^ 52 \<le> n * 2 ^ j \<and> n * 2 ^ j < (2 :: nat) ^ 53"
    unfolding j [symmetric] by (simp only: le_add2 j simp_thms) (simp flip: j)
  then show ?thesis by blast
qed

lemma representable:
  assumes "n < 2 ^ 53" "s \<le> 1000"
  shows "\<exists>k < F64_INF. f64_units k * 2 ^ s = n * 2 ^ 1074"
proof (cases "n = 0")
  case True
  then show ?thesis by (intro exI [of _ 0]) (simp add: f64_units_def F64_INF_def)
next
  case False
  then obtain j where j: "j \<le> 52" "2 ^ 52 \<le> n * 2 ^ j" "n * 2 ^ j < (2 :: nat) ^ 53"
    using normalised assms(1) by blast
  define e where "e = 1074 - s - j"
  have e: "j + e + s = 1074" using j(1) assms(2) by (simp add: e_def)
  have "f64_units (e * 2 ^ 52 + n * 2 ^ j) = n * 2 ^ j * 2 ^ e"
    using j by (intro f64_units_normal) simp_all
  then have "f64_units (e * 2 ^ 52 + n * 2 ^ j) * 2 ^ s = n * 2 ^ (j + e + s)"
    by (simp only: power_add mult.assoc)
  moreover have "e * 2 ^ 52 + n * 2 ^ j < F64_INF" using j(3) e by (simp add: F64_INF_def)
  ultimately show ?thesis unfolding e by blast
qed

lemma exactly_round:
  assumes "n < 2 ^ 53" "s \<le> 1000" "m * 2 ^ s = n * d" "0 < d"
  shows "exactly (f64_pack False (f64_round m d)) n s"
proof -
  obtain k where k: "k < F64_INF" "f64_units k * 2 ^ s = n * 2 ^ 1074" using representable assms(1,2) by blast
  have "(m * 2 ^ 1074) * 2 ^ s = (m * 2 ^ s) * 2 ^ 1074" by (simp only: ac_simps)
  also have "\<dots> = (f64_units k * d) * 2 ^ s" unfolding assms(3) using k(2) by (metis mult.assoc mult.commute)
  finally have "m * 2 ^ 1074 = f64_units k * d" by simp
  then have "f64_round m d = k" using assms(4) k(1) by (intro f64_round_exact) simp_all
  with k show ?thesis by (simp add: exactly_def is_finite_def)
qed

lemma exactly_of_u64: "unat w < 2 ^ 53 \<Longrightarrow> exactly (f64_of_u64 w) (unat w) 0"
  unfolding f64_of_u64_def by (rule exactly_round) simp_all

lemma exactly_finite: "exactly x n s \<Longrightarrow> is_finite x" "exactly x n s \<Longrightarrow> \<not> is_nan x" "exactly x n s \<Longrightarrow> \<not> f64_neg x"
  by (simp_all add: exactly_def is_finite_def is_nan_def)

lemma exactly_rescale:
  assumes "exactly x n s" "n * 2 ^ t = k * 2 ^ s"
  shows "exactly x k t"
proof -
  let ?u = "f64_units (f64_mag x)"
  have "(?u * 2 ^ t) * 2 ^ s = (?u * 2 ^ s) * 2 ^ t" by (simp only: ac_simps)
  also have "\<dots> = (n * 2 ^ t) * 2 ^ 1074" using assms(1) by (simp only: exactly_def ac_simps)
  also have "\<dots> = (k * 2 ^ 1074) * 2 ^ s" unfolding assms(2) by (simp only: ac_simps)
  finally show ?thesis using assms(1) by (simp add: exactly_def)
qed

lemma exactly_mul:
  assumes "exactly x m s" "exactly y n t" "m * n < 2 ^ 53" "s + t \<le> 1000"
  shows "exactly (f64_mul x y) (m * n) (s + t)"
proof -
  let ?u = "f64_units (f64_mag x)" and ?v = "f64_units (f64_mag y)"
  have "(?u * ?v) * 2 ^ (s + t) = (?u * 2 ^ s) * (?v * 2 ^ t)" by (simp only: power_add ac_simps)
  also have "\<dots> = (m * 2 ^ 1074) * (n * 2 ^ 1074)" using assms(1,2) by (simp only: exactly_def)
  also have "\<dots> = (m * n) * 2 ^ (1074 + 1074)" by (simp only: power_add ac_simps)
  finally have "exactly (f64_pack False (f64_round (?u * ?v) (2 ^ (1074 + 1074)))) (m * n) (s + t)"
    using assms(3,4) by (intro exactly_round) (simp_all only: zero_less_power zero_less_numeral)
  moreover have "f64_mul x y = f64_pack False (f64_round (?u * ?v) (2 ^ (1074 + 1074)))"
    using exactly_finite [OF assms(1)] exactly_finite [OF assms(2)] by (simp add: f64_mul_def)
  ultimately show ?thesis by simp
qed

lemma exactly_add:
  assumes "exactly x m s" "exactly y n s" "m + n < 2 ^ 53" "s \<le> 1000"
  shows "exactly (f64_add x y) (m + n) s"
proof -
  let ?u = "f64_units (f64_mag x)" and ?v = "f64_units (f64_mag y)"
  have sum: "f64_int x + f64_int y = int (?u + ?v)" using exactly_finite [OF assms(1)] exactly_finite [OF assms(2)] by (simp add: f64_int_def)
  have eq: "(?u + ?v) * 2 ^ s = (m + n) * 2 ^ 1074" using assms(1,2) by (simp only: exactly_def distrib_right)
  show ?thesis
  proof (cases "?u + ?v = 0")
    case True
    with sum have "f64_add x y = f64_pack False 0"
      using exactly_finite [OF assms(1)] exactly_finite [OF assms(2)] by (simp add: f64_add_def Let_def)
    moreover have "m + n = 0" using eq True by simp
    ultimately show ?thesis by (simp add: exactly_def is_finite_def f64_units_def F64_INF_def)
  next
    case False
    then have "f64_add x y = f64_pack False (f64_round (?u + ?v) (2 ^ 1074))"
      using sum exactly_finite [OF assms(1)] exactly_finite [OF assms(2)] by (intro f64_add_pos)
    moreover have "exactly (f64_pack False (f64_round (?u + ?v) (2 ^ 1074))) (m + n) s"
      using assms(3,4) eq by (intro exactly_round) (simp_all only: zero_less_power zero_less_numeral)
    ultimately show ?thesis by simp
  qed
qed

text \<open>Division by a power of two.\<close>

lemma exactly_div:
  assumes "exactly x m s" "exactly y (2 ^ t) 0" "m < 2 ^ 53" "s + t \<le> 1000"
  shows "exactly (f64_div x y) m (s + t)"
proof -
  let ?u = "f64_units (f64_mag x)" and ?v = "f64_units (f64_mag y)"
  have v: "?v = 2 ^ t * 2 ^ 1074" using assms(2) by (simp add: exactly_def)
  then have nz: "0 < ?v" by simp
  then have mag: "f64_mag y \<noteq> 0" by (metis f64_units_def less_irrefl zero_less_power zero_less_numeral)
  have "?u * 2 ^ (s + t) = (?u * 2 ^ s) * 2 ^ t" by (simp only: power_add ac_simps)
  also have "\<dots> = m * ?v" using assms(1) v by (simp only: exactly_def ac_simps)
  finally have "exactly (f64_pack False (f64_round ?u ?v)) m (s + t)"
    using assms(3,4) nz by (intro exactly_round)
  moreover have "f64_div x y = f64_pack False (f64_round ?u ?v)"
    using exactly_finite [OF assms(1)] exactly_finite [OF assms(2)] mag by (simp add: f64_div_def)
  ultimately show ?thesis by simp
qed

text \<open>Rounding up to an integer and reading it back.\<close>

lemma exactly_ceil:
  assumes "exactly x n s" "n < 2 ^ 53" "s \<le> 1000"
  shows "exactly (f64_ceil x) ((n + 2 ^ s - 1) div 2 ^ s) 0"
proof -
  let ?u = "f64_units (f64_mag x)"
  have p: "(2 :: nat) ^ 1074 = 2 ^ (1074 - s) * 2 ^ s" using assms(3) by (simp flip: power_add)
  have "?u * 2 ^ s = (n * 2 ^ (1074 - s)) * 2 ^ s" using assms(1) p by (simp only: exactly_def mult.assoc)
  then have u: "?u = n * 2 ^ (1074 - s)" by simp
  have up: "(a + b - 1) div b = (if a mod b = 0 then a div b else Suc (a div b))" if "0 < b" for a b :: nat
  proof (cases "a mod b = 0")
    case True
    then obtain c where "a = c * b" by (metis mod_0_imp_dvd dvdE mult.commute)
    then have "a + b - 1 = (b - 1) + c * b" using that by simp
    with \<open>a = c * b\<close> that show ?thesis by (simp only: div_mult_self1) simp
  next
    case False
    have "(a + b - 1) div b = ((a mod b - 1) + (a div b + 1) * b) div b"
    proof (rule arg_cong2 [where f = "(div)"])
      have "a = a div b * b + a mod b" "0 < a mod b" using False by simp_all
      then show "a + b - 1 = (a mod b - 1) + (a div b + 1) * b" by (simp only: distrib_right)
    qed simp
    also have "\<dots> = a div b + 1" using that mod_less_divisor [OF that, of a] by (subst div_mult_self1) simp_all
    finally show ?thesis using False by simp
  qed
  have "(?u + 2 ^ 1074 - 1) div 2 ^ 1074 = (n + 2 ^ s - 1) div 2 ^ s"
    unfolding up [of "2 ^ 1074" ?u, OF zero_less_power [OF zero_less_numeral]] up [of "2 ^ s" n, OF zero_less_power [OF zero_less_numeral]]
    unfolding u p by (simp add: mult.commute [of n] mult.commute [of _ "2 ^ s"])
  moreover have "(n + 2 ^ s - 1) div 2 ^ s \<le> n"
  proof (cases n)
    case (Suc m)
    obtain b where b: "(2 :: nat) ^ s = Suc b" by (metis gr0_implies_Suc zero_less_power zero_less_numeral)
    have "n + 2 ^ s - 1 \<le> n * 2 ^ s" unfolding b Suc by simp
    then have "(n + 2 ^ s - 1) div 2 ^ s \<le> n * 2 ^ s div 2 ^ s" by (rule div_le_mono)
    then show ?thesis by simp
  qed simp
  ultimately have "exactly (f64_pack False (f64_round ((?u + 2 ^ 1074 - 1) div 2 ^ 1074) 1)) ((n + 2 ^ s - 1) div 2 ^ s) 0"
    using assms(2) by (intro exactly_round) (simp_all only: power_0 mult_1_right le_less_trans zero_less_one zero_le)
  then show ?thesis
    using exactly_finite [OF assms(1)] by (simp only: f64_ceil_def if_False not_False_eq_True simp_thms)
qed

lemma exactly_to_u64:
  assumes "exactly x n s" "n div 2 ^ s < 2 ^ 64" "s \<le> 1000"
  shows "unat (f64_to_u64 x) = n div 2 ^ s"
proof -
  let ?u = "f64_units (f64_mag x)"
  have p: "(2 :: nat) ^ 1074 = 2 ^ (1074 - s) * 2 ^ s" using assms(3) by (simp flip: power_add)
  have "?u * 2 ^ s = (n * 2 ^ (1074 - s)) * 2 ^ s" using assms(1) p by (simp only: exactly_def mult.assoc)
  then have "?u div 2 ^ 1074 = n div 2 ^ s" unfolding p by simp
  with assms(2) exactly_finite [OF assms(1)] show ?thesis
    by (simp add: f64_to_u64_def unat_of_nat take_bit_eq_mod)
qed

lemma exactly_key: "exactly x n s \<Longrightarrow> f64_key x = int (f64_mag x)"
  by (simp add: f64_key_def exactly_finite)

lemma exactly_lt:
  assumes "exactly x m s" "exactly y n s"
  shows "f64_lt x y \<longleftrightarrow> m < n"
proof -
  let ?u = "f64_units (f64_mag x)" and ?v = "f64_units (f64_mag y)"
  have "f64_mag x < f64_mag y \<longleftrightarrow> ?u < ?v" using f64_units_le_iff [of "f64_mag y" "f64_mag x"] by linarith
  also have "\<dots> \<longleftrightarrow> ?u * 2 ^ s < ?v * 2 ^ s" by simp
  also have "\<dots> \<longleftrightarrow> m * 2 ^ 1074 < n * 2 ^ 1074" using assms by (simp only: exactly_def)
  finally show ?thesis
    using exactly_finite [OF assms(1)] exactly_finite [OF assms(2)]
    by (simp add: f64_lt_def exactly_key [OF assms(1)] exactly_key [OF assms(2)])
qed

lemma exactly_max:
  assumes "exactly x m s" "exactly y n s"
  shows "exactly (f64_max x y) (max m n) s"
  using assms exactly_finite(2) [OF assms(1)] exactly_finite(2) [OF assms(2)] exactly_lt [OF assms]
  by (auto simp: f64_max_def max_def)

lemma exactly_0: "exactly 0 0 s"
  by (simp add: exactly_def is_finite_def f64_mag_def f64_neg_def f64_units_def F64_INF_def)

lemma exactly_eq_0: "exactly x n s \<Longrightarrow> f64_eq x 0 \<longleftrightarrow> n = 0"
  using exactly_lt [of 0 0 s x n] exactly_lt [of x n s 0 0] exactly_0 [of s] exactly_finite [of x n s] exactly_key [of x n s] exactly_key [of 0 0 s]
    exactly_finite [of 0 0 s] by (auto simp: f64_eq_def f64_lt_def)

end
