(* ===== verification/Lw_Order.thy ===== *)
theory Lw_Order
  imports Main "HOL-Library.Multiset"
begin

text \<open>
  The standard library's comparisons: \<open>std::cmp::Ordering\<close>, its \<open>then\<close>, \<open>Ord::cmp\<close>, and the stable
  \<open>slice::sort_by\<close>, given as insertion sort. The contract that \<open>sort_by\<close> asks of a comparison is the
  locale \<open>total_comparison\<close>; the components that sort interpret it.
\<close>

datatype order = Less | Equal | Greater

fun order_then :: "order \<Rightarrow> order \<Rightarrow> order" where
  "order_then Equal b = b"
| "order_then Less b = Less"
| "order_then Greater b = Greater"

definition cmp :: "'a::linorder \<Rightarrow> 'a \<Rightarrow> order" where
  "cmp a b = (if a < b then Less else if a = b then Equal else Greater)"

fun insert_by :: "('a \<Rightarrow> 'a \<Rightarrow> order) \<Rightarrow> 'a \<Rightarrow> 'a list \<Rightarrow> 'a list" where
  "insert_by compare x [] = [x]"
| "insert_by compare x (y # ys) =
    (if compare x y = Greater then y # insert_by compare x ys else x # y # ys)"

fun sort_by :: "('a \<Rightarrow> 'a \<Rightarrow> order) \<Rightarrow> 'a list \<Rightarrow> 'a list" where
  "sort_by compare [] = []"
| "sort_by compare (x # xs) = insert_by compare x (sort_by compare xs)"

lemma cmp_simps [simp]:
  "cmp a b = Less \<longleftrightarrow> a < b" "cmp a b = Equal \<longleftrightarrow> a = b" "cmp a b = Greater \<longleftrightarrow> b < a"
  by (auto simp: cmp_def)

lemma order_then_iff:
  "order_then a b = Less \<longleftrightarrow> a = Less \<or> a = Equal \<and> b = Less"
  "order_then a b = Equal \<longleftrightarrow> a = Equal \<and> b = Equal"
  "order_then a b = Greater \<longleftrightarrow> a = Greater \<or> a = Equal \<and> b = Greater"
  by (cases a; simp)+

lemma mset_insert_by [simp]: "mset (insert_by compare x xs) = add_mset x (mset xs)"
  by (induction xs) auto

lemma mset_sort_by [simp]: "mset (sort_by compare xs) = mset xs"
  by (induction xs) auto

lemma set_sort_by [simp]: "set (sort_by compare xs) = set xs"
  by (metis mset_sort_by set_mset_mset)

lemma length_sort_by [simp]: "length (sort_by compare xs) = length xs"
  by (metis mset_sort_by size_mset)

locale total_comparison =
  fixes compare :: "'a \<Rightarrow> 'a \<Rightarrow> order"
  assumes flip: "compare a b = Greater \<longleftrightarrow> compare b a = Less"
    and le_trans: "compare a b \<noteq> Greater \<Longrightarrow> compare b c \<noteq> Greater \<Longrightarrow> compare a c \<noteq> Greater"
begin

lemma le_total: "compare a b \<noteq> Greater \<or> compare b a \<noteq> Greater"
  using flip [of a b] flip [of b a] by auto

lemma refl_le: "compare a a \<noteq> Greater"
  using le_total by blast

lemma sorted_insert_by:
  "sorted_wrt (\<lambda>a b. compare a b \<noteq> Greater) xs \<Longrightarrow>
    sorted_wrt (\<lambda>a b. compare a b \<noteq> Greater) (insert_by compare x xs)"
proof (induction xs)
  case (Cons y ys)
  have members: "set (insert_by compare x ys) = insert x (set ys)"
    by (metis mset_insert_by set_mset_add_mset_insert set_mset_mset)
  show ?case
  proof (cases "compare x y = Greater")
    case True
    then have "compare y x \<noteq> Greater" using le_total by blast
    with True Cons members show ?thesis by auto
  next
    case False
    with Cons.prems show ?thesis by (auto dest: le_trans)
  qed
qed simp

lemma sorted_sort_by: "sorted_wrt (\<lambda>a b. compare a b \<noteq> Greater) (sort_by compare xs)"
  by (induction xs) (auto intro: sorted_insert_by)

lemma sort_by_first:
  assumes "sort_by compare xs = y # ys" "x \<in> set xs"
  shows "compare y x \<noteq> Greater"
proof -
  have "sorted_wrt (\<lambda>a b. compare a b \<noteq> Greater) (y # ys)" using sorted_sort_by [of xs] assms(1) by simp
  moreover have "x \<in> set (y # ys)" using assms set_sort_by [of compare xs] by simp
  ultimately show ?thesis using refl_le by auto
qed

end

end
