(* ===== verification/Gguf_Metadata.thy ===== *)
theory Gguf_Metadata
  imports Gguf_Reader Lw_Float_Int Lw_Order "HOL-Library.List_Lexorder"
begin

text \<open>
  What a parsed header says about a model: the architectures the engine runs (\<open>architecture.rs\<close>), the mix of tensor
  types and the typed metadata (\<open>metadata.rs\<close>) of \<open>lightweight-gguf/src\<close>. Strings of a file are its bytes. A map that
  is iterated in key order is the list of its entries in that order.
\<close>

section \<open>Architectures\<close>

definition SUPPORTED :: "bytes list" where
  "SUPPORTED = map bytes_of
    [''afmoe'', ''apertus'', ''arcee'', ''arctic'', ''arwkv7'', ''baichuan'', ''bailingmoe'', ''bailingmoe2'',
     ''bailingmoe3'', ''bert'', ''bitnet'', ''bloom'', ''chameleon'', ''chatglm'', ''clip'', ''codeshell'',
     ''cogvlm'', ''cohere2'', ''cohere2moe'', ''command-r'', ''dbrx'', ''deci'', ''deepseek'', ''deepseek2'',
     ''deepseek2-ocr'', ''deepseek32'', ''deepseek4'', ''dflash'', ''dots1'', ''dots3note'', ''dream'',
     ''eagle3'', ''ernie4_5'', ''ernie4_5-moe'', ''eurobert'', ''exaone'', ''exaone-moe'', ''exaone4'',
     ''falcon'', ''falcon-h1'', ''gemma'', ''gemma-embedding'', ''gemma2'', ''gemma3'', ''gemma3n'',
     ''gemma4'', ''gemma4-assistant'', ''glm-dsa'', ''glm4'', ''glm4moe'', ''gpt-oss'', ''gpt2'', ''gptj'',
     ''gptneox'', ''granite'', ''granite_swa'', ''granitehybrid'', ''granitemoe'', ''graniteswitch'', ''grok'',
     ''grovemoe'', ''hunyuan-dense'', ''hunyuan-moe'', ''hunyuan_vl'', ''hy_v3'', ''internlm2'', ''jais'',
     ''jais2'', ''jamba'', ''jina-bert-v2'', ''jina-bert-v3'', ''kimi-k3'', ''kimi-linear'', ''laguna'',
     ''lfm2'', ''lfm2moe'', ''llada'', ''llada-moe'', ''llama'', ''llama-embed'', ''llama4'', ''maincoder'',
     ''mamba'', ''mamba2'', ''mellum'', ''mimo2'', ''minicpm'', ''minicpm3'', ''minimax-01'', ''minimax-m2'',
     ''minimax-m3'', ''mistral3'', ''mistral4'', ''modern-bert'', ''mpt'', ''muse-glimmer'', ''nanbeige'',
     ''nemotron'', ''nemotron_h'', ''nemotron_h_moe'', ''neo-bert'', ''nomic-bert'', ''nomic-bert-moe'',
     ''olmo'', ''olmo2'', ''olmoe'', ''openelm'', ''orion'', ''paddleocr'', ''pangu-embedded'', ''phi2'',
     ''phi3'', ''phimoe'', ''plamo'', ''plamo2'', ''plamo3'', ''plm'', ''pockettts'', ''qwen'', ''qwen2'',
     ''qwen2moe'', ''qwen2vl'', ''qwen3'', ''qwen35'', ''qwen35moe'', ''qwen3moe'', ''qwen3next'',
     ''qwen3tts'', ''qwen3vl'', ''qwen3vlmoe'', ''refact'', ''rnd1'', ''rwkv6'', ''rwkv6qwen2'', ''rwkv7'',
     ''seed_oss'', ''smallthinker'', ''smollm3'', ''stablelm'', ''starcoder'', ''starcoder2'', ''step35'',
     ''t5'', ''t5encoder'', ''talkie'', ''wavtokenizer-dec'', ''xverse'']"

text \<open>\<open>slice::binary_search\<close> of the standard library, its loop and the comparison after it.\<close>

function search_loop :: "'a::linorder list \<Rightarrow> 'a \<Rightarrow> nat \<Rightarrow> nat \<Rightarrow> nat" where
  "search_loop xs x base len =
    (if len \<le> 1 then base
     else let half = len div 2; mid = base + half
          in search_loop xs x (if cmp (xs ! mid) x = Greater then base else mid) (len - half))"
  by pat_completeness auto
termination by (relation "measure (\<lambda>(_, _, _, len). len)") auto

declare search_loop.simps [simp del]

definition binary_search :: "'a::linorder list \<Rightarrow> 'a \<Rightarrow> nat option" where
  "binary_search xs x =
    (if xs = [] then None
     else let base = search_loop xs x 0 (length xs) in if xs ! base = x then Some base else None)"

definition is_supported :: "bytes \<Rightarrow> bool" where
  "is_supported architecture \<longleftrightarrow> binary_search SUPPORTED architecture \<noteq> None"

definition u8_lower :: "u8 \<Rightarrow> u8" where
  "u8_lower b = (if 65 \<le> b \<and> b \<le> 90 then b + 32 else b)"

definition shared_prefix :: "bytes \<Rightarrow> bytes \<Rightarrow> nat" where
  "shared_prefix a b = length (takeWhile (\<lambda>(x, y). x = y) (zip a b))"

definition nearest :: "bytes \<Rightarrow> nat \<Rightarrow> bytes list" where
  "nearest architecture limit =
    (let needle = map u8_lower architecture;
         scored = List.map_filter (\<lambda>candidate.
           let shared = shared_prefix candidate needle
           in if shared \<ge> 3 then Some (shared, candidate) else None) SUPPORTED
     in map snd (take limit (sort_by (\<lambda>a b. order_then (cmp (fst b) (fst a)) (cmp (snd a) (snd b))) scored)))"

section \<open>The mix of tensor types\<close>

text \<open>The derived order of \<open>GgmlType\<close>: the variants as declared, the unknown ones last by their id.\<close>

definition ggml_rank :: "ggml_type \<Rightarrow> nat \<times> nat" where
  "ggml_rank t = (case index_where ((=) t) ggml_all of
     Some i \<Rightarrow> (i, 0)
   | None \<Rightarrow> (length ggml_all, unat (ggml_id t)))"

lemma ggml_rank_inj: "ggml_rank a = ggml_rank b \<Longrightarrow> a = b"
proof -
  assume eq: "ggml_rank a = ggml_rank b"
  have known: "index_where ((=) t) ggml_all \<noteq> None \<longleftrightarrow> is_known t" for t
    by (auto simp: index_where_None is_known_iff_all)
  show "a = b"
  proof (cases "is_known a")
    case True
    then obtain i where i: "index_where ((=) a) ggml_all = Some i" using known by blast
    then have "i < length ggml_all" "ggml_all ! i = a" using index_where_Some by fastforce+
    moreover from this eq i have "index_where ((=) b) ggml_all = Some i"
      by (auto simp: ggml_rank_def split: option.splits)
    ultimately show ?thesis using index_where_Some by fastforce
  next
    case False
    then have "index_where ((=) a) ggml_all = None" using known by blast
    moreover have "index_where ((=) b) ggml_all = None"
    proof (rule ccontr)
      assume "index_where ((=) b) ggml_all \<noteq> None"
      then obtain i where "index_where ((=) b) ggml_all = Some i" by blast
      with eq calculation show False using index_where_Some by (fastforce simp: ggml_rank_def)
    qed
    ultimately have "\<not> is_known b" "ggml_id a = ggml_id b"
      using eq known [of b] by (simp_all add: ggml_rank_def word_unat_eq_iff)
    with False show ?thesis by (auto elim!: is_known.elims(3))
  qed
qed

instantiation ggml_type :: linorder
begin

definition less_ggml_type :: "ggml_type \<Rightarrow> ggml_type \<Rightarrow> bool" where
  "less_ggml_type a b \<longleftrightarrow> fst (ggml_rank a) < fst (ggml_rank b)
    \<or> fst (ggml_rank a) = fst (ggml_rank b) \<and> snd (ggml_rank a) < snd (ggml_rank b)"

definition less_eq_ggml_type :: "ggml_type \<Rightarrow> ggml_type \<Rightarrow> bool" where
  "less_eq_ggml_type a b \<longleftrightarrow> a < b \<or> a = b"

instance
  by standard
    (auto simp: less_ggml_type_def less_eq_ggml_type_def, (metis ggml_rank_inj linorder_neqE_nat prod.expand)+)

end

record quant_stat =
  qs_tensors :: u64
  qs_elements :: u64
  qs_bytes :: "u64 option"

record quant_mix =
  qm_dominant :: "ggml_type option"
  qm_by_type :: "(ggml_type \<times> quant_stat) list"

text \<open>\<open>BTreeMap::entry\<close> with \<open>or_insert\<close>, and the update of the entry.\<close>

fun btree_entry :: "ggml_type \<Rightarrow> 'v \<Rightarrow> ('v \<Rightarrow> 'v) \<Rightarrow> (ggml_type \<times> 'v) list \<Rightarrow> (ggml_type \<times> 'v) list" where
  "btree_entry k d f [] = [(k, f d)]"
| "btree_entry k d f ((k', v) # es) =
    (if k = k' then (k', f v) # es
     else if k < k' then (k, f d) # (k', v) # es
     else (k', v) # btree_entry k d f es)"

definition add_tensor :: "tensor_info \<Rightarrow> quant_stat \<Rightarrow> quant_stat" where
  "add_tensor t st =
    \<lparr>qs_tensors = sat_add (qs_tensors st) 1,
     qs_elements = sat_add (qs_elements st) (case elements t of Some n \<Rightarrow> n | None \<Rightarrow> 0),
     qs_bytes = (case (qs_bytes st, byte_size t) of
                   (Some running, Some sz) \<Rightarrow> Some (sat_add running sz)
                 | _ \<Rightarrow> None)\<rparr>"

definition no_tensors :: quant_stat where
  "no_tensors = \<lparr>qs_tensors = 0, qs_elements = 0, qs_bytes = Some 0\<rparr>"

definition count_tensors :: "tensor_info list \<Rightarrow> (ggml_type \<times> quant_stat) list" where
  "count_tensors tensors =
    fold (\<lambda>t. btree_entry (ti_ggml_type t) no_tensors (add_tensor t)) tensors []"

text \<open>\<open>Iterator::max_by_key\<close>: of several greatest entries, the last.\<close>

definition max_by_elements :: "(ggml_type \<times> quant_stat) list \<Rightarrow> (ggml_type \<times> quant_stat) option" where
  "max_by_elements es = foldl (\<lambda>best e. case best of
      None \<Rightarrow> Some e
    | Some b \<Rightarrow> if qs_elements (snd b) \<le> qs_elements (snd e) then Some e else Some b) None es"

definition quant_mix_from_file :: "gguf_file \<Rightarrow> quant_mix" where
  "quant_mix_from_file f =
    (let by_type = count_tensors (gf_tensors f)
     in \<lparr>qm_dominant = map_option fst (max_by_elements by_type), qm_by_type = by_type\<rparr>)"

section \<open>Typed metadata\<close>

fun as_f64 :: "gguf_value \<Rightarrow> f64 option" where
  "as_f64 (F32V v) = Some (f64_of_f32 v)"
| "as_f64 (F64V v) = Some v"
| "as_f64 _ = None"

definition get_u32 :: "gguf_file \<Rightarrow> bytes \<Rightarrow> u32 option" where
  "get_u32 f key = Option.bind (gf_metadata f key) as_u32"

definition get_f64 :: "gguf_file \<Rightarrow> bytes \<Rightarrow> f64 option" where
  "get_f64 f key = Option.bind (gf_metadata f key) as_f64"

definition get_bool :: "gguf_file \<Rightarrow> bytes \<Rightarrow> bool option" where
  "get_bool f key = Option.bind (gf_metadata f key) as_bool"

definition get_str :: "gguf_file \<Rightarrow> bytes \<Rightarrow> bytes option" where
  "get_str f key = Option.bind (gf_metadata f key) as_str"

record tokenizer_meta =
  tk_model :: "bytes option"
  tk_pre :: "bytes option"
  tk_bos_token_id :: "u32 option"
  tk_eos_token_id :: "u32 option"
  tk_eot_token_id :: "u32 option"
  tk_padding_token_id :: "u32 option"
  tk_add_bos_token :: "bool option"
  tk_add_eos_token :: "bool option"
  tk_token_count :: "u64 option"
  tk_has_chat_template :: bool
  tk_chat_template_len :: "u64 option"

record model_metadata =
  md_architecture :: bytes
  md_supported :: bool
  md_name :: "bytes option"
  md_context_length :: "u64 option"
  md_block_count :: "u64 option"
  md_embedding_length :: "u64 option"
  md_feed_forward_length :: "u64 option"
  md_head_count :: "u64 option"
  md_head_count_kv :: "u64 list option"
  md_key_length :: "u64 option"
  md_value_length :: "u64 option"
  md_sliding_window :: "u64 option"
  md_rope_freq_base :: "f64 option"
  md_vocab_size :: "u64 option"
  md_tokenizer :: tokenizer_meta
  md_file_type :: "u32 option"
  md_quantization :: quant_mix
  md_tensor_count :: u64
  md_param_count :: "u64 option"
  md_weight_bytes :: "u64 option"
  md_gguf_version :: u32
  md_alignment :: u64
  md_missing :: "bytes list"

definition arch_key :: "bytes \<Rightarrow> string \<Rightarrow> bytes" where
  "arch_key architecture group_name = architecture @ bytes_of ''.'' @ bytes_of group_name"

definition want_u64 :: "gguf_file \<Rightarrow> bytes \<Rightarrow> bytes list \<Rightarrow> u64 option \<times> bytes list" where
  "want_u64 f k missing = (let v = get_u64 f k in (v, if v = None then missing @ [k] else missing))"

definition or_else :: "'a option \<Rightarrow> 'a option \<Rightarrow> 'a option" where
  "or_else a b = (case a of Some x \<Rightarrow> Some x | None \<Rightarrow> b)"

definition tokenizer_from_file :: "gguf_file \<Rightarrow> u64 option \<Rightarrow> tokenizer_meta" where
  "tokenizer_from_file f token_count =
    (let chat_template = get_str f (bytes_of ''tokenizer.chat_template'')
     in \<lparr>tk_model = get_str f (bytes_of ''tokenizer.ggml.model''),
         tk_pre = get_str f (bytes_of ''tokenizer.ggml.pre''),
         tk_bos_token_id = get_u32 f (bytes_of ''tokenizer.ggml.bos_token_id''),
         tk_eos_token_id = get_u32 f (bytes_of ''tokenizer.ggml.eos_token_id''),
         tk_eot_token_id = get_u32 f (bytes_of ''tokenizer.ggml.eot_token_id''),
         tk_padding_token_id = get_u32 f (bytes_of ''tokenizer.ggml.padding_token_id''),
         tk_add_bos_token = get_bool f (bytes_of ''tokenizer.ggml.add_bos_token''),
         tk_add_eos_token = get_bool f (bytes_of ''tokenizer.ggml.add_eos_token''),
         tk_token_count = token_count,
         tk_has_chat_template = chat_template \<noteq> None,
         tk_chat_template_len = map_option (\<lambda>t. word_of_nat (length t)) chat_template\<rparr>)"

text \<open>The contents are those of the file the header was parsed from: the per-layer array is read again.\<close>

definition metadata_from_file :: "bytes option \<Rightarrow> gguf_file \<Rightarrow> gguf_error + model_metadata" where
  "metadata_from_file contents f =
    (let architecture = (case get_str f (bytes_of ''general.architecture'') of Some a \<Rightarrow> a | None \<Rightarrow> []);
         key = arch_key architecture;
         (context_length, missing) = want_u64 f (key ''context_length'') [];
         (block_count, missing) = want_u64 f (key ''block_count'') missing;
         (embedding_length, missing) = want_u64 f (key ''embedding_length'') missing;
         (feed_forward_length, missing) = want_u64 f (key ''feed_forward_length'') missing;
         (head_count, missing) = want_u64 f (key ''attention.head_count'') missing;
         kv_key = key ''attention.head_count_kv''
     in and_then (read_u64_array contents f kv_key) (\<lambda>head_count_kv.
          let missing = (if head_count_kv = None then missing @ [kv_key] else missing);
              token_count = map_option as_len (get_array f (bytes_of ''tokenizer.ggml.tokens''))
          in Inr \<lparr>md_architecture = architecture,
               md_supported = is_supported architecture,
               md_name = get_str f (bytes_of ''general.name''),
               md_context_length = context_length,
               md_block_count = block_count,
               md_embedding_length = embedding_length,
               md_feed_forward_length = feed_forward_length,
               md_head_count = head_count,
               md_head_count_kv = head_count_kv,
               md_key_length = get_u64 f (key ''attention.key_length''),
               md_value_length = get_u64 f (key ''attention.value_length''),
               md_sliding_window = get_u64 f (key ''attention.sliding_window''),
               md_rope_freq_base = get_f64 f (key ''rope.freq_base''),
               md_vocab_size = or_else token_count (get_u64 f (key ''vocab_size'')),
               md_tokenizer = tokenizer_from_file f token_count,
               md_file_type = get_u32 f (bytes_of ''general.file_type''),
               md_quantization = quant_mix_from_file f,
               md_tensor_count = word_of_nat (length (gf_tensors f)),
               md_param_count = parameter_count f,
               md_weight_bytes = weight_bytes f,
               md_gguf_version = gf_version f,
               md_alignment = gf_alignment f,
               md_missing = missing\<rparr>))"

definition head_dim_k :: "model_metadata \<Rightarrow> u64 option" where
  "head_dim_k m = or_else (md_key_length m)
    (Option.bind (md_embedding_length m) (\<lambda>e. Option.bind (md_head_count m) (checked_div e)))"

definition head_dim_v :: "model_metadata \<Rightarrow> u64 option" where
  "head_dim_v m = or_else (md_value_length m) (head_dim_k m)"

definition kv_heads_for_layer :: "model_metadata \<Rightarrow> u64 \<Rightarrow> u64 option" where
  "kv_heads_for_layer m layer = Option.bind (md_head_count_kv m) (\<lambda>heads.
    if length heads = 0 then None
    else if length heads = 1 then Some (heads ! 0)
    else if unat layer < length heads then Some (heads ! unat layer) else None)"

definition has_per_layer_kv_heads :: "model_metadata \<Rightarrow> bool" where
  "has_per_layer_kv_heads m = is_some_and (md_head_count_kv m) (\<lambda>heads. length heads > 1)"

definition gqa_ratio :: "model_metadata \<Rightarrow> u64 option" where
  "gqa_ratio m = Option.bind (md_head_count m) (\<lambda>head_count.
    if head_count = 0 then None
    else Option.bind (md_head_count_kv m) (\<lambda>heads.
      Option.bind (find (\<lambda>n. n > 0) heads) (checked_div head_count)))"

definition is_complete_for_estimation :: "model_metadata \<Rightarrow> bool" where
  "is_complete_for_estimation m \<longleftrightarrow> md_block_count m \<noteq> None \<and> head_dim_k m \<noteq> None \<and> head_dim_v m \<noteq> None
    \<and> md_head_count_kv m \<noteq> None \<and> md_weight_bytes m \<noteq> None"

definition ftype_name :: "u32 \<Rightarrow> string option" where
  "ftype_name i =
    (if i = 0 then Some ''F32'' else
     if i = 1 then Some ''F16'' else
     if i = 2 then Some ''Q4_0'' else
     if i = 3 then Some ''Q4_1'' else
     if i = 7 then Some ''Q8_0'' else
     if i = 8 then Some ''Q5_0'' else
     if i = 9 then Some ''Q5_1'' else
     if i = 10 then Some ''Q2_K'' else
     if i = 11 then Some ''Q3_K_S'' else
     if i = 12 then Some ''Q3_K_M'' else
     if i = 13 then Some ''Q3_K_L'' else
     if i = 14 then Some ''Q4_K_S'' else
     if i = 15 then Some ''Q4_K_M'' else
     if i = 16 then Some ''Q5_K_S'' else
     if i = 17 then Some ''Q5_K_M'' else
     if i = 18 then Some ''Q6_K'' else
     if i = 19 then Some ''IQ2_XXS'' else
     if i = 20 then Some ''IQ2_XS'' else
     if i = 21 then Some ''Q2_K_S'' else
     if i = 22 then Some ''IQ3_XS'' else
     if i = 23 then Some ''IQ3_XXS'' else
     if i = 24 then Some ''IQ1_S'' else
     if i = 25 then Some ''IQ4_NL'' else
     if i = 26 then Some ''IQ3_S'' else
     if i = 27 then Some ''IQ3_M'' else
     if i = 28 then Some ''IQ2_S'' else
     if i = 29 then Some ''IQ2_M'' else
     if i = 30 then Some ''IQ4_XS'' else
     if i = 31 then Some ''IQ1_M'' else
     if i = 32 then Some ''BF16'' else
     if i = 36 then Some ''TQ1_0'' else
     if i = 37 then Some ''TQ2_0'' else
     if i = 38 then Some ''MXFP4_MOE'' else
     if i = 39 then Some ''NVFP4'' else
     if i = 40 then Some ''Q1_0'' else
     if i = 41 then Some ''Q2_0'' else
     if i = 1024 then Some ''GUESSED'' else
     None)"

definition ascii_upper :: "char \<Rightarrow> char" where
  "ascii_upper c =
    (if 97 \<le> (of_char c :: nat) \<and> (of_char c :: nat) \<le> 122
     then char_of ((of_char c :: nat) - 32) else c)"

definition quantization_label :: "model_metadata \<Rightarrow> string" where
  "quantization_label m =
    (case or_else (Option.bind (md_file_type m) ftype_name)
       (map_option (\<lambda>t. map ascii_upper (ggml_name t)) (qm_dominant (md_quantization m))) of
       Some label \<Rightarrow> label
     | None \<Rightarrow> ''unknown'')"

section \<open>Lookup of an architecture\<close>

lemma search_loop_finds:
  assumes "sorted xs" "0 < len" "base + len \<le> length xs"
  shows "search_loop xs x base len < length xs
    \<and> (x \<in> set (take len (drop base xs)) \<longrightarrow> xs ! search_loop xs x base len = x)"
  using assms
proof (induction xs x base len rule: search_loop.induct)
  case (1 xs x base len)
  show ?case
  proof (cases "len \<le> 1")
    case True
    then have "len = 1" using "1.prems" by simp
    moreover have "search_loop xs x base len = base" using True by (subst search_loop.simps) simp
    ultimately show ?thesis using "1.prems" by (auto simp: take_Suc_conv_app_nth)
  next
    case False
    define half where "half = len div 2"
    define base' where "base' = (if cmp (xs ! (base + half)) x = Greater then base else base + half)"
    have half: "0 < half" "half < len" using False by (auto simp: half_def)
    have step: "search_loop xs x base len = search_loop xs x base' (len - half)"
      using False by (subst search_loop.simps) (simp add: half_def base'_def Let_def)
    have IH: "search_loop xs x base' (len - half) < length xs
        \<and> (x \<in> set (take (len - half) (drop base' xs)) \<longrightarrow> xs ! search_loop xs x base' (len - half) = x)"
      unfolding base'_def half_def using False "1.prems" by (intro "1.IH") auto
    have "x \<in> set (take (len - half) (drop base' xs))" if member: "x \<in> set (take len (drop base xs))"
    proof -
      obtain i where i: "i < len" "x = xs ! (base + i)" using member "1.prems" by (auto simp: in_set_conv_nth)
      show ?thesis
      proof (cases "cmp (xs ! (base + half)) x = Greater")
        case True
        have "i < half"
        proof (rule ccontr)
          assume "\<not> i < half"
          then have "xs ! (base + half) \<le> xs ! (base + i)" using "1.prems" i(1) by (intro sorted_nth_mono) auto
          with True i(2) show False by simp
        qed
        moreover have "half \<le> len - half" by (auto simp: half_def)
        ultimately have "i < length (take (len - half) (drop base xs))" "take (len - half) (drop base xs) ! i = x"
          using i "1.prems" by auto
        with True show ?thesis unfolding base'_def by (metis nth_mem)
      next
        case le: False
        obtain j where j: "half \<le> j" "j < len" "x = xs ! (base + j)"
        proof (cases "i < half")
          case True
          then have "xs ! (base + i) \<le> xs ! (base + half)" using "1.prems" half by (intro sorted_nth_mono) auto
          with le i(2) have "x = xs ! (base + half)" by simp
          with half that show thesis by blast
        next
          case False
          with i that [of i] show thesis by simp
        qed
        then have "j - half < length (take (len - half) (drop (base + half) xs))"
          "take (len - half) (drop (base + half) xs) ! (j - half) = x"
          using "1.prems" by (auto simp: add.assoc)
        with le show ?thesis unfolding base'_def by (metis nth_mem)
      qed
    qed
    with IH step show ?thesis by simp
  qed
qed

lemma binary_search_finds:
  assumes "sorted xs"
  shows "binary_search xs x \<noteq> None \<longleftrightarrow> x \<in> set xs"
proof (cases "xs = []")
  case False
  then have "search_loop xs x 0 (length xs) < length xs
    \<and> (x \<in> set xs \<longrightarrow> xs ! search_loop xs x 0 (length xs) = x)"
    using search_loop_finds [OF assms, of "length xs" 0 x] by simp
  with False show ?thesis by (auto simp: binary_search_def Let_def dest: nth_mem)
qed (simp add: binary_search_def)

text \<open>The order of two names bit by bit, so that a long table is checked by rewriting.\<close>

fun char_less :: "char \<Rightarrow> char \<Rightarrow> bool" where
  "char_less (Char b0 b1 b2 b3 b4 b5 b6 b7) (Char c0 c1 c2 c3 c4 c5 c6 c7) =
    (if b7 \<noteq> c7 then c7 else if b6 \<noteq> c6 then c6 else if b5 \<noteq> c5 then c5 else if b4 \<noteq> c4 then c4 else
     if b3 \<noteq> c3 then c3 else if b2 \<noteq> c2 then c2 else if b1 \<noteq> c1 then c1 else if b0 \<noteq> c0 then c0 else False)"

fun string_le :: "string \<Rightarrow> string \<Rightarrow> bool" where
  "string_le [] t = True"
| "string_le (c # s) [] = False"
| "string_le (c # s) (d # t) = (char_less c d \<or> c = d \<and> string_le s t)"

lemma double_less: "of_bool b + 2 * x < of_bool c + 2 * y \<longleftrightarrow> x < y \<or> x = y \<and> \<not> b \<and> c" for x y :: nat
  by (cases b; cases c) auto

lemma double_eq: "of_bool b + 2 * x = of_bool c + 2 * y \<longleftrightarrow> x = y \<and> b = c" for x y :: nat
  by (cases b; cases c) (auto, presburger+)

lemma char_less_nat: "char_less c d \<longleftrightarrow> (of_char c :: nat) < of_char d"
  by (cases c; cases d)
    (simp only: of_char_Char horner_sum_simps char_less.simps double_less double_eq mult_zero_right add_0_right
      of_bool_less_iff; auto)

lemma unat_of_char: "unat (of_char c :: u8) = of_char c"
proof -
  have "(of_char c :: u8) = word_of_nat (of_char c)" by (simp add: of_nat_of_char)
  then show ?thesis using nat_of_char_less_256 [of c] by (simp add: unat_of_nat take_bit_eq_mod)
qed

lemma string_le_bytes: "string_le s t \<Longrightarrow> bytes_of s \<le> bytes_of t"
  by (induction s t rule: string_le.induct)
    (auto simp: bytes_of_def char_less_nat word_less_nat_alt unat_of_char)

lemma sorted_bytes:
  assumes "successively string_le names"
  shows "sorted (map bytes_of names)"
proof -
  have "successively (\<lambda>a b. bytes_of a \<le> bytes_of b) names"
    using assms string_le_bytes by (rule successively_mono)
  then show ?thesis
    unfolding sorted_map by (simp add: successively_iff_sorted_wrt_strong)
qed

lemma SUPPORTED_sorted: "sorted SUPPORTED"
  unfolding SUPPORTED_def by (rule sorted_bytes) simp

text \<open>C31. The engine's support for an architecture is membership in the table: the binary search over it finds
  exactly the names it lists, because the table is in byte order.\<close>

theorem supported_iff_listed: "is_supported architecture \<longleftrightarrow> architecture \<in> set SUPPORTED"
  unfolding is_supported_def using SUPPORTED_sorted by (rule binary_search_finds)

section \<open>What the mix accounts for\<close>

lemma sum_checked_SomeD:
  "sum_checked g acc xs = Some w \<Longrightarrow>
    (\<forall>x \<in> set xs. g x \<noteq> None) \<and> unat w = unat acc + (\<Sum>x \<leftarrow> xs. unat (the (g x)))"
  by (induction xs arbitrary: acc) (auto simp: checked_add_Some unat_add_small split: option.splits)

lemma sum_list_filter_le: "(\<Sum>x \<leftarrow> filter P xs. g x) \<le> (\<Sum>x \<leftarrow> xs. g x :: nat)"
  by (induction xs) auto

lemma btree_entry_keys: "fst ` set (btree_entry k d f es) = insert k (fst ` set es)"
  by (induction k d f es rule: btree_entry.induct) auto

lemma btree_entry_sorted:
  "sorted_wrt (<) (map fst es) \<Longrightarrow> sorted_wrt (<) (map fst (btree_entry k d f es))"
proof (induction k d f es rule: btree_entry.induct)
  case (2 k d f k' v es)
  then have "\<forall>x \<in> fst ` set (btree_entry k d f es). k' < x" if "k' < k"
    using that by (auto simp: btree_entry_keys)
  with 2 show ?case by (auto simp: not_less dest: order.strict_trans le_neq_trans)
qed simp

definition mix_bytes :: "(ggml_type \<times> quant_stat) list \<Rightarrow> nat" where
  "mix_bytes es = (\<Sum>(k, st) \<leftarrow> es. unat (the (qs_bytes st)))"

text \<open>The mix can be sized, and adding one more tensor adds its bytes to one entry.\<close>

definition mix_sized :: "(ggml_type \<times> quant_stat) list \<Rightarrow> bool" where
  "mix_sized es \<longleftrightarrow> list_all (\<lambda>(k, st). qs_bytes st \<noteq> None) es"

lemma btree_entry_bytes:
  assumes "mix_sized es" "byte_size t = Some sz" "mix_bytes es + unat sz < 2 ^ 64"
  shows "mix_sized (btree_entry k no_tensors (add_tensor t) es)
    \<and> mix_bytes (btree_entry k no_tensors (add_tensor t) es) = mix_bytes es + unat sz"
  using assms
proof (induction k no_tensors "add_tensor t" es rule: btree_entry.induct)
  case (2 k k' v es)
  have "unat (the (qs_bytes v)) + unat sz < 2 ^ 64" "mix_bytes es + unat sz < 2 ^ 64"
    using "2.prems"(3) by (auto simp: mix_bytes_def)
  with 2 show ?case
    by (auto simp: mix_sized_def mix_bytes_def add_tensor_def no_tensors_def unat_sat_add)
qed (auto simp: mix_sized_def mix_bytes_def add_tensor_def no_tensors_def unat_sat_add)

lemma count_tensors_snoc:
  "count_tensors (ts @ [t]) = btree_entry (ti_ggml_type t) no_tensors (add_tensor t) (count_tensors ts)"
  by (simp add: count_tensors_def)

lemma count_tensors_keys:
  "sorted_wrt (<) (map fst (count_tensors ts)) \<and> fst ` set (count_tensors ts) = ti_ggml_type ` set ts"
proof (induction ts rule: rev_induct)
  case (snoc t ts)
  then show ?case by (simp add: count_tensors_snoc btree_entry_sorted btree_entry_keys)
qed (simp add: count_tensors_def)

lemma count_tensors_bytes:
  assumes "\<forall>t \<in> set ts. byte_size t \<noteq> None" "(\<Sum>t \<leftarrow> ts. unat (the (byte_size t))) < 2 ^ 64"
  shows "mix_sized (count_tensors ts) \<and> mix_bytes (count_tensors ts) = (\<Sum>t \<leftarrow> ts. unat (the (byte_size t)))"
  using assms
proof (induction ts rule: rev_induct)
  case (snoc t ts)
  then obtain sz where "byte_size t = Some sz" by auto
  with snoc btree_entry_bytes [of "count_tensors ts" t sz "ti_ggml_type t"] show ?case
    by (simp add: count_tensors_snoc)
qed (simp add: count_tensors_def mix_sized_def mix_bytes_def)

lemma max_by_elements_greatest:
  "(max_by_elements es = None \<longleftrightarrow> es = [])
    \<and> (\<forall>b. max_by_elements es = Some b \<longrightarrow> b \<in> set es \<and> (\<forall>e \<in> set es. qs_elements (snd e) \<le> qs_elements (snd b)))"
proof (induction es rule: rev_induct)
  case (snoc e es)
  have "max_by_elements (es @ [e]) = (case max_by_elements es of
      None \<Rightarrow> Some e
    | Some b \<Rightarrow> if qs_elements (snd b) \<le> qs_elements (snd e) then Some e else Some b)"
    by (simp add: max_by_elements_def)
  with snoc show ?case
    by (cases "max_by_elements es") (auto simp: not_le intro: order_trans less_imp_le)
qed (simp add: max_by_elements_def)

text \<open>The mix of tensor types of a model whose weights can be sized: one entry for each type that occurs, in the
  order of the types, every entry with its bytes, the bytes of the entries adding up to the size of the
  weights with nothing lost to saturation, and the dominant type one of those with the most elements.\<close>

theorem quantization_accounts:
  assumes "weight_bytes f = Some w"
  shows "let mix = quant_mix_from_file f; es = qm_by_type mix in
    sorted_wrt (<) (map fst es) \<and> fst ` set es = ti_ggml_type ` set (gf_tensors f) \<and>
    list_all (\<lambda>(k, st). qs_bytes st \<noteq> None) es \<and>
    (\<Sum>(k, st) \<leftarrow> es. unat (the (qs_bytes st))) = unat w \<and>
    (case qm_dominant mix of
       None \<Rightarrow> gf_tensors f = []
     | Some k \<Rightarrow> \<exists>st. (k, st) \<in> set es \<and> list_all (\<lambda>(k', st'). qs_elements st' \<le> qs_elements st) es)"
proof -
  let ?es = "count_tensors (gf_tensors f)"
  from sum_checked_SomeD [OF assms [unfolded weight_bytes_def]]
  have all: "\<forall>t \<in> set (gf_tensors f). byte_size t \<noteq> None"
    and sum: "unat w = (\<Sum>t \<leftarrow> gf_tensors f. unat (the (byte_size t)))" by simp_all
  have "mix_sized ?es \<and> mix_bytes ?es = unat w"
    using count_tensors_bytes [OF all] sum unat_lt_two_power [of w] by simp
  moreover have "?es = [] \<Longrightarrow> gf_tensors f = []" using count_tensors_keys [of "gf_tensors f"] by auto
  ultimately show ?thesis
    using count_tensors_keys [of "gf_tensors f"] max_by_elements_greatest [of ?es]
    by (cases "max_by_elements ?es")
      (fastforce simp: quant_mix_from_file_def Let_def mix_sized_def mix_bytes_def list_all_iff)+
qed

section \<open>Absent keys\<close>

fun absent :: "(bytes \<times> bool) list \<Rightarrow> bytes list" where
  "absent [] = []"
| "absent ((k, gone) # rest) = (if gone then [k] else []) @ absent rest"

text \<open>The six keys the reader reports when it does not find them, in the order it looks for them.\<close>

definition wanted :: "model_metadata \<Rightarrow> (bytes \<times> bool) list" where
  "wanted m = (let key = arch_key (md_architecture m) in
    [(key ''context_length'', md_context_length m = None), (key ''block_count'', md_block_count m = None),
     (key ''embedding_length'', md_embedding_length m = None),
     (key ''feed_forward_length'', md_feed_forward_length m = None),
     (key ''attention.head_count'', md_head_count m = None),
     (key ''attention.head_count_kv'', md_head_count_kv m = None)])"

lemma want_u64_eq: "want_u64 f k missing = (get_u64 f k, missing @ (if get_u64 f k = None then [k] else []))"
  by (simp add: want_u64_def Let_def)

lemma push_if: "(if b then xs @ [x] else xs) = xs @ (if b then [x] else [])"
  by simp

lemma metadata_fields:
  assumes "metadata_from_file contents f = Inr m"
  shows "md_missing m = absent (wanted m)"
    and "md_block_count m = get_u64 f (arch_key (md_architecture m) ''block_count'')"
    and "md_embedding_length m = get_u64 f (arch_key (md_architecture m) ''embedding_length'')"
    and "md_head_count m = get_u64 f (arch_key (md_architecture m) ''attention.head_count'')"
    and "read_u64_array contents f (arch_key (md_architecture m) ''attention.head_count_kv'') = Inr (md_head_count_kv m)"
    and "md_weight_bytes m = weight_bytes f"
  using assms
  unfolding metadata_from_file_def Let_def want_u64_eq prod.case push_if and_then_Inr_iff sum.inject wanted_def absent.simps
  by (elim exE conjE, hypsubst,
      simp only: model_metadata.select_convs append_Nil append_Nil2 append_assoc simp_thms)+

text \<open>A fact the header does not state is absent and reported, never replaced by a default: the reported keys
  are exactly the wanted ones without a value, a value is what the header has under the key of its own
  architecture, and reading the metadata fails only if the per-layer array cannot be read again.\<close>

theorem missing_keys_reported:
  assumes "metadata_from_file contents f = Inr m"
  shows "md_missing m = absent (wanted m) \<and>
    md_block_count m = get_u64 f (arch_key (md_architecture m) ''block_count'') \<and>
    md_embedding_length m = get_u64 f (arch_key (md_architecture m) ''embedding_length'') \<and>
    md_head_count m = get_u64 f (arch_key (md_architecture m) ''attention.head_count'') \<and>
    read_u64_array contents f (arch_key (md_architecture m) ''attention.head_count_kv'') = Inr (md_head_count_kv m) \<and>
    md_weight_bytes m = weight_bytes f"
  using metadata_fields [OF assms] by simp

section \<open>A small file\<close>

definition two_tensors :: gguf_file where
  "two_tensors =
    \<lparr>gf_version = 3, gf_alignment = 32,
     gf_metadata = Map.empty,
     gf_tensors =
       [\<lparr>ti_name = bytes_of ''a'', ti_dims = [64], ti_n_dims = 1, ti_ggml_type = F32, ti_offset = 0\<rparr>,
        \<lparr>ti_name = bytes_of ''b'', ti_dims = [256], ti_n_dims = 1, ti_ggml_type = Q4_K, ti_offset = 256\<rparr>],
     gf_data_offset = 0, gf_file_size = 1024\<rparr>"

theorem quantization_accounts_witness:
  "(\<Sum>(k, st) \<leftarrow> qm_by_type (quant_mix_from_file two_tensors). unat (the (qs_bytes st))) = 400 \<and>
   fst ` set (qm_by_type (quant_mix_from_file two_tensors)) = {F32, Q4_K}"
proof -
  have "weight_bytes two_tensors = Some 400"
    by (simp add: two_tensors_def weight_bytes_def byte_size_def elements_def checked_mul_def checked_add_def
        bytes_for_elements_def div_ceil_def)
  from quantization_accounts [OF this] show ?thesis by (simp add: Let_def) (simp add: two_tensors_def)
qed

lemma two_tensors_read: "\<exists>m. metadata_from_file None two_tensors = Inr m"
proof -
  have "get_array two_tensors k = None" "get_u64 two_tensors k = None" for k
    by (simp_all add: two_tensors_def get_u64_def get_array_def)
  then have "read_u64_array None two_tensors k = Inr None" for k by (simp add: read_u64_array_def)
  then show ?thesis by (simp add: metadata_from_file_def Let_def case_prod_beta)
qed

theorem missing_keys_reported_witness:
  "\<exists>m. metadata_from_file None two_tensors = Inr m \<and> md_missing m = absent (wanted m) \<and> md_block_count m = None"
proof -
  obtain m where m: "metadata_from_file None two_tensors = Inr m" using two_tensors_read by blast
  moreover have "get_u64 two_tensors k = None" for k by (simp add: two_tensors_def get_u64_def)
  ultimately show ?thesis using missing_keys_reported [OF m] by auto
qed

text \<open>The metadata of a small model.\<close>

definition tiny_header :: model_metadata where
  "tiny_header =
    \<lparr>md_architecture = bytes_of ''llama'', md_supported = True, md_name = None, md_context_length = Some 2048,
     md_block_count = Some 2, md_embedding_length = Some 64, md_feed_forward_length = None, md_head_count = Some 2,
     md_head_count_kv = Some [2], md_key_length = None, md_value_length = None, md_sliding_window = None,
     md_rope_freq_base = None, md_vocab_size = None,
     md_tokenizer = \<lparr>tk_model = None, tk_pre = None, tk_bos_token_id = None, tk_eos_token_id = None,
       tk_eot_token_id = None, tk_padding_token_id = None, tk_add_bos_token = None, tk_add_eos_token = None,
       tk_token_count = None, tk_has_chat_template = False, tk_chat_template_len = None\<rparr>,
     md_file_type = Some 15, md_quantization = \<lparr>qm_dominant = None, qm_by_type = []\<rparr>, md_tensor_count = 0,
     md_param_count = Some 0, md_weight_bytes = Some 1, md_gguf_version = 3, md_alignment = 32, md_missing = []\<rparr>"

end
