(* ===== verification/Memory_Estimate.thy ===== *)
theory Memory_Estimate
  imports Gguf_Metadata
begin

text \<open>
  What a load would cost and whether it fits: byte quantities (\<open>lightweight-core/src/units.rs\<close>), the parameters of a
  load (\<open>runtime.rs\<close>), the memory reading (\<open>lightweight-system-info/src/memory.rs\<close>), the estimate with its remedies
  (\<open>lightweight-memory/src/estimate.rs\<close>) and the estimator (\<open>estimator.rs\<close>). A remedy is its action, a missing fact its
  constructor; their texts are not modelled.
\<close>

section \<open>Byte quantities\<close>

type_synonym byte_count = u64

definition KIB :: u64 where "KIB = 1024"
definition MIB :: u64 where "MIB = 1024 * KIB"
definition GIB :: u64 where "GIB = 1024 * MIB"

definition from_mib :: "u64 \<Rightarrow> byte_count" where "from_mib mib = sat_mul mib MIB"
definition from_gib :: "u64 \<Rightarrow> byte_count" where "from_gib gib = sat_mul gib GIB"

definition fraction_of :: "byte_count \<Rightarrow> byte_count \<Rightarrow> f64" where
  "fraction_of part whole = (if whole = 0 then 0 else f64_div (f64_of_u64 part) (f64_of_u64 whole))"

section \<open>Parameters of a load\<close>

datatype load_mode = LoadAuto | LoadNone | LoadMmap | LoadMlock | LoadMmapMlock

definition load_mode_all :: "load_mode list" where
  "load_mode_all = [LoadAuto, LoadNone, LoadMmap, LoadMlock, LoadMmapMlock]"

fun load_mode_as_str :: "load_mode \<Rightarrow> string" where
  "load_mode_as_str LoadAuto = ''auto''"
| "load_mode_as_str LoadNone = ''none''"
| "load_mode_as_str LoadMmap = ''mmap''"
| "load_mode_as_str LoadMlock = ''mlock''"
| "load_mode_as_str LoadMmapMlock = ''mmap+mlock''"

definition load_mode_from_name :: "string \<Rightarrow> load_mode option" where
  "load_mode_from_name name = find (\<lambda>mode. load_mode_as_str mode = name) load_mode_all"

definition locks_weights :: "load_mode \<Rightarrow> bool" where
  "locks_weights mode \<longleftrightarrow> mode = LoadMlock \<or> mode = LoadMmapMlock"

record runtime_params =
  rp_n_ctx :: u32
  rp_n_batch :: u32
  rp_n_ubatch :: u32
  rp_n_parallel :: u32
  rp_cache_type_k :: ggml_type
  rp_cache_type_v :: ggml_type
  rp_threads :: "u32 option"
  rp_threads_batch :: "u32 option"
  rp_poll :: "u8 option"
  rp_cache_reuse :: "u32 option"
  rp_cpu_range :: "(u32 \<times> u32) option"
  rp_cpu_strict :: bool
  rp_load_mode :: "load_mode option"

definition default_params :: runtime_params where
  "default_params =
    \<lparr>rp_n_ctx = 4096, rp_n_batch = 2048, rp_n_ubatch = 512, rp_n_parallel = 1, rp_cache_type_k = F16,
     rp_cache_type_v = F16, rp_threads = None, rp_threads_batch = None, rp_poll = None, rp_cache_reuse = None,
     rp_cpu_range = None, rp_cpu_strict = False, rp_load_mode = None\<rparr>"

definition with_context :: "u32 \<Rightarrow> runtime_params \<Rightarrow> runtime_params" where
  "with_context n_ctx p = p\<lparr>rp_n_ctx := n_ctx\<rparr>"

definition with_threads :: "u32 \<Rightarrow> runtime_params \<Rightarrow> runtime_params" where
  "with_threads threads p = p\<lparr>rp_threads := Some threads\<rparr>"

definition with_kv_cache_type :: "ggml_type \<Rightarrow> runtime_params \<Rightarrow> runtime_params" where
  "with_kv_cache_type t p = p\<lparr>rp_cache_type_k := t, rp_cache_type_v := t\<rparr>"

definition with_ubatch :: "u32 \<Rightarrow> runtime_params \<Rightarrow> runtime_params" where
  "with_ubatch n_ubatch p =
    p\<lparr>rp_n_ubatch := max n_ubatch 1, rp_n_batch := max (rp_n_batch p) (max n_ubatch 1)\<rparr>"

definition CONTEXT_PRESETS :: "u32 list" where
  "CONTEXT_PRESETS = [2048, 4096, 8192, 16384, 32768, 65536, 131072]"

text \<open>\<open>u32::try_from(n).unwrap_or(u32::MAX)\<close>.\<close>

definition u32_or_max :: "u64 \<Rightarrow> u32" where
  "u32_or_max n = (if unat n < 2 ^ 32 then ucast n else - 1)"

definition context_presets_for :: "u64 option \<Rightarrow> u32 list" where
  "context_presets_for model_max =
    (case model_max of
       None \<Rightarrow> CONTEXT_PRESETS
     | Some model_max \<Rightarrow>
         let ceiling = u32_or_max model_max;
             presets = filter (\<lambda>preset. preset \<le> ceiling) CONTEXT_PRESETS;
             presets = (if ceiling \<notin> set presets \<and> ceiling \<ge> 512 then presets @ [ceiling] else presets)
         in sort presets)"

section \<open>Estimates\<close>

record memory_snapshot =
  ms_total :: byte_count
  ms_available :: byte_count
  ms_free :: byte_count
  ms_swap_total :: byte_count
  ms_swap_free :: byte_count

definition ms_used :: "memory_snapshot \<Rightarrow> byte_count" where
  "ms_used s = sat_sub (ms_total s) (ms_available s)"

definition swap_used :: "memory_snapshot \<Rightarrow> byte_count" where
  "swap_used s = sat_sub (ms_swap_total s) (ms_swap_free s)"

definition pressure :: "memory_snapshot \<Rightarrow> f64" where
  "pressure s = fraction_of (ms_used s) (ms_total s)"

datatype admission = Safe | Tight | Insufficient

definition is_admissible :: "admission \<Rightarrow> bool" where
  "is_admissible v \<longleftrightarrow> v = Safe \<or> v = Tight"

datatype confidence = Measured | Coarse | Partial

record compute_model =
  cm_activation_factor :: f64
  cm_scratch_factor :: f64
  cm_engine_baseline :: byte_count
  cm_host_overhead :: byte_count
  cm_measured :: bool

definition default_compute_model :: compute_model where
  "default_compute_model =
    \<lparr>cm_activation_factor = 0x4020000000000000, cm_scratch_factor = 0x4010000000000000,
     cm_engine_baseline = from_mib 64, cm_host_overhead = from_mib 450, cm_measured = False\<rparr>"

definition headless_compute_model :: compute_model where
  "headless_compute_model = default_compute_model\<lparr>cm_host_overhead := from_mib 48\<rparr>"

record budget =
  bu_snapshot :: memory_snapshot
  bu_reclaimable :: byte_count

definition budget_of :: "memory_snapshot \<Rightarrow> budget" where
  "budget_of s = \<lparr>bu_snapshot = s, bu_reclaimable = 0\<rparr>"

definition reclaiming :: "byte_count \<Rightarrow> budget \<Rightarrow> budget" where
  "reclaiming r b = b\<lparr>bu_reclaimable := r\<rparr>"

definition spendable :: "budget \<Rightarrow> byte_count" where
  "spendable b = sat_add (ms_available (bu_snapshot b)) (bu_reclaimable b)"

datatype missing_fact =
    MissingWeights
  | MissingBlockCount
  | MissingHeadDimension
  | MissingHeadCountKv
  | MissingLayerHeads u64
  | UnsizeableCacheType ggml_type
  | MissingVocabSize
  | MissingEmbeddingLength

record estimate =
  es_weights :: byte_count
  es_kv_cache :: byte_count
  es_compute :: byte_count
  es_overhead :: byte_count
  es_total :: byte_count
  es_budget :: byte_count
  es_reclaimable :: byte_count
  es_margin :: byte_count
  es_verdict :: admission
  es_confidence :: confidence
  es_kv_bytes_per_token :: u64
  es_max_context_that_fits :: "u32 option"
  es_missing :: "missing_fact list"
  es_snapshot :: memory_snapshot
  es_params :: runtime_params

datatype settings_section = StoragePage | LoggingPage | ApiPage | InferencePage | ModelsPage

datatype remedy_action =
    ReduceContext u32
  | QuantizeKvCache string u64
  | UseQuantization string string u64
  | UseSmallerModel u64
  | FreeMemory u64
  | FreeDisk u64
  | SelectSupportedArchitecture "string list"
  | RetryAfter u32
  | ForceLoad
  | OpenSettings settings_section

definition compute_model_is_measured :: "estimate \<Rightarrow> bool" where
  "compute_model_is_measured e \<longleftrightarrow> es_confidence e = Measured"

definition estimate_shortfall :: "estimate \<Rightarrow> byte_count" where
  "estimate_shortfall e = sat_sub (sat_add (es_total e) (es_margin e)) (es_budget e)"

definition remedies :: "estimate \<Rightarrow> remedy_action list" where
  "remedies e =
    (if is_admissible (es_verdict e) then []
     else (case es_max_context_that_fits e of Some n \<Rightarrow> [ReduceContext n] | None \<Rightarrow> []) @
       (if rp_cache_type_k (es_params e) = F16 \<and> es_kv_cache e > from_mib 256
        then [QuantizeKvCache ''q8_0'' (sat_sub (es_kv_cache e) (sat_mul (es_kv_cache e) 34 div 64))]
        else []) @
       [UseSmallerModel (sat_sub (sat_sub (es_budget e) (es_margin e)) (es_overhead e)), FreeMemory (estimate_shortfall e)] @
       (if es_confidence e = Partial then [OpenSettings ModelsPage] else []))"

section \<open>The estimator\<close>

definition MIN_MARGIN :: byte_count where "MIN_MARGIN = 512 * 1024 * 1024"
definition MARGIN_FRACTION :: f64 where "MARGIN_FRACTION = 0x3FC3333333333333"
definition MIN_USEFUL_CONTEXT :: u32 where "MIN_USEFUL_CONTEXT = 512"
definition CORES_PER_SLOT :: u32 where "CORES_PER_SLOT = 4"

definition F64_FOUR :: f64 where "F64_FOUR = 0x4010000000000000"
definition F64_EIGHT :: f64 where "F64_EIGHT = 0x4020000000000000"

datatype concurrency_source = Requested | Fitted | ReducedToFit

record concurrency_choice =
  cc_slots :: u32
  cc_source :: concurrency_source
  cc_cores :: u32

record kv_cache =
  kv_bytes :: byte_count
  kv_bytes_per_token :: u64

definition KV_UNKNOWN :: kv_cache where
  "KV_UNKNOWN = \<lparr>kv_bytes = 0, kv_bytes_per_token = 0\<rparr>"

definition bits_per_element :: "ggml_type \<Rightarrow> f64 option" where
  "bits_per_element t = Option.bind (block_size t) (\<lambda>bs. Option.bind (type_size t) (\<lambda>ts.
    Some (f64_div (f64_of_u64 (ts * 8)) (f64_of_u64 bs))))"

definition bytes_per_element :: "ggml_type \<Rightarrow> missing_fact + f64" where
  "bytes_per_element t =
    (case bits_per_element t of Some bits \<Rightarrow> Inr (f64_div bits F64_EIGHT) | None \<Rightarrow> Inl (UnsizeableCacheType t))"

definition sized :: "ggml_type \<Rightarrow> u64 \<Rightarrow> missing_fact + u64" where
  "sized t n = (case bytes_for_elements t n of Some bytes \<Rightarrow> Inr bytes | None \<Rightarrow> Inl (UnsizeableCacheType t))"

definition layer_elements :: "runtime_params \<Rightarrow> u64 \<Rightarrow> u64 \<Rightarrow> u64" where
  "layer_elements p kv_heads head_dim =
    sat_mul (sat_mul (sat_mul (ucast (rp_n_ctx p)) kv_heads) head_dim) (ucast (max (rp_n_parallel p) 1))"

text \<open>The loop over the layers, with the two running sums.\<close>

fun kv_layers ::
  "model_metadata \<Rightarrow> runtime_params \<Rightarrow> u64 \<Rightarrow> u64 \<Rightarrow> f64 \<Rightarrow> f64 \<Rightarrow> nat \<Rightarrow> u64 \<Rightarrow> u64 \<Rightarrow> f64 \<Rightarrow> missing_fact + kv_cache" where
  "kv_layers m p dk dv bpe_k bpe_v 0 layer bytes per_token =
    Inr \<lparr>kv_bytes = bytes, kv_bytes_per_token = f64_to_u64 (f64_ceil per_token)\<rparr>"
| "kv_layers m p dk dv bpe_k bpe_v (Suc left) layer bytes per_token =
    (case kv_heads_for_layer m layer of
       None \<Rightarrow> Inl (MissingLayerHeads layer)
     | Some kv_heads \<Rightarrow>
         if kv_heads = 0 then kv_layers m p dk dv bpe_k bpe_v left (layer + 1) bytes per_token
         else and_then (sized (rp_cache_type_k p) (layer_elements p kv_heads dk)) (\<lambda>k_bytes.
           and_then (sized (rp_cache_type_v p) (layer_elements p kv_heads dv)) (\<lambda>v_bytes.
             kv_layers m p dk dv bpe_k bpe_v left (layer + 1) (sat_add (sat_add bytes k_bytes) v_bytes)
               (f64_add per_token
                 (f64_mul (f64_of_u64 (sat_mul kv_heads (ucast (max (rp_n_parallel p) 1))))
                   (f64_add (f64_mul (f64_of_u64 dk) bpe_k) (f64_mul (f64_of_u64 dv) bpe_v)))))))"

definition kv_accumulate :: "model_metadata \<Rightarrow> runtime_params \<Rightarrow> u64 \<Rightarrow> u64 \<Rightarrow> u64 \<Rightarrow> missing_fact + kv_cache" where
  "kv_accumulate m p layers dk dv =
    and_then (bytes_per_element (rp_cache_type_k p)) (\<lambda>bpe_k.
      and_then (bytes_per_element (rp_cache_type_v p)) (\<lambda>bpe_v.
        kv_layers m p dk dv bpe_k bpe_v (unat layers) 0 0 0))"

definition kv_cache_bytes :: "model_metadata \<Rightarrow> runtime_params \<Rightarrow> missing_fact list \<Rightarrow> kv_cache \<times> missing_fact list" where
  "kv_cache_bytes m p missing =
    (case md_block_count m of
       None \<Rightarrow> (KV_UNKNOWN, missing @ [MissingBlockCount])
     | Some layers \<Rightarrow>
         (case (head_dim_k m, head_dim_v m) of
            (Some dk, Some dv) \<Rightarrow>
              if md_head_count_kv m = None then (KV_UNKNOWN, missing @ [MissingHeadCountKv])
              else (case kv_accumulate m p layers dk dv of
                      Inr kv \<Rightarrow> (kv, missing)
                    | Inl reason \<Rightarrow> (KV_UNKNOWN, missing @ [reason]))
          | _ \<Rightarrow> (KV_UNKNOWN, missing @ [MissingHeadDimension])))"

definition compute_bytes ::
  "compute_model \<Rightarrow> model_metadata \<Rightarrow> runtime_params \<Rightarrow> missing_fact list \<Rightarrow> byte_count \<times> missing_fact list" where
  "compute_bytes cm m p missing =
    (let ubatch = f64_of_u64 (ucast (max (rp_n_ubatch p) 1));
         (logits, missing) = (case md_vocab_size m of
            Some vocab \<Rightarrow> (f64_mul (f64_mul (f64_of_u64 vocab) ubatch) F64_FOUR, missing)
          | None \<Rightarrow> (0, missing @ [MissingVocabSize]));
         embedding = f64_of_u64 (case md_embedding_length m of Some n \<Rightarrow> n | None \<Rightarrow> 0);
         ffn = f64_of_u64 (case md_feed_forward_length m of Some n \<Rightarrow> n | None \<Rightarrow> 0);
         missing = (if f64_eq embedding 0 then missing @ [MissingEmbeddingLength] else missing);
         activations = f64_mul (f64_mul (f64_mul (cm_activation_factor cm) ubatch) embedding) F64_FOUR;
         scratch = f64_mul (f64_mul (f64_mul (cm_scratch_factor cm) ubatch) (f64_max embedding ffn)) F64_FOUR
     in (f64_to_u64 (f64_max (f64_add (f64_add logits activations) scratch) 0), missing))"

definition margin_for :: "byte_count \<Rightarrow> byte_count" where
  "margin_for b =
    (let proportional = f64_to_u64 (f64_mul (f64_of_u64 b) MARGIN_FRACTION)
     in if proportional > MIN_MARGIN then proportional else MIN_MARGIN)"

definition solve_max_context :: "byte_count \<Rightarrow> byte_count \<Rightarrow> u64 \<Rightarrow> u32 option" where
  "solve_max_context bud fixed per_token =
    (if per_token = 0 then None
     else if bud < fixed then None
     else Option.bind (checked_div (bud - fixed) per_token) (\<lambda>tokens.
       if u32_or_max tokens \<ge> MIN_USEFUL_CONTEXT then Some (u32_or_max tokens) else None))"

definition estimate_against :: "compute_model \<Rightarrow> model_metadata \<Rightarrow> runtime_params \<Rightarrow> budget \<Rightarrow> estimate" where
  "estimate_against cm m p b =
    (let (weights, missing) = (case md_weight_bytes m of
            Some bytes \<Rightarrow> (bytes, [])
          | None \<Rightarrow> (0, [MissingWeights]));
         (kv, missing) = kv_cache_bytes m p missing;
         (compute, missing) = compute_bytes cm m p missing;
         overhead = sat_add (cm_engine_baseline cm) (cm_host_overhead cm);
         total_bytes = sat_add (sat_add (sat_add weights (kv_bytes kv)) compute) overhead;
         bud = spendable b;
         margin = margin_for bud;
         verdict = (if sat_add total_bytes margin \<le> bud then Safe else if total_bytes \<le> bud then Tight else Insufficient);
         confidence = (if missing \<noteq> [] then Partial else if cm_measured cm then Measured else Coarse);
         fixed = sat_add (sat_add (sat_add weights compute) overhead) margin;
         fits = map_option (\<lambda>fits. case md_context_length m of
             Some model_max \<Rightarrow> min fits (u32_or_max model_max)
           | None \<Rightarrow> fits) (solve_max_context bud fixed (kv_bytes_per_token kv))
     in \<lparr>es_weights = weights, es_kv_cache = kv_bytes kv, es_compute = compute, es_overhead = overhead,
         es_total = total_bytes, es_budget = bud, es_reclaimable = bu_reclaimable b, es_margin = margin,
         es_verdict = verdict, es_confidence = confidence, es_kv_bytes_per_token = kv_bytes_per_token kv,
         es_max_context_that_fits = Option.bind fits (\<lambda>n. if n \<ge> MIN_USEFUL_CONTEXT then Some n else None),
         es_missing = missing, es_snapshot = bu_snapshot b, es_params = p\<rparr>)"

definition estimate_for :: "compute_model \<Rightarrow> model_metadata \<Rightarrow> runtime_params \<Rightarrow> memory_snapshot \<Rightarrow> estimate" where
  "estimate_for cm m p s = estimate_against cm m p (budget_of s)"

text \<open>\<open>estimate_now\<close>, given what the memory probe answered.\<close>

definition estimate_now ::
  "compute_model \<Rightarrow> model_metadata \<Rightarrow> runtime_params \<Rightarrow> 'e + memory_snapshot \<Rightarrow> 'e + estimate" where
  "estimate_now cm m p reading = and_then reading (\<lambda>s. Inr (estimate_for cm m p s))"

definition largest_safe_context_against ::
  "compute_model \<Rightarrow> model_metadata \<Rightarrow> runtime_params \<Rightarrow> budget \<Rightarrow> u32 option \<Rightarrow> u32 option" where
  "largest_safe_context_against cm m base b ceiling =
    (let presets = context_presets_for (md_context_length m);
         presets = (case ceiling of Some c \<Rightarrow> filter (\<lambda>preset. preset \<le> c) presets | None \<Rightarrow> presets)
     in find (\<lambda>n_ctx. es_verdict (estimate_against cm m (with_context n_ctx base) b) = Safe) (rev presets))"

definition largest_safe_context ::
  "compute_model \<Rightarrow> model_metadata \<Rightarrow> runtime_params \<Rightarrow> memory_snapshot \<Rightarrow> u32 option \<Rightarrow> u32 option" where
  "largest_safe_context cm m base s ceiling = largest_safe_context_against cm m base (budget_of s) ceiling"

definition choose_concurrency ::
  "compute_model \<Rightarrow> u32 option \<Rightarrow> u32 \<Rightarrow> model_metadata option \<Rightarrow> runtime_params \<Rightarrow> budget \<Rightarrow> concurrency_choice" where
  "choose_concurrency cm requested cores metadata base b =
    (case requested of
       Some slots \<Rightarrow> \<lparr>cc_slots = max slots 1, cc_source = Requested, cc_cores = cores\<rparr>
     | None \<Rightarrow>
         let from_cores = max (cores div CORES_PER_SLOT) 1
         in (case metadata of
               None \<Rightarrow> \<lparr>cc_slots = from_cores, cc_source = Fitted, cc_cores = cores\<rparr>
             | Some m \<Rightarrow>
                 (case find (\<lambda>slots. es_verdict (estimate_against cm m (base\<lparr>rp_n_parallel := slots\<rparr>) b) = Safe)
                         (map word_of_nat (rev [1..<Suc (unat from_cores)])) of
                    Some slots \<Rightarrow>
                      \<lparr>cc_slots = slots, cc_source = (if slots = from_cores then Fitted else ReducedToFit),
                       cc_cores = cores\<rparr>
                  | None \<Rightarrow>
                      \<lparr>cc_slots = 1, cc_source = (if from_cores = 1 then Fitted else ReducedToFit),
                       cc_cores = cores\<rparr>)))"

end
