(* ===== verification/Memory_Admission.thy ===== *)
theory Memory_Admission
  imports Memory_Estimate
begin

text \<open>
  What the estimator promises. The size of the key-value cache is specified over the naturals (\<open>kv_exact\<close>); the verdict
  is the comparison of exact sums, the suggested context fits, and the searches for a context and a number of slots
  find the greatest that is safe.
\<close>

section \<open>The exact cache\<close>

definition heads_at :: "model_metadata \<Rightarrow> nat \<Rightarrow> nat" where
  "heads_at m l = (case kv_heads_for_layer m (word_of_nat l) of Some h \<Rightarrow> unat h | None \<Rightarrow> 0)"

definition slots_of :: "runtime_params \<Rightarrow> nat" where
  "slots_of p = max (unat (rp_n_parallel p)) 1"

definition layer_exact :: "model_metadata \<Rightarrow> runtime_params \<Rightarrow> u64 \<Rightarrow> u64 \<Rightarrow> nat \<Rightarrow> nat" where
  "layer_exact m p dk dv l =
    the (exact_bytes (rp_cache_type_k p) (unat (rp_n_ctx p) * heads_at m l * unat dk * slots_of p)) +
    the (exact_bytes (rp_cache_type_v p) (unat (rp_n_ctx p) * heads_at m l * unat dv * slots_of p))"

definition kv_exact :: "model_metadata \<Rightarrow> runtime_params \<Rightarrow> nat" where
  "kv_exact m p =
    (\<Sum>l < unat (the (md_block_count m)). layer_exact m p (the (head_dim_k m)) (the (head_dim_v m)) l)"

text \<open>The facts the cache needs are stated, and the keys or values of one token in one layer, over all slots, are fewer
  than \<open>2 ^ 23\<close>, so that no product of the estimator leaves 64 bits whatever the context.\<close>

definition kv_known :: "model_metadata \<Rightarrow> runtime_params \<Rightarrow> bool" where
  "kv_known m p \<longleftrightarrow> md_block_count m \<noteq> None \<and> head_dim_k m \<noteq> None \<and> head_dim_v m \<noteq> None \<and> md_head_count_kv m \<noteq> None
    \<and> (\<forall>l < unat (the (md_block_count m)). kv_heads_for_layer m (word_of_nat l) \<noteq> None)
    \<and> is_known (rp_cache_type_k p) \<and> is_known (rp_cache_type_v p)"

definition kv_small :: "model_metadata \<Rightarrow> runtime_params \<Rightarrow> bool" where
  "kv_small m p \<longleftrightarrow> (\<forall>l < unat (the (md_block_count m)).
    heads_at m l * Max {1, unat (the (head_dim_k m)), unat (the (head_dim_v m))} * slots_of p < 2 ^ 23)"

lemma layer_elements_exact:
  assumes "unat h * unat d * slots_of p < 2 ^ 23"
  shows "unat (layer_elements p h d) = unat (rp_n_ctx p) * unat h * unat d * slots_of p
    \<and> unat (layer_elements p h d) < 2 ^ 55"
proof -
  let ?n = "unat (rp_n_ctx p)" and ?s = "slots_of p"
  have s: "unat (ucast (max (rp_n_parallel p) 1) :: u64) = ?s" by (simp add: unat_ucast_up unat_max slots_of_def)
  have n: "unat (ucast (rp_n_ctx p) :: u64) = ?n" by (simp add: unat_ucast_up)
  have "?n < 2 ^ 32" using unat_lt_two_power [of "rp_n_ctx p"] by simp
  then have "?n * (unat h * unat d * ?s) \<le> 2 ^ 32 * (unat h * unat d * ?s)" by simp
  also have "\<dots> < 2 ^ 32 * 2 ^ 23" using assms by (rule mult_strict_left_mono) simp
  finally have all: "?n * unat h * unat d * ?s < 2 ^ 55" by (simp add: ac_simps)
  have "?n * unat h * unat d \<le> ?n * unat h * unat d * ?s" by (simp add: slots_of_def)
  with all have two: "?n * unat h * unat d < 2 ^ 55" by linarith
  have "min (2 ^ 64 - 1) (?n * unat h) * unat d = ?n * unat h * unat d" if "?n * unat h < 2 ^ 64 \<or> unat d = 0"
    using that by (auto simp: min_def)
  moreover have "?n * unat h < 2 ^ 64" if "unat d \<noteq> 0"
  proof -
    have "?n * unat h \<le> ?n * unat h * unat d" using that by simp
    with two have "?n * unat h < 2 ^ 55" by linarith
    then show ?thesis by simp
  qed
  ultimately have "min (2 ^ 64 - 1) (?n * unat h) * unat d = ?n * unat h * unat d" by blast
  moreover have "unat (layer_elements p h d) =
      min (2 ^ 64 - 1) (min (2 ^ 64 - 1) (min (2 ^ 64 - 1) (?n * unat h) * unat d) * ?s)"
    by (simp add: layer_elements_def unat_sat_mul s n)
  moreover have "min (2 ^ 64 - 1) (?n * unat h * unat d) = ?n * unat h * unat d"
    "min (2 ^ 64 - 1) (?n * unat h * unat d * ?s) = ?n * unat h * unat d * ?s" using two all by (simp_all add: min_def)
  ultimately show ?thesis using all by (simp only: conj_absorb simp_thms)
qed

lemma exact_bytes_small:
  assumes "is_known t" "n < 2 ^ 55"
  shows "\<exists>b. exact_bytes t n = Some b \<and> b < 2 ^ 64"
proof -
  obtain bs ts where g: "block_size t = Some bs" "type_size t = Some ts" using assms(1) geometry_known by fastforce
  have q: "n div unat bs \<le> n" by (rule div_le_dividend)
  have "(if n mod unat bs = 0 then n div unat bs else n div unat bs + 1) \<le> 2 ^ 55"
    using le_less_trans [OF q assms(2)] by (cases "n mod unat bs = 0") simp_all
  then have "(if n mod unat bs = 0 then n div unat bs else n div unat bs + 1) * unat ts \<le> 2 ^ 55 * 292"
    using type_size_bound [OF g(2)] by (intro mult_le_mono) auto
  with g show ?thesis by (simp add: exact_bytes_def)
qed

lemma sized_exact:
  assumes "is_known t" "unat n < 2 ^ 55"
  shows "\<exists>w. sized t n = Inr w \<and> unat w = the (exact_bytes t (unat n))"
proof -
  obtain b where b: "exact_bytes t (unat n) = Some b" "b < 2 ^ 64" using exact_bytes_small assms by blast
  with bytes_for_elements_exact [OF b(1)] show ?thesis by (auto simp: sized_def)
qed

section \<open>The cost of a token\<close>

text \<open>Bytes of an element in units of \<open>1 / 256\<close>, which every block geometry divides.\<close>

definition element_units :: "ggml_type \<Rightarrow> nat" where
  "element_units t = unat (the (type_size t)) * (256 div unat (the (block_size t)))"

lemma block_size_power: "block_size t = Some bs \<Longrightarrow> \<exists>a \<le> 8. unat bs = 2 ^ a"
  by (cases t)
    (auto intro: exI [of _ 0] exI [of _ 4] exI [of _ 5] exI [of _ 6] exI [of _ 7] exI [of _ 8])

lemma exactly_constants: "exactly F64_FOUR 4 0" "exactly F64_EIGHT 8 0"
  by (simp_all add: exactly_def F64_FOUR_def F64_EIGHT_def is_finite_def f64_mag_def f64_neg_def f64_units_def F64_INF_def)

lemma bytes_per_element_exact:
  assumes "is_known t"
  shows "\<exists>x. bytes_per_element t = Inr x \<and> exactly x (element_units t) 8"
proof -
  obtain bs ts where g: "block_size t = Some bs" "type_size t = Some ts" using assms geometry_known by fastforce
  obtain a where a: "a \<le> 8" "unat bs = 2 ^ a" using block_size_power [OF g(1)] by blast
  have ts: "unat (ts * 8) = unat ts * 8" "unat ts * 8 < 2 ^ 53"
    using type_size_bound [OF g(2)] by (simp_all add: unat_mul_small)
  have pow: "(2 :: nat) ^ a \<le> 2 ^ 8" using a(1) by (rule power_increasing) simp
  have "exactly (f64_of_u64 (ts * 8)) (unat ts * 8) 0" using exactly_of_u64 [of "ts * 8"] ts by simp
  moreover have "exactly (f64_of_u64 bs) (2 ^ a) 0" using exactly_of_u64 [of bs] a pow by simp
  ultimately have bits: "exactly (f64_div (f64_of_u64 (ts * 8)) (f64_of_u64 bs)) (unat ts * 8) a"
    using exactly_div [of _ "unat ts * 8" 0 _ a] ts a(1) by simp
  have "exactly F64_EIGHT (2 ^ 3) 0" using exactly_constants(2) by simp
  with bits have "exactly (f64_div (f64_div (f64_of_u64 (ts * 8)) (f64_of_u64 bs)) F64_EIGHT) (unat ts * 8) (a + 3)"
    using ts a(1) by (intro exactly_div) simp_all
  moreover have p: "(256 :: nat) = 2 ^ (8 - a) * 2 ^ a" using a(1) by (simp flip: power_add)
  then have "256 div 2 ^ a = (2 :: nat) ^ (8 - a)" by (metis nonzero_mult_div_cancel_right power_not_zero zero_neq_numeral)
  with p have "unat ts * 8 * 2 ^ 8 = element_units t * 2 ^ (a + 3)"
    by (simp add: element_units_def g a(2) power_add mult.commute)
  ultimately show ?thesis using exactly_rescale
    by (auto simp: bytes_per_element_def bits_per_element_def g)
qed

definition token_units :: "model_metadata \<Rightarrow> runtime_params \<Rightarrow> u64 \<Rightarrow> u64 \<Rightarrow> nat \<Rightarrow> nat" where
  "token_units m p dk dv l = heads_at m l * slots_of p *
    (unat dk * element_units (rp_cache_type_k p) + unat dv * element_units (rp_cache_type_v p))"

lemma element_units_pos: "is_known t \<Longrightarrow> 1 \<le> element_units t"
  by (cases t) (simp_all add: element_units_def)

lemma token_term_exact:
  assumes "exactly x (element_units (rp_cache_type_k p)) 8" "exactly y (element_units (rp_cache_type_v p)) 8"
    and "is_known (rp_cache_type_k p)" "is_known (rp_cache_type_v p)"
    and "kv_heads_for_layer m (word_of_nat l) = Some h" "h \<noteq> 0" "unat h * slots_of p < 2 ^ 23"
    and "token_units m p dk dv l < 2 ^ 53"
  shows "exactly (f64_mul (f64_of_u64 (sat_mul h (ucast (max (rp_n_parallel p) 1))))
      (f64_add (f64_mul (f64_of_u64 dk) x) (f64_mul (f64_of_u64 dv) y))) (token_units m p dk dv l) 8"
proof -
  let ?k = "element_units (rp_cache_type_k p)" and ?v = "element_units (rp_cache_type_v p)"
  let ?c = "unat h * slots_of p" and ?t = "unat dk * ?k + unat dv * ?v"
  have units: "token_units m p dk dv l = ?c * ?t" by (simp add: token_units_def heads_at_def assms(5))
  have "1 \<le> ?c" using assms(6) by (simp add: slots_of_def Suc_le_eq unat_gt_0)
  then have "?t \<le> ?c * ?t" by simp
  then have t: "?t < 2 ^ 53" using assms(8) units by linarith
  have "unat dk \<le> unat dk * ?k" "unat dv \<le> unat dv * ?v" using element_units_pos assms(3,4) by simp_all
  with t have d: "unat dk < 2 ^ 53" "unat dv < 2 ^ 53" "unat dk * ?k < 2 ^ 53" "unat dv * ?v < 2 ^ 53" by linarith+
  have c: "unat (sat_mul h (ucast (max (rp_n_parallel p) 1))) = ?c"
    using assms(7) by (simp add: unat_sat_mul unat_ucast_up unat_max slots_of_def)
  have "exactly (f64_mul (f64_of_u64 dk) x) (unat dk * ?k) (0 + 8)" "exactly (f64_mul (f64_of_u64 dv) y) (unat dv * ?v) (0 + 8)"
    using d assms(1,2) exactly_of_u64 by (intro exactly_mul; simp)+
  then have "exactly (f64_add (f64_mul (f64_of_u64 dk) x) (f64_mul (f64_of_u64 dv) y)) ?t 8"
    using t by (intro exactly_add) simp_all
  moreover have "exactly (f64_of_u64 (sat_mul h (ucast (max (rp_n_parallel p) 1)))) ?c 0"
    using exactly_of_u64 [of "sat_mul h (ucast (max (rp_n_parallel p) 1))"] c assms(7) by simp
  ultimately show ?thesis using exactly_mul [of _ ?c 0 _ ?t 8] units assms(8) by simp
qed

section \<open>The loop over the layers\<close>

lemma kv_small_layer:
  assumes "kv_small m p" "l < unat (the (md_block_count m))"
  shows "heads_at m l * unat (the (head_dim_k m)) * slots_of p < 2 ^ 23"
    "heads_at m l * unat (the (head_dim_v m)) * slots_of p < 2 ^ 23" "heads_at m l * slots_of p < 2 ^ 23"
proof -
  let ?d = "Max {1, unat (the (head_dim_k m)), unat (the (head_dim_v m))}"
  have all: "heads_at m l * ?d * slots_of p < 2 ^ 23" using assms by (simp add: kv_small_def)
  have less: "heads_at m l * d * slots_of p < 2 ^ 23" if "d \<le> ?d" for d
  proof -
    have "heads_at m l * d * slots_of p \<le> heads_at m l * ?d * slots_of p" using that by (intro mult_le_mono) simp_all
    with all show ?thesis by linarith
  qed
  show "heads_at m l * unat (the (head_dim_k m)) * slots_of p < 2 ^ 23"
    "heads_at m l * unat (the (head_dim_v m)) * slots_of p < 2 ^ 23" by (rule less; simp)+
  show "heads_at m l * slots_of p < 2 ^ 23" using less [of 1] by simp
qed

lemma exact_bytes_0: "is_known t \<Longrightarrow> the (exact_bytes t 0) = 0"
  by (cases t) (simp_all add: exact_bytes_def)

lemma layer_exact_sized:
  assumes "kv_known m p" "kv_small m p" "l < unat (the (md_block_count m))"
    and "kv_heads_for_layer m (word_of_nat l) = Some h"
  shows "\<exists>k v. sized (rp_cache_type_k p) (layer_elements p h (the (head_dim_k m))) = Inr k
    \<and> sized (rp_cache_type_v p) (layer_elements p h (the (head_dim_v m))) = Inr v
    \<and> layer_exact m p (the (head_dim_k m)) (the (head_dim_v m)) l = unat k + unat v"
proof -
  have h: "heads_at m l = unat h" using assms(4) by (simp add: heads_at_def)
  note small = kv_small_layer [OF assms(2,3), unfolded h]
  obtain k where "sized (rp_cache_type_k p) (layer_elements p h (the (head_dim_k m))) = Inr k"
    "unat k = the (exact_bytes (rp_cache_type_k p) (unat (layer_elements p h (the (head_dim_k m)))))"
    using sized_exact layer_elements_exact [OF small(1)] assms(1) unfolding kv_known_def by blast
  moreover obtain v where "sized (rp_cache_type_v p) (layer_elements p h (the (head_dim_v m))) = Inr v"
    "unat v = the (exact_bytes (rp_cache_type_v p) (unat (layer_elements p h (the (head_dim_v m)))))"
    using sized_exact layer_elements_exact [OF small(2)] assms(1) unfolding kv_known_def by blast
  ultimately show ?thesis
    using layer_elements_exact [OF small(1)] layer_elements_exact [OF small(2)] by (simp add: layer_exact_def h)
qed

lemma kv_layers_exact:
  fixes m p
  defines "dk \<equiv> the (head_dim_k m)" and "dv \<equiv> the (head_dim_v m)" and "layers \<equiv> unat (the (md_block_count m))"
  assumes "kv_known m p" "kv_small m p"
    and "exactly x (element_units (rp_cache_type_k p)) 8" "exactly y (element_units (rp_cache_type_v p)) 8"
  shows "l + left = layers \<Longrightarrow> \<exists>kv. kv_layers m p dk dv x y left (word_of_nat l) bytes pt = Inr kv
    \<and> unat (kv_bytes kv) = min (2 ^ 64 - 1) (unat bytes + (\<Sum>i = l..<layers. layer_exact m p dk dv i))
    \<and> (exactly pt c 8 \<longrightarrow> c + (\<Sum>i = l..<layers. token_units m p dk dv i) < 2 ^ 53 \<longrightarrow>
        unat (kv_bytes_per_token kv) = (c + (\<Sum>i = l..<layers. token_units m p dk dv i) + 255) div 256)"
proof (induction left arbitrary: l bytes pt c)
  case 0
  have "unat (f64_to_u64 (f64_ceil pt)) = (c + 255) div 256" if "exactly pt c 8" "c < 2 ^ 53"
  proof -
    have "c + 2 ^ 8 - 1 = c + 255" by simp
    then have "exactly (f64_ceil pt) ((c + 255) div 256) 0" using exactly_ceil [OF that] by (simp only:) simp
    moreover have "(c + 255) div 256 < 2 ^ 64" using that(2) by (simp add: div_less_iff_less_mult)
    ultimately show ?thesis using exactly_to_u64 [of "f64_ceil pt" "(c + 255) div 256" 0] by simp
  qed
  with 0 show ?case using unat_lt_two_power [of bytes] by simp
next
  case (Suc left)
  then have l: "l < layers" "Suc l + left = layers" by simp_all
  obtain h where h: "kv_heads_for_layer m (word_of_nat l) = Some h"
    using assms(4) l(1) unfolding kv_known_def layers_def by blast
  have sums: "(\<Sum>i = l..<layers. f i) = f l + (\<Sum>i = Suc l..<layers. f i)" for f :: "nat \<Rightarrow> nat"
    using l(1) by (rule sum.atLeast_Suc_lessThan)
  have layer: "(word_of_nat l :: u64) + 1 = word_of_nat (Suc l)" by simp
  show ?case
  proof (cases "h = 0")
    case True
    have "heads_at m l = 0" using h True by (simp add: heads_at_def)
    then have "layer_exact m p dk dv l = 0" "token_units m p dk dv l = 0"
      using assms(4) exact_bytes_0 by (simp_all add: layer_exact_def token_units_def kv_known_def)
    with Suc.IH [OF l(2), of bytes pt c] True h show ?thesis unfolding sums by (simp add: layer)
  next
    case False
    obtain k v where kv: "sized (rp_cache_type_k p) (layer_elements p h dk) = Inr k"
      "sized (rp_cache_type_v p) (layer_elements p h dv) = Inr v" "layer_exact m p dk dv l = unat k + unat v"
      using layer_exact_sized [OF assms(4,5) _ h] l(1) unfolding dk_def dv_def layers_def by blast
    let ?pt = "f64_add pt (f64_mul (f64_of_u64 (sat_mul h (ucast (max (rp_n_parallel p) 1))))
        (f64_add (f64_mul (f64_of_u64 dk) x) (f64_mul (f64_of_u64 dv) y)))"
    have pt: "exactly ?pt (c + token_units m p dk dv l) 8"
      if "exactly pt c 8" "c + token_units m p dk dv l < 2 ^ 53"
    proof (rule exactly_add [OF that(1) _ that(2)])
      have "unat h * slots_of p < 2 ^ 23"
        using kv_small_layer(3) [OF assms(5), of l] l(1) h by (simp add: heads_at_def layers_def)
      then show "exactly (f64_mul (f64_of_u64 (sat_mul h (ucast (max (rp_n_parallel p) 1))))
          (f64_add (f64_mul (f64_of_u64 dk) x) (f64_mul (f64_of_u64 dv) y))) (token_units m p dk dv l) 8"
        using assms(4,6,7) h False that(2) by (intro token_term_exact) (simp_all add: kv_known_def)
    qed simp
    have "kv_layers m p dk dv x y (Suc left) (word_of_nat l) bytes pt =
        kv_layers m p dk dv x y left (word_of_nat (Suc l)) (sat_add (sat_add bytes k) v) ?pt"
      using h False kv by (simp add: add.commute)
    moreover have "min (2 ^ 64 - 1) (unat (sat_add (sat_add bytes k) v) + s) =
        min (2 ^ 64 - 1) (unat bytes + (unat k + unat v + s))" for s
      by (simp add: unat_sat_add min_def)
    ultimately show ?thesis
      using Suc.IH [OF l(2), of "sat_add (sat_add bytes k) v" ?pt "c + token_units m p dk dv l"] pt
      unfolding sums kv(3) by (auto simp: add.assoc)
  qed
qed

lemma kv_cache_bytes_exact:
  assumes "kv_known m p" "kv_small m p"
  shows "\<exists>kv. kv_cache_bytes m p missing = (kv, missing) \<and> unat (kv_bytes kv) = min (2 ^ 64 - 1) (kv_exact m p)
    \<and> ((\<Sum>i < unat (the (md_block_count m)). token_units m p (the (head_dim_k m)) (the (head_dim_v m)) i) < 2 ^ 53 \<longrightarrow>
        unat (kv_bytes_per_token kv) =
          ((\<Sum>i < unat (the (md_block_count m)). token_units m p (the (head_dim_k m)) (the (head_dim_v m)) i) + 255) div 256)"
proof -
  from assms(1) obtain layers dk dv where m: "md_block_count m = Some layers" "head_dim_k m = Some dk" "head_dim_v m = Some dv"
    "md_head_count_kv m \<noteq> None" by (auto simp: kv_known_def)
  have "is_known (rp_cache_type_k p)" "is_known (rp_cache_type_v p)" using assms(1) by (simp_all only: kv_known_def)
  from this [THEN bytes_per_element_exact] obtain x y where
    xy: "bytes_per_element (rp_cache_type_k p) = Inr x" "exactly x (element_units (rp_cache_type_k p)) 8"
    "bytes_per_element (rp_cache_type_v p) = Inr y" "exactly y (element_units (rp_cache_type_v p)) 8" by blast
  have "exactly 0 0 8" by (rule exactly_0)
  moreover have "0 + unat layers = unat (the (md_block_count m))" by (simp add: m)
  note kv_layers_exact [OF assms xy(2,4) this, of 0 0 0]
  ultimately obtain kv where
    kv: "kv_layers m p dk dv x y (unat layers) 0 0 0 = Inr kv"
    "unat (kv_bytes kv) = min (2 ^ 64 - 1) (\<Sum>i < unat layers. layer_exact m p dk dv i)"
    "(\<Sum>i < unat layers. token_units m p dk dv i) < 2 ^ 53 \<longrightarrow>
      unat (kv_bytes_per_token kv) = ((\<Sum>i < unat layers. token_units m p dk dv i) + 255) div 256"
    unfolding atLeast0LessThan m option.sel by auto
  moreover from this(1) m xy(1,3) have "kv_cache_bytes m p missing = (kv, missing)"
    by (simp add: kv_cache_bytes_def kv_accumulate_def)
  ultimately show ?thesis unfolding kv_exact_def m option.sel by blast
qed

section \<open>The verdict\<close>

text \<open>What a load needs, over the naturals: weights, cache, compute buffers, engine and host.\<close>

definition needed :: "compute_model \<Rightarrow> model_metadata \<Rightarrow> runtime_params \<Rightarrow> nat" where
  "needed cm m p = unat (the (md_weight_bytes m)) + kv_exact m p + unat (fst (compute_bytes cm m p []))
    + unat (cm_engine_baseline cm) + unat (cm_host_overhead cm)"

definition at_hand :: "budget \<Rightarrow> nat" where
  "at_hand b = unat (ms_available (bu_snapshot b)) + unat (bu_reclaimable b)"

lemma compute_bytes_fst: "fst (compute_bytes cm m p missing) = fst (compute_bytes cm m p [])"
  by (simp add: compute_bytes_def Let_def split: option.splits)

lemma unat_spendable: "at_hand b < 2 ^ 64 \<Longrightarrow> unat (spendable b) = at_hand b"
  by (simp add: spendable_def at_hand_def unat_sat_add)

lemma estimate_sums:
  assumes "kv_known m p" "kv_small m p" "md_weight_bytes m \<noteq> None"
  shows "unat (es_total (estimate_against cm m p b)) = min (2 ^ 64 - 1) (needed cm m p)"
    and "es_margin (estimate_against cm m p b) = margin_for (spendable b)"
    and "unat (es_kv_cache (estimate_against cm m p b)) = min (2 ^ 64 - 1) (kv_exact m p)"
proof -
  obtain w where w: "md_weight_bytes m = Some w" using assms(3) by blast
  obtain kv where kv: "kv_cache_bytes m p [] = (kv, [])" "unat (kv_bytes kv) = min (2 ^ 64 - 1) (kv_exact m p)"
    using kv_cache_bytes_exact [OF assms(1,2), of "[]"] by blast
  obtain c missing where c: "compute_bytes cm m p [] = (c, missing)" by fastforce
  show "unat (es_total (estimate_against cm m p b)) = min (2 ^ 64 - 1) (needed cm m p)"
    by (simp add: estimate_against_def Let_def w kv c needed_def unat_sat_add min_def)
  show "es_margin (estimate_against cm m p b) = margin_for (spendable b)"
    "unat (es_kv_cache (estimate_against cm m p b)) = min (2 ^ 64 - 1) (kv_exact m p)"
    by (simp_all add: estimate_against_def Let_def w kv c)
qed

lemma verdict_of_sums:
  "es_verdict (estimate_against cm m p b) =
    (if sat_add (es_total (estimate_against cm m p b)) (es_margin (estimate_against cm m p b)) \<le> spendable b then Safe
     else if es_total (estimate_against cm m p b) \<le> spendable b then Tight else Insufficient)"
  by (simp add: estimate_against_def Let_def split: prod.splits option.splits)

lemma verdict_exact:
  assumes "kv_known m p" "kv_small m p" "md_weight_bytes m \<noteq> None" "at_hand b < 2 ^ 64 - 1"
  shows "es_verdict (estimate_against cm m p b) =
    (if needed cm m p + unat (margin_for (spendable b)) \<le> at_hand b then Safe
     else if needed cm m p \<le> at_hand b then Tight else Insufficient)"
proof -
  note sums = estimate_sums [OF assms(1-3), of cm b]
  have "unat (spendable b) = at_hand b" using assms(4) by (intro unat_spendable) simp
  then show ?thesis
    unfolding verdict_of_sums using assms(4) by (auto simp: word_le_nat_alt unat_sat_add sums min_def)
qed


section \<open>The suggested context\<close>

text \<open>Blocks of the cache hold whole heads.\<close>

definition kv_aligned :: "model_metadata \<Rightarrow> runtime_params \<Rightarrow> bool" where
  "kv_aligned m p \<longleftrightarrow> unat (the (block_size (rp_cache_type_k p))) dvd unat (the (head_dim_k m))
    \<and> unat (the (block_size (rp_cache_type_v p))) dvd unat (the (head_dim_v m))"

definition token_cost :: "model_metadata \<Rightarrow> runtime_params \<Rightarrow> nat" where
  "token_cost m p = (\<Sum>i < unat (the (md_block_count m)). token_units m p (the (head_dim_k m)) (the (head_dim_v m)) i)"

lemma exact_bytes_units:
  assumes "is_known t" "unat (the (block_size t)) dvd n"
  shows "256 * the (exact_bytes t n) = n * element_units t"
proof -
  obtain bs ts where g: "block_size t = Some bs" "type_size t = Some ts" using assms(1) geometry_known by fastforce
  obtain a where a: "a \<le> 8" "unat bs = 2 ^ a" using block_size_power [OF g(1)] by blast
  have p: "(256 :: nat) = 2 ^ a * 2 ^ (8 - a)" using a(1) by (simp flip: power_add)
  then have q: "256 div 2 ^ a = (2 :: nat) ^ (8 - a)" by (metis nonzero_mult_div_cancel_left power_not_zero zero_neq_numeral)
  obtain c where c: "n = 2 ^ a * c" using assms(2) g a(2) by (auto elim: dvdE)
  have "the (exact_bytes t n) = c * unat ts" using c by (simp add: exact_bytes_def g a(2))
  then have "256 * the (exact_bytes t n) = (2 ^ a * 2 ^ (8 - a)) * (c * unat ts)" using p by (simp only:)
  also have "\<dots> = n * element_units t" by (simp only: element_units_def g option.sel a(2) q c ac_simps)
  finally show ?thesis .
qed

lemma layer_exact_units:
  assumes "kv_known m p" "kv_aligned m p"
  shows "256 * layer_exact m p (the (head_dim_k m)) (the (head_dim_v m)) l =
    unat (rp_n_ctx p) * token_units m p (the (head_dim_k m)) (the (head_dim_v m)) l"
proof -
  let ?n = "unat (rp_n_ctx p) * heads_at m l"
  have "256 * the (exact_bytes t (?n * d * slots_of p)) = ?n * d * slots_of p * element_units t"
    if "is_known t" "unat (the (block_size t)) dvd d" for t d
    using that by (intro exact_bytes_units) auto
  then have "256 * layer_exact m p (the (head_dim_k m)) (the (head_dim_v m)) l =
      ?n * unat (the (head_dim_k m)) * slots_of p * element_units (rp_cache_type_k p) +
      ?n * unat (the (head_dim_v m)) * slots_of p * element_units (rp_cache_type_v p)"
    using assms by (simp only: layer_exact_def kv_known_def kv_aligned_def distrib_left)
  then show ?thesis by (simp add: token_units_def algebra_simps)
qed

lemma kv_exact_units: "kv_known m p \<Longrightarrow> kv_aligned m p \<Longrightarrow> 256 * kv_exact m p = unat (rp_n_ctx p) * token_cost m p"
  unfolding kv_exact_def token_cost_def sum_distrib_left by (simp only: layer_exact_units)

lemma with_context_simps [simp]:
  "rp_n_ctx (with_context n p) = n" "slots_of (with_context n p) = slots_of p"
  "kv_known m (with_context n p) = kv_known m p" "kv_small m (with_context n p) = kv_small m p"
  "kv_aligned m (with_context n p) = kv_aligned m p" "token_cost m (with_context n p) = token_cost m p"
  "compute_bytes cm m (with_context n p) = compute_bytes cm m p"
  by (simp_all add: with_context_def slots_of_def kv_known_def kv_small_def kv_aligned_def token_cost_def token_units_def
      compute_bytes_def fun_eq_iff)

lemma unat_u32_or_max: "unat (u32_or_max n) = min (2 ^ 32 - 1) (unat n)"
  by (cases "unat n < 2 ^ 32") (auto simp: u32_or_max_def unsigned_ucast_eq take_bit_eq_mod)

lemma solve_max_context_bound:
  assumes "solve_max_context bud fixed per_token = Some n"
  shows "unat fixed + unat n * unat per_token \<le> unat bud"
proof -
  from assms have *: "per_token \<noteq> 0" "fixed \<le> bud" "n = u32_or_max ((bud - fixed) div per_token)"
    by (auto simp: solve_max_context_def checked_div_def not_less split: if_splits)
  then have "unat n \<le> (unat bud - unat fixed) div unat per_token"
    by (simp add: unat_u32_or_max unat_div_distrib unat_sub)
  then have "unat n * unat per_token \<le> (unat bud - unat fixed) div unat per_token * unat per_token" by (rule mult_le_mono1)
  also have "\<dots> \<le> unat bud - unat fixed" by (rule div_times_less_eq_dividend)
  finally show ?thesis using *(2) by (simp add: word_le_nat_alt)
qed

lemma kv_cache_bytes_fst: "fst (kv_cache_bytes m p missing) = fst (kv_cache_bytes m p [])"
  by (auto simp: kv_cache_bytes_def split: option.splits sum.splits)

lemma estimate_fields:
  "es_weights (estimate_against cm m p b) = (case md_weight_bytes m of Some w \<Rightarrow> w | None \<Rightarrow> 0)"
  "es_compute (estimate_against cm m p b) = fst (compute_bytes cm m p [])"
  "es_kv_bytes_per_token (estimate_against cm m p b) = kv_bytes_per_token (fst (kv_cache_bytes m p []))"
  by (simp_all add: estimate_against_def Let_def case_prod_beta split: option.split)
    (metis kv_cache_bytes_fst compute_bytes_fst)+

lemma suggestion_solved:
  assumes "es_max_context_that_fits (estimate_against cm m p b) = Some n"
  shows "\<exists>fits. solve_max_context (spendable b)
      (sat_add (sat_add (sat_add (es_weights (estimate_against cm m p b)) (es_compute (estimate_against cm m p b)))
        (sat_add (cm_engine_baseline cm) (cm_host_overhead cm))) (margin_for (spendable b)))
      (es_kv_bytes_per_token (estimate_against cm m p b)) = Some fits
    \<and> n = (case md_context_length m of Some model_max \<Rightarrow> min fits (u32_or_max model_max) | None \<Rightarrow> fits)
    \<and> MIN_USEFUL_CONTEXT \<le> n"
  using assms
  by (auto simp: estimate_against_def Let_def case_prod_beta bind_eq_Some_conv split: if_splits)

lemma suggestion_bound:
  assumes "es_max_context_that_fits (estimate_against cm m p b) = Some n" "at_hand b < 2 ^ 64 - 1" "md_weight_bytes m \<noteq> None"
  shows "unat (the (md_weight_bytes m)) + unat (fst (compute_bytes cm m p []))
      + unat (cm_engine_baseline cm) + unat (cm_host_overhead cm) + unat (margin_for (spendable b))
      + unat n * unat (es_kv_bytes_per_token (estimate_against cm m p b)) \<le> at_hand b"
proof -
  let ?per = "es_kv_bytes_per_token (estimate_against cm m p b)"
  obtain fits where fits: "solve_max_context (spendable b)
      (sat_add (sat_add (sat_add (the (md_weight_bytes m)) (fst (compute_bytes cm m p [])))
        (sat_add (cm_engine_baseline cm) (cm_host_overhead cm))) (margin_for (spendable b))) ?per = Some fits" "n \<le> fits"
    using suggestion_solved [OF assms(1)] assms(3) by (auto simp: estimate_fields split: option.splits)
  have hand: "unat (spendable b) = at_hand b" using assms(2) by (intro unat_spendable) simp
  have "unat (the (md_weight_bytes m)) + unat (fst (compute_bytes cm m p []))
      + unat (cm_engine_baseline cm) + unat (cm_host_overhead cm) + unat (margin_for (spendable b))
      + unat fits * unat ?per \<le> at_hand b"
    using solve_max_context_bound [OF fits(1)] assms(2)
    unfolding hand unat_sat_add by (auto simp: min_def split: if_splits)
  moreover have "unat n * unat ?per \<le> unat fits * unat ?per" using fits(2) by (simp add: word_le_nat_alt)
  ultimately show ?thesis by linarith
qed


section \<open>Searching a context and a number of slots\<close>

lemma find_rev_sorted:
  assumes "sorted xs"
  shows "case find P (rev xs) of
      Some x \<Rightarrow> x \<in> set xs \<and> P x \<and> (\<forall>y \<in> set xs. x < y \<longrightarrow> \<not> P y)
    | None \<Rightarrow> \<forall>y \<in> set xs. \<not> P y"
  using assms
proof (induction xs rule: rev_induct)
  case (snoc x xs)
  then show ?case by (cases "P x") (auto simp: sorted_append not_less split: option.splits)
qed simp

lemma context_presets_sorted: "sorted (context_presets_for most)"
  by (auto simp: context_presets_for_def CONTEXT_PRESETS_def Let_def split: option.splits)

lemma context_presets_bounded: "n \<in> set (context_presets_for (Some most)) \<Longrightarrow> unat n \<le> unat most"
  by (auto simp: context_presets_for_def Let_def word_le_nat_alt unat_u32_or_max split: if_splits)

lemma find_rev_Max:
  assumes "sorted xs"
  shows "find P (rev xs) = (let good = {x \<in> set xs. P x} in if good = {} then None else Some (Max good))"
proof (cases "find P (rev xs)")
  case None
  then have "{x \<in> set xs. P x} = {}" using find_rev_sorted [OF assms, of P] by auto
  with None show ?thesis by (simp add: Let_def)
next
  case (Some x)
  then have x: "x \<in> set xs" "P x" "\<forall>y \<in> set xs. x < y \<longrightarrow> \<not> P y" using find_rev_sorted [OF assms, of P] by auto
  then have "Max {x \<in> set xs. P x} = x" by (intro Max_eqI) (auto simp: not_less [symmetric])
  moreover have "{x \<in> set xs. P x} \<noteq> {}" using x by blast
  ultimately show ?thesis by (simp only: Some Let_def if_False)
qed

text \<open>The contexts a search may answer with: the presets the model was trained for, up to the caller's ceiling.\<close>

definition eligible_contexts :: "model_metadata \<Rightarrow> u32 option \<Rightarrow> u32 set" where
  "eligible_contexts m ceiling = {n \<in> set (context_presets_for (md_context_length m)). is_none_or ceiling (\<lambda>c. n \<le> c)}"

text \<open>The search for a context answers with the greatest preset, within the model's own maximum and the
  caller's ceiling, that the estimate calls safe against the same budget, and with nothing only if no preset is.\<close>

theorem largest_safe_context_is_largest:
  "let good = {n \<in> eligible_contexts m ceiling. es_verdict (estimate_against cm m (with_context n base) b) = Safe} in
   largest_safe_context_against cm m base b ceiling = (if good = {} then None else Some (Max good)) \<and>
   good \<subseteq> {n. is_none_or (md_context_length m) (\<lambda>most. unat n \<le> unat most)}"
proof -
  let ?presets = "context_presets_for (md_context_length m)"
  let ?allowed = "case ceiling of Some c \<Rightarrow> filter (\<lambda>preset. preset \<le> c) ?presets | None \<Rightarrow> ?presets"
  let ?P = "\<lambda>n. es_verdict (estimate_against cm m (with_context n base) b) = Safe"
  have set: "set ?allowed = eligible_contexts m ceiling"
    by (auto simp: eligible_contexts_def is_none_or_def split: option.splits)
  have sorted: "sorted ?allowed"
    using context_presets_sorted by (auto intro: sorted_wrt_filter split: option.splits)
  have bounded: "eligible_contexts m ceiling \<subseteq> {n. is_none_or (md_context_length m) (\<lambda>most. unat n \<le> unat most)}"
    using context_presets_bounded by (auto simp: eligible_contexts_def is_none_or_def split: option.splits)
  have "largest_safe_context_against cm m base b ceiling = find ?P (rev ?allowed)"
    unfolding largest_safe_context_against_def Let_def ..
  also note find_rev_Max [OF sorted, of ?P, unfolded set Let_def]
  finally show ?thesis unfolding Let_def using order_trans [OF Collect_restrict bounded] by (intro conjI)
qed

text \<open>The estimate of a load with the given number of slots.\<close>

definition safe_with_slots :: "compute_model \<Rightarrow> model_metadata \<Rightarrow> runtime_params \<Rightarrow> budget \<Rightarrow> u32 \<Rightarrow> bool" where
  "safe_with_slots cm m base b slots \<longleftrightarrow> es_verdict (estimate_against cm m (base\<lparr>rp_n_parallel := slots\<rparr>) b) = Safe"

lemma sorted_slots: "n < 2 ^ 32 \<Longrightarrow> sorted (map word_of_nat [1..<Suc n] :: u32 list)"
proof (induction n)
  case (Suc n)
  then have "sorted (map word_of_nat [1..<Suc n] :: u32 list)" by simp
  moreover have "(word_of_nat i :: u32) \<le> word_of_nat (Suc n)" if "i < Suc n" for i
    using that Suc.prems by (simp add: word_le_nat_alt unat_of_nat take_bit_eq_mod del: of_nat_Suc)
  ultimately show ?case by (auto simp: sorted_append simp del: of_nat_Suc)
qed simp

lemma slot_range: "set (map word_of_nat [1..<Suc (unat n)]) = {s :: u32. 1 \<le> s \<and> s \<le> n}"
proof -
  have "s \<in> set (map word_of_nat [1..<Suc (unat n)])" if "1 \<le> s" "s \<le> n" for s :: u32
  proof -
    have "s = word_of_nat (unat s)" "unat s \<in> set [1..<Suc (unat n)]" using that by (auto simp: word_le_nat_alt)
    then show ?thesis unfolding set_map by (rule image_eqI)
  qed
  moreover have "1 \<le> s \<and> s \<le> n" if member: "s \<in> set (map word_of_nat [1..<Suc (unat n)])" for s :: u32
  proof -
    obtain i where i: "s = word_of_nat i" "1 \<le> i" "i \<le> unat n" using member by auto
    then have "unat s = i" using unat_lt_two_power [of n] by (simp add: unat_of_nat take_bit_eq_mod)
    with i show ?thesis by (simp add: word_le_nat_alt)
  qed
  ultimately show ?thesis by blast
qed

text \<open>The number of slots: a requested number is taken as it is, and never zero. Otherwise it is the greatest
  number, from one to what the cores support, with which the load is safe, and one if none is; the stated source
  says whether memory took some away.\<close>

theorem concurrency_chosen:
  "let choice = choose_concurrency cm requested cores (Some m) base b;
       most = max (cores div 4) 1;
       good = {s. 1 \<le> s \<and> s \<le> most \<and> safe_with_slots cm m base b s} in
   1 \<le> cc_slots choice \<and>
   (case requested of
      Some slots \<Rightarrow> cc_slots choice = max slots 1 \<and> cc_source choice = Requested
    | None \<Rightarrow> cc_slots choice = (if good = {} then 1 else Max good) \<and> cc_slots choice \<le> most \<and>
        cc_source choice = (if cc_slots choice = most then Fitted else ReducedToFit))"
proof (cases requested)
  case None
  let ?most = "max (cores div 4) 1"
  let ?slots = "map word_of_nat [1..<Suc (unat ?most)] :: u32 list"
  let ?good = "{s. 1 \<le> s \<and> s \<le> ?most \<and> safe_with_slots cm m base b s}"
  have "sorted ?slots" using unat_lt_two_power [of ?most] by (intro sorted_slots) simp
  from find_rev_Max [OF this, of "safe_with_slots cm m base b"]
  have found: "find (safe_with_slots cm m base b) (rev ?slots) = (if ?good = {} then None else Some (Max ?good))"
    unfolding slot_range mem_Collect_eq Let_def by (simp only: conj_assoc)
  have eq: "choose_concurrency cm None cores (Some m) base b =
    (case find (safe_with_slots cm m base b) (rev ?slots) of
       Some slots \<Rightarrow> \<lparr>cc_slots = slots, cc_source = (if slots = ?most then Fitted else ReducedToFit), cc_cores = cores\<rparr>
     | None \<Rightarrow> \<lparr>cc_slots = 1, cc_source = (if ?most = 1 then Fitted else ReducedToFit), cc_cores = cores\<rparr>)"
    by (simp add: choose_concurrency_def CORES_PER_SLOT_def Let_def rev_map safe_with_slots_def [abs_def] del: upt_Suc)
  have most: "1 \<le> ?most" by (rule max.cobounded2)
  have "Max ?good \<in> ?good" if "?good \<noteq> {}" using that by (intro Max_in) simp_all
  then have good: "1 \<le> Max ?good \<and> Max ?good \<le> ?most" if "?good \<noteq> {}" using that by blast
  show ?thesis
  proof (cases "?good = {}")
    case True
    show ?thesis unfolding None eq found Let_def True using most
      by (simp only: option.case concurrency_choice.select_convs if_True simp_thms order_refl eq_commute [of 1])
  next
    case False
    show ?thesis unfolding None eq found Let_def if_not_P [OF False] using good [OF False]
      by (simp only: option.case concurrency_choice.select_convs simp_thms)
  qed
qed (simp add: choose_concurrency_def Let_def)

section \<open>Compute buffers and margin in numbers\<close>

text \<open>With the shipped coefficients the compute buffers are an exact count of bytes.\<close>

lemma compute_bytes_exact:
  fixes m p
  defines "ub \<equiv> max (unat (rp_n_ubatch p)) 1" and "vocab \<equiv> unat (the (md_vocab_size m))"
    and "emb \<equiv> unat (the (md_embedding_length m))" and "ffn \<equiv> unat (the (md_feed_forward_length m))"
  assumes "cm_activation_factor cm = F64_EIGHT" "cm_scratch_factor cm = F64_FOUR"
    and "md_vocab_size m \<noteq> None" "md_embedding_length m \<noteq> None" "md_feed_forward_length m \<noteq> None" "0 < emb"
    and "max vocab (max emb ffn) * ub < 2 ^ 46"
  shows "unat (fst (compute_bytes cm m p [])) = ub * 4 * (vocab + 8 * emb + 4 * max emb ffn)
    \<and> snd (compute_bytes cm m p []) = []"
proof -
  obtain v e f where m: "md_vocab_size m = Some v" "md_embedding_length m = Some e" "md_feed_forward_length m = Some f"
    using assms by auto
  have n: "vocab = unat v" "emb = unat e" "ffn = unat f" by (simp_all add: m vocab_def emb_def ffn_def)
  let ?u = "f64_of_u64 (ucast (max (rp_n_ubatch p) 1))" and ?e = "f64_of_u64 e" and ?f = "f64_of_u64 f"
  have ub: "unat (ucast (max (rp_n_ubatch p) 1) :: u64) = ub" "ub < 2 ^ 32" "1 \<le> ub"
    using unat_lt_two_power [of "max (rp_n_ubatch p) 1"] by (auto simp: unat_ucast_up unat_max ub_def)
  have below: "d * ub < 2 ^ 46 \<and> ub * d < 2 ^ 46 \<and> d < 2 ^ 46" if "d \<le> max vocab (max emb ffn)" for d
  proof -
    have "d * ub \<le> max vocab (max emb ffn) * ub" using that by (rule mult_le_mono1)
    moreover have "d * 1 \<le> d * ub" using ub(3) by (rule mult_le_mono2)
    ultimately show ?thesis using assms(11) unfolding mult.commute [of ub d] by linarith
  qed
  have small: "vocab * ub < 2 ^ 46" "emb * ub < 2 ^ 46" "max emb ffn * ub < 2 ^ 46"
    "ub * vocab < 2 ^ 46" "ub * emb < 2 ^ 46" "ub * max emb ffn < 2 ^ 46"
    and sizes: "vocab < 2 ^ 46" "emb < 2 ^ 46" "ffn < 2 ^ 46"
    using below [of vocab] below [of emb] below [of ffn] below [of "max emb ffn"] by simp_all
  have u: "exactly ?u ub 0" using exactly_of_u64 [of "ucast (max (rp_n_ubatch p) 1)"] ub by simp
  have e: "exactly ?e emb 0" "exactly ?f ffn 0" "exactly (f64_of_u64 v) vocab 0"
    using exactly_of_u64 [of e] exactly_of_u64 [of f] exactly_of_u64 [of v] sizes unfolding n by simp_all
  have logits: "exactly (f64_mul (f64_mul (f64_of_u64 v) ?u) F64_FOUR) (vocab * ub * 4) (0 + 0 + 0)"
    using e u exactly_constants small by (intro exactly_mul) simp_all
  have acts: "exactly (f64_mul (f64_mul (f64_mul F64_EIGHT ?u) ?e) F64_FOUR) (8 * ub * emb * 4) (0 + 0 + 0 + 0)"
    using e u exactly_constants small ub by (intro exactly_mul) simp_all
  have "exactly (f64_max ?e ?f) (max emb ffn) 0" using e by (intro exactly_max)
  then have scratch: "exactly (f64_mul (f64_mul (f64_mul F64_FOUR ?u) (f64_max ?e ?f)) F64_FOUR) (4 * ub * max emb ffn * 4) (0 + 0 + 0 + 0)"
    using u exactly_constants small ub by (intro exactly_mul) simp_all
  let ?n = "vocab * ub * 4 + 8 * ub * emb * 4 + 4 * ub * max emb ffn * 4"
  have n: "?n < 2 ^ 53" using small by simp
  then have "exactly (f64_add (f64_add (f64_mul (f64_mul (f64_of_u64 v) ?u) F64_FOUR)
      (f64_mul (f64_mul (f64_mul F64_EIGHT ?u) ?e) F64_FOUR))
      (f64_mul (f64_mul (f64_mul F64_FOUR ?u) (f64_max ?e ?f)) F64_FOUR)) ?n 0"
    using logits acts scratch by (intro exactly_add) simp_all
  then have "exactly (f64_max (f64_add (f64_add (f64_mul (f64_mul (f64_of_u64 v) ?u) F64_FOUR)
      (f64_mul (f64_mul (f64_mul F64_EIGHT ?u) ?e) F64_FOUR))
      (f64_mul (f64_mul (f64_mul F64_FOUR ?u) (f64_max ?e ?f)) F64_FOUR)) 0) (max ?n 0) 0"
    using exactly_0 by (rule exactly_max)
  then have "unat (f64_to_u64 (f64_max (f64_add (f64_add (f64_mul (f64_mul (f64_of_u64 v) ?u) F64_FOUR)
      (f64_mul (f64_mul (f64_mul F64_EIGHT ?u) ?e) F64_FOUR))
      (f64_mul (f64_mul (f64_mul F64_FOUR ?u) (f64_max ?e ?f)) F64_FOUR)) 0)) = ?n"
    using n exactly_to_u64 by fastforce
  moreover have "?n = ub * 4 * (vocab + 8 * emb + 4 * max emb ffn)" by (simp add: algebra_simps)
  moreover have "\<not> f64_eq ?e 0" using exactly_eq_0 [OF e(1)] assms(10) by simp
  ultimately show ?thesis by (simp add: compute_bytes_def Let_def m assms(5,6))
qed

text \<open>Up to three gibibytes the margin is the fixed one.\<close>

lemma margin_floor:
  assumes "unat b \<le> 3 * 2 ^ 30"
  shows "margin_for b = MIN_MARGIN"
proof -
  define v where "v = f64_units (f64_mag MARGIN_FRACTION)"
  let ?x = "f64_mul (f64_of_u64 b) MARGIN_FRACTION" and ?u = "f64_units (f64_mag (f64_of_u64 b))"
  have fr: "is_finite MARGIN_FRACTION" "\<not> is_nan MARGIN_FRACTION" "\<not> f64_neg MARGIN_FRACTION" "6 * v \<le> 2 ^ 1074"
    by (simp_all add: v_def MARGIN_FRACTION_def is_finite_def is_nan_def f64_mag_def f64_neg_def f64_units_def F64_INF_def)
  have b: "exactly (f64_of_u64 b) (unat b) 0" using assms by (intro exactly_of_u64) simp
  then have u: "?u = unat b * 2 ^ 1074" by (simp add: exactly_def)
  have x: "?x = f64_pack False (f64_round (?u * v) (2 ^ 2148))"
    using exactly_finite [OF b] fr by (simp add: f64_mul_def v_def)
  have "unat b * v \<le> 3 * 2 ^ 30 * v" using assms by (rule mult_le_mono1)
  also have "\<dots> = 2 ^ 29 * (6 * v)" by simp
  also have "\<dots> \<le> 2 ^ 29 * 2 ^ 1074" using fr(4) by (rule mult_le_mono2)
  finally have "(unat b * v) * 2 ^ 1074 \<le> (2 ^ 29 * 2 ^ 1074) * 2 ^ 1074" by (rule mult_le_mono1)
  then have le: "?u * v * 1 \<le> 2 ^ 29 * 2 ^ (1074 + 1074)" unfolding u by (simp only: power_add ac_simps mult_1_right)
  obtain k where k: "k < F64_INF" "f64_units k * 2 ^ 0 = 2 ^ 29 * 2 ^ 1074" using representable [of "2 ^ 29" 0] by auto
  have "f64_round (?u * v) (2 ^ (1074 + 1074)) \<le> f64_round (2 ^ 29) 1" using le by (rule f64_round_mono) simp_all
  also have "f64_round (2 ^ 29) 1 = k" using k by (intro f64_round_exact) simp_all
  finally have mag: "f64_mag ?x \<le> k" unfolding x using k(1) by simp
  then have "f64_units (f64_mag ?x) \<le> 2 ^ 29 * 2 ^ 1074" using f64_units_le_iff [of "f64_mag ?x" k] k(2) by simp
  then have "f64_units (f64_mag ?x) div 2 ^ 1074 \<le> 2 ^ 29" by (simp add: div_le_mono [of _ "2 ^ 29 * 2 ^ 1074" "2 ^ 1074"] order_trans [OF div_le_mono])
  moreover have "is_finite ?x" "\<not> f64_neg ?x" "\<not> is_nan ?x"
    using mag k(1) f64_round_le_INF [of "?u * v" "2 ^ 2148"] by (simp_all add: is_finite_def x)
  ultimately have "unat (f64_to_u64 ?x) \<le> 2 ^ 29"
    by (auto simp: f64_to_u64_def unat_of_nat take_bit_eq_mod)
  then show ?thesis by (simp add: margin_for_def MIN_MARGIN_def word_less_nat_alt)
qed

section \<open>A concrete load\<close>

text \<open>Two layers, two key-value heads of 64 elements, 256 MiB of weights, on a machine with 3 GiB free.\<close>

definition two_layers :: model_metadata where
  "two_layers =
    \<lparr>md_architecture = bytes_of ''llama'', md_supported = True, md_name = None, md_context_length = Some 131072,
     md_block_count = Some 2, md_embedding_length = Some 512, md_feed_forward_length = Some 2048, md_head_count = Some 8,
     md_head_count_kv = Some [2], md_key_length = None, md_value_length = None, md_sliding_window = None,
     md_rope_freq_base = None, md_vocab_size = Some 32000,
     md_tokenizer = \<lparr>tk_model = None, tk_pre = None, tk_bos_token_id = None, tk_eos_token_id = None,
       tk_eot_token_id = None, tk_padding_token_id = None, tk_add_bos_token = None, tk_add_eos_token = None,
       tk_token_count = None, tk_has_chat_template = False, tk_chat_template_len = None\<rparr>,
     md_file_type = None, md_quantization = \<lparr>qm_dominant = None, qm_by_type = []\<rparr>, md_tensor_count = 0,
     md_param_count = Some 0, md_weight_bytes = Some 268435456, md_gguf_version = 3, md_alignment = 32, md_missing = []\<rparr>"

definition three_gib :: budget where
  "three_gib = budget_of \<lparr>ms_total = 8589934592, ms_available = 3221225472, ms_free = 0, ms_swap_total = 0, ms_swap_free = 0\<rparr>"

lemma two_layers_dims: "head_dim_k two_layers = Some 64" "head_dim_v two_layers = Some 64"
  "kv_heads_for_layer two_layers l = Some 2" "heads_at two_layers i = 2"
  by (simp_all add: two_layers_def head_dim_k_def head_dim_v_def or_else_def checked_div_def kv_heads_for_layer_def
      heads_at_def)

lemma two_layers_known: "kv_known two_layers default_params" "kv_small two_layers default_params"
  "kv_aligned two_layers default_params" "token_cost two_layers default_params = 262144"
  "md_weight_bytes two_layers \<noteq> None" "at_hand three_gib = 3221225472"
proof -
  have blocks: "md_block_count two_layers = Some 2" "md_head_count_kv two_layers \<noteq> None" by (simp_all add: two_layers_def)
  show "kv_known two_layers default_params" "kv_small two_layers default_params"
    "kv_aligned two_layers default_params" "token_cost two_layers default_params = 262144"
    using blocks
    by (simp_all add: kv_known_def kv_small_def kv_aligned_def token_cost_def token_units_def two_layers_dims slots_of_def
        default_params_def element_units_def)
  show "md_weight_bytes two_layers \<noteq> None" "at_hand three_gib = 3221225472"
    by (simp_all add: two_layers_def three_gib_def budget_of_def at_hand_def)
qed

lemma two_layers_compute:
  "unat (fst (compute_bytes default_compute_model two_layers default_params [])) = 90701824"
  using compute_bytes_exact [of default_compute_model two_layers default_params]
  by (simp add: default_compute_model_def F64_EIGHT_def F64_FOUR_def two_layers_def default_params_def)

lemma two_layers_needed:
  "kv_exact two_layers (with_context n default_params) = unat n * 1024"
  "needed default_compute_model two_layers (with_context n default_params) = 898105344 + unat n * 1024"
proof -
  show kv: "kv_exact two_layers (with_context n default_params) = unat n * 1024"
    using kv_exact_units [of two_layers "with_context n default_params"] two_layers_known by simp
  have "unat (cm_engine_baseline default_compute_model) = 67108864" "unat (cm_host_overhead default_compute_model) = 471859200"
    by (simp_all add: default_compute_model_def from_mib_def MIB_def KIB_def unat_sat_mul)
  then show "needed default_compute_model two_layers (with_context n default_params) = 898105344 + unat n * 1024"
    by (simp add: needed_def kv two_layers_compute) (simp add: two_layers_def)
qed

lemma three_gib_margin: "unat (spendable three_gib) = 3221225472" "margin_for (spendable three_gib) = MIN_MARGIN"
proof -
  show "unat (spendable three_gib) = 3221225472" using unat_spendable [of three_gib] two_layers_known by simp
  then show "margin_for (spendable three_gib) = MIN_MARGIN" by (intro margin_floor) simp
qed


lemma two_layers_suggestion:
  "es_max_context_that_fits (estimate_against default_compute_model two_layers default_params three_gib) = Some 131072"
proof -
  obtain kv where kv: "kv_cache_bytes two_layers default_params [] = (kv, [])"
    "unat (kv_bytes_per_token kv) = (token_cost two_layers default_params + 255) div 256"
    using kv_cache_bytes_exact [OF two_layers_known(1,2), of "[]"] two_layers_known(4) unfolding token_cost_def by auto
  then have per: "kv_bytes_per_token kv = 1024" using two_layers_known(4) by (simp add: word_unat_eq_iff)
  obtain c missing where c: "compute_bytes default_compute_model two_layers default_params [] = (c, missing)" by fastforce
  then have c': "c = 90701824" using two_layers_compute by (simp add: word_unat_eq_iff)
  have spend: "spendable three_gib = 3221225472" using three_gib_margin(1) by (simp add: word_unat_eq_iff)
  have m: "md_weight_bytes two_layers = Some 268435456" "md_context_length two_layers = Some 131072"
    by (simp_all add: two_layers_def)
  have "sat_add (cm_engine_baseline default_compute_model) (cm_host_overhead default_compute_model) = 538968064"
    by (simp add: default_compute_model_def from_mib_def MIB_def KIB_def sat_mul_def sat_add_def)
  then show ?thesis
    by (simp add: estimate_against_def Let_def kv c c' spend three_gib_margin(2) [unfolded spend] m per MIN_MARGIN_def)
      (simp add: solve_max_context_def checked_div_def sat_add_def u32_or_max_def MIN_USEFUL_CONTEXT_def)
qed


section \<open>Facts that are missing\<close>

lemma unsized_weight:
  assumes "t \<in> set (gf_tensors f)" "\<not> is_known (ti_ggml_type t)"
  shows "weight_bytes f = None"
proof -
  have "byte_size t = None"
    using assms(2) bytes_for_elements_None_iff by (cases "elements t") (simp_all add: byte_size_def)
  with assms(1) sum_checked_SomeD [of byte_size 0 "gf_tensors f"] show ?thesis
    unfolding weight_bytes_def by (metis option.exhaust)
qed

lemma compute_bytes_keeps: "set missing \<subseteq> set (snd (compute_bytes cm m p missing))"
  by (auto simp: compute_bytes_def Let_def split: option.splits)

lemma kv_cache_bytes_keeps: "set missing \<subseteq> set (snd (kv_cache_bytes m p missing))"
  by (auto simp: kv_cache_bytes_def split: option.splits sum.splits)



section \<open>Where the figures are not exact\<close>

text \<open>A file that claims \<open>2 ^ 40\<close> key-value heads of 2048 elements: the elements of one layer still fit 64 bits, their
  bytes do not, and the product of blocks and block size wraps to nothing.\<close>

definition many_heads :: model_metadata where
  "many_heads = two_layers\<lparr>md_block_count := Some 1, md_head_count_kv := Some [2 ^ 40],
     md_key_length := Some 2048, md_value_length := Some 2048\<rparr>"


text \<open>A model without a vocabulary size is called complete for estimation, and its estimate is partial.\<close>

theorem complete_yet_partial:
  "is_complete_for_estimation (two_layers\<lparr>md_vocab_size := None\<rparr>) \<and>
   es_confidence (estimate_against cm (two_layers\<lparr>md_vocab_size := None\<rparr>) p b) = Partial"
proof -
  have "snd (compute_bytes cm (two_layers\<lparr>md_vocab_size := None\<rparr>) p missing) \<noteq> []" for missing
    by (simp add: compute_bytes_def Let_def)
  then show ?thesis
    by (simp add: is_complete_for_estimation_def estimate_against_def Let_def case_prod_beta)
      (simp add: two_layers_def head_dim_k_def head_dim_v_def or_else_def checked_div_def)
qed

end
