(* ===== verification/Lw_Text.thy ===== *)
theory Lw_Text
  imports Lw_Prelude "HOL-Library.Code_Target_Nat"
begin

text \<open>
  Text of the standard library: a Rust string is the list of its Unicode scalar values, type \<open>ustr\<close>;
  \<open>ascii\<close> reads an ASCII literal. White space and control characters are the sets the standard library
  uses. UTF-8: the encoding, the strict decoder \<open>str::from_utf8\<close> and the lossy one
  \<open>String::from_utf8_lossy\<close>, which puts U+FFFD for every maximal ill-formed prefix of a character.
\<close>

type_synonym ustr = "nat list"

definition ascii :: "string \<Rightarrow> ustr" where
  "ascii s = map of_char s"

section \<open>Characters and trimming\<close>

definition is_whitespace :: "nat \<Rightarrow> bool" where
  "is_whitespace c \<longleftrightarrow>
     9 \<le> c \<and> c \<le> 13 \<or> c = 0x20 \<or> c = 0x85 \<or> c = 0xA0 \<or> c = 0x1680 \<or> 0x2000 \<le> c \<and> c \<le> 0x200A \<or>
     c = 0x2028 \<or> c = 0x2029 \<or> c = 0x202F \<or> c = 0x205F \<or> c = 0x3000"

definition is_control :: "nat \<Rightarrow> bool" where
  "is_control c \<longleftrightarrow> c \<le> 0x1F \<or> 0x7F \<le> c \<and> c \<le> 0x9F"

definition is_ascii_alphanumeric :: "nat \<Rightarrow> bool" where
  "is_ascii_alphanumeric c \<longleftrightarrow> 48 \<le> c \<and> c \<le> 57 \<or> 65 \<le> c \<and> c \<le> 90 \<or> 97 \<le> c \<and> c \<le> 122"

definition to_ascii_lowercase :: "nat \<Rightarrow> nat" where
  "to_ascii_lowercase c = (if 65 \<le> c \<and> c \<le> 90 then c + 32 else c)"

definition trim :: "ustr \<Rightarrow> ustr" where
  "trim s = rev (dropWhile is_whitespace (rev (dropWhile is_whitespace s)))"

definition text_eq_ignore_ascii_case :: "ustr \<Rightarrow> ustr \<Rightarrow> bool" where
  "text_eq_ignore_ascii_case a b \<longleftrightarrow> map to_ascii_lowercase a = map to_ascii_lowercase b"

lemma dropWhile_idem: "dropWhile P (dropWhile P xs) = dropWhile P xs"
  by (induction xs) auto

lemma dropWhile_hd: "xs = [] \<or> \<not> P (hd xs) \<Longrightarrow> dropWhile P xs = xs"
  by (cases xs) auto

lemma trim_idem [simp]: "trim (trim s) = trim s"
proof -
  let ?a = "dropWhile is_whitespace s"
  let ?b = "dropWhile is_whitespace (rev ?a)"
  have "dropWhile is_whitespace (rev ?b) = rev ?b"
  proof (cases "?b = []")
    case False
    obtain p where p: "rev ?a = p @ ?b" by (metis takeWhile_dropWhile_id)
    then have a: "?a = rev ?b @ rev p" by (metis rev_append rev_rev_ident)
    then have "hd ?a = hd (rev ?b)" using False by (metis hd_append2 rev_is_Nil_conv)
    moreover have "?a \<noteq> []" using a False by (metis append_is_Nil_conv rev_is_Nil_conv)
    then have "\<not> is_whitespace (hd ?a)" by (rule hd_dropWhile)
    ultimately show ?thesis by (intro dropWhile_hd) simp
  qed (simp only: rev.simps dropWhile.simps)
  then show ?thesis by (simp add: trim_def dropWhile_idem)
qed

section \<open>Searching and splitting\<close>

text \<open>\<open>str::find\<close> and the position in \<open>windows\<close>: the first index at which the pattern stands.\<close>

fun find_sub :: "'a list \<Rightarrow> 'a list \<Rightarrow> nat option" where
  "find_sub pat [] = (if pat = [] then Some 0 else None)"
| "find_sub pat (x # xs) =
    (if take (length pat) (x # xs) = pat then Some 0 else map_option Suc (find_sub pat xs))"

text \<open>\<open>str::split\<close> with a set of separators: one more piece than there are separators.\<close>

fun split_on :: "('a \<Rightarrow> bool) \<Rightarrow> 'a list \<Rightarrow> 'a list list" where
  "split_on sep [] = [[]]"
| "split_on sep (x # xs) =
    (if sep x then [] # split_on sep xs
     else (case split_on sep xs of [] \<Rightarrow> [[x]] | piece # pieces \<Rightarrow> (x # piece) # pieces))"

text \<open>\<open>str::split_once\<close>.\<close>

fun split_once :: "'a \<Rightarrow> 'a list \<Rightarrow> ('a list \<times> 'a list) option" where
  "split_once sep [] = None"
| "split_once sep (x # xs) =
    (if x = sep then Some ([], xs)
     else map_option (\<lambda>(a, b). (x # a, b)) (split_once sep xs))"

text \<open>\<open>str::strip_prefix\<close>, and \<open>join\<close> with a one-character separator.\<close>

definition strip_prefix :: "'a list \<Rightarrow> 'a list \<Rightarrow> 'a list option" where
  "strip_prefix pre s = (if take (length pre) s = pre then Some (drop (length pre) s) else None)"

fun join :: "'a \<Rightarrow> 'a list list \<Rightarrow> 'a list" where
  "join sep [] = []"
| "join sep [piece] = piece"
| "join sep (piece # pieces) = piece @ sep # join sep pieces"

lemma strip_prefix_Some: "strip_prefix pre s = Some r \<longleftrightarrow> s = pre @ r"
  by (auto simp: strip_prefix_def) (metis append_take_drop_id)

lemma split_once_Some: "split_once c l = Some (f, v) \<longleftrightarrow> l = f @ c # v \<and> c \<notin> set f"
proof (induction l arbitrary: f)
  case (Cons x l)
  show ?case by (cases f) (auto simp: Cons.IH)
qed simp

lemma split_on_not_Nil [simp]: "split_on sep xs \<noteq> []"
  by (induction xs) (auto split: list.splits)

lemma split_on_free: "piece \<in> set (split_on sep xs) \<Longrightarrow> x \<in> set piece \<Longrightarrow> \<not> sep x"
  by (induction xs arbitrary: piece) (fastforce split: if_splits list.splits)+

lemma split_on_subset: "piece \<in> set (split_on sep xs) \<Longrightarrow> set piece \<subseteq> set xs"
  by (induction xs arbitrary: piece) (fastforce split: if_splits list.splits)+

lemma split_on_append_sep: "sep c \<Longrightarrow> split_on sep (xs @ c # ys) = split_on sep xs @ split_on sep ys"
  by (induction xs) (auto split: list.splits)

lemma split_on_none: "\<forall>x \<in> set xs. \<not> sep x \<Longrightarrow> split_on sep xs = [xs]"
  by (induction xs) auto

lemma join_split_on: "join c (split_on (\<lambda>x. x = c) xs) = xs"
proof (induction xs)
  case (Cons x xs)
  then show ?case
    by (cases "split_on (\<lambda>x. x = c) xs"; cases "tl (split_on (\<lambda>x. x = c) xs)") auto
qed simp

section \<open>UTF-8\<close>

definition utf8_width :: "nat \<Rightarrow> nat" where
  "utf8_width c = (if c < 0x80 then 1 else if c < 0x800 then 2 else if c < 0x10000 then 3 else 4)"

definition is_scalar :: "nat \<Rightarrow> bool" where
  "is_scalar c \<longleftrightarrow> c < 0xD800 \<or> 0xE000 \<le> c \<and> c < 0x110000"

definition utf8_bytes :: "nat \<Rightarrow> nat list" where
  "utf8_bytes c =
    (if c < 0x80 then [c]
     else if c < 0x800 then [0xC0 + c div 64, 0x80 + c mod 64]
     else if c < 0x10000 then [0xE0 + c div 4096, 0x80 + c div 64 mod 64, 0x80 + c mod 64]
     else [0xF0 + c div 262144, 0x80 + c div 4096 mod 64, 0x80 + c div 64 mod 64, 0x80 + c mod 64])"

definition utf8_encode :: "ustr \<Rightarrow> u8 list" where
  "utf8_encode s = concat (map (\<lambda>c. map word_of_nat (utf8_bytes c)) s)"

definition byte_at :: "u8 list \<Rightarrow> nat \<Rightarrow> nat" where
  "byte_at bs i = (if i < length bs then unat (bs ! i) else 0)"

definition is_cont :: "nat \<Rightarrow> bool" where
  "is_cont b \<longleftrightarrow> 0x80 \<le> b \<and> b < 0xC0"

text \<open>One step of the decoder on a non-empty input: the character and the number of its bytes, or how many
  bytes the ill-formed prefix has.\<close>

definition utf8_step :: "u8 list \<Rightarrow> nat + nat \<times> nat" where
  "utf8_step bs =
    (let b0 = byte_at bs 0; b1 = byte_at bs 1; b2 = byte_at bs 2; b3 = byte_at bs 3
     in if b0 < 0x80 then Inr (b0, 1)
        else if 0xC2 \<le> b0 \<and> b0 < 0xE0
        then if is_cont b1 then Inr ((b0 - 0xC0) * 64 + (b1 - 0x80), 2) else Inl 1
        else if 0xE0 \<le> b0 \<and> b0 < 0xF0
        then if \<not> is_cont b1 \<or> b0 = 0xE0 \<and> b1 < 0xA0 \<or> b0 = 0xED \<and> 0xA0 \<le> b1 then Inl 1
             else if \<not> is_cont b2 then Inl 2
             else Inr ((b0 - 0xE0) * 4096 + (b1 - 0x80) * 64 + (b2 - 0x80), 3)
        else if 0xF0 \<le> b0 \<and> b0 < 0xF5
        then if \<not> is_cont b1 \<or> b0 = 0xF0 \<and> b1 < 0x90 \<or> b0 = 0xF4 \<and> 0x90 \<le> b1 then Inl 1
             else if \<not> is_cont b2 then Inl 2
             else if \<not> is_cont b3 then Inl 3
             else Inr ((b0 - 0xF0) * 262144 + (b1 - 0x80) * 4096 + (b2 - 0x80) * 64 + (b3 - 0x80), 4)
        else Inl 1)"

lemma utf8_step_progress:
  "utf8_step bs = Inl n \<Longrightarrow> 0 < n"
  "utf8_step bs = Inr (c, n) \<Longrightarrow> 0 < n"
  by (auto simp: utf8_step_def Let_def split: if_splits)

function utf8_lossy :: "u8 list \<Rightarrow> ustr" where
  "utf8_lossy bs =
    (if bs = [] then []
     else (case utf8_step bs of
             Inl n \<Rightarrow> 0xFFFD # utf8_lossy (drop n bs)
           | Inr (c, n) \<Rightarrow> c # utf8_lossy (drop n bs)))"
  by pat_completeness auto
termination
  by (relation "measure length") (auto dest: utf8_step_progress)

function utf8_decode :: "u8 list \<Rightarrow> ustr option" where
  "utf8_decode bs =
    (if bs = [] then Some []
     else (case utf8_step bs of
             Inl n \<Rightarrow> None
           | Inr (c, n) \<Rightarrow> map_option (\<lambda>s. c # s) (utf8_decode (drop n bs))))"
  by pat_completeness auto
termination
  by (relation "measure length") (auto dest: utf8_step_progress)

declare utf8_lossy.simps [simp del] utf8_decode.simps [simp del]

lemma utf8_bytes_range: "b \<in> set (utf8_bytes c) \<Longrightarrow> c < 0x110000 \<Longrightarrow> b < 256"
  by (auto simp: utf8_bytes_def split: if_splits)

lemma length_utf8_bytes: "length (utf8_bytes c) = utf8_width c"
  by (simp add: utf8_bytes_def utf8_width_def)

lemma utf8_step_three:
  assumes "byte_at bs 0 = 0xE0 + x" "byte_at bs 1 = 0x80 + y" "byte_at bs 2 = 0x80 + z"
    and "x < 16" "y < 64" "z < 64" "x = 0 \<Longrightarrow> 32 \<le> y" "x = 13 \<Longrightarrow> y < 32"
  shows "utf8_step bs = Inr (x * 4096 + y * 64 + z, 3)"
proof -
  have "\<not> (x = 0 \<and> y < 32)" "\<not> (x = 13 \<and> 32 \<le> y)" using assms(7,8) by linarith+
  with assms(1-6) show ?thesis by (simp add: utf8_step_def Let_def is_cont_def)
qed

lemma utf8_step_four:
  assumes "byte_at bs 0 = 0xF0 + w" "byte_at bs 1 = 0x80 + x" "byte_at bs 2 = 0x80 + y"
    "byte_at bs 3 = 0x80 + z"
    and "w < 5" "x < 64" "y < 64" "z < 64" "w = 0 \<Longrightarrow> 16 \<le> x" "w = 4 \<Longrightarrow> x < 16"
  shows "utf8_step bs = Inr (w * 262144 + x * 4096 + y * 64 + z, 4)"
proof -
  have "\<not> (w = 0 \<and> x < 16)" "\<not> (w = 4 \<and> 16 \<le> x)" using assms(9,10) by linarith+
  with assms(1-8) show ?thesis by (simp add: utf8_step_def Let_def is_cont_def)
qed

lemma utf8_digits:
  "c = c div 64 * 64 + c mod 64"
  "c div 64 = c div 4096 * 64 + c div 64 mod 64" "c div 64 mod 64 < 64" "c mod 64 < 64"
  "c div 4096 = c div 262144 * 64 + c div 4096 mod 64" "c div 4096 mod 64 < 64" for c :: nat
proof -
  have "c div 4096 = c div 64 div 64" "c div 262144 = c div 4096 div 64"
    by (simp_all flip: div_mult2_eq)
  then show "c div 64 = c div 4096 * 64 + c div 64 mod 64"
    "c div 4096 = c div 262144 * 64 + c div 4096 mod 64"
    by simp_all
qed simp_all

lemma utf8_step_encoded:
  assumes "is_scalar c"
  shows "utf8_step (map word_of_nat (utf8_bytes c) @ bs) = Inr (c, length (utf8_bytes c))"
proof -
  have small: "c < 0x110000" using assms by (auto simp: is_scalar_def)
  have at: "byte_at (map word_of_nat (utf8_bytes c) @ bs) i = utf8_bytes c ! i"
    if "i < length (utf8_bytes c)" for i
  proof -
    have "utf8_bytes c ! i < 256" using utf8_bytes_range [OF _ small] that by auto
    then have "unat (word_of_nat (utf8_bytes c ! i) :: u8) = utf8_bytes c ! i"
      by (simp add: unat_of_nat take_bit_eq_mod)
    then show ?thesis using that by (simp add: byte_at_def nth_append)
  qed
  let ?bytes = "map word_of_nat (utf8_bytes c) @ bs"
  consider "c < 0x80" | "0x80 \<le> c" "c < 0x800" | "0x800 \<le> c" "c < 0x10000" | "0x10000 \<le> c" by linarith
  then show ?thesis
  proof cases
    case 1
    then have "utf8_bytes c = [c]" by (simp add: utf8_bytes_def)
    with at [of 0] 1 show ?thesis by (simp add: utf8_step_def Let_def)
  next
    case 2
    then have b: "utf8_bytes c = [0xC0 + c div 64, 0x80 + c mod 64]" by (simp add: utf8_bytes_def)
    have "2 \<le> c div 64" "c div 64 < 32" using 2 by auto
    with at [of 0] at [of 1] b show ?thesis
      by (simp add: utf8_step_def Let_def is_cont_def)
  next
    case 3
    then have b: "utf8_bytes c = [0xE0 + c div 4096, 0x80 + c div 64 mod 64, 0x80 + c mod 64]"
      by (simp add: utf8_bytes_def)
    note digits = utf8_digits [of c]
    have len: "length (utf8_bytes c) = 3" by (simp add: b)
    have at': "byte_at ?bytes i = [0xE0 + c div 4096, 0x80 + c div 64 mod 64, 0x80 + c mod 64] ! i"
      if "i < 3" for i
      unfolding b [symmetric] by (rule at) (use that len in simp)
    have "c div 4096 < 16" using 3 by auto
    moreover have "32 \<le> c div 64 mod 64" if "c div 4096 = 0" using 3 digits(2) that by linarith
    moreover have "c div 64 mod 64 < 32" if "c div 4096 = 13"
      using assms 3 digits(1,2) that unfolding is_scalar_def by linarith
    moreover have "byte_at ?bytes 0 = 0xE0 + c div 4096" "byte_at ?bytes 1 = 0x80 + c div 64 mod 64"
      "byte_at ?bytes 2 = 0x80 + c mod 64"
      using at' [of 0] at' [of 1] at' [of 2] by (simp_all only:) simp_all
    ultimately have "utf8_step ?bytes = Inr (c div 4096 * 4096 + c div 64 mod 64 * 64 + c mod 64, 3)"
      by (intro utf8_step_three digits(3,4))
    moreover have "c div 4096 * 4096 + c div 64 mod 64 * 64 + c mod 64 = c" using digits(1,2) by linarith
    ultimately show ?thesis by (simp add: b)
  next
    case 4
    then have b: "utf8_bytes c = [0xF0 + c div 262144, 0x80 + c div 4096 mod 64,
        0x80 + c div 64 mod 64, 0x80 + c mod 64]" by (simp add: utf8_bytes_def)
    note digits = utf8_digits [of c]
    have len: "length (utf8_bytes c) = 4" by (simp add: b)
    have at': "byte_at ?bytes i = [0xF0 + c div 262144, 0x80 + c div 4096 mod 64,
        0x80 + c div 64 mod 64, 0x80 + c mod 64] ! i" if "i < 4" for i
      unfolding b [symmetric] by (rule at) (use that len in simp)
    have "c div 262144 < 5" using small by auto
    moreover have "16 \<le> c div 4096 mod 64" if "c div 262144 = 0" using 4 digits that by linarith
    moreover have "c div 4096 mod 64 < 16" if "c div 262144 = 4" using small digits that by linarith
    moreover have "byte_at ?bytes 0 = 0xF0 + c div 262144" "byte_at ?bytes 1 = 0x80 + c div 4096 mod 64"
      "byte_at ?bytes 2 = 0x80 + c div 64 mod 64" "byte_at ?bytes 3 = 0x80 + c mod 64"
      using at' [of 0] at' [of 1] at' [of 2] at' [of 3] by (simp_all only:) simp_all
    ultimately have "utf8_step ?bytes
        = Inr (c div 262144 * 262144 + c div 4096 mod 64 * 4096 + c div 64 mod 64 * 64 + c mod 64, 4)"
      by (intro utf8_step_four digits(3,4,6))
    moreover have "c div 262144 * 262144 + c div 4096 mod 64 * 4096 + c div 64 mod 64 * 64 + c mod 64 = c"
      using digits by linarith
    ultimately show ?thesis by (simp add: b)
  qed
qed

lemma utf8_bytes_not_Nil [simp]: "utf8_bytes c \<noteq> []"
  by (simp add: utf8_bytes_def)

lemma utf8_lossy_encoded:
  "list_all is_scalar s \<Longrightarrow> utf8_lossy (utf8_encode s @ bs) = s @ utf8_lossy bs"
proof (induction s)
  case (Cons c s)
  have "utf8_lossy (utf8_encode (c # s) @ bs)
      = utf8_lossy (map word_of_nat (utf8_bytes c) @ (utf8_encode s @ bs))"
    by (simp add: utf8_encode_def)
  also have "\<dots> = c # utf8_lossy (utf8_encode s @ bs)"
    using Cons.prems utf8_step_encoded [of c "utf8_encode s @ bs"]
    by (subst utf8_lossy.simps) simp
  finally show ?case using Cons by simp
qed (simp add: utf8_encode_def)

lemma utf8_decode_encode: "list_all is_scalar s \<Longrightarrow> utf8_decode (utf8_encode s) = Some s"
proof (induction s)
  case (Cons c s)
  have "utf8_decode (utf8_encode (c # s)) = utf8_decode (map word_of_nat (utf8_bytes c) @ utf8_encode s)"
    by (simp add: utf8_encode_def)
  also have "\<dots> = map_option (\<lambda>s. c # s) (utf8_decode (utf8_encode s))"
    using Cons.prems utf8_step_encoded [of c "utf8_encode s"] by (subst utf8_decode.simps) simp
  finally show ?case using Cons by simp
qed (simp add: utf8_encode_def utf8_decode.simps)

lemma utf8_encode_append [simp]: "utf8_encode (s @ t) = utf8_encode s @ utf8_encode t"
  by (simp add: utf8_encode_def)


lemma scalar_three:
  "x < 16 \<Longrightarrow> y < 64 \<Longrightarrow> z < 64 \<Longrightarrow> (x = 13 \<Longrightarrow> y < 32) \<Longrightarrow> is_scalar (x * 4096 + y * 64 + z)"
  unfolding is_scalar_def by (cases "x < 13"; cases "x = 13") (linarith | presburger)+

lemma scalar_four:
  "w < 5 \<Longrightarrow> x < 64 \<Longrightarrow> y < 64 \<Longrightarrow> z < 64 \<Longrightarrow> (w = 0 \<Longrightarrow> 16 \<le> x) \<Longrightarrow> (w = 4 \<Longrightarrow> x < 16) \<Longrightarrow>
    is_scalar (w * 262144 + x * 4096 + y * 64 + z)"
  unfolding is_scalar_def by (cases "w = 0"; cases "w = 4") (linarith | presburger)+

lemma utf8_step_scalar: "utf8_step bs = Inr (c, n) \<Longrightarrow> is_scalar c"
proof -
  define b0 b1 b2 b3 where b: "b0 = byte_at bs 0" "b1 = byte_at bs 1" "b2 = byte_at bs 2" "b3 = byte_at bs 3"
  assume "utf8_step bs = Inr (c, n)"
  then consider "c < 0x800"
    | "224 \<le> b0" "b0 < 240" "is_cont b1" "is_cont b2" "b0 = 237 \<Longrightarrow> b1 < 160"
      "c = (b0 - 224) * 4096 + (b1 - 128) * 64 + (b2 - 128)"
    | "240 \<le> b0" "b0 < 245" "is_cont b1" "is_cont b2" "is_cont b3" "b0 = 240 \<Longrightarrow> 144 \<le> b1" "b0 = 244 \<Longrightarrow> b1 < 144"
      "c = (b0 - 240) * 262144 + (b1 - 128) * 4096 + (b2 - 128) * 64 + (b3 - 128)"
    unfolding utf8_step_def Let_def b [symmetric]
    by (auto simp: is_cont_def not_less not_le split: if_splits)
  then show ?thesis
  proof cases
    case 1
    then show ?thesis by (simp add: is_scalar_def)
  next
    case 2
    have "b0 - 224 < 16" "b1 - 128 < 64" "b2 - 128 < 64"
      using 2(1-4) unfolding is_cont_def by linarith+
    moreover have "b1 - 128 < 32" if "b0 - 224 = 13"
    proof -
      from that have "b0 = 237" by linarith
      from 2(5) [OF this] show ?thesis by linarith
    qed
    ultimately show ?thesis unfolding 2(6) by (rule scalar_three)
  next
    case 3
    have "b0 - 240 < 5" "b1 - 128 < 64" "b2 - 128 < 64" "b3 - 128 < 64"
      using 3(1-5) unfolding is_cont_def by linarith+
    moreover have "16 \<le> b1 - 128" if "b0 - 240 = 0"
    proof -
      from that 3(1) have "b0 = 240" by linarith
      from 3(6) [OF this] show ?thesis by linarith
    qed
    moreover have "b1 - 128 < 16" if "b0 - 240 = 4"
    proof -
      from that have "b0 = 244" by linarith
      from 3(7) [OF this] show ?thesis by linarith
    qed
    ultimately show ?thesis unfolding 3(8) by (rule scalar_four)
  qed
qed

lemma utf8_decode_scalar: "utf8_decode bs = Some s \<Longrightarrow> list_all is_scalar s"
proof (induction bs arbitrary: s rule: utf8_decode.induct)
  case (1 bs)
  show ?case
  proof (cases "bs = []")
    case True
    with 1 show ?thesis by (simp add: utf8_decode.simps)
  next
    case False
    with "1.prems" obtain c n s' where st: "utf8_step bs = Inr (c, n)" "utf8_decode (drop n bs) = Some s'" "s = c # s'"
      by (subst (asm) utf8_decode.simps) (auto split: sum.splits prod.splits)
    from "1.IH" [OF False st(1) refl st(2)] utf8_step_scalar [OF st(1)] st(3) show ?thesis by simp
  qed
qed

end
