(* ===== verification/Lw_Net.thy ===== *)
theory Lw_Net
  imports Lw_Text
begin

text \<open>
  Addresses, as the standard library's \<open>core::net\<close> parser reads them: \<open>IpAddr\<close> and \<open>SocketAddr\<close>. Every reader takes
  the text that is left and gives the value and the text after it, or nothing, and then has read nothing.
\<close>

datatype ip_addr = V4 "nat list" | V6 "nat list"

record socket_addr =
  sa_ip :: ip_addr
  sa_scope :: nat
  sa_port :: nat

definition to_digit :: "nat \<Rightarrow> nat \<Rightarrow> nat option" where
  "to_digit radix c =
    (let d = (if 48 \<le> c \<and> c \<le> 57 then c - 48
              else if 97 \<le> c \<and> c \<le> 122 then c - 97 + 10
              else if 65 \<le> c \<and> c \<le> 90 then c - 65 + 10
              else radix)
     in if d < radix then Some d else None)"

definition read_number :: "nat \<Rightarrow> nat option \<Rightarrow> bool \<Rightarrow> nat \<Rightarrow> ustr \<Rightarrow> (nat \<times> ustr) option" where
  "read_number radix max_digits allow_zero_prefix bits s =
    (let digits = takeWhile (\<lambda>c. to_digit radix c \<noteq> None) s;
         num = foldl (\<lambda>n c. n * radix + the (to_digit radix c)) 0 digits
     in if digits = [] \<or> 2 ^ bits \<le> num \<or> (case max_digits of None \<Rightarrow> False | Some most \<Rightarrow> most < length digits)
           \<or> (\<not> allow_zero_prefix \<and> hd digits = 48 \<and> 1 < length digits)
        then None else Some (num, drop (length digits) s))"

definition read_given_char :: "nat \<Rightarrow> ustr \<Rightarrow> ustr option" where
  "read_given_char c s = (case s of x # rest \<Rightarrow> if x = c then Some rest else None | [] \<Rightarrow> None)"

definition read_separator :: "nat \<Rightarrow> nat \<Rightarrow> (ustr \<Rightarrow> ('a \<times> ustr) option) \<Rightarrow> ustr \<Rightarrow> ('a \<times> ustr) option" where
  "read_separator sep index inner s =
    (if index > 0 then Option.bind (read_given_char sep s) inner else inner s)"

fun read_octets :: "nat \<Rightarrow> nat \<Rightarrow> ustr \<Rightarrow> (nat list \<times> ustr) option" where
  "read_octets index 0 s = Some ([], s)"
| "read_octets index (Suc left) s =
    (case read_separator 46 index (read_number 10 (Some 3) False 8) s of
       None \<Rightarrow> None
     | Some (octet, s) \<Rightarrow> map_option (\<lambda>(octets, s). (octet # octets, s)) (read_octets (Suc index) left s))"

definition read_ipv4_addr :: "ustr \<Rightarrow> (nat list \<times> ustr) option" where
  "read_ipv4_addr s = read_octets 0 4 s"

text \<open>Groups of an IPv6 address, at most \<open>left\<close> of them; an IPv4 address may be the last two.\<close>

fun read_groups :: "nat \<Rightarrow> nat \<Rightarrow> ustr \<Rightarrow> nat list \<times> bool \<times> ustr" where
  "read_groups index 0 s = ([], False, s)"
| "read_groups index (Suc left) s =
    (case (if left > 0 then read_separator 58 index read_ipv4_addr s else None) of
       Some (octets, s) \<Rightarrow> ([octets ! 0 * 256 + octets ! 1, octets ! 2 * 256 + octets ! 3], True, s)
     | None \<Rightarrow>
         (case read_separator 58 index (read_number 16 (Some 4) True 16) s of
            None \<Rightarrow> ([], False, s)
          | Some (word, s) \<Rightarrow>
              let (groups, v4, s) = read_groups (Suc index) left s in (word # groups, v4, s)))"

definition read_ipv6_addr :: "ustr \<Rightarrow> (nat list \<times> ustr) option" where
  "read_ipv6_addr s =
    (let (front, v4, s) = read_groups 0 8 s
     in if length front = 8 then Some (front, s)
        else if v4 then None
        else Option.bind (read_given_char 58 s) (\<lambda>s. Option.bind (read_given_char 58 s) (\<lambda>s.
          let (rear, _, s) = read_groups 0 (8 - (length front + 1)) s
          in Some (front @ replicate (8 - length front - length rear) 0 @ rear, s))))"

definition read_ip_addr :: "ustr \<Rightarrow> (ip_addr \<times> ustr) option" where
  "read_ip_addr s =
    (case read_ipv4_addr s of
       Some (octets, s) \<Rightarrow> Some (V4 octets, s)
     | None \<Rightarrow> map_option (\<lambda>(groups, s). (V6 groups, s)) (read_ipv6_addr s))"

definition read_port :: "ustr \<Rightarrow> (nat \<times> ustr) option" where
  "read_port s = Option.bind (read_given_char 58 s) (read_number 10 None True 16)"

definition read_socket_addr_v4 :: "ustr \<Rightarrow> (socket_addr \<times> ustr) option" where
  "read_socket_addr_v4 s =
    Option.bind (read_ipv4_addr s) (\<lambda>(octets, s). Option.bind (read_port s) (\<lambda>(port, s).
      Some (\<lparr>sa_ip = V4 octets, sa_scope = 0, sa_port = port\<rparr>, s)))"

definition read_socket_addr_v6 :: "ustr \<Rightarrow> (socket_addr \<times> ustr) option" where
  "read_socket_addr_v6 s =
    Option.bind (read_given_char 91 s) (\<lambda>s. Option.bind (read_ipv6_addr s) (\<lambda>(groups, s).
      let (scope, s) = (case Option.bind (read_given_char 37 s) (read_number 10 None True 32) of
                          Some (scope, s) \<Rightarrow> (scope, s) | None \<Rightarrow> (0, s))
      in Option.bind (read_given_char 93 s) (\<lambda>s. Option.bind (read_port s) (\<lambda>(port, s).
        Some (\<lparr>sa_ip = V6 groups, sa_scope = scope, sa_port = port\<rparr>, s)))))"

text \<open>\<open>parse_with\<close>: the whole text is the value.\<close>

definition parse_with :: "(ustr \<Rightarrow> ('a \<times> ustr) option) \<Rightarrow> ustr \<Rightarrow> 'a option" where
  "parse_with reader s = (case reader s of Some (v, []) \<Rightarrow> Some v | _ \<Rightarrow> None)"

definition ip_addr_parse :: "ustr \<Rightarrow> ip_addr option" where
  "ip_addr_parse = parse_with read_ip_addr"

definition socket_addr_parse :: "ustr \<Rightarrow> socket_addr option" where
  "socket_addr_parse = parse_with (\<lambda>s.
    case read_socket_addr_v4 s of Some found \<Rightarrow> Some found | None \<Rightarrow> read_socket_addr_v6 s)"

definition ip_is_loopback :: "ip_addr \<Rightarrow> bool" where
  "ip_is_loopback ip = (case ip of V4 octets \<Rightarrow> octets ! 0 = 127 | V6 groups \<Rightarrow> groups = [0, 0, 0, 0, 0, 0, 0, 1])"

text \<open>\<open>IpAddr::to_canonical\<close>: an IPv4 address mapped into IPv6 is that IPv4 address.\<close>

definition to_canonical :: "ip_addr \<Rightarrow> ip_addr" where
  "to_canonical ip =
    (case ip of
       V4 octets \<Rightarrow> V4 octets
     | V6 groups \<Rightarrow>
         if take 6 groups = [0, 0, 0, 0, 0, 0xffff]
         then V4 [groups ! 6 div 256, groups ! 6 mod 256, groups ! 7 div 256, groups ! 7 mod 256]
         else V6 groups)"

section \<open>What a parsed address is\<close>

fun ip_ok :: "ip_addr \<Rightarrow> bool" where
  "ip_ok (V4 octets) \<longleftrightarrow> length octets = 4 \<and> list_all (\<lambda>n. n < 2 ^ 8) octets"
| "ip_ok (V6 groups) \<longleftrightarrow> length groups = 8 \<and> list_all (\<lambda>n. n < 2 ^ 16) groups"

lemma read_number_less: "read_number radix most zero bits s = Some (n, s') \<Longrightarrow> n < 2 ^ bits"
  by (auto simp: read_number_def Let_def split: if_splits option.splits)

lemma read_separator_Some:
  "read_separator sep index inner s = Some r \<Longrightarrow> \<exists>s'. inner s' = Some r"
  by (auto simp: read_separator_def bind_eq_Some_conv split: if_splits)

lemma read_octets_ok:
  "read_octets index left s = Some (octets, s') \<Longrightarrow> length octets = left \<and> list_all (\<lambda>n. n < 2 ^ 8) octets"
proof (induction index left s arbitrary: octets rule: read_octets.induct)
  case (2 index left s)
  then obtain octet s1 octets1 where "read_separator 46 index (read_number 10 (Some 3) False 8) s = Some (octet, s1)"
    "read_octets (Suc index) left s1 = Some (octets1, s')" "octets = octet # octets1"
    by (auto split: option.splits prod.splits)
  with "2.IH" read_separator_Some read_number_less show ?case by (metis length_Cons list.pred_inject(2))
qed simp

lemma read_groups_ok:
  "read_groups index left s = (groups, v4, s') \<Longrightarrow> length groups \<le> left \<and> list_all (\<lambda>n. n < 2 ^ 16) groups"
proof (induction index left s arbitrary: groups v4 rule: read_groups.induct)
  case (2 index left s)
  show ?case
  proof (cases "if left > 0 then read_separator 58 index read_ipv4_addr s else None")
    case None
    then show ?thesis
    proof (cases "read_separator 58 index (read_number 16 (Some 4) True 16) s")
      case (Some found)
      obtain word s1 where found: "found = (word, s1)" by (cases found)
      obtain groups1 v41 s2 where rest: "read_groups (Suc index) left s1 = (groups1, v41, s2)"
        by (cases "read_groups (Suc index) left s1")
      have "groups = word # groups1" using "2.prems" None Some found rest by auto
      moreover have "word < 2 ^ 16" using read_separator_Some [OF Some] found read_number_less by blast
      moreover have "length groups1 \<le> left \<and> list_all (\<lambda>n. n < 2 ^ 16) groups1"
        using "2.prems" "2.IH" [OF None Some found [symmetric]] None Some found rest by auto
      ultimately show ?thesis by simp
    qed (use "2.prems" in auto)
  next
    case (Some found)
    then have left: "0 < left" by (auto split: if_splits)
    obtain octets s1 where found: "found = (octets, s1)" by (cases found)
    have "length octets = 4 \<and> list_all (\<lambda>n. n < 2 ^ 8) octets"
      using Some left found read_separator_Some read_octets_ok unfolding read_ipv4_addr_def by fastforce
    then have "octets ! i < 256" if "i < 4" for i using that by (auto simp: list_all_length)
    from this [of 0] this [of 1] this [of 2] this [of 3]
    show ?thesis using "2.prems" Some left found by auto
  qed
qed simp

lemma read_ipv4_addr_ok: "read_ipv4_addr s = Some (octets, s') \<Longrightarrow> ip_ok (V4 octets)"
  using read_octets_ok by (simp add: read_ipv4_addr_def)

lemma read_ipv6_addr_ok:
  assumes "read_ipv6_addr s = Some (groups, s')"
  shows "ip_ok (V6 groups)"
proof -
  obtain front v4 s1 where front: "read_groups 0 8 s = (front, v4, s1)" by (cases "read_groups 0 8 s")
  from read_groups_ok [OF front] have ok: "length front \<le> 8" "list_all (\<lambda>n. n < 2 ^ 16) front" by auto
  show ?thesis
  proof (cases "length front = 8")
    case True
    with assms front ok show ?thesis by (simp add: read_ipv6_addr_def)
  next
    case False
    then obtain s2 rear v4' s3 where rear: "read_groups 0 (8 - (length front + 1)) s2 = (rear, v4', s3)"
      "groups = front @ replicate (8 - length front - length rear) 0 @ rear"
      using assms front
      by (auto simp: read_ipv6_addr_def bind_eq_Some_conv case_prod_beta Let_def split: if_splits) (metis prod.collapse)
    with read_groups_ok [OF rear(1)] ok False show ?thesis by (auto simp: list_all_iff)
  qed
qed

lemma ip_addr_parse_ok: "ip_addr_parse s = Some ip \<Longrightarrow> ip_ok ip"
  by (auto simp: ip_addr_parse_def parse_with_def read_ip_addr_def split: option.splits list.splits
      dest: read_ipv4_addr_ok read_ipv6_addr_ok simp del: ip_ok.simps)

lemma read_port_less: "read_port s = Some (port, s') \<Longrightarrow> port < 2 ^ 16"
  unfolding read_port_def bind_eq_Some_conv using read_number_less by blast

lemma socket_addr_parse_ok: "socket_addr_parse s = Some a \<Longrightarrow> ip_ok (sa_ip a) \<and> sa_port a < 2 ^ 16"
  by (auto simp: socket_addr_parse_def parse_with_def read_socket_addr_v4_def read_socket_addr_v6_def bind_eq_Some_conv
      split: option.splits list.splits prod.splits dest!: read_ipv4_addr_ok read_ipv6_addr_ok read_port_less simp del: ip_ok.simps)

end
