(* ===== verification/Scheduler.thy ===== *)
theory Scheduler
  imports Lw_Net "HOL-Library.Product_Lexorder"
begin

text \<open>
  Admission to the engine's slots, \<open>lightweight-gateway/src/scheduler.rs\<close>, in the order of that file.

  A \<open>Scheduler\<close> is the record \<open>scheduler\<close>; its mutex makes every operation one step, so each is a
  function from the state to the state, with the reading of the clock as an argument (\<open>now\<close>, in
  nanoseconds; an operation that reads it twice is given one reading). Ids, counters and queue
  counts are natural numbers. A one-shot channel between a waiter and its ticket is kept under the
  waiter's id: \<open>Open\<close> while the receiver lives and nothing was sent, \<open>Sent slot\<close> until the receiver
  takes the value, \<open>Closed\<close> once the receiver is gone or has taken it. The \<open>Notify\<close> that wakes
  \<open>drain\<close> carries no data and has no counterpart.
\<close>

section \<open>Callers\<close>

type_synonym peer_key = "ip_addr option"

definition from_socket :: "socket_addr \<Rightarrow> peer_key" where
  "from_socket address = Some (to_canonical (sa_ip address))"

definition is_local :: "peer_key \<Rightarrow> bool" where
  "is_local k = (case k of None \<Rightarrow> True | Some ip \<Rightarrow> ip_is_loopback ip)"

definition peer_resolve :: "socket_addr option \<Rightarrow> ustr option \<Rightarrow> bool \<Rightarrow> peer_key" where
  "peer_resolve socket cf_connecting_ip trust =
    (case (if trust \<and> (case socket of None \<Rightarrow> False | Some a \<Rightarrow> ip_is_loopback (sa_ip a))
           then Option.bind cf_connecting_ip (\<lambda>v. ip_addr_parse (trim v)) else None) of
       Some ip \<Rightarrow> Some (to_canonical ip)
     | None \<Rightarrow> (case socket of Some a \<Rightarrow> from_socket a | None \<Rightarrow> None))"

section \<open>Bands\<close>

record band_limits =
  bl_prompt_tokens :: u32
  bl_output_tokens :: u32

definition clamp :: "u32 \<Rightarrow> u32 \<Rightarrow> u32 \<Rightarrow> u32" where
  "clamp v lo hi = (if v < lo then lo else if v > hi then hi else v)"

definition for_context :: "u32 \<Rightarrow> band_limits" where
  "for_context n_ctx =
    \<lparr>bl_prompt_tokens = clamp (n_ctx div 8) 512 1024,
     bl_output_tokens = clamp (n_ctx div 32) 128 256\<rparr>"

definition default_band_limits :: band_limits where
  "default_band_limits = \<lparr>bl_prompt_tokens = 1024, bl_output_tokens = 256\<rparr>"

datatype band = Interactive | Bulk

definition classify :: "u32 \<Rightarrow> u32 option \<Rightarrow> band_limits \<Rightarrow> band" where
  "classify prompt_tokens requested_max_tokens lim =
    (if prompt_tokens > bl_prompt_tokens lim then Bulk
     else (case requested_max_tokens of
             Some budget \<Rightarrow> if budget > bl_output_tokens lim then Bulk else Interactive
           | None \<Rightarrow> Interactive))"

fun tier :: "band \<Rightarrow> nat" where
  "tier Interactive = 1"
| "tier Bulk = 2"

section \<open>State\<close>

record scheduler_config =
  interactive :: band_limits
  starvation_ceiling :: nat

definition default_config :: scheduler_config where
  "default_config = \<lparr>interactive = default_band_limits, starvation_ceiling = 60 * 1000000000\<rparr>"

record counters =
  admitted_immediately :: nat
  queued :: nat
  timed_out :: nat
  abandoned :: nat
  overtakes :: nat
  wait_ms_total :: nat
  wait_ms_max :: nat

record waiter =
  w_id :: nat
  w_band :: band
  w_peer :: peer_key
  w_round :: nat
  w_enqueued :: nat

record running =
  r_id :: nat
  r_band :: band
  r_started :: nat
  r_id_and_model :: "(string \<times> string) option"
  r_prompt_tokens :: u32

datatype channel = Open | Sent nat | Closed

record scheduler =
  capacity :: nat
  config :: scheduler_config
  limits_live :: band_limits
  running_slots :: "running list"
  waiting :: "waiter list"
  next_id :: nat
  paused :: bool
  counts :: counters
  channels :: "nat \<Rightarrow> channel"

definition zero_counters :: counters where
  "zero_counters = \<lparr>admitted_immediately = 0, queued = 0, timed_out = 0, abandoned = 0,
     overtakes = 0, wait_ms_total = 0, wait_ms_max = 0\<rparr>"

definition scheduler_new :: "nat \<Rightarrow> scheduler_config \<Rightarrow> scheduler" where
  "scheduler_new cap cfg =
    \<lparr>capacity = max cap 1, config = cfg, limits_live = interactive cfg, running_slots = [],
     waiting = [], next_id = 0, paused = False, counts = zero_counters, channels = (\<lambda>_. Closed)\<rparr>"

definition set_band_limits :: "band_limits \<Rightarrow> scheduler \<Rightarrow> scheduler" where
  "set_band_limits lim s = s\<lparr>limits_live := lim\<rparr>"

section \<open>The order of service\<close>

definition aged_out :: "nat \<Rightarrow> nat \<Rightarrow> waiter \<Rightarrow> bool" where
  "aged_out now ceiling w \<longleftrightarrow> now - w_enqueued w \<ge> ceiling"

definition rank :: "nat \<Rightarrow> nat \<Rightarrow> waiter \<Rightarrow> nat \<times> nat \<times> nat" where
  "rank now ceiling w =
    (if aged_out now ceiling w then 0 else tier (w_band w),
     if aged_out now ceiling w then 0 else w_round w,
     w_enqueued w)"

text \<open>\<open>min_by_key\<close> over the indices: the first index whose key is least.\<close>

fun min_index :: "('a \<Rightarrow> 'k::linorder) \<Rightarrow> 'a list \<Rightarrow> nat option" where
  "min_index key [] = None"
| "min_index key (x # xs) =
    (case min_index key xs of
       None \<Rightarrow> Some 0
     | Some i \<Rightarrow> if key x \<le> key (xs ! i) then Some 0 else Some (Suc i))"

definition as_millis :: "nat \<Rightarrow> nat" where
  "as_millis d = d div 1000000"

definition take_next :: "nat \<Rightarrow> scheduler \<Rightarrow> (waiter \<times> scheduler) option" where
  "take_next now s =
    (case min_index (rank now (starvation_ceiling (config s))) (waiting s) of
       None \<Rightarrow> None
     | Some i \<Rightarrow>
         let w = waiting s ! i;
             chosen_at = w_enqueued w;
             overtaken = length (filter (\<lambda>v. w_enqueued v < chosen_at) (waiting s));
             waited = as_millis (now - chosen_at);
             c = counts s
         in Some (w, s\<lparr>waiting := remove_at i (waiting s),
                       counts := c\<lparr>overtakes := overtakes c + overtaken,
                                  wait_ms_total := wait_ms_total c + waited,
                                  wait_ms_max := max (wait_ms_max c) waited\<rparr>\<rparr>))"

section \<open>Slots\<close>

definition reserve_running :: "band \<Rightarrow> nat \<Rightarrow> scheduler \<Rightarrow> nat \<times> scheduler" where
  "reserve_running b now s =
    (let i = next_id s + 1
     in (i, s\<lparr>next_id := i,
             running_slots := running_slots s @
               [\<lparr>r_id = i, r_band = b, r_started = now, r_id_and_model = None, r_prompt_tokens = 0\<rparr>]\<rparr>))"

definition take_free_slot :: "band \<Rightarrow> nat \<Rightarrow> scheduler \<Rightarrow> (nat \<times> scheduler) option" where
  "take_free_slot b now s =
    (if \<not> paused s \<and> length (running_slots s) < capacity s \<and> waiting s = []
     then Some (reserve_running b now
                  (s\<lparr>counts := (counts s)\<lparr>admitted_immediately := admitted_immediately (counts s) + 1\<rparr>\<rparr>))
     else None)"

definition push_waiter :: "band \<Rightarrow> peer_key \<Rightarrow> nat \<Rightarrow> scheduler \<Rightarrow> nat \<times> scheduler" where
  "push_waiter b peer now s =
    (let i = next_id s + 1;
         round = length (filter (\<lambda>w. w_peer w = peer) (waiting s))
     in (i, s\<lparr>next_id := i,
             waiting := waiting s @
               [\<lparr>w_id = i, w_band = b, w_peer = peer, w_round = round, w_enqueued = now\<rparr>],
             channels := (channels s)(i := Open),
             counts := (counts s)\<lparr>queued := queued (counts s) + 1\<rparr>\<rparr>))"

definition try_admit :: "nat \<Rightarrow> scheduler \<Rightarrow> (nat \<times> scheduler) option" where
  "try_admit now s = take_free_slot Bulk now s"

text \<open>\<open>Inr slot\<close> is a permit for the slot, \<open>Inl id\<close> a ticket.\<close>

definition admit_or_enqueue :: "band \<Rightarrow> peer_key \<Rightarrow> nat \<Rightarrow> scheduler \<Rightarrow> (nat + nat) \<times> scheduler" where
  "admit_or_enqueue b peer now s =
    (case take_free_slot b now s of
       Some (slot, s') \<Rightarrow> (Inr slot, s')
     | None \<Rightarrow> (case push_waiter b peer now s of (i, s') \<Rightarrow> (Inl i, s')))"

definition enqueue :: "band \<Rightarrow> peer_key \<Rightarrow> nat \<Rightarrow> scheduler \<Rightarrow> nat \<times> scheduler" where
  "enqueue b peer now s = push_waiter b peer now s"

text \<open>\<open>Vec::remove\<close> at the first position with the id, when there is one.\<close>

fun remove_id :: "('a \<Rightarrow> nat) \<Rightarrow> nat \<Rightarrow> 'a list \<Rightarrow> 'a list" where
  "remove_id f i [] = []"
| "remove_id f i (x # xs) = (if f x = i then xs else x # remove_id f i xs)"

text \<open>\<open>oneshot::Sender::send\<close>: fails once the receiver is gone.\<close>

definition send :: "nat \<Rightarrow> nat \<Rightarrow> scheduler \<Rightarrow> scheduler option" where
  "send chan slot s =
    (if channels s chan = Open then Some (s\<lparr>channels := (channels s)(chan := Sent slot)\<rparr>) else None)"

definition hand_over :: "waiter \<Rightarrow> nat \<Rightarrow> scheduler \<Rightarrow> bool \<times> scheduler" where
  "hand_over w now s =
    (case reserve_running (w_band w) now s of
       (i, s1) \<Rightarrow>
         (case send (w_id w) i s1 of
            Some s2 \<Rightarrow> (True, s2)
          | None \<Rightarrow>
              (False, s1\<lparr>running_slots := remove_id r_id i (running_slots s1),
                         counts := (counts s1)\<lparr>abandoned := abandoned (counts s1) + 1\<rparr>\<rparr>)))"

lemma min_index_less: "min_index key xs = Some i \<Longrightarrow> i < length xs"
  by (induction xs arbitrary: i) (auto split: option.splits if_splits)

lemma take_next_shrinks:
  "take_next now s = Some (w, s') \<Longrightarrow> length (waiting s') < length (waiting s)"
  by (auto simp: take_next_def Let_def remove_at_def min_def dest!: min_index_less
      split: option.splits)

lemma hand_over_waiting [simp]: "waiting (snd (hand_over w now s)) = waiting s"
  by (simp add: hand_over_def reserve_running_def send_def Let_def split: option.splits)

text \<open>The loop of \<open>release\<close>: offer the slot until a waiter takes it.\<close>

function offer :: "nat \<Rightarrow> scheduler \<Rightarrow> scheduler" where
  "offer now s =
    (case take_next now s of
       None \<Rightarrow> s
     | Some (w, s1) \<Rightarrow>
         (case hand_over w now s1 of (taken, s2) \<Rightarrow> if taken then s2 else offer now s2))"
  by pat_completeness auto

termination offer
  by (relation "measure (\<lambda>(now, s). length (waiting s))")
    (simp, simp, metis hand_over_waiting snd_conv take_next_shrinks)

definition release :: "nat \<Rightarrow> nat \<Rightarrow> scheduler \<Rightarrow> scheduler" where
  "release i now s =
    (let s1 = s\<lparr>running_slots := remove_id r_id i (running_slots s)\<rparr>
     in if paused s1 then s1 else offer now s1)"

text \<open>The loop of \<open>resume\<close> and \<open>set_capacity\<close>: hand slots out while one is free.\<close>

function fill :: "nat \<Rightarrow> scheduler \<Rightarrow> scheduler" where
  "fill now s =
    (if length (running_slots s) < capacity s then
       (case take_next now s of
          None \<Rightarrow> s
        | Some (w, s1) \<Rightarrow> fill now (snd (hand_over w now s1)))
     else s)"
  by pat_completeness auto

termination fill
  by (relation "measure (\<lambda>(now, s). length (waiting s))") (simp, auto intro: take_next_shrinks)

declare offer.simps [simp del] fill.simps [simp del]

definition set_capacity :: "nat \<Rightarrow> nat \<Rightarrow> scheduler \<Rightarrow> scheduler" where
  "set_capacity cap now s =
    (let s1 = s\<lparr>capacity := max cap 1\<rparr> in if paused s1 then s1 else fill now s1)"

definition pause :: "scheduler \<Rightarrow> scheduler" where
  "pause s = s\<lparr>paused := True\<rparr>"

definition resume :: "nat \<Rightarrow> scheduler \<Rightarrow> scheduler" where
  "resume now s = fill now (s\<lparr>paused := False\<rparr>)"

datatype withdrawal = TimedOut | Abandoned

definition withdraw :: "nat \<Rightarrow> withdrawal \<Rightarrow> scheduler \<Rightarrow> bool \<times> scheduler" where
  "withdraw i reason s =
    (if list_ex (\<lambda>w. w_id w = i) (waiting s) then
       (True, s\<lparr>waiting := remove_id w_id i (waiting s),
               counts := (case reason of
                           TimedOut \<Rightarrow> (counts s)\<lparr>timed_out := timed_out (counts s) + 1\<rparr>
                         | Abandoned \<Rightarrow> (counts s)\<lparr>abandoned := abandoned (counts s) + 1\<rparr>)\<rparr>)
     else (False, s))"

section \<open>Tickets and permits\<close>

record ticket =
  t_id :: nat
  t_band :: band
  t_enqueued :: nat
  t_taken :: bool
  t_withdrawal :: withdrawal

definition ticket_of :: "nat \<Rightarrow> band \<Rightarrow> nat \<Rightarrow> ticket" where
  "ticket_of i b now =
    \<lparr>t_id = i, t_band = b, t_enqueued = now, t_taken = False, t_withdrawal = Abandoned\<rparr>"

definition ticket_timed_out :: "ticket \<Rightarrow> ticket" where
  "ticket_timed_out t = t\<lparr>t_withdrawal := TimedOut\<rparr>"

definition position :: "ticket \<Rightarrow> nat \<Rightarrow> scheduler \<Rightarrow> nat option" where
  "position t now s =
    (let ceiling = starvation_ceiling (config s)
     in case find (\<lambda>w. w_id w = t_id t) (waiting s) of
          None \<Rightarrow> None
        | Some w \<Rightarrow>
            Some (length (filter (\<lambda>v. rank now ceiling v < rank now ceiling w) (waiting s))))"

text \<open>
  \<open>Ticket::granted\<close> when the channel holds a grant: the value is taken out and the ticket holds a
  permit for the slot. \<open>None\<close> while there is nothing to receive.
\<close>

definition ticket_granted :: "ticket \<Rightarrow> scheduler \<Rightarrow> (nat \<times> ticket \<times> scheduler) option" where
  "ticket_granted t s =
    (case channels s (t_id t) of
       Sent slot \<Rightarrow>
         Some (slot, t\<lparr>t_taken := True\<rparr>, s\<lparr>channels := (channels s)(t_id t := Closed)\<rparr>)
     | _ \<Rightarrow> None)"

text \<open>\<open>Ticket::drop\<close>, after which the receiver is gone.\<close>

definition ticket_drop :: "ticket \<Rightarrow> nat \<Rightarrow> scheduler \<Rightarrow> scheduler" where
  "ticket_drop t now s =
    (let close = (\<lambda>s. s\<lparr>channels := (channels s)(t_id t := Closed)\<rparr>)
     in if t_taken t then s
        else (case withdraw (t_id t) (t_withdrawal t) s of
                (True, s1) \<Rightarrow> close s1
              | (False, s1) \<Rightarrow>
                  (case channels s1 (t_id t) of
                     Sent slot \<Rightarrow> release slot now (close s1)
                   | _ \<Rightarrow> close s1)))"

definition permit_drop :: "nat \<Rightarrow> nat \<Rightarrow> scheduler \<Rightarrow> scheduler" where
  "permit_drop slot now s = release slot now s"

text \<open>\<open>SlotPermit::describe\<close> and \<open>in_band\<close> update the first entry with the permit's id.\<close>

fun update_id :: "nat \<Rightarrow> (running \<Rightarrow> running) \<Rightarrow> running list \<Rightarrow> running list" where
  "update_id i f [] = []"
| "update_id i f (r # rs) = (if r_id r = i then f r # rs else r # update_id i f rs)"

definition describe :: "nat \<Rightarrow> string \<Rightarrow> string \<Rightarrow> u32 \<Rightarrow> scheduler \<Rightarrow> scheduler" where
  "describe slot i model prompt_tokens s =
    s\<lparr>running_slots := update_id slot
        (\<lambda>r. r\<lparr>r_id_and_model := Some (i, model), r_prompt_tokens := prompt_tokens\<rparr>)
        (running_slots s)\<rparr>"

definition in_band :: "nat \<Rightarrow> band \<Rightarrow> scheduler \<Rightarrow> scheduler" where
  "in_band slot b s = s\<lparr>running_slots := update_id slot (\<lambda>r. r\<lparr>r_band := b\<rparr>) (running_slots s)\<rparr>"

section \<open>Views\<close>

record queue_snapshot =
  qs_capacity :: nat
  qs_running :: nat
  qs_waiting :: nat
  qs_waiting_interactive :: nat
  qs_waiting_bulk :: nat
  qs_counters :: counters

definition snapshot :: "scheduler \<Rightarrow> queue_snapshot" where
  "snapshot s =
    (let waiting_interactive = length (filter (\<lambda>w. w_band w = Interactive) (waiting s))
     in \<lparr>qs_capacity = capacity s, qs_running = length (running_slots s),
         qs_waiting = length (waiting s), qs_waiting_interactive = waiting_interactive,
         qs_waiting_bulk = length (waiting s) - waiting_interactive, qs_counters = counts s\<rparr>)"

record waiting_request =
  wr_ticket :: nat
  wr_band :: band
  wr_waited_ms :: nat
  wr_position :: nat

record running_request =
  rr_id :: "string option"
  rr_model :: "string option"
  rr_band :: band
  rr_running_ms :: nat
  rr_prompt_tokens :: u32

record roster =
  ro_capacity :: nat
  ro_running :: "running_request list"
  ro_waiting :: "waiting_request list"

definition roster_of :: "nat \<Rightarrow> scheduler \<Rightarrow> roster" where
  "roster_of now s =
    (let ceiling = starvation_ceiling (config s)
     in \<lparr>ro_capacity = capacity s,
         ro_running = map (\<lambda>r. \<lparr>rr_id = map_option fst (r_id_and_model r),
             rr_model = map_option snd (r_id_and_model r), rr_band = r_band r,
             rr_running_ms = as_millis (now - r_started r),
             rr_prompt_tokens = r_prompt_tokens r\<rparr>) (running_slots s),
         ro_waiting = sort_key wr_position (map (\<lambda>w. \<lparr>wr_ticket = w_id w, wr_band = w_band w,
             wr_waited_ms = as_millis (now - w_enqueued w),
             wr_position = length (filter (\<lambda>v. rank now ceiling v < rank now ceiling w)
                                     (waiting s))\<rparr>) (waiting s))\<rparr>)"

end
