(* ===== verification/Scheduler_Order.thy ===== *)
theory Scheduler_Order
  imports Scheduler "HOL-Library.Code_Target_Nat"
begin

text \<open>
  Who is served next. \<open>priority_pick\<close> is the contract of a selection that removes the first element
  of least key; picking until nothing is left is then a stable sort by that key. It is interpreted
  on the scheduler's own selection, which gives the order of service, the meaning of a ticket's
  position, the starvation guarantee and the fairness between callers.
\<close>

section \<open>Picking the first least element\<close>

fun pick_all :: "('w list \<Rightarrow> ('w \<times> 'w list) option) \<Rightarrow> nat \<Rightarrow> 'w list \<Rightarrow> 'w list" where
  "pick_all pick 0 xs = []"
| "pick_all pick (Suc n) xs =
    (case pick xs of None \<Rightarrow> [] | Some (x, ys) \<Rightarrow> x # pick_all pick n ys)"

lemma sort_key_pick:
  assumes "\<forall>a \<in> set as. key x < key a" "\<forall>b \<in> set bs. key x \<le> key b"
  shows "sort_key key (as @ x # bs) = x # sort_key key (as @ bs)"
  using assms(1)
proof (induction as)
  case Nil
  have "insort_key key x (sort_key key bs) = x # sort_key key bs"
    by (rule insort_is_Cons) (simp add: assms(2))
  then show ?case by simp
next
  case (Cons a as)
  then have "\<not> key a \<le> key x" by (simp add: not_le)
  with Cons show ?case by simp
qed

locale priority_pick =
  fixes key :: "'w \<Rightarrow> 'k::linorder"
    and pick :: "'w list \<Rightarrow> ('w \<times> 'w list) option"
  assumes pick_None: "pick xs = None \<longleftrightarrow> xs = []"
    and pick_Some: "pick xs = Some (x, ys) \<Longrightarrow>
      \<exists>as bs. xs = as @ x # bs \<and> ys = as @ bs \<and>
        (\<forall>a \<in> set as. key x < key a) \<and> (\<forall>b \<in> set bs. key x \<le> key b)"
begin

lemma least: "pick xs = Some (x, ys) \<Longrightarrow> x \<in> set xs \<and> (\<forall>y \<in> set xs. key x \<le> key y)"
  using pick_Some by fastforce

lemma pick_rest:
  "pick xs = Some (x, ys) \<Longrightarrow> length xs = Suc (length ys) \<and> set xs = insert x (set ys)"
  using pick_Some by fastforce

lemma pick_sorts: "pick_all pick (length xs) xs = sort_key key xs"
proof (induction "length xs" arbitrary: xs)
  case (Suc n)
  then obtain x ys where p: "pick xs = Some (x, ys)"
    using pick_None [of xs] by (cases "pick xs") auto
  from pick_Some [OF this] obtain as bs where
    xs: "xs = as @ x # bs" "ys = as @ bs"
    and least: "\<forall>a \<in> set as. key x < key a" "\<forall>b \<in> set bs. key x \<le> key b" by blast
  have n: "n = length ys" using Suc(2) xs by simp
  then have "pick_all pick (length xs) xs = x # sort_key key ys"
    using Suc(1) [OF n] Suc(2) [symmetric] p by simp
  also have "\<dots> = sort_key key xs" unfolding xs by (rule sort_key_pick [OF least, symmetric])
  finally show ?case .
qed simp

end

section \<open>The scheduler's selection\<close>

definition pick_waiter :: "nat \<Rightarrow> nat \<Rightarrow> waiter list \<Rightarrow> (waiter \<times> waiter list) option" where
  "pick_waiter now ceiling ws =
    map_option (\<lambda>i. (ws ! i, remove_at i ws)) (min_index (rank now ceiling) ws)"

lemma min_index_None [simp]: "min_index key xs = None \<longleftrightarrow> xs = []"
  by (cases xs) (auto split: option.splits)

lemma min_index_least:
  assumes "min_index key xs = Some i"
  shows "\<exists>as bs. xs = as @ (xs ! i) # bs \<and> remove_at i xs = as @ bs \<and>
    (\<forall>a \<in> set as. key (xs ! i) < key a) \<and> (\<forall>b \<in> set bs. key (xs ! i) \<le> key b)"
  using assms
proof (induction xs arbitrary: i)
  case (Cons x xs)
  show ?case
  proof (cases "min_index key xs")
    case None
    with Cons.prems show ?thesis by (auto simp: remove_at_def intro: exI [of _ "[]"])
  next
    case (Some j)
    from Cons.IH [OF this] obtain as bs where
      xs: "xs = as @ (xs ! j) # bs" "remove_at j xs = as @ bs"
      and as: "\<forall>a \<in> set as. key (xs ! j) < key a" and bs: "\<forall>b \<in> set bs. key (xs ! j) \<le> key b"
      by blast
    then have all: "\<forall>y \<in> set xs. key (xs ! j) \<le> key y"
      by (metis in_set_conv_decomp_first less_imp_le order_refl set_ConsD Un_iff set_append)
    show ?thesis
    proof (cases "key x \<le> key (xs ! j)")
      case True
      with Some Cons.prems all show ?thesis
        by (intro exI [of _ "[]"] exI [of _ xs]) (auto simp: remove_at_def)
    next
      case False
      with Some Cons.prems xs as bs show ?thesis
        by (intro exI [of _ "x # as"] exI [of _ bs]) (auto simp: remove_at_def)
    qed
  qed
qed simp

interpretation queue: priority_pick "rank now ceiling" "pick_waiter now ceiling" for now ceiling
  by unfold_locales (auto simp: pick_waiter_def dest: min_index_least)

lemma take_next_pick:
  "map_option (\<lambda>(w, s'). (w, waiting s')) (take_next now s)
    = pick_waiter now (starvation_ceiling (config s)) (waiting s)"
  by (auto simp: take_next_def pick_waiter_def Let_def split: option.splits)

lemma take_next_Some:
  assumes "take_next now s = Some (w, s')"
  shows "pick_waiter now (starvation_ceiling (config s)) (waiting s) = Some (w, waiting s')"
    "config s' = config s" "capacity s' = capacity s" "running_slots s' = running_slots s"
    "next_id s' = next_id s" "paused s' = paused s" "channels s' = channels s"
  using assms take_next_pick [of now s]
  by (auto simp: take_next_def Let_def split: option.splits)

lemma take_next_None: "take_next now s = None \<longleftrightarrow> waiting s = []"
  by (auto simp: take_next_def Let_def split: option.splits)

lemma take_next_Nil [simp]: "waiting s = [] \<Longrightarrow> take_next now s = None"
  by (simp add: take_next_None)

fun served :: "nat \<Rightarrow> nat \<Rightarrow> scheduler \<Rightarrow> waiter list" where
  "served now 0 s = []"
| "served now (Suc n) s =
    (case take_next now s of None \<Rightarrow> [] | Some (w, s') \<Rightarrow> w # served now n s')"

lemma served_pick_all:
  "served now n s = pick_all (pick_waiter now (starvation_ceiling (config s))) n (waiting s)"
proof (induction n arbitrary: s)
  case (Suc n)
  show ?case
  proof (cases "take_next now s")
    case None
    then have "waiting s = []" by (simp add: take_next_None)
    then show ?thesis by (simp add: pick_waiter_def)
  next
    case (Some p)
    then obtain w s' where p: "take_next now s = Some (w, s')" by (cases p) auto
    note t = take_next_Some [OF this]
    show ?thesis using p t(1) Suc [of s'] by (simp add: t(2))
  qed
qed simp

text \<open>C21. Taking the next request until the queue is empty serves the queue sorted by rank, ties in
  queue order: the aged-out requests, then the interactive ones, then the rest, each by round and
  arrival.\<close>

theorem service_order:
  "served now (length (waiting s)) s = sort_key (rank now (starvation_ceiling (config s))) (waiting s)"
  unfolding served_pick_all by (rule queue.pick_sorts)

section \<open>Positions\<close>

lemma filter_below_index:
  fixes key :: "'a \<Rightarrow> 'k::linorder"
  assumes "sorted (map key xs)" "distinct (map key xs)" "j < length xs"
  shows "length (filter (\<lambda>v. key v < key (xs ! j)) xs) = j"
proof -
  have split: "xs = take j xs @ xs ! j # drop (Suc j) xs" by (rule id_take_nth_drop [OF assms(3)])
  have keys: "sorted (map key (take j xs @ xs ! j # drop (Suc j) xs))"
    "distinct (map key (take j xs @ xs ! j # drop (Suc j) xs))"
    using assms(1,2) by (simp_all only: split [symmetric])
  have below: "key v < key (xs ! j)" if "v \<in> set (take j xs)" for v
  proof -
    have "key v \<le> key (xs ! j)" using keys(1) that by (auto simp: sorted_append)
    moreover have "key (xs ! j) \<notin> key ` set (take j xs)" using keys(2) by simp
    ultimately show ?thesis using that by (metis imageI order_le_less)
  qed
  have above: "\<not> key v < key (xs ! j)" if "v \<in> set (drop (Suc j) xs)" for v
    using keys that by (auto simp: sorted_append not_less)
  have "filter (\<lambda>v. key v < key (xs ! j)) (take j xs @ xs ! j # drop (Suc j) xs) = take j xs"
    using below above by (simp add: filter_True filter_False)
  then have "filter (\<lambda>v. key v < key (xs ! j)) xs = take j xs" by (simp only: split [symmetric])
  then show ?thesis using assms(3) by simp
qed

lemma find_id:
  assumes "distinct (map w_id ws)" "w \<in> set ws" "w_id w = i"
  shows "find (\<lambda>v. w_id v = i) ws = Some w"
  using assms by (induction ws) (auto simp: image_iff)

text \<open>The position a ticket reports is its index in the order of service: with no two requests of
  the same rank, the request at position \<open>k\<close> is served after exactly \<open>k\<close> others.\<close>

theorem position_is_service_index:
  assumes "distinct (map w_id (waiting s))" "w \<in> set (waiting s)" "w_id w = t_id t"
    and "distinct (map (rank now (starvation_ceiling (config s))) (waiting s))"
  shows "\<exists>k < length (waiting s). position t now s = Some k \<and>
    served now (length (waiting s)) s ! k = w"
proof -
  let ?key = "rank now (starvation_ceiling (config s))" and ?L = "sort_key (rank now (starvation_ceiling (config s))) (waiting s)"
  obtain k where k: "k < length ?L" "?L ! k = w"
    using assms(2) by (metis in_set_conv_nth set_sort)
  have "distinct (map ?key ?L)"
    using assms(4) by (simp add: distinct_map)
  then have "length (filter (\<lambda>v. ?key v < ?key w) ?L) = k"
    using filter_below_index [of ?key ?L k] k by simp
  then have "length (filter (\<lambda>v. ?key v < ?key w) (waiting s)) = k"
    by (simp add: filter_sort)
  then have "position t now s = Some k"
    using find_id [OF assms(1-3)] by (simp add: position_def)
  then show ?thesis
    using k queue.pick_sorts [of now "starvation_ceiling (config s)" "waiting s"]
    by (auto simp: served_pick_all)
qed

section \<open>The starvation guarantee\<close>

lemma aged_out_earlier: "aged_out now c w \<Longrightarrow> w_enqueued v \<le> w_enqueued w \<Longrightarrow> aged_out now c v"
  by (simp add: aged_out_def)

lemma tier_pos: "0 < tier b"
  by (cases b) simp_all

lemma rank_below_aged:
  assumes "aged_out now c w"
  shows "rank now c v < rank now c w \<longleftrightarrow> w_enqueued v < w_enqueued w"
  using assms aged_out_earlier [OF assms, of v] tier_pos [of "w_band v"]
  by (auto simp: rank_def less_prod_def)

text \<open>A request that has waited past the ceiling is overtaken by nobody: whatever arrives
  afterwards, in whatever band and from whatever caller, exactly the requests that arrived before it
  are still ahead of it.\<close>

theorem aged_out_keeps_its_place:
  assumes "0 < starvation_ceiling (config s)"
    and "distinct (map w_id (waiting s @ later))" "w \<in> set (waiting s)" "w_id w = t_id t"
    and "aged_out now (starvation_ceiling (config s)) w" "now \<le> now'"
    and "list_all (\<lambda>v. now \<le> w_enqueued v) later"
  shows "position t now' (s\<lparr>waiting := waiting s @ later\<rparr>)
    = Some (length (filter (\<lambda>v. w_enqueued v < w_enqueued w) (waiting s)))"
proof -
  let ?c = "starvation_ceiling (config s)"
  have aged: "aged_out now' ?c w" using assms(5,6) by (simp add: aged_out_def)
  have "w_enqueued w < now" using assms(1,5) by (simp add: aged_out_def)
  then have later: "filter (\<lambda>v. w_enqueued v < w_enqueued w) later = []"
    using assms(7) by (auto simp: filter_empty_conv list_all_iff)
  have "find (\<lambda>v. w_id v = t_id t) (waiting s @ later) = Some w"
    using assms(2-4) by (intro find_id) simp_all
  then show ?thesis
    using later by (simp add: position_def rank_below_aged [OF aged])
qed

text \<open>The next request served while an aged-out request waits is one that arrived no later.\<close>

lemma aged_out_served_first:
  assumes "w \<in> set (waiting s)" "aged_out now (starvation_ceiling (config s)) w"
    and "take_next now s = Some (v, s')"
  shows "w_enqueued v \<le> w_enqueued w \<and> aged_out now (starvation_ceiling (config s)) v"
proof -
  have "\<not> rank now (starvation_ceiling (config s)) w < rank now (starvation_ceiling (config s)) v"
    using queue.least [OF take_next_Some(1) [OF assms(3)]] assms(1) by (auto simp: not_less)
  moreover have "\<not> rank now (starvation_ceiling (config s)) v < rank now (starvation_ceiling (config s)) w
      \<Longrightarrow> w_enqueued w \<le> w_enqueued v"
    using rank_below_aged [OF assms(2), of v] by simp
  ultimately have "w_enqueued v \<le> w_enqueued w"
    using assms(2) aged_out_earlier [OF assms(2), of v] tier_pos [of "w_band v"]
    by (auto simp: rank_def less_prod_def split: if_splits)
  with aged_out_earlier [OF assms(2)] show ?thesis by simp
qed

section \<open>Fairness between callers\<close>

text \<open>
  Each waiting request has a round that is at least the number of requests of the same caller in
  front of it in the queue. It holds with equality on arrival, and a departure can only lower the
  count.
\<close>

fun rounds_ok_rev :: "waiter list \<Rightarrow> bool" where
  "rounds_ok_rev [] = True"
| "rounds_ok_rev (w # ws) \<longleftrightarrow>
    length (filter (\<lambda>v. w_peer v = w_peer w) ws) \<le> w_round w \<and> rounds_ok_rev ws"

definition rounds_ok :: "waiter list \<Rightarrow> bool" where
  "rounds_ok ws = rounds_ok_rev (rev ws)"

lemma rounds_ok_Nil [simp]: "rounds_ok []"
  by (simp add: rounds_ok_def)

lemma rounds_ok_snoc [simp]:
  "rounds_ok (ws @ [w]) \<longleftrightarrow>
    length (filter (\<lambda>v. w_peer v = w_peer w) ws) \<le> w_round w \<and> rounds_ok ws"
  by (simp add: rounds_ok_def rev_filter [symmetric])

lemma rounds_ok_remove: "rounds_ok (as @ x # bs) \<Longrightarrow> rounds_ok (as @ bs)"
  by (induction bs rule: rev_induct)
    (auto simp flip: append_assoc append_Cons split: if_splits)

lemma round_zero_per_caller:
  "rounds_ok ws \<Longrightarrow> distinct (map w_peer (filter (\<lambda>w. w_round w = 0) ws))"
  by (induction ws rule: rev_induct) (auto simp: filter_empty_conv)

lemma ahead_of_newcomer:
  assumes "rank now c v < (tier b, 0, now)"
  shows "aged_out now c v \<or> tier (w_band v) < tier b \<or> (w_band v = b \<and> w_round v = 0)"
  using assms by (cases "w_band v"; cases b) (auto simp: rank_def less_prod_def split: if_splits)

lemma length_filter_disj3:
  "(\<And>x. x \<in> set xs \<Longrightarrow> P x \<Longrightarrow> A x \<or> B x \<or> C x) \<Longrightarrow>
    length (filter P xs) \<le> length (filter A xs) + length (filter B xs) + length (filter C xs)"
  by (induction xs) fastforce+

text \<open>A caller that floods the queue delays another caller by one request per flooding caller. When
  a caller with nothing queued joins, the requests ahead of it are at most the aged-out ones, those
  of a faster band, and one for each caller that has requests of its own band waiting.\<close>

theorem newcomer_position:
  assumes "rounds_ok (waiting s)" "distinct (map w_id (waiting s))"
    and "\<forall>w \<in> set (waiting s). w_id w \<le> next_id s \<and> w_peer w \<noteq> peer"
    and "0 < starvation_ceiling (config s)"
    and "push_waiter b peer now s = (i, s')"
  shows "\<exists>k. position (ticket_of i b now) now s' = Some k \<and>
    k \<le> length (filter (aged_out now (starvation_ceiling (config s))) (waiting s))
      + length (filter (\<lambda>v. tier (w_band v) < tier b) (waiting s))
      + card (w_peer ` set (filter (\<lambda>v. w_band v = b) (waiting s)))"
proof -
  let ?c = "starvation_ceiling (config s)" and ?ws = "waiting s"
  let ?w = "\<lparr>w_id = i, w_band = b, w_peer = peer, w_round = 0, w_enqueued = now\<rparr>"
  have none: "filter (\<lambda>v. w_peer v = peer) ?ws = []"
    using assms(3) by (auto simp: filter_empty_conv)
  then have s': "waiting s' = ?ws @ [?w]" "config s' = config s" "i = next_id s + 1"
    using assms(5) by (auto simp: push_waiter_def Let_def)
  have rank: "rank now ?c ?w = (tier b, 0, now)"
    using assms(4) by (simp add: rank_def aged_out_def)
  have "find (\<lambda>v. w_id v = i) (waiting s') = Some ?w"
    using assms(2,3) s' by (intro find_id) (auto simp: s')
  then have pos: "position (ticket_of i b now) now s'
      = Some (length (filter (\<lambda>v. rank now ?c v < (tier b, 0, now)) ?ws))"
    using s' rank by (simp add: position_def ticket_of_def)
  let ?zero = "filter (\<lambda>v. w_band v = b \<and> w_round v = 0) ?ws"
  have "length ?zero = card (w_peer ` set ?zero)"
  proof -
    have "distinct (map w_peer (filter (\<lambda>v. w_band v = b) (filter (\<lambda>v. w_round v = 0) ?ws)))"
      by (rule distinct_map_filter [OF round_zero_per_caller [OF assms(1)]])
    then show ?thesis
      using distinct_card [of "map w_peer ?zero"] by (simp add: filter_filter conj_commute)
  qed
  also have "\<dots> \<le> card (w_peer ` set (filter (\<lambda>v. w_band v = b) ?ws))"
    by (intro card_mono image_mono) auto
  finally have "length ?zero \<le> card (w_peer ` set (filter (\<lambda>v. w_band v = b) ?ws))" .
  moreover have "length (filter (\<lambda>v. rank now ?c v < (tier b, 0, now)) ?ws)
      \<le> length (filter (aged_out now ?c) ?ws) + length (filter (\<lambda>v. tier (w_band v) < tier b) ?ws)
        + length ?zero"
    by (rule length_filter_disj3) (rule ahead_of_newcomer)
  ultimately show ?thesis using pos by auto
qed

section \<open>A single caller\<close>

fun arrivals :: "band \<Rightarrow> peer_key \<Rightarrow> nat list \<Rightarrow> scheduler \<Rightarrow> scheduler" where
  "arrivals b peer [] s = s"
| "arrivals b peer (t # ts) s = arrivals b peer ts (snd (enqueue b peer t s))"

definition in_step :: "band \<Rightarrow> peer_key \<Rightarrow> waiter list \<Rightarrow> bool" where
  "in_step b peer ws \<longleftrightarrow> list_all (\<lambda>w. w_band w = b \<and> w_peer w = peer) ws \<and>
     map w_round ws = [0..<length ws] \<and> sorted (map w_enqueued ws)"

lemma in_step_enqueue:
  assumes "in_step b peer (waiting s)" "\<forall>w \<in> set (waiting s). w_enqueued w \<le> t"
  shows "in_step b peer (waiting (snd (enqueue b peer t s)))"
    "map w_enqueued (waiting (snd (enqueue b peer t s))) = map w_enqueued (waiting s) @ [t]"
proof -
  have "filter (\<lambda>w. w_peer w = peer) (waiting s) = waiting s"
    using assms(1) by (auto simp: in_step_def list_all_iff filter_id_conv)
  then show "in_step b peer (waiting (snd (enqueue b peer t s)))"
    "map w_enqueued (waiting (snd (enqueue b peer t s))) = map w_enqueued (waiting s) @ [t]"
    using assms by (auto simp: in_step_def enqueue_def push_waiter_def Let_def sorted_append)
qed

lemma in_step_arrivals:
  assumes "in_step b peer (waiting s)" "sorted (map w_enqueued (waiting s) @ ts)"
  shows "in_step b peer (waiting (arrivals b peer ts s)) \<and>
    map w_enqueued (waiting (arrivals b peer ts s)) = map w_enqueued (waiting s) @ ts"
  using assms
proof (induction ts arbitrary: s)
  case (Cons t ts)
  have "\<forall>w \<in> set (waiting s). w_enqueued w \<le> t" using Cons.prems(2) by (simp add: sorted_append)
  note e = in_step_enqueue [OF Cons.prems(1) this]
  from Cons.IH [OF e(1)] Cons.prems(2) e(2) show ?case by simp
qed simp

lemma in_step_rank_sorted:
  assumes "in_step b peer ws"
  shows "sorted (map (rank now c) ws)"
proof -
  have "rank now c (ws ! i) \<le> rank now c (ws ! j)" if ij: "i \<le> j" "j < length ws" for i j
  proof -
    have r: "w_round (ws ! i) = i" "w_round (ws ! j) = j" "w_band (ws ! i) = w_band (ws ! j)"
      using assms ij by (auto simp: in_step_def list_all_length dest: arg_cong [of _ _ "\<lambda>xs. xs ! i"]
          arg_cong [of _ _ "\<lambda>xs. xs ! j"])
    have e: "w_enqueued (ws ! i) \<le> w_enqueued (ws ! j)"
      using assms ij sorted_nth_mono [of "map w_enqueued ws" i j] by (simp add: in_step_def)
    with aged_out_earlier [of now c "ws ! j" "ws ! i"] r ij show ?thesis
      by (auto simp: rank_def less_eq_prod_def)
  qed
  then show ?thesis by (simp add: sorted_iff_nth_mono)
qed

text \<open>With one caller and one band, requests that queue while nothing leaves are served in the
  order they arrived.\<close>

lemma single_caller_fifo:
  assumes "waiting s = []" "sorted ts"
  shows "map w_enqueued (served now (length ts) (arrivals b peer ts s)) = ts"
proof -
  let ?s = "arrivals b peer ts s"
  have a: "in_step b peer (waiting ?s)" "map w_enqueued (waiting ?s) = ts"
    using in_step_arrivals [of b peer s ts] assms by (simp_all add: in_step_def)
  have n: "length (waiting ?s) = length ts" using a(2) by (metis length_map)
  have "served now (length ts) ?s = waiting ?s"
    using queue.pick_sorts [of now "starvation_ceiling (config ?s)" "waiting ?s"]
      in_step_rank_sorted [OF a(1)] n
    by (simp add: served_pick_all sort_key_id_if_sorted)
  then show ?thesis using a(2) by simp
qed

text \<open>
  One caller, one slot, one band. The first request runs; three more queue, with rounds 0, 1 and 2.
  Two of them are served. The request that then arrives finds one request of its caller waiting and
  gets round 1, ahead of the earlier request that still holds round 2.
\<close>

definition one_caller :: scheduler where
  "one_caller =
    (let arrive = (\<lambda>t s. snd (admit_or_enqueue Bulk None t s));
         s = arrive 3 (arrive 2 (arrive 1 (arrive 0 (scheduler_new 1 default_config))))
     in arrive 6 (permit_drop 5 5 (permit_drop 1 4 s)))"

text \<open>Once requests have left the queue, a single caller's order of service is no longer its
  order of arrival: of two waiting requests of the same caller and band, neither of them near the
  starvation ceiling, the later arrival is served first.\<close>

theorem single_caller_reordered:
  "map (\<lambda>w. (w_peer w, w_band w, w_enqueued w, w_round w)) (waiting one_caller)
     = [(None, Bulk, 3, 2), (None, Bulk, 6, 1)] \<and>
   map w_enqueued (served 7 2 one_caller) = [6, 3]"
  by code_simp

section \<open>Bands\<close>

text \<open>Whatever the context, a prompt of at most 512 tokens with no stated budget or one of at
  most 128 tokens is interactive, and a prompt above 1024 tokens or a stated budget above 256 is not;
  and a request that asks for no more than an interactive one is interactive too.\<close>

theorem classify_bounds:
  "(unat p \<le> 512 \<and> (case m of None \<Rightarrow> True | Some n \<Rightarrow> unat n \<le> 128) \<longrightarrow>
      classify p m (for_context n_ctx) = Interactive) \<and>
   (unat p > 1024 \<or> (case m of None \<Rightarrow> False | Some n \<Rightarrow> unat n > 256) \<longrightarrow>
      classify p m (for_context n_ctx) = Bulk) \<and>
   (classify p m lim = Interactive \<and> p' \<le> p \<and>
      (m' = None \<or> (\<exists>n n'. m = Some n \<and> m' = Some n' \<and> n' \<le> n)) \<longrightarrow>
      classify p' m' lim = Interactive)"
proof -
  have prompt: "512 \<le> unat (bl_prompt_tokens (for_context n_ctx))"
    "unat (bl_prompt_tokens (for_context n_ctx)) \<le> 1024"
    and budget: "128 \<le> unat (bl_output_tokens (for_context n_ctx))"
    "unat (bl_output_tokens (for_context n_ctx)) \<le> 256"
    by (auto simp: for_context_def clamp_def word_less_nat_alt)
  show ?thesis
    using prompt budget
    by (auto simp: classify_def word_less_nat_alt word_le_nat_alt split: option.splits if_splits)
qed

section \<open>Callers behind a proxy\<close>

text \<open>Without trust, or from a peer that is not a loopback address, the forwarded header has no
  influence; from a trusted loopback peer a header that parses decides the caller, so a forwarded
  address that is not loopback is never local.\<close>

theorem forwarded_header_scope:
  "(\<not> trust \<or> (\<forall>a. socket = Some a \<longrightarrow> \<not> ip_is_loopback (sa_ip a)) \<longrightarrow>
      peer_resolve socket header trust = peer_resolve socket None trust) \<and>
   (trust \<and> socket = Some a \<and> ip_is_loopback (sa_ip a) \<and> header = Some h \<and> ip_addr_parse (trim h) = Some ip \<and>
      \<not> ip_is_loopback (to_canonical ip) \<longrightarrow>
      \<not> is_local (peer_resolve socket header trust))"
  by (auto simp: peer_resolve_def is_local_def split: option.splits)

text \<open>A proxy on this machine that reaches a dual-stack listener over IPv4 has a peer address
  \<open>::ffff:127.0.0.1\<close>, which is not a loopback address until it is made canonical. Its forwarded
  header is ignored, and the remote caller it speaks for counts as local.\<close>

theorem mapped_proxy_looks_local:
  "peer_resolve (Some \<lparr>sa_ip = V6 [0, 0, 0, 0, 0, 0xffff, 0x7f00, 1], sa_scope = 0, sa_port = port\<rparr>) header True
    = Some (V4 [127, 0, 0, 1]) \<and>
   is_local (Some (V4 [127, 0, 0, 1]))"
  by (simp add: peer_resolve_def from_socket_def is_local_def ip_is_loopback_def to_canonical_def)

section \<open>Concrete queues\<close>

text \<open>Two requests of one caller, and a third that has aged out.\<close>

definition two_waiting :: scheduler where
  "two_waiting = snd (enqueue Bulk None 20 (snd (enqueue Bulk None 10 (scheduler_new 1 default_config))))"

lemma two_waiting_queue:
  "waiting two_waiting =
    [\<lparr>w_id = 1, w_band = Bulk, w_peer = None, w_round = 0, w_enqueued = 10\<rparr>,
     \<lparr>w_id = 2, w_band = Bulk, w_peer = None, w_round = 1, w_enqueued = 20\<rparr>]"
  "config two_waiting = default_config" "next_id two_waiting = 2"
  by (simp_all add: two_waiting_def enqueue_def push_waiter_def Let_def scheduler_new_def)

lemma default_ceiling: "starvation_ceiling default_config = 60000000000"
  by (simp add: default_config_def)

lemmas two_waiting_simps = two_waiting_queue default_ceiling rank_def aged_out_def ticket_of_def

theorem position_is_service_index_witness:
  "\<exists>k < length (waiting two_waiting). position (ticket_of 2 Bulk 20) 30 two_waiting = Some k \<and>
    served 30 (length (waiting two_waiting)) two_waiting ! k = waiting two_waiting ! 1"
  by (rule position_is_service_index) (simp_all add: two_waiting_simps)

theorem aged_out_keeps_its_place_witness:
  "position (ticket_of 2 Bulk 20) 60000000100 (two_waiting\<lparr>waiting := waiting two_waiting @
      [\<lparr>w_id = 3, w_band = Interactive, w_peer = None, w_round = 0, w_enqueued = 60000000050\<rparr>]\<rparr>)
    = Some 1"
  using aged_out_keeps_its_place [of two_waiting
      "[\<lparr>w_id = 3, w_band = Interactive, w_peer = None, w_round = 0, w_enqueued = 60000000050\<rparr>]"
      "waiting two_waiting ! 1" "ticket_of 2 Bulk 20" 60000000030 60000000100]
  by (simp add: two_waiting_simps)

theorem newcomer_position_witness:
  "\<exists>k. position (ticket_of 3 Bulk 30) 30 (snd (push_waiter Bulk (Some (V4 [10, 0, 0, 7])) 30 two_waiting)) = Some k
    \<and> k \<le> 1"
  using newcomer_position [of two_waiting "Some (V4 [10, 0, 0, 7])" Bulk 30 3
      "snd (push_waiter Bulk (Some (V4 [10, 0, 0, 7])) 30 two_waiting)"]
  by (simp add: two_waiting_simps rounds_ok_def push_waiter_def Let_def)

theorem classify_bounds_witness:
  "classify 300 (Some 64) (for_context 2048) = Interactive \<and>
   classify 5596 (Some 65536) (for_context 2048) = Bulk"
  using classify_bounds [of 300 "Some 64" 2048] classify_bounds [of 5596 "Some 65536" 2048] by simp

lemma forwarded_address: "ip_addr_parse (trim (ascii ''192.0.2.10 '')) = Some (V4 [192, 0, 2, 10])"
  by code_simp

theorem forwarded_header_scope_witness:
  "\<not> is_local (peer_resolve (Some \<lparr>sa_ip = V4 [127, 0, 0, 1], sa_scope = 0, sa_port = 9\<rparr>)
      (Some (ascii ''192.0.2.10 '')) True)"
  using forwarded_header_scope [of True "Some \<lparr>sa_ip = V4 [127, 0, 0, 1], sa_scope = 0, sa_port = 9\<rparr>"
      "Some (ascii ''192.0.2.10 '')" "\<lparr>sa_ip = V4 [127, 0, 0, 1], sa_scope = 0, sa_port = 9\<rparr>"
      "ascii ''192.0.2.10 ''" "V4 [192, 0, 2, 10]"] forwarded_address
  by (simp add: ip_is_loopback_def to_canonical_def)

end
