(* ===== verification/Scheduler_System.thy ===== *)
theory Scheduler_System
  imports Scheduler_Order "HOL-Library.Multiset"
begin

text \<open>
  The scheduler together with the tickets, permits and pause guards that are alive, as a state
  machine. \<open>core\<close> is the invariant of the scheduler against the permits and the tickets outside
  it; \<open>slot_keeper\<close> is the contract of an operation that may hand out free slots and keeps it.
\<close>

section \<open>Slots, permits and grants\<close>

fun grant_of :: "channel \<Rightarrow> nat multiset" where
  "grant_of (Sent slot) = {#slot#}"
| "grant_of _ = {#}"

text \<open>The slots sent to the tickets \<open>us\<close> and not received yet.\<close>

definition grants :: "nat list \<Rightarrow> (nat \<Rightarrow> channel) \<Rightarrow> nat multiset" where
  "grants us ch = (\<Sum>i \<leftarrow> us. grant_of (ch i))"

lemma grants_simps [simp]:
  "grants [] ch = {#}" "grants (i # us) ch = grant_of (ch i) + grants us ch"
  by (simp_all add: grants_def)

lemma grants_outside [simp]: "i \<notin> set us \<Longrightarrow> grants us (ch(i := c)) = grants us ch"
  by (induction us) auto

lemma grants_update:
  "distinct us \<Longrightarrow> i \<in> set us \<Longrightarrow>
    grants us (ch(i := c)) + grant_of (ch i) = grants us ch + grant_of c"
  by (induction us) (auto simp: ac_simps)

lemma grants_remove1:
  "i \<in> set us \<Longrightarrow> grants us ch = grant_of (ch i) + grants (remove1 i us) ch"
  by (induction us) (auto simp: ac_simps)

definition core :: "nat multiset \<Rightarrow> nat list \<Rightarrow> scheduler \<Rightarrow> bool" where
  "core P us s \<longleftrightarrow>
     distinct (map r_id (running_slots s)) \<and> (\<forall>r \<in> set (running_slots s). r_id r \<le> next_id s) \<and>
     distinct (map w_id (waiting s)) \<and> distinct us \<and> (\<forall>i \<in> set us. i \<le> next_id s) \<and>
     (\<forall>w \<in> set (waiting s). w_id w \<in> set us \<and> channels s (w_id w) = Open) \<and>
     (\<forall>i \<in> set us. i \<in> w_id ` set (waiting s) \<or> (\<exists>slot. channels s i = Sent slot)) \<and>
     mset (map r_id (running_slots s)) = P + grants us (channels s) \<and>
     rounds_ok (waiting s) \<and> 1 \<le> capacity s"

lemma remove_id_absent: "i \<notin> f ` set xs \<Longrightarrow> remove_id f i xs = xs"
  by (induction xs) auto

lemma remove_id_split:
  "i \<in> f ` set xs \<Longrightarrow> \<exists>as x bs. xs = as @ x # bs \<and> f x = i \<and> i \<notin> f ` set as \<and> remove_id f i xs = as @ bs"
proof (induction xs)
  case (Cons y xs)
  show ?case
  proof (cases "f y = i")
    case True
    then show ?thesis by (intro exI [of _ "[]"] exI [of _ y] exI [of _ xs]) simp
  next
    case False
    with Cons obtain as x bs where "xs = as @ x # bs \<and> f x = i \<and> i \<notin> f ` set as \<and> remove_id f i xs = as @ bs"
      by auto
    with False show ?thesis by (intro exI [of _ "y # as"] exI [of _ x] exI [of _ bs]) auto
  qed
qed simp

section \<open>Handing a slot over\<close>

lemma take_next_core:
  assumes "core P us s" "take_next now s = Some (w, s')"
  shows "w \<in> set (waiting s)" "distinct (map w_id (waiting s'))" "rounds_ok (waiting s')"
    "set (waiting s) = insert w (set (waiting s'))" "\<forall>v \<in> set (waiting s'). w_id v \<noteq> w_id w"
    "length (waiting s) = Suc (length (waiting s'))"
proof -
  from queue.pick_Some [OF take_next_Some(1) [OF assms(2)]]
  obtain as bs where w: "waiting s = as @ w # bs" "waiting s' = as @ bs" by blast
  then show "w \<in> set (waiting s)" "distinct (map w_id (waiting s'))" "rounds_ok (waiting s')"
    "set (waiting s) = insert w (set (waiting s'))" "\<forall>v \<in> set (waiting s'). w_id v \<noteq> w_id w"
    "length (waiting s) = Suc (length (waiting s'))"
    using assms(1) rounds_ok_remove [of as w bs] by (auto simp: core_def image_iff)
qed

lemma grant_core:
  assumes "core P us s" "take_next now s = Some (w, s1)"
  shows "\<exists>s2. hand_over w now s1 = (True, s2) \<and> core P us s2 \<and> waiting s2 = waiting s1 \<and>
    length (running_slots s2) = Suc (length (running_slots s)) \<and>
    config s2 = config s \<and> capacity s2 = capacity s \<and> paused s2 = paused s \<and>
    next_id s \<le> next_id s2"
proof -
  note t = take_next_Some [OF assms(2)] and w = take_next_core [OF assms]
  let ?i = "next_id s + 1"
  let ?r = "\<lparr>r_id = ?i, r_band = w_band w, r_started = now, r_id_and_model = None,
    r_prompt_tokens = 0\<rparr>"
  define s2 where "s2 = s1\<lparr>next_id := ?i, running_slots := running_slots s @ [?r],
    channels := (channels s)(w_id w := Sent ?i)\<rparr>"
  have wid: "w_id w \<in> set us" "channels s (w_id w) = Open"
    using assms(1) w(1) by (auto simp: core_def)
  then have h: "hand_over w now s1 = (True, s2)"
    using t by (simp add: hand_over_def reserve_running_def send_def Let_def s2_def)
  have g: "grants us ((channels s)(w_id w := Sent ?i)) = grants us (channels s) + {#?i#}"
    using grants_update [of us "w_id w" "channels s" "Sent ?i"] wid assms(1) by (simp add: core_def)
  have "core P us s2"
    using assms(1) w t wid g unfolding core_def s2_def by (auto simp: le_Suc_eq)
  with h t show ?thesis by (simp add: s2_def)
qed

section \<open>Operations that hand out free slots\<close>

locale slot_keeper =
  fixes f :: "scheduler \<Rightarrow> scheduler"
  assumes keeps_core: "core P us s \<Longrightarrow> core P us (f s)"
    and keeps_frame: "core P us s \<Longrightarrow>
      config (f s) = config s \<and> capacity (f s) = capacity s \<and> paused (f s) = paused s"
    and only_grants: "core P us s \<Longrightarrow>
      length (running_slots (f s)) + length (waiting (f s))
        = length (running_slots s) + length (waiting s) \<and>
      length (running_slots s) \<le> length (running_slots (f s)) \<and> next_id s \<le> next_id (f s)"
begin

lemma never_idle:
  assumes "core P us s" "waiting s \<noteq> [] \<Longrightarrow> capacity s \<le> length (running_slots s)"
    and "waiting (f s) \<noteq> []"
  shows "capacity (f s) \<le> length (running_slots (f s))"
proof -
  have "0 < length (waiting (f s))" using assms(3) by simp
  then have "0 < length (waiting s)" using only_grants [OF assms(1)] by linarith
  then show ?thesis using assms(2) keeps_frame [OF assms(1)] only_grants [OF assms(1)] by simp
qed

end

lemma offer_cases:
  assumes "core P us s"
  obtains "waiting s = []" "offer now s = s"
  | w s1 where "take_next now s = Some (w, s1)" "hand_over w now s1 = (True, offer now s)"
proof (cases "take_next now s")
  case None
  then show ?thesis using that(1) by (simp add: offer.simps [of now s] take_next_None)
next
  case (Some p)
  then obtain w s1 where t: "take_next now s = Some (w, s1)" by (cases p) auto
  obtain s2 where "hand_over w now s1 = (True, s2)" using grant_core [OF assms t] by blast
  with t show ?thesis by (intro that(2) [OF t]) (simp add: offer.simps [of now s])
qed

interpretation offer: slot_keeper "offer now" for now
proof unfold_locales
  fix P us s assume c: "core P us s"
  show "core P us (offer now s)"
    by (rule offer_cases [OF c, of now]) (use c grant_core [OF c] in fastforce)+
  show "config (offer now s) = config s \<and> capacity (offer now s) = capacity s \<and>
      paused (offer now s) = paused s"
    by (rule offer_cases [OF c, of now]) (use c grant_core [OF c] in fastforce)+
  show "length (running_slots (offer now s)) + length (waiting (offer now s))
        = length (running_slots s) + length (waiting s) \<and>
      length (running_slots s) \<le> length (running_slots (offer now s)) \<and>
      next_id s \<le> next_id (offer now s)"
    by (rule offer_cases [OF c, of now]) (use c grant_core [OF c] take_next_core(6) [OF c] in fastforce)+
qed

lemma fill_keeps:
  "core P us s \<Longrightarrow> core P us (fill now s) \<and> config (fill now s) = config s \<and>
    capacity (fill now s) = capacity s \<and> paused (fill now s) = paused s \<and>
    length (running_slots (fill now s)) + length (waiting (fill now s))
        = length (running_slots s) + length (waiting s) \<and>
    length (running_slots s) \<le> length (running_slots (fill now s)) \<and>
    length (running_slots (fill now s)) \<le> max (capacity s) (length (running_slots s)) \<and>
    (waiting (fill now s) \<noteq> [] \<longrightarrow> capacity s \<le> length (running_slots (fill now s))) \<and>
    next_id s \<le> next_id (fill now s)"
proof (induction now s rule: fill.induct)
  case (1 now s)
  show ?case
  proof (cases "length (running_slots s) < capacity s \<and> waiting s \<noteq> []")
    case False
    then have "fill now s = s" by (auto simp: fill.simps [of now s])
    with False 1(2) show ?thesis by auto
  next
    case True
    then obtain w s1 where t: "take_next now s = Some (w, s1)"
      using take_next_None [of now s] by fastforce
    from grant_core [OF 1(2) t] obtain s2 where g: "hand_over w now s1 = (True, s2)" "core P us s2"
      "waiting s2 = waiting s1" "length (running_slots s2) = Suc (length (running_slots s))"
      "config s2 = config s" "capacity s2 = capacity s" "paused s2 = paused s"
      "next_id s \<le> next_id s2" by blast
    have f: "fill now s = fill now s2" using True t g(1) by (simp add: fill.simps [of now s])
    have "core P us (snd (hand_over w now s1))" using g by simp
    from 1(1) [OF conjunct1 [OF True] t _ this] g take_next_core(6) [OF 1(2) t] True
    show ?thesis by (simp add: f)
  qed
qed

interpretation fill: slot_keeper "fill now" for now
  by unfold_locales (use fill_keeps in blast)+

section \<open>The operations against the invariant\<close>

lemma core_new: "core {#} [] (scheduler_new cap cfg)"
  by (simp add: core_def scheduler_new_def)

lemma core_counts [simp]: "core P us (s\<lparr>counts := c\<rparr>) = core P us s"
  by (simp add: core_def)

lemma core_paused [simp]: "core P us (s\<lparr>paused := b\<rparr>) = core P us s"
  by (simp add: core_def)

lemma core_limits [simp]: "core P us (s\<lparr>limits_live := l\<rparr>) = core P us s"
  by (simp add: core_def)

lemma core_capacity: "core P us s \<Longrightarrow> core P us (s\<lparr>capacity := max cap 1\<rparr>)"
  by (simp add: core_def)

lemma reserve_core:
  assumes "core P us s"
  shows "core (add_mset (fst (reserve_running b now s)) P) us (snd (reserve_running b now s))"
  using assms by (auto simp: core_def reserve_running_def Let_def le_Suc_eq)

lemma push_core:
  assumes "core P us s"
  shows "core P (fst (push_waiter b peer now s) # us) (snd (push_waiter b peer now s))"
proof -
  have fresh: "next_id s + 1 \<notin> set us" using assms by (auto simp: core_def)
  then have "\<forall>w \<in> set (waiting s). w_id w \<noteq> next_id s + 1"
    using assms by (auto simp: core_def)
  with fresh assms show ?thesis
    by (auto simp: core_def push_waiter_def Let_def le_Suc_eq)
qed

lemma remove_slot_core:
  assumes "core (add_mset i P) us s"
  shows "core P us (s\<lparr>running_slots := remove_id r_id i (running_slots s)\<rparr>)"
    "length (running_slots s) = Suc (length (remove_id r_id i (running_slots s)))"
proof -
  have "i \<in># mset (map r_id (running_slots s))" using assms by (simp add: core_def)
  then have "i \<in> r_id ` set (running_slots s)" by simp
  from remove_id_split [OF this] obtain as x bs where
    r: "running_slots s = as @ x # bs" "r_id x = i" "remove_id r_id i (running_slots s) = as @ bs"
    by blast
  then show "core P us (s\<lparr>running_slots := remove_id r_id i (running_slots s)\<rparr>)"
    "length (running_slots s) = Suc (length (remove_id r_id i (running_slots s)))"
    using assms by (auto simp: core_def)
qed

lemma release_effect:
  assumes "core (add_mset i P) us s"
  shows "core P us (release i now s)"
    "config (release i now s) = config s \<and> capacity (release i now s) = capacity s \<and>
     paused (release i now s) = paused s \<and> next_id s \<le> next_id (release i now s)"
    "\<not> paused s \<Longrightarrow> waiting s \<noteq> [] \<Longrightarrow>
      length (running_slots (release i now s)) = length (running_slots s) \<and>
      length (waiting s) = Suc (length (waiting (release i now s)))"
    "paused s \<or> waiting s = [] \<Longrightarrow>
      Suc (length (running_slots (release i now s))) = length (running_slots s) \<and>
      waiting (release i now s) = waiting s"
proof -
  let ?s = "s\<lparr>running_slots := remove_id r_id i (running_slots s)\<rparr>"
  note c = remove_slot_core [OF assms]
  have rel: "release i now s = (if paused s then ?s else offer now ?s)"
    by (simp add: release_def Let_def)
  show "core P us (release i now s)" using c offer.keeps_core [OF c(1)] by (simp add: rel)
  show "config (release i now s) = config s \<and> capacity (release i now s) = capacity s \<and>
     paused (release i now s) = paused s \<and> next_id s \<le> next_id (release i now s)"
    using offer.keeps_frame [OF c(1)] offer.only_grants [OF c(1), of now] by (simp add: rel)
  show "length (running_slots (release i now s)) = length (running_slots s) \<and>
      length (waiting s) = Suc (length (waiting (release i now s)))"
    if p: "\<not> paused s" "waiting s \<noteq> []"
  proof (rule offer_cases [OF c(1), of now])
    fix w s1 assume t: "take_next now ?s = Some (w, s1)" "hand_over w now s1 = (True, offer now ?s)"
    show ?thesis
      using grant_core [OF c(1) t(1)] t(2) take_next_core(6) [OF c(1) t(1)] c(2) p by (auto simp: rel)
  qed (use p in simp)
  show "Suc (length (running_slots (release i now s))) = length (running_slots s) \<and>
      waiting (release i now s) = waiting s" if "paused s \<or> waiting s = []"
    using that c(2) by (auto simp: rel offer.simps [of now ?s])
qed

lemma close_core:
  assumes "core P us s" "i \<in> set us" "channels s i = Sent slot"
  shows "core (add_mset slot P) (remove1 i us) (s\<lparr>channels := (channels s)(i := Closed)\<rparr>)"
  using assms grants_remove1 [OF assms(2), of "channels s"]
  by (auto simp: core_def)

lemma withdraw_core:
  assumes "core P us s" "i \<in> w_id ` set (waiting s)"
  shows "core P (remove1 i us) (s\<lparr>waiting := remove_id w_id i (waiting s),
    channels := (channels s)(i := Closed)\<rparr>)"
proof -
  from remove_id_split [OF assms(2)] obtain as w bs where
    w: "waiting s = as @ w # bs" "w_id w = i" "remove_id w_id i (waiting s) = as @ bs" by blast
  have i: "i \<in> set us" "channels s i = Open" using assms(1) w by (auto simp: core_def)
  show ?thesis
    using assms(1) w i grants_remove1 [OF i(1), of "channels s"] rounds_ok_remove [of as w bs]
    by (auto simp: core_def image_iff)
qed

lemma ticket_drop_core:
  assumes "core P us s" "t_taken t \<or> t_id t \<in> set us"
  shows "core P (if t_taken t then us else remove1 (t_id t) us) (ticket_drop t now s)"
    "config (ticket_drop t now s) = config s \<and> capacity (ticket_drop t now s) = capacity s \<and>
     paused (ticket_drop t now s) = paused s \<and> next_id s \<le> next_id (ticket_drop t now s)"
    "length (running_slots (ticket_drop t now s)) \<le> length (running_slots s)"
    "\<not> paused s \<Longrightarrow> (waiting s \<noteq> [] \<longrightarrow> capacity s \<le> length (running_slots s)) \<Longrightarrow>
      waiting (ticket_drop t now s) \<noteq> [] \<longrightarrow>
        capacity s \<le> length (running_slots (ticket_drop t now s))"
proof -
  let ?i = "t_id t" and ?s' = "ticket_drop t now s"
  have ids: "?i \<in> set us \<Longrightarrow> ?i \<in> w_id ` set (waiting s) \<or> (\<exists>slot. channels s ?i = Sent slot)"
    using assms(1) by (simp add: core_def)
  consider (taken) "t_taken t" | (waits) "\<not> t_taken t" "?i \<in> w_id ` set (waiting s)"
    | (granted) slot where "\<not> t_taken t" "?i \<notin> w_id ` set (waiting s)" "?i \<in> set us"
      "channels s ?i = Sent slot"
    using assms ids by blast
  then have "core P (if t_taken t then us else remove1 ?i us) ?s' \<and>
      config ?s' = config s \<and> capacity ?s' = capacity s \<and> paused ?s' = paused s \<and>
      next_id s \<le> next_id ?s' \<and>
      length (running_slots ?s') \<le> length (running_slots s) \<and>
      (\<not> paused s \<longrightarrow> (waiting s \<noteq> [] \<longrightarrow> capacity s \<le> length (running_slots s)) \<longrightarrow>
        waiting ?s' \<noteq> [] \<longrightarrow> capacity s \<le> length (running_slots ?s'))"
  proof cases
    case taken
    then show ?thesis using assms(1) by (simp add: ticket_drop_def)
  next
    case waits
    then have d: "?s' = s\<lparr>waiting := remove_id w_id ?i (waiting s), counts := counts ?s',
        channels := (channels s)(?i := Closed)\<rparr>"
      by (auto simp: ticket_drop_def withdraw_def list_ex_iff Let_def)
    have "core P (remove1 ?i us) (s\<lparr>waiting := remove_id w_id ?i (waiting s), counts := counts ?s',
        channels := (channels s)(?i := Closed)\<rparr>)"
      using withdraw_core [OF assms(1) waits(2)] by (simp add: core_def)
    then have "core P (remove1 ?i us) ?s'" by (subst d)
    moreover have "waiting s \<noteq> []" using waits(2) by auto
    moreover have "running_slots ?s' = running_slots s" "config ?s' = config s" "capacity ?s' = capacity s"
      "paused ?s' = paused s" "next_id ?s' = next_id s" by (subst d, simp)+
    ultimately show ?thesis using waits(1) by simp
  next
    case granted
    let ?c = "s\<lparr>channels := (channels s)(?i := Closed)\<rparr>"
    have d: "?s' = release slot now ?c"
      using granted by (auto simp: ticket_drop_def withdraw_def list_ex_iff Let_def image_iff)
    note r = release_effect [OF close_core [OF assms(1) granted(3,4)], of now]
    have "length (running_slots ?s') \<le> length (running_slots s)"
      using r(3,4) by (cases "paused s \<or> waiting s = []") (auto simp: d)
    moreover have "waiting ?s' \<noteq> [] \<longrightarrow> capacity s \<le> length (running_slots ?s')"
      if "\<not> paused s" "waiting s \<noteq> [] \<longrightarrow> capacity s \<le> length (running_slots s)"
      using r(3,4) that by (cases "waiting s = []") (auto simp: d)
    ultimately show ?thesis using r(1,2) granted(1) by (simp add: d)
  qed
  then show "core P (if t_taken t then us else remove1 ?i us) ?s'"
    "config ?s' = config s \<and> capacity ?s' = capacity s \<and> paused ?s' = paused s \<and>
     next_id s \<le> next_id ?s'"
    "length (running_slots ?s') \<le> length (running_slots s)"
    "\<not> paused s \<Longrightarrow> (waiting s \<noteq> [] \<longrightarrow> capacity s \<le> length (running_slots s)) \<Longrightarrow>
      waiting ?s' \<noteq> [] \<longrightarrow> capacity s \<le> length (running_slots ?s')"
    by blast+
qed

section \<open>The system\<close>

record system =
  sched :: scheduler
  tickets :: "ticket list"
  permits :: "nat list"
  guards :: nat

datatype op =
    Arrive band peer_key | Claim nat | TimeOut nat | DropTicket nat | DropPermit nat
  | SetCapacity nat | SetBandLimits band_limits | Pause | DropGuard
  | Describe nat string string u32 | InBand nat band

definition start :: "nat \<Rightarrow> scheduler_config \<Rightarrow> system" where
  "start cap cfg = \<lparr>sched = scheduler_new cap cfg, tickets = [], permits = [], guards = 0\<rparr>"

fun exec :: "nat \<Rightarrow> op \<Rightarrow> system \<Rightarrow> system" where
  "exec now (Arrive b peer) y =
    (case admit_or_enqueue b peer now (sched y) of
       (Inr slot, s) \<Rightarrow> y\<lparr>sched := s, permits := slot # permits y\<rparr>
     | (Inl i, s) \<Rightarrow> y\<lparr>sched := s, tickets := ticket_of i b now # tickets y\<rparr>)"
| "exec now (Claim i) y =
    (case find (\<lambda>t. t_id t = i \<and> \<not> t_taken t) (tickets y) of
       None \<Rightarrow> y
     | Some t \<Rightarrow>
         (case ticket_granted t (sched y) of
            None \<Rightarrow> y
          | Some (slot, t', s) \<Rightarrow>
              y\<lparr>sched := s, permits := slot # permits y,
                tickets := map (\<lambda>u. if t_id u = i then t' else u) (tickets y)\<rparr>))"
| "exec now (TimeOut i) y =
    y\<lparr>tickets := map (\<lambda>u. if t_id u = i then ticket_timed_out u else u) (tickets y)\<rparr>"
| "exec now (DropTicket i) y =
    (case find (\<lambda>t. t_id t = i) (tickets y) of
       None \<Rightarrow> y
     | Some t \<Rightarrow> y\<lparr>sched := ticket_drop t now (sched y),
                   tickets := filter (\<lambda>u. t_id u \<noteq> i) (tickets y)\<rparr>)"
| "exec now (DropPermit slot) y =
    (if slot \<in> set (permits y)
     then y\<lparr>sched := permit_drop slot now (sched y), permits := remove1 slot (permits y)\<rparr> else y)"
| "exec now (SetCapacity cap) y = y\<lparr>sched := set_capacity cap now (sched y)\<rparr>"
| "exec now (SetBandLimits lim) y = y\<lparr>sched := set_band_limits lim (sched y)\<rparr>"
| "exec now Pause y = y\<lparr>sched := pause (sched y), guards := guards y + 1\<rparr>"
| "exec now DropGuard y =
    (if guards y > 0 then y\<lparr>sched := resume now (sched y), guards := guards y - 1\<rparr> else y)"
| "exec now (Describe slot i model prompt_tokens) y =
    y\<lparr>sched := describe slot i model prompt_tokens (sched y)\<rparr>"
| "exec now (InBand slot b) y = y\<lparr>sched := in_band slot b (sched y)\<rparr>"

inductive reachable :: "(op \<Rightarrow> system \<Rightarrow> bool) \<Rightarrow> system \<Rightarrow> bool" for allowed where
  started: "reachable allowed (start cap cfg)"
| stepped: "reachable allowed y \<Longrightarrow> allowed op y \<Longrightarrow> reachable allowed (exec now op y)"

definition ticket_ids :: "system \<Rightarrow> nat list" where
  "ticket_ids y = map t_id (tickets y)"

definition untaken :: "system \<Rightarrow> nat list" where
  "untaken y = map t_id (filter (\<lambda>t. \<not> t_taken t) (tickets y))"

definition busy_when_waiting :: "scheduler \<Rightarrow> bool" where
  "busy_when_waiting s \<longleftrightarrow>
    (\<not> paused s \<longrightarrow> waiting s \<noteq> [] \<longrightarrow> capacity s \<le> length (running_slots s))"

definition system_ok :: "system \<Rightarrow> bool" where
  "system_ok y \<longleftrightarrow> core (mset (permits y)) (untaken y) (sched y) \<and>
     distinct (ticket_ids y) \<and> (\<forall>i \<in> set (ticket_ids y). i \<le> next_id (sched y)) \<and>
     busy_when_waiting (sched y) \<and> (paused (sched y) \<longrightarrow> 0 < guards y)"

section \<open>Every operation keeps the system in order\<close>

lemma system_ok_start: "system_ok (start cap cfg)"
  using core_new [of cap cfg]
  by (simp add: system_ok_def start_def untaken_def ticket_ids_def busy_when_waiting_def scheduler_new_def)

lemma admit_or_enqueue_cases:
  obtains s where "take_free_slot b now s0 = Some (reserve_running b now s)"
      "admit_or_enqueue b peer now s0
        = (Inr (fst (reserve_running b now s)), snd (reserve_running b now s))"
      "s = s0\<lparr>counts := counts s\<rparr>" "\<not> paused s0" "waiting s0 = []"
      "length (running_slots s0) < capacity s0"
  | "admit_or_enqueue b peer now s0
      = (Inl (fst (push_waiter b peer now s0)), snd (push_waiter b peer now s0))"
    "paused s0 \<or> waiting s0 \<noteq> [] \<or> capacity s0 \<le> length (running_slots s0)"
proof (cases "\<not> paused s0 \<and> length (running_slots s0) < capacity s0 \<and> waiting s0 = []")
  case True
  let ?s = "s0\<lparr>counts := (counts s0)\<lparr>admitted_immediately := admitted_immediately (counts s0) + 1\<rparr>\<rparr>"
  from True show ?thesis
    by (intro that(1) [of ?s]) (simp_all add: take_free_slot_def admit_or_enqueue_def case_prod_unfold)
next
  case False
  then show ?thesis
    by (intro that(2)) (auto simp: take_free_slot_def admit_or_enqueue_def case_prod_unfold)
qed

lemma reserve_simps [simp]:
  "waiting (snd (reserve_running b now s)) = waiting s"
  "paused (snd (reserve_running b now s)) = paused s"
  "capacity (snd (reserve_running b now s)) = capacity s"
  "next_id (snd (reserve_running b now s)) = next_id s + 1"
  "length (running_slots (snd (reserve_running b now s))) = Suc (length (running_slots s))"
  by (simp_all add: reserve_running_def Let_def)

lemma push_simps [simp]:
  "fst (push_waiter b peer now s) = next_id s + 1"
  "paused (snd (push_waiter b peer now s)) = paused s"
  "capacity (snd (push_waiter b peer now s)) = capacity s"
  "next_id (snd (push_waiter b peer now s)) = next_id s + 1"
  "running_slots (snd (push_waiter b peer now s)) = running_slots s"
  by (simp_all add: push_waiter_def Let_def)

lemma exec_arrive:
  assumes "system_ok y"
  shows "system_ok (exec now (Arrive b peer) y)"
proof (rule admit_or_enqueue_cases [of b now "sched y" peer])
  fix s assume a: "admit_or_enqueue b peer now (sched y)
      = (Inr (fst (reserve_running b now s)), snd (reserve_running b now s))"
    and s: "s = (sched y)\<lparr>counts := counts s\<rparr>" and idle: "waiting (sched y) = []"
  have frame: "next_id s = next_id (sched y)" "paused s = paused (sched y)" "waiting s = waiting (sched y)"
    by (subst s, simp)+
  have "core (mset (permits y)) (untaken y) s"
    using assms by (subst s) (simp add: system_ok_def)
  from reserve_core [OF this, of b now] assms frame idle show ?thesis
    by (auto simp: a system_ok_def untaken_def ticket_ids_def busy_when_waiting_def)
next
  assume a: "admit_or_enqueue b peer now (sched y)
      = (Inl (fst (push_waiter b peer now (sched y))), snd (push_waiter b peer now (sched y)))"
    and full: "paused (sched y) \<or> waiting (sched y) \<noteq> [] \<or>
      capacity (sched y) \<le> length (running_slots (sched y))"
  have "core (mset (permits y)) (untaken y) (sched y)" using assms by (simp add: system_ok_def)
  from push_core [OF this, of b peer now] assms full show ?thesis
    by (auto simp: a system_ok_def untaken_def ticket_ids_def busy_when_waiting_def ticket_of_def)
qed

text \<open>What the ticket list contributes to the invariant when a ticket is claimed, told that it timed
  out, or dropped.\<close>

lemma untaken_mark:
  "t_taken t' \<Longrightarrow>
    map t_id (filter (\<lambda>u. \<not> t_taken u) (map (\<lambda>u. if t_id u = i then t' else u) ts))
      = filter (\<lambda>j. j \<noteq> i) (map t_id (filter (\<lambda>u. \<not> t_taken u) ts))"
  by (induction ts) auto

lemma ids_mark:
  "t_id t' = i \<Longrightarrow> map t_id (map (\<lambda>u. if t_id u = i then t' else u) ts) = map t_id ts"
  by (induction ts) auto

lemma tickets_time_out:
  "map t_id (map (\<lambda>u. if t_id u = i then ticket_timed_out u else u) ts) = map t_id ts"
  "map t_id (filter (\<lambda>u. \<not> t_taken u) (map (\<lambda>u. if t_id u = i then ticket_timed_out u else u) ts))
    = map t_id (filter (\<lambda>u. \<not> t_taken u) ts)"
  by (induction ts) (auto simp: ticket_timed_out_def)

lemma untaken_drop:
  "map t_id (filter (\<lambda>u. \<not> t_taken u) (filter (\<lambda>u. t_id u \<noteq> i) ts))
    = filter (\<lambda>j. j \<noteq> i) (map t_id (filter (\<lambda>u. \<not> t_taken u) ts))"
  "map t_id (filter (\<lambda>u. t_id u \<noteq> i) ts) = filter (\<lambda>j. j \<noteq> i) (map t_id ts)"
  by (induction ts) auto

lemma remove1_filter: "distinct us \<Longrightarrow> remove1 i us = filter (\<lambda>j. j \<noteq> i) us"
  by (auto simp: distinct_remove1_removeAll removeAll_filter_not_eq intro: filter_cong)

lemma taken_not_untaken:
  "distinct (map t_id ts) \<Longrightarrow> t \<in> set ts \<Longrightarrow> t_taken t \<Longrightarrow>
    t_id t \<notin> set (map t_id (filter (\<lambda>u. \<not> t_taken u) ts))"
  by (auto simp: distinct_map dest: inj_onD)

lemma system_core: "system_ok y \<Longrightarrow> core (mset (permits y)) (untaken y) (sched y)"
  by (simp add: system_ok_def)

lemma exec_claim:
  assumes "system_ok y"
  shows "system_ok (exec now (Claim i) y)"
proof (cases "find (\<lambda>t. t_id t = i \<and> \<not> t_taken t) (tickets y)")
  case (Some t)
  then have t: "t \<in> set (tickets y)" "t_id t = i" "\<not> t_taken t" by (auto simp: find_Some_iff)
  show ?thesis
  proof (cases "channels (sched y) i")
    case (Sent slot)
    let ?t = "t\<lparr>t_taken := True\<rparr>"
    define y' where "y' = y\<lparr>sched := (sched y)\<lparr>channels := (channels (sched y))(i := Closed)\<rparr>,
        permits := slot # permits y, tickets := map (\<lambda>u. if t_id u = i then ?t else u) (tickets y)\<rparr>"
    have e: "exec now (Claim i) y = y'" using Some Sent t(2) by (simp add: ticket_granted_def y'_def)
    have u: "i \<in> set (untaken y)" using t by (auto simp: untaken_def)
    note c = close_core [OF system_core [OF assms] u Sent]
    have "distinct (untaken y)" using system_core [OF assms] by (simp add: core_def)
    then have un: "untaken y' = remove1 i (untaken y)"
      using untaken_mark [of ?t i] by (simp add: y'_def untaken_def remove1_filter)
    have "ticket_ids y' = ticket_ids y" using ids_mark [of ?t i] t(2) by (simp add: y'_def ticket_ids_def)
    then show ?thesis
      using c un assms unfolding e by (simp add: system_ok_def y'_def busy_when_waiting_def)
  qed (use assms Some t(2) in \<open>simp_all add: ticket_granted_def\<close>)
qed (use assms in simp)

lemma exec_time_out: "system_ok y \<Longrightarrow> system_ok (exec now (TimeOut i) y)"
proof -
  let ?y = "exec now (TimeOut i) y"
  have "untaken ?y = untaken y" "ticket_ids ?y = ticket_ids y"
    using tickets_time_out [of i "tickets y"] by (simp_all add: untaken_def ticket_ids_def del: map_map)
  then show "system_ok y \<Longrightarrow> system_ok ?y" unfolding system_ok_def by simp
qed

lemma exec_drop_ticket:
  assumes "system_ok y"
  shows "system_ok (exec now (DropTicket i) y)"
proof (cases "find (\<lambda>t. t_id t = i) (tickets y)")
  case (Some t)
  then have t: "t \<in> set (tickets y)" "t_id t = i" by (auto simp: find_Some_iff)
  define y' where "y' = y\<lparr>sched := ticket_drop t now (sched y),
      tickets := filter (\<lambda>u. t_id u \<noteq> i) (tickets y)\<rparr>"
  have e: "exec now (DropTicket i) y = y'" using Some by (simp add: y'_def)
  note c = system_core [OF assms]
  have taken: "t_taken t \<Longrightarrow> i \<notin> set (untaken y)"
    using assms t taken_not_untaken [of "tickets y" t] by (auto simp: system_ok_def ticket_ids_def untaken_def)
  have "distinct (untaken y)" using c by (simp add: core_def)
  moreover have "untaken y' = filter (\<lambda>j. j \<noteq> i) (untaken y)"
    using untaken_drop(1) [of i "tickets y"] by (simp add: y'_def untaken_def)
  ultimately have un: "untaken y' = (if t_taken t then untaken y else remove1 (t_id t) (untaken y))"
    using taken t(2) by (auto simp: remove1_filter filter_id_conv)
  have ids: "ticket_ids y' = filter (\<lambda>j. j \<noteq> i) (ticket_ids y)"
    using untaken_drop(2) by (simp add: y'_def ticket_ids_def)
  have "t_taken t \<or> t_id t \<in> set (untaken y)" using t by (auto simp: untaken_def)
  note d = ticket_drop_core [OF c this, of now]
  have "busy_when_waiting (ticket_drop t now (sched y))"
    using d(2,4) assms by (auto simp: busy_when_waiting_def system_ok_def)
  moreover have "sched y' = ticket_drop t now (sched y)" "permits y' = permits y" "guards y' = guards y"
    by (simp_all add: y'_def)
  ultimately show ?thesis
    using d(1,2) un ids assms unfolding e by (auto simp: system_ok_def intro: le_trans)
qed (use assms in simp)

lemma exec_drop_permit:
  assumes "system_ok y"
  shows "system_ok (exec now (DropPermit slot) y)"
proof (cases "slot \<in> set (permits y)")
  case True
  then have "mset (permits y) = add_mset slot (mset (remove1 slot (permits y)))" by simp
  then have "core (add_mset slot (mset (remove1 slot (permits y)))) (untaken y) (sched y)"
    using system_core [OF assms] by simp
  note r = release_effect [OF this, of now]
  have "busy_when_waiting (release slot now (sched y))"
    using r(2-4) assms by (cases "waiting (sched y) = []") (auto simp: busy_when_waiting_def system_ok_def)
  with r(1,2) True assms show ?thesis
    by (auto simp: system_ok_def permit_drop_def untaken_def ticket_ids_def intro: le_trans)
qed (use assms in simp)

text \<open>An operation that changes nothing but the scheduler.\<close>

lemma system_ok_sched:
  assumes "system_ok y" "core (mset (permits y)) (untaken y) s" "next_id (sched y) \<le> next_id s"
    and "busy_when_waiting s" "paused s \<longrightarrow> 0 < n"
  shows "system_ok (y\<lparr>sched := s, guards := n\<rparr>)"
proof -
  have "untaken (y\<lparr>sched := s, guards := n\<rparr>) = untaken y"
    "ticket_ids (y\<lparr>sched := s, guards := n\<rparr>) = ticket_ids y"
    by (simp_all add: untaken_def ticket_ids_def)
  with assms show ?thesis unfolding system_ok_def by (simp add: le_trans [OF _ assms(3)])
qed

lemma system_ok_only_sched:
  assumes "system_ok y" "core (mset (permits y)) (untaken y) s" "next_id (sched y) \<le> next_id s"
    and "busy_when_waiting s" "paused s = paused (sched y)"
  shows "system_ok (y\<lparr>sched := s\<rparr>)"
  using system_ok_sched [OF assms(1-4), of "guards y"] assms(1,5) by (simp add: system_ok_def)

lemma exec_capacity:
  assumes "system_ok y"
  shows "system_ok (exec now (SetCapacity cap) y)"
proof -
  let ?s = "(sched y)\<lparr>capacity := max cap 1\<rparr>"
  note c = core_capacity [OF system_core [OF assms], of cap]
  note f = fill_keeps [OF c, of now]
  have s: "set_capacity cap now (sched y) = (if paused (sched y) then ?s else fill now ?s)"
    by (simp add: set_capacity_def Let_def)
  show ?thesis
  proof (cases "paused (sched y)")
    case True
    then show ?thesis unfolding exec.simps s
      using c by (intro system_ok_only_sched [OF assms]) (simp_all add: busy_when_waiting_def)
  next
    case False
    then show ?thesis unfolding exec.simps s
      using f by (intro system_ok_only_sched [OF assms]) (simp_all add: busy_when_waiting_def)
  qed
qed

lemma exec_drop_guard:
  assumes "system_ok y"
  shows "system_ok (exec now DropGuard y)"
proof -
  have "core (mset (permits y)) (untaken y) ((sched y)\<lparr>paused := False\<rparr>)"
    using system_core [OF assms] by simp
  note f = fill_keeps [OF this, of now]
  show ?thesis
    using f assms system_ok_sched [OF assms, of "resume now (sched y)" "guards y - 1"]
    by (simp add: resume_def busy_when_waiting_def)
qed

lemma update_id_ids [simp]:
  "(\<And>r. r_id (f r) = r_id r) \<Longrightarrow> map r_id (update_id i f rs) = map r_id rs"
  "length (update_id i f rs) = length rs"
  by (induction rs) auto

lemma core_update_id:
  assumes "core P us s" "\<And>r. r_id (f r) = r_id r"
  shows "core P us (s\<lparr>running_slots := update_id i f (running_slots s)\<rparr>)"
proof -
  have m: "map r_id (update_id i f (running_slots s)) = map r_id (running_slots s)"
    using assms(2) by simp
  then have "r_id ` set (update_id i f (running_slots s)) = r_id ` set (running_slots s)"
    by (metis set_map)
  then have "(\<forall>r \<in> set (update_id i f (running_slots s)). r_id r \<le> n) =
      (\<forall>r \<in> set (running_slots s). r_id r \<le> n)" for n
    by (metis (mono_tags, lifting) image_iff)
  with assms(1) m show ?thesis by (simp add: core_def flip: mset_map)
qed

lemma exec_other:
  assumes "system_ok y"
  shows "system_ok (exec now (SetBandLimits lim) y)" "system_ok (exec now Pause y)"
    "system_ok (exec now (Describe slot i model n) y)" "system_ok (exec now (InBand slot b) y)"
proof -
  note c = system_core [OF assms]
  have b: "busy_when_waiting (sched y)" using assms by (simp add: system_ok_def)
  show "system_ok (exec now Pause y)"
    using system_ok_sched [OF assms, of "pause (sched y)" "guards y + 1"] c
    by (simp add: pause_def busy_when_waiting_def)
  show "system_ok (exec now (SetBandLimits lim) y)"
    using c b unfolding exec.simps
    by (intro system_ok_only_sched [OF assms]) (simp_all add: set_band_limits_def busy_when_waiting_def)
  show "system_ok (exec now (Describe slot i model n) y)"
    using c b unfolding exec.simps
    by (intro system_ok_only_sched [OF assms])
      (simp_all add: describe_def busy_when_waiting_def core_update_id)
  show "system_ok (exec now (InBand slot b) y)"
    using c b unfolding exec.simps
    by (intro system_ok_only_sched [OF assms])
      (simp_all add: in_band_def busy_when_waiting_def core_update_id)
qed

lemmas exec_keeps = exec_arrive exec_claim exec_time_out exec_drop_ticket exec_drop_permit
  exec_capacity exec_drop_guard exec_other

lemma system_ok_exec: "system_ok y \<Longrightarrow> system_ok (exec now op y)"
  by (cases op) (simp_all add: exec_keeps del: exec.simps)

lemma reachable_ok: "reachable allowed y \<Longrightarrow> system_ok y"
  by (induction rule: reachable.induct) (simp_all add: system_ok_start system_ok_exec del: exec.simps)

section \<open>Accounting\<close>

text \<open>
  An id is drawn for every queued request and for every slot that starts, so the slots handed to
  queued requests are the ids that were neither.
\<close>

definition handed :: "scheduler \<Rightarrow> nat" where
  "handed s = next_id s - queued (counts s) - admitted_immediately (counts s)"

definition accounted :: "scheduler \<Rightarrow> bool" where
  "accounted s \<longleftrightarrow>
    queued (counts s) + admitted_immediately (counts s) \<le> next_id s \<and>
    next_id s + length (waiting s) + timed_out (counts s) + abandoned (counts s)
      = 2 * queued (counts s) + admitted_immediately (counts s)"

locale accounted_keeper = slot_keeper +
  assumes accounts: "core P us s \<Longrightarrow> accounted s \<Longrightarrow> accounted (f s)"

lemma grant_accounted:
  assumes "core P us s" "take_next now s = Some (w, s1)" "accounted s"
  shows "accounted (snd (hand_over w now s1))"
proof -
  have c: "timed_out (counts s1) = timed_out (counts s)" "abandoned (counts s1) = abandoned (counts s)"
    "queued (counts s1) = queued (counts s)"
    "admitted_immediately (counts s1) = admitted_immediately (counts s)"
    using assms(2) by (auto simp: take_next_def Let_def split: option.splits)
  have "channels s1 (w_id w) = Open"
    using assms(1) take_next_core(1) [OF assms(1,2)] take_next_Some(7) [OF assms(2)] by (simp add: core_def)
  then show ?thesis
    using assms(3) c take_next_core(6) [OF assms(1,2)] take_next_Some(5) [OF assms(2)]
    by (simp add: accounted_def hand_over_def reserve_running_def send_def Let_def)
qed

interpretation offer: accounted_keeper "offer now" for now
proof unfold_locales
  fix P us s assume c: "core P us s" "accounted s"
  show "accounted (offer now s)"
    by (rule offer_cases [OF c(1), of now]) (use c grant_accounted [OF c(1) _ c(2)] in fastforce)+
qed

interpretation fill: accounted_keeper "fill now" for now
proof unfold_locales
  fix P us s assume "core P us s" "accounted s"
  then show "accounted (fill now s)"
  proof (induction now s rule: fill.induct)
    case (1 now s)
    show ?case
    proof (cases "length (running_slots s) < capacity s \<and> waiting s \<noteq> []")
      case False
      then have "fill now s = s" by (auto simp: fill.simps [of now s])
      with 1 show ?thesis by simp
    next
      case True
      then obtain w s1 where t: "take_next now s = Some (w, s1)"
        using take_next_None [of now s] by fastforce
      have f: "fill now s = fill now (snd (hand_over w now s1))"
        using True t by (simp add: fill.simps [of now s])
      have "core P us (snd (hand_over w now s1))" using grant_core [OF 1(2) t] by auto
      from 1(1) [OF conjunct1 [OF True] t refl this grant_accounted [OF 1(2) t 1(3)]]
      show ?thesis by (simp add: f)
    qed
  qed
qed

lemma release_accounted:
  assumes "core (add_mset i P) us s" "accounted s"
  shows "accounted (release i now s)"
  using offer.accounts [OF remove_slot_core(1) [OF assms(1)], of now] assms(2)
  by (simp add: release_def Let_def accounted_def)

lemma ticket_drop_accounted:
  assumes "core P us s" "t_taken t \<or> t_id t \<in> set us" "accounted s"
  shows "accounted (ticket_drop t now s)"
proof -
  let ?i = "t_id t"
  have ids: "?i \<in> set us \<Longrightarrow> ?i \<in> w_id ` set (waiting s) \<or> (\<exists>slot. channels s ?i = Sent slot)"
    using assms(1) by (simp add: core_def)
  consider (taken) "t_taken t" | (waits) "\<not> t_taken t" "?i \<in> w_id ` set (waiting s)"
    | (granted) slot where "\<not> t_taken t" "?i \<notin> w_id ` set (waiting s)" "?i \<in> set us"
      "channels s ?i = Sent slot"
    using assms(2) ids by blast
  then show ?thesis
  proof cases
    case taken
    then show ?thesis using assms(3) by (simp add: ticket_drop_def)
  next
    case waits
    then have "length (waiting s) = Suc (length (remove_id w_id ?i (waiting s)))"
      using remove_id_split [OF waits(2)] by auto
    with waits assms(3) show ?thesis
      by (cases "t_withdrawal t") (auto simp: ticket_drop_def withdraw_def list_ex_iff Let_def accounted_def)
  next
    case granted
    let ?c = "s\<lparr>channels := (channels s)(?i := Closed)\<rparr>"
    have "ticket_drop t now s = release slot now ?c"
      using granted by (auto simp: ticket_drop_def withdraw_def list_ex_iff Let_def image_iff)
    moreover have "accounted ?c" using assms(3) by (simp add: accounted_def)
    ultimately show ?thesis
      using release_accounted [OF close_core [OF assms(1) granted(3,4)]] by simp
  qed
qed

lemma exec_accounted:
  assumes "system_ok y" "accounted (sched y)"
  shows "accounted (sched (exec now op y))"
proof (cases op)
  case (Arrive b peer)
  have "accounted (snd (admit_or_enqueue b peer now (sched y)))"
    using assms(2)
    by (auto simp: admit_or_enqueue_def take_free_slot_def reserve_running_def push_waiter_def Let_def
        accounted_def)
  with Arrive show ?thesis by (auto split: prod.splits sum.splits)
next
  case (Claim i)
  with assms(2) show ?thesis
    by (auto simp: ticket_granted_def accounted_def split: option.splits channel.splits)
next
  case (DropTicket i)
  show ?thesis
  proof (cases "find (\<lambda>t. t_id t = i) (tickets y)")
    case (Some t)
    then have "t \<in> set (tickets y)" by (auto simp: find_Some_iff)
    then have "t_taken t \<or> t_id t \<in> set (untaken y)" by (auto simp: untaken_def)
    with Some DropTicket ticket_drop_accounted [OF system_core [OF assms(1)]] assms(2)
    show ?thesis by simp
  qed (use DropTicket assms(2) in simp)
next
  case (DropPermit slot)
  show ?thesis
  proof (cases "slot \<in> set (permits y)")
    case True
    then have "core (add_mset slot (mset (remove1 slot (permits y)))) (untaken y) (sched y)"
      using system_core [OF assms(1)] by simp
    from release_accounted [OF this assms(2)] True DropPermit show ?thesis by (simp add: permit_drop_def)
  qed (use DropPermit assms(2) in simp)
next
  case (SetCapacity cap)
  have "accounted ((sched y)\<lparr>capacity := max cap 1\<rparr>)" using assms(2) by (simp add: accounted_def)
  with fill.accounts [OF core_capacity [OF system_core [OF assms(1)]]] SetCapacity show ?thesis
    by (simp add: set_capacity_def Let_def)
next
  case DropGuard
  have "accounted ((sched y)\<lparr>paused := False\<rparr>)" using assms(2) by (simp add: accounted_def)
  moreover have "core (mset (permits y)) (untaken y) ((sched y)\<lparr>paused := False\<rparr>)"
    using system_core [OF assms(1)] by simp
  ultimately show ?thesis using fill.accounts DropGuard assms(2) by (simp add: resume_def)
qed (use assms(2) in \<open>simp_all add: accounted_def set_band_limits_def pause_def describe_def in_band_def\<close>)

lemma reachable_accounted: "reachable allowed y \<Longrightarrow> accounted (sched y)"
proof (induction rule: reachable.induct)
  case (started cap cfg)
  show ?case by (simp add: start_def scheduler_new_def accounted_def zero_counters_def)
next
  case (stepped y op now)
  then show ?case using exec_accounted reachable_ok by blast
qed

section \<open>Capacity\<close>

text \<open>The slot count is lowered only while nothing runs, as the model manager does after a drain.\<close>

fun managed :: "op \<Rightarrow> system \<Rightarrow> bool" where
  "managed (SetCapacity cap) y \<longleftrightarrow>
    capacity (sched y) \<le> max cap 1 \<or> running_slots (sched y) = []"
| "managed _ y = True"

definition within_capacity :: "scheduler \<Rightarrow> bool" where
  "within_capacity s \<longleftrightarrow> length (running_slots s) \<le> capacity s"

lemma exec_within_capacity:
  assumes "system_ok y" "within_capacity (sched y)" "managed op y"
  shows "within_capacity (sched (exec now op y))"
proof (cases op)
  case (Arrive b peer)
  have "within_capacity (snd (admit_or_enqueue b peer now (sched y)))"
    using assms(2)
    by (auto simp: admit_or_enqueue_def take_free_slot_def reserve_running_def push_waiter_def Let_def
        within_capacity_def)
  with Arrive show ?thesis by (auto split: prod.splits sum.splits)
next
  case (Claim i)
  with assms(2) show ?thesis
    by (auto simp: ticket_granted_def within_capacity_def split: option.splits channel.splits)
next
  case (DropTicket i)
  show ?thesis
  proof (cases "find (\<lambda>t. t_id t = i) (tickets y)")
    case (Some t)
    then have "t \<in> set (tickets y)" by (auto simp: find_Some_iff)
    then have "t_taken t \<or> t_id t \<in> set (untaken y)" by (auto simp: untaken_def)
    from ticket_drop_core(2,3) [OF system_core [OF assms(1)] this, of now] Some DropTicket assms(2)
    show ?thesis by (simp add: within_capacity_def)
  qed (use DropTicket assms(2) in simp)
next
  case (DropPermit slot)
  show ?thesis
  proof (cases "slot \<in> set (permits y)")
    case True
    then have "core (add_mset slot (mset (remove1 slot (permits y)))) (untaken y) (sched y)"
      using system_core [OF assms(1)] by simp
    note r = release_effect(2-4) [OF this, of now]
    have "length (running_slots (release slot now (sched y))) \<le> length (running_slots (sched y))"
      using r(2,3) by (cases "paused (sched y) \<or> waiting (sched y) = []") auto
    with r(1) True DropPermit assms(2) show ?thesis by (simp add: permit_drop_def within_capacity_def)
  qed (use DropPermit assms(2) in simp)
next
  case (SetCapacity cap)
  let ?s = "(sched y)\<lparr>capacity := max cap 1\<rparr>"
  have "length (running_slots (fill now ?s)) \<le> max (max cap 1) (length (running_slots (sched y)))"
    "capacity (fill now ?s) = max cap 1"
    using fill_keeps [OF core_capacity [OF system_core [OF assms(1)], of cap], of now] by simp_all
  moreover have "length (running_slots (sched y)) \<le> max cap 1"
    using SetCapacity assms(2,3) by (auto simp: within_capacity_def)
  ultimately show ?thesis
    using SetCapacity by (simp add: set_capacity_def Let_def within_capacity_def)
next
  case DropGuard
  have "core (mset (permits y)) (untaken y) ((sched y)\<lparr>paused := False\<rparr>)"
    using system_core [OF assms(1)] by simp
  from fill_keeps [OF this, of now] DropGuard assms(2) show ?thesis
    by (simp add: resume_def within_capacity_def)
qed (use assms(2) in \<open>simp_all add: within_capacity_def set_band_limits_def pause_def describe_def
    in_band_def\<close>)

lemma reachable_within_capacity: "reachable managed y \<Longrightarrow> within_capacity (sched y)"
proof (induction rule: reachable.induct)
  case (started cap cfg)
  show ?case by (simp add: start_def scheduler_new_def within_capacity_def)
next
  case (stepped y op now)
  then show ?case using exec_within_capacity reachable_ok by blast
qed

section \<open>Properties of every run\<close>

text \<open>C2. No slot is lost and none is held twice. In every reachable state the busy slots are exactly
  those of the permits that are alive and of the grants sent to a ticket that has not claimed or
  dropped them yet, each once.\<close>

theorem every_slot_is_held:
  assumes "reachable allowed y"
  shows "mset (map r_id (running_slots (sched y)))
      = mset (permits y) + grants (untaken y) (channels (sched y)) \<and>
    distinct (map r_id (running_slots (sched y)))"
  using system_core [OF reachable_ok [OF assms]] unfolding core_def by blast


text \<open>C27. As long as the slot count is lowered only while nothing runs, there are never more running
  requests than slots.\<close>

theorem capacity_respected:
  assumes "reachable managed y"
  shows "length (running_slots (sched y)) \<le> capacity (sched y)"
  using reachable_within_capacity [OF assms] by (simp add: within_capacity_def)

text \<open>Every request that was queued is accounted for exactly once: it is still waiting, was handed
  a slot, timed out, or was abandoned.\<close>

theorem queue_accounted:
  assumes "reachable allowed y"
  shows "queued (counts (sched y)) = length (waiting (sched y)) + handed (sched y)
    + timed_out (counts (sched y)) + abandoned (counts (sched y))"
  using reachable_accounted [OF assms] by (auto simp: accounted_def handed_def)

text \<open>A freed slot goes to the request that the order of service names: when a permit is dropped
  while requests wait and admission is open, the first request in rank order is sent a fresh slot,
  the other requests keep their places, and the number of running requests stays the same, whatever
  the capacity.\<close>

theorem freed_slot_goes_to_next:
  assumes "reachable allowed y" "slot \<in> set (permits y)"
    and "\<not> paused (sched y)" "waiting (sched y) \<noteq> []"
  shows "\<exists>w s1 y'. take_next now (sched y) = Some (w, s1) \<and> y' = exec now (DropPermit slot) y \<and>
    channels (sched y') (w_id w) = Sent (next_id (sched y) + 1) \<and>
    waiting (sched y') = waiting s1 \<and>
    length (running_slots (sched y')) = length (running_slots (sched y))"
proof -
  let ?s = "(sched y)\<lparr>running_slots := remove_id r_id slot (running_slots (sched y))\<rparr>"
  have c: "core (add_mset slot (mset (remove1 slot (permits y)))) (untaken y) (sched y)"
    using system_core [OF reachable_ok [OF assms(1)]] assms(2) by simp
  have y': "sched (exec now (DropPermit slot) y) = offer now ?s"
    using assms(2,3) by (simp add: permit_drop_def release_def Let_def)
  obtain w s1 where t: "take_next now (sched y) = Some (w, s1)"
    using take_next_None [of now "sched y"] assms(4) by fastforce
  then have t': "take_next now ?s
      = Some (w, s1\<lparr>running_slots := remove_id r_id slot (running_slots (sched y))\<rparr>)"
    by (auto simp: take_next_def Let_def split: option.splits)
  have "channels (sched y) (w_id w) = Open"
    using c take_next_core(1) [OF c t] by (simp add: core_def)
  then have "offer now ?s = snd (hand_over w now (s1\<lparr>running_slots := remove_id r_id slot
      (running_slots (sched y))\<rparr>))"
    using take_next_Some(7) [OF t]
    by (simp add: offer.simps [of now ?s] t' hand_over_def reserve_running_def send_def Let_def)
  then have "channels (offer now ?s) (w_id w) = Sent (next_id (sched y) + 1)"
    "waiting (offer now ?s) = waiting s1"
    using \<open>channels (sched y) (w_id w) = Open\<close> take_next_Some(5,7) [OF t]
    by (simp_all add: hand_over_def reserve_running_def send_def Let_def)
  with t y' release_effect(3) [OF c assms(3,4), of now] assms(2) show ?thesis
    by (auto simp: permit_drop_def)
qed

text \<open>A grant is never refused: in a reachable state the waiter that is picked still listens, so
  handing it the slot succeeds.\<close>

lemma grant_never_refused:
  assumes "reachable allowed y" "take_next now (sched y) = Some (w, s1)"
  shows "fst (hand_over w now s1)"
  using grant_core [OF system_core [OF reachable_ok [OF assms(1)]] assms(2)] by auto

section \<open>Concrete runs\<close>

text \<open>One slot, one request running, one waiting.\<close>

definition contended :: system where
  "contended = exec 2 (Arrive Interactive None) (exec 1 (Arrive Bulk None) (start 1 default_config))"

lemma contended_reachable: "reachable managed contended"
  unfolding contended_def by (intro reachable.intros managed.simps(2) [THEN iffD2]) simp_all

lemma contended_state:
  "permits contended = [1]" "map w_id (waiting (sched contended)) = [2]"
  "\<not> paused (sched contended)" "capacity (sched contended) = 1"
  "map r_id (running_slots (sched contended)) = [1]"
  by code_simp+

lemma contended_waiting: "waiting (sched contended) \<noteq> []"
  using contended_state(2) by auto

theorem every_slot_is_held_witness:
  "mset (map r_id (running_slots (sched contended)))
    = mset (permits contended) + grants (untaken contended) (channels (sched contended))"
  using every_slot_is_held [OF contended_reachable] by blast


theorem capacity_respected_witness:
  "length (running_slots (sched contended)) \<le> 1"
  using capacity_respected [OF contended_reachable] by (simp add: contended_state(4))

theorem queue_accounted_witness:
  "queued (counts (sched contended)) = length (waiting (sched contended)) + handed (sched contended)
    + timed_out (counts (sched contended)) + abandoned (counts (sched contended))"
  by (rule queue_accounted [OF contended_reachable])

theorem freed_slot_goes_to_next_witness:
  "\<exists>w s1 y'. take_next 3 (sched contended) = Some (w, s1) \<and> y' = exec 3 (DropPermit 1) contended \<and>
    channels (sched y') (w_id w) = Sent (next_id (sched contended) + 1) \<and>
    waiting (sched y') = waiting s1 \<and>
    length (running_slots (sched y')) = length (running_slots (sched contended))"
  by (rule freed_slot_goes_to_next [OF contended_reachable _ contended_state(3) contended_waiting])
    (simp add: contended_state(1))

text \<open>The number of running requests is not brought back under a lowered slot count while requests
  wait: with two slots busy and one request waiting, lowering the count to one and finishing a
  request leaves two running.\<close>

theorem lowered_capacity_not_enforced:
  "let y = exec 5 (DropPermit 1) (exec 4 (SetCapacity 1) (exec 3 (Arrive Bulk None)
       (exec 2 (Arrive Bulk None) (exec 1 (Arrive Bulk None) (start 2 default_config)))))
   in capacity (sched y) = 1 \<and> length (running_slots (sched y)) = 2"
  by code_simp

text \<open>Pauses do not nest. After two guards were taken and one dropped, the other is still alive,
  yet the scheduler admits the request that was waiting.\<close>

theorem overlapping_pauses_resume:
  "let y = exec 4 DropGuard (exec 3 (Arrive Bulk None) (exec 2 Pause (exec 1 Pause
       (start 1 default_config))))
   in guards y = 1 \<and> \<not> paused (sched y) \<and> length (running_slots (sched y)) = 1"
  by code_simp

text \<open>While the scheduler is paused nothing starts: no operation other than the end of a pause makes
  a request run, and arrivals queue.\<close>

theorem paused_starts_nothing:
  assumes "reachable allowed y" "paused (sched y)" "op \<noteq> DropGuard"
  shows "length (running_slots (sched (exec now op y))) \<le> length (running_slots (sched y)) \<and>
    paused (sched (exec now op y))"
proof -
  note c = system_core [OF reachable_ok [OF assms(1)]]
  show ?thesis
  proof (cases op)
    case (Arrive b peer)
    with assms(2) show ?thesis
      by (simp add: admit_or_enqueue_def take_free_slot_def push_waiter_def Let_def)
  next
    case (Claim i)
    with assms(2) show ?thesis
      by (auto simp: ticket_granted_def split: option.splits channel.splits)
  next
    case (DropTicket i)
    show ?thesis
    proof (cases "find (\<lambda>t. t_id t = i) (tickets y)")
      case (Some t)
      then have "t \<in> set (tickets y)" by (auto simp: find_Some_iff)
      then have "t_taken t \<or> t_id t \<in> set (untaken y)" by (auto simp: untaken_def)
      from ticket_drop_core(2,3) [OF c this, of now] Some DropTicket assms(2)
      show ?thesis by simp
    qed (use DropTicket assms(2) in simp)
  next
    case (DropPermit slot)
    show ?thesis
    proof (cases "slot \<in> set (permits y)")
      case True
      then have "core (add_mset slot (mset (remove1 slot (permits y)))) (untaken y) (sched y)"
        using c by simp
      from release_effect(2,4) [OF this, of now] True DropPermit assms(2) show ?thesis
        by (simp add: permit_drop_def)
    qed (use DropPermit assms(2) in simp)
  qed (use assms(2,3) in \<open>simp_all add: set_capacity_def Let_def set_band_limits_def pause_def
      describe_def in_band_def\<close>)
qed

theorem paused_starts_nothing_witness:
  "length (running_slots (sched (exec 2 (Arrive Bulk None) (exec 1 Pause (start 1 default_config))))) = 0"
  using paused_starts_nothing [of managed "exec 1 Pause (start 1 default_config)" "Arrive Bulk None" 2]
    reachable.stepped [OF reachable.started [of managed 1 default_config], of Pause 1]
  by (simp add: pause_def start_def scheduler_new_def)

end
