(* ===== verification/Lw_Btree.thy ===== *)
theory Lw_Btree
  imports Main
begin

text \<open>
  \<open>std::collections::BTreeMap\<close>: the entries in the order of their keys. The contract of a map whose iteration is in
  key order is the locale \<open>ordered_map\<close>; the map is determined by its lookups, and a map filled again from its own
  entries is the same map.
\<close>

fun bt_insert :: "'k::linorder \<Rightarrow> 'v \<Rightarrow> ('k \<times> 'v) list \<Rightarrow> ('k \<times> 'v) list" where
  "bt_insert k v [] = [(k, v)]"
| "bt_insert k v ((k', v') # es) =
    (if k < k' then (k, v) # (k', v') # es else if k = k' then (k, v) # es else (k', v') # bt_insert k v es)"

definition bt_remove :: "'k \<Rightarrow> ('k \<times> 'v) list \<Rightarrow> ('k \<times> 'v) list" where
  "bt_remove k es = filter (\<lambda>(k', v). k' \<noteq> k) es"

definition bt_get :: "('k \<times> 'v) list \<Rightarrow> 'k \<Rightarrow> 'v option" where
  "bt_get es k = map_of es k"

definition bt_values :: "('k \<times> 'v) list \<Rightarrow> 'v list" where
  "bt_values es = map snd es"

text \<open>\<open>get_mut\<close> and an assignment through it.\<close>

definition bt_update :: "'k \<Rightarrow> ('v \<Rightarrow> 'v) \<Rightarrow> ('k \<times> 'v) list \<Rightarrow> ('k \<times> 'v) list" where
  "bt_update k f es = map (\<lambda>(k', v). (k', if k' = k then f v else v)) es"

abbreviation bt_sorted :: "('k::linorder \<times> 'v) list \<Rightarrow> bool" where
  "bt_sorted es \<equiv> sorted_wrt (<) (map fst es)"

lemma same_keys:
  "map fst xs = map fst ys \<Longrightarrow> set xs = set ys \<Longrightarrow> distinct (map fst xs) \<Longrightarrow> xs = ys"
proof (rule nth_equalityI)
  fix i
  assume eq: "map fst xs = map fst ys" "set xs = set ys" "distinct (map fst xs)" and i: "i < length xs"
  have len: "length xs = length ys" using eq(1) by (metis length_map)
  with i eq(2) have "ys ! i \<in> set xs" by simp
  moreover have "fst (ys ! i) = fst (xs ! i)" using eq(1) i len by (metis nth_map)
  moreover have "xs ! i \<in> set xs" using i by simp
  ultimately show "xs ! i = ys ! i" using eq(3) by (metis eq_key_imp_eq_value prod.collapse)
qed (metis length_map)

locale ordered_map =
  fixes entries :: "'m \<Rightarrow> ('k::linorder \<times> 'v) list"
    and get :: "'m \<Rightarrow> 'k \<Rightarrow> 'v option"
    and insert :: "'k \<Rightarrow> 'v \<Rightarrow> 'm \<Rightarrow> 'm"
    and remove :: "'k \<Rightarrow> 'm \<Rightarrow> 'm"
    and valid :: "'m \<Rightarrow> bool"
  assumes ordered: "valid m \<Longrightarrow> bt_sorted (entries m)"
    and get_entries: "valid m \<Longrightarrow> get m k = Some v \<longleftrightarrow> (k, v) \<in> set (entries m)"
    and entries_inject: "valid m \<Longrightarrow> valid n \<Longrightarrow> entries m = entries n \<Longrightarrow> m = n"
    and get_insert: "valid m \<Longrightarrow> get (insert k v m) = (get m)(k := Some v)"
    and get_remove: "valid m \<Longrightarrow> get (remove k m) = (get m)(k := None)"
    and valid_insert: "valid m \<Longrightarrow> valid (insert k v m)"
    and valid_remove: "valid m \<Longrightarrow> valid (remove k m)"
begin

lemma distinct_keys: "valid m \<Longrightarrow> distinct (map fst (entries m))"
  using ordered strict_sorted_iff by blast

lemma extensionality:
  assumes "valid m" "valid n" "get m = get n"
  shows "m = n"
proof -
  have "set (entries m) = set (entries n)"
    using get_entries [OF assms(1)] get_entries [OF assms(2)] assms(3) by (auto simp: set_eq_iff)
  moreover from this have "map fst (entries m) = map fst (entries n)"
    using ordered [OF assms(1)] ordered [OF assms(2)] by (intro strict_sorted_equal) (auto simp: image_iff)
  ultimately have "entries m = entries n"
    using same_keys distinct_keys [OF assms(1)] by metis
  then show ?thesis by (rule entries_inject [OF assms(1,2)])
qed

text \<open>Collecting entries into a map: later ones win.\<close>

lemma get_collect:
  "valid m \<Longrightarrow> valid (fold (\<lambda>(k, v). insert k v) es m) \<and>
    get (fold (\<lambda>(k, v). insert k v) es m) = get m ++ map_of (rev es)"
proof (induction es arbitrary: m)
  case (Cons e es)
  obtain k v where e: "e = (k, v)" by (cases e)
  show ?case using Cons.IH [OF valid_insert [OF Cons.prems, of k v]] Cons.prems
    by (auto simp: e get_insert map_add_def split: option.splits intro!: ext)
qed simp

lemma collect_entries:
  assumes "valid m" "valid e" "get e = Map.empty"
  shows "fold (\<lambda>(k, v). insert k v) (entries m) e = m"
proof -
  have "map_of (rev (entries m)) = map_of (entries m)"
    by (intro map_of_inject_set [THEN iffD2]) (simp_all add: distinct_keys [OF assms(1)] rev_map [symmetric])
  moreover have "map_of (entries m) = get m"
    using get_entries [OF assms(1)] distinct_keys [OF assms(1)] by (metis map_of_eq_Some_iff not_Some_eq ext)
  ultimately show ?thesis
    using get_collect [OF assms(2), of "entries m"] assms by (intro extensionality) simp_all
qed

end

lemma bt_insert_keys: "fst ` set (bt_insert k v es) = insert k (fst ` set es)"
  by (induction k v es rule: bt_insert.induct) auto

lemma bt_insert_sorted: "bt_sorted es \<Longrightarrow> bt_sorted (bt_insert k v es)"
proof (induction k v es rule: bt_insert.induct)
  case (2 k v k' v' es)
  then have "\<forall>x \<in> fst ` set (bt_insert k v es). k' < x" if "k' < k" using that by (auto simp: bt_insert_keys)
  with 2 show ?case by (auto simp: not_less order.strict_iff_order)
qed simp

lemma bt_remove_sorted: "bt_sorted es \<Longrightarrow> bt_sorted (bt_remove k es)"
  by (induction es) (auto simp: bt_remove_def)

lemma bt_get_insert: "bt_sorted es \<Longrightarrow> bt_get (bt_insert k v es) = (bt_get es)(k := Some v)"
  by (induction k v es rule: bt_insert.induct) (auto simp: bt_get_def fun_eq_iff)

lemma bt_get_remove: "bt_get (bt_remove k es) = (bt_get es)(k := None)"
  by (induction es) (auto simp: bt_remove_def bt_get_def fun_eq_iff)

lemma bt_get_Some: "bt_sorted es \<Longrightarrow> bt_get es k = Some v \<longleftrightarrow> (k, v) \<in> set es"
  by (simp add: bt_get_def strict_sorted_iff map_of_eq_Some_iff)

interpretation bt: ordered_map "\<lambda>es. es" bt_get bt_insert bt_remove bt_sorted
  by unfold_locales (simp_all add: bt_get_Some bt_get_insert bt_get_remove bt_insert_sorted bt_remove_sorted)

lemma bt_update_keys [simp]: "map fst (bt_update k f es) = map fst es"
  by (induction es) (auto simp: bt_update_def)

lemma bt_get_update: "bt_get (bt_update k f es) = (bt_get es)(k := map_option f (bt_get es k))"
  by (induction es) (auto simp: bt_update_def bt_get_def fun_eq_iff)

lemma bt_values_get: "bt_sorted es \<Longrightarrow> v \<in> set (bt_values es) \<longleftrightarrow> (\<exists>k. bt_get es k = Some v)"
  by (force simp: bt_get_Some bt_values_def)

lemma bt_contains: "bt_get es k \<noteq> None \<longleftrightarrow> k \<in> fst ` set es"
  by (auto simp: bt_get_def map_of_eq_None_iff)

end
