(* ===== verification/Model_Id.thy ===== *)
theory Model_Id
  imports Lw_Text
begin

text \<open>
  Model ids, \<open>lightweight-core/src/ids.rs\<close>: a slug, an at sign and a context length, with the
  decimal numbers of the standard library they are made of. An id is its text, type \<open>ustr\<close>.
\<close>

section \<open>Decimal numbers\<close>

text \<open>The text \<open>format!\<close> writes for an unsigned integer.\<close>

fun decimal :: "nat \<Rightarrow> ustr" where
  "decimal n = (if n < 10 then [48 + n] else decimal (n div 10) @ [48 + n mod 10])"

declare decimal.simps [simp del]

text \<open>\<open>str::parse::<u32>\<close>: an optional plus sign and at least one digit.\<close>

fun digits_value :: "nat \<Rightarrow> ustr \<Rightarrow> nat option" where
  "digits_value acc [] = Some acc"
| "digits_value acc (c # cs) = (if 48 \<le> c \<and> c \<le> 57 then digits_value (acc * 10 + (c - 48)) cs else None)"

definition without_plus :: "ustr \<Rightarrow> ustr" where
  "without_plus s = (case s of c # d # ds \<Rightarrow> if c = 43 then d # ds else s | _ \<Rightarrow> s)"

definition parse_u32 :: "ustr \<Rightarrow> u32 option" where
  "parse_u32 s =
    (if s = [] then None
     else Option.bind (digits_value 0 (without_plus s)) (\<lambda>n. if n < 2 ^ 32 then Some (word_of_nat n) else None))"

text \<open>\<open>str::rsplit_once\<close> and \<open>str::strip_suffix\<close> with one character.\<close>

definition rsplit_once :: "'a \<Rightarrow> 'a list \<Rightarrow> ('a list \<times> 'a list) option" where
  "rsplit_once sep s = map_option (\<lambda>(after, before). (rev before, rev after)) (split_once sep (rev s))"

definition strip_suffix :: "'a \<Rightarrow> 'a list \<Rightarrow> 'a list option" where
  "strip_suffix c s = (if s \<noteq> [] \<and> last s = c then Some (butlast s) else None)"

section \<open>Ids\<close>

type_synonym model_id = ustr

definition format_context :: "u32 \<Rightarrow> ustr" where
  "format_context n_ctx =
    (if 1024 \<le> n_ctx \<and> n_ctx mod 1024 = 0 then decimal (unat (n_ctx div 1024)) @ ascii ''k'' else decimal (unat n_ctx))"

definition id_with_context :: "ustr \<Rightarrow> u32 \<Rightarrow> model_id" where
  "id_with_context slug n_ctx = slug @ ascii ''@'' @ format_context n_ctx"

definition parse_context :: "ustr \<Rightarrow> u32 option" where
  "parse_context suffix =
    Option.bind
      (case strip_suffix 107 suffix of
         Some kibi \<Rightarrow> Option.bind (parse_u32 kibi) (\<lambda>k. checked_mul k 1024)
       | None \<Rightarrow> parse_u32 suffix)
      (\<lambda>tokens. if 0 < tokens then Some tokens else None)"

definition slug :: "model_id \<Rightarrow> ustr" where
  "slug i = (case rsplit_once 64 i of
     Some (s, suffix) \<Rightarrow> if parse_context suffix \<noteq> None then s else i
   | None \<Rightarrow> i)"

definition id_context :: "model_id \<Rightarrow> u32 option" where
  "id_context i = Option.bind (rsplit_once 64 i) (\<lambda>(_, suffix). parse_context suffix)"

section \<open>Numbers are read back\<close>

lemma digits_value_append:
  "digits_value acc (xs @ [c]) = Option.bind (digits_value acc xs) (\<lambda>n. digits_value n [c])"
  by (induction acc xs rule: digits_value.induct) auto

lemma digits_value_decimal: "digits_value 0 (decimal n) = Some n"
proof (induction n rule: decimal.induct)
  case (1 n)
  show ?case
  proof (cases "n < 10")
    case False
    then show ?thesis using 1 by (subst decimal.simps) (simp add: digits_value_append)
  qed (simp add: decimal.simps)
qed

lemma decimal_not_Nil [simp]: "decimal n \<noteq> []"
  by (subst decimal.simps) simp

lemma decimal_digits: "c \<in> set (decimal n) \<Longrightarrow> 48 \<le> c \<and> c \<le> 57"
proof (induction n rule: decimal.induct)
  case (1 n)
  have "48 \<le> 48 + n mod 10 \<and> 48 + n mod 10 \<le> 57" by simp
  moreover have "c = 48 + n mod 10 \<or> n < 10 \<and> c = 48 + n \<or> \<not> n < 10 \<and> c \<in> set (decimal (n div 10))"
    using 1(2) by (subst (asm) decimal.simps) (auto split: if_splits)
  ultimately show ?case using 1(1) by auto
qed

lemma decimal_inject [simp]: "decimal m = decimal n \<longleftrightarrow> m = n"
  by (metis digits_value_decimal option.inject)

lemma without_plus_decimal [simp]: "without_plus (decimal n) = decimal n"
  using decimal_digits [of 43 n] by (force simp: without_plus_def split: list.splits)

lemma parse_u32_decimal: "n < 2 ^ 32 \<Longrightarrow> parse_u32 (decimal n) = Some (word_of_nat n)"
  by (simp add: parse_u32_def digits_value_decimal)

lemma rsplit_once_last: "c \<notin> set after \<Longrightarrow> rsplit_once c (before @ c # after) = Some (before, after)"
  using split_once_Some [of c "rev after @ c # rev before" "rev after" "rev before"] by (simp add: rsplit_once_def)

lemma rsplit_once_none: "c \<notin> set s \<Longrightarrow> rsplit_once c s = None"
proof (cases "split_once c (rev s)")
  case (Some p)
  then have "c \<in> set (rev s)" by (cases p) (simp add: split_once_Some)
  then show "c \<notin> set s \<Longrightarrow> rsplit_once c s = None" by simp
qed (simp add: rsplit_once_def)

section \<open>Ids are read back\<close>

lemma format_context_digits: "c \<in> set (format_context n) \<Longrightarrow> 48 \<le> c \<and> c \<le> 57 \<or> c = 107"
  using decimal_digits by (auto simp: format_context_def ascii_def split: if_splits)

lemma not_thousand: "strip_suffix 107 (decimal n) = None"
  using decimal_digits [of "last (decimal n)" n] by (auto simp: strip_suffix_def)

lemma parse_format:
  assumes "0 < n"
  shows "parse_context (format_context n) = Some n"
proof (cases "1024 \<le> n \<and> n mod 1024 = 0")
  case True
  have n: "unat n < 2 ^ 32" using unat_lt_two_power [of n] by simp
  have unit: "unat (1024 :: u32) = 1024" by simp
  have "unat n mod 1024 = 0" using True by (metis unat_0 unat_mod unit)
  then have "unat n = unat n div 1024 * 1024" by (metis add_0_right div_mult_mod_eq)
  then have "(word_of_nat (unat n div 1024 * 1024) :: u32) = word_of_nat (unat n)" by (rule arg_cong [OF sym])
  then have eq: "word_of_nat (unat n div 1024) * 1024 = n" by simp
  have "unat (word_of_nat (unat n div 1024) :: u32) = unat n div 1024"
    using n by (simp add: unat_of_nat take_bit_eq_mod)
  then have "checked_mul (word_of_nat (unat n div 1024)) 1024 = Some n"
    using n eq \<open>unat n mod 1024 = 0\<close> by (simp add: checked_mul_def unit)
  then show ?thesis
    using True n assms by (simp add: format_context_def parse_context_def strip_suffix_def ascii_def unat_div unit parse_u32_decimal)
next
  case False
  then show ?thesis
    using assms unat_lt_two_power [of n]
    by (simp only: format_context_def if_False) (simp add: parse_context_def not_thousand parse_u32_decimal)
qed

lemma format_context_inject: "format_context m = format_context n \<longleftrightarrow> m = n"
proof
  assume eq: "format_context m = format_context n"
  have zero: "format_context 0 = ascii ''0''" by (simp add: format_context_def decimal.simps ascii_def)
  have "k = 0" if "format_context k = ascii ''0''" for k
    using parse_format [of k] that by (cases "k = 0") (auto simp: word_neq_0_conv parse_context_def strip_suffix_def ascii_def parse_u32_def without_plus_def)
  with eq zero show "m = n" by (metis option.inject parse_format word_neq_0_conv)
qed simp

lemma id_split: "rsplit_once 64 (id_with_context s n) = Some (s, format_context n)"
  using rsplit_once_last [of 64 "format_context n" s] format_context_digits [of 64 n]
  by (force simp: id_with_context_def ascii_def)

lemma slug_with_context [simp]: "0 < n \<Longrightarrow> slug (id_with_context s n) = s"
  by (simp add: slug_def id_split parse_format)

text \<open>C36. An id names its model and its context exactly: both are read back from it, and two ids are the same only if
  model and context are, so that a change of the context is always a change of the id.\<close>

theorem model_id_roundtrip:
  "0 < n \<Longrightarrow> slug (id_with_context s n) = s \<and> id_context (id_with_context s n) = Some n \<and>
    (id_with_context s n = id_with_context t k \<longleftrightarrow> s = t \<and> n = k)"
proof -
  assume "0 < n"
  moreover have "s = t \<and> n = k" if "id_with_context s n = id_with_context t k"
    using id_split [of s n] id_split [of t k] format_context_inject [of n k] unfolding that by simp
  moreover have "id_context (id_with_context s n) = Some n"
    using \<open>0 < n\<close> by (simp add: id_context_def id_split parse_format)
  ultimately show ?thesis by (intro conjI iffI) (simp_all only: slug_with_context)
qed

theorem model_id_roundtrip_witness:
  "slug (ascii ''a@b@8k'') = ascii ''a@b'' \<and> id_context (ascii ''a@b@8k'') = Some 8192"
proof -
  have "id_with_context (ascii ''a@b'') 8192 = ascii ''a@b@8k''"
    by (simp add: id_with_context_def format_context_def decimal.simps ascii_def)
  then show ?thesis using model_id_roundtrip [of 8192 "ascii ''a@b''"] by simp
qed

end
