(* ===== verification/Router_Names.thy ===== *)
theory Router_Names
  imports Lw_Text
begin

text \<open>
  Names: \<open>lightweight-catalog/src/alias.rs\<close> and the identities of
  \<open>lightweight-router/src/domain.rs\<close>.

  The Unicode lower-casing of \<open>str::to_lowercase\<close> is a table outside the repository and so a parameter,
  \<open>lower\<close>; nothing is assumed of it.
\<close>

section \<open>Aliases\<close>

definition MAX_ALIAS_CHARS :: nat where "MAX_ALIAS_CHARS = 64"

definition RESERVED_SELECTORS :: "ustr list" where "RESERVED_SELECTORS = [ascii ''default'']"

datatype model_selector = DefaultModel | Named ustr

definition is_reserved :: "ustr \<Rightarrow> bool" where
  "is_reserved name =
    list_ex (\<lambda>reserved. text_eq_ignore_ascii_case reserved (trim name)) RESERVED_SELECTORS"

definition selector_parse :: "ustr option \<Rightarrow> model_selector" where
  "selector_parse requested =
    (let trimmed = trim (case requested of None \<Rightarrow> [] | Some r \<Rightarrow> r)
     in if trimmed = [] \<or> is_reserved trimmed then DefaultModel else Named trimmed)"

definition lookup_key :: "(ustr \<Rightarrow> ustr) \<Rightarrow> ustr \<Rightarrow> ustr" where
  "lookup_key lower name = lower (trim name)"

definition same_name :: "(ustr \<Rightarrow> ustr) \<Rightarrow> ustr \<Rightarrow> ustr \<Rightarrow> bool" where
  "same_name lower a b \<longleftrightarrow> lookup_key lower a = lookup_key lower b"

datatype alias_problem = EmptyAlias | TooLong | Reserved | BadCharacter nat | DotSegment

definition validate_alias :: "ustr \<Rightarrow> alias_problem + ustr" where
  "validate_alias raw =
    (let alias = trim raw
     in if alias = [] then Inl EmptyAlias
        else if length alias > MAX_ALIAS_CHARS then Inl TooLong
        else if is_reserved alias then Inl Reserved
        else if alias = ascii ''.'' \<or> alias = ascii ''..'' then Inl DotSegment
        else (case find (\<lambda>c. c \<in> set (ascii [CHR ''/'', CHR 0x5C, CHR ''@'']) \<or> is_control c) alias of
                Some bad \<Rightarrow> Inl (BadCharacter bad)
              | None \<Rightarrow> Inr alias))"

section \<open>Nodes, deployments and routes\<close>

definition MAX_NODE_ID_CHARS :: nat where "MAX_NODE_ID_CHARS = 64"

datatype node_id_problem = EmptyId | LongId | BadIdCharacter nat

definition node_id_parse :: "ustr \<Rightarrow> node_id_problem + ustr" where
  "node_id_parse raw =
    (let i = trim raw
     in if i = [] then Inl EmptyId
        else if length i > MAX_NODE_ID_CHARS then Inl LongId
        else (case find (\<lambda>c. \<not> (is_ascii_alphanumeric c \<or> c \<in> set (ascii ''._-''))) i of
                Some bad \<Rightarrow> Inl (BadIdCharacter bad)
              | None \<Rightarrow> Inr i))"

definition deployment_id_of :: "ustr \<Rightarrow> ustr \<Rightarrow> ustr" where
  "deployment_id_of node remote_model = node @ ascii ''/'' @ remote_model"

definition route_name_parse :: "ustr \<Rightarrow> alias_problem + ustr" where
  "route_name_parse raw = validate_alias raw"

definition route_matches :: "(ustr \<Rightarrow> ustr) \<Rightarrow> ustr \<Rightarrow> ustr \<Rightarrow> bool" where
  "route_matches lower name requested = same_name lower name requested"

section \<open>Facts about names\<close>

lemma same_name_equivalence:
  "same_name lower a a" "same_name lower a b \<Longrightarrow> same_name lower b a"
  "same_name lower a b \<Longrightarrow> same_name lower b c \<Longrightarrow> same_name lower a c"
  by (simp_all add: same_name_def)

lemma same_name_trim [simp]: "same_name lower (trim a) b = same_name lower a b"
  "same_name lower a (trim b) = same_name lower a b"
  by (simp_all add: same_name_def lookup_key_def)

lemma is_reserved_trim [simp]: "is_reserved (trim a) = is_reserved a"
  by (simp add: is_reserved_def)

lemma validate_alias_Inr:
  assumes "validate_alias raw = Inr a"
  shows "a = trim raw" "a \<noteq> []" "\<not> is_reserved a" "length a \<le> 64"
  using assms
  by (auto simp: validate_alias_def Let_def MAX_ALIAS_CHARS_def split: if_splits option.splits)

lemma node_id_no_slash:
  assumes "node_id_parse raw = Inr i"
  shows "47 \<notin> set i"
proof -
  have "find (\<lambda>c. \<not> (is_ascii_alphanumeric c \<or> c \<in> set (ascii ''._-''))) i = None"
    using assms by (auto simp: node_id_parse_def Let_def split: if_splits option.splits)
  then have "c \<in> set i \<Longrightarrow> is_ascii_alphanumeric c \<or> c \<in> set (ascii ''._-'')" for c
    by (auto simp: find_None_iff)
  then show ?thesis by (force simp: is_ascii_alphanumeric_def ascii_def)
qed

lemma split_at_slash:
  "c \<notin> set xs \<Longrightarrow> c \<notin> set ys \<Longrightarrow> xs @ c # us = ys @ c # vs \<longleftrightarrow> xs = ys \<and> us = vs"
  by (induction xs arbitrary: ys) (case_tac ys; force)+

text \<open>A deployment id splits back into exactly one node and one model: two deployments with valid
  node ids have the same id only if node and model are the same.\<close>

theorem deployment_id_unique:
  assumes "node_id_parse r1 = Inr n1" "node_id_parse r2 = Inr n2"
  shows "deployment_id_of n1 m1 = deployment_id_of n2 m2 \<longleftrightarrow> n1 = n2 \<and> m1 = m2"
  using split_at_slash [OF node_id_no_slash [OF assms(1)] node_id_no_slash [OF assms(2)]]
  by (simp add: deployment_id_of_def ascii_def)

theorem deployment_id_unique_witness:
  "deployment_id_of (ascii ''dell'') (ascii ''a/b'') \<noteq> deployment_id_of (ascii ''dell-2'') (ascii ''b'')"
proof -
  have "node_id_parse (ascii '' dell'') = Inr (ascii ''dell'')"
    "node_id_parse (ascii ''dell-2'') = Inr (ascii ''dell-2'')"
    by code_simp+
  from deployment_id_unique [OF this] show ?thesis by (simp add: ascii_def)
qed

text \<open>Every accepted name can be asked for: it is read as itself and never as the default.\<close>

lemma accepted_name_selects:
  "validate_alias raw = Inr a \<Longrightarrow> selector_parse (Some a) = Named a \<and> same_name lower a raw"
  using validate_alias_Inr [of raw a] by (simp add: selector_parse_def Let_def same_name_equivalence(1))

end
