(* ===== verification/Catalog_Store.thy ===== *)
theory Catalog_Store
  imports Lw_Btree Model_Id Router_Names Gguf_Metadata "HOL-Library.List_Lexorder"
begin

text \<open>
  The model catalog: \<open>lightweight-catalog/src/record.rs\<close>, \<open>store.rs\<close>, \<open>manifest.rs\<close>, \<open>hf.rs\<close> and \<open>install.rs\<close>. The
  catalog is a \<open>BTreeMap\<close> from ids to records; a path is its text. What the operating system and the network answer is an
  argument: whether a file is present, its contents and digest, the published digest of a link, whether writing the
  catalog file succeeds, the time. The JSON encoding of the catalog file is outside the repository: \<open>encode\<close> and
  \<open>decode\<close>, to and from some type \<open>'f\<close> of contents. \<open>lower\<close> is the Unicode lower-casing of the standard library, as in \<open>Router_Names\<close>.
\<close>

section \<open>Records\<close>

datatype integrity = Manifest | Published | Supplied | Recorded | Imported

fun verified :: "integrity \<Rightarrow> bool" where
  "verified Manifest = True"
| "verified Published = True"
| "verified Supplied = True"
| "verified Recorded = False"
| "verified Imported = False"

datatype model_source = FromImport ustr | FromManifest ustr ustr | FromLink ustr

fun source_url :: "model_source \<Rightarrow> ustr option" where
  "source_url (FromImport original_path) = None"
| "source_url (FromManifest manifest_id url) = Some url"
| "source_url (FromLink url) = Some url"

record installed_model =
  im_id :: ustr
  im_alias :: "ustr option"
  im_name :: bytes
  im_path :: ustr
  im_bytes :: u64
  im_sha256 :: ustr
  im_integrity :: integrity
  im_source :: model_source
  im_architecture :: bytes
  im_supported :: bool
  im_param_count :: "u64 option"
  im_quantization :: "string option"
  im_context_length :: "u64 option"
  im_weight_bytes :: "u64 option"
  im_added_at :: u64
  im_last_loaded_at :: "u64 option"
  im_last_n_ctx :: "u32 option"

definition new_model :: "ustr \<Rightarrow> ustr \<Rightarrow> u64 \<Rightarrow> ustr \<Rightarrow> integrity \<Rightarrow> model_source \<Rightarrow> model_metadata \<Rightarrow> u64 \<Rightarrow> installed_model" where
  "new_model i path size_bytes sha256 integrity source m now =
    \<lparr>im_id = i, im_alias = None,
     im_name = (case md_name m of Some n \<Rightarrow> n | None \<Rightarrow> utf8_encode i),
     im_path = path, im_bytes = size_bytes, im_sha256 = sha256, im_integrity = integrity, im_source = source,
     im_architecture = md_architecture m, im_supported = md_supported m, im_param_count = md_param_count m,
     im_quantization = Some (quantization_label m), im_context_length = md_context_length m,
     im_weight_bytes = md_weight_bytes m, im_added_at = now, im_last_loaded_at = None, im_last_n_ctx = None\<rparr>"

definition public_name :: "installed_model \<Rightarrow> ustr" where
  "public_name m = (case im_alias m of Some a \<Rightarrow> a | None \<Rightarrow> im_id m)"

definition is_ours_to_delete :: "installed_model \<Rightarrow> bool" where
  "is_ours_to_delete m \<longleftrightarrow> (case im_source m of FromManifest _ _ \<Rightarrow> True | FromLink _ \<Rightarrow> True | FromImport _ \<Rightarrow> False)"

definition mark_loaded :: "u64 \<Rightarrow> u32 \<Rightarrow> installed_model \<Rightarrow> installed_model" where
  "mark_loaded now n_ctx m = m\<lparr>im_last_loaded_at := Some now, im_last_n_ctx := Some n_ctx\<rparr>"

text \<open>\<open>Path::file_name\<close> and \<open>Path::file_stem\<close> of a Unix path, and \<open>str::trim_matches\<close> with one character.\<close>

definition path_file_name :: "ustr \<Rightarrow> ustr option" where
  "path_file_name path =
    (let parts = filter (\<lambda>p. p \<noteq> [] \<and> p \<noteq> ascii ''.'') (split_on (\<lambda>c. c = 47) path)
     in if parts = [] \<or> last parts = ascii ''..'' then None else Some (last parts))"

definition file_stem :: "ustr \<Rightarrow> ustr option" where
  "file_stem path = map_option (\<lambda>f. case rsplit_once 46 f of
       None \<Rightarrow> f
     | Some (before, after) \<Rightarrow> if before = [] then f else before) (path_file_name path)"

definition trim_matches :: "nat \<Rightarrow> ustr \<Rightarrow> ustr" where
  "trim_matches c s = rev (dropWhile (\<lambda>x. x = c) (rev (dropWhile (\<lambda>x. x = c) s)))"

definition slug_char :: "nat \<Rightarrow> nat" where
  "slug_char c = (if is_ascii_alphanumeric c \<or> c = 46 \<or> c = 45 \<or> c = 95 then to_ascii_lowercase c else 45)"

definition slug_for :: "ustr \<Rightarrow> ustr" where
  "slug_for path =
    (let stem = (case file_stem path of Some s \<Rightarrow> s | None \<Rightarrow> ascii ''model'');
         trimmed = trim_matches 45 (map slug_char stem)
     in if trimmed = [] then ascii ''model'' else trimmed)"

section \<open>The store\<close>

datatype catalog_error =
    UnknownModel ustr
  | UnknownManifestModel ustr
  | DuplicateModel ustr
  | FileNotFound ustr
  | NotAGguf ustr gguf_error
  | InUse ustr
  | CatalogUnreadable ustr
  | NotADigest ustr
  | InvalidAlias ustr alias_problem
  | AliasInUse ustr ustr
  | AliasIsModelId ustr ustr
  | ModelIdIsAlias ustr ustr ustr
  | CatalogIo
  | DownloadFailed

type_synonym models = "(ustr \<times> installed_model) list"

record catalog_store =
  cs_path :: ustr
  cs_models :: models

definition collect_models :: "installed_model list \<Rightarrow> models" where
  "collect_models ms = fold (\<lambda>(k, v). bt_insert k v) (map (\<lambda>m. (im_id m, m)) ms) []"

text \<open>The outcome of reading the catalog file: nothing there, its bytes, or another failure.\<close>

datatype 'f file_read = NoFile | Contents 'f | ReadFails

definition catalog_open :: "('f \<Rightarrow> installed_model list option) \<Rightarrow> ustr \<Rightarrow> 'f file_read \<Rightarrow> catalog_error + catalog_store" where
  "catalog_open decode path read =
    (case read of
       NoFile \<Rightarrow> Inr \<lparr>cs_path = path, cs_models = []\<rparr>
     | ReadFails \<Rightarrow> Inl (CatalogUnreadable path)
     | Contents bs \<Rightarrow> (case decode bs of
           None \<Rightarrow> Inl (CatalogUnreadable path)
         | Some ms \<Rightarrow> Inr \<lparr>cs_path = path, cs_models = collect_models ms\<rparr>))"

definition holds_alias :: "(ustr \<Rightarrow> ustr) \<Rightarrow> ustr \<Rightarrow> installed_model \<Rightarrow> bool" where
  "holds_alias lower name m \<longleftrightarrow> (case im_alias m of Some held \<Rightarrow> same_name lower held name | None \<Rightarrow> False)"

definition by_alias :: "(ustr \<Rightarrow> ustr) \<Rightarrow> ustr \<Rightarrow> models \<Rightarrow> installed_model option" where
  "by_alias lower name ms = find (holds_alias lower name) (bt_values ms)"

definition catalog_resolve :: "(ustr \<Rightarrow> ustr) \<Rightarrow> ustr \<Rightarrow> models \<Rightarrow> installed_model option" where
  "catalog_resolve lower name ms =
    (case selector_parse (Some name) of
       DefaultModel \<Rightarrow> None
     | Named n \<Rightarrow> or_else (by_alias lower n ms) (bt_get ms n))"

definition check_alias :: "(ustr \<Rightarrow> ustr) \<Rightarrow> ustr \<Rightarrow> ustr option \<Rightarrow> models \<Rightarrow> catalog_error + ustr" where
  "check_alias lower raw for_id ms =
    (case validate_alias raw of
       Inl problem \<Rightarrow> Inl (InvalidAlias raw problem)
     | Inr alias \<Rightarrow>
         (case find (\<lambda>m. same_name lower (im_id m) alias) (bt_values ms) of
            Some named \<Rightarrow> Inl (AliasIsModelId alias (im_id named))
          | None \<Rightarrow>
              (case find (\<lambda>m. Some (im_id m) \<noteq> for_id \<and> holds_alias lower alias m) (bt_values ms) of
                 Some owner \<Rightarrow> Inl (AliasInUse alias (im_id owner))
               | None \<Rightarrow> Inr alias)))"

definition ensure_id_unaliased :: "(ustr \<Rightarrow> ustr) \<Rightarrow> ustr \<Rightarrow> models \<Rightarrow> catalog_error + unit" where
  "ensure_id_unaliased lower i ms =
    (case find (\<lambda>m. im_id m \<noteq> i \<and> holds_alias lower i m) (bt_values ms) of
       Some owner \<Rightarrow> Inl (ModelIdIsAlias i (case im_alias owner of Some a \<Rightarrow> a | None \<Rightarrow> []) (im_id owner))
     | None \<Rightarrow> Inr ())"

definition set_alias :: "(ustr \<Rightarrow> ustr) \<Rightarrow> ustr \<Rightarrow> ustr option \<Rightarrow> models \<Rightarrow> catalog_error + models" where
  "set_alias lower i alias ms =
    (if bt_get ms i = None then Inl (UnknownModel i)
     else and_then
       (case alias of None \<Rightarrow> Inr None | Some raw \<Rightarrow> and_then (check_alias lower raw (Some i) ms) (\<lambda>a. Inr (Some a)))
       (\<lambda>new. Inr (bt_update i (\<lambda>m. m\<lparr>im_alias := new\<rparr>) ms)))"

definition is_taken :: "(ustr \<Rightarrow> ustr) \<Rightarrow> models \<Rightarrow> ustr \<Rightarrow> bool" where
  "is_taken lower ms name \<longleftrightarrow> list_ex (\<lambda>i. same_name lower i name) (map fst ms) \<or> by_alias lower name ms \<noteq> None"

definition by_digest :: "ustr \<Rightarrow> models \<Rightarrow> installed_model option" where
  "by_digest sha256 ms = find (\<lambda>m. text_eq_ignore_ascii_case (im_sha256 m) sha256) (bt_values ms)"

definition catalog_insert :: "installed_model \<Rightarrow> models \<Rightarrow> catalog_error + models" where
  "catalog_insert m ms = (if bt_get ms (im_id m) \<noteq> None then Inl (DuplicateModel (im_id m)) else Inr (bt_insert (im_id m) m ms))"

definition catalog_replace :: "installed_model \<Rightarrow> models \<Rightarrow> models" where
  "catalog_replace m ms = bt_insert (im_id m) m ms"

definition catalog_remove :: "ustr \<Rightarrow> models \<Rightarrow> catalog_error + installed_model \<times> models" where
  "catalog_remove i ms = (case bt_get ms i of None \<Rightarrow> Inl (UnknownModel i) | Some m \<Rightarrow> Inr (m, bt_remove i ms))"

text \<open>The suffixes \<open>-2\<close>, \<open>-3\<close> and so on, up to the last number a \<open>u32\<close> has.\<close>

definition numbered :: "ustr \<Rightarrow> nat \<Rightarrow> ustr" where
  "numbered base n = base @ ascii ''-'' @ decimal n"

function first_free :: "(ustr \<Rightarrow> bool) \<Rightarrow> ustr \<Rightarrow> nat \<Rightarrow> ustr option" where
  "first_free taken base n =
    (if 2 ^ 32 \<le> n then None
     else if \<not> taken (numbered base n) then Some (numbered base n)
     else first_free taken base (Suc n))"
  by pat_completeness auto
termination by (relation "measure (\<lambda>(_, _, n). 2 ^ 32 - n)") auto

declare first_free.simps [simp del]

definition free_id :: "(ustr \<Rightarrow> ustr) \<Rightarrow> models \<Rightarrow> ustr \<Rightarrow> ustr" where
  "free_id lower ms base =
    (if \<not> is_taken lower ms base then base
     else (case first_free (is_taken lower ms) base 2 of Some i \<Rightarrow> i | None \<Rightarrow> base))"

text \<open>Writing the catalog: to a temporary file, then renamed. \<open>written\<close> tells whether all of it succeeded; the file
  changes only then.\<close>

definition catalog_save ::
  "(installed_model list \<Rightarrow> 'f) \<Rightarrow> bool \<Rightarrow> catalog_store \<Rightarrow> 'f option \<Rightarrow> (catalog_error + unit) \<times> 'f option" where
  "catalog_save encode written st disk =
    (if cs_path st = [] then (Inr (), disk)
     else if written then (Inr (), Some (encode (bt_values (cs_models st))))
     else (Inl CatalogIo, disk))"

end
