(* ===== verification/Catalog_Install.thy ===== *)
theory Catalog_Install
  imports Catalog_Store
begin

text \<open>
  Getting a model into the catalog: \<open>lightweight-catalog/src/manifest.rs\<close>, \<open>hf.rs\<close> and \<open>install.rs\<close>, and the operations
  of \<open>lightweight-gateway/src/manager.rs\<close> on the catalog. A download and the hashing of a file are arguments: what
  they deliver, or that they fail.
\<close>

section \<open>Pinned models\<close>

text \<open>The texts shown to a person (name, parameters, quantization, summary) are left out.\<close>

record catalog_model =
  cm_id :: ustr
  cm_repo :: ustr
  cm_file :: ustr
  cm_sha256 :: ustr
  cm_size :: u64

definition catalog_model_url :: "catalog_model \<Rightarrow> ustr" where
  "catalog_model_url m = ascii ''https://huggingface.co/'' @ cm_repo m @ ascii ''/resolve/main/'' @ cm_file m"

definition MODELS :: "catalog_model list" where
  "MODELS =
    [\<lparr>cm_id = ascii ''smollm2-135m-instruct-q4_k_m'', cm_repo = ascii ''bartowski/SmolLM2-135M-Instruct-GGUF'',
      cm_file = ascii ''SmolLM2-135M-Instruct-Q4_K_M.gguf'',
      cm_sha256 = ascii ''2e8040ceae7815abe0dcb3540b9995eaa1fa0d2ca9e797d0a635ae4433c68c2d'', cm_size = 105454432\<rparr>,
     \<lparr>cm_id = ascii ''lfm2-1.2b-q4_k_m'', cm_repo = ascii ''LiquidAI/LFM2-1.2B-GGUF'',
      cm_file = ascii ''LFM2-1.2B-Q4_K_M.gguf'',
      cm_sha256 = ascii ''55175400e3f509a9616227afeffd58d87e80b9f628a5d3d54ada884d85221fed'', cm_size = 730893248\<rparr>,
     \<lparr>cm_id = ascii ''qwen3-1.7b-q4_k_m'', cm_repo = ascii ''bartowski/Qwen_Qwen3-1.7B-GGUF'',
      cm_file = ascii ''Qwen_Qwen3-1.7B-Q4_K_M.gguf'',
      cm_sha256 = ascii ''72c5c3cb38fa32d5256e2fe30d03e7a64c6c79e668ad84057e3bd66e250b24fb'', cm_size = 1282439584\<rparr>,
     \<lparr>cm_id = ascii ''gemma-3-1b-it-q4_k_m'', cm_repo = ascii ''unsloth/gemma-3-1b-it-GGUF'',
      cm_file = ascii ''gemma-3-1b-it-Q4_K_M.gguf'',
      cm_sha256 = ascii ''8270790f3ab69fdfe860b7b64008d9a19986d8df7e407bb018184caa08798ebd'', cm_size = 806058272\<rparr>]"

definition manifest_by_id :: "ustr \<Rightarrow> catalog_model option" where
  "manifest_by_id i = find (\<lambda>m. cm_id m = i) MODELS"

definition is_ascii_hexdigit :: "nat \<Rightarrow> bool" where
  "is_ascii_hexdigit c \<longleftrightarrow> 48 \<le> c \<and> c \<le> 57 \<or> 65 \<le> c \<and> c \<le> 70 \<or> 97 \<le> c \<and> c \<le> 102"

text \<open>Sixty-four hexadecimal digits; \<open>len\<close> and \<open>bytes\<close> look at the UTF-8 bytes.\<close>

definition is_digest :: "ustr \<Rightarrow> bool" where
  "is_digest s \<longleftrightarrow> length (utf8_encode s) = 64 \<and> list_all (\<lambda>b. is_ascii_hexdigit (unat b)) (utf8_encode s)"

definition is_recorded :: "catalog_model \<Rightarrow> bool" where
  "is_recorded m \<longleftrightarrow> 0 < cm_size m \<and> is_digest (cm_sha256 m)"

section \<open>Links\<close>

record resolve_link =
  rl_repo :: ustr
  rl_revision :: ustr
  rl_path :: ustr

definition before_query :: "ustr \<Rightarrow> ustr" where
  "before_query url = takeWhile (\<lambda>c. c \<noteq> 63 \<and> c \<noteq> 35) url"

definition parse_resolve_link :: "ustr \<Rightarrow> resolve_link option" where
  "parse_resolve_link url =
    Option.bind (strip_prefix (ascii ''https://'') url) (\<lambda>rest.
      Option.bind (split_once 47 rest) (\<lambda>(host, rest).
        if \<not> text_eq_ignore_ascii_case host (ascii ''huggingface.co'') then None
        else
          (let parts = split_on (\<lambda>c. c = 47) (before_query rest);
               resolve_at = length (takeWhile (\<lambda>p. p \<noteq> ascii ''resolve'') parts)
           in if resolve_at = length parts \<or> resolve_at \<noteq> 2 \<or> length parts < resolve_at + 3 then None
              else
                (let repo = join 47 (take 2 parts); revision = parts ! 3; path = join 47 (drop 4 parts)
                 in if repo = [] \<or> revision = [] \<or> path = [] then None
                    else Some \<lparr>rl_repo = repo, rl_revision = revision, rl_path = path\<rparr>))))"

text \<open>The entries the host lists for a repository: a path, and the object id and size of a large file.\<close>

record tree_entry =
  te_path :: ustr
  te_lfs :: "(ustr \<times> u64) option"

definition published_digest :: "tree_entry list option \<Rightarrow> resolve_link \<Rightarrow> (ustr \<times> u64) option" where
  "published_digest response link =
    Option.bind response (\<lambda>entries.
      Option.bind (find (\<lambda>e. te_path e = rl_path link) entries) (\<lambda>e.
        Option.bind (te_lfs e) (\<lambda>(oid, size_bytes). if is_digest oid then Some (oid, size_bytes) else None)))"

definition file_name_from_url :: "ustr \<Rightarrow> ustr" where
  "file_name_from_url url =
    (let without_query = before_query url;
         after_scheme = (case find_sub (ascii ''://'') without_query of
            Some at \<Rightarrow> drop (at + 3) without_query
          | None \<Rightarrow> without_query)
     in case split_once 47 after_scheme of
          None \<Rightarrow> ascii ''model.gguf''
        | Some (_, path) \<Rightarrow>
            (let name = trim (last (split_on (\<lambda>c. c = 47) path))
             in if name = [] \<or> name = ascii ''.'' \<or> name = ascii ''..'' \<or> 47 \<in> set name \<or> 92 \<in> set name
                then ascii ''model.gguf'' else name))"

definition strip_query :: "ustr \<Rightarrow> ustr" where
  "strip_query url = before_query url"

definition host_of :: "ustr \<Rightarrow> ustr" where
  "host_of url =
    (case or_else (strip_prefix (ascii ''https://'') url) (strip_prefix (ascii ''http://'') url) of
       Some rest \<Rightarrow> hd (split_on (\<lambda>c. c = 47) rest)
     | None \<Rightarrow> ascii ''unknown'')"

section \<open>Installing\<close>

datatype add_model = Pinned ustr | Link ustr "ustr option"

record install_plan =
  pn_id :: ustr
  pn_file_name :: ustr
  pn_url :: ustr
  pn_expected_sha256 :: "ustr option"
  pn_total_size :: "u64 option"
  pn_integrity :: integrity
  pn_source :: model_source

text \<open>\<open>response\<close> is what the host answers to the one metadata request a link may cause.\<close>

definition make_plan :: "(resolve_link \<Rightarrow> tree_entry list option) \<Rightarrow> add_model \<Rightarrow> catalog_error + install_plan" where
  "make_plan response request =
    (case request of
       Pinned i \<Rightarrow>
         (case manifest_by_id i of
            None \<Rightarrow> Inl (UnknownManifestModel i)
          | Some m \<Rightarrow>
              if \<not> is_recorded m then Inl (UnknownManifestModel (i @ ascii '' (its digest has not been recorded)''))
              else Inr \<lparr>pn_id = cm_id m, pn_file_name = cm_file m, pn_url = catalog_model_url m,
                pn_expected_sha256 = Some (cm_sha256 m), pn_total_size = Some (cm_size m), pn_integrity = Manifest,
                pn_source = FromManifest (cm_id m) (catalog_model_url m)\<rparr>)
     | Link raw_url sha256 \<Rightarrow>
         (let url = trim raw_url
          in case sha256 of
               Some supplied \<Rightarrow>
                 if \<not> is_digest (trim supplied) then Inl (NotADigest (trim supplied))
                 else Inr \<lparr>pn_id = slug_for (file_name_from_url url), pn_file_name = file_name_from_url url, pn_url = url,
                   pn_expected_sha256 = Some (map to_ascii_lowercase (trim supplied)), pn_total_size = None,
                   pn_integrity = Supplied, pn_source = FromLink (strip_query url)\<rparr>
             | None \<Rightarrow>
                 (let published = Option.bind (parse_resolve_link url) (\<lambda>link. published_digest (response link) link)
                  in Inr \<lparr>pn_id = slug_for (file_name_from_url url), pn_file_name = file_name_from_url url, pn_url = url,
                    pn_expected_sha256 = map_option fst published, pn_total_size = map_option snd published,
                    pn_integrity = (if published = None then Recorded else Published),
                    pn_source = FromLink (strip_query url)\<rparr>)))"

definition already_installed :: "(ustr \<Rightarrow> bool) \<Rightarrow> models \<Rightarrow> install_plan \<Rightarrow> installed_model option" where
  "already_installed present ms p =
    Option.bind (pn_expected_sha256 p) (\<lambda>expected. Option.bind (bt_get ms (pn_id p)) (\<lambda>existing.
      if present (im_path existing) \<and> text_eq_ignore_ascii_case (im_sha256 existing) expected then Some existing else None))"

record scanned =
  sn_id :: "ustr option"
  sn_path :: ustr
  sn_bytes :: u64
  sn_sha256 :: ustr
  sn_integrity :: integrity
  sn_source :: model_source
  sn_metadata :: model_metadata

text \<open>Reading the header of a file with the given contents.\<close>

definition read_header :: "ustr \<Rightarrow> bytes option \<Rightarrow> catalog_error + model_metadata" where
  "read_header path contents =
    (case open_with_limits contents default_limits of
       Inl e \<Rightarrow> Inl (NotAGguf path e)
     | Inr f \<Rightarrow> (case metadata_from_file contents f of Inl e \<Rightarrow> Inl (NotAGguf path e) | Inr m \<Rightarrow> Inr m))"

definition join_path :: "ustr \<Rightarrow> ustr \<Rightarrow> ustr" where
  "join_path dir name = dir @ ascii ''/'' @ name"

text \<open>A finished transfer delivers the size and digest of the staged file; \<open>staged\<close> are its contents and \<open>moved\<close> tells
  whether it could be moved into the directory of models.\<close>

definition fetch :: "ustr \<Rightarrow> ustr \<Rightarrow> install_plan \<Rightarrow> (u64 \<times> ustr) option \<Rightarrow> bytes option \<Rightarrow> bool \<Rightarrow> catalog_error + scanned" where
  "fetch downloads_dir models_dir p transfer staged moved =
    (case transfer of
       None \<Rightarrow> Inl DownloadFailed
     | Some (size_bytes, sha256) \<Rightarrow>
         and_then (read_header (join_path downloads_dir (pn_file_name p)) staged) (\<lambda>m.
           if \<not> moved then Inl CatalogIo
           else Inr \<lparr>sn_id = Some (pn_id p), sn_path = join_path models_dir (pn_file_name p), sn_bytes = size_bytes,
             sn_sha256 = sha256, sn_integrity = pn_integrity p, sn_source = pn_source p, sn_metadata = m\<rparr>))"

text \<open>A local file: its canonical path if it can be resolved, its size and digest if it can be hashed.\<close>

definition scan_local :: "ustr \<Rightarrow> bool \<Rightarrow> ustr option \<Rightarrow> (u64 \<times> ustr) option \<Rightarrow> bytes option \<Rightarrow> catalog_error + scanned" where
  "scan_local path present resolved hashed contents =
    (if \<not> present then Inl (FileNotFound path)
     else (case resolved of None \<Rightarrow> Inl CatalogIo | Some absolute \<Rightarrow>
       (case hashed of None \<Rightarrow> Inl CatalogIo | Some (size_bytes, sha256) \<Rightarrow>
         and_then (read_header absolute contents) (\<lambda>m.
           Inr \<lparr>sn_id = None, sn_path = absolute, sn_bytes = size_bytes, sn_sha256 = sha256, sn_integrity = Imported,
             sn_source = FromImport absolute, sn_metadata = m\<rparr>))))"

text \<open>The catalog with the file behind it.\<close>

record 'f catalog_state =
  ct_store :: catalog_store
  ct_disk :: "'f option"

definition save_store :: "(installed_model list \<Rightarrow> 'f) \<Rightarrow> bool \<Rightarrow> 'f catalog_state \<Rightarrow> (catalog_error + unit) \<times> 'f catalog_state" where
  "save_store encode written s =
    (let (result, disk) = catalog_save encode written (ct_store s) (ct_disk s) in (result, s\<lparr>ct_disk := disk\<rparr>))"

abbreviation with_models :: "models \<Rightarrow> 'f catalog_state \<Rightarrow> 'f catalog_state" where
  "with_models ms s \<equiv> s\<lparr>ct_store := (ct_store s)\<lparr>cs_models := ms\<rparr>\<rparr>"

abbreviation models_of :: "'f catalog_state \<Rightarrow> models" where
  "models_of s \<equiv> cs_models (ct_store s)"

text \<open>What \<open>commit\<close> puts into the catalog, before it is saved.\<close>

definition commit_record :: "(ustr \<Rightarrow> ustr) \<Rightarrow> u64 \<Rightarrow> scanned \<Rightarrow> models \<Rightarrow> catalog_error + installed_model \<times> models" where
  "commit_record lower now sn ms =
    (case sn_id sn of
       Some i \<Rightarrow>
         and_then (ensure_id_unaliased lower i ms) (\<lambda>_.
           let r = (new_model i (sn_path sn) (sn_bytes sn) (sn_sha256 sn) (sn_integrity sn) (sn_source sn) (sn_metadata sn) now)
                 \<lparr>im_alias := Option.bind (bt_get ms i) im_alias\<rparr>
           in Inr (r, catalog_replace r ms))
     | None \<Rightarrow>
         (let r = new_model (free_id lower ms (slug_for (sn_path sn))) (sn_path sn) (sn_bytes sn) (sn_sha256 sn)
                (sn_integrity sn) (sn_source sn) (sn_metadata sn) now
          in and_then (catalog_insert r ms) (\<lambda>ms'. Inr (r, ms'))))"

definition commit_scanned ::
  "(installed_model list \<Rightarrow> 'f) \<Rightarrow> (ustr \<Rightarrow> ustr) \<Rightarrow> u64 \<Rightarrow> bool \<Rightarrow> scanned \<Rightarrow> 'f catalog_state \<Rightarrow>
    (catalog_error + installed_model) \<times> 'f catalog_state" where
  "commit_scanned encode lower now written sn s =
    (case (if sn_id sn = None then by_digest (sn_sha256 sn) (models_of s) else None) of
       Some existing \<Rightarrow> (Inr existing, s)
     | None \<Rightarrow>
         (case commit_record lower now sn (models_of s) of
            Inl e \<Rightarrow> (Inl e, s)
          | Inr (r, ms) \<Rightarrow>
              (case save_store encode written (with_models ms s) of
                 (Inl e, s') \<Rightarrow> (Inl e, s')
               | (Inr _, s') \<Rightarrow> (Inr r, s'))))"

section \<open>The manager's operations on the catalog\<close>

definition manager_set_alias ::
  "(installed_model list \<Rightarrow> 'f) \<Rightarrow> (ustr \<Rightarrow> ustr) \<Rightarrow> bool \<Rightarrow> ustr \<Rightarrow> ustr option \<Rightarrow> 'f catalog_state \<Rightarrow>
    (catalog_error + installed_model) \<times> 'f catalog_state" where
  "manager_set_alias encode lower written name alias s =
    (case catalog_resolve lower name (models_of s) of
       None \<Rightarrow> (Inl (UnknownModel name), s)
     | Some m \<Rightarrow>
         (let i = im_id m; previous = Option.bind (bt_get (models_of s) i) im_alias
          in case set_alias lower i alias (models_of s) of
               Inl e \<Rightarrow> (Inl e, s)
             | Inr ms \<Rightarrow>
                 (case save_store encode written (with_models ms s) of
                    (Inr _, s') \<Rightarrow> (case bt_get ms i of Some updated \<Rightarrow> (Inr updated, s') | None \<Rightarrow> (Inl (UnknownModel i), s'))
                  | (Inl e, s') \<Rightarrow>
                      (case set_alias lower i previous (models_of s') of
                         Inr ms' \<Rightarrow> (Inl e, with_models ms' s')
                       | Inl _ \<Rightarrow> (Inl e, s')))))"

text \<open>Removing a model; \<open>deleted\<close> tells whether deleting a file of ours succeeds. The result is the record and whether its
  file was deleted.\<close>

definition manager_remove ::
  "(installed_model list \<Rightarrow> 'f) \<Rightarrow> (ustr \<Rightarrow> ustr) \<Rightarrow> bool \<Rightarrow> bool \<Rightarrow> ustr \<Rightarrow> bool \<Rightarrow> model_id option \<Rightarrow> 'f catalog_state \<Rightarrow>
    (catalog_error + installed_model \<times> bool) \<times> 'f catalog_state" where
  "manager_remove encode lower written deleted name delete_file resident s =
    (case catalog_resolve lower name (models_of s) of
       None \<Rightarrow> (Inl (UnknownModel name), s)
     | Some m \<Rightarrow>
         if (case resident of Some loaded \<Rightarrow> slug loaded = im_id m | None \<Rightarrow> False) then (Inl (InUse (im_id m)), s)
         else (case catalog_remove (im_id m) (models_of s) of
                 Inl e \<Rightarrow> (Inl e, s)
               | Inr (removed, ms) \<Rightarrow>
                   (case save_store encode written (with_models ms s) of
                      (Inl e, s') \<Rightarrow> (Inl e, s')
                    | (Inr _, s') \<Rightarrow> (Inr (removed, delete_file \<and> is_ours_to_delete removed \<and> deleted), s'))))"

definition manager_mark_loaded ::
  "(installed_model list \<Rightarrow> 'f) \<Rightarrow> bool \<Rightarrow> u64 \<Rightarrow> ustr \<Rightarrow> u32 \<Rightarrow> 'f catalog_state \<Rightarrow> 'f catalog_state" where
  "manager_mark_loaded encode written now i n_ctx s =
    snd (save_store encode written (with_models (bt_update i (mark_loaded now n_ctx) (models_of s)) s))"

text \<open>The phases of an install: the plan, the checks before the transfer, the transfer, and the commit. Other operations on
  the catalog may come between; \<open>later\<close> is the catalog when the transfer is done.\<close>

definition install_check :: "(ustr \<Rightarrow> ustr) \<Rightarrow> (ustr \<Rightarrow> bool) \<Rightarrow> install_plan \<Rightarrow> models \<Rightarrow> catalog_error + installed_model option" where
  "install_check lower present p ms = and_then (ensure_id_unaliased lower (pn_id p) ms) (\<lambda>_. Inr (already_installed present ms p))"

definition install_phases ::
  "(installed_model list \<Rightarrow> 'f) \<Rightarrow> (ustr \<Rightarrow> ustr) \<Rightarrow> u64 \<Rightarrow> bool \<Rightarrow> (ustr \<Rightarrow> bool) \<Rightarrow> catalog_error + install_plan \<Rightarrow>
    (install_plan \<Rightarrow> catalog_error + scanned) \<Rightarrow> 'f catalog_state \<Rightarrow> 'f catalog_state \<Rightarrow>
    (catalog_error + installed_model) \<times> 'f catalog_state" where
  "install_phases encode lower now written present planned fetched s later =
    (case planned of
       Inl e \<Rightarrow> (Inl e, s)
     | Inr p \<Rightarrow>
         (case install_check lower present p (models_of s) of
            Inl e \<Rightarrow> (Inl e, s)
          | Inr (Some existing) \<Rightarrow> (Inr existing, s)
          | Inr None \<Rightarrow>
              (case fetched p of
                 Inl e \<Rightarrow> (Inl e, later)
               | Inr sn \<Rightarrow> commit_scanned encode lower now written sn later)))"

end
