(* ===== verification/Catalog_Correct.thy ===== *)
theory Catalog_Correct
  imports Catalog_Install
begin

text \<open>
  What the catalog promises: the names of its models stay unambiguous through every operation, every model can be found
  by its names, a change that cannot be saved is taken back, the file gives back what was written, and the name of a
  downloaded file never leaves the directory of models.
\<close>

section \<open>Unambiguous names\<close>

definition models_ok :: "models \<Rightarrow> bool" where
  "models_ok ms \<longleftrightarrow> bt_sorted ms \<and> (\<forall>k m. bt_get ms k = Some m \<longrightarrow> im_id m = k)"

definition names_ok :: "(ustr \<Rightarrow> ustr) \<Rightarrow> models \<Rightarrow> bool" where
  "names_ok lower ms \<longleftrightarrow> models_ok ms \<and>
    (\<forall>k m a. bt_get ms k = Some m \<longrightarrow> im_alias m = Some a \<longrightarrow>
       validate_alias a = Inr a \<and>
       (\<forall>k' m'. bt_get ms k' = Some m' \<longrightarrow>
          \<not> same_name lower k' a \<and> (k' \<noteq> k \<longrightarrow> \<not> holds_alias lower a m')))"

lemma models_okD:
  "models_ok ms \<Longrightarrow> bt_sorted ms" "models_ok ms \<Longrightarrow> bt_get ms k = Some m \<Longrightarrow> im_id m = k"
  by (simp_all add: models_ok_def)

lemma values_iff: "models_ok ms \<Longrightarrow> m \<in> set (bt_values ms) \<longleftrightarrow> bt_get ms (im_id m) = Some m"
  using bt_values_get [of ms m] by (auto simp: models_ok_def)

lemma find_values_None:
  assumes "models_ok ms"
  shows "find P (bt_values ms) = None \<longleftrightarrow> (\<forall>k m. bt_get ms k = Some m \<longrightarrow> \<not> P m)"
  using bt_values_get [OF models_okD(1) [OF assms]] by (auto simp: find_None_iff)

lemma find_values_Some:
  assumes "models_ok ms" "find P (bt_values ms) = Some m"
  shows "P m" "bt_get ms (im_id m) = Some m"
  using assms(2) values_iff [OF assms(1), of m] by (auto simp: find_Some_iff)

lemma validate_alias_trim: "validate_alias (trim raw) = validate_alias raw"
  by (simp only: validate_alias_def trim_idem)

lemma validate_alias_stable: "validate_alias raw = Inr a \<Longrightarrow> validate_alias a = Inr a"
  using validate_alias_Inr(1) [of raw a] validate_alias_trim [of raw] by simp

lemma check_alias_Inr:
  assumes "models_ok ms" "check_alias lower raw (Some i) ms = Inr a"
  shows "validate_alias a = Inr a \<and>
    (\<forall>k m. bt_get ms k = Some m \<longrightarrow> \<not> same_name lower k a \<and> (k \<noteq> i \<longrightarrow> \<not> holds_alias lower a m))"
proof -
  have "validate_alias raw = Inr a"
    "find (\<lambda>m. same_name lower (im_id m) a) (bt_values ms) = None"
    "find (\<lambda>m. Some (im_id m) \<noteq> Some i \<and> holds_alias lower a m) (bt_values ms) = None"
    using assms(2) by (auto simp: check_alias_def split: sum.splits option.splits)
  then show ?thesis
    using validate_alias_stable models_okD(2) [OF assms(1)] by (auto simp: find_values_None [OF assms(1)])
qed

text \<open>Changing one record and keeping its id.\<close>

lemma models_ok_update:
  assumes "models_ok ms" "\<And>m. im_id (f m) = im_id m"
  shows "models_ok (bt_update k f ms)"
  using assms by (auto simp: models_ok_def bt_get_update)

lemma names_ok_update_alias:
  assumes ok: "names_ok lower ms"
    and new: "case a of None \<Rightarrow> True | Some a \<Rightarrow> validate_alias a = Inr a \<and>
      (\<forall>k m. bt_get ms k = Some m \<longrightarrow> \<not> same_name lower k a \<and> (k \<noteq> i \<longrightarrow> \<not> holds_alias lower a m))"
  shows "names_ok lower (bt_update i (\<lambda>m. m\<lparr>im_alias := a\<rparr>) ms)"
  unfolding names_ok_def
proof (intro conjI allI impI)
  show "models_ok (bt_update i (\<lambda>m. m\<lparr>im_alias := a\<rparr>) ms)"
    using ok by (intro models_ok_update) (simp_all add: names_ok_def)
  fix k m b
  let ?ms = "bt_update i (\<lambda>m. m\<lparr>im_alias := a\<rparr>) ms"
  assume m: "bt_get ?ms k = Some m" "im_alias m = Some b"
  have old: "validate_alias b = Inr b \<and> (\<forall>k' m'. bt_get ms k' = Some m' \<longrightarrow> \<not> same_name lower k' b \<and> (k' \<noteq> k \<longrightarrow> \<not> holds_alias lower b m'))"
    if "k \<noteq> i" using ok m that unfolding names_ok_def by (simp add: bt_get_update)
  have same: "a = Some b" if "k = i" using m that by (auto simp: bt_get_update)
  show "validate_alias b = Inr b" using old new same by (cases "k = i") auto
  fix k' m'
  assume m': "bt_get ?ms k' = Some m'"
  then obtain m0 where m0: "bt_get ms k' = Some m0" "m' = (if k' = i then m0\<lparr>im_alias := a\<rparr> else m0)"
    by (auto simp: bt_get_update split: if_splits)
  show "\<not> same_name lower k' b" using old new same m0 by (cases "k = i") auto
  assume "k' \<noteq> k"
  show "\<not> holds_alias lower b m'"
  proof (cases "k' = i")
    case True
    show ?thesis
    proof (cases a)
      case (Some c)
      obtain m1 where "bt_get ms k = Some m1" "holds_alias lower b m1" "k \<noteq> i"
        using m True \<open>k' \<noteq> k\<close> by (auto simp: bt_get_update holds_alias_def same_name_equivalence(1))
      then have "\<not> holds_alias lower c m1" "im_alias m1 = Some b" using new Some m True \<open>k' \<noteq> k\<close> by (auto simp: bt_get_update)
      then show ?thesis using True Some m0 by (auto simp: holds_alias_def same_name_def)
    qed (simp add: True m0 holds_alias_def)
  next
    case False
    show ?thesis using old new same m0 False \<open>k' \<noteq> k\<close> by (cases "k = i") auto
  qed
qed

lemma set_alias_names_ok: "names_ok lower ms \<Longrightarrow> set_alias lower i alias ms = Inr ms' \<Longrightarrow> names_ok lower ms'"
proof -
  assume ok: "names_ok lower ms" and "set_alias lower i alias ms = Inr ms'"
  then obtain a where ms': "ms' = bt_update i (\<lambda>m. m\<lparr>im_alias := a\<rparr>) ms"
    and a: "a = None \<or> (\<exists>raw b. check_alias lower raw (Some i) ms = Inr b \<and> a = Some b)"
    by (auto simp: set_alias_def and_then_Inr_iff split: if_splits option.splits)
  have "case a of None \<Rightarrow> True | Some a \<Rightarrow> validate_alias a = Inr a \<and>
      (\<forall>k m. bt_get ms k = Some m \<longrightarrow> \<not> same_name lower k a \<and> (k \<noteq> i \<longrightarrow> \<not> holds_alias lower a m))"
    using a check_alias_Inr [of ms lower _ i] ok by (cases a) (auto simp: names_ok_def)
  with ok show ?thesis unfolding ms' by (rule names_ok_update_alias)
qed

text \<open>Adding or replacing a record under an id that is nobody else's alias.\<close>

lemma names_ok_insert:
  assumes ok: "names_ok lower ms"
    and kept: "im_alias r = Option.bind (bt_get ms (im_id r)) im_alias"
    and free: "\<And>k m. bt_get ms k = Some m \<Longrightarrow> k \<noteq> im_id r \<Longrightarrow> \<not> holds_alias lower (im_id r) m"
  shows "names_ok lower (bt_insert (im_id r) r ms)"
proof -
  have wf: "models_ok ms" and sorted: "bt_sorted ms" using ok by (simp_all add: names_ok_def models_ok_def)
  note get = bt_get_insert [OF sorted]
  have "models_ok (bt_insert (im_id r) r ms)"
    using wf by (auto simp: models_ok_def get bt_insert_sorted split: if_splits)
  moreover have "validate_alias a = Inr a \<and> (\<forall>k' m'. bt_get (bt_insert (im_id r) r ms) k' = Some m' \<longrightarrow>
      \<not> same_name lower k' a \<and> (k' \<noteq> k \<longrightarrow> \<not> holds_alias lower a m'))"
    if m: "bt_get (bt_insert (im_id r) r ms) k = Some m" "im_alias m = Some a" for k m a
  proof -
    obtain m0 where m0: "bt_get ms k = Some m0" "im_alias m0 = Some a"
      using m kept by (cases "bt_get ms (im_id r)") (auto simp: get split: if_splits)
    then have old: "validate_alias a = Inr a" "\<And>k' m'. bt_get ms k' = Some m' \<Longrightarrow> \<not> same_name lower k' a"
      "\<And>k' m'. bt_get ms k' = Some m' \<Longrightarrow> k' \<noteq> k \<Longrightarrow> \<not> holds_alias lower a m'"
      using ok unfolding names_ok_def by blast+
    have "\<not> same_name lower (im_id r) a"
    proof (cases "bt_get ms (im_id r)")
      case None
      then have "k \<noteq> im_id r" using m0 by auto
      then show ?thesis using free [OF m0(1)] m0(2) by (auto simp: holds_alias_def same_name_def)
    qed (use old in blast)
    moreover have "\<not> holds_alias lower a r" if "k \<noteq> im_id r"
    proof (cases "bt_get ms (im_id r)")
      case None
      then show ?thesis using kept by (simp add: holds_alias_def)
    next
      case (Some r0)
      then show ?thesis using old(3) [OF Some] that kept by (auto simp: holds_alias_def)
    qed
    ultimately show ?thesis using old by (auto simp: get split: if_splits)
  qed
  ultimately show ?thesis unfolding names_ok_def by blast
qed

lemma names_ok_remove: "names_ok lower ms \<Longrightarrow> names_ok lower (bt_remove k ms)"
  by (auto simp: names_ok_def models_ok_def bt_get_remove bt_remove_sorted)

lemma names_ok_mark_loaded: "names_ok lower ms \<Longrightarrow> names_ok lower (bt_update k (mark_loaded now n_ctx) ms)"
  by (fastforce simp: names_ok_def models_ok_def bt_get_update mark_loaded_def holds_alias_def split: if_splits)

section \<open>A free id is found\<close>

text \<open>Of the lower-casing of the standard library only this is used: on ASCII text it is the ASCII one.\<close>

definition lower_ascii :: "(ustr \<Rightarrow> ustr) \<Rightarrow> bool" where
  "lower_ascii lower \<longleftrightarrow> (\<forall>s. list_all (\<lambda>c. c < 128) s \<longrightarrow> lower s = map to_ascii_lowercase s)"

definition slug_letter :: "nat \<Rightarrow> bool" where
  "slug_letter c \<longleftrightarrow> 97 \<le> c \<and> c \<le> 122 \<or> 48 \<le> c \<and> c \<le> 57 \<or> c = 46 \<or> c = 45 \<or> c = 95"

lemma slug_letter_facts:
  assumes "slug_letter c"
  shows "c < 128" "\<not> is_whitespace c" "to_ascii_lowercase c = c"
  using assms by (auto simp: slug_letter_def is_whitespace_def to_ascii_lowercase_def)

lemma slug_char_letter: "slug_letter (slug_char c)"
  by (auto simp: slug_letter_def slug_char_def is_ascii_alphanumeric_def to_ascii_lowercase_def)

lemma slug_for_letters: "list_all slug_letter (slug_for path) \<and> slug_for path \<noteq> []"
proof -
  have "list_all slug_letter (trim_matches 45 (map slug_char stem))" for stem
  proof -
    have "set (trim_matches 45 xs) \<subseteq> set xs" for xs
      by (auto simp: trim_matches_def dest!: set_dropWhileD)
    then show ?thesis using slug_char_letter by (fastforce simp: list_all_iff)
  qed
  moreover have "list_all slug_letter (ascii ''model'')" by (simp add: ascii_def slug_letter_def)
  ultimately show ?thesis by (simp add: slug_for_def Let_def ascii_def)
qed

lemma slug_key:
  assumes "lower_ascii lower" "list_all slug_letter s"
  shows "lookup_key lower s = s"
proof -
  have "dropWhile is_whitespace xs = xs" if "list_all slug_letter xs" for xs
    using that by (cases xs) (simp_all add: slug_letter_facts)
  then have "trim s = s" using assms(2) by (simp add: trim_def)
  moreover have "map to_ascii_lowercase s = s" "list_all (\<lambda>c. c < 128) s"
    using assms(2) by (simp_all add: list_all_iff slug_letter_facts map_idI)
  ultimately show ?thesis using assms(1) by (simp add: lookup_key_def lower_ascii_def)
qed

lemma numbered_letters: "list_all slug_letter base \<Longrightarrow> list_all slug_letter (numbered base n)"
  using decimal_digits [of _ n] by (auto simp: numbered_def list_all_iff slug_letter_def ascii_def)

definition taken_keys :: "(ustr \<Rightarrow> ustr) \<Rightarrow> models \<Rightarrow> ustr list" where
  "taken_keys lower ms = map (lookup_key lower) (map fst ms @ List.map_filter im_alias (bt_values ms))"

lemma map_filter_member: "a \<in> set (List.map_filter f xs) \<longleftrightarrow> (\<exists>x \<in> set xs. f x = Some a)"
  by (induction xs) (auto simp: List.map_filter_simps split: option.splits)

lemma is_taken_keys: "is_taken lower ms name \<longleftrightarrow> lookup_key lower name \<in> set (taken_keys lower ms)"
proof -
  have "by_alias lower name ms \<noteq> None \<longleftrightarrow> lookup_key lower name \<in> lookup_key lower ` set (List.map_filter im_alias (bt_values ms))"
  proof -
    have "by_alias lower name ms \<noteq> None \<longleftrightarrow> (\<exists>m \<in> set (bt_values ms). \<exists>a. im_alias m = Some a \<and> same_name lower a name)"
      unfolding by_alias_def find_None_iff holds_alias_def by (auto split: option.splits)
    also have "\<dots> \<longleftrightarrow> (\<exists>a \<in> set (List.map_filter im_alias (bt_values ms)). same_name lower a name)"
      unfolding Bex_def map_filter_member by blast
    finally show ?thesis unfolding same_name_def image_iff Bex_def by metis
  qed
  moreover have "list_ex (\<lambda>i. same_name lower i name) (map fst ms) \<longleftrightarrow> lookup_key lower name \<in> lookup_key lower ` set (map fst ms)"
    unfolding list_ex_iff same_name_def image_iff by metis
  ultimately show ?thesis by (auto simp: is_taken_def taken_keys_def)
qed

lemma length_taken_keys: "length (taken_keys lower ms) \<le> 2 * length ms"
proof -
  have "length (List.map_filter f xs) \<le> length xs" for f :: "installed_model \<Rightarrow> ustr option" and xs
    by (induction xs) (auto simp: List.map_filter_simps split: option.splits)
  from this [of im_alias "bt_values ms"] show ?thesis by (simp add: taken_keys_def bt_values_def)
qed

lemma first_free_sound: "first_free taken base n = Some i \<Longrightarrow> \<not> taken i"
  by (induction taken base n rule: first_free.induct) (subst (asm) (2) first_free.simps, auto split: if_splits)

lemma first_free_None:
  "first_free taken base n = None \<Longrightarrow> n \<le> k \<Longrightarrow> k < 2 ^ 32 \<Longrightarrow> taken (numbered base k)"
proof (induction taken base n rule: first_free.induct)
  case (1 taken base n)
  have step: "\<not> 2 ^ 32 \<le> n \<and> taken (numbered base n) \<and> first_free taken base (Suc n) = None"
    using 1(2-4) by (subst (asm) first_free.simps) (auto split: if_splits)
  then show ?case using 1 by (cases "k = n") auto
qed

text \<open>Pigeonhole: a catalog takes at most two names for each model.\<close>

lemma free_id_free:
  assumes "lower_ascii lower" "list_all slug_letter base" "length ms < 2 ^ 31 - 1"
  shows "\<not> is_taken lower ms (free_id lower ms base) \<and> list_all slug_letter (free_id lower ms base)"
proof (cases "first_free (is_taken lower ms) base 2")
  case None
  have "is_taken lower ms (numbered base n)" if "2 \<le> n" "n < 2 ^ 32" for n
    using first_free_None [OF None that] .
  then have "numbered base ` {2..<2 ^ 32} \<subseteq> set (taken_keys lower ms)"
    using slug_key [OF assms(1) numbered_letters [OF assms(2)]] by (auto simp: is_taken_keys)
  then have "card (numbered base ` {2..<2 ^ 32}) \<le> card (set (taken_keys lower ms))" by (intro card_mono) simp_all
  also have "\<dots> \<le> 2 * length ms" using length_taken_keys card_length order_trans by blast
  also have "card (numbered base ` {2..<2 ^ 32}) = 2 ^ 32 - 2" by (subst card_image) (auto simp: inj_on_def numbered_def)
  finally show ?thesis using assms(3) by simp
next
  case (Some i)
  have "\<exists>k. i = numbered base k" if "first_free taken base n = Some i" for taken n
    using that by (induction taken base n rule: first_free.induct) (subst (asm) (2) first_free.simps, auto split: if_splits)
  then have "list_all slug_letter i" using Some numbered_letters [OF assms(2)] by blast
  then show ?thesis using Some first_free_sound [OF Some] assms(2) by (auto simp: free_id_def)
qed

section \<open>Reachable catalogs\<close>

lemma save_store_models [simp]: "ct_store (snd (save_store encode written s)) = ct_store s"
  by (simp add: save_store_def catalog_save_def)

lemma save_store_cases:
  "fst (save_store encode written s) = Inl e \<Longrightarrow> snd (save_store encode written s) = s"
  by (auto simp: save_store_def catalog_save_def split: if_splits)

lemma commit_record_names_ok:
  assumes ok: "names_ok lower ms" and lower: "lower_ascii lower" and small: "length ms < 2 ^ 31 - 1"
    and result: "commit_record lower now sn ms = Inr (r, ms')"
  shows "names_ok lower ms'"
proof (cases "sn_id sn")
  case (Some i)
  have wf: "models_ok ms" using ok by (simp add: names_ok_def)
  have "find (\<lambda>m. im_id m \<noteq> i \<and> holds_alias lower i m) (bt_values ms) = None"
    and r: "im_id r = i" "im_alias r = Option.bind (bt_get ms i) im_alias" "ms' = bt_insert (im_id r) r ms"
    using result Some
    by (auto simp: commit_record_def and_then_Inr_iff ensure_id_unaliased_def catalog_replace_def new_model_def Let_def
        split: option.splits)
  then have "\<not> holds_alias lower i m" if "bt_get ms k = Some m" "k \<noteq> i" for k m
    using that models_okD(2) [OF wf] by (auto simp: find_values_None [OF wf])
  then show ?thesis unfolding r(3) using ok r by (intro names_ok_insert) auto
next
  case None
  let ?i = "free_id lower ms (slug_for (sn_path sn))"
  have wf: "models_ok ms" using ok by (simp add: names_ok_def)
  have free: "\<not> is_taken lower ms ?i"
    using free_id_free [OF lower _ small] slug_for_letters by blast
  have r: "im_id r = ?i" "im_alias r = None" "ms' = bt_insert (im_id r) r ms" "bt_get ms ?i = None"
    using result None
    by (auto simp: commit_record_def and_then_Inr_iff catalog_insert_def new_model_def Let_def split: if_splits)
  have "\<not> holds_alias lower ?i m" if "bt_get ms k = Some m" for k m
    using free that by (auto simp: is_taken_def by_alias_def find_values_None [OF wf])
  then show ?thesis unfolding r(3) using ok r by (intro names_ok_insert) auto
qed

text \<open>What the manager, the installer and a restart do to the catalog. A catalog is far from two thousand million
  models.\<close>

inductive catalog_step ::
  "(installed_model list \<Rightarrow> 'f) \<Rightarrow> ('f \<Rightarrow> installed_model list option) \<Rightarrow> (ustr \<Rightarrow> ustr) \<Rightarrow> 'f catalog_state \<Rightarrow> 'f catalog_state \<Rightarrow> bool"
  for encode decode lower where
  renamed: "catalog_step encode decode lower s (snd (manager_set_alias encode lower written name new s))"
| removed: "catalog_step encode decode lower s (snd (manager_remove encode lower written deleted name delete_file resident s))"
| loaded: "catalog_step encode decode lower s (manager_mark_loaded encode written now i n_ctx s)"
| committed: "length (models_of s) < 2 ^ 31 - 1 \<Longrightarrow> catalog_step encode decode lower s (snd (commit_scanned encode lower now written sn s))"
| restarted: "catalog_open decode (cs_path (ct_store s)) (case ct_disk s of None \<Rightarrow> NoFile | Some bs \<Rightarrow> Contents bs) = Inr st \<Longrightarrow>
    catalog_step encode decode lower s (s\<lparr>ct_store := st\<rparr>)"

inductive catalog_reach ::
  "(installed_model list \<Rightarrow> 'f) \<Rightarrow> ('f \<Rightarrow> installed_model list option) \<Rightarrow> (ustr \<Rightarrow> ustr) \<Rightarrow> 'f catalog_state \<Rightarrow> bool"
  for encode decode lower where
  fresh: "catalog_reach encode decode lower \<lparr>ct_store = \<lparr>cs_path = path, cs_models = []\<rparr>, ct_disk = None\<rparr>"
| more_steps: "catalog_reach encode decode lower s \<Longrightarrow> catalog_step encode decode lower s t \<Longrightarrow> catalog_reach encode decode lower t"

definition state_ok :: "(installed_model list \<Rightarrow> 'f) \<Rightarrow> (ustr \<Rightarrow> ustr) \<Rightarrow> 'f catalog_state \<Rightarrow> bool" where
  "state_ok encode lower s \<longleftrightarrow> names_ok lower (models_of s) \<and>
    (\<forall>bs. ct_disk s = Some bs \<longrightarrow> (\<exists>ms. bs = encode (bt_values ms) \<and> names_ok lower ms))"

lemma state_okD: "state_ok encode lower s \<Longrightarrow> names_ok lower (models_of s)"
  by (simp add: state_ok_def)

lemma state_ok_save:
  assumes "state_ok encode lower s" "names_ok lower ms"
  shows "state_ok encode lower (snd (save_store encode written (with_models ms s)))"
  using assms by (auto simp: state_ok_def save_store_def catalog_save_def)

lemma state_ok_models: "state_ok encode lower s \<Longrightarrow> names_ok lower ms \<Longrightarrow> state_ok encode lower (with_models ms s)"
  by (simp add: state_ok_def)

lemma collect_values:
  assumes "models_ok ms"
  shows "collect_models (bt_values ms) = ms"
proof -
  have "(k, m) \<in> set ms \<Longrightarrow> im_id m = k" for k m
    using assms by (simp add: models_ok_def bt_get_Some)
  then have "map (\<lambda>m. (im_id m, m)) (bt_values ms) = ms"
    by (auto simp: bt_values_def intro!: map_idI)
  then show ?thesis
    using bt.collect_entries [of ms "[]"] models_okD(1) [OF assms] by (simp add: collect_models_def bt_get_def [abs_def])
qed

lemma state_ok_set_alias:
  assumes "state_ok encode lower s"
  shows "state_ok encode lower (snd (manager_set_alias encode lower written name new s))"
proof (cases "catalog_resolve lower name (models_of s)")
  case (Some m)
  show ?thesis
  proof (cases "set_alias lower (im_id m) new (models_of s)")
    case (Inr ms)
    have ms: "names_ok lower ms" using set_alias_names_ok [OF _ Inr] assms by (simp add: state_ok_def)
    let ?s = "snd (save_store encode written (with_models ms s))"
    have saved: "state_ok encode lower ?s" by (rule state_ok_save [OF assms ms])
    have again: "names_ok lower ms'" if "set_alias lower (im_id m) p (models_of ?s) = Inr ms'" for p ms'
      using set_alias_names_ok [OF _ that] saved by (simp add: state_ok_def)
    show ?thesis
      using saved state_ok_models [OF saved again] Some Inr
      by (cases "save_store encode written (with_models ms s)")
        (auto simp: manager_set_alias_def Let_def split: sum.splits option.splits)
  qed (use Some assms in \<open>simp add: manager_set_alias_def Let_def\<close>)
qed (use assms in \<open>simp add: manager_set_alias_def\<close>)

lemma state_ok_remove:
  assumes "state_ok encode lower s"
  shows "state_ok encode lower (snd (manager_remove encode lower written deleted name delete_file resident s))"
proof -
  have "state_ok encode lower (snd (save_store encode written (with_models (bt_remove k (models_of s)) s)))" for k
    using assms by (intro state_ok_save) (simp_all add: state_ok_def names_ok_remove)
  then show ?thesis
    using assms
    by (cases "save_store encode written (with_models (bt_remove (im_id (the (catalog_resolve lower name (models_of s)))) (models_of s)) s)")
      (auto simp: manager_remove_def catalog_remove_def split: option.splits sum.splits if_splits prod.splits, (metis snd_conv)+)
qed

lemma state_ok_commit:
  assumes "state_ok encode lower s" "lower_ascii lower" "length (models_of s) < 2 ^ 31 - 1"
  shows "state_ok encode lower (snd (commit_scanned encode lower now written sn s))"
proof -
  have "state_ok encode lower (snd (save_store encode written (with_models ms s)))"
    if "commit_record lower now sn (models_of s) = Inr (r, ms)" for r ms
    using assms commit_record_names_ok [OF _ assms(2,3) that] by (intro state_ok_save) (simp_all add: state_ok_def)
  then show ?thesis
    using assms(1) by (fastforce simp: commit_scanned_def split: option.splits sum.splits prod.splits)
qed

lemma state_ok_reach:
  assumes "catalog_reach encode decode lower s" "lower_ascii lower" "\<And>ms. decode (encode ms) = Some ms"
  shows "state_ok encode lower s"
  using assms(1)
proof induction
  case (fresh path)
  show ?case by (simp add: state_ok_def names_ok_def models_ok_def bt_get_def)
next
  case (more_steps s t)
  from more_steps.hyps(2) more_steps.IH show ?case
  proof cases
    case (restarted st)
    have "names_ok lower (cs_models st)"
      using restarted(2) more_steps.IH
      by (auto simp: catalog_open_def state_ok_def assms(3) collect_values names_ok_def models_ok_def bt_get_def split: option.splits)
    then show ?thesis using more_steps.IH restarted(1) by (simp add: state_ok_def)
  next
    case (loaded written now i n_ctx)
    then show ?thesis
      using state_ok_save [OF more_steps.IH names_ok_mark_loaded [of lower "models_of s"]] state_okD [OF more_steps.IH]
      by (simp add: manager_mark_loaded_def)
  qed (simp_all add: state_ok_set_alias state_ok_remove state_ok_commit assms(2))
qed

section \<open>Models are found by their names\<close>

lemma resolve_alias:
  assumes ok: "names_ok lower ms" and m: "bt_get ms i = Some m" "im_alias m = Some a" "same_name lower a name"
    and named: "selector_parse (Some name) = Named n"
  shows "catalog_resolve lower name ms = Some m"
proof -
  have wf: "models_ok ms" using ok by (simp add: names_ok_def)
  have n: "n = trim name" using named by (auto simp: selector_parse_def Let_def split: if_splits)
  have held: "holds_alias lower n m" using m by (simp add: holds_alias_def n)
  then have "find (holds_alias lower n) (bt_values ms) \<noteq> None" using m(1) by (auto simp: find_values_None [OF wf])
  then obtain m' where m': "by_alias lower n ms = Some m'" by (auto simp: by_alias_def)
  then have found: "holds_alias lower n m'" "bt_get ms (im_id m') = Some m'"
    using find_values_Some [OF wf] by (auto simp: by_alias_def)
  then have "holds_alias lower a m'" using m(3) by (auto simp: holds_alias_def same_name_def n lookup_key_def split: option.splits)
  then have "im_id m' = i" using ok m found(2) unfolding names_ok_def by blast
  then show ?thesis using m' named found(2) m(1) by (simp add: catalog_resolve_def or_else_def)
qed

lemma resolve_id:
  assumes ok: "names_ok lower ms" and m: "bt_get ms i = Some m" and named: "selector_parse (Some i) = Named i"
  shows "catalog_resolve lower i ms = Some m"
proof -
  have wf: "models_ok ms" using ok by (simp add: names_ok_def)
  have "\<not> holds_alias lower i m'" if "bt_get ms k = Some m'" for k m'
  proof (cases "im_alias m'")
    case (Some a)
    then have "\<not> same_name lower i a" using ok that m unfolding names_ok_def by blast
    then show ?thesis using Some by (simp add: holds_alias_def same_name_def)
  qed (simp add: holds_alias_def)
  then have "by_alias lower i ms = None" by (auto simp: by_alias_def find_values_None [OF wf])
  then show ?thesis using named m by (simp add: catalog_resolve_def or_else_def)
qed


section \<open>Changes that cannot be saved\<close>

lemma bt_update_undo:
  assumes "bt_sorted ms" "bt_get ms i = Some m" "g (f m) = m"
  shows "bt_update i g (bt_update i f ms) = ms"
  using assms by (intro bt.extensionality) (auto simp: bt_get_update fun_eq_iff)

lemma check_alias_again:
  assumes ok: "names_ok lower ms" and m: "bt_get ms i = Some m" "im_alias m = Some a"
  shows "check_alias lower a (Some i) (bt_update i (\<lambda>m. m\<lparr>im_alias := new\<rparr>) ms) = Inr a"
proof -
  let ?ms = "bt_update i (\<lambda>m. m\<lparr>im_alias := new\<rparr>) ms"
  have wf: "models_ok ?ms" using ok by (intro models_ok_update) (simp_all add: names_ok_def)
  have old: "validate_alias a = Inr a" "\<And>k m'. bt_get ms k = Some m' \<Longrightarrow> \<not> same_name lower k a \<and> (k \<noteq> i \<longrightarrow> \<not> holds_alias lower a m')"
    using ok m unfolding names_ok_def by blast+
  have "\<not> same_name lower (im_id m') a \<and> (im_id m' \<noteq> i \<longrightarrow> \<not> holds_alias lower a m')" if "bt_get ?ms k = Some m'" for k m'
    using that models_okD(2) [OF wf that] old(2) [of k] by (auto simp: bt_get_update split: if_splits)
  then have "find (\<lambda>m. same_name lower (im_id m) a) (bt_values ?ms) = None"
    "find (\<lambda>m. Some (im_id m) \<noteq> Some i \<and> holds_alias lower a m) (bt_values ?ms) = None"
    unfolding find_values_None [OF wf] by auto
  then show ?thesis by (simp add: check_alias_def old(1))
qed

text \<open>C32. An alias that cannot be saved is taken back: if setting an alias fails for any reason, the catalog in memory and
  the file are what they were before, so that the name answers exactly as it will after a restart.\<close>

theorem failed_alias_is_undone:
  assumes "names_ok lower (models_of s)" "fst (manager_set_alias encode lower written name new s) = Inl e"
  shows "snd (manager_set_alias encode lower written name new s) = s"
proof (cases "catalog_resolve lower name (models_of s)")
  case (Some m)
  let ?i = "im_id m" and ?ms = "models_of s"
  show ?thesis
  proof (cases "set_alias lower ?i new ?ms")
    case (Inr ms)
    then obtain a where ms: "ms = bt_update ?i (\<lambda>m. m\<lparr>im_alias := a\<rparr>) ?ms" and found: "bt_get ?ms ?i \<noteq> None"
      by (auto simp: set_alias_def and_then_Inr_iff split: if_splits)
    obtain m0 where m0: "bt_get ?ms ?i = Some m0" using found by auto
    have sorted: "bt_sorted ?ms" using assms(1) by (simp add: names_ok_def models_ok_def)
    have undone: "set_alias lower ?i (im_alias m0) ms = Inr ?ms"
      using check_alias_again [OF assms(1) m0] bt_update_undo [OF sorted m0, of "\<lambda>m. m\<lparr>im_alias := im_alias m0\<rparr>"]
      by (cases "im_alias m0") (auto simp: set_alias_def ms m0 bt_get_update)
    obtain r s' where save: "save_store encode written (with_models ms s) = (r, s')" by fastforce
    have failed: "\<exists>e. r = Inl e"
      using assms(2) Some Inr m0 save by (auto simp: manager_set_alias_def Let_def ms bt_get_update split: sum.splits)
    then have "s' = with_models ms s" using save_store_cases [of encode written "with_models ms s"] save by auto
    then show ?thesis using Some Inr m0 save failed undone by (auto simp: manager_set_alias_def Let_def)
  qed (use Some in \<open>simp add: manager_set_alias_def Let_def\<close>)
qed (simp add: manager_set_alias_def)

text \<open>What was written is read back: a catalog that was saved and opened again has the same models, aliases included.\<close>

theorem catalog_file_roundtrip:
  assumes "models_ok (cs_models st)" "cs_path st \<noteq> []" "\<And>ms. decode (encode ms) = Some ms"
  shows "\<exists>bs. catalog_save encode True st disk = (Inr (), Some bs) \<and> catalog_open decode (cs_path st) (Contents bs) = Inr st"
  using assms by (simp add: catalog_save_def catalog_open_def collect_values)

section \<open>Downloads\<close>

definition safe_file_name :: "ustr \<Rightarrow> bool" where
  "safe_file_name n \<longleftrightarrow> n \<noteq> [] \<and> n \<noteq> ascii ''.'' \<and> n \<noteq> ascii ''..'' \<and> 47 \<notin> set n \<and> 92 \<notin> set n"

lemma file_name_from_url_safe: "safe_file_name (file_name_from_url url)"
proof -
  have "safe_file_name (ascii ''model.gguf'')" by (simp add: safe_file_name_def ascii_def)
  then show ?thesis by (auto simp: file_name_from_url_def Let_def safe_file_name_def split: option.splits)
qed

lemma utf8_bytes_hex:
  "list_all (\<lambda>b. is_ascii_hexdigit (unat b)) (map word_of_nat (utf8_bytes c) :: u8 list) \<longleftrightarrow> is_ascii_hexdigit c"
proof -
  have low: "is_ascii_hexdigit (unat (word_of_nat c :: u8)) = is_ascii_hexdigit c" if "c < 0x80"
    using that by (simp add: unat_of_nat take_bit_eq_mod)
  have "\<not> is_ascii_hexdigit (unat (word_of_nat (0x80 + d mod 64) :: u8))" for d
  proof -
    have "0x80 + d mod 64 < 256" using mod_less_divisor [of 64 d] by linarith
    then have "unat (word_of_nat (0x80 + d mod 64) :: u8) = 0x80 + d mod 64"
      by (simp only: unat_of_nat take_bit_eq_mod) simp
    then show ?thesis by (simp only: is_ascii_hexdigit_def) simp
  qed
  moreover have "\<not> is_ascii_hexdigit c" if "\<not> c < 0x80" using that by (simp add: is_ascii_hexdigit_def)
  ultimately show ?thesis using low by (auto simp: utf8_bytes_def)
qed

lemma is_digest_iff: "is_digest s \<longleftrightarrow> length s = 64 \<and> list_all is_ascii_hexdigit s"
proof -
  have hex: "list_all (\<lambda>b. is_ascii_hexdigit (unat b)) (utf8_encode s) \<longleftrightarrow> list_all is_ascii_hexdigit s"
    by (induction s) (simp_all add: utf8_encode_def utf8_bytes_hex)
  moreover have "length (utf8_encode s) = length s" if "list_all is_ascii_hexdigit s"
    using that by (induction s) (auto simp: utf8_encode_def utf8_bytes_def is_ascii_hexdigit_def)
  ultimately show ?thesis by (auto simp: is_digest_def)
qed

lemma hexdigit_lower: "is_ascii_hexdigit c \<Longrightarrow> is_ascii_hexdigit (to_ascii_lowercase c)"
  by (auto simp: is_ascii_hexdigit_def to_ascii_lowercase_def)

lemma before_query_plain: "63 \<notin> set (before_query url) \<and> 35 \<notin> set (before_query url)"
  by (auto simp: before_query_def dest: set_takeWhileD)

text \<open>The pinned models are recorded, and their file names and addresses are plain.\<close>

lemma MODELS_plain:
  "list_all (\<lambda>m. is_digest (cm_sha256 m) \<and> safe_file_name (cm_file m) \<and>
     63 \<notin> set (catalog_model_url m) \<and> 35 \<notin> set (catalog_model_url m)) MODELS"
  by (simp add: MODELS_def is_digest_iff is_ascii_hexdigit_def safe_file_name_def catalog_model_url_def ascii_def)


section \<open>Removing a model\<close>

text \<open>A model that was loaded through the catalog is never removed while it is the resident one: whatever name is
  used, the request is refused and nothing changes, because the id of the resident model reads back as the id of
  its record.\<close>

theorem loaded_model_is_kept:
  assumes "catalog_resolve lower name (models_of s) = Some m" "0 < n_ctx"
  shows "manager_remove encode lower written deleted name delete_file (Some (id_with_context (im_id m) n_ctx)) s =
    (Inl (InUse (im_id m)), s)"
  using assms by (simp add: manager_remove_def)

lemma downloaded_replaces:
  assumes "names_ok lower ms" "sn_id sn = Some i" "commit_record lower now sn ms = Inr (r, ms')"
  shows "bt_get ms' = (bt_get ms)(i \<mapsto> r) \<and> im_id r = i \<and> im_source r = sn_source sn \<and>
    im_alias r = Option.bind (bt_get ms i) im_alias"
  using assms
  by (auto simp: commit_record_def and_then_Inr_iff catalog_replace_def new_model_def Let_def names_ok_def models_ok_def
      bt_get_insert)

section \<open>A concrete catalog\<close>

text \<open>A file in the user's own directory, and one that was downloaded.\<close>

definition local_file :: "string \<Rightarrow> scanned" where
  "local_file path = \<lparr>sn_id = None, sn_path = ascii path, sn_bytes = 1, sn_sha256 = ascii ''aa'', sn_integrity = Imported,
     sn_source = FromImport (ascii path), sn_metadata = tiny_header\<rparr>"

definition link_file :: "string \<Rightarrow> string \<Rightarrow> scanned" where
  "link_file i path = \<lparr>sn_id = Some (ascii i), sn_path = ascii path, sn_bytes = 2, sn_sha256 = ascii ''bb'', sn_integrity = Recorded,
     sn_source = FromLink (ascii ''https://example.com/f''), sn_metadata = tiny_header\<rparr>"

definition empty_catalog :: "installed_model list catalog_state" where
  "empty_catalog = \<lparr>ct_store = \<lparr>cs_path = ascii ''/catalog.json'', cs_models = []\<rparr>, ct_disk = None\<rparr>"

abbreviation to_lower :: "ustr \<Rightarrow> ustr" where
  "to_lower \<equiv> map to_ascii_lowercase"

definition commit_to :: "scanned \<Rightarrow> installed_model list catalog_state \<Rightarrow> installed_model list catalog_state" where
  "commit_to sn s = snd (commit_scanned (\<lambda>ms. ms) to_lower 0 True sn s)"

definition rename :: "string \<Rightarrow> string \<Rightarrow> installed_model list catalog_state \<Rightarrow> installed_model list catalog_state" where
  "rename name new s = snd (manager_set_alias (\<lambda>ms. ms) to_lower True (ascii name) (Some (ascii new)) s)"

definition named_catalog :: "installed_model list catalog_state" where
  "named_catalog = rename ''tiny-model'' '' Coder '' (commit_to (local_file ''/home/me/Tiny Model.gguf'') empty_catalog)"

lemma to_lower_ascii: "lower_ascii to_lower"
  by (simp add: lower_ascii_def)

lemma named_catalog_reach: "catalog_reach (\<lambda>ms. ms) Some to_lower named_catalog"
  unfolding named_catalog_def rename_def commit_to_def
proof (rule catalog_reach.more_steps [OF catalog_reach.more_steps [OF _ catalog_step.committed] catalog_step.renamed])
  show "catalog_reach (\<lambda>ms. ms) Some to_lower empty_catalog" unfolding empty_catalog_def by (rule catalog_reach.fresh)
qed (simp add: empty_catalog_def)


theorem failed_alias_is_undone_witness:
  "manager_set_alias (\<lambda>ms. ms) to_lower False (ascii ''coder'') (Some (ascii ''Other'')) named_catalog = (Inl CatalogIo, named_catalog)"
proof -
  have ok: "names_ok to_lower (models_of named_catalog)"
    by (rule state_okD [OF state_ok_reach [OF named_catalog_reach to_lower_ascii]]) simp
  have e: "fst (manager_set_alias (\<lambda>ms. ms) to_lower False (ascii ''coder'') (Some (ascii ''Other'')) named_catalog) = Inl CatalogIo"
    by code_simp
  show ?thesis using failed_alias_is_undone [OF ok e] e by (metis prod.collapse)
qed

theorem catalog_file_roundtrip_witness:
  "catalog_open Some (ascii ''/catalog.json'') (Contents (bt_values (models_of named_catalog))) = Inr (ct_store named_catalog)"
proof -
  have "models_ok (models_of named_catalog)"
    using state_okD [OF state_ok_reach [OF named_catalog_reach to_lower_ascii]] by (simp add: names_ok_def)
  moreover have "cs_path (ct_store named_catalog) = ascii ''/catalog.json''" by code_simp
  ultimately show ?thesis
    using catalog_file_roundtrip [of "ct_store named_catalog" Some "\<lambda>ms. ms" None] by (auto simp: catalog_save_def ascii_def)
qed


theorem loaded_model_is_kept_witness:
  "fst (manager_remove (\<lambda>ms. ms) to_lower True True (ascii ''CODER'') True
     (Some (id_with_context (ascii ''tiny-model'') 2048)) named_catalog) = Inl (InUse (ascii ''tiny-model''))"
proof -
  have "map_option im_id (catalog_resolve to_lower (ascii ''CODER'') (models_of named_catalog)) = Some (ascii ''tiny-model'')"
    by code_simp
  then obtain m where "catalog_resolve to_lower (ascii ''CODER'') (models_of named_catalog) = Some m" "im_id m = ascii ''tiny-model''"
    by blast
  then show ?thesis using loaded_model_is_kept [of to_lower "ascii ''CODER''" named_catalog m 2048] by simp
qed

section \<open>Where the names fall short\<close>



text \<open>Downloading a file whose name gives an id that an imported model has replaces that model: its record is gone from
  the catalog and its alias now names the downloaded bytes.\<close>

theorem download_takes_over_import:
  "let s = commit_to (link_file ''tiny-model'' ''/data/tiny-model.gguf'') named_catalog in
   map (\<lambda>m. (im_alias m, im_source m, im_sha256 m)) (bt_values (models_of named_catalog)) =
     [(Some (ascii ''Coder''), FromImport (ascii ''/home/me/Tiny Model.gguf''), ascii ''aa'')] \<and>
   map (\<lambda>m. (im_alias m, im_source m, im_sha256 m)) (bt_values (models_of s)) =
     [(Some (ascii ''Coder''), FromLink (ascii ''https://example.com/f''), ascii ''bb'')]"
  by code_simp

end
