(* ===== verification/Engine_Backend.thy ===== *)
theory Engine_Backend
  imports Memory_Estimate Model_Id Catalog_Store
begin

text \<open>
  The engine: \<open>lightweight-backend-llamacpp/src/backend.rs\<close> and \<open>supervisor.rs\<close>. What the operating system does with the child
  process is an argument: which files are there, how each launch goes, what the engine reports of itself once it serves,
  how a process ended. Error values carry the data the code matches on; their sentences are left out.
\<close>

section \<open>How a process ends\<close>

datatype backend_error =
    UnsupportedArchitecture bytes "bytes list"
  | InvalidContextLength u32 u32
  | UnsupportedKvCacheType string
  | ModelNotFound ustr
  | LockedMemoryTooSmall byte_count byte_count
  | RuntimeMissing ustr
  | RuntimeFailed
  | EngineIo
  | BackendCancelled
  | StartTimeout u64
  | EngineUnavailable
  | EngineCrashed "int option" "int option" "ustr list"
  | EngineOom "ustr list"
  | UnsupportedCpuInstruction
  | NoModelLoaded

datatype exit_classification = CleanExit | FailedExit int | Signalled int | StillRunning

text \<open>An exit status has a signal, a code, or neither.\<close>

definition classify_exit :: "int option \<Rightarrow> int option \<Rightarrow> exit_classification" where
  "classify_exit signal code =
    (case signal of
       Some s \<Rightarrow> Signalled s
     | None \<Rightarrow> (case code of Some c \<Rightarrow> if c = 0 then CleanExit else FailedExit c | None \<Rightarrow> FailedExit (- 1)))"

definition SIGILL :: int where "SIGILL = 4"
definition SIGKILL :: int where "SIGKILL = 9"
definition STDERR_TAIL_LINES :: nat where "STDERR_TAIL_LINES = 64"
definition MAX_START_ATTEMPTS :: nat where "MAX_START_ATTEMPTS = 3"

definition into_error :: "memory_snapshot option \<Rightarrow> exit_classification \<Rightarrow> ustr list \<Rightarrow> backend_error" where
  "into_error memory exit tail =
    (case exit of
       CleanExit \<Rightarrow> EngineUnavailable
     | StillRunning \<Rightarrow> EngineUnavailable
     | FailedExit code \<Rightarrow> EngineCrashed (Some code) None tail
     | Signalled signal \<Rightarrow>
         if signal = SIGILL then UnsupportedCpuInstruction
         else if signal = SIGKILL then
           (let starved = (case memory of Some m \<Rightarrow> ms_available m < from_mib 256 | None \<Rightarrow> False)
            in if starved then EngineOom tail else EngineCrashed None (Some SIGKILL) tail)
         else EngineCrashed None (Some signal) tail)"

definition push_tail :: "ustr \<Rightarrow> ustr list \<Rightarrow> ustr list" where
  "push_tail line tail = (if length tail = STDERR_TAIL_LINES then tl tail else tail) @ [line]"

section \<open>Launching\<close>

record engine_config =
  ec_server_path :: ustr
  ec_model_path :: ustr
  ec_params :: runtime_params
  ec_threads :: u32
  ec_start_timeout :: nat

definition engine_context :: "runtime_params \<Rightarrow> u32" where
  "engine_context p = sat_mul (rp_n_ctx p) (max (rp_n_parallel p) 1)"

definition dec :: "'a::len word \<Rightarrow> ustr" where
  "dec w = decimal (unat w)"

definition build_args :: "engine_config \<Rightarrow> u16 \<Rightarrow> ustr list" where
  "build_args c port =
    (let p = ec_params c in
     [ascii ''--model'', ec_model_path c, ascii ''--host'', ascii ''127.0.0.1'', ascii ''--port'', dec port,
      ascii ''--ctx-size'', dec (engine_context p), ascii ''--batch-size'', dec (rp_n_batch p),
      ascii ''--ubatch-size'', dec (rp_n_ubatch p), ascii ''--parallel'', dec (max (rp_n_parallel p) 1),
      ascii ''--no-kv-unified'', ascii ''--cont-batching'', ascii ''--threads'', dec (max (ec_threads c) 1),
      ascii ''--cache-type-k'', ascii (ggml_name (rp_cache_type_k p)), ascii ''--cache-type-v'', ascii (ggml_name (rp_cache_type_v p)),
      ascii ''--jinja'', ascii ''--metrics''] @
     (case rp_threads_batch p of Some n \<Rightarrow> [ascii ''--threads-batch'', dec (max n 1)] | None \<Rightarrow> []) @
     (case rp_poll p of Some n \<Rightarrow> [ascii ''--poll'', dec (min n 100)] | None \<Rightarrow> []) @
     (case rp_cache_reuse p of Some n \<Rightarrow> [ascii ''--cache-reuse'', dec n] | None \<Rightarrow> []) @
     (case rp_cpu_range p of
        Some (low, high) \<Rightarrow> [ascii ''--cpu-range'', dec low @ ascii ''-'' @ dec high] @
          (if rp_cpu_strict p then [ascii ''--cpu-strict'', ascii ''1''] else [])
      | None \<Rightarrow> []) @
     (case rp_load_mode p of Some mode \<Rightarrow> [ascii ''--load-mode'', ascii (load_mode_as_str mode)] | None \<Rightarrow> []))"

text \<open>One look at a starting engine: whether the load was cancelled, how the process stands before the probe, whether the
  probe was answered, how it stands after, and the time.\<close>

record look =
  lk_cancelled :: bool
  lk_before :: exit_classification
  lk_healthy :: bool
  lk_after :: exit_classification
  lk_now :: nat

fun await_ready :: "memory_snapshot option \<Rightarrow> ustr list \<Rightarrow> nat \<Rightarrow> u64 \<Rightarrow> look list \<Rightarrow> (backend_error + unit) option" where
  "await_ready memory tail deadline seconds [] = None"
| "await_ready memory tail deadline seconds (l # ls) =
    (if lk_cancelled l then Some (Inl BackendCancelled)
     else if lk_before l \<noteq> StillRunning then Some (Inl (into_error memory (lk_before l) tail))
     else if lk_healthy l then Some (Inr ())
     else if lk_after l \<noteq> StillRunning then Some (Inl (into_error memory (lk_after l) tail))
     else if deadline \<le> lk_now l then Some (Inl (StartTimeout seconds))
     else await_ready memory tail deadline seconds ls)"

definition enrich :: "backend_error \<Rightarrow> ustr list \<Rightarrow> backend_error" where
  "enrich err captured =
    (case err of
       EngineCrashed code signal tail \<Rightarrow> if tail = [] then EngineCrashed code signal captured else err
     | EngineOom tail \<Rightarrow> if tail = [] then EngineOom captured else err
     | _ \<Rightarrow> err)"

text \<open>One launch: the port and key, the spawning, and the wait for readiness, as the operating system lets them go.\<close>

record launch =
  la_port :: bool
  la_spawned :: bool
  la_memory :: "memory_snapshot option"
  la_tail :: "ustr list"
  la_started :: nat
  la_looks :: "look list"

definition start_attempt :: "(ustr \<Rightarrow> bool) \<Rightarrow> engine_config \<Rightarrow> launch \<Rightarrow> (backend_error + unit) option" where
  "start_attempt present c l =
    (if \<not> present (ec_server_path c) then Some (Inl (RuntimeMissing (ec_server_path c)))
     else if \<not> present (ec_model_path c) then Some (Inl (ModelNotFound (ec_model_path c)))
     else if \<not> la_port l \<or> \<not> la_spawned l then Some (Inl EngineIo)
     else map_option
       (\<lambda>outcome. case outcome of Inr _ \<Rightarrow> Inr () | Inl e \<Rightarrow> Inl (enrich e (la_tail l)))
       (await_ready (la_memory l) (la_tail l) (la_started l + ec_start_timeout c)
         (word_of_nat (ec_start_timeout c div 1000000000)) (la_looks l)))"

definition is_retryable_startup :: "backend_error \<Rightarrow> bool" where
  "is_retryable_startup err \<longleftrightarrow> (case err of EngineCrashed (Some _) None _ \<Rightarrow> True | _ \<Rightarrow> False)"

text \<open>The loop over the attempts; \<open>outcomes\<close> gives the result of each. The result is paired with the number of attempts.\<close>

function start_from :: "(nat \<Rightarrow> backend_error + unit) \<Rightarrow> nat \<Rightarrow> (backend_error + unit) \<times> nat" where
  "start_from outcomes attempt =
    (case outcomes attempt of
       Inr u \<Rightarrow> (Inr u, attempt)
     | Inl err \<Rightarrow>
         if attempt < MAX_START_ATTEMPTS \<and> is_retryable_startup err then start_from outcomes (Suc attempt)
         else (Inl err, attempt))"
  by pat_completeness auto
termination by (relation "measure (\<lambda>(_, attempt). MAX_START_ATTEMPTS - attempt)") auto

declare start_from.simps [simp del]

definition engine_start :: "(nat \<Rightarrow> backend_error + unit) \<Rightarrow> (backend_error + unit) \<times> nat" where
  "engine_start outcomes = start_from outcomes 1"

section \<open>The backend\<close>

definition ALLOWED_KV_CACHE_TYPES :: "string list" where
  "ALLOWED_KV_CACHE_TYPES = [''f32'', ''f16'', ''bf16'', ''q8_0'', ''q4_0'', ''q4_1'', ''iq4_nl'', ''q5_0'', ''q5_1'']"

record load_request =
  lq_model :: model_id
  lq_gguf_path :: ustr
  lq_metadata :: model_metadata
  lq_runtime :: runtime_params

record engine_running =
  er_instance :: nat
  er_model :: model_id
  er_effective :: runtime_params

record backend =
  be_running :: "engine_running option"
  be_slots :: u32
  be_next_instance :: nat

definition backend_new :: backend where
  "backend_new = \<lparr>be_running = None, be_slots = 1, be_next_instance = 1\<rparr>"

definition cache_type_check :: "ggml_type \<Rightarrow> backend_error + unit" where
  "cache_type_check t = (if ggml_name t \<in> set ALLOWED_KV_CACHE_TYPES then Inr () else Inl (UnsupportedKvCacheType (ggml_name t)))"

definition backend_admit :: "(ustr \<Rightarrow> bool) \<Rightarrow> u64 option \<Rightarrow> load_request \<Rightarrow> backend_error + unit" where
  "backend_admit present lock_limit q =
    (let m = lq_metadata q; p = lq_runtime q in
     if \<not> md_supported m then Inl (UnsupportedArchitecture (md_architecture m) (nearest (md_architecture m) 8))
     else and_then
       (case map_option u32_or_max (md_context_length m) of
          Some most \<Rightarrow> if most < rp_n_ctx p then Inl (InvalidContextLength (rp_n_ctx p) most) else Inr ()
        | None \<Rightarrow> Inr ())
       (\<lambda>_. and_then (cache_type_check (rp_cache_type_k p)) (\<lambda>_. and_then (cache_type_check (rp_cache_type_v p)) (\<lambda>_.
          if \<not> present (lq_gguf_path q) then Inl (ModelNotFound (lq_gguf_path q))
          else (case (rp_load_mode p, lock_limit, md_weight_bytes m) of
              (Some mode, Some limit, Some weights) \<Rightarrow>
                if locks_weights mode \<and> limit < weights then Inl (LockedMemoryTooSmall weights limit) else Inr ()
            | _ \<Rightarrow> Inr ())))))"

text \<open>The window and the slots an engine reports.\<close>

record engine_window =
  ew_n_ctx :: u32
  ew_total_slots :: u32

text \<open>The two numbers as they stand in the engine's properties, if they are there and integers.\<close>

definition window_from_props :: "u64 option \<Rightarrow> u64 option \<Rightarrow> engine_window option" where
  "window_from_props n_ctx total_slots =
    Option.bind n_ctx (\<lambda>n. Option.bind total_slots (\<lambda>k.
      if n = 0 \<or> k = 0 then None
      else if 2 ^ 32 \<le> unat n \<or> 2 ^ 32 \<le> unat k then None
      else Some \<lparr>ew_n_ctx = ucast n, ew_total_slots = ucast k\<rparr>))"

definition reconciled :: "runtime_params \<Rightarrow> engine_window option \<Rightarrow> runtime_params" where
  "reconciled requested reported =
    (case reported of
       None \<Rightarrow> requested
     | Some w \<Rightarrow>
         if rp_n_ctx requested \<le> ew_n_ctx w \<and> max (rp_n_parallel requested) 1 \<le> ew_total_slots w then requested
         else requested\<lparr>rp_n_ctx := min (ew_n_ctx w) (rp_n_ctx requested),
           rp_n_parallel := min (ew_total_slots w) (max (rp_n_parallel requested) 1)\<rparr>)"

text \<open>What happens outside during a load: the installation of the engine's program, a cancellation, the launches, the client
  to the new engine and what the engine reports.\<close>

record load_world =
  lw_present :: "ustr \<Rightarrow> bool"
  lw_lock_limit :: "u64 option"
  lw_installed :: bool
  lw_cancelled :: bool
  lw_default_threads :: u32
  lw_attempts :: "nat \<Rightarrow> backend_error + unit"
  lw_client :: bool
  lw_window :: "engine_window option"

record loaded_model =
  lm_model :: model_id
  lm_instance :: nat
  lm_effective :: runtime_params

definition backend_load :: "load_world \<Rightarrow> load_request \<Rightarrow> backend \<Rightarrow> (backend_error + loaded_model) \<times> backend" where
  "backend_load w q b =
    (case backend_admit (lw_present w) (lw_lock_limit w) q of
       Inl e \<Rightarrow> (Inl e, b)
     | Inr _ \<Rightarrow>
         if \<not> lw_installed w then (Inl RuntimeFailed, b)
         else if lw_cancelled w then (Inl BackendCancelled, b)
         else
           (let b = b\<lparr>be_running := None\<rparr>;
                threads = (case rp_threads (lq_runtime q) of Some n \<Rightarrow> n | None \<Rightarrow> lw_default_threads w)
            in case fst (engine_start (lw_attempts w)) of
                 Inl e \<Rightarrow> (Inl e, b)
               | Inr _ \<Rightarrow>
                   if \<not> lw_client w then (Inl RuntimeFailed, b\<lparr>be_next_instance := be_next_instance b + 1\<rparr>)
                   else
                     (let i = be_next_instance b;
                          effective = reconciled ((lq_runtime q)\<lparr>rp_threads := Some threads\<rparr>) (lw_window w)
                      in (Inr \<lparr>lm_model = lq_model q, lm_instance = i, lm_effective = effective\<rparr>,
                          b\<lparr>be_slots := max (rp_n_parallel effective) 1, be_next_instance := i + 1,
                            be_running := Some \<lparr>er_instance = i, er_model = lq_model q, er_effective = effective\<rparr>\<rparr>))))"

definition backend_unload :: "nat \<Rightarrow> backend \<Rightarrow> backend" where
  "backend_unload i b =
    (case be_running b of
       None \<Rightarrow> b
     | Some r \<Rightarrow> if er_instance r \<noteq> i then b else b\<lparr>be_running := None, be_slots := 1\<rparr>)"

datatype backend_health = HealthStopped | HealthReady | HealthFailed

definition backend_health_check :: "exit_classification \<Rightarrow> backend \<Rightarrow> backend_health \<times> backend" where
  "backend_health_check exit b =
    (case be_running b of
       None \<Rightarrow> (HealthStopped, b)
     | Some _ \<Rightarrow> if exit = StillRunning then (HealthReady, b) else (HealthFailed, b\<lparr>be_running := None\<rparr>))"

definition backend_shutdown :: "backend \<Rightarrow> backend" where
  "backend_shutdown b = (case be_running b of None \<Rightarrow> b | Some _ \<Rightarrow> b\<lparr>be_running := None, be_slots := 1\<rparr>)"

definition client_for :: "nat \<Rightarrow> backend \<Rightarrow> backend_error + unit" where
  "client_for i b =
    (case be_running b of
       None \<Rightarrow> Inl NoModelLoaded
     | Some r \<Rightarrow> if er_instance r \<noteq> i then Inl NoModelLoaded else Inr ())"

section \<open>Starting\<close>

lemma start_from_ends:
  assumes "0 < attempt" "attempt \<le> 3"
  shows "case start_from outcomes attempt of (result, n) \<Rightarrow> attempt \<le> n \<and> n \<le> 3 \<and> result = outcomes n \<and>
    (\<forall>k. attempt \<le> k \<and> k < n \<longrightarrow> (\<exists>e. outcomes k = Inl e \<and> is_retryable_startup e)) \<and>
    (\<forall>e. result = Inl e \<and> is_retryable_startup e \<longrightarrow> n = 3)"
  using assms
proof (induction outcomes attempt rule: start_from.induct)
  case (1 outcomes attempt)
  show ?case
  proof (cases "outcomes attempt")
    case (Inr u)
    then show ?thesis using 1(3) by (subst start_from.simps) auto
  next
    case (Inl err)
    show ?thesis
    proof (cases "attempt < 3 \<and> is_retryable_startup err")
      case True
      have cond: "attempt < MAX_START_ATTEMPTS \<and> is_retryable_startup err" and le: "Suc attempt \<le> 3"
        using True by (simp_all add: MAX_START_ATTEMPTS_def)
      obtain result n where rest: "start_from outcomes (Suc attempt) = (result, n)" by fastforce
      have run: "start_from outcomes attempt = (result, n)"
        using Inl True rest by (subst start_from.simps) (simp add: MAX_START_ATTEMPTS_def)
      have IH: "Suc attempt \<le> n \<and> n \<le> 3 \<and> result = outcomes n \<and>
          (\<forall>k. Suc attempt \<le> k \<and> k < n \<longrightarrow> (\<exists>e. outcomes k = Inl e \<and> is_retryable_startup e)) \<and>
          (\<forall>e. result = Inl e \<and> is_retryable_startup e \<longrightarrow> n = 3)"
        by (rule 1(1) [OF Inl cond zero_less_Suc le, unfolded rest prod.case])
      have "\<exists>e. outcomes k = Inl e \<and> is_retryable_startup e" if "attempt \<le> k" "k < n" for k
      proof (cases "k = attempt")
        case False
        then have "Suc attempt \<le> k" using that by simp
        then show ?thesis using IH that(2) by blast
      qed (use Inl True in blast)
      then show ?thesis unfolding run prod.case using IH by (intro conjI) (blast intro: Suc_leD)+
    next
      case False
      then show ?thesis using Inl 1(3) by (subst start_from.simps) (auto simp: MAX_START_ATTEMPTS_def)
    qed
  qed
qed

text \<open>C37. A launch is tried at most three times and never hides a failure: it succeeds exactly with the first attempt that
  does not end in the shape of a lost port race, the error it reports is that of its last attempt, and a repeated race
  is reported only after the third.\<close>

theorem start_retries:
  "case engine_start outcomes of (result, n) \<Rightarrow> 1 \<le> n \<and> n \<le> 3 \<and> result = outcomes n \<and>
    list_all (\<lambda>k. case outcomes k of Inl e \<Rightarrow> is_retryable_startup e | Inr _ \<Rightarrow> False) [1..<n] \<and>
    (case result of Inr _ \<Rightarrow> True | Inl e \<Rightarrow> n = 3 \<or> \<not> is_retryable_startup e)"
proof -
  obtain result n where run: "start_from outcomes 1 = (result, n)" by fastforce
  have "1 \<le> n \<and> n \<le> 3 \<and> result = outcomes n \<and>
    (\<forall>k. 1 \<le> k \<and> k < n \<longrightarrow> (\<exists>e. outcomes k = Inl e \<and> is_retryable_startup e)) \<and>
    (\<forall>e. result = Inl e \<and> is_retryable_startup e \<longrightarrow> n = 3)"
    by (rule start_from_ends [OF zero_less_one one_le_numeral, of outcomes, unfolded run prod.case])
  then have n: "1 \<le> n" "n \<le> 3" "result = outcomes n"
    and earlier: "\<And>k. 1 \<le> k \<Longrightarrow> k < n \<Longrightarrow> \<exists>e. outcomes k = Inl e \<and> is_retryable_startup e"
    and late: "\<And>e. result = Inl e \<Longrightarrow> is_retryable_startup e \<Longrightarrow> n = 3"
    by blast+
  have "case outcomes k of Inl e \<Rightarrow> is_retryable_startup e | Inr _ \<Rightarrow> False" if "k \<in> set [1..<n]" for k
    using earlier [of k] that by auto
  then have "list_all (\<lambda>k. case outcomes k of Inl e \<Rightarrow> is_retryable_startup e | Inr _ \<Rightarrow> False) [1..<n]"
    by (simp add: list_all_iff)
  moreover have "case result of Inr _ \<Rightarrow> True | Inl e \<Rightarrow> n = 3 \<or> \<not> is_retryable_startup e"
    using late by (cases result) auto
  ultimately show ?thesis unfolding engine_start_def run prod.case using n by blast
qed

text \<open>A starting engine is not waited for beyond its deadline.\<close>

lemma await_ready_decides:
  "list_ex (\<lambda>l. deadline \<le> lk_now l) ls \<Longrightarrow> await_ready memory tail deadline seconds ls \<noteq> None"
  by (induction ls) auto

section \<open>What the engine is given and what is promised of it\<close>

text \<open>C38. The engine allocates what was priced: the total it is given splits evenly into the window promised to each client,
  and the elements of a layer's cache in the estimate are the cells the engine is asked for times the width of a cell,
  as long as the total is a number the engine can be given.\<close>

theorem priced_is_allocated:
  assumes "unat (rp_n_ctx p) * max (unat (rp_n_parallel p)) 1 < 2 ^ 32"
  shows "engine_context p div max (rp_n_parallel p) 1 = rp_n_ctx p \<and> engine_context p mod max (rp_n_parallel p) 1 = 0 \<and>
    unat (layer_elements p kv_heads head_dim) = min (2 ^ 64 - 1) (unat (engine_context p) * unat kv_heads * unat head_dim) \<and>
    take 2 (drop 6 (build_args \<lparr>ec_server_path = server, ec_model_path = model, ec_params = p, ec_threads = t, ec_start_timeout = limit\<rparr> port)) =
      [ascii ''--ctx-size'', decimal (unat (rp_n_ctx p) * max (unat (rp_n_parallel p)) 1)]"
proof -
  let ?n = "unat (rp_n_ctx p)" and ?k = "max (unat (rp_n_parallel p)) 1"
  have k: "unat (max (rp_n_parallel p) 1) = ?k" "0 < ?k" by (simp_all add: unat_max)
  have total: "unat (engine_context p) = ?n * ?k"
    using assms by (simp add: engine_context_def unat_sat_mul unat_max)
  have "unat (engine_context p div max (rp_n_parallel p) 1) = ?n" using k by (simp add: unat_div total)
  then have "engine_context p div max (rp_n_parallel p) 1 = rp_n_ctx p" by (simp add: word_unat_eq_iff)
  moreover have "unat (engine_context p mod max (rp_n_parallel p) 1) = 0" using k by (simp add: unat_mod total)
  then have "engine_context p mod max (rp_n_parallel p) 1 = 0" by (simp add: word_unat_eq_iff)
  moreover have "min M (min M (min M (a * b) * c) * d) = min M (a * d * b * c)" if "0 < d" for a b c d M :: nat
  proof -
    have absorb: "min M (min M x * y) = min M (x * y)" if "0 < y" for x y :: nat
    proof (cases "x \<le> M")
      case False
      then have "M \<le> M * y" "M \<le> x * y" using that mult_le_mono [of M x 1 y] by simp_all
      then show ?thesis using False by (simp add: min_def)
    qed simp
    show ?thesis
    proof (cases "c = 0")
      case False
      then have "min M (min M (a * b) * c) = min M (a * b * c)" by (intro absorb) simp
      then show ?thesis using absorb [OF that, of "a * b * c"] by (simp add: ac_simps)
    qed simp
  qed
  then have "unat (layer_elements p kv_heads head_dim) = min (2 ^ 64 - 1) (unat (engine_context p) * unat kv_heads * unat head_dim)"
    using k by (simp add: layer_elements_def unat_sat_mul total unat_ucast_up unat_max)
  moreover have "take 2 (drop 6 (build_args \<lparr>ec_server_path = server, ec_model_path = model, ec_params = p, ec_threads = t, ec_start_timeout = limit\<rparr> port)) =
      [ascii ''--ctx-size'', decimal (?n * ?k)]"
    by (simp add: build_args_def Let_def dec_def total)
  ultimately show ?thesis by blast
qed

text \<open>Nothing is promised that the engine does not have: the effective window and slots are never more than was asked and
  priced, and never more than the engine reports; everything else is as it was asked.\<close>

theorem promises_no_more:
  "let e = reconciled p reported in
   unat (rp_n_ctx e) \<le> unat (rp_n_ctx p) \<and> max (unat (rp_n_parallel e)) 1 \<le> max (unat (rp_n_parallel p)) 1 \<and>
   (case reported of None \<Rightarrow> e = p
    | Some w \<Rightarrow> rp_n_ctx e \<le> ew_n_ctx w \<and> (ew_total_slots w = 0 \<or> max (rp_n_parallel e) 1 \<le> ew_total_slots w)) \<and>
   e\<lparr>rp_n_ctx := 0, rp_n_parallel := 0\<rparr> = p\<lparr>rp_n_ctx := 0, rp_n_parallel := 0\<rparr>"
proof (cases reported)
  case (Some w)
  have "ew_total_slots w = 0 \<or> 1 \<le> unat (ew_total_slots w)" by (metis less_one not_le unat_eq_zero)
  then show ?thesis
    using Some by (auto simp: reconciled_def Let_def word_le_nat_alt unat_max unat_min word_unat_eq_iff)
qed (simp add: reconciled_def)

section \<open>The backend's state\<close>

text \<open>A resident model has at least one slot and an instance from the past.\<close>

definition backend_ok :: "backend \<Rightarrow> bool" where
  "backend_ok b \<longleftrightarrow> 0 < be_slots b \<and>
    (case be_running b of None \<Rightarrow> True
     | Some r \<Rightarrow> er_instance r < be_next_instance b \<and> be_slots b = max (rp_n_parallel (er_effective r)) 1)"

lemma backend_ok_new: "backend_ok backend_new"
  by (simp add: backend_ok_def backend_new_def)

lemma backend_ok_load: "backend_ok b \<Longrightarrow> backend_ok (snd (backend_load w q b))"
  by (auto simp: backend_ok_def backend_load_def Let_def word_less_nat_alt unat_max split: sum.splits option.splits)

lemma backend_ok_others:
  "backend_ok b \<Longrightarrow> backend_ok (backend_unload i b)" "backend_ok b \<Longrightarrow> backend_ok (snd (backend_health_check exit b))"
  "backend_ok b \<Longrightarrow> backend_ok (backend_shutdown b)"
  by (auto simp: backend_ok_def backend_unload_def backend_health_check_def backend_shutdown_def split: option.splits)

text \<open>C39. A request queued against an engine that has since been replaced fails and never runs on the new one: a successful
  load gives the model an instance no earlier engine had, so the clients of every earlier instance are refused.\<close>

theorem replaced_engine_refused:
  assumes "backend_ok b" "backend_load w q b = (Inr m, b')" "i < be_next_instance b"
  shows "client_for i b' = Inl NoModelLoaded \<and> client_for (lm_instance m) b' = Inr ()"
  using assms by (auto simp: backend_load_def client_for_def Let_def split: sum.splits option.splits if_splits)

text \<open>When a launch fails after the previous engine was stopped, the backend still reports the slots of the engine that is
  gone; so it does when an engine is found dead.\<close>

theorem slots_outlive_engine:
  "let b = \<lparr>be_running = Some \<lparr>er_instance = 1, er_model = ascii ''m@8k'', er_effective = default_params\<lparr>rp_n_parallel := 4\<rparr>\<rparr>,
             be_slots = 4, be_next_instance = 2\<rparr>;
       (health, b') = backend_health_check (Signalled 9) b
   in backend_ok b \<and> health = HealthFailed \<and> be_running b' = None \<and> be_slots b' = 4"
  by (simp add: backend_ok_def backend_health_check_def default_params_def Let_def)

section \<open>Concrete loads\<close>

text \<open>A launch that loses one port race and then comes up.\<close>

definition one_race :: "nat \<Rightarrow> backend_error + unit" where
  "one_race k = (if k = 1 then Inl (EngineCrashed (Some 1) None []) else Inr ())"

theorem start_retries_witness:
  "engine_start one_race = (Inr (), 2) \<and> is_retryable_startup (EngineCrashed (Some 1) None []) \<and>
   list_all (\<lambda>k. case one_race k of Inl e \<Rightarrow> is_retryable_startup e | Inr _ \<Rightarrow> False) [1..<2]"
proof -
  have "engine_start one_race = (Inr (), 2)"
    by (simp add: engine_start_def start_from.simps one_race_def MAX_START_ATTEMPTS_def is_retryable_startup_def)
  with start_retries [of one_race] show ?thesis by (simp add: is_retryable_startup_def)
qed

theorem priced_is_allocated_witness:
  "engine_context (default_params\<lparr>rp_n_parallel := 4\<rparr>) div 4 = 4096 \<and>
   unat (layer_elements (default_params\<lparr>rp_n_parallel := 4\<rparr>) 2 64) = 2097152"
proof -
  have "unat (engine_context (default_params\<lparr>rp_n_parallel := 4\<rparr>)) = 16384" by code_simp
  moreover have "max 4 1 = (4 :: u32)" "unat (2 :: u64) = 2" "unat (64 :: u64) = 64" by code_simp+
  ultimately show ?thesis
    using priced_is_allocated [of "default_params\<lparr>rp_n_parallel := 4\<rparr>" 2 64 "[]" "[]" 1 0 0] by (simp add: default_params_def)
qed

definition calm_world :: load_world where
  "calm_world = \<lparr>lw_present = (\<lambda>_. True), lw_lock_limit = None, lw_installed = True, lw_cancelled = False,
     lw_default_threads = 4, lw_attempts = (\<lambda>_. Inr ()), lw_client = True, lw_window = None\<rparr>"

definition tiny_request :: load_request where
  "tiny_request = \<lparr>lq_model = ascii ''tiny@2k'', lq_gguf_path = ascii ''/tiny.gguf'', lq_metadata = tiny_header,
     lq_runtime = default_params\<lparr>rp_n_ctx := 2048\<rparr>\<rparr>"

theorem replaced_engine_refused_witness:
  "\<exists>m b'. backend_load calm_world tiny_request (snd (backend_load calm_world tiny_request backend_new)) = (Inr m, b') \<and>
    client_for 1 b' = Inl NoModelLoaded"
proof -
  let ?b = "snd (backend_load calm_world tiny_request backend_new)"
  have "engine_start (\<lambda>_. Inr ()) = (Inr (), 1)" by (simp add: engine_start_def start_from.simps)
  moreover have "backend_admit (\<lambda>_. True) None tiny_request = Inr ()" by code_simp
  ultimately have load: "\<exists>m b'. backend_load calm_world tiny_request b = (Inr m, b') \<and> be_next_instance b' = be_next_instance b + 1" for b
    by (simp add: backend_load_def calm_world_def Let_def)
  from load [of backend_new] have "be_next_instance ?b = 2" by (auto simp: backend_new_def)
  moreover obtain m b' where "backend_load calm_world tiny_request ?b = (Inr m, b')" using load [of ?b] by blast
  ultimately show ?thesis
    using replaced_engine_refused [OF backend_ok_load [OF backend_ok_new], of calm_world tiny_request calm_world tiny_request m b' 1] by auto
qed

end
