(* ===== verification/Gateway_Jobs.thy ===== *)
theory Gateway_Jobs
  imports Lw_Text Lw_Btree
begin

text \<open>
  Long operations: \<open>lightweight-gateway/src/jobs.rs\<close>, and the progress throttle of \<open>manager.rs\<close>. The payloads of stages
  and errors are the type parameters \<open>'p\<close> and \<open>'e\<close>. A job's channel is the list of all updates sent; a receiver is the
  position in it from which it reads, and may be given only the newest of the updates it has not read.
\<close>

section \<open>Jobs\<close>

datatype job_kind = DownloadJob | ImportJob | LoadJob | UnloadJob | BenchmarkJob

datatype ('p, 'e) job_state = Running 'p | Succeeded "ustr option" | Failed 'e | Cancelled

fun is_terminal :: "('p, 'e) job_state \<Rightarrow> bool" where
  "is_terminal (Running stage) = False"
| "is_terminal (Succeeded model) = True"
| "is_terminal (Failed err) = True"
| "is_terminal Cancelled = True"

record ('p, 'e) job =
  jb_kind :: job_kind
  jb_started_at :: u64
  jb_state :: "('p, 'e) job_state"
  jb_updates :: "('p, 'e) job_state list"
  jb_cancelled :: bool

definition new_job :: "'p \<Rightarrow> job_kind \<Rightarrow> u64 \<Rightarrow> ('p, 'e) job" where
  "new_job queued kind now = \<lparr>jb_kind = kind, jb_started_at = now, jb_state = Running queued, jb_updates = [], jb_cancelled = False\<rparr>"

text \<open>\<open>Job::set\<close> stores the state under the lock and sends it after the lock is free; between the two a watcher may come.\<close>

definition job_store :: "('p, 'e) job_state \<Rightarrow> ('p, 'e) job \<Rightarrow> ('p, 'e) job" where
  "job_store state j = j\<lparr>jb_state := state\<rparr>"

definition job_send :: "('p, 'e) job_state \<Rightarrow> ('p, 'e) job \<Rightarrow> ('p, 'e) job" where
  "job_send state j = j\<lparr>jb_updates := jb_updates j @ [state]\<rparr>"

definition job_set :: "('p, 'e) job_state \<Rightarrow> ('p, 'e) job \<Rightarrow> ('p, 'e) job" where
  "job_set state j = job_send state (job_store state j)"

definition job_advance :: "'p \<Rightarrow> ('p, 'e) job \<Rightarrow> ('p, 'e) job" where
  "job_advance stage j = job_set (Running stage) j"

definition job_watch :: "('p, 'e) job \<Rightarrow> ('p, 'e) job_state \<times> nat" where
  "job_watch j = (jb_state j, length (jb_updates j))"

definition UPDATE_BACKLOG :: nat where "UPDATE_BACKLOG = 64"

text \<open>What a receiver that has read nothing yet can still read.\<close>

definition received :: "nat \<Rightarrow> ('p, 'e) job \<Rightarrow> ('p, 'e) job_state list" where
  "received from j = (let unread = drop from (jb_updates j) in drop (length unread - UPDATE_BACKLOG) unread)"

definition job_cancel :: "('p, 'e) job \<Rightarrow> ('p, 'e) job" where
  "job_cancel j = j\<lparr>jb_cancelled := True\<rparr>"

section \<open>The table of jobs\<close>

type_synonym ('p, 'e) jobs = "(u64 \<times> ('p, 'e) job) list"

definition KEEP_FINISHED :: nat where "KEEP_FINISHED = 32"

definition finished :: "u64 \<times> ('p, 'e) job \<Rightarrow> bool" where
  "finished e \<longleftrightarrow> is_terminal (jb_state (snd e))"

definition prune :: "('p, 'e) jobs \<Rightarrow> ('p, 'e) jobs" where
  "prune js =
    (let ids = map fst (filter finished js);
         excess = length ids - KEEP_FINISHED
     in fold bt_remove (take excess ids) js)"

text \<open>The next id comes from the counter all ids of the process share.\<close>

definition start_job :: "'p \<Rightarrow> job_kind \<Rightarrow> u64 \<Rightarrow> u64 \<Rightarrow> ('p, 'e) jobs \<Rightarrow> ('p, 'e) jobs" where
  "start_job queued kind now next_id js = prune (bt_insert next_id (new_job queued kind now) js)"

definition job_get :: "u64 \<Rightarrow> ('p, 'e) jobs \<Rightarrow> ('p, 'e) job option" where
  "job_get i js = bt_get js i"

definition recent_jobs :: "('p, 'e) jobs \<Rightarrow> ('p, 'e) job list" where
  "recent_jobs js = rev (bt_values js)"

definition any_running :: "('p, 'e) jobs \<Rightarrow> bool" where
  "any_running js \<longleftrightarrow> list_ex (\<lambda>j. \<not> is_terminal (jb_state j)) (bt_values js)"

section \<open>The throttle\<close>

datatype step = StageStep string | FractionStep string u64 "u64 option"

record throttle =
  tr_last_stage :: "string option"
  tr_last_percent :: "u64 option"

definition new_throttle :: throttle where
  "new_throttle = \<lparr>tr_last_stage = None, tr_last_percent = None\<rparr>"

definition percent_of :: "u64 \<Rightarrow> u64 option \<Rightarrow> u64 option" where
  "percent_of so_far whole = Option.bind whole (\<lambda>w. checked_div (sat_mul so_far 100) w)"

fun should_emit :: "step \<Rightarrow> throttle \<Rightarrow> bool \<times> throttle" where
  "should_emit (StageStep name) t =
    (tr_last_stage t \<noteq> Some name, \<lparr>tr_last_stage = Some name, tr_last_percent = None\<rparr>)"
| "should_emit (FractionStep name so_far whole) t =
    (let percent = percent_of so_far whole;
         changed = tr_last_stage t \<noteq> Some name \<or> tr_last_percent t \<noteq> percent
     in (changed \<or> percent = None, \<lparr>tr_last_stage = Some name, tr_last_percent = percent\<rparr>))"

text \<open>The steps a pump passes on.\<close>

fun emitted :: "step list \<Rightarrow> throttle \<Rightarrow> step list" where
  "emitted [] t = []"
| "emitted (s # ss) t = (let (emit, t') = should_emit s t in if emit then s # emitted ss t' else emitted ss t')"

section \<open>A watcher misses nothing\<close>

text \<open>What happens to a job, one writer at a time: the writer stores and sends each state in turn, and a watcher comes
  in between at some point. \<open>pending\<close> is the state stored and not yet sent.\<close>

datatype ('p, 'e) job_event = Store "('p, 'e) job_state" | Send | Watch

record ('p, 'e) watched =
  wd_job :: "('p, 'e) job"
  wd_pending :: "('p, 'e) job_state option"
  wd_watcher :: "(('p, 'e) job_state \<times> nat) option"

inductive watch_step :: "('p, 'e) watched \<Rightarrow> ('p, 'e) job_event \<Rightarrow> ('p, 'e) watched \<Rightarrow> bool" where
  stored: "wd_pending w = None \<Longrightarrow>
    watch_step w (Store state) (w\<lparr>wd_job := job_store state (wd_job w), wd_pending := Some state\<rparr>)"
| sent: "wd_pending w = Some state \<Longrightarrow>
    watch_step w Send (w\<lparr>wd_job := job_send state (wd_job w), wd_pending := None\<rparr>)"
| watching: "wd_watcher w = None \<Longrightarrow> watch_step w Watch (w\<lparr>wd_watcher := Some (job_watch (wd_job w))\<rparr>)"

inductive watch_reach :: "'p \<Rightarrow> ('p, 'e) watched \<Rightarrow> bool" for queued where
  begun: "watch_reach queued \<lparr>wd_job = new_job queued kind now, wd_pending = None, wd_watcher = None\<rparr>"
| stepped: "watch_reach queued w \<Longrightarrow> watch_step w e w' \<Longrightarrow> watch_reach queued w'"

inductive_cases watch_stepE: "watch_step w e w'"

lemma watch_invariant:
  assumes "watch_reach queued w"
  shows "(\<forall>state. wd_pending w = Some state \<longrightarrow> jb_state (wd_job w) = state) \<and>
    (\<forall>seen from. wd_watcher w = Some (seen, from) \<longrightarrow> from \<le> length (jb_updates (wd_job w)) \<and>
      (wd_pending w = None \<longrightarrow> last (seen # drop from (jb_updates (wd_job w))) = jb_state (wd_job w)))"
  using assms
proof induction
  case (stepped w e w')
  from stepped.hyps(2) show ?case
  proof cases
    case (sent state)
    then show ?thesis using stepped.IH by (auto simp: job_send_def)
  qed (use stepped.IH in \<open>auto simp: job_store_def job_watch_def\<close>)
qed (simp add: new_job_def)

lemma last_received:
  assumes "from \<le> length (jb_updates j)"
  shows "received from j = [] \<longleftrightarrow> drop from (jb_updates j) = []" "received from j \<noteq> [] \<Longrightarrow> last (received from j) = last (jb_updates j)"
  using assms by (auto simp: received_def Let_def UPDATE_BACKLOG_def last_drop)


definition late_watcher :: "(nat, nat) watched" where
  "late_watcher =
    (let j = job_store (Succeeded None) (job_set (Running 1) (new_job 0 LoadJob 0))
     in \<lparr>wd_job = job_send (Succeeded None) j, wd_pending = None, wd_watcher = Some (job_watch j)\<rparr>)"

lemma late_watcher_reach: "watch_reach 0 late_watcher"
proof -
  let ?w0 = "\<lparr>wd_job = new_job 0 LoadJob 0, wd_pending = None, wd_watcher = None\<rparr> :: (nat, nat) watched"
  let ?w1 = "?w0\<lparr>wd_job := job_store (Running 1) (wd_job ?w0), wd_pending := Some (Running 1)\<rparr>"
  let ?w2 = "?w1\<lparr>wd_job := job_send (Running 1) (wd_job ?w1), wd_pending := None\<rparr>"
  let ?w3 = "?w2\<lparr>wd_job := job_store (Succeeded None) (wd_job ?w2), wd_pending := Some (Succeeded None)\<rparr>"
  let ?w4 = "?w3\<lparr>wd_watcher := Some (job_watch (wd_job ?w3))\<rparr>"
  let ?w5 = "?w4\<lparr>wd_job := job_send (Succeeded None) (wd_job ?w4), wd_pending := None\<rparr>"
  have "watch_reach 0 ?w1" by (rule watch_reach.stepped [OF watch_reach.begun watch_step.stored]) simp
  then have "watch_reach 0 ?w2" by (rule watch_reach.stepped [OF _ watch_step.sent]) simp
  then have "watch_reach 0 ?w3" by (rule watch_reach.stepped [OF _ watch_step.stored]) simp
  then have "watch_reach 0 ?w4" by (rule watch_reach.stepped [OF _ watch_step.watching]) simp
  then have "watch_reach 0 ?w5" by (rule watch_reach.stepped [OF _ watch_step.sent]) simp
  then show ?thesis by (simp add: late_watcher_def job_set_def Let_def)
qed


section \<open>What is kept\<close>

lemma fold_bt_remove: "fold bt_remove ids es = filter (\<lambda>e. fst e \<notin> set ids) es"
  by (induction ids arbitrary: es) (auto simp: bt_remove_def case_prod_beta intro!: filter_cong)

lemma filter_not_first:
  "distinct (map fst xs) \<Longrightarrow> filter (\<lambda>e. fst e \<notin> set (take n (map fst xs))) xs = drop n xs"
proof (induction xs arbitrary: n)
  case (Cons x xs)
  show ?case
  proof (cases n)
    case (Suc k)
    have "filter (\<lambda>e. fst e \<noteq> fst x \<and> fst e \<notin> set (take k (map fst xs))) xs =
        filter (\<lambda>e. fst e \<notin> set (take k (map fst xs))) xs"
      using Cons.prems by (intro filter_cong) (auto simp: image_iff)
    then show ?thesis using Cons Suc by simp
  qed simp
qed simp

text \<open>Pruning drops only finished jobs and only the oldest: every running job stays, and of the finished ones exactly the
  last thirty-two, in the order of their ids, are kept.\<close>

theorem prune_keeps:
  assumes "bt_sorted js"
  shows "filter (\<lambda>e. \<not> finished e) (prune js) = filter (\<lambda>e. \<not> finished e) js \<and>
    filter finished (prune js) = drop (length (filter finished js) - 32) (filter finished js)"
proof -
  let ?fs = "filter finished js" and ?n = "length (filter finished js) - 32"
  have distinct: "distinct (map fst js)" using assms by (simp add: strict_sorted_iff)
  have eq: "prune js = filter (\<lambda>e. fst e \<notin> set (take ?n (map fst ?fs))) js"
    by (simp add: prune_def Let_def KEEP_FINISHED_def fold_bt_remove)
  have "finished e" if e: "e \<in> set js" "fst e \<in> set (take ?n (map fst ?fs))" for e
  proof -
    obtain e' where "e' \<in> set ?fs" "fst e' = fst e" using e(2) by (auto dest!: in_set_takeD)
    then have "e' \<in> set js" "finished e'" "e' = e"
      using distinct e(1) by (auto simp: distinct_map inj_on_def)
    then show ?thesis by simp
  qed
  then have "filter (\<lambda>e. \<not> finished e) (prune js) = filter (\<lambda>e. \<not> finished e) js"
    unfolding eq filter_filter by (intro filter_cong refl) blast
  moreover have "filter finished (prune js) = drop ?n ?fs"
  proof -
    have "filter finished (prune js) = filter (\<lambda>e. fst e \<notin> set (take ?n (map fst ?fs))) ?fs"
      unfolding eq filter_filter by (intro filter_cong refl) blast
    then show ?thesis using filter_not_first [of ?fs ?n] distinct by (simp add: distinct_map_filter)
  qed
  ultimately show ?thesis by simp
qed

section \<open>Progress is bounded\<close>

lemma percent_of_Some:
  assumes "0 < whole"
  shows "\<exists>p. percent_of so_far (Some whole) = Some p \<and> unat p = min (2 ^ 64 - 1) (unat so_far * 100) div unat whole"
  using assms by (auto simp: percent_of_def checked_div_def unat_sat_mul unat_div word_neq_0_conv)

lemma percent_le:
  assumes "0 < whole" "a \<le> b" "b \<le> whole" "percent_of a (Some whole) = Some p" "percent_of b (Some whole) = Some q"
  shows "unat p \<le> unat q \<and> unat q \<le> 100"
proof -
  have p: "unat p = min (2 ^ 64 - 1) (unat a * 100) div unat whole" "unat q = min (2 ^ 64 - 1) (unat b * 100) div unat whole"
    using percent_of_Some [OF assms(1), of a] percent_of_Some [OF assms(1), of b] assms(4,5) by auto
  have "unat a \<le> unat b" "unat b \<le> unat whole" "0 < unat whole"
    using assms(1-3) by (simp_all add: word_le_nat_alt word_less_nat_alt)
  then have "min (2 ^ 64 - 1) (unat b * 100) \<le> 100 * unat whole" by simp
  then have "unat q \<le> 100 * unat whole div unat whole" unfolding p by (rule div_le_mono)
  also have "\<dots> = 100" using \<open>0 < unat whole\<close> by simp
  finally show ?thesis using \<open>unat a \<le> unat b\<close> unfolding p by (auto intro!: div_le_mono)
qed

lemma emitted_bound:
  assumes "0 < whole" "sorted (d # ds)" "\<forall>x \<in> set (d # ds). x \<le> whole" "percent_of d (Some whole) = Some p"
  shows "length (emitted (map (\<lambda>x. FractionStep name x (Some whole)) ds) \<lparr>tr_last_stage = Some name, tr_last_percent = Some p\<rparr>)
    \<le> 100 - unat p"
  using assms(2-4)
proof (induction ds arbitrary: d p)
  case (Cons x xs)
  obtain q where q: "percent_of x (Some whole) = Some q" using percent_of_Some [OF assms(1)] by blast
  have le: "unat p \<le> unat q \<and> unat q \<le> 100"
    using percent_le [OF assms(1) _ _ Cons.prems(3) q] Cons.prems by simp
  have IH: "length (emitted (map (\<lambda>x. FractionStep name x (Some whole)) xs) \<lparr>tr_last_stage = Some name, tr_last_percent = Some q\<rparr>)
      \<le> 100 - unat q"
    using Cons.IH [OF _ _ q] Cons.prems by simp
  show ?case
  proof (cases "q = p")
    case False
    then have "unat p < unat q" using le by (metis le_neq_implies_less word_unat_eq_iff)
    then show ?thesis using IH le False by (simp add: q Let_def)
  qed (use IH in \<open>simp add: q Let_def\<close>)
qed simp

text \<open>A transfer of known size costs a watcher at most 101 updates, however many chunks it arrives in and whatever was
  reported before it.\<close>

theorem progress_bounded:
  assumes "0 < whole" "sorted ds" "\<forall>x \<in> set ds. x \<le> whole"
  shows "length (emitted (map (\<lambda>x. FractionStep name x (Some whole)) ds) t) \<le> 101"
proof (cases ds)
  case (Cons d ds')
  obtain p where p: "percent_of d (Some whole) = Some p" using percent_of_Some [OF assms(1)] by blast
  have "length (emitted (map (\<lambda>x. FractionStep name x (Some whole)) ds') \<lparr>tr_last_stage = Some name, tr_last_percent = Some p\<rparr>)
      \<le> 100 - unat p"
    using assms p Cons by (intro emitted_bound) auto
  also have "\<dots> \<le> 100" by simp
  finally show ?thesis by (simp add: Cons p Let_def)
qed simp

theorem progress_bounded_witness:
  "length (emitted (map (\<lambda>x. FractionStep ''downloading'' x (Some 1000)) [0, 1, 2, 10, 11, 1000]) new_throttle) = 3 \<and>
   length (emitted (map (\<lambda>x. FractionStep ''downloading'' x (Some 1000)) [0, 1, 2, 10, 11, 1000]) new_throttle) \<le> 101"
proof -
  have "length (emitted (map (\<lambda>x. FractionStep ''downloading'' x (Some 1000)) [0, 1, 2, 10, 11, 1000]) new_throttle) = 3"
    by code_simp
  then show ?thesis using progress_bounded [of 1000 "[0, 1, 2, 10, 11, 1000]" "''downloading''" new_throttle] by simp
qed

definition three_jobs :: "(nat, nat) jobs" where
  "three_jobs = [(1, job_set Cancelled (new_job 0 LoadJob 0)), (4, new_job 0 DownloadJob 0), (9, job_set (Succeeded None) (new_job 0 ImportJob 0))]"

theorem prune_keeps_witness:
  "filter (\<lambda>e. \<not> finished e) (prune three_jobs) = [(4, new_job 0 DownloadJob 0)] \<and> length (filter finished (prune three_jobs)) = 2"
proof -
  have "bt_sorted three_jobs" by (simp add: three_jobs_def)
  from prune_keeps [OF this] show ?thesis by (simp add: three_jobs_def finished_def new_job_def job_set_def job_store_def job_send_def)
qed

end
