(* ===== verification/Gateway_Limits.thy ===== *)
theory Gateway_Limits
  imports Lw_Text
begin

text \<open>
  Request limits of API keys: \<open>lightweight-gateway/src/limits.rs\<close>. An \<open>Instant\<close> is a number of nanoseconds and the unix time
  a number of seconds; both readings of a call are arguments. The table of keys is a map.
\<close>

section \<open>The limiter\<close>

definition SECOND :: nat where "SECOND = 1000000000"
definition MINUTE :: nat where "MINUTE = 60 * SECOND"
definition DAY_SECS :: u64 where "DAY_SECS = 86400"

record rate_limit =
  per_minute :: "u32 option"
  per_day :: "u32 option"

record key_usage =
  us_recent :: "nat list"
  us_day_count :: u32
  us_day :: u64
  us_total :: u64
  us_last_used :: u64

definition no_usage :: key_usage where
  "no_usage = \<lparr>us_recent = [], us_day_count = 0, us_day = 0, us_total = 0, us_last_used = 0\<rparr>"

datatype ceiling = PerMinute | PerDay

record throttled =
  th_retry_after :: u64
  th_which :: ceiling

record usage_snapshot =
  uv_total :: u64
  uv_last_used :: "u64 option"
  uv_in_last_minute :: u32
  uv_today :: u32

type_synonym rate_limiter = "ustr \<rightharpoonup> key_usage"

text \<open>The window and the day, brought up to the time of the call.\<close>

definition prune_usage :: "nat \<Rightarrow> u64 \<Rightarrow> key_usage \<Rightarrow> key_usage" where
  "prune_usage now today u =
    (let u = u\<lparr>us_recent := dropWhile (\<lambda>at. MINUTE \<le> now - at) (us_recent u)\<rparr>
     in if us_day u \<noteq> today then u\<lparr>us_day := today, us_day_count := 0\<rparr> else u)"

definition reached :: "'n::len word option \<Rightarrow> 'n word \<Rightarrow> bool" where
  "reached most n \<longleftrightarrow> (case most of Some m \<Rightarrow> m \<le> n | None \<Rightarrow> False)"

definition admit_usage :: "nat \<Rightarrow> u64 \<Rightarrow> u64 \<Rightarrow> rate_limit \<Rightarrow> key_usage \<Rightarrow> (throttled + unit) \<times> key_usage" where
  "admit_usage now unix later limit usage =
    (let u = prune_usage now (unix div DAY_SECS) usage
     in if reached (per_minute limit) (word_of_nat (length (us_recent u))) then
          (let oldest = (case us_recent u of at # _ \<Rightarrow> at | [] \<Rightarrow> now);
               wait = MINUTE - (now - oldest)
           in (Inl \<lparr>th_retry_after = word_of_nat (max (wait div SECOND) 1), th_which = PerMinute\<rparr>, u))
        else if reached (per_day limit) (us_day_count u) then
          (Inl \<lparr>th_retry_after = max (DAY_SECS - later mod DAY_SECS) 1, th_which = PerDay\<rparr>, u)
        else
          (Inr (), u\<lparr>us_recent := us_recent u @ [now], us_day_count := us_day_count u + 1, us_total := us_total u + 1,
             us_last_used := later\<rparr>))"

definition usage_of :: "rate_limiter \<Rightarrow> ustr \<Rightarrow> key_usage" where
  "usage_of keys i = (case keys i of Some u \<Rightarrow> u | None \<Rightarrow> no_usage)"

definition admit :: "nat \<Rightarrow> u64 \<Rightarrow> u64 \<Rightarrow> ustr \<Rightarrow> rate_limit \<Rightarrow> rate_limiter \<Rightarrow> (throttled + unit) \<times> rate_limiter" where
  "admit now unix later key_id limit keys =
    (let (result, u) = admit_usage now unix later limit (usage_of keys key_id) in (result, keys(key_id \<mapsto> u)))"

definition usage_snapshot_of :: "nat \<Rightarrow> ustr \<Rightarrow> rate_limiter \<Rightarrow> usage_snapshot" where
  "usage_snapshot_of now key_id keys =
    (case keys key_id of
       None \<Rightarrow> \<lparr>uv_total = 0, uv_last_used = None, uv_in_last_minute = 0, uv_today = 0\<rparr>
     | Some u \<Rightarrow>
         \<lparr>uv_total = us_total u, uv_last_used = (if us_last_used u \<noteq> 0 then Some (us_last_used u) else None),
          uv_in_last_minute = word_of_nat (length (filter (\<lambda>at. now - at < MINUTE) (us_recent u))),
          uv_today = us_day_count u\<rparr>)"

definition forget :: "ustr \<Rightarrow> rate_limiter \<Rightarrow> rate_limiter" where
  "forget key_id keys = keys(key_id := None)"

section \<open>Runs\<close>

text \<open>A call of \<open>admit\<close>: the key and its limit, and the readings of the clocks. A run gives the limiter and, for one key, the
  times at which it was admitted, newest last.\<close>

record call =
  ca_key :: ustr
  ca_limit :: rate_limit
  ca_now :: nat
  ca_unix :: u64
  ca_later :: u64

fun run_limiter :: "ustr \<Rightarrow> call list \<Rightarrow> rate_limiter \<Rightarrow> nat list \<Rightarrow> rate_limiter \<times> nat list" where
  "run_limiter i [] keys admitted = (keys, admitted)"
| "run_limiter i (c # cs) keys admitted =
    (let (result, keys') = admit (ca_now c) (ca_unix c) (ca_later c) (ca_key c) (ca_limit c) keys
     in run_limiter i cs keys' (if ca_key c = i \<and> result = Inr () then admitted @ [ca_now c] else admitted))"

abbreviation in_window :: "nat \<Rightarrow> nat list \<Rightarrow> nat list" where
  "in_window t ts \<equiv> filter (\<lambda>at. t \<le> at \<and> at < t + MINUTE) ts"

text \<open>The window of a key holds the admitted requests of the last minute, and every minute up to now is within the limit.\<close>

definition window_ok :: "nat \<Rightarrow> nat \<Rightarrow> nat list \<Rightarrow> key_usage \<Rightarrow> bool" where
  "window_ok most now admitted u \<longleftrightarrow>
    sorted admitted \<and> (\<forall>at \<in> set admitted. at \<le> now) \<and>
    (\<exists>older. admitted = older @ us_recent u \<and> (\<forall>at \<in> set older. at + MINUTE \<le> now)) \<and>
    (\<forall>t. length (in_window t admitted) \<le> most)"

lemma minute_pos [simp]: "0 < MINUTE"
  by (simp add: MINUTE_def SECOND_def)

lemma length_filter_mono_on: "(\<And>x. x \<in> set xs \<Longrightarrow> P x \<Longrightarrow> Q x) \<Longrightarrow> length (filter P xs) \<le> length (filter Q xs)"
  by (induction xs) (auto simp: le_SucI)

lemma filter_length_mono: "(\<And>x. P x \<Longrightarrow> Q x) \<Longrightarrow> length (filter P xs) \<le> length (filter Q xs)"
  by (rule length_filter_mono_on)

lemma window_ok_recent:
  assumes "window_ok most now admitted u"
  shows "sorted (us_recent u)" "at \<in> set (us_recent u) \<Longrightarrow> at \<le> now"
  using assms by (auto simp: window_ok_def sorted_append)

lemma window_ok_later: "window_ok most before admitted u \<Longrightarrow> before \<le> now \<Longrightarrow> window_ok most now admitted u"
  unfolding window_ok_def by (auto intro!: exI [of _ "take (length admitted - length (us_recent u)) admitted"]) fastforce+

lemma dropWhile_sorted:
  "sorted ts \<Longrightarrow> dropWhile (\<lambda>at. MINUTE \<le> now - at) ts = filter (\<lambda>at. now < at + MINUTE) ts"
proof (induction ts)
  case (Cons t ts)
  show ?case
  proof (cases "MINUTE \<le> now - t")
    case True
    then have "t + MINUTE \<le> now" using minute_pos by linarith
    with Cons True show ?thesis by simp
  next
    case False
    then have "now < t + MINUTE" by linarith
    moreover from this Cons.prems have "filter (\<lambda>at. now < at + MINUTE) ts = ts" by (fastforce simp: filter_id_conv)
    ultimately show ?thesis using False by simp
  qed
qed simp

lemma window_ok_prune:
  assumes ok: "window_ok most before admitted u" and "before \<le> now"
  shows "window_ok most now admitted (prune_usage now today u)"
    "us_recent (prune_usage now today u) = filter (\<lambda>at. now < at + MINUTE) admitted"
proof -
  obtain older where "admitted = older @ us_recent u" "\<forall>at \<in> set older. at + MINUTE \<le> before"
    using ok by (auto simp: window_ok_def)
  then have older: "admitted = older @ us_recent u" "\<forall>at \<in> set older. at + MINUTE \<le> now"
    using \<open>before \<le> now\<close> order_trans by blast+
  have recent: "us_recent (prune_usage now today u) = dropWhile (\<lambda>at. MINUTE \<le> now - at) (us_recent u)"
    by (simp add: prune_usage_def Let_def)
  have "admitted = (older @ takeWhile (\<lambda>at. MINUTE \<le> now - at) (us_recent u)) @ us_recent (prune_usage now today u)"
    by (simp add: older(1) recent)
  moreover have "\<forall>at \<in> set (older @ takeWhile (\<lambda>at. MINUTE \<le> now - at) (us_recent u)). at + MINUTE \<le> now"
    using older(2) minute_pos by (auto dest!: set_takeWhileD simp: le_diff_conv2 simp del: minute_pos)
  ultimately show "window_ok most now admitted (prune_usage now today u)"
    using ok \<open>before \<le> now\<close> unfolding window_ok_def by (fastforce intro: order_trans)
  have "filter (\<lambda>at. now < at + MINUTE) older = []" using older(2) by (auto simp: filter_empty_conv not_less)
  then show "us_recent (prune_usage now today u) = filter (\<lambda>at. now < at + MINUTE) admitted"
    using dropWhile_sorted [OF window_ok_recent(1) [OF ok]] by (simp add: older(1) recent)
qed

lemma window_ok_admit:
  assumes ok: "window_ok most now admitted u" and recent: "us_recent u = filter (\<lambda>at. now < at + MINUTE) admitted"
    and room: "length (us_recent u) < most"
  shows "window_ok most now (admitted @ [now]) (u\<lparr>us_recent := us_recent u @ [now]\<rparr>)"
proof -
  have "length (in_window t (admitted @ [now])) \<le> most" for t
  proof (cases "t \<le> now \<and> now < t + MINUTE")
    case True
    have "at + MINUTE > now" if "t \<le> at" for at using True that by linarith
    then have "length (in_window t admitted) \<le> length (us_recent u)"
      unfolding recent by (intro filter_length_mono) blast
    then show ?thesis using True room by simp
  next
    case False
    then show ?thesis using ok by (auto simp: window_ok_def)
  qed
  moreover have "\<exists>older. admitted @ [now] = older @ us_recent u @ [now] \<and> (\<forall>at \<in> set older. at + MINUTE \<le> now)"
    using ok unfolding window_ok_def by auto
  ultimately show ?thesis using ok by (auto simp: window_ok_def sorted_append)
qed

text \<open>One call for the key: within the limit afterwards, whatever the call decides.\<close>

lemma admit_usage_window:
  assumes ok: "window_ok (unat most) before admitted u" and "before \<le> now" and limit: "per_minute limit = Some most"
    and result: "admit_usage now unix later limit u = (result, u')"
  shows "window_ok (unat most) now (if result = Inr () then admitted @ [now] else admitted) u'"
proof -
  let ?u = "prune_usage now (unix div DAY_SECS) u"
  note pruned = window_ok_prune [OF ok \<open>before \<le> now\<close>, of "unix div DAY_SECS"]
  have "length (us_recent ?u) \<le> length (in_window (now + 1 - MINUTE) admitted)"
    unfolding pruned(2) using pruned(1) window_ok_def
    by (intro length_filter_mono_on) fastforce
  also have "\<dots> \<le> unat most" using ok by (simp add: window_ok_def)
  finally have "length (us_recent ?u) \<le> unat most" .
  then have "unat (word_of_nat (length (us_recent ?u)) :: u32) = length (us_recent ?u)"
    using unat_lt_two_power [of most] by (simp add: unat_of_nat take_bit_eq_mod)
  then have full: "reached (per_minute limit) (word_of_nat (length (us_recent ?u))) \<longleftrightarrow> unat most \<le> length (us_recent ?u)"
    by (simp add: reached_def limit word_le_nat_alt)
  have same: "window_ok n t ts (x\<lparr>us_day_count := d, us_total := k, us_last_used := l\<rparr>) = window_ok n t ts x" for n t ts x d k l
    by (simp add: window_ok_def)
  show ?thesis
    using result pruned(1) window_ok_admit [OF pruned] same [where x = "?u\<lparr>us_recent := us_recent ?u @ [now]\<rparr>"]
    by (auto simp: admit_usage_def Let_def full split: if_splits)
qed

definition calls_ok :: "ustr \<Rightarrow> u32 \<Rightarrow> call list \<Rightarrow> bool" where
  "calls_ok i most cs \<longleftrightarrow> sorted (map ca_now cs) \<and> list_all (\<lambda>c. ca_key c = i \<longrightarrow> per_minute (ca_limit c) = Some most) cs"

lemma run_limiter_window:
  assumes "calls_ok i most cs" "window_ok (unat most) before admitted (usage_of keys i)" "\<forall>c \<in> set cs. before \<le> ca_now c"
    "run_limiter i cs keys admitted = (keys', admitted')"
  shows "\<forall>t. length (in_window t admitted') \<le> unat most"
  using assms
proof (induction i cs keys admitted arbitrary: before rule: run_limiter.induct)
  case (2 i c cs keys admitted)
  obtain result u where u: "admit_usage (ca_now c) (ca_unix c) (ca_later c) (ca_limit c) (usage_of keys (ca_key c)) = (result, u)"
    by fastforce
  let ?admitted = "if ca_key c = i \<and> result = Inr () then admitted @ [ca_now c] else admitted"
  let ?keys = "keys(ca_key c \<mapsto> u)"
  have step: "admit (ca_now c) (ca_unix c) (ca_later c) (ca_key c) (ca_limit c) keys = (result, ?keys)"
    by (simp add: admit_def u)
  have later: "calls_ok i most cs" "\<forall>d \<in> set cs. ca_now c \<le> ca_now d" "before \<le> ca_now c"
    using 2(2,4) by (auto simp: calls_ok_def)
  have "window_ok (unat most) (ca_now c) ?admitted (usage_of ?keys i)"
  proof (cases "ca_key c = i")
    case True
    then have "per_minute (ca_limit c) = Some most" using 2(2) by (simp add: calls_ok_def)
    from admit_usage_window [OF 2(3) later(3) this, of "ca_unix c" "ca_later c" result u] u True show ?thesis
      by (simp add: usage_of_def)
  next
    case False
    then show ?thesis using window_ok_later [OF 2(3) later(3)] by (simp add: usage_of_def)
  qed
  moreover have "run_limiter i cs ?keys ?admitted = (keys', admitted')" using 2(5) by (simp add: step)
  ultimately show ?case using 2(1) [OF step [symmetric] refl later(1) _ later(2)] by blast
qed (simp add: window_ok_def)


section \<open>Refusals\<close>

text \<open>A refusal costs nothing and says when to come back: it counts against no ceiling and leaves the totals as they
  were, and a key refused for the minute is not refused for the minute once the stated seconds and one more have passed
  without a request of its own, provided the limit is not zero and has held since the window filled.\<close>

theorem refusal_tells_when:
  assumes "admit_usage now unix later limit u = (Inl r, u')"
    and "th_which r = PerMinute" "per_minute limit = Some most" "0 < most"
    and "sorted (us_recent u)" "\<forall>at \<in> set (us_recent u). at \<le> now" "length (us_recent u) \<le> unat most"
    and "now + (unat (th_retry_after r) + 1) * SECOND \<le> now'"
  shows "us_total u' = us_total u \<and> us_last_used u' = us_last_used u \<and> set (us_recent u') \<subseteq> set (us_recent u) \<and>
    (case admit_usage now' unix' later' limit u' of (Inl r', _) \<Rightarrow> th_which r' = PerDay | (Inr _, _) \<Rightarrow> True)"
proof -
  let ?u = "prune_usage now (unix div DAY_SECS) u"
  let ?old = "dropWhile (\<lambda>at. MINUTE \<le> now - at) (us_recent u)"
  have recent: "us_recent ?u = ?old" "us_total ?u = us_total u" "us_last_used ?u = us_last_used u"
    by (simp_all add: prune_usage_def Let_def)
  have u': "u' = ?u" and full: "reached (per_minute limit) (word_of_nat (length (us_recent ?u)))"
    and wait: "th_retry_after r = word_of_nat (max ((MINUTE - (now - (case ?old of at # _ \<Rightarrow> at | [] \<Rightarrow> now))) div SECOND) 1)"
    using assms(1,2) by (auto simp: admit_usage_def Let_def recent split: if_splits)
  have small: "length ?old \<le> unat most" using assms(7) length_dropWhile_le order_trans by blast
  then have len: "unat (word_of_nat (length ?old) :: u32) = length ?old"
    using unat_lt_two_power [of most] by (simp add: unat_of_nat take_bit_eq_mod)
  have "0 < unat most" using assms(4) by (simp add: word_less_nat_alt)
  also have "\<dots> \<le> length ?old" using full len assms(3) by (simp add: reached_def recent word_le_nat_alt)
  finally have "?old \<noteq> []" by (rule length_greater_0_conv [THEN iffD1])
  then obtain oldest rest where old: "?old = oldest # rest" by (cases ?old) auto
  define wait_s where "wait_s = (MINUTE - (now - oldest)) div SECOND"
  have "wait_s \<le> 60" by (simp add: wait_s_def MINUTE_def SECOND_def)
  then have retry: "unat (th_retry_after r) = max wait_s 1"
    by (simp add: wait old wait_s_def [symmetric] unat_of_nat take_bit_eq_mod max_def)
  have "oldest \<le> now" using assms(6) old set_dropWhileD [of oldest] by (metis list.set_intros(1))
  have "MINUTE - (now - oldest) < (wait_s + 1) * SECOND"
    using dividend_less_div_times [of SECOND "MINUTE - (now - oldest)"] by (simp add: wait_s_def SECOND_def)
  also have "\<dots> \<le> (unat (th_retry_after r) + 1) * SECOND" by (simp add: retry)
  finally have "oldest + MINUTE \<le> now'" using assms(8) \<open>oldest \<le> now\<close> by linarith
  then have gone: "MINUTE \<le> now' - oldest" using minute_pos by linarith
  let ?later = "prune_usage now' (unix' div DAY_SECS) u'"
  have "length (us_recent ?later) < length ?old"
    using gone length_dropWhile_le [of "\<lambda>at. MINUTE \<le> now' - at" rest]
    by (simp add: prune_usage_def Let_def u' old less_Suc_eq_le)
  then have "length (us_recent ?later) < unat most" using small by linarith
  then have "\<not> reached (per_minute limit) (word_of_nat (length (us_recent ?later)))"
    using unat_lt_two_power [of most] assms(3)
    by (simp add: reached_def word_le_nat_alt unat_of_nat take_bit_eq_mod not_le)
  then show ?thesis
    using set_dropWhileD [of _ _ "us_recent u"] by (auto simp: u' recent admit_usage_def Let_def)
qed

definition once_a_minute :: rate_limit where
  "once_a_minute = \<lparr>per_minute = Some 1, per_day = None\<rparr>"

text \<open>The stated number of seconds alone is not always enough: the wait is cut to whole seconds, so a caller that comes
  back after exactly that time is refused again. With a limit of one a minute and requests at 0 and at half a second, the
  second is told to wait 59 seconds, and at 59.5 seconds it is refused again.\<close>

theorem stated_wait_is_short:
  "let (first, u1) = admit_usage 0 0 0 once_a_minute no_usage;
       (second, u2) = admit_usage 500000000 0 0 once_a_minute u1;
       (third, u3) = admit_usage (500000000 + 59 * SECOND) 59 59 once_a_minute u2
   in first = Inr () \<and> second = Inl \<lparr>th_retry_after = 59, th_which = PerMinute\<rparr> \<and>
      third = Inl \<lparr>th_retry_after = 1, th_which = PerMinute\<rparr>"
  by code_simp

definition two_calls :: "call list" where
  "two_calls = [\<lparr>ca_key = [1], ca_limit = once_a_minute, ca_now = 0, ca_unix = 0, ca_later = 0\<rparr>,
     \<lparr>ca_key = [2], ca_limit = once_a_minute, ca_now = 5, ca_unix = 0, ca_later = 0\<rparr>,
     \<lparr>ca_key = [1], ca_limit = once_a_minute, ca_now = 7, ca_unix = 0, ca_later = 0\<rparr>]"


definition just_used :: key_usage where
  "just_used = no_usage\<lparr>us_recent := [0]\<rparr>"

theorem refusal_tells_when_witness:
  "\<exists>r u'. admit_usage 500000000 0 0 once_a_minute just_used = (Inl r, u') \<and> us_total u' = 0 \<and>
    (case admit_usage 61000000000 61 61 once_a_minute u' of (Inl r', _) \<Rightarrow> th_which r' = PerDay | (Inr _, _) \<Rightarrow> True)"
proof -
  define r where "r = \<lparr>th_retry_after = 59, th_which = PerMinute\<rparr>"
  have r: "th_which r = PerMinute" "th_retry_after r = 59" by (simp_all add: r_def)
  have refused: "admit_usage 500000000 0 0 once_a_minute just_used = (Inl r, just_used)" unfolding r_def by code_simp
  have "us_total just_used = 0" by (simp add: just_used_def no_usage_def)
  moreover have "500000000 + (unat (th_retry_after r) + 1) * SECOND \<le> 61000000000" by (simp add: r SECOND_def)
  ultimately show ?thesis
    using refusal_tells_when [OF refused r(1), of 1 61000000000 61 61] refused
    by (intro exI [of _ r] exI [of _ just_used]) (simp add: once_a_minute_def just_used_def no_usage_def)
qed

end
