(* ===== verification/Router_Health.thy ===== *)
theory Router_Health
  imports Router_Names
begin

text \<open>
  The router's vocabulary, \<open>lightweight-router/src/domain.rs\<close>, and what it believes about each node,
  \<open>lightweight-router/src/health.rs\<close>. Ids and names are \<open>ustr\<close>; the \<open>BTreeMap\<close>s are maps; points in
  time are natural numbers. Sending a probe is input: \<open>observe\<close> takes the answer of a node and
  \<open>record_outcome\<close> the outcome.
\<close>

section \<open>Configuration\<close>

record feature_set =
  streaming :: bool
  sse_done :: bool
  usage_chunk :: bool
  chat_completions :: bool
  completions :: bool
  tools :: bool
  tool_call_deltas :: bool
  tool_choice :: bool
  parallel_tool_calls :: bool
  reasoning_content :: bool

definition intersect :: "feature_set \<Rightarrow> feature_set \<Rightarrow> feature_set" where
  "intersect a b =
    \<lparr>streaming = (streaming a \<and> streaming b), sse_done = (sse_done a \<and> sse_done b),
     usage_chunk = (usage_chunk a \<and> usage_chunk b),
     chat_completions = (chat_completions a \<and> chat_completions b),
     completions = (completions a \<and> completions b), tools = (tools a \<and> tools b),
     tool_call_deltas = (tool_call_deltas a \<and> tool_call_deltas b),
     tool_choice = (tool_choice a \<and> tool_choice b),
     parallel_tool_calls = (parallel_tool_calls a \<and> parallel_tool_calls b),
     reasoning_content = (reasoning_content a \<and> reasoning_content b)\<rparr>"

definition no_features :: feature_set where
  "no_features =
    \<lparr>streaming = False, sse_done = False, usage_chunk = False, chat_completions = False,
     completions = False, tools = False, tool_call_deltas = False, tool_choice = False,
     parallel_tool_calls = False, reasoning_content = False\<rparr>"

datatype node_auth = NoAuth | Bearer (auth_env: ustr) (auth_secret: ustr)

fun header_value :: "node_auth \<Rightarrow> ustr option" where
  "header_value NoAuth = None"
| "header_value (Bearer env secret) = Some (ascii ''Bearer '' @ secret)"

record node =
  nd_id :: ustr
  nd_base_url :: ustr
  nd_enabled :: bool
  nd_auth :: node_auth

definition node_endpoint :: "node \<Rightarrow> ustr \<Rightarrow> ustr" where
  "node_endpoint n path = rev (dropWhile (\<lambda>c. c = 47) (rev (nd_base_url n))) @ path"

record deployment =
  dp_id :: ustr
  dp_node :: ustr
  dp_remote_model :: ustr

datatype route_policy = Priority | RoundRobin | LeastBusy

record route_placement =
  min_ready :: u32
  warm_standby :: u32
  allowed :: "ustr list"

definition placement_target :: "route_placement \<Rightarrow> u32" where
  "placement_target p = sat_add (min_ready p) (warm_standby p)"

record route =
  rt_name :: ustr
  rt_policy :: route_policy
  rt_deployments :: "ustr list"
  rt_description :: "ustr option"
  rt_placement :: "route_placement option"

record topology =
  nodes :: "node list"
  deployments :: "deployment list"
  routes :: "route list"
  default_index :: "nat option"

definition topology_node :: "topology \<Rightarrow> ustr \<Rightarrow> node option" where
  "topology_node tp i = find (\<lambda>n. nd_id n = i) (nodes tp)"

definition topology_deployment :: "topology \<Rightarrow> ustr \<Rightarrow> deployment option" where
  "topology_deployment tp i = find (\<lambda>d. dp_id d = i) (deployments tp)"

definition default_route :: "topology \<Rightarrow> route option" where
  "default_route tp =
    (case default_index tp of
       None \<Rightarrow> None
     | Some i \<Rightarrow> if i < length (routes tp) then Some (routes tp ! i) else None)"

definition topology_route :: "topology \<Rightarrow> ustr \<Rightarrow> route option" where
  "topology_route tp name = find (\<lambda>r. rt_name r = name) (routes tp)"

definition routes_using :: "topology \<Rightarrow> ustr \<Rightarrow> ustr list" where
  "routes_using tp d = map rt_name (filter (\<lambda>r. d \<in> set (rt_deployments r)) (routes tp))"

datatype capability_gap =
    ChatUnsupported | CompletionUnsupported | ToolsUnsupported | ToolChoiceUnsupported
  | ReasoningUnsupported | ContextTooSmall | Unobserved

datatype routing_failure =
    UnknownRoute ustr
  | NoDefaultRoute
  | RouteUnavailable ustr
  | CapabilityMismatch ustr "capability_gap list" "(ustr \<times> capability_gap list) list"

definition route_resolve ::
  "(ustr \<Rightarrow> ustr) \<Rightarrow> topology \<Rightarrow> ustr option \<Rightarrow> routing_failure + route" where
  "route_resolve lower tp requested =
    (case selector_parse requested of
       DefaultModel \<Rightarrow>
         (case default_route tp of Some r \<Rightarrow> Inr r | None \<Rightarrow> Inl NoDefaultRoute)
     | Named name \<Rightarrow>
         (case find (\<lambda>r. route_matches lower (rt_name r) name) (routes tp) of
            Some r \<Rightarrow> Inr r
          | None \<Rightarrow> Inl (UnknownRoute name)))"

section \<open>Health\<close>

datatype node_health = Unknown_Health | Healthy | Unhealthy

datatype unavailable_reason = NodeDisabled | NodeUnknown | NodeUnhealthy | ModelNotServed

datatype deployment_health = Available | Unavailable unavailable_reason

record served_model =
  sm_id :: ustr
  sm_context_length :: u32

record observation =
  ob_served :: "served_model option"
  ob_features :: feature_set
  ob_max_concurrent_requests :: u32
  ob_version :: ustr

record node_status =
  ns_health :: node_health
  consecutive_failures :: u32
  last_checked :: "nat option"
  last_seen :: "nat option"
  last_error :: "ustr option"
  observed :: "observation option"

definition default_status :: node_status where
  "default_status = \<lparr>ns_health = Unknown_Health, consecutive_failures = 0, last_checked = None,
     last_seen = None, last_error = None, observed = None\<rparr>"

definition served :: "node_status \<Rightarrow> served_model option" where
  "served st = Option.bind (observed st) ob_served"

datatype outcome = Success observation | Failure ustr

definition apply_outcome :: "node_status \<Rightarrow> outcome \<Rightarrow> u32 \<Rightarrow> nat \<Rightarrow> node_status" where
  "apply_outcome st out threshold now =
    (let st = st\<lparr>last_checked := Some now\<rparr>
     in case out of
          Success ob \<Rightarrow>
            st\<lparr>ns_health := Healthy, consecutive_failures := 0, last_seen := Some now,
               last_error := None, observed := Some ob\<rparr>
        | Failure reason \<Rightarrow>
            let st = st\<lparr>consecutive_failures := sat_add (consecutive_failures st) 1,
                        last_error := Some reason\<rparr>
            in if consecutive_failures st \<ge> threshold then st\<lparr>ns_health := Unhealthy\<rparr> else st)"

record deployment_observation =
  do_capabilities :: feature_set
  do_context_length :: u32
  do_max_concurrent_requests :: u32
  do_observed_at :: nat

record health_book =
  hb_threshold :: u32
  hb_nodes :: "ustr \<rightharpoonup> node_status"
  hb_deployments_of :: "ustr \<Rightarrow> (ustr \<times> ustr) list"
  hb_deployments :: "ustr \<rightharpoonup> deployment_observation"

definition health_new :: "topology \<Rightarrow> u32 \<Rightarrow> health_book" where
  "health_new tp threshold =
    \<lparr>hb_threshold = threshold,
     hb_nodes = map_of (map (\<lambda>n. (nd_id n, default_status)) (nodes tp)),
     hb_deployments_of = (\<lambda>i. map (\<lambda>d. (dp_id d, dp_remote_model d))
                               (filter (\<lambda>d. dp_node d = i) (deployments tp))),
     hb_deployments = Map.empty\<rparr>"

fun file_observations ::
  "(ustr \<Rightarrow> ustr) \<Rightarrow> ustr \<Rightarrow> deployment_observation \<Rightarrow> (ustr \<times> ustr) list \<Rightarrow>
    (ustr \<rightharpoonup> deployment_observation) \<Rightarrow> (ustr \<rightharpoonup> deployment_observation)" where
  "file_observations lower model ob [] m = m"
| "file_observations lower model ob ((i, listed) # ds) m =
    file_observations lower model ob ds
      (if same_name lower listed model then m(i \<mapsto> ob) else m)"

definition observe_deployments ::
  "(ustr \<Rightarrow> ustr) \<Rightarrow> ustr \<Rightarrow> observation \<Rightarrow> nat \<Rightarrow> health_book \<Rightarrow> health_book" where
  "observe_deployments lower nid ob now hb =
    (case ob_served ob of
       None \<Rightarrow> hb
     | Some sm \<Rightarrow>
         hb\<lparr>hb_deployments := file_observations lower (sm_id sm)
              \<lparr>do_capabilities = ob_features ob, do_context_length = sm_context_length sm,
               do_max_concurrent_requests = ob_max_concurrent_requests ob, do_observed_at = now\<rparr>
              (hb_deployments_of hb nid) (hb_deployments hb)\<rparr>)"

definition record_outcome ::
  "(ustr \<Rightarrow> ustr) \<Rightarrow> ustr \<Rightarrow> outcome \<Rightarrow> nat \<Rightarrow> health_book \<Rightarrow> health_book" where
  "record_outcome lower nid out now hb =
    (let hb = (case out of Success ob \<Rightarrow> observe_deployments lower nid ob now hb | Failure _ \<Rightarrow> hb)
     in case hb_nodes hb nid of
          None \<Rightarrow> hb
        | Some st \<Rightarrow> hb\<lparr>hb_nodes := (hb_nodes hb)(nid \<mapsto> apply_outcome st out (hb_threshold hb) now)\<rparr>)"

definition forget_model :: "ustr \<Rightarrow> health_book \<Rightarrow> health_book" where
  "forget_model nid hb =
    (case hb_nodes hb nid of
       None \<Rightarrow> hb
     | Some st \<Rightarrow>
         (case observed st of
            None \<Rightarrow> hb
          | Some ob \<Rightarrow>
              hb\<lparr>hb_nodes := (hb_nodes hb)(nid \<mapsto> st\<lparr>observed := Some (ob\<lparr>ob_served := None\<rparr>)\<rparr>)\<rparr>))"

definition book_status :: "ustr \<Rightarrow> health_book \<Rightarrow> node_status" where
  "book_status nid hb = (case hb_nodes hb nid of None \<Rightarrow> default_status | Some st \<Rightarrow> st)"

definition availability :: "(ustr \<Rightarrow> ustr) \<Rightarrow> node \<Rightarrow> deployment \<Rightarrow> node_status \<Rightarrow> deployment_health"
where
  "availability lower n d st =
    (if \<not> nd_enabled n then Unavailable NodeDisabled
     else (case ns_health st of
             Unknown_Health \<Rightarrow> Unavailable NodeUnknown
           | Unhealthy \<Rightarrow> Unavailable NodeUnhealthy
           | Healthy \<Rightarrow>
               (case served st of
                  Some sm \<Rightarrow>
                    if same_name lower (sm_id sm) (dp_remote_model d) then Available
                    else Unavailable ModelNotServed
                | None \<Rightarrow> Unavailable ModelNotServed)))"

definition book_availability ::
  "(ustr \<Rightarrow> ustr) \<Rightarrow> node \<Rightarrow> deployment \<Rightarrow> health_book \<Rightarrow> deployment_health" where
  "book_availability lower n d hb = availability lower n d (book_status (nd_id n) hb)"

section \<open>Reading a node's answer\<close>

definition PROTOCOL_NAME :: ustr where "PROTOCOL_NAME = ascii ''lightweight-public-inference''"
definition PROTOCOL_VERSION :: u32 where "PROTOCOL_VERSION = 1"

record capabilities_body =
  cb_protocol_name :: ustr
  cb_compatible_versions :: "u32 list"
  cb_server_version :: ustr
  cb_features :: feature_set
  cb_model_loaded :: bool
  cb_model :: "served_model option"
  cb_max_concurrent_requests :: u32

datatype observe_error = SpeaksOther ustr | VersionsExclude "u32 list"

definition observe :: "capabilities_body \<Rightarrow> observe_error + observation" where
  "observe body =
    (if cb_protocol_name body \<noteq> PROTOCOL_NAME then Inl (SpeaksOther (cb_protocol_name body))
     else if PROTOCOL_VERSION \<notin> set (cb_compatible_versions body)
     then Inl (VersionsExclude (cb_compatible_versions body))
     else Inr \<lparr>ob_served = (if cb_model_loaded body then cb_model body else None),
               ob_features = cb_features body,
               ob_max_concurrent_requests = cb_max_concurrent_requests body,
               ob_version = cb_server_version body\<rparr>)"

section \<open>The verdict over a history of probes\<close>

definition after_probes :: "u32 \<Rightarrow> (outcome \<times> nat) list \<Rightarrow> node_status" where
  "after_probes threshold history =
    foldl (\<lambda>st (out, now). apply_outcome st out threshold now) default_status history"

fun is_success :: "outcome \<Rightarrow> bool" where
  "is_success (Success _) = True"
| "is_success (Failure _) = False"

definition trailing_failures :: "(outcome \<times> nat) list \<Rightarrow> nat" where
  "trailing_failures history = length (takeWhile (\<lambda>p. \<not> is_success (fst p)) (rev history))"

lemma after_probes_snoc:
  "after_probes threshold (history @ [(out, now)])
    = apply_outcome (after_probes threshold history) out threshold now"
  by (simp add: after_probes_def)

lemma trailing_snoc:
  "trailing_failures (history @ [(Success ob, now)]) = 0"
  "trailing_failures (history @ [(Failure r, now)]) = Suc (trailing_failures history)"
  by (simp_all add: trailing_failures_def)

lemma consecutive_after_probes:
  "unat (consecutive_failures (after_probes threshold history))
    = min (2 ^ 32 - 1) (trailing_failures history)"
proof (induction history rule: rev_induct)
  case Nil
  show ?case by (simp add: after_probes_def default_status_def trailing_failures_def)
next
  case (snoc p history)
  obtain out now where p: "p = (out, now)" by fastforce
  show ?case
    using snoc unfolding p
    by (cases out) (auto simp: after_probes_snoc apply_outcome_def Let_def trailing_snoc unat_sat_add)
qed

lemma reached_threshold:
  "threshold \<le> consecutive_failures (after_probes threshold history) \<longleftrightarrow>
    unat threshold \<le> trailing_failures history"
  using unat_lt_two_power [of threshold]
  by (auto simp: word_le_nat_alt consecutive_after_probes)

text \<open>The health of a node is a function of its probe history alone: unhealthy exactly when the
  history ends in at least one and at least \<open>failure_threshold\<close> consecutive failures, otherwise
  healthy when any probe ever succeeded and unknown when none did. The counter saturates without
  changing the verdict.\<close>

theorem health_of_history:
  "ns_health (after_probes threshold history) =
    (if 0 < trailing_failures history \<and> unat threshold \<le> trailing_failures history then Unhealthy
     else if list_ex (\<lambda>p. is_success (fst p)) history then Healthy else Unknown_Health)"
proof (induction history rule: rev_induct)
  case Nil
  show ?case by (simp add: after_probes_def default_status_def trailing_failures_def)
next
  case (snoc p history)
  obtain out now where p: "p = (out, now)" by fastforce
  show ?case
  proof (cases out)
    case (Success ob)
    then show ?thesis by (simp add: p after_probes_snoc trailing_snoc apply_outcome_def Let_def)
  next
    case (Failure r)
    let ?st = "after_probes threshold history" and ?h = "history @ [(Failure r, now)]"
    have step: "consecutive_failures (after_probes threshold ?h) = sat_add (consecutive_failures ?st) 1"
      "ns_health (after_probes threshold ?h) =
        (if threshold \<le> sat_add (consecutive_failures ?st) 1 then Unhealthy else ns_health ?st)"
      by (simp_all add: after_probes_snoc apply_outcome_def Let_def)
    have "threshold \<le> consecutive_failures (after_probes threshold ?h) \<longleftrightarrow>
        unat threshold \<le> Suc (trailing_failures history)"
      by (simp add: reached_threshold trailing_snoc)
    with step snoc.IH show ?thesis by (simp add: p Failure trailing_snoc)
  qed
qed

text \<open>A deployment takes traffic exactly on an enabled node, seen healthy, that serves its model.\<close>

lemma available_iff:
  "availability lower n d st = Available \<longleftrightarrow>
    nd_enabled n \<and> ns_health st = Healthy \<and>
    (\<exists>sm. served st = Some sm \<and> same_name lower (sm_id sm) (dp_remote_model d))"
  by (auto simp: availability_def split: node_health.splits option.splits)

text \<open>An observation is filed under exactly the deployments it is about: after a successful probe of
  a node, the deployments of that node whose model the node serves hold the new figures, and every
  other deployment holds what it held before.\<close>

theorem observation_filed:
  "hb_deployments (record_outcome lower nid (Success ob) now hb) i =
    (case ob_served ob of
       None \<Rightarrow> hb_deployments hb i
     | Some sm \<Rightarrow>
         if \<exists>model. (i, model) \<in> set (hb_deployments_of hb nid) \<and> same_name lower model (sm_id sm)
         then Some \<lparr>do_capabilities = ob_features ob, do_context_length = sm_context_length sm,
                    do_max_concurrent_requests = ob_max_concurrent_requests ob, do_observed_at = now\<rparr>
         else hb_deployments hb i)"
proof -
  have filed: "file_observations lower model x ds m i =
      (if \<exists>listed. (i, listed) \<in> set ds \<and> same_name lower listed model then Some x else m i)"
    for model x ds m
    by (induction lower model x ds m rule: file_observations.induct) auto
  show ?thesis
    by (auto simp: record_outcome_def observe_deployments_def Let_def filed split: option.splits)
qed

end
