(* ===== verification/Router_Placement.thy ===== *)
theory Router_Placement
  imports Router_Health "HOL-Library.Code_Target_Nat"
begin

text \<open>
  Placement: \<open>lightweight-router/src/placement.rs\<close>, which deployments should be loaded ahead of demand,
  and the controller's memory of loads and failures.

  The set of deployments with a load in progress is the list of its elements; the claimed nodes are a
  list. Instants and durations are natural numbers of nanoseconds, with the largest \<open>Duration\<close> as the
  point where \<open>saturating_mul\<close> stops. Issuing the loads is the controller's and not modelled.
\<close>

section \<open>Measuring a route\<close>

datatype deployment_state =
  Ready | Loading | Empty | Occupied | StateUnavailable unavailable_reason

datatype failure_reason =
    ModelNotInstalled | LoadRejected | ReasonNodeUnhealthy | NodeBusy | AdmissionFailed | LoadTimeout
  | ModelFailed

definition of_code :: "ustr \<Rightarrow> failure_reason" where
  "of_code code =
    (if code = ascii ''insufficient_memory'' \<or> code = ascii ''memory_probe_failed'' then AdmissionFailed
     else if code = ascii ''model_operation_in_progress'' \<or> code = ascii ''drain_timed_out'' then NodeBusy
     else if code = ascii ''unknown_model'' \<or> code = ascii ''model_not_found'' \<or>
             code = ascii ''model_file_not_found'' then ModelNotInstalled
     else ModelFailed)"

record action =
  ac_route :: ustr
  ac_deployment :: ustr
  ac_node :: ustr
  ac_model :: ustr

record assessment =
  as_route :: ustr
  as_min_ready :: u32
  as_warm_standby :: u32
  as_deployments :: "(ustr \<times> ustr \<times> deployment_state \<times> bool) list"

datatype placement_status = Satisfied | BelowTarget | BelowMin

definition as_target :: "assessment \<Rightarrow> u32" where
  "as_target a = sat_add (as_min_ready a) (as_warm_standby a)"

definition state_count :: "assessment \<Rightarrow> deployment_state \<Rightarrow> u32" where
  "state_count a st =
    (let n = length (filter (\<lambda>(_, _, s, _). s = st) (as_deployments a))
     in if n < 2 ^ 32 then word_of_nat n else - 1)"

definition ready :: "assessment \<Rightarrow> u32" where
  "ready a = state_count a Ready"

definition loading :: "assessment \<Rightarrow> u32" where
  "loading a = state_count a Loading"

definition standby :: "assessment \<Rightarrow> u32" where
  "standby a = sat_sub (ready a) (as_min_ready a)"

definition shortfall :: "assessment \<Rightarrow> u32" where
  "shortfall a = sat_sub (sat_sub (as_target a) (ready a)) (loading a)"

definition status :: "assessment \<Rightarrow> placement_status" where
  "status a =
    (if ready a \<ge> as_target a then Satisfied
     else if ready a \<ge> as_min_ready a then BelowTarget else BelowMin)"

definition state_of ::
  "(ustr \<Rightarrow> ustr) \<Rightarrow> node \<Rightarrow> deployment \<Rightarrow> node_status \<Rightarrow> bool \<Rightarrow> deployment_state" where
  "state_of lower n d st in_progress =
    (case availability lower n d st of
       Available \<Rightarrow> Ready
     | Unavailable reason \<Rightarrow>
         if in_progress then Loading
         else if reason = ModelNotServed
         then (if ns_health st = Healthy \<and> served st = None then Empty else Occupied)
         else StateUnavailable reason)"

definition assess_one ::
  "(ustr \<Rightarrow> ustr) \<Rightarrow> topology \<Rightarrow> (ustr \<rightharpoonup> node_status) \<Rightarrow> ustr list \<Rightarrow> route_placement \<Rightarrow> ustr \<Rightarrow>
    (ustr \<times> ustr \<times> deployment_state \<times> bool) option" where
  "assess_one lower tp health in_progress placement i =
    (case topology_deployment tp i of
       None \<Rightarrow> None
     | Some d \<Rightarrow>
         (case topology_node tp (dp_node d) of
            None \<Rightarrow> None
          | Some n \<Rightarrow>
              Some (i, nd_id n,
                    state_of lower n d
                      (case health (nd_id n) of None \<Rightarrow> default_status | Some st \<Rightarrow> st)
                      (i \<in> set in_progress),
                    i \<in> set (allowed placement))))"

definition assess ::
  "(ustr \<Rightarrow> ustr) \<Rightarrow> topology \<Rightarrow> route \<Rightarrow> (ustr \<rightharpoonup> node_status) \<Rightarrow> ustr list \<Rightarrow> assessment option" where
  "assess lower tp r health in_progress =
    map_option (\<lambda>placement.
      \<lparr>as_route = rt_name r, as_min_ready = min_ready placement,
       as_warm_standby = warm_standby placement,
       as_deployments =
         List.map_filter (assess_one lower tp health in_progress placement) (rt_deployments r)\<rparr>)
      (rt_placement r)"

section \<open>Planning loads\<close>

fun place_route ::
  "topology \<Rightarrow> (ustr \<Rightarrow> bool) \<Rightarrow> ustr \<Rightarrow> (ustr \<times> ustr \<times> deployment_state \<times> bool) list \<Rightarrow> u32 \<Rightarrow>
    ustr list \<Rightarrow> action list \<Rightarrow> ustr list \<times> action list" where
  "place_route tp backing_off name [] wanted claimed actions = (claimed, actions)"
| "place_route tp backing_off name ((i, nd, st, allow) # ds) wanted claimed actions =
    (if wanted = 0 then (claimed, actions)
     else if \<not> allow \<or> st \<noteq> Empty \<or> backing_off i \<or> nd \<in> set claimed
     then place_route tp backing_off name ds wanted claimed actions
     else case topology_deployment tp i of
            None \<Rightarrow> place_route tp backing_off name ds wanted claimed actions
          | Some d \<Rightarrow>
              place_route tp backing_off name ds (wanted - 1) (nd # claimed)
                (actions @ [\<lparr>ac_route = name, ac_deployment = i, ac_node = nd,
                             ac_model = dp_remote_model d\<rparr>]))"

fun place_routes ::
  "(ustr \<Rightarrow> ustr) \<Rightarrow> topology \<Rightarrow> (ustr \<rightharpoonup> node_status) \<Rightarrow> ustr list \<Rightarrow> (ustr \<Rightarrow> bool) \<Rightarrow> route list \<Rightarrow>
    ustr list \<Rightarrow> action list \<Rightarrow> action list" where
  "place_routes lower tp health in_progress backing_off [] claimed actions = actions"
| "place_routes lower tp health in_progress backing_off (r # rs) claimed actions =
    (case assess lower tp r health in_progress of
       None \<Rightarrow> place_routes lower tp health in_progress backing_off rs claimed actions
     | Some a \<Rightarrow>
         let (claimed, actions) =
           place_route tp backing_off (rt_name r) (as_deployments a) (shortfall a) claimed actions
         in place_routes lower tp health in_progress backing_off rs claimed actions)"

definition initial_claims :: "topology \<Rightarrow> ustr list \<Rightarrow> ustr list" where
  "initial_claims tp in_progress = map dp_node (List.map_filter (topology_deployment tp) in_progress)"

definition placement_plan ::
  "(ustr \<Rightarrow> ustr) \<Rightarrow> topology \<Rightarrow> (ustr \<rightharpoonup> node_status) \<Rightarrow> ustr list \<Rightarrow> (ustr \<Rightarrow> bool) \<Rightarrow> action list" where
  "placement_plan lower tp health in_progress backing_off =
    place_routes lower tp health in_progress backing_off (routes tp) (initial_claims tp in_progress) []"

definition configured :: "topology \<Rightarrow> bool" where
  "configured tp \<longleftrightarrow> list_ex (\<lambda>r. rt_placement r \<noteq> None) (routes tp)"

section \<open>The controller's memory\<close>

record placement_policy =
  pp_interval :: nat
  pp_load_timeout :: nat
  pp_backoff :: nat
  pp_backoff_max :: nat

datatype action_result = Succeeded | Failed | AlreadyLoaded

record last_action =
  la_action :: ustr
  la_result :: action_result
  la_reason :: "failure_reason option"
  la_code :: "ustr option"
  la_at :: u64
  la_duration_ms :: u64

record placement_record =
  pr_loading_since :: "nat option"
  pr_last :: "last_action option"
  pr_failures :: u32
  pr_retry_at :: "nat option"

definition default_record :: placement_record where
  "default_record =
    \<lparr>pr_loading_since = None, pr_last = None, pr_failures = 0, pr_retry_at = None\<rparr>"

record placement_book =
  pb_policy :: placement_policy
  pb_records :: "ustr \<rightharpoonup> placement_record"

definition placement_new :: "placement_policy \<Rightarrow> placement_book" where
  "placement_new policy = \<lparr>pb_policy = policy, pb_records = Map.empty\<rparr>"

definition record_of :: "ustr \<Rightarrow> placement_book \<Rightarrow> placement_record" where
  "record_of i pb = (case pb_records pb i of None \<Rightarrow> default_record | Some rc \<Rightarrow> rc)"

definition loading_deployments :: "placement_book \<Rightarrow> ustr set" where
  "loading_deployments pb = {i. \<exists>rc. pb_records pb i = Some rc \<and> pr_loading_since rc \<noteq> None}"

definition backing_off_at :: "nat \<Rightarrow> placement_book \<Rightarrow> ustr \<Rightarrow> bool" where
  "backing_off_at now pb i =
    (case pb_records pb i of
       None \<Rightarrow> False
     | Some rc \<Rightarrow> (case pr_retry_at rc of None \<Rightarrow> False | Some retry \<Rightarrow> now < retry))"

definition begin_load :: "ustr \<Rightarrow> nat \<Rightarrow> placement_book \<Rightarrow> bool \<times> placement_book" where
  "begin_load i now pb =
    (let rc = record_of i pb
     in if pr_loading_since rc \<noteq> None then (False, pb\<lparr>pb_records := (pb_records pb)(i \<mapsto> rc)\<rparr>)
        else (True, pb\<lparr>pb_records := (pb_records pb)(i \<mapsto> rc\<lparr>pr_loading_since := Some now\<rparr>)\<rparr>))"

definition load_succeeded :: "ustr \<Rightarrow> last_action \<Rightarrow> placement_book \<Rightarrow> placement_book" where
  "load_succeeded i last_act pb =
    pb\<lparr>pb_records := (pb_records pb)(i \<mapsto>
      (record_of i pb)\<lparr>pr_loading_since := None, pr_failures := 0, pr_retry_at := None,
                       pr_last := Some last_act\<rparr>)\<rparr>"

definition DURATION_MAX :: nat where "DURATION_MAX = 18446744073709551615999999999"

definition duration_saturating_mul :: "nat \<Rightarrow> u32 \<Rightarrow> nat" where
  "duration_saturating_mul d k = min DURATION_MAX (d * unat k)"

definition backoff_after :: "placement_policy \<Rightarrow> u32 \<Rightarrow> nat" where
  "backoff_after policy failures =
    (let doublings = min (sat_sub failures 1) 20
     in min (duration_saturating_mul (pp_backoff policy) (push_bit (unat doublings) 1))
            (pp_backoff_max policy))"

definition load_failed :: "ustr \<Rightarrow> last_action \<Rightarrow> nat \<Rightarrow> placement_book \<Rightarrow> nat \<times> placement_book" where
  "load_failed i last_act now pb =
    (let rc = record_of i pb;
         failures = sat_add (pr_failures rc) 1;
         delay = backoff_after (pb_policy pb) failures
     in (delay,
         pb\<lparr>pb_records := (pb_records pb)(i \<mapsto>
           rc\<lparr>pr_loading_since := None, pr_failures := failures, pr_retry_at := Some (now + delay),
              pr_last := Some last_act\<rparr>)\<rparr>))"

definition abandon :: "ustr \<Rightarrow> placement_book \<Rightarrow> placement_book" where
  "abandon i pb =
    (case pb_records pb i of
       None \<Rightarrow> pb
     | Some rc \<Rightarrow> pb\<lparr>pb_records := (pb_records pb)(i \<mapsto> rc\<lparr>pr_loading_since := None\<rparr>)\<rparr>)"

section \<open>What a plan of loads promises\<close>

definition placed_from ::
  "topology \<Rightarrow> (ustr \<Rightarrow> bool) \<Rightarrow> ustr \<Rightarrow> (ustr \<times> ustr \<times> deployment_state \<times> bool) list \<Rightarrow> action \<Rightarrow> bool" where
  "placed_from tp backing_off name ds a \<longleftrightarrow>
    ac_route a = name \<and> (ac_deployment a, ac_node a, Empty, True) \<in> set ds \<and>
    \<not> backing_off (ac_deployment a) \<and>
    map_option dp_remote_model (topology_deployment tp (ac_deployment a)) = Some (ac_model a)"

definition exhausted ::
  "topology \<Rightarrow> (ustr \<Rightarrow> bool) \<Rightarrow> (ustr \<times> ustr \<times> deployment_state \<times> bool) list \<Rightarrow> ustr set \<Rightarrow> bool" where
  "exhausted tp backing_off ds claimed \<longleftrightarrow>
    (\<forall>i nd. (i, nd, Empty, True) \<in> set ds \<longrightarrow>
       backing_off i \<or> nd \<in> claimed \<or> topology_deployment tp i = None)"

lemma exhausted_mono:
  "exhausted tp backing_off ds claimed \<Longrightarrow> claimed \<subseteq> claimed' \<Longrightarrow> exhausted tp backing_off ds claimed'"
  unfolding exhausted_def by (metis subsetD)

lemma placed_from_Cons: "placed_from tp backing_off name ds a \<Longrightarrow> placed_from tp backing_off name (e # ds) a"
  by (simp add: placed_from_def)

lemma place_route_spec:
  "\<exists>new. place_route tp backing_off name ds wanted claimed actions =
      (rev (map ac_node new) @ claimed, actions @ new) \<and>
    distinct (map ac_node new) \<and> ac_node ` set new \<inter> set claimed = {} \<and> length new \<le> unat wanted \<and>
    (\<forall>a \<in> set new. placed_from tp backing_off name ds a) \<and>
    (length new < unat wanted \<longrightarrow> exhausted tp backing_off ds (ac_node ` set new \<union> set claimed))"
proof (induction ds arbitrary: wanted claimed actions)
  case Nil
  show ?case by (rule exI [of _ "[]"]) (simp add: exhausted_def)
next
  case (Cons entry ds)
  obtain i nd st allow where entry: "entry = (i, nd, st, allow)" by (metis prod_cases4)
  let ?pass = "\<not> allow \<or> st \<noteq> Empty \<or> backing_off i \<or> nd \<in> set claimed \<or> topology_deployment tp i = None"
  show ?case
  proof (cases "wanted = 0")
    case True
    then show ?thesis by (intro exI [of _ "[]"]) (simp add: entry)
  next
    case False
    show ?thesis
    proof (cases ?pass)
      case True
      with False have step: "place_route tp backing_off name (entry # ds) wanted claimed actions
          = place_route tp backing_off name ds wanted claimed actions"
        by (auto simp: entry)
      obtain new where new: "place_route tp backing_off name ds wanted claimed actions =
          (rev (map ac_node new) @ claimed, actions @ new)"
        "distinct (map ac_node new)" "ac_node ` set new \<inter> set claimed = {}" "length new \<le> unat wanted"
        "\<forall>a \<in> set new. placed_from tp backing_off name ds a"
        "length new < unat wanted \<longrightarrow> exhausted tp backing_off ds (ac_node ` set new \<union> set claimed)"
        using Cons.IH [of wanted claimed actions] by blast
      have "exhausted tp backing_off (entry # ds) cl"
        if "exhausted tp backing_off ds cl" "set claimed \<subseteq> cl" for cl
        using that True by (auto simp: exhausted_def entry)
      with new step show ?thesis by (intro exI [of _ new]) (auto intro: placed_from_Cons)
    next
      case take: False
      then obtain d where d: "topology_deployment tp i = Some d" by auto
      let ?a = "\<lparr>ac_route = name, ac_deployment = i, ac_node = nd, ac_model = dp_remote_model d\<rparr>"
      have step: "place_route tp backing_off name (entry # ds) wanted claimed actions
          = place_route tp backing_off name ds (wanted - 1) (nd # claimed) (actions @ [?a])"
        using False take d by (simp add: entry)
      obtain new where new: "place_route tp backing_off name ds (wanted - 1) (nd # claimed) (actions @ [?a]) =
          (rev (map ac_node new) @ nd # claimed, (actions @ [?a]) @ new)"
        "distinct (map ac_node new)" "ac_node ` set new \<inter> set (nd # claimed) = {}"
        "length new \<le> unat (wanted - 1)" "\<forall>a \<in> set new. placed_from tp backing_off name ds a"
        "length new < unat (wanted - 1) \<longrightarrow>
          exhausted tp backing_off ds (ac_node ` set new \<union> set (nd # claimed))"
        using Cons.IH [of "wanted - 1" "nd # claimed" "actions @ [?a]"] by blast
      have less: "unat (wanted - 1) = unat wanted - 1" "0 < unat wanted"
        using False by (simp_all add: unat_minus_one unat_gt_0)
      have "exhausted tp backing_off (entry # ds) (ac_node ` set (?a # new) \<union> set claimed)"
        if "exhausted tp backing_off ds (ac_node ` set new \<union> set (nd # claimed))"
        using that by (auto simp: exhausted_def entry)
      moreover have "placed_from tp backing_off name (entry # ds) ?a"
        using take d by (simp add: placed_from_def entry)
      moreover have "nd \<notin> set claimed" using take by simp
      ultimately show ?thesis
        using new step less by (intro exI [of _ "?a # new"]) (auto intro: placed_from_Cons)
    qed
  qed
qed

definition within_target ::
  "topology \<Rightarrow> (ustr \<Rightarrow> bool) \<Rightarrow> assessment \<Rightarrow> action list \<Rightarrow> ustr set \<Rightarrow> bool" where
  "within_target tp backing_off a mine claimed \<longleftrightarrow>
    length mine \<le> unat (shortfall a) \<and>
    (length mine < unat (shortfall a) \<longrightarrow> exhausted tp backing_off (as_deployments a) claimed)"

lemma filter_route:
  "\<forall>a \<in> set new. ac_route a = name \<Longrightarrow> filter (\<lambda>a. ac_route a = name) new = new"
  "\<forall>a \<in> set new. ac_route a \<noteq> name \<Longrightarrow> filter (\<lambda>a. ac_route a = name) new = []"
  by (simp_all add: filter_id_conv filter_empty_conv)

lemma place_routes_spec:
  "\<exists>new. place_routes lower tp health in_progress backing_off rs claimed actions = actions @ new \<and>
    distinct (map ac_node new) \<and> ac_node ` set new \<inter> set claimed = {} \<and>
    (\<forall>x \<in> set new. \<exists>r a. r \<in> set rs \<and> assess lower tp r health in_progress = Some a \<and>
       placed_from tp backing_off (rt_name r) (as_deployments a) x) \<and>
    (distinct (map rt_name rs) \<longrightarrow>
      (\<forall>r \<in> set rs. \<forall>a. assess lower tp r health in_progress = Some a \<longrightarrow>
         within_target tp backing_off a (filter (\<lambda>x. ac_route x = rt_name r) new)
           (ac_node ` set new \<union> set claimed)))"
proof (induction rs arbitrary: claimed actions)
  case Nil
  show ?case by simp
next
  case (Cons r rs)
  show ?case
  proof (cases "assess lower tp r health in_progress")
    case None
    obtain new where new: "place_routes lower tp health in_progress backing_off rs claimed actions = actions @ new"
      "distinct (map ac_node new)" "ac_node ` set new \<inter> set claimed = {}"
      "\<forall>x \<in> set new. \<exists>r a. r \<in> set rs \<and> assess lower tp r health in_progress = Some a \<and>
         placed_from tp backing_off (rt_name r) (as_deployments a) x"
      "distinct (map rt_name rs) \<longrightarrow>
        (\<forall>r \<in> set rs. \<forall>a. assess lower tp r health in_progress = Some a \<longrightarrow>
           within_target tp backing_off a (filter (\<lambda>x. ac_route x = rt_name r) new)
             (ac_node ` set new \<union> set claimed))"
      using Cons.IH [of claimed actions] by blast
    with None show ?thesis by (intro exI [of _ new] conjI) (simp, simp, simp, force, simp)
  next
    case (Some a)
    obtain new1 where new1: "place_route tp backing_off (rt_name r) (as_deployments a) (shortfall a) claimed actions =
        (rev (map ac_node new1) @ claimed, actions @ new1)"
      "distinct (map ac_node new1)" "ac_node ` set new1 \<inter> set claimed = {}"
      "length new1 \<le> unat (shortfall a)"
      "\<forall>x \<in> set new1. placed_from tp backing_off (rt_name r) (as_deployments a) x"
      "length new1 < unat (shortfall a) \<longrightarrow>
        exhausted tp backing_off (as_deployments a) (ac_node ` set new1 \<union> set claimed)"
      using place_route_spec [of tp backing_off "rt_name r" "as_deployments a" "shortfall a" claimed actions]
      by blast
    let ?claimed = "rev (map ac_node new1) @ claimed"
    obtain new where new: "place_routes lower tp health in_progress backing_off rs ?claimed (actions @ new1)
        = (actions @ new1) @ new"
      "distinct (map ac_node new)" "ac_node ` set new \<inter> set ?claimed = {}"
      "\<forall>x \<in> set new. \<exists>r a. r \<in> set rs \<and> assess lower tp r health in_progress = Some a \<and>
         placed_from tp backing_off (rt_name r) (as_deployments a) x"
      "distinct (map rt_name rs) \<longrightarrow>
        (\<forall>r \<in> set rs. \<forall>a. assess lower tp r health in_progress = Some a \<longrightarrow>
           within_target tp backing_off a (filter (\<lambda>x. ac_route x = rt_name r) new)
             (ac_node ` set new \<union> set ?claimed))"
      using Cons.IH [of ?claimed "actions @ new1"] by blast
    let ?all = "new1 @ new" and ?nodes = "ac_node ` set (new1 @ new) \<union> set claimed"
    have nodes: "ac_node ` set new \<union> set ?claimed = ?nodes" by auto
    have mine: "within_target tp backing_off a (filter (\<lambda>x. ac_route x = rt_name r) ?all) ?nodes"
      if "rt_name r \<notin> rt_name ` set rs"
    proof -
      have "\<forall>x \<in> set new. ac_route x \<noteq> rt_name r" using new(4) that by (fastforce simp: placed_from_def)
      moreover have "\<forall>x \<in> set new1. ac_route x = rt_name r" using new1(5) by (simp add: placed_from_def)
      ultimately have "filter (\<lambda>x. ac_route x = rt_name r) ?all = new1" by (simp add: filter_route)
      moreover have "ac_node ` set new1 \<union> set claimed \<subseteq> ?nodes" by auto
      ultimately show ?thesis
        using new1(4,6) exhausted_mono unfolding within_target_def by metis
    qed
    have others: "within_target tp backing_off a' (filter (\<lambda>x. ac_route x = rt_name r') ?all) ?nodes"
      if "distinct (map rt_name rs)" "r' \<in> set rs" "rt_name r' \<noteq> rt_name r"
        "assess lower tp r' health in_progress = Some a'" for r' a'
    proof -
      have "\<forall>x \<in> set new1. ac_route x \<noteq> rt_name r'" using new1(5) that(3) by (auto simp: placed_from_def)
      then have "filter (\<lambda>x. ac_route x = rt_name r') ?all = filter (\<lambda>x. ac_route x = rt_name r') new"
        by (simp add: filter_route)
      then show ?thesis using new(5) that nodes by metis
    qed
    show ?thesis
    proof (intro exI [of _ ?all] conjI impI ballI allI)
      show "place_routes lower tp health in_progress backing_off (r # rs) claimed actions = actions @ ?all"
        using Some new1(1) new(1) by simp
      show "distinct (map ac_node ?all)" "ac_node ` set ?all \<inter> set claimed = {}"
        using new1(2,3) new(2,3) by auto
      fix x assume "x \<in> set ?all"
      then show "\<exists>r' a'. r' \<in> set (r # rs) \<and> assess lower tp r' health in_progress = Some a' \<and>
          placed_from tp backing_off (rt_name r') (as_deployments a') x"
        using new1(5) new(4) Some by (metis Un_iff list.set_intros(1,2) set_append)
    next
      fix r' a' assume "distinct (map rt_name (r # rs))" "r' \<in> set (r # rs)"
        "assess lower tp r' health in_progress = Some a'"
      then show "within_target tp backing_off a' (filter (\<lambda>x. ac_route x = rt_name r') ?all) ?nodes"
        using mine others [of r' a'] Some by (cases "r' = r") (simp, metis distinct.simps(2) list.map(2)
          list.set_map set_ConsD imageI)
    qed
  qed
qed

lemma assess_one_empty:
  assumes "assess_one lower tp health in_progress placement i = Some (i', nd, Empty, True)"
  obtains d n st where "i' = i" "i \<in> set (allowed placement)" "i \<notin> set in_progress"
    "topology_deployment tp i = Some d" "topology_node tp (dp_node d) = Some n" "nd = nd_id n"
    "nd_enabled n" "health nd = Some st" "ns_health st = Healthy" "served st = None"
proof -
  from assms obtain d n where dn: "topology_deployment tp i = Some d" "topology_node tp (dp_node d) = Some n"
    "i' = i" "nd = nd_id n" "i \<in> set (allowed placement)"
    and st: "state_of lower n d (case health (nd_id n) of None \<Rightarrow> default_status | Some st \<Rightarrow> st)
      (i \<in> set in_progress) = Empty"
    by (auto simp: assess_one_def split: option.splits)
  have known: "health (nd_id n) \<noteq> None" "i \<notin> set in_progress" "nd_enabled n"
    using st by (auto simp: state_of_def availability_def default_status_def
        split: option.splits deployment_health.splits if_splits node_health.splits)
  then obtain s where s: "health (nd_id n) = Some s" by auto
  with st have "ns_health s = Healthy" "served s = None"
    by (auto simp: state_of_def split: deployment_health.splits if_splits)
  with dn known s show thesis using that by auto
qed

lemma map_filter_set: "y \<in> set (List.map_filter f xs) \<longleftrightarrow> (\<exists>x \<in> set xs. f x = Some y)"
  by (auto simp: List.map_filter_def intro: rev_image_eqI)

lemma planned_action:
  assumes "x \<in> set (placement_plan lower tp health in_progress backing_off)"
  shows "\<exists>r p d n st. r \<in> set (routes tp) \<and> rt_placement r = Some p \<and> ac_route x = rt_name r \<and>
      ac_deployment x \<in> set (rt_deployments r) \<inter> set (allowed p) - set in_progress \<and>
      topology_deployment tp (ac_deployment x) = Some d \<and> ac_model x = dp_remote_model d \<and>
      topology_node tp (dp_node d) = Some n \<and> ac_node x = nd_id n \<and> nd_enabled n \<and>
      health (nd_id n) = Some st \<and> ns_health st = Healthy \<and> served st = None \<and>
      \<not> backing_off (ac_deployment x)"
proof -
  from assms obtain r a where r: "r \<in> set (routes tp)"
    "assess lower tp r health in_progress = Some a"
    "placed_from tp backing_off (rt_name r) (as_deployments a) x"
    using place_routes_spec [of lower tp health in_progress backing_off "routes tp"
        "initial_claims tp in_progress" "[]"]
    by (auto simp: placement_plan_def)
  from r(2) obtain p where p: "rt_placement r = Some p" "as_deployments a =
      List.map_filter (assess_one lower tp health in_progress p) (rt_deployments r)"
    by (auto simp: assess_def)
  from r(3) p(2) obtain i where i: "i \<in> set (rt_deployments r)"
    "assess_one lower tp health in_progress p i = Some (ac_deployment x, ac_node x, Empty, True)"
    by (auto simp: placed_from_def map_filter_set)
  from assess_one_empty [OF i(2)] obtain d n st where e: "ac_deployment x = i" "i \<in> set (allowed p)"
    "i \<notin> set in_progress" "topology_deployment tp i = Some d" "topology_node tp (dp_node d) = Some n"
    "ac_node x = nd_id n" "nd_enabled n" "health (ac_node x) = Some st" "ns_health st = Healthy"
    "served st = None" .
  from r(3) e have "ac_route x = rt_name r" "\<not> backing_off i" "ac_model x = dp_remote_model d"
    by (auto simp: placed_from_def)
  with e r(1) p(1) i(1) show ?thesis
    by (intro exI [of _ r] exI [of _ p] exI [of _ d] exI [of _ n] exI [of _ st]) simp
qed

text \<open>C19. Placement touches nothing it should not: every planned load is for a deployment its route allows,
  on an enabled node that was seen healthy and serving nothing, is not backing off, asks for the
  deployment's own model, and no node gets two loads or a load beside one in progress.\<close>

theorem placement_safe:
  "list_all (\<lambda>x. \<exists>r p d n st. r \<in> set (routes tp) \<and> rt_placement r = Some p \<and> ac_route x = rt_name r \<and>
      ac_deployment x \<in> set (rt_deployments r) \<inter> set (allowed p) - set in_progress \<and>
      topology_deployment tp (ac_deployment x) = Some d \<and> ac_model x = dp_remote_model d \<and>
      topology_node tp (dp_node d) = Some n \<and> ac_node x = nd_id n \<and> nd_enabled n \<and>
      health (nd_id n) = Some st \<and> ns_health st = Healthy \<and> served st = None \<and>
      \<not> backing_off (ac_deployment x))
     (placement_plan lower tp health in_progress backing_off) \<and>
   distinct (map ac_node (placement_plan lower tp health in_progress backing_off)) \<and>
   set (map ac_node (placement_plan lower tp health in_progress backing_off))
     \<inter> set (initial_claims tp in_progress) = {}"
proof -
  have "distinct (map ac_node (placement_plan lower tp health in_progress backing_off))"
    "set (map ac_node (placement_plan lower tp health in_progress backing_off))
       \<inter> set (initial_claims tp in_progress) = {}"
    using place_routes_spec [of lower tp health in_progress backing_off "routes tp"
        "initial_claims tp in_progress" "[]"]
    by (auto simp: placement_plan_def)
  then show ?thesis using planned_action by (simp only: list_all_iff) blast
qed

text \<open>C28. Placement reaches as far as it may: with distinct route names, a route is given at most as many loads
  as it is short of its target, and when it gets fewer, every allowed deployment on an empty node is
  backing off or its node is taken by another load.\<close>

theorem placement_fills_target:
  assumes "distinct (map rt_name (routes tp))" "r \<in> set (routes tp)"
    and "assess lower tp r health in_progress = Some a"
  shows "within_target tp backing_off a
    (filter (\<lambda>x. ac_route x = rt_name r) (placement_plan lower tp health in_progress backing_off))
    (ac_node ` set (placement_plan lower tp health in_progress backing_off)
       \<union> set (initial_claims tp in_progress))"
  using place_routes_spec [of lower tp health in_progress backing_off "routes tp"
      "initial_claims tp in_progress" "[]"] assms
  by (auto simp: placement_plan_def)

definition empty_status :: node_status where
  "empty_status = apply_outcome default_status
     (Success \<lparr>ob_served = None, ob_features = no_features, ob_max_concurrent_requests = 1,
               ob_version = []\<rparr>) 1 0"

definition warm_route :: route where
  "warm_route = \<lparr>rt_name = [9], rt_policy = Priority, rt_deployments = [[11], [12]],
     rt_description = None,
     rt_placement = Some \<lparr>min_ready = 1, warm_standby = 1, allowed = [[11], [12]]\<rparr>\<rparr>"

definition warm_topology :: topology where
  "warm_topology =
    \<lparr>nodes = [\<lparr>nd_id = [1], nd_base_url = [], nd_enabled = True, nd_auth = NoAuth\<rparr>,
              \<lparr>nd_id = [2], nd_base_url = [], nd_enabled = True, nd_auth = NoAuth\<rparr>],
     deployments = [\<lparr>dp_id = [11], dp_node = [1], dp_remote_model = [7]\<rparr>,
                    \<lparr>dp_id = [12], dp_node = [2], dp_remote_model = [7]\<rparr>],
     routes = [warm_route], default_index = None\<rparr>"

theorem placement_fills_target_witness:
  "\<exists>a. assess id warm_topology warm_route (\<lambda>i. Some empty_status) [[11]] = Some a \<and>
    within_target warm_topology (\<lambda>_. False) a
      (filter (\<lambda>x. ac_route x = rt_name warm_route)
        (placement_plan id warm_topology (\<lambda>i. Some empty_status) [[11]] (\<lambda>_. False)))
      (ac_node ` set (placement_plan id warm_topology (\<lambda>i. Some empty_status) [[11]] (\<lambda>_. False))
         \<union> set (initial_claims warm_topology [[11]])) \<and>
    map ac_deployment (placement_plan id warm_topology (\<lambda>i. Some empty_status) [[11]] (\<lambda>_. False)) = [[12]]"
proof -
  obtain a where a: "assess id warm_topology warm_route (\<lambda>i. Some empty_status) [[11]] = Some a"
    by (simp add: assess_def warm_route_def)
  have "distinct (map rt_name (routes warm_topology))" "warm_route \<in> set (routes warm_topology)"
    by (simp_all add: warm_topology_def)
  note placed = placement_fills_target [OF this a, of "\<lambda>_. False"]
  have "map ac_deployment (placement_plan id warm_topology (\<lambda>i. Some empty_status) [[11]] (\<lambda>_. False)) = [[12]]"
    by code_simp
  with a placed show ?thesis by (intro exI [of _ a] conjI)
qed

section \<open>Backing off\<close>

lemma backoff_after_nat:
  "backoff_after policy failures =
    min (min DURATION_MAX (pp_backoff policy * 2 ^ min (unat failures - 1) 20)) (pp_backoff_max policy)"
proof -
  let ?k = "min (sat_sub failures 1) 20 :: u32"
  have "unat ?k = min (unat failures - 1) 20"
    by (auto simp: min_def word_le_nat_alt unat_sat_sub)
  moreover have "unat (push_bit n 1 :: u32) = 2 ^ n" if "n \<le> 20" for n
  proof -
    have "(2 :: nat) ^ n \<le> 2 ^ 20" using that by (intro power_increasing) simp_all
    then have "(2 :: nat) ^ n < 2 ^ 32" by simp
    moreover have "(push_bit n 1 :: u32) = word_of_nat (2 ^ n)" by (simp add: push_bit_eq_mult)
    moreover have "unat (word_of_nat (2 ^ n) :: u32) = 2 ^ n mod 2 ^ 32"
      by (simp only: unat_of_nat take_bit_eq_mod) simp
    ultimately show ?thesis by simp
  qed
  ultimately show ?thesis by (simp add: backoff_after_def duration_saturating_mul_def Let_def)
qed

text \<open>A failed load waits longer each time, within bounds: the delay is the configured backoff doubled
  once for each earlier consecutive failure (at most twenty times), never more than the maximum; the
  deployment backs off until exactly that much later, a success clears the count and the wait, and no
  other deployment is affected.\<close>

theorem backoff_schedule:
  "fst (load_failed i last_act now pb) =
     min (min DURATION_MAX
            (pp_backoff (pb_policy pb) * 2 ^ min (unat (pr_failures (record_of i pb))) 20))
         (pp_backoff_max (pb_policy pb)) \<and>
   (backing_off_at t (snd (load_failed i last_act now pb)) j \<longleftrightarrow>
      (if j = i then t < now + fst (load_failed i last_act now pb) else backing_off_at t pb j)) \<and>
   unat (pr_failures (record_of i (snd (load_failed i last_act now pb)))) =
     min (2 ^ 32 - 1) (unat (pr_failures (record_of i pb)) + 1) \<and>
   pr_failures (record_of i (load_succeeded i last_act pb)) = 0 \<and>
   (backing_off_at t (load_succeeded i last_act pb) j \<longleftrightarrow> j \<noteq> i \<and> backing_off_at t pb j)"
proof -
  have "min (unat (sat_add k (1 :: u32)) - 1) 20 = min (unat k) 20" for k
    using unat_lt_two_power [of k] by (auto simp: unat_sat_add)
  then show ?thesis
    by (simp add: load_failed_def load_succeeded_def Let_def backoff_after_nat backing_off_at_def
        record_of_def unat_sat_add)
qed

end
