(* ===== verification/Sse_Framing.thy ===== *)
theory Sse_Framing
  imports Lw_Text
begin

text \<open>
  Where a frame of a server-sent event stream ends: \<open>find_frame_end\<close> of \<open>lightweight-core/src/sse.rs\<close> and
  \<open>frame_end\<close> of \<open>lightweight-router/src/sse.rs\<close>, the same search over characters and over bytes. The
  search is defined once over two symbols; the locale \<open>framing\<close> asks only that they differ, and both
  alphabets interpret it.
\<close>

definition terminators :: "'a \<Rightarrow> 'a \<Rightarrow> 'a list list" where
  "terminators cr lf = [[cr, lf, cr, lf], [lf, lf], [cr, cr], [lf, cr, lf]]"

text \<open>\<open>min_by_key\<close> on the position: the first of the least.\<close>

fun min_at :: "(nat \<times> nat) list \<Rightarrow> (nat \<times> nat) option" where
  "min_at [] = None"
| "min_at ((at, fin) # rest) =
    (case min_at rest of
       None \<Rightarrow> Some (at, fin)
     | Some (at', end') \<Rightarrow> if at \<le> at' then Some (at, fin) else Some (at', end'))"

definition search_frame :: "'a \<Rightarrow> 'a \<Rightarrow> 'a list \<Rightarrow> (nat \<times> nat) option" where
  "search_frame cr lf buffer =
    min_at (List.map_filter
      (\<lambda>t. map_option (\<lambda>at. (at, at + length t)) (find_sub t buffer)) (terminators cr lf))"

text \<open>The frames of a whole text, and what is left after the last terminator.\<close>

function frames_of :: "('a list \<Rightarrow> (nat \<times> nat) option) \<Rightarrow> 'a list \<Rightarrow> ('a list \<times> 'a list) list \<times> 'a list" where
  "frames_of search s =
    (case search s of
       None \<Rightarrow> ([], s)
     | Some (content, whole) \<Rightarrow>
         if 0 < whole \<and> whole \<le> length s
         then let (fs, rest) = frames_of search (drop whole s)
              in ((take content s, take whole s) # fs, rest)
         else ([], s))"
  by pat_completeness auto
termination
  by (relation "measure (\<lambda>(_, s). length s)") auto

declare frames_of.simps [simp del]

section \<open>A scan equivalent to the search\<close>

definition stands_at :: "'a \<Rightarrow> 'a \<Rightarrow> 'a list \<Rightarrow> nat option" where
  "stands_at cr lf s = map_option length (find (\<lambda>t. take (length t) s = t) (terminators cr lf))"

fun scan :: "'a \<Rightarrow> 'a \<Rightarrow> 'a list \<Rightarrow> (nat \<times> nat) option" where
  "scan cr lf [] = None"
| "scan cr lf (x # xs) =
    (case stands_at cr lf (x # xs) of
       Some n \<Rightarrow> Some (0, n)
     | None \<Rightarrow> map_option (\<lambda>(a, b). (Suc a, Suc b)) (scan cr lf xs))"

lemma find_sub_Nil_iff: "pat \<noteq> [] \<Longrightarrow> find_sub pat [] = None"
  by simp

lemma min_at_Suc:
  "min_at (map (\<lambda>(a, b). (Suc a, Suc b)) xs) = map_option (\<lambda>(a, b). (Suc a, Suc b)) (min_at xs)"
  by (induction xs rule: min_at.induct) (auto split: option.splits)

lemma map_filter_map_option:
  "List.map_filter (\<lambda>t. map_option g (f t)) ts = map g (List.map_filter f ts)"
  by (induction ts) (auto simp: List.map_filter_def)

lemma search_shift:
  assumes "\<forall>t \<in> set ts. take (length t) (x # xs) \<noteq> t"
  shows "min_at (List.map_filter (\<lambda>t. map_option (\<lambda>at. (at, at + length t)) (find_sub t (x # xs))) ts)
    = map_option (\<lambda>(a, b). (Suc a, Suc b))
        (min_at (List.map_filter (\<lambda>t. map_option (\<lambda>at. (at, at + length t)) (find_sub t xs)) ts))"
proof -
  have "List.map_filter (\<lambda>t. map_option (\<lambda>at. (at, at + length t)) (find_sub t (x # xs))) ts
      = List.map_filter (\<lambda>t. map_option (\<lambda>(a, b). (Suc a, Suc b))
          (map_option (\<lambda>at. (at, at + length t)) (find_sub t xs))) ts"
    using assms
    by (induction ts) (auto simp: List.map_filter_def option.map_comp comp_def)
  then show ?thesis by (simp only: map_filter_map_option min_at_Suc)
qed

lemma min_at_zero:
  "(0, n) \<in> set xs \<Longrightarrow> (\<forall>m. (0, m) \<in> set xs \<longrightarrow> m = n) \<Longrightarrow> min_at xs = Some (0, n)"
proof (induction xs)
  case (Cons p rest)
  obtain at fin where p: "p = (at, fin)" by fastforce
  show ?case
  proof (cases "(0, n) \<in> set rest")
    case True
    then have "min_at rest = Some (0, n)" by (rule Cons.IH) (use Cons.prems(2) in auto)
    moreover have "fin = n" if "at = 0" using Cons.prems(2) that unfolding p by auto
    ultimately show ?thesis unfolding p by (cases "at = 0") auto
  next
    case False
    with Cons.prems(1) have "at = 0" "fin = n" by (auto simp: p)
    then show ?thesis by (simp add: p split: option.splits)
  qed
qed simp

locale framing =
  fixes cr lf :: 'a
  assumes distinct_symbols: "cr \<noteq> lf"
begin

lemma one_stands:
  assumes "t \<in> set (terminators cr lf)" "take (length t) s = t"
    and "t' \<in> set (terminators cr lf)" "take (length t') s = t'"
  shows "t = t'"
  using assms distinct_symbols
  by (cases s; cases "tl s"; cases "tl (tl s)"; cases "tl (tl (tl s))")
    (auto simp: terminators_def)

lemma stands_at_Some:
  "stands_at cr lf s = Some n \<longleftrightarrow>
    (\<exists>t \<in> set (terminators cr lf). take (length t) s = t \<and> n = length t)"
proof
  assume "stands_at cr lf s = Some n"
  then show "\<exists>t \<in> set (terminators cr lf). take (length t) s = t \<and> n = length t"
    by (auto simp: stands_at_def find_Some_iff)
next
  assume "\<exists>t \<in> set (terminators cr lf). take (length t) s = t \<and> n = length t"
  then obtain t where t: "t \<in> set (terminators cr lf)" "take (length t) s = t" "n = length t" by blast
  then obtain t' where t': "find (\<lambda>t. take (length t) s = t) (terminators cr lf) = Some t'"
    by (metis (mono_tags, lifting) find_None_iff not_None_eq)
  then have "t' \<in> set (terminators cr lf)" "take (length t') s = t'"
    by (auto simp: find_Some_iff)
  with one_stands t t' show "stands_at cr lf s = Some n" by (auto simp: stands_at_def)
qed

lemma search_frame_scan: "search_frame cr lf s = scan cr lf s"
proof (induction s)
  case Nil
  show ?case by (simp add: search_frame_def terminators_def List.map_filter_def)
next
  case (Cons x xs)
  show ?case
  proof (cases "stands_at cr lf (x # xs)")
    case None
    then have "\<forall>t \<in> set (terminators cr lf). take (length t) (x # xs) \<noteq> t"
      by (auto simp: stands_at_def find_None_iff)
    from search_shift [OF this] Cons None show ?thesis by (simp add: search_frame_def)
  next
    case (Some n)
    then obtain t where t: "t \<in> set (terminators cr lf)" "take (length t) (x # xs) = t" "n = length t"
      using stands_at_Some by blast
    let ?found = "List.map_filter
      (\<lambda>t. map_option (\<lambda>at. (at, at + length t)) (find_sub t (x # xs))) (terminators cr lf)"
    have "(0, n) \<in> set ?found"
      using t by (auto simp: List.map_filter_def intro!: rev_image_eqI [of t])
    moreover have "m = n" if found: "(0, m) \<in> set ?found" for m
    proof -
      from found obtain u where u: "u \<in> set (terminators cr lf)" "take (length u) (x # xs) = u" "m = length u"
        by (auto simp: List.map_filter_def split: if_splits)
      with t one_stands [OF t(1,2) u(1,2)] show ?thesis by simp
    qed
    ultimately have "min_at ?found = Some (0, n)" by (intro min_at_zero) blast+
    with Some show ?thesis by (simp add: search_frame_def)
  qed
qed

lemma terminator_cases:
  "t \<in> set (terminators cr lf) \<longleftrightarrow> t = [cr, lf, cr, lf] \<or> t = [lf, lf] \<or> t = [cr, cr] \<or> t = [lf, cr, lf]"
  by (auto simp: terminators_def)

lemma scan_bounds: "scan cr lf s = Some (a, b) \<Longrightarrow> a < b \<and> b \<le> length s"
proof (induction s arbitrary: a b)
  case (Cons x xs)
  show ?case
  proof (cases "stands_at cr lf (x # xs)")
    case None
    with Cons show ?thesis by auto
  next
    case (Some n)
    then obtain t where t: "t \<in> set (terminators cr lf)" "take (length t) (x # xs) = t" "n = length t"
      using stands_at_Some by blast
    then have "length t \<le> length (x # xs)" by (metis length_take min.absorb_iff2 linear min.absorb1)
    moreover have "t \<noteq> []" using t(1) by (auto simp: terminator_cases)
    ultimately show ?thesis using Some Cons.prems t(3) by auto
  qed
qed simp

text \<open>A terminator that is not complete yet cannot swallow one that is: no terminator stands strictly
  inside another one.\<close>

lemma scan_append: "scan cr lf s = Some (a, b) \<Longrightarrow> scan cr lf (s @ more) = Some (a, b)"
proof (induction s arbitrary: a b)
  case (Cons x xs)
  show ?case
  proof (cases "stands_at cr lf (x # xs)")
    case (Some n)
    then obtain t where t: "t \<in> set (terminators cr lf)" "take (length t) (x # xs) = t" "n = length t"
      using stands_at_Some by blast
    then have "length t \<le> length (x # xs)" by (metis length_take min.absorb_iff2 linear min.absorb1)
    then have "take (length t) ((x # xs) @ more) = t"
      using t(2) by (simp only: take_append) simp
    then have "stands_at cr lf ((x # xs) @ more) = Some n" using t stands_at_Some by blast
    with Some Cons.prems show ?thesis by simp
  next
    case None
    then obtain a' b' where ab: "scan cr lf xs = Some (a', b')" "a = Suc a'" "b = Suc b'"
      using Cons.prems by auto
    have "stands_at cr lf ((x # xs) @ more) = None"
    proof (rule ccontr)
      assume "stands_at cr lf ((x # xs) @ more) \<noteq> None"
      then obtain t where t: "t \<in> set (terminators cr lf)" "take (length t) (x # xs @ more) = t"
        using stands_at_Some by (metis append_Cons not_None_eq)
      have long: "length (x # xs) < length t"
        using t None stands_at_Some [of "x # xs"]
        by (metis append_Cons linorder_not_less option.distinct(1) take_append take_all_iff append_Nil2
            diff_is_0_eq take0)
      with t have xs: "x # xs = take (length (x # xs)) t"
        by (metis append_Cons append_eq_conv_conj less_imp_le min.absorb1 take_take)
      have "xs = [] \<or> xs = [lf] \<or> xs = [cr] \<or> xs = [lf, cr]"
        using long t(1) xs
        by (cases xs; cases "tl xs"; cases "tl (tl xs)") (auto simp: terminator_cases)
      with ab(1) distinct_symbols show False by (auto simp: stands_at_def terminators_def)
    qed
    with ab Cons.IH show ?thesis by simp
  qed
qed simp

text \<open>Framing does not depend on where a stream is cut: the frames of a longer text are those of its
  beginning, followed by those of what was left and the rest.\<close>

lemma frames_append:
  "frames_of (search_frame cr lf) (s @ more) =
    (let (fs, rest) = frames_of (search_frame cr lf) s;
         (fs', rest') = frames_of (search_frame cr lf) (rest @ more)
     in (fs @ fs', rest'))"
proof (induction s rule: measure_induct_rule [of length])
  case (less s)
  show ?case
  proof (cases "scan cr lf s")
    case None
    then have "frames_of (search_frame cr lf) s = ([], s)"
      by (simp add: frames_of.simps [of _ s] search_frame_scan)
    then show ?thesis by (simp add: case_prod_unfold)
  next
    case (Some p)
    then obtain a b where ab: "scan cr lf s = Some (a, b)" by (metis surj_pair)
    note bounds = scan_bounds [OF ab]
    have shorter: "length (drop b s) < length s" using bounds unfolding length_drop by linarith
    let ?frames = "frames_of (search_frame cr lf)"
    have here: "?frames s = (let (fs, rest) = ?frames (drop b s) in ((take a s, take b s) # fs, rest))"
      using ab bounds by (simp add: frames_of.simps [of _ s] search_frame_scan)
    have "?frames (s @ more) = (let (fs, rest) = ?frames (drop b s @ more) in ((take a s, take b s) # fs, rest))"
      using scan_append [OF ab, of more] bounds
      by (subst frames_of.simps) (simp add: search_frame_scan Let_def)
    also have "\<dots> = (let (fs, rest) = ?frames s; (fs', rest') = ?frames (rest @ more) in (fs @ fs', rest'))"
      using less [OF shorter] by (simp add: here case_prod_unfold Let_def)
    finally show ?thesis .
  qed
qed

lemma frames_rest: "search_frame cr lf (snd (frames_of (search_frame cr lf) s)) = None"
proof (induction s rule: measure_induct_rule [of length])
  case (less s)
  show ?case
  proof (cases "scan cr lf s")
    case None
    then show ?thesis by (simp add: frames_of.simps [of _ s] search_frame_scan)
  next
    case (Some p)
    then obtain a b where ab: "scan cr lf s = Some (a, b)" by (metis surj_pair)
    note bounds = scan_bounds [OF ab]
    have shorter: "length (drop b s) < length s" using bounds unfolding length_drop by linarith
    from ab bounds less [OF shorter] show ?thesis
      by (simp add: frames_of.simps [of _ s] search_frame_scan case_prod_unfold Let_def)
  qed
qed

end

section \<open>The two alphabets\<close>

definition find_frame_end :: "ustr \<Rightarrow> (nat \<times> nat) option" where
  "find_frame_end = search_frame 13 10"

definition frame_end :: "u8 list \<Rightarrow> (nat \<times> nat) option" where
  "frame_end = search_frame 13 10"

interpretation text_frames: framing "13 :: nat" "10 :: nat"
  by unfold_locales simp

interpretation byte_frames: framing "13 :: u8" "10 :: u8"
  by unfold_locales simp

end
