(* ===== verification/Sse.thy ===== *)
theory Sse
  imports Sse_Framing
begin

text \<open>
  Server-sent events of \<open>lightweight-core/src/sse.rs\<close>: the incremental decoder that the engine's stream
  goes through (its buffer, its queue of decoded events, the limit on a frame, the poisoned flag), the
  parser of one frame, and the encoders of data, comment and terminal frames.
\<close>

section \<open>Events and frames\<close>

record sse_event =
  ev_event :: "ustr option"
  ev_data :: ustr
  ev_id :: "ustr option"

definition event_data :: "ustr \<Rightarrow> sse_event" where
  "event_data payload = \<lparr>ev_event = None, ev_data = payload, ev_id = None\<rparr>"

definition done_data :: ustr where
  "done_data = ascii ''[DONE]''"

definition is_done :: "sse_event \<Rightarrow> bool" where
  "is_done e \<longleftrightarrow> trim (ev_data e) = done_data"

datatype sse_error = FrameTooLarge nat

definition parse_line :: "ustr \<Rightarrow> sse_event \<times> bool \<Rightarrow> sse_event \<times> bool" where
  "parse_line line = (\<lambda>(event, has_data).
    if strip_prefix (ascii '':'') line \<noteq> None then (event, has_data)
    else
      let (field, value) =
        (case split_once 58 line of
           Some (field, value) \<Rightarrow>
             (field, case strip_prefix (ascii '' '') value of Some v \<Rightarrow> v | None \<Rightarrow> value)
         | None \<Rightarrow> (line, []))
      in if field = ascii ''data''
         then (event\<lparr>ev_data := (if has_data then ev_data event @ [10] else ev_data event) @ value\<rparr>, True)
         else if field = ascii ''event'' then (event\<lparr>ev_event := Some value\<rparr>, has_data)
         else if field = ascii ''id'' then (event\<lparr>ev_id := Some value\<rparr>, has_data)
         else (event, has_data))"

definition parse_frame :: "ustr \<Rightarrow> sse_event option" where
  "parse_frame frame =
    (let lines = filter (\<lambda>line. line \<noteq> []) (split_on (\<lambda>c. c = 10 \<or> c = 13) frame);
         (event, has_data) = fold parse_line lines (event_data [], False)
     in if has_data then Some event else None)"

section \<open>The decoder\<close>

record sse_decoder =
  sd_buffer :: ustr
  sd_ready :: "sse_event list"
  sd_limit :: nat
  sd_poisoned :: bool

definition default_frame_limit :: nat where
  "default_frame_limit = 8 * 1024 * 1024"

definition with_limit :: "nat \<Rightarrow> sse_decoder" where
  "with_limit limit = \<lparr>sd_buffer = [], sd_ready = [], sd_limit = limit, sd_poisoned = False\<rparr>"

definition new_decoder :: sse_decoder where
  "new_decoder = with_limit default_frame_limit"

text \<open>The length of a string is the number of its UTF-8 bytes.\<close>

definition text_bytes :: "ustr \<Rightarrow> nat" where
  "text_bytes s = sum_list (map utf8_width s)"

lemma find_frame_end_scan: "find_frame_end = scan 13 10"
  by (rule ext) (simp add: find_frame_end_def text_frames.search_frame_scan)

lemma find_frame_end_bounds: "find_frame_end s = Some (a, b) \<Longrightarrow> a < b \<and> b \<le> length s"
  using text_frames.scan_bounds by (simp add: find_frame_end_scan)

function extract_frames :: "sse_decoder \<Rightarrow> (sse_error + unit) \<times> sse_decoder" where
  "extract_frames d =
    (case find_frame_end (sd_buffer d) of
       None \<Rightarrow>
         if sd_limit d < text_bytes (sd_buffer d)
         then (Inl (FrameTooLarge (sd_limit d)), d\<lparr>sd_poisoned := True, sd_buffer := []\<rparr>)
         else (Inr (), d)
     | Some (content_bytes, frame_bytes) \<Rightarrow>
         let frame = take content_bytes (sd_buffer d);
             d = d\<lparr>sd_buffer := drop frame_bytes (sd_buffer d)\<rparr>
         in extract_frames (case parse_frame frame of
                       Some event \<Rightarrow> d\<lparr>sd_ready := sd_ready d @ [event]\<rparr>
                     | None \<Rightarrow> d))"
  by pat_completeness auto
termination
proof (relation "measure (\<lambda>d. length (sd_buffer d))", simp)
  fix d p content_bytes frame_bytes x xa
  assume "find_frame_end (sd_buffer d) = Some p" "(content_bytes, frame_bytes) = p"
    "x = take content_bytes (sd_buffer d)"
    "xa = d\<lparr>sd_buffer := drop frame_bytes (sd_buffer d)\<rparr>"
  moreover from this have "content_bytes < frame_bytes \<and> frame_bytes \<le> length (sd_buffer d)"
    using find_frame_end_bounds by metis
  ultimately show "((case parse_frame x of None \<Rightarrow> xa | Some event \<Rightarrow> xa\<lparr>sd_ready := sd_ready xa @ [event]\<rparr>), d)
    \<in> measure (\<lambda>d. length (sd_buffer d))"
    by (auto split: option.splits)
qed

declare extract_frames.simps [simp del]

definition feed :: "u8 list \<Rightarrow> sse_decoder \<Rightarrow> (sse_error + unit) \<times> sse_decoder" where
  "feed chunk d =
    (if sd_poisoned d then (Inl (FrameTooLarge (sd_limit d)), d)
     else extract_frames (d\<lparr>sd_buffer := sd_buffer d @ utf8_lossy chunk\<rparr>))"

definition next_event :: "sse_decoder \<Rightarrow> sse_event option \<times> sse_decoder" where
  "next_event d =
    (case sd_ready d of [] \<Rightarrow> (None, d) | e # es \<Rightarrow> (Some e, d\<lparr>sd_ready := es\<rparr>))"

definition drain_events :: "sse_decoder \<Rightarrow> sse_event list \<times> sse_decoder" where
  "drain_events d = (sd_ready d, d\<lparr>sd_ready := []\<rparr>)"

definition has_pending :: "sse_decoder \<Rightarrow> bool" where
  "has_pending d \<longleftrightarrow> sd_buffer d \<noteq> []"

section \<open>The encoders\<close>

definition trim_end_cr :: "ustr \<Rightarrow> ustr" where
  "trim_end_cr s = rev (dropWhile (\<lambda>c. c = 13) (rev s))"

definition encode_data :: "ustr \<Rightarrow> ustr" where
  "encode_data payload =
    concat (map (\<lambda>line. ascii ''data: '' @ trim_end_cr line @ [10]) (split_on (\<lambda>c. c = 10) payload)) @ [10]"

definition encode_comment :: "ustr \<Rightarrow> ustr" where
  "encode_comment comment =
    concat (map (\<lambda>line. ascii '': '' @ trim_end_cr line @ [10]) (split_on (\<lambda>c. c = 10) comment)) @ [10]"

definition encode_done :: ustr where
  "encode_done = encode_data done_data"

section \<open>What the decoder has to compute\<close>

text \<open>The specification knows no chunks and no buffer: the events of a whole text are those of its frames.\<close>

definition events_of :: "ustr \<Rightarrow> sse_event list" where
  "events_of s = List.map_filter (\<lambda>(content, _). parse_frame content) (fst (frames_of find_frame_end s))"

definition rest_of :: "ustr \<Rightarrow> ustr" where
  "rest_of s = snd (frames_of find_frame_end s)"

primrec feed_all :: "u8 list list \<Rightarrow> sse_decoder \<Rightarrow> (sse_error + unit) \<times> sse_decoder" where
  "feed_all [] d = (Inr (), d)"
| "feed_all (chunk # chunks) d =
    (case feed chunk d of (Inl e, d) \<Rightarrow> (Inl e, d) | (Inr _, d) \<Rightarrow> feed_all chunks d)"

lemma frames_step:
  "find_frame_end s = None \<Longrightarrow> events_of s = [] \<and> rest_of s = s"
  "find_frame_end s = Some (a, b) \<Longrightarrow>
     events_of s = (case parse_frame (take a s) of None \<Rightarrow> [] | Some e \<Rightarrow> [e]) @ events_of (drop b s)
     \<and> rest_of s = rest_of (drop b s)"
  using find_frame_end_bounds [of s a b]
  by (auto simp: events_of_def rest_of_def frames_of.simps [of _ s] case_prod_unfold Let_def
      List.map_filter_def split: option.splits)

lemma extract_frames_spec:
  "extract_frames d =
    (if sd_limit d < text_bytes (rest_of (sd_buffer d))
     then (Inl (FrameTooLarge (sd_limit d)),
           d\<lparr>sd_ready := sd_ready d @ events_of (sd_buffer d), sd_poisoned := True, sd_buffer := []\<rparr>)
     else (Inr (), d\<lparr>sd_ready := sd_ready d @ events_of (sd_buffer d),
                     sd_buffer := rest_of (sd_buffer d)\<rparr>))"
proof (induction d rule: extract_frames.induct)
  case (1 d)
  show ?case
  proof (cases "find_frame_end (sd_buffer d)")
    case None
    from frames_step(1) [OF None] show ?thesis by (simp add: extract_frames.simps [of d] None)
  next
    case (Some p)
    then obtain a b where ab: "find_frame_end (sd_buffer d) = Some (a, b)" by (metis surj_pair)
    from frames_step(2) [OF ab] 1 [OF ab refl refl refl] show ?thesis
      by (subst extract_frames.simps) (auto simp: ab Let_def split: option.splits)
  qed
qed

lemma find_frame_end_rest [simp]: "find_frame_end (rest_of s) = None"
  using text_frames.frames_rest by (simp add: rest_of_def find_frame_end_def)

lemma events_append: "events_of (s @ t) = events_of s @ events_of (rest_of s @ t)"
  and rest_append: "rest_of (s @ t) = rest_of (rest_of s @ t)"
  using text_frames.frames_append [of s t]
  by (simp_all add: events_of_def rest_of_def find_frame_end_def case_prod_unfold Let_def List.map_filter_def)


section \<open>The decoder computes it\<close>

lemma feed_text:
  assumes "list_all is_scalar t" "\<not> sd_poisoned d" "sd_buffer d = rest_of s"
  shows "feed (utf8_encode t) d =
    (if sd_limit d < text_bytes (rest_of (s @ t))
     then (Inl (FrameTooLarge (sd_limit d)),
           d\<lparr>sd_ready := sd_ready d @ events_of (rest_of s @ t), sd_poisoned := True, sd_buffer := []\<rparr>)
     else (Inr (), d\<lparr>sd_ready := sd_ready d @ events_of (rest_of s @ t), sd_buffer := rest_of (s @ t)\<rparr>))"
proof -
  have "utf8_lossy (utf8_encode t) = t"
    using utf8_lossy_encoded [of t "[]"] assms(1) by (simp add: utf8_lossy.simps)
  then show ?thesis
    using assms by (simp add: feed_def extract_frames_spec rest_append [of s t])
qed

lemma feed_poisoned: "sd_poisoned d \<Longrightarrow> feed chunk d = (Inl (FrameTooLarge (sd_limit d)), d)"
  by (simp add: feed_def)

lemma feed_all_from:
  assumes "list_all (list_all is_scalar) texts" "\<not> sd_poisoned d" "sd_buffer d = rest_of s"
  shows "if \<exists>n \<in> {1..length texts}. sd_limit d < text_bytes (rest_of (s @ concat (take n texts)))
    then fst (feed_all (map utf8_encode texts) d) = Inl (FrameTooLarge (sd_limit d))
    else feed_all (map utf8_encode texts) d =
      (Inr (), d\<lparr>sd_ready := sd_ready d @ events_of (rest_of s @ concat texts),
                sd_buffer := rest_of (s @ concat texts)\<rparr>)"
  using assms
proof (induction texts arbitrary: d s)
  case Nil
  then show ?case using frames_step(1) [OF find_frame_end_rest, of s] by simp
next
  case (Cons t texts)
  have prefixes: "(\<exists>n \<in> {1..length (t # texts)}. P (concat (take n (t # texts)))) \<longleftrightarrow>
      P t \<or> (\<exists>n \<in> {1..length texts}. P (t @ concat (take n texts)))" for P
  proof -
    have "{1..length (t # texts)} = insert 1 (Suc ` {1..length texts})"
      by (auto simp: image_Suc_atLeastAtMost)
    then show ?thesis by (simp del: image_Suc_atLeastAtMost)
  qed
  note fed = feed_text [of t d s]
  show ?case
  proof (cases "sd_limit d < text_bytes (rest_of (s @ t))")
    case True
    with Cons.prems fed show ?thesis
      unfolding prefixes [of "\<lambda>u. sd_limit d < text_bytes (rest_of (s @ u))"] by simp
  next
    case False
    define d' where "d' = d\<lparr>sd_ready := sd_ready d @ events_of (rest_of s @ t), sd_buffer := rest_of (s @ t)\<rparr>"
    have step: "feed (utf8_encode t) d = (Inr (), d')" using Cons.prems False fed by (simp add: d'_def)
    have events: "events_of (rest_of s @ t) @ events_of (rest_of (s @ t) @ concat texts)
        = events_of (rest_of s @ t @ concat texts)"
      using events_append [of "rest_of s @ t" "concat texts"] rest_append [of s t] by simp
    show ?thesis
      using Cons.IH [of d' "s @ t"] Cons.prems False step events
      unfolding prefixes [of "\<lambda>u. sd_limit d < text_bytes (rest_of (s @ u))"]
      by (cases "\<exists>n \<in> {1..length texts}. sd_limit d < text_bytes (rest_of (s @ t @ concat (take n texts)))")
        (simp_all add: d'_def)
  qed
qed

text \<open>The decoder refines the whole-text specification whatever the chunks are. A stream of UTF-8 text
  cut between characters into any chunks is decoded to exactly the events of the frames of the joined
  text, in order, and the buffer holds exactly what follows the last terminator; the decoder fails just
  when, after some chunk, that unfinished rest is longer than the limit.\<close>

theorem decoder_refines_text:
  assumes "list_all (list_all is_scalar) texts"
  shows "if \<exists>n \<in> {1..length texts}. limit < text_bytes (rest_of (concat (take n texts)))
    then fst (feed_all (map utf8_encode texts) (with_limit limit)) = Inl (FrameTooLarge limit)
    else feed_all (map utf8_encode texts) (with_limit limit) =
      (Inr (), \<lparr>sd_buffer = rest_of (concat texts), sd_ready = events_of (concat texts),
                sd_limit = limit, sd_poisoned = False\<rparr>)"
proof -
  have "rest_of [] = []" using frames_step(1) [of "[]"] by (simp add: find_frame_end_scan)
  with feed_all_from [OF assms, of "with_limit limit" "[]"] show ?thesis
    by (cases "\<exists>n \<in> {1..length texts}. limit < text_bytes (rest_of (concat (take n texts)))")
      (simp_all add: with_limit_def)
qed

theorem decoder_refines_text_witness:
  "let texts = [ascii ''data: a'', [10], [10] @ ascii ''da''] in
    feed_all (map utf8_encode texts) (with_limit 64) =
      (Inr (), \<lparr>sd_buffer = ascii ''da'', sd_ready = [event_data (ascii ''a'')],
                sd_limit = 64, sd_poisoned = False\<rparr>)"
proof -
  let ?texts = "[ascii ''data: a'', [10], [10] @ ascii ''da'']"
  have scalars: "list_all (list_all is_scalar) ?texts" by code_simp
  have fits: "\<not> (\<exists>n \<in> {1..length ?texts}. 64 < text_bytes (rest_of (concat (take n ?texts))))"
  proof -
    have "{1..length ?texts} = {1, 2, 3}" by auto
    moreover have "text_bytes (rest_of (concat (take 1 ?texts))) = 7"
      "text_bytes (rest_of (concat (take 2 ?texts))) = 8" "text_bytes (rest_of (concat (take 3 ?texts))) = 2"
      by code_simp+
    ultimately show ?thesis by simp
  qed
  have "rest_of (concat ?texts) = ascii ''da''" "events_of (concat ?texts) = [event_data (ascii ''a'')]"
    by code_simp+
  with decoder_refines_text [OF scalars, of 64] fits show ?thesis by (simp add: Let_def)
qed


section \<open>Round trip\<close>

text \<open>A written frame is its lines joined by line feeds, then a blank line.\<close>

lemma concat_lines:
  "ls \<noteq> [] \<Longrightarrow> concat (map (\<lambda>l. p @ l @ [c]) ls) @ [c] = join c (map (\<lambda>l. p @ l) ls) @ [c, c]"
  by (induction ls rule: join.induct) auto

lemma scan_skip:
  fixes l r :: ustr
  assumes "13 \<notin> set l" "10 \<notin> set l"
  shows "scan 13 10 (l @ r) = map_option (\<lambda>(a, b). (length l + a, length l + b)) (scan 13 10 r)"
  using assms
proof (induction l)
  case Nil
  show ?case by (simp add: option.map_ident case_prod_unfold)
next
  case (Cons c l)
  then have "stands_at 13 10 (c # l @ r) = None"
    by (auto simp: stands_at_def find_None_iff text_frames.terminator_cases)
  with Cons show ?case by (auto simp: option.map_comp comp_def case_prod_unfold)
qed

lemma scan_lines:
  fixes ls :: "ustr list"
  assumes "ls \<noteq> []" "\<forall>l \<in> set ls. l \<noteq> [] \<and> 13 \<notin> set l \<and> 10 \<notin> set l"
  shows "scan 13 10 (join 10 ls @ [10, 10] @ r) = Some (length (join 10 ls), length (join 10 ls) + 2)"
  using assms
proof (induction "10 :: nat" ls rule: join.induct)
  case (2 l)
  then show ?case by (simp add: scan_skip stands_at_def terminators_def)
next
  case (3 l m ls)
  then obtain c m' where m: "m = c # m'" "c \<noteq> 13" "c \<noteq> 10" by (cases m) auto
  then obtain t where t: "join 10 (m # ls) = c # t" by (cases ls) auto
  have "stands_at 13 10 (10 # join 10 (m # ls) @ [10, 10] @ r) = None"
    using m t by (simp add: stands_at_def terminators_def)
  moreover have "scan 13 10 (join 10 (m # ls) @ [10, 10] @ r)
      = Some (length (join 10 (m # ls)), length (join 10 (m # ls)) + 2)"
    using 3 by simp
  ultimately show ?case using 3 scan_skip [of l "10 # join 10 (m # ls) @ [10, 10] @ r"] by simp
qed simp

lemma split_on_join:
  assumes "ls \<noteq> []" "\<forall>l \<in> set ls. \<forall>x \<in> set l. \<not> sep x" "sep c"
  shows "split_on sep (join c ls) = ls"
  using assms
  by (induction c ls rule: join.induct) (auto simp: split_on_none split_on_append_sep)

lemma frame_of_lines:
  assumes "ls \<noteq> []" "\<forall>l \<in> set ls. l \<noteq> [] \<and> 13 \<notin> set l \<and> 10 \<notin> set l"
  shows "events_of (join 10 ls @ [10, 10] @ r) =
      (case parse_frame (join 10 ls) of None \<Rightarrow> [] | Some e \<Rightarrow> [e]) @ events_of r"
    and "rest_of (join 10 ls @ [10, 10] @ r) = rest_of r"
    and "parse_frame (join 10 ls) =
      (let (event, has_data) = fold parse_line ls (event_data [], False) in if has_data then Some event else None)"
proof -
  have "find_frame_end (join 10 ls @ [10, 10] @ r) = Some (length (join 10 ls), length (join 10 ls) + 2)"
    using scan_lines [OF assms] by (simp add: find_frame_end_scan)
  from frames_step(2) [OF this]
  show "events_of (join 10 ls @ [10, 10] @ r) =
      (case parse_frame (join 10 ls) of None \<Rightarrow> [] | Some e \<Rightarrow> [e]) @ events_of r"
    and "rest_of (join 10 ls @ [10, 10] @ r) = rest_of r"
    by simp_all
  have "split_on (\<lambda>c. c = 10 \<or> c = 13) (join 10 ls) = ls"
    using assms by (intro split_on_join) auto
  moreover have "filter (\<lambda>line. line \<noteq> []) ls = ls" using assms(2) by (simp add: filter_id_conv)
  ultimately show "parse_frame (join 10 ls) =
      (let (event, has_data) = fold parse_line ls (event_data [], False) in if has_data then Some event else None)"
    by (simp add: parse_frame_def)
qed

lemma parse_data_line:
  "parse_line (ascii ''data: '' @ value) (event, has_data) =
    (event\<lparr>ev_data := (if has_data then ev_data event @ [10] else ev_data event) @ value\<rparr>, True)"
  by (simp add: parse_line_def ascii_def strip_prefix_def)

lemma parse_comment_line: "parse_line (ascii '': '' @ value) st = st"
  by (simp add: parse_line_def ascii_def strip_prefix_def split: prod.splits)

lemma fold_data_lines:
  "fold parse_line (map (\<lambda>l. ascii ''data: '' @ l) ls) (event_data d, True) =
    (event_data (join 10 (d # ls)), True)"
proof (induction ls arbitrary: d)
  case (Cons l ls)
  then have "fold parse_line (map (\<lambda>l. ascii ''data: '' @ l) (l # ls)) (event_data d, True)
      = (event_data (join 10 ((d @ [10] @ l) # ls)), True)"
    by (simp add: parse_data_line event_data_def)
  then show ?case by (cases ls) simp_all
qed simp

lemma trim_end_cr_free: "13 \<notin> set l \<Longrightarrow> trim_end_cr l = l"
  by (cases "rev l") (auto simp: trim_end_cr_def)

lemma written_lines:
  assumes "\<forall>l \<in> set ls. 13 \<notin> set l" "ls \<noteq> []"
  shows "concat (map (\<lambda>l. p @ trim_end_cr l @ [10]) ls) @ [10] = join 10 (map (\<lambda>l. p @ l) ls) @ [10, 10]"
proof -
  have "map (\<lambda>l. p @ trim_end_cr l @ [10]) ls = map (\<lambda>l. p @ l @ [10]) ls"
    using assms(1) by (simp add: trim_end_cr_free)
  then show ?thesis by (simp only: concat_lines [OF assms(2)])
qed

lemma lines_free:
  assumes "13 \<notin> set payload"
  shows "\<forall>l \<in> set (split_on (\<lambda>c. c = 10) payload). 13 \<notin> set l"
    and "\<forall>l \<in> set (split_on (\<lambda>c. c = 10) payload). 13 \<notin> set l \<and> 10 \<notin> set l"
  using split_on_subset split_on_free assms by fast+

lemma encoded_lines:
  assumes "13 \<notin> set payload"
  shows "encode_data payload =
      join 10 (map (\<lambda>l. ascii ''data: '' @ l) (split_on (\<lambda>c. c = 10) payload)) @ [10, 10]"
    and "encode_comment payload =
      join 10 (map (\<lambda>l. ascii '': '' @ l) (split_on (\<lambda>c. c = 10) payload)) @ [10, 10]"
  unfolding encode_data_def encode_comment_def
  by (rule written_lines [OF lines_free(1) [OF assms] split_on_not_Nil])+

lemma data_frame:
  assumes "13 \<notin> set payload"
  shows "events_of (encode_data payload @ r) = event_data payload # events_of r"
    and "rest_of (encode_data payload @ r) = rest_of r"
proof -
  let ?ls = "split_on (\<lambda>c. c = 10) payload"
  let ?ls' = "map (\<lambda>l. ascii ''data: '' @ l) ?ls"
  note lines = encoded_lines [OF assms]
  have ok: "?ls' \<noteq> []" "\<forall>l \<in> set ?ls'. l \<noteq> [] \<and> 13 \<notin> set l \<and> 10 \<notin> set l"
    using lines_free(2) [OF assms] by (auto simp: ascii_def)
  obtain l ls where ls: "?ls = l # ls" by (metis list.exhaust split_on_not_Nil)
  have "fold parse_line ?ls' (event_data [], False) = (event_data (join 10 ?ls), True)"
    using fold_data_lines [of ls l] by (simp add: ls parse_data_line) (simp add: event_data_def)
  then have "parse_frame (join 10 ?ls') = Some (event_data payload)"
    by (simp add: frame_of_lines(3) [OF ok] join_split_on)
  with frame_of_lines(1,2) [OF ok, of r] lines(1)
  show "events_of (encode_data payload @ r) = event_data payload # events_of r"
    and "rest_of (encode_data payload @ r) = rest_of r"
    by simp_all
qed

lemma comment_frame:
  assumes "13 \<notin> set comment"
  shows "events_of (encode_comment comment @ r) = events_of r"
    and "rest_of (encode_comment comment @ r) = rest_of r"
proof -
  let ?ls' = "map (\<lambda>l. ascii '': '' @ l) (split_on (\<lambda>c. c = 10) comment)"
  note lines = encoded_lines [OF assms]
  have ok: "?ls' \<noteq> []" "\<forall>l \<in> set ?ls'. l \<noteq> [] \<and> 13 \<notin> set l \<and> 10 \<notin> set l"
    using lines_free(2) [OF assms] by (auto simp: ascii_def)
  have "fold parse_line (map (\<lambda>l. ascii '': '' @ l) ls) st = st" for ls st
    by (induction ls) (simp_all add: parse_comment_line)
  then have "parse_frame (join 10 ?ls') = None"
    by (simp add: frame_of_lines(3) [OF ok])
  with frame_of_lines(1,2) [OF ok, of r] lines(2)
  show "events_of (encode_comment comment @ r) = events_of r"
    and "rest_of (encode_comment comment @ r) = rest_of r"
    by simp_all
qed


text \<open>What a sender writes: comments on the left, payloads on the right.\<close>

definition encode_item :: "ustr + ustr \<Rightarrow> ustr" where
  "encode_item item = (case item of Inl comment \<Rightarrow> encode_comment comment | Inr payload \<Rightarrow> encode_data payload)"

definition payloads :: "(ustr + ustr) list \<Rightarrow> ustr list" where
  "payloads items = List.map_filter (\<lambda>item. case item of Inl _ \<Rightarrow> None | Inr payload \<Rightarrow> Some payload) items"

definition item_text :: "ustr + ustr \<Rightarrow> ustr" where
  "item_text item = (case item of Inl s \<Rightarrow> s | Inr s \<Rightarrow> s)"

lemma stream_of_items:
  assumes "\<forall>item \<in> set items. 13 \<notin> set (item_text item)"
  shows "events_of (concat (map encode_item items)) = map event_data (payloads items)"
    and "rest_of (concat (map encode_item items)) = []"
proof -
  have nil: "events_of [] = []" "rest_of [] = []"
    using frames_step(1) [of "[]"] by (simp_all add: find_frame_end_scan)
  have "events_of (concat (map encode_item items)) = map event_data (payloads items)
      \<and> rest_of (concat (map encode_item items)) = []"
    using assms
  proof (induction items)
    case (Cons item items)
    then show ?case
      by (cases item) (simp_all add: encode_item_def item_text_def payloads_def List.map_filter_def
          data_frame comment_frame)
  qed (simp_all add: nil payloads_def List.map_filter_def)
  then show "events_of (concat (map encode_item items)) = map event_data (payloads items)"
    and "rest_of (concat (map encode_item items)) = []" by blast+
qed

lemma encode_item_scalar:
  "list_all is_scalar (item_text item) \<Longrightarrow> list_all is_scalar (encode_item item)"
proof -
  have trim_sub: "set (trim_end_cr l) \<subseteq> set l" for l
    unfolding trim_end_cr_def using set_dropWhileD by fastforce
  have "is_scalar c" if "list_all is_scalar s" "l \<in> set (split_on P s)" "c \<in> set (trim_end_cr l)" for s l c P
    using that trim_sub split_on_subset by (fastforce simp: list_all_iff)
  then show "list_all is_scalar (item_text item) \<Longrightarrow> list_all is_scalar (encode_item item)"
    unfolding encode_item_def encode_data_def encode_comment_def item_text_def
    by (cases item) (auto simp: list_all_iff ascii_def is_scalar_def)
qed



section \<open>Two ways a payload is lost\<close>

text \<open>A character cut by a chunk boundary is not put together again: every chunk is decoded by itself, so
  the two bytes of U+00E9, fed in two chunks inside one frame, arrive as two replacement characters, while
  the same bytes in one chunk arrive as the character. And a carriage return inside a payload ends the
  line of the frame that carries it: what follows it is read as an unknown field and dropped.\<close>

theorem payload_losses:
  "sd_ready (snd (feed_all [utf8_encode (ascii ''data: '') @ [0xC3], [0xA9, 10, 10]] new_decoder))
     = [event_data [0xFFFD, 0xFFFD]]
   \<and> sd_ready (snd (feed_all [utf8_encode (ascii ''data: '') @ [0xC3, 0xA9, 10, 10]] new_decoder))
     = [event_data [0xE9]]
   \<and> sd_ready (snd (feed (utf8_encode (encode_data (ascii ''ab'' @ [13] @ ascii ''cd''))) new_decoder))
     = [event_data (ascii ''ab'')]"
  by (intro conjI; code_simp)

end
