(* ===== verification/Router_Sse.thy ===== *)
theory Router_Sse
  imports Sse "HOL-Library.AList"
begin

text \<open>
  The rewriting of a node's event stream on its way to the client, \<open>lightweight-router/src/sse.rs\<close>: the
  \<open>FrameRewriter\<close> with its flags, the end of a stream, and the rewriting of a whole body. The parser and
  the printer of the \<open>serde_json\<close> package are the parameters \<open>parse\<close> and \<open>print\<close>; an object of theirs is
  an association list.
\<close>

section \<open>JSON values\<close>

datatype json =
  JNull | JBool bool | JPosInt u64 | JNegInt u64 | JFloat u64 | JString ustr
  | JArray "json list" | JObject "(ustr \<times> json) list"

type_synonym json_object = "(ustr \<times> json) list"

text \<open>\<open>Value::get\<close> on a key and \<open>Value::as_u64\<close>.\<close>

definition json_get :: "ustr \<Rightarrow> json \<Rightarrow> json option" where
  "json_get key v = (case v of JObject obj \<Rightarrow> map_of obj key | _ \<Rightarrow> None)"

definition json_as_u64 :: "json \<Rightarrow> u64 option" where
  "json_as_u64 v = (case v of JPosInt n \<Rightarrow> Some n | _ \<Rightarrow> None)"

definition is_string :: "json option \<Rightarrow> bool" where
  "is_string v \<longleftrightarrow> (case v of Some (JString _) \<Rightarrow> True | _ \<Rightarrow> False)"

definition json_non_empty :: "json option \<Rightarrow> bool" where
  "json_non_empty v \<longleftrightarrow>
    (case v of Some (JString t) \<Rightarrow> t \<noteq> [] | Some (JArray items) \<Rightarrow> items \<noteq> [] | _ \<Rightarrow> False)"

definition carries_output :: "json_object \<Rightarrow> bool" where
  "carries_output event \<longleftrightarrow>
    (case map_of event (ascii ''choices'') of
       Some (JArray choices) \<Rightarrow>
         list_ex (\<lambda>choice.
           json_non_empty (json_get (ascii ''text'') choice)
           \<or> (case json_get (ascii ''delta'') choice of
                Some delta \<Rightarrow>
                  json_non_empty (json_get (ascii ''content'') delta)
                  \<or> json_non_empty (json_get (ascii ''reasoning_content'') delta)
                  \<or> json_non_empty (json_get (ascii ''tool_calls'') delta)
              | None \<Rightarrow> False)) choices
     | _ \<Rightarrow> False)"

definition prompt_tokens :: "json_object \<Rightarrow> u32 option" where
  "prompt_tokens obj =
    Option.bind (map_of obj (ascii ''usage'')) (\<lambda>usage.
    Option.bind (json_get (ascii ''prompt_tokens'') usage) (\<lambda>v.
    Option.bind (json_as_u64 v) (\<lambda>tokens.
      if unat tokens < 2 ^ 32 then Some (ucast tokens) else None)))"

definition with_model :: "ustr \<Rightarrow> json_object \<Rightarrow> json_object" where
  "with_model public_model obj = AList.update (ascii ''model'') (JString public_model) obj"

section \<open>The rewriter\<close>

definition FRAME_LIMIT :: nat where
  "FRAME_LIMIT = 8 * 1024 * 1024"

record frame_rewriter =
  fr_public_model :: ustr
  fr_buffer :: "u8 list"
  fr_saw_done :: bool
  fr_saw_error :: bool
  fr_finished :: bool
  fr_generated :: bool
  fr_prompt_tokens :: "u32 option"

definition new_rewriter :: "ustr \<Rightarrow> frame_rewriter" where
  "new_rewriter public_model =
    \<lparr>fr_public_model = public_model, fr_buffer = [], fr_saw_done = False, fr_saw_error = False,
     fr_finished = False, fr_generated = False, fr_prompt_tokens = None\<rparr>"

type_synonym json_parse = "ustr \<Rightarrow> json option"
type_synonym json_print = "json \<Rightarrow> ustr"

definition stream_fail :: "json_print \<Rightarrow> ustr \<Rightarrow> ustr \<Rightarrow> frame_rewriter \<Rightarrow> u8 list \<times> frame_rewriter" where
  "stream_fail print code message rw =
    (let body = JObject [(ascii ''error'', JObject [(ascii ''code'', JString code),
                           (ascii ''message'', JString message), (ascii ''type'', JString (ascii ''server_error''))])]
     in (utf8_encode (encode_data (print body)), rw\<lparr>fr_finished := True, fr_saw_error := True\<rparr>))"

text \<open>The non-empty lines of a frame: the values of its \<open>data\<close> lines and the other lines.\<close>

definition frame_lines :: "ustr \<Rightarrow> ustr list" where
  "frame_lines frame = filter (\<lambda>line. line \<noteq> []) (split_on (\<lambda>c. c = 10 \<or> c = 13) frame)"

definition data_value :: "ustr \<Rightarrow> ustr option" where
  "data_value line =
    map_option (\<lambda>value. case strip_prefix (ascii '' '') value of Some v \<Rightarrow> v | None \<Rightarrow> value)
      (strip_prefix (ascii ''data:'') line)"

definition data_lines :: "ustr list \<Rightarrow> ustr list" where
  "data_lines lines = List.map_filter data_value lines"

definition other_lines :: "ustr list \<Rightarrow> ustr list" where
  "other_lines lines = filter (\<lambda>line. data_value line = None) lines"

text \<open>What the rewriter notices in an event.\<close>

definition observe_event :: "json_object \<Rightarrow> frame_rewriter \<Rightarrow> frame_rewriter" where
  "observe_event event rw =
    (let rw = (if map_of event (ascii ''error'') \<noteq> None then rw\<lparr>fr_saw_error := True\<rparr>
               else if \<not> fr_generated rw \<and> carries_output event then rw\<lparr>fr_generated := True\<rparr>
               else rw)
     in (case prompt_tokens event of
           Some tokens \<Rightarrow> rw\<lparr>fr_prompt_tokens := Some tokens\<rparr>
         | None \<Rightarrow> rw))"

definition emit :: "json_parse \<Rightarrow> json_print \<Rightarrow> u8 list \<Rightarrow> u8 list \<Rightarrow> frame_rewriter
    \<Rightarrow> u8 list \<times> frame_rewriter" where
  "emit parse print content raw rw =
    (case utf8_decode content of
       None \<Rightarrow> (raw, rw)
     | Some frame \<Rightarrow>
         let lines = frame_lines frame; ds = data_lines lines; others = other_lines lines
         in if ds = [] then (raw, rw)
            else let payload = join 10 ds
                 in if trim payload = done_data then (raw, rw\<lparr>fr_saw_done := True\<rparr>)
                    else (case parse payload of
                       Some (JObject event) \<Rightarrow>
                         let rw = observe_event event rw
                         in if \<not> is_string (map_of event (ascii ''model'')) then (raw, rw)
                            else (concat (map (\<lambda>line. utf8_encode line @ [10]) others)
                                  @ utf8_encode (encode_data
                                      (print (JObject (with_model (fr_public_model rw) event)))), rw)
                     | _ \<Rightarrow> (raw, rw)))"

lemma frame_end_scan: "frame_end = scan 13 10"
  by (rule ext) (simp add: frame_end_def byte_frames.search_frame_scan)

lemma frame_end_bounds: "frame_end s = Some (a, b) \<Longrightarrow> a < b \<and> b \<le> length s"
  using byte_frames.scan_bounds by (simp add: frame_end_scan)

lemma observe_event_keeps [simp]:
  "fr_buffer (observe_event event rw) = fr_buffer rw"
  "fr_finished (observe_event event rw) = fr_finished rw"
  "fr_public_model (observe_event event rw) = fr_public_model rw"
  "observe_event event (rw\<lparr>fr_buffer := b\<rparr>) = (observe_event event rw)\<lparr>fr_buffer := b\<rparr>"
  by (simp_all add: observe_event_def Let_def split: option.splits)

lemma emit_buffer [simp]: "fr_buffer (snd (emit parse print content raw rw)) = fr_buffer rw"
  by (simp add: emit_def Let_def split: option.splits json.splits)

text \<open>The loop of \<open>push\<close>: every complete frame of the buffer is taken off and emitted.\<close>

function push_frames :: "json_parse \<Rightarrow> json_print \<Rightarrow> frame_rewriter \<Rightarrow> u8 list \<Rightarrow> u8 list \<times> frame_rewriter" where
  "push_frames parse print rw out =
    (case frame_end (fr_buffer rw) of
       None \<Rightarrow> (out, rw)
     | Some (content, tot) \<Rightarrow>
         let frame = take tot (fr_buffer rw);
             (emitted, rw) = emit parse print (take content frame) frame
               (rw\<lparr>fr_buffer := drop tot (fr_buffer rw)\<rparr>)
         in push_frames parse print rw (out @ emitted))"
  by pat_completeness auto
termination
proof (relation "measure (\<lambda>(_, _, rw, _). length (fr_buffer rw))", simp)
  fix parse print rw out p content tot frame y emitted rw'
  assume "frame_end (fr_buffer rw) = Some p" "(content, tot) = p" "frame = take tot (fr_buffer rw)"
    "y = emit parse print (take content frame) frame (rw\<lparr>fr_buffer := drop tot (fr_buffer rw)\<rparr>)"
    "(emitted, rw') = y"
  moreover from this have "content < tot \<and> tot \<le> length (fr_buffer rw)"
    using frame_end_bounds by metis
  moreover from calculation have "fr_buffer rw' = drop tot (fr_buffer rw)"
    using emit_buffer by (metis frame_rewriter.simps(2) frame_rewriter.surjective frame_rewriter.update_convs(2) snd_conv)
  ultimately show "((parse, print, rw', out @ emitted), (parse, print, rw, out))
    \<in> measure (\<lambda>(_, _, rw, _). length (fr_buffer rw))" by auto
qed

declare push_frames.simps [simp del]

definition push :: "json_parse \<Rightarrow> json_print \<Rightarrow> u8 list \<Rightarrow> frame_rewriter \<Rightarrow> u8 list \<times> frame_rewriter" where
  "push parse print chunk rw =
    (if fr_finished rw then ([], rw)
     else let (out, rw) = push_frames parse print (rw\<lparr>fr_buffer := fr_buffer rw @ chunk\<rparr>) []
          in if FRAME_LIMIT < length (fr_buffer rw)
             then let (err, rw) = stream_fail print (ascii ''upstream_stream_invalid'')
                    (ascii ''the upstream node sent an event larger than the router accepts'')
                    (rw\<lparr>fr_buffer := []\<rparr>)
                  in (out @ err, rw)
             else (out, rw))"

definition finish :: "json_print \<Rightarrow> frame_rewriter \<Rightarrow> u8 list \<times> frame_rewriter" where
  "finish print rw =
    (if fr_finished rw then ([], rw)
     else if fr_saw_done rw \<or> fr_saw_error rw then ([], rw\<lparr>fr_finished := True\<rparr>)
     else stream_fail print (ascii ''upstream_stream_interrupted'')
       (ascii ''the upstream node ended the stream before it was complete'') rw)"

definition abort_stream :: "json_print \<Rightarrow> frame_rewriter \<Rightarrow> u8 list \<times> frame_rewriter" where
  "abort_stream print rw =
    (if fr_finished rw \<or> fr_saw_done rw \<or> fr_saw_error rw then ([], rw\<lparr>fr_finished := True\<rparr>)
     else stream_fail print (ascii ''upstream_stream_interrupted'')
       (ascii ''the connection to the upstream node failed during the response'') rw)"

section \<open>Whole bodies\<close>

definition rewrite_body_measuring ::
    "(u8 list \<Rightarrow> json option) \<Rightarrow> (json \<Rightarrow> u8 list option) \<Rightarrow> u8 list \<Rightarrow> ustr \<Rightarrow> u8 list option \<times> u32 option" where
  "rewrite_body_measuring from_slice to_vec body public_model =
    (case from_slice body of
       Some (JObject obj) \<Rightarrow>
         if \<not> is_string (map_of obj (ascii ''model'')) then (None, prompt_tokens obj)
         else (to_vec (JObject (with_model public_model obj)), prompt_tokens obj)
     | _ \<Rightarrow> (None, None))"

definition rewrite_body ::
    "(u8 list \<Rightarrow> json option) \<Rightarrow> (json \<Rightarrow> u8 list option) \<Rightarrow> u8 list \<Rightarrow> ustr \<Rightarrow> u8 list option" where
  "rewrite_body from_slice to_vec body public_model =
    (case from_slice body of
       Some (JObject obj) \<Rightarrow>
         if \<not> is_string (map_of obj (ascii ''model'')) then None
         else to_vec (JObject (with_model public_model obj))
     | _ \<Rightarrow> None)"

lemma rewrite_body_agrees:
  "rewrite_body from_slice to_vec body m = fst (rewrite_body_measuring from_slice to_vec body m)"
  by (simp add: rewrite_body_def rewrite_body_measuring_def split: option.splits json.splits)


section \<open>Chunks do not matter\<close>

primrec emit_all :: "json_parse \<Rightarrow> json_print \<Rightarrow> (u8 list \<times> u8 list) list \<Rightarrow> frame_rewriter
    \<Rightarrow> u8 list \<times> frame_rewriter" where
  "emit_all parse print [] rw = ([], rw)"
| "emit_all parse print (f # fs) rw =
    (let (out, rw) = emit parse print (fst f) (snd f) rw; (more, rw) = emit_all parse print fs rw
     in (out @ more, rw))"

primrec push_all :: "json_parse \<Rightarrow> json_print \<Rightarrow> u8 list list \<Rightarrow> frame_rewriter \<Rightarrow> u8 list \<times> frame_rewriter" where
  "push_all parse print [] rw = ([], rw)"
| "push_all parse print (chunk # chunks) rw =
    (let (out, rw) = push parse print chunk rw; (more, rw) = push_all parse print chunks rw
     in (out @ more, rw))"

text \<open>What the rewriter has to make of a whole stream that stays within the limit.\<close>

definition rewrite_text :: "json_parse \<Rightarrow> json_print \<Rightarrow> u8 list \<Rightarrow> frame_rewriter \<Rightarrow> u8 list \<times> frame_rewriter" where
  "rewrite_text parse print s rw =
    (let (fs, rest) = frames_of frame_end s; (out, rw) = emit_all parse print fs rw
     in (out, rw\<lparr>fr_buffer := rest\<rparr>))"

lemma emit_with_buffer:
  "emit parse print content raw (rw\<lparr>fr_buffer := b\<rparr>) =
    apsnd (\<lambda>rw. rw\<lparr>fr_buffer := b\<rparr>) (emit parse print content raw rw)"
  by (simp add: emit_def Let_def split: option.splits json.splits)

lemma emit_all_with_buffer:
  "emit_all parse print fs (rw\<lparr>fr_buffer := b\<rparr>) =
    apsnd (\<lambda>rw. rw\<lparr>fr_buffer := b\<rparr>) (emit_all parse print fs rw)"
  by (induction fs arbitrary: rw)
    (simp_all add: emit_with_buffer case_prod_unfold Let_def)

lemma emit_all_append:
  "emit_all parse print (fs @ gs) rw =
    (let (out, rw) = emit_all parse print fs rw; (more, rw) = emit_all parse print gs rw in (out @ more, rw))"
  by (induction fs arbitrary: rw) (simp_all add: case_prod_unfold Let_def)

lemma emit_finished [simp]:
  "fr_finished (snd (emit parse print content raw rw)) = fr_finished rw"
  by (simp add: emit_def Let_def split: option.splits json.splits)

lemma emit_all_finished [simp]: "fr_finished (snd (emit_all parse print fs rw)) = fr_finished rw"
  by (induction fs arbitrary: rw) (simp_all add: case_prod_unfold Let_def)

lemma push_frames_spec:
  "push_frames parse print rw out = apfst (\<lambda>o'. out @ o') (rewrite_text parse print (fr_buffer rw) rw)"
proof (induction parse print rw out rule: push_frames.induct)
  case (1 parse print rw out)
  show ?case
  proof (cases "frame_end (fr_buffer rw)")
    case None
    then show ?thesis by (simp add: push_frames.simps [of _ _ rw] rewrite_text_def frames_of.simps)
  next
    case (Some p)
    then obtain a b where ab: "frame_end (fr_buffer rw) = Some (a, b)" by (metis surj_pair)
    note bounds = frame_end_bounds [OF ab]
    let ?rest = "drop b (fr_buffer rw)"
    let ?frame = "take b (fr_buffer rw)"
    let ?e = "emit parse print (take a ?frame) ?frame (rw\<lparr>fr_buffer := ?rest\<rparr>)"
    have "push_frames parse print (snd ?e) (out @ fst ?e)
        = apfst (\<lambda>o'. (out @ fst ?e) @ o') (rewrite_text parse print (fr_buffer (snd ?e)) (snd ?e))"
      by (rule 1 [OF ab refl refl refl]) simp
    then have "push_frames parse print rw out
        = apfst (\<lambda>o'. (out @ fst ?e) @ o') (rewrite_text parse print ?rest (snd ?e))"
      by (simp add: push_frames.simps [of _ _ rw] ab Let_def case_prod_unfold)
    also have "\<dots> = apfst (\<lambda>o'. out @ o') (rewrite_text parse print (fr_buffer rw) rw)"
      using bounds
      by (simp add: rewrite_text_def frames_of.simps [of _ "fr_buffer rw"] ab Let_def case_prod_unfold
          emit_with_buffer emit_all_with_buffer min_absorb1)
    finally show ?thesis .
  qed
qed

lemma rewrite_text_append:
  "rewrite_text parse print (s @ t) rw =
    (let (out, rw) = rewrite_text parse print s rw; (more, rw) = rewrite_text parse print (fr_buffer rw @ t) rw
     in (out @ more, rw))"
  using byte_frames.frames_append [of s t]
  by (simp add: rewrite_text_def frame_end_def case_prod_unfold Let_def emit_all_append emit_all_with_buffer)

definition unfinished :: "u8 list \<Rightarrow> u8 list" where
  "unfinished s = snd (frames_of frame_end s)"

lemma rewrite_text_buffer [simp]: "fr_buffer (snd (rewrite_text parse print s rw)) = unfinished s"
  by (simp add: rewrite_text_def unfinished_def case_prod_unfold Let_def)

lemma rewrite_text_finished [simp]: "fr_finished (snd (rewrite_text parse print s rw)) = fr_finished rw"
  by (simp add: rewrite_text_def case_prod_unfold Let_def)

lemma rewrite_text_with_buffer [simp]:
  "rewrite_text parse print s (rw\<lparr>fr_buffer := b\<rparr>) = rewrite_text parse print s rw"
  by (simp add: rewrite_text_def emit_all_with_buffer case_prod_unfold Let_def)

lemma push_spec:
  assumes "\<not> fr_finished rw" "length (unfinished (fr_buffer rw @ chunk)) \<le> FRAME_LIMIT"
  shows "push parse print chunk rw = rewrite_text parse print (fr_buffer rw @ chunk) rw"
  using assms by (simp add: push_def push_frames_spec case_prod_unfold Let_def apfst_def map_prod_def)

lemma unfinished_append: "unfinished (s @ t) = unfinished (unfinished s @ t)"
  using byte_frames.frames_append [of s t]
  by (simp add: unfinished_def frame_end_def case_prod_unfold Let_def)

lemma unfinished_shorter: "length (unfinished s) \<le> length s"
proof (induction s rule: measure_induct_rule [of length])
  case (less s)
  show ?case
  proof (cases "frame_end s")
    case None
    then show ?thesis by (simp add: unfinished_def frames_of.simps [of _ s])
  next
    case (Some p)
    then obtain a b where ab: "frame_end s = Some (a, b)" by (metis surj_pair)
    note bounds = frame_end_bounds [OF ab]
    have shorter: "length (drop b s) < length s" using bounds unfolding length_drop by linarith
    from less [OF shorter] ab bounds shorter show ?thesis
      by (simp add: unfinished_def frames_of.simps [of _ s] case_prod_unfold Let_def)
  qed
qed

lemma rewrite_text_rest:
  "rewrite_text parse print (unfinished s) rw = ([], rw\<lparr>fr_buffer := unfinished s\<rparr>)"
  using byte_frames.frames_rest [of s]
  by (simp add: rewrite_text_def unfinished_def frame_end_def frames_of.simps [of _ "snd _"])

lemma push_all_spec:
  assumes "\<not> fr_finished rw" "fr_buffer rw = unfinished s"
    and "\<And>n. n \<le> length chunks \<Longrightarrow> length (unfinished (s @ concat (take n chunks))) \<le> FRAME_LIMIT"
  shows "push_all parse print chunks rw = rewrite_text parse print (unfinished s @ concat chunks) rw"
  using assms
proof (induction chunks arbitrary: rw s)
  case Nil
  then show ?case by (simp add: rewrite_text_rest)
next
  case (Cons c cs)
  have fits: "length (unfinished (fr_buffer rw @ c)) \<le> FRAME_LIMIT"
    using Cons.prems(3) [of 1] Cons.prems(2) unfinished_append [of s c] by simp
  let ?rw = "snd (rewrite_text parse print (fr_buffer rw @ c) rw)"
  have "push_all parse print cs ?rw = rewrite_text parse print (unfinished (s @ c) @ concat cs) ?rw"
  proof (rule Cons.IH)
    show "fr_buffer ?rw = unfinished (s @ c)" using Cons.prems(2) by (simp add: unfinished_append [of s c])
    show "length (unfinished ((s @ c) @ concat (take n cs))) \<le> FRAME_LIMIT" if "n \<le> length cs" for n
      using Cons.prems(3) [of "Suc n"] that by simp
  qed (use Cons.prems(1) in simp)
  moreover have "push parse print c rw = rewrite_text parse print (fr_buffer rw @ c) rw"
    using Cons.prems(1) fits by (rule push_spec)
  ultimately show ?case
    using rewrite_text_append [of parse print "unfinished s @ c" "concat cs" rw] Cons.prems(2)
    by (simp add: case_prod_unfold Let_def unfinished_append [of s c])
qed


text \<open>C14. The stream rewriter does not depend on how the network cut the stream. As long as no unfinished
  frame grows over the limit, pushing the chunks one by one forwards exactly the bytes, and reaches
  exactly the state, of emitting the frames of the whole stream one after the other; in particular two
  ways of cutting the same bytes cannot be told apart.\<close>

theorem rewriter_refines_stream:
  assumes "\<And>n. n \<le> length chunks \<Longrightarrow> length (unfinished (concat (take n chunks))) \<le> FRAME_LIMIT"
  shows "push_all parse print chunks (new_rewriter m) =
    (let (fs, rest) = frames_of frame_end (concat chunks); (out, rw) = emit_all parse print fs (new_rewriter m)
     in (out, rw\<lparr>fr_buffer := rest\<rparr>))"
proof -
  have nil: "unfinished [] = []" by (simp add: unfinished_def frames_of.simps frame_end_scan)
  have "push_all parse print chunks (new_rewriter m)
      = rewrite_text parse print (unfinished [] @ concat chunks) (new_rewriter m)"
    by (rule push_all_spec) (use assms nil in \<open>simp_all add: new_rewriter_def\<close>)
  then show ?thesis by (simp add: nil rewrite_text_def)
qed

theorem rewriter_refines_stream_witness:
  "push_all (\<lambda>_. None) (\<lambda>_. []) [[58, 10], [10, 58]] (new_rewriter [67])
    = ([58, 10, 10], (new_rewriter [67])\<lparr>fr_buffer := [58]\<rparr>)"
proof -
  have "length (unfinished (concat (take n [[58, 10], [10, 58]]))) \<le> FRAME_LIMIT" for n
  proof -
    have "length (concat (take n [[58, 10], [10, 58 :: u8]])) \<le> 4"
      by (cases n; cases "n - 1") (auto simp: take_Cons')
    with unfinished_shorter [of "concat (take n [[58, 10], [10, 58]])"] show ?thesis by (simp add: FRAME_LIMIT_def)
  qed
  from rewriter_refines_stream [OF this, of "\<lambda>_. None" "\<lambda>_. []" "[67]"]
  show ?thesis
    by (simp add: frames_of.simps frame_end_scan stands_at_def terminators_def emit_def utf8_decode.simps
        utf8_step_def byte_at_def frame_lines_def data_lines_def data_value_def strip_prefix_def
        List.map_filter_def ascii_def)
qed

section \<open>How a stream ends\<close>

datatype stream_op = Push "u8 list" | Finish | Abort

definition stream_op_step :: "json_parse \<Rightarrow> json_print \<Rightarrow> stream_op \<Rightarrow> frame_rewriter
    \<Rightarrow> u8 list \<times> frame_rewriter" where
  "stream_op_step parse print op rw =
    (case op of Push chunk \<Rightarrow> push parse print chunk rw | Finish \<Rightarrow> finish print rw | Abort \<Rightarrow> abort_stream print rw)"

primrec stream_run :: "json_parse \<Rightarrow> json_print \<Rightarrow> stream_op list \<Rightarrow> frame_rewriter
    \<Rightarrow> u8 list \<times> frame_rewriter" where
  "stream_run parse print [] rw = ([], rw)"
| "stream_run parse print (op # ops) rw =
    (let (out, rw) = stream_op_step parse print op rw; (more, rw) = stream_run parse print ops rw
     in (out @ more, rw))"

lemma finished_is_silent:
  "fr_finished rw \<Longrightarrow> fst (stream_run parse print ops rw) = [] \<and> fr_finished (snd (stream_run parse print ops rw))"
proof (induction ops arbitrary: rw)
  case (Cons op ops)
  have "fst (stream_op_step parse print op rw) = []" "fr_finished (snd (stream_op_step parse print op rw))"
    using Cons.prems by (cases op; simp add: stream_op_step_def push_def finish_def abort_stream_def)+
  with Cons.IH show ?case by (simp add: case_prod_unfold Let_def)
qed simp

definition interrupted :: "json_print \<Rightarrow> ustr \<Rightarrow> ustr" where
  "interrupted print message = encode_data (print (JObject [(ascii ''error'', JObject
    [(ascii ''code'', JString (ascii ''upstream_stream_interrupted'')), (ascii ''message'', JString message),
     (ascii ''type'', JString (ascii ''server_error''))])]))"

text \<open>A truncated stream is never mistaken for a complete one, and is ended once. When the node closes
  the stream or the connection fails, the client is sent one error frame exactly if the stream had seen
  neither the terminal frame nor an error frame and had not been ended before, and nothing otherwise;
  and whatever is pushed, finished or aborted after that sends the client nothing more.\<close>

theorem stream_ends_once:
  assumes "op = Finish \<or> op = Abort"
  shows "fst (stream_op_step parse print op rw) =
      (if fr_finished rw \<or> fr_saw_done rw \<or> fr_saw_error rw then []
       else utf8_encode (interrupted print (if op = Finish
         then ascii ''the upstream node ended the stream before it was complete''
         else ascii ''the connection to the upstream node failed during the response'')))
    \<and> fst (stream_run parse print (op # ops) rw) = fst (stream_op_step parse print op rw)
    \<and> (fr_saw_done (snd (stream_run parse print (op # ops) rw)) \<longrightarrow> fr_saw_done rw)"
proof -
  let ?step = "stream_op_step parse print op rw"
  have done_kept: "fr_finished rw' \<Longrightarrow> fr_saw_done (snd (stream_run parse print ops rw')) = fr_saw_done rw'" for rw'
  proof (induction ops arbitrary: rw')
    case (Cons op ops)
    have "fr_saw_done (snd (stream_op_step parse print op rw')) = fr_saw_done rw'"
      "fr_finished (snd (stream_op_step parse print op rw'))"
      using Cons.prems by (cases op; simp add: stream_op_step_def push_def finish_def abort_stream_def)+
    with Cons.IH show ?case by (simp add: case_prod_unfold Let_def)
  qed simp
  have step: "fst ?step = (if fr_finished rw \<or> fr_saw_done rw \<or> fr_saw_error rw then []
       else utf8_encode (interrupted print (if op = Finish
         then ascii ''the upstream node ended the stream before it was complete''
         else ascii ''the connection to the upstream node failed during the response'')))"
    using assms
    by (auto simp: stream_op_step_def finish_def abort_stream_def stream_fail_def interrupted_def Let_def)
  have fin: "fr_finished (snd ?step)" and dn: "fr_saw_done (snd ?step) = fr_saw_done rw"
    using assms
    by (auto simp: stream_op_step_def finish_def abort_stream_def stream_fail_def Let_def split: if_splits)
  from step finished_is_silent [OF fin, of parse print ops] done_kept [OF fin] dn show ?thesis
    by (simp add: case_prod_unfold Let_def)
qed

theorem stream_ends_once_witness:
  "fst (stream_run (\<lambda>_. None) (\<lambda>_. [123, 125]) [Abort, Push [58, 10, 10], Finish] (new_rewriter [67]))
    = [100, 97, 116, 97, 58, 32, 123, 125, 10, 10]"
proof -
  let ?parse = "(\<lambda>_. None) :: json_parse" and ?print = "(\<lambda>_. [123, 125]) :: json_print"
  have "fst (stream_run ?parse ?print (Abort # [Push [58, 10, 10], Finish]) (new_rewriter [67]))
      = fst (stream_op_step ?parse ?print Abort (new_rewriter [67]))"
    using stream_ends_once [of Abort ?parse ?print "new_rewriter [67]" "[Push [58, 10, 10], Finish]"] by blast
  also have "\<dots> = [100, 97, 116, 97, 58, 32, 123, 125, 10, 10]"
    by (simp add: stream_op_step_def abort_stream_def new_rewriter_def stream_fail_def encode_data_def
        trim_end_cr_def ascii_def utf8_encode_def utf8_bytes_def Let_def)
  finally show ?thesis .
qed

text \<open>A frame that outgrows the limit is answered by an error frame even when the stream had already been
  completed by its terminal frame.\<close>

lemma overflow_after_done:
  assumes "\<not> fr_finished rw" "fr_saw_done rw" "FRAME_LIMIT < length (unfinished (fr_buffer rw @ chunk))"
  shows "fst (push parse print chunk rw) =
    fst (rewrite_text parse print (fr_buffer rw @ chunk) rw) @
      fst (stream_fail print (ascii ''upstream_stream_invalid'')
        (ascii ''the upstream node sent an event larger than the router accepts'') rw)"
  using assms
  by (simp add: push_def push_frames_spec case_prod_unfold Let_def apfst_def map_prod_def stream_fail_def)


section \<open>What the client decodes\<close>

lemma data_value_Some:
  "data_value line = Some v \<Longrightarrow>
    parse_line line (e, h) = (e\<lparr>ev_data := (if h then ev_data e @ [10] else ev_data e) @ v\<rparr>, True)"
proof -
  assume v: "data_value line = Some v"
  then obtain w where line: "line = ascii ''data'' @ 58 # w"
    and vw: "v = (case strip_prefix (ascii '' '') w of Some x \<Rightarrow> x | None \<Rightarrow> w)"
    by (auto simp: data_value_def strip_prefix_Some) (simp add: ascii_def)
  then have once: "split_once 58 line = Some (ascii ''data'', w)"
    by (simp add: split_once_Some) (simp add: ascii_def)
  have "strip_prefix (ascii '':'') line = None" by (simp add: line strip_prefix_def ascii_def)
  with once vw show ?thesis by (simp add: parse_line_def)
qed

text \<open>Every other line but a bare \<open>data\<close> touches neither the payload nor whether there is one.\<close>

definition other_field :: "ustr \<Rightarrow> sse_event \<Rightarrow> sse_event" where
  "other_field line e = fst (parse_line line (e, False))"

lemma data_value_None:
  assumes "data_value line = None" "line \<noteq> ascii ''data''"
  shows "parse_line line (e, h) = (other_field line e, h)"
    and "other_field line (e\<lparr>ev_data := x\<rparr>) = (other_field line e)\<lparr>ev_data := x\<rparr>"
    and "ev_data (other_field line e) = ev_data e"
proof -
  have "\<not> (\<exists>v. split_once 58 line = Some (ascii ''data'', v))"
  proof
    assume "\<exists>v. split_once 58 line = Some (ascii ''data'', v)"
    then obtain v where "line = ascii ''data'' @ 58 # v" by (auto simp: split_once_Some)
    then have "line = ascii ''data:'' @ v" by (simp add: ascii_def)
    then have "strip_prefix (ascii ''data:'') line = Some v" by (simp add: strip_prefix_Some)
    with assms(1) show False by (simp add: data_value_def)
  qed
  with assms(2) show "parse_line line (e, h) = (other_field line e, h)"
    and "other_field line (e\<lparr>ev_data := x\<rparr>) = (other_field line e)\<lparr>ev_data := x\<rparr>"
    and "ev_data (other_field line e) = ev_data e"
    by (auto simp: other_field_def parse_line_def Let_def split: option.splits prod.splits)
qed

lemma ev_data_again [simp]: "e\<lparr>ev_data := ev_data e\<rparr> = e"
  by simp

lemma fold_frame_lines:
  assumes "\<forall>line \<in> set ls. line \<noteq> ascii ''data''"
  shows "fold parse_line ls (e, h) =
    ((fold other_field (other_lines ls) e)\<lparr>ev_data :=
        (if h then join 10 (ev_data e # data_lines ls) else ev_data e @ join 10 (data_lines ls))\<rparr>,
     h \<or> data_lines ls \<noteq> [])"
  using assms
proof (induction ls arbitrary: e h)
  case Nil
  show ?case by (simp add: other_lines_def data_lines_def List.map_filter_def)
next
  case (Cons l ls)
  have others: "fold other_field os (e\<lparr>ev_data := x\<rparr>) = (fold other_field os e)\<lparr>ev_data := x\<rparr>"
    if "\<forall>l \<in> set os. data_value l = None \<and> l \<noteq> ascii ''data''" for os e x
    using that by (induction os arbitrary: e) (simp_all add: data_value_None(2))
  have os: "\<forall>l \<in> set (other_lines ls). data_value l = None \<and> l \<noteq> ascii ''data''"
    using Cons.prems by (auto simp: other_lines_def)
  show ?case
  proof (cases "data_value l")
    case None
    with Cons data_value_None [of l] show ?thesis
      by (simp add: other_lines_def data_lines_def List.map_filter_def)
  next
    case (Some v)
    have "join 10 ((xs @ 10 # v) # vs) = join 10 (xs # v # vs)" "join 10 ((xs @ v) # vs) = xs @ join 10 (v # vs)" for xs vs
      by (cases vs; simp)+
    with Some Cons others [OF os] show ?thesis
      by (simp add: data_value_Some) (simp add: other_lines_def data_lines_def List.map_filter_def)
  qed
qed


lemma parse_frame_lines:
  assumes "ascii ''data'' \<notin> set (frame_lines frame)"
  shows "parse_frame frame =
    (if data_lines (frame_lines frame) = [] then None
     else Some ((fold other_field (other_lines (frame_lines frame)) (event_data []))
                  \<lparr>ev_data := join 10 (data_lines (frame_lines frame))\<rparr>))"
proof -
  have "\<forall>line \<in> set (frame_lines frame). line \<noteq> ascii ''data''" using assms by auto
  from fold_frame_lines [OF this, of "event_data []" False] show ?thesis
    by (simp add: parse_frame_def frame_lines_def [symmetric] event_data_def)
qed

text \<open>What the client's decoder, which is the one of the core module, makes of a frame: the event and the
  JSON object in it that carries a model name, if the frame is such a frame.\<close>

definition model_event :: "json_parse \<Rightarrow> u8 list \<Rightarrow> (sse_event \<times> json_object) option" where
  "model_event parse content =
    Option.bind (utf8_decode content) (\<lambda>frame. Option.bind (parse_frame frame) (\<lambda>e.
      if is_done e then None
      else (case parse (ev_data e) of
              Some (JObject event) \<Rightarrow> if is_string (map_of event (ascii ''model'')) then Some (e, event) else None
            | _ \<Rightarrow> None)))"

lemma model_event_Some:
  assumes "model_event parse content = Some (e, event)" "utf8_decode content = Some frame"
  shows "parse_frame frame = Some e" "\<not> is_done e"
    "parse (ev_data e) = Some (JObject event)" "is_string (map_of event (ascii ''model''))"
proof -
  from assms obtain e' where e': "parse_frame frame = Some e'"
    by (cases "parse_frame frame") (simp_all add: model_event_def)
  with assms obtain v where v: "\<not> is_done e'" "parse (ev_data e') = Some v"
    by (cases "is_done e'"; cases "parse (ev_data e')") (simp_all add: model_event_def)
  with e' assms show "parse_frame frame = Some e" "\<not> is_done e"
    "parse (ev_data e) = Some (JObject event)" "is_string (map_of event (ascii ''model''))"
    by (cases v; simp add: model_event_def split: if_splits)+
qed

lemma frame_lines_ok: "line \<in> set (frame_lines frame) \<Longrightarrow> line \<noteq> [] \<and> 10 \<notin> set line \<and> 13 \<notin> set line"
  unfolding frame_lines_def using split_on_free by fastforce

lemma frame_lines_scalar:
  "list_all is_scalar frame \<Longrightarrow> line \<in> set (frame_lines frame) \<Longrightarrow> list_all is_scalar line"
  unfolding frame_lines_def using split_on_subset by (fastforce simp: list_all_iff)

lemma utf8_encode_Nil [simp]: "utf8_encode [] = []"
  by (simp add: utf8_encode_def)

lemma utf8_encode_lf: "utf8_encode (10 # s) = 10 # utf8_encode s"
  by (simp add: utf8_encode_def utf8_bytes_def)

lemma encode_one_line:
  assumes "10 \<notin> set p" "13 \<notin> set p"
  shows "encode_data p = ascii ''data: '' @ p @ [10, 10]"
proof -
  have "split_on (\<lambda>c. c = 10) p = [p]" using assms by (intro split_on_none) auto
  with encoded_lines(1) [OF assms(2)] show ?thesis by simp
qed

lemma concat_then_last:
  "concat (map (\<lambda>l. l @ [c]) ls) @ l @ [c, c] = join c (ls @ [l]) @ [c, c]"
proof (induction ls)
  case (Cons k ls)
  then show ?case by (cases "ls @ [l]") simp_all
qed simp

text \<open>The rewritten frame: the other lines as they were, then one line with the printed object.\<close>

lemma rewritten_frame:
  assumes print: "10 \<notin> set p" "13 \<notin> set p" "list_all is_scalar p"
    and scalar: "list_all is_scalar frame" and bare: "ascii ''data'' \<notin> set (frame_lines frame)"
    and ev: "parse_frame frame = Some e"
  defines "others \<equiv> other_lines (frame_lines frame)"
  shows "feed (concat (map (\<lambda>line. utf8_encode line @ [10]) others) @ utf8_encode (encode_data p)) (with_limit limit)
    = (Inr (), (with_limit limit)\<lparr>sd_ready := [e\<lparr>ev_data := p\<rparr>]\<rparr>)"
proof -
  let ?last = "ascii ''data: '' @ p"
  let ?lines = "others @ [?last]"
  let ?t = "join 10 ?lines @ [10, 10]"
  have others: "line \<in> set others \<Longrightarrow> line \<in> set (frame_lines frame) \<and> data_value line = None" for line
    by (auto simp: others_def other_lines_def)
  have ok: "?lines \<noteq> []" "\<forall>l \<in> set ?lines. l \<noteq> [] \<and> 13 \<notin> set l \<and> 10 \<notin> set l"
    using frame_lines_ok others print by (auto simp: ascii_def)
  have bytes: "concat (map (\<lambda>line. utf8_encode line @ [10]) others) @ utf8_encode (encode_data p) = utf8_encode ?t"
  proof -
    have "concat (map (\<lambda>line. utf8_encode line @ [10]) ls) = utf8_encode (concat (map (\<lambda>l. l @ [10]) ls))" for ls
      by (induction ls) (simp_all add: utf8_encode_lf)
    then have "concat (map (\<lambda>line. utf8_encode line @ [10]) others) @ utf8_encode (encode_data p)
        = utf8_encode (concat (map (\<lambda>l. l @ [10]) others) @ encode_data p)" by simp
    also have "concat (map (\<lambda>l. l @ [10]) others) @ encode_data p = ?t"
      using concat_then_last [of 10 others ?last] encode_one_line [OF print(1,2)] by (simp only: append_assoc)
    finally show ?thesis .
  qed
  have scalars: "list_all is_scalar ?t"
  proof -
    have "list_all is_scalar (join 10 ls)" if "\<forall>l \<in> set ls. list_all is_scalar l" for ls
      using that by (induction "10 :: nat" ls rule: join.induct) (auto simp: is_scalar_def)
    moreover have "\<forall>l \<in> set ?lines. list_all is_scalar l"
      using others frame_lines_scalar [OF scalar] print(3) by (auto simp: ascii_def is_scalar_def)
    ultimately show ?thesis by (simp add: is_scalar_def)
  qed
  have "events_of ?t = [e\<lparr>ev_data := p\<rparr>]" and "rest_of ?t = []"
  proof -
    have nil: "events_of [] = []" "rest_of [] = []"
      using frames_step(1) [of "[]"] by (simp_all add: find_frame_end_scan)
    have "\<forall>line \<in> set others. line \<noteq> ascii ''data''" using others bare by auto
    then have "fold parse_line others (event_data [], False) = (fold other_field others (event_data []), False)
        \<and> ev_data (fold other_field others (event_data [])) = []"
      using others
    proof (induction others rule: rev_induct)
      case (snoc l ls)
      then show ?case using data_value_None [of l] by simp
    qed (simp add: event_data_def)
    then have "fold parse_line ?lines (event_data [], False)
        = ((fold other_field others (event_data []))\<lparr>ev_data := p\<rparr>, True)"
      by (simp add: parse_data_line)
    moreover have "(fold other_field others (event_data []))\<lparr>ev_data := p\<rparr> = e\<lparr>ev_data := p\<rparr>"
      using ev by (auto simp: parse_frame_lines [OF bare] others_def split: if_splits)
    ultimately show "events_of ?t = [e\<lparr>ev_data := p\<rparr>]"
      using frame_of_lines(1,3) [OF ok] nil by (simp add: frame_of_lines(1) [OF ok, of "[]", simplified])
    show "rest_of ?t = []" using frame_of_lines(2) [OF ok, of "[]"] nil by simp
  qed
  with feed_text [OF scalars, of "with_limit limit" "[]"] frames_step(1) [of "[]"]
  show ?thesis
    unfolding bytes by (simp add: with_limit_def find_frame_end_scan text_bytes_def)
qed


text \<open>The router changes only the name of the model in what the client receives. A frame whose payload
  is a JSON object with a model name is decoded by the client as the same event, with the same event and
  id fields, whose payload is that object with the public name in place of the node's and every other
  member unchanged; any other frame, comments, notices, the terminal frame and bytes that are not UTF-8
  included, is forwarded byte for byte. The printer is assumed to write one line of Unicode text, and
  no line of the frame to be a bare \<open>data\<close> without a colon.\<close>

theorem client_sees_public_model:
  assumes "\<And>frame. utf8_decode content = Some frame \<Longrightarrow> ascii ''data'' \<notin> set (frame_lines frame)"
    and "\<And>v. 10 \<notin> set (print v) \<and> 13 \<notin> set (print v) \<and> list_all is_scalar (print v)"
  shows "case model_event parse content of
      None \<Rightarrow> fst (emit parse print content raw rw) = raw
    | Some (e, event) \<Rightarrow>
        feed (fst (emit parse print content raw rw)) (with_limit limit) =
          (Inr (), (with_limit limit)
             \<lparr>sd_ready := [e\<lparr>ev_data := print (JObject (with_model (fr_public_model rw) event))\<rparr>]\<rparr>)
        \<and> map_of (with_model (fr_public_model rw) event)
            = (map_of event)(ascii ''model'' \<mapsto> JString (fr_public_model rw))"
proof (cases "utf8_decode content")
  case None
  then show ?thesis by (simp add: model_event_def emit_def)
next
  case (Some frame)
  note bare = assms(1) [OF Some]
  let ?lines = "frame_lines frame"
  show ?thesis
  proof (cases "model_event parse content")
    case None
    with Some show ?thesis
      by (auto simp: model_event_def emit_def Let_def parse_frame_lines [OF bare] is_done_def
          split: option.splits json.splits if_splits)
  next
    case (Some p)
    then obtain e event where model: "model_event parse content = Some (e, event)" by (metis surj_pair)
    note ev = model_event_Some [OF model \<open>utf8_decode content = Some frame\<close>]
    have ds: "data_lines ?lines \<noteq> []" "ev_data e = join 10 (data_lines ?lines)"
      using ev(1) by (auto simp: parse_frame_lines [OF bare] split: if_splits)
    let ?p = "print (JObject (with_model (fr_public_model rw) event))"
    have printed: "10 \<notin> set ?p" "13 \<notin> set ?p" "list_all is_scalar ?p" using assms(2) by blast+
    have "fst (emit parse print content raw rw) =
        concat (map (\<lambda>line. utf8_encode line @ [10]) (other_lines ?lines)) @
        utf8_encode (encode_data (print (JObject (with_model (fr_public_model rw) event))))"
      using \<open>utf8_decode content = Some frame\<close> ds ev
      by (simp add: emit_def Let_def is_done_def split: option.splits)
    then have "feed (fst (emit parse print content raw rw)) (with_limit limit) =
          (Inr (), (with_limit limit)
             \<lparr>sd_ready := [e\<lparr>ev_data := print (JObject (with_model (fr_public_model rw) event))\<rparr>]\<rparr>)"
      using rewritten_frame [OF printed utf8_decode_scalar [OF \<open>utf8_decode content = Some frame\<close>] bare ev(1)]
      by (simp only:)
    moreover have "map_of (with_model (fr_public_model rw) event)
        = (map_of event)(ascii ''model'' \<mapsto> JString (fr_public_model rw))"
      unfolding with_model_def by (rule update_conv')
    ultimately show ?thesis by (simp add: model)
  qed
qed

definition demo_print :: json_print where
  "demo_print v =
    (case json_get (ascii ''model'') v of
       Some (JString name) \<Rightarrow> filter (\<lambda>c. c \<noteq> 10 \<and> c \<noteq> 13 \<and> is_scalar c) name
     | _ \<Rightarrow> [])"

definition demo_parse :: json_parse where
  "demo_parse t = Some (JObject [(ascii ''model'', JString t)])"

theorem client_sees_public_model_witness:
  "feed (fst (emit demo_parse demo_print (utf8_encode (ascii ''id: 7'' @ [10] @ ascii ''data: local'')) []
      (new_rewriter (ascii ''Coder'')))) (with_limit 9)
    = (Inr (), (with_limit 9)\<lparr>sd_ready := [\<lparr>ev_event = None, ev_data = ascii ''Coder'', ev_id = Some (ascii ''7'')\<rparr>]\<rparr>)"
proof -
  define t where "t = ascii ''id: 7'' @ [10] @ ascii ''data: local''"
  let ?rw = "new_rewriter (ascii ''Coder'')"
  have "list_all is_scalar t" unfolding t_def by code_simp
  then have decode: "utf8_decode (utf8_encode t) = Some t" by (rule utf8_decode_encode)
  have "ascii ''data'' \<notin> set (frame_lines t)" unfolding t_def by code_simp
  with decode have bare: "\<And>frame. utf8_decode (utf8_encode t) = Some frame \<Longrightarrow> ascii ''data'' \<notin> set (frame_lines frame)"
    by simp
  have print: "10 \<notin> set (demo_print v) \<and> 13 \<notin> set (demo_print v) \<and> list_all is_scalar (demo_print v)" for v
    by (auto simp: demo_print_def list_all_iff split: option.splits json.splits)
  have "parse_frame t = Some \<lparr>ev_event = None, ev_data = ascii ''local'', ev_id = Some (ascii ''7'')\<rparr>"
    unfolding t_def by code_simp
  moreover have "\<not> is_done \<lparr>ev_event = None, ev_data = ascii ''local'', ev_id = Some (ascii ''7'')\<rparr>" by code_simp
  ultimately have "model_event demo_parse (utf8_encode t) =
      Some (\<lparr>ev_event = None, ev_data = ascii ''local'', ev_id = Some (ascii ''7'')\<rparr>,
            [(ascii ''model'', JString (ascii ''local''))])"
    by (simp add: model_event_def decode demo_parse_def is_string_def)
  moreover have "demo_print (JObject (with_model (fr_public_model ?rw) [(ascii ''model'', JString (ascii ''local''))]))
      = ascii ''Coder''" by code_simp
  ultimately show ?thesis
    using client_sees_public_model [where content = "utf8_encode t" and parse = demo_parse and print = demo_print
      and raw = "[]" and rw = ?rw and limit = 9, OF bare print]
    unfolding t_def [symmetric] by simp
qed

end
