(* ===== verification/Router_Capability.thy ===== *)
theory Router_Capability
  imports Router_Health "HOL-Library.Multiset"
begin

text \<open>
  What a request needs and whether a deployment offers it:
  \<open>lightweight-router/src/requirements.rs\<close>, \<open>capability.rs\<close> and \<open>load.rs\<close>, with the candidate and
  eligible-set types of \<open>select.rs\<close> that they work on.

  Of \<open>GenerationRequest\<close> the record \<open>generation_request\<close> keeps the fields the requirements are read
  from; a tool declaration is opaque. Parsing the body of a request into it is not modelled. Observations are a
  map from deployment ids. An in-flight counter is a 64-bit word, and a lease is the id of the counter
  it holds, if any.
\<close>

section \<open>Requirements\<close>

datatype endpoint = ChatCompletions | Completions

datatype tool_choice_requirement = TcUnspecified | TcAuto | TcNone | TcRequired | TcFunction

record request_requirements =
  rq_endpoint :: "endpoint option"
  rq_tools :: bool
  rq_tool_choice :: tool_choice_requirement
  rq_reasoning :: bool
  rq_prompt_tokens :: "u32 option"
  rq_max_tokens :: "u32 option"

definition no_requirements :: request_requirements where
  "no_requirements =
    \<lparr>rq_endpoint = None, rq_tools = False, rq_tool_choice = TcUnspecified, rq_reasoning = False,
     rq_prompt_tokens = None, rq_max_tokens = None\<rparr>"

definition needs_tool_choice :: "request_requirements \<Rightarrow> bool" where
  "needs_tool_choice rq =
    (case rq_tool_choice rq of
       TcRequired \<Rightarrow> True | TcFunction \<Rightarrow> True
     | TcNone \<Rightarrow> rq_tools rq
     | TcUnspecified \<Rightarrow> False | TcAuto \<Rightarrow> False)"

definition required_context :: "request_requirements \<Rightarrow> u32 option" where
  "required_context rq = map_option (\<lambda>tokens. sat_add tokens 1) (rq_prompt_tokens rq)"

definition BYTES_PER_TOKEN_CEILING :: usize where "BYTES_PER_TOKEN_CEILING = 6"

definition tokens_at_least :: "usize \<Rightarrow> u32" where
  "tokens_at_least bytes =
    (let n = div_ceil bytes BYTES_PER_TOKEN_CEILING
     in if unat n < 2 ^ 32 then ucast n else - 1)"

definition byte_len :: "ustr \<Rightarrow> usize" where
  "byte_len s = word_of_nat (sum_list (map utf8_width s))"

datatype tool_choice_control = ToolUnspecified | ToolAuto | ToolNone | ToolRequired | ToolFunction ustr

datatype reasoning_control = ReasoningDefault | ReasoningDisabled | ReasoningEffort ustr

datatype message_role = System | User | Assistant | Tool

record chat_message =
  cm_role :: message_role
  cm_content :: ustr

datatype prompt = Chat "chat_message list" | Text ustr

record 'tool generation_request =
  gr_prompt :: prompt
  gr_tools :: "'tool list"
  gr_tool_choice :: tool_choice_control
  gr_reasoning :: reasoning_control

definition chat_bytes :: "'tool generation_request \<Rightarrow> usize" where
  "chat_bytes g =
    (case gr_prompt g of
       Chat messages \<Rightarrow> sum_list (map (\<lambda>m. byte_len (cm_content m)) messages)
     | Text s \<Rightarrow> byte_len s)"

definition chat_requirements :: "'tool generation_request \<Rightarrow> u32 option \<Rightarrow> request_requirements" where
  "chat_requirements g max_tokens =
    \<lparr>rq_endpoint = Some ChatCompletions, rq_tools = (gr_tools g \<noteq> []),
     rq_tool_choice =
       (case gr_tool_choice g of
          ToolUnspecified \<Rightarrow> TcUnspecified | ToolAuto \<Rightarrow> TcAuto | ToolNone \<Rightarrow> TcNone
        | ToolRequired \<Rightarrow> TcRequired | ToolFunction _ \<Rightarrow> TcFunction),
     rq_reasoning = (case gr_reasoning g of ReasoningEffort _ \<Rightarrow> True | _ \<Rightarrow> False),
     rq_prompt_tokens = Some (tokens_at_least (chat_bytes g)),
     rq_max_tokens = max_tokens\<rparr>"

definition completion_requirements :: "ustr list \<Rightarrow> u32 option \<Rightarrow> request_requirements" where
  "completion_requirements prompts max_tokens =
    no_requirements
      \<lparr>rq_endpoint := Some Completions,
       rq_prompt_tokens := Some (tokens_at_least (fold max (map byte_len prompts) 0)),
       rq_max_tokens := max_tokens\<rparr>"

section \<open>Candidates and gaps\<close>

record candidate =
  ca_deployment :: ustr
  ca_node :: ustr
  ca_remote_model :: ustr
  ca_position :: nat

record eligible =
  el_route :: ustr
  el_candidates :: "candidate list"
  el_skipped :: "(ustr \<times> unavailable_reason) list"
  el_unfit :: "(ustr \<times> capability_gap list) list"
  el_route_size :: nat

definition gaps ::
  "request_requirements \<Rightarrow> deployment_observation option \<Rightarrow> capability_gap list" where
  "gaps needs seen =
    (case seen of
       None \<Rightarrow>
         if rq_endpoint needs \<noteq> None \<or> rq_tools needs \<or> needs_tool_choice needs \<or>
            rq_reasoning needs \<or> rq_prompt_tokens needs \<noteq> None
         then [Unobserved] else []
     | Some ob \<Rightarrow>
         let f = do_capabilities ob
         in (case rq_endpoint needs of
               Some ChatCompletions \<Rightarrow> if \<not> chat_completions f then [ChatUnsupported] else []
             | Some Completions \<Rightarrow> if \<not> completions f then [CompletionUnsupported] else []
             | None \<Rightarrow> []) @
            (if rq_tools needs \<and> \<not> tools f then [ToolsUnsupported] else []) @
            (if needs_tool_choice needs \<and> \<not> (tools f \<and> tool_choice f)
             then [ToolChoiceUnsupported] else []) @
            (if rq_reasoning needs \<and> \<not> reasoning_content f then [ReasoningUnsupported] else []) @
            (case required_context needs of
               Some required \<Rightarrow>
                 if required > do_context_length ob then [ContextTooSmall] else []
             | None \<Rightarrow> []))"

text \<open>The derived order of \<open>CapabilityGap\<close>: the order of its variants.\<close>

fun gap_rank :: "capability_gap \<Rightarrow> nat" where
  "gap_rank ChatUnsupported = 0"
| "gap_rank CompletionUnsupported = 1"
| "gap_rank ToolsUnsupported = 2"
| "gap_rank ToolChoiceUnsupported = 3"
| "gap_rank ReasoningUnsupported = 4"
| "gap_rank ContextTooSmall = 5"
| "gap_rank Unobserved = 6"

lemma gap_rank_inj [simp]: "gap_rank a = gap_rank b \<longleftrightarrow> a = b"
  by (cases a; cases b) auto

instantiation capability_gap :: linorder
begin

definition less_eq_capability_gap :: "capability_gap \<Rightarrow> capability_gap \<Rightarrow> bool" where
  "a \<le> b \<longleftrightarrow> gap_rank a \<le> gap_rank b"

definition less_capability_gap :: "capability_gap \<Rightarrow> capability_gap \<Rightarrow> bool" where
  "a < b \<longleftrightarrow> gap_rank a < gap_rank b"

instance
  by standard (auto simp: less_eq_capability_gap_def less_capability_gap_def)

end

fun split_fit ::
  "request_requirements \<Rightarrow> (ustr \<rightharpoonup> deployment_observation) \<Rightarrow> candidate list \<Rightarrow> candidate list \<Rightarrow>
    (ustr \<times> capability_gap list) list \<Rightarrow> candidate list \<times> (ustr \<times> capability_gap list) list" where
  "split_fit needs obs [] fit unfit = (fit, unfit)"
| "split_fit needs obs (c # cs) fit unfit =
    (let found = gaps needs (obs (ca_deployment c))
     in if found = [] then split_fit needs obs cs (fit @ [c]) unfit
        else split_fit needs obs cs fit (unfit @ [(ca_deployment c, found)]))"

definition capability_filter ::
  "eligible \<Rightarrow> request_requirements \<Rightarrow> (ustr \<rightharpoonup> deployment_observation) \<Rightarrow> routing_failure + eligible"
where
  "capability_filter el needs obs =
    (let (fit, unfit) = split_fit needs obs (el_candidates el) [] (el_unfit el);
         el = el\<lparr>el_candidates := fit, el_unfit := unfit\<rparr>
     in if el_candidates el \<noteq> [] then Inr el
        else if list_ex (\<lambda>(d, _). case obs d of
                                     None \<Rightarrow> False | Some seen \<Rightarrow> gaps needs (Some seen) = [])
                  (el_skipped el)
        then Inl (RouteUnavailable (el_route el))
        else Inl (CapabilityMismatch (el_route el)
                    (remdups_adj (sort (concat (map snd (el_unfit el))))) (el_unfit el)))"

section \<open>In-flight counts\<close>

type_synonym load_book = "ustr \<rightharpoonup> u64"
type_synonym lease = "ustr option"

definition load_new :: "topology \<Rightarrow> load_book" where
  "load_new tp = map_of (map (\<lambda>d. (dp_id d, 0)) (deployments tp))"

definition acquire :: "ustr \<Rightarrow> load_book \<Rightarrow> lease \<times> load_book" where
  "acquire d lb =
    (case lb d of None \<Rightarrow> (None, lb) | Some n \<Rightarrow> (Some d, lb(d \<mapsto> n + 1)))"

definition lease_drop :: "lease \<Rightarrow> load_book \<Rightarrow> load_book" where
  "lease_drop l lb =
    (case l of
       None \<Rightarrow> lb
     | Some d \<Rightarrow> (case lb d of None \<Rightarrow> lb | Some n \<Rightarrow> lb(d \<mapsto> n - 1)))"

definition active :: "ustr \<Rightarrow> load_book \<Rightarrow> u64" where
  "active d lb = (case lb d of None \<Rightarrow> 0 | Some n \<Rightarrow> n)"

section \<open>What the definitions mean\<close>

lemma split_fit_eq:
  "split_fit needs obs cs fit unfit =
    (fit @ filter (\<lambda>c. gaps needs (obs (ca_deployment c)) = []) cs,
     unfit @ map (\<lambda>c. (ca_deployment c, gaps needs (obs (ca_deployment c))))
               (filter (\<lambda>c. gaps needs (obs (ca_deployment c)) \<noteq> []) cs))"
  by (induction cs arbitrary: fit unfit) (auto simp: Let_def)

lemma sorted_remdups_adj: "sorted xs \<Longrightarrow> sorted (remdups_adj xs)"
  by (induction xs rule: remdups_adj.induct) auto

lemma remdups_adj_sort:
  "sorted xs \<Longrightarrow> distinct (remdups_adj xs)"
proof (induction xs rule: remdups_adj.induct)
  case (3 x y xs)
  then show ?case by (cases "x = y") (auto dest: antisym)
qed auto

text \<open>A gap is reported exactly for a requirement the observation does not meet.\<close>

lemma gaps_Some_iff:
  "gaps needs (Some ob) = [] \<longleftrightarrow>
    (rq_endpoint needs = Some ChatCompletions \<longrightarrow> chat_completions (do_capabilities ob)) \<and>
    (rq_endpoint needs = Some Completions \<longrightarrow> completions (do_capabilities ob)) \<and>
    (rq_tools needs \<longrightarrow> tools (do_capabilities ob)) \<and>
    (needs_tool_choice needs \<longrightarrow> tools (do_capabilities ob) \<and> tool_choice (do_capabilities ob)) \<and>
    (rq_reasoning needs \<longrightarrow> reasoning_content (do_capabilities ob)) \<and>
    (\<forall>required. required_context needs = Some required \<longrightarrow> required \<le> do_context_length ob)"
  by (auto simp: gaps_def Let_def not_less split: option.splits endpoint.splits)

lemma context_gap_iff:
  "ContextTooSmall \<in> set (gaps needs (Some ob)) \<longleftrightarrow>
    (\<exists>tokens. rq_prompt_tokens needs = Some tokens \<and> sat_add tokens 1 > do_context_length ob)"
proof (cases "rq_endpoint needs")
  case None
  then show ?thesis
    by (cases "rq_prompt_tokens needs") (simp_all add: gaps_def Let_def required_context_def)
next
  case (Some e)
  then show ?thesis
    by (cases e; cases "rq_prompt_tokens needs")
      (simp_all add: gaps_def Let_def required_context_def)
qed

lemma unat_tokens_at_least:
  "unat (tokens_at_least bytes) = min (2 ^ 32 - 1) ((unat bytes + 5) div 6)"
proof -
  have six: "unat BYTES_PER_TOKEN_CEILING = 6" "BYTES_PER_TOKEN_CEILING \<noteq> 0"
    by (simp_all add: BYTES_PER_TOKEN_CEILING_def)
  have n: "unat (div_ceil bytes BYTES_PER_TOKEN_CEILING) = (unat bytes + 5) div 6"
    unfolding unat_div_ceil [OF six(2)] six(1) by presburger
  show ?thesis
    unfolding tokens_at_least_def Let_def n
    by (auto simp: n unsigned_ucast_eq take_bit_eq_mod)
qed

text \<open>The router refuses a prompt for its length only when the node would: if a chat request is
  ruled out of a deployment as too long for its context, then every tokenizer that covers at most six
  bytes a token counts at least \<open>context_length\<close> tokens in it, which a node refuses.\<close>

theorem context_refusal_sound:
  assumes "ContextTooSmall \<in> set (gaps (chat_requirements g max_tokens) (Some ob))"
    and "unat (chat_bytes g) \<le> 6 * tokens"
  shows "unat (do_context_length ob) \<le> tokens"
proof -
  from assms(1) have "do_context_length ob < sat_add (tokens_at_least (chat_bytes g)) 1"
    by (simp add: context_gap_iff chat_requirements_def)
  then have "unat (do_context_length ob) < unat (sat_add (tokens_at_least (chat_bytes g)) 1)"
    by (simp add: word_less_nat_alt)
  then have "unat (do_context_length ob) \<le> (unat (chat_bytes g) + 5) div 6"
    by (simp add: unat_sat_add unat_tokens_at_least)
  with assms(2) show ?thesis by linarith
qed

definition small_request :: "unit generation_request" where
  "small_request =
    \<lparr>gr_prompt = Chat [\<lparr>cm_role = User, cm_content = ascii ''hello, world and all''\<rparr>], gr_tools = [],
     gr_tool_choice = ToolUnspecified, gr_reasoning = ReasoningDefault\<rparr>"

definition small_window :: deployment_observation where
  "small_window = \<lparr>do_capabilities = no_features, do_context_length = 4,
     do_max_concurrent_requests = 1, do_observed_at = 0\<rparr>"

theorem context_refusal_sound_witness:
  "ContextTooSmall \<in> set (gaps (chat_requirements small_request None) (Some small_window)) \<and>
   unat (chat_bytes small_request) \<le> 6 * 4 \<and> unat (do_context_length small_window) \<le> (4::nat)"
proof -
  have "ContextTooSmall \<in> set (gaps (chat_requirements small_request None) (Some small_window))"
    by code_simp
  moreover have "unat (chat_bytes small_request) \<le> 6 * 4" by code_simp
  ultimately show ?thesis using context_refusal_sound [of small_request None small_window 4] by simp
qed

section \<open>Leases\<close>

text \<open>The history of a load book: attempts take leases, and a lease that is held is dropped at some
  time, in any order. \<open>held\<close> is the list of the leases not yet dropped.\<close>

inductive load_run :: "topology \<Rightarrow> load_book \<Rightarrow> lease list \<Rightarrow> bool" for tp where
  fresh: "load_run tp (load_new tp) []"
| take: "load_run tp lb held \<Longrightarrow> acquire d lb = (l, lb') \<Longrightarrow> load_run tp lb' (l # held)"
| give_back: "load_run tp lb held \<Longrightarrow> l \<in> set held \<Longrightarrow>
    load_run tp (lease_drop l lb) (remove1 l held)"

definition leases_accounted :: "topology \<Rightarrow> load_book \<Rightarrow> lease list \<Rightarrow> bool" where
  "leases_accounted tp lb held \<longleftrightarrow>
    lb = (\<lambda>d. if d \<in> dp_id ` set (deployments tp)
              then Some (word_of_nat (count (mset held) (Some d))) else None) \<and>
    (\<forall>d. Some d \<in> set held \<longrightarrow> d \<in> dp_id ` set (deployments tp))"

lemma load_new_accounted: "leases_accounted tp (load_new tp) []"
proof -
  have "map_of (map (\<lambda>d. (dp_id d, 0)) ds) i = (if i \<in> dp_id ` set ds then Some (0 :: u64) else None)"
    for ds :: "deployment list" and i
    by (induction ds) auto
  then show ?thesis by (auto simp: leases_accounted_def load_new_def fun_eq_iff)
qed

lemma acquire_accounted:
  assumes "leases_accounted tp lb held" "acquire d lb = (l, lb')"
  shows "leases_accounted tp lb' (l # held)"
proof (cases "d \<in> dp_id ` set (deployments tp)")
  case True
  with assms have "l = Some d" "lb' = lb(d \<mapsto> word_of_nat (count (mset held) (Some d)) + 1)"
    by (auto simp: leases_accounted_def acquire_def)
  with True assms(1) show ?thesis by (auto simp: leases_accounted_def)
next
  case False
  with assms have "l = None" "lb' = lb" by (auto simp: leases_accounted_def acquire_def)
  with assms(1) show ?thesis by (auto simp: leases_accounted_def fun_eq_iff)
qed

lemma lease_drop_accounted:
  assumes "leases_accounted tp lb held" "l \<in> set held"
  shows "leases_accounted tp (lease_drop l lb) (remove1 l held)"
proof (cases l)
  case None
  with assms show ?thesis
    by (auto simp: leases_accounted_def lease_drop_def fun_eq_iff dest: notin_set_remove1)
next
  case (Some d)
  then have "0 < count (mset held) (Some d)" using assms(2) by (simp add: count_greater_zero_iff)
  then have "word_of_nat (count (mset held) (Some d)) - 1
      = (word_of_nat (count (mset held) (Some d) - 1) :: u64)"
    by (simp add: of_nat_diff)
  with Some assms show ?thesis
    by (auto simp: leases_accounted_def lease_drop_def fun_eq_iff dest: notin_set_remove1)
qed

lemma load_run_accounted: "load_run tp lb held \<Longrightarrow> leases_accounted tp lb held"
  by (induction rule: load_run.induct)
    (blast intro: load_new_accounted acquire_accounted lease_drop_accounted)+

text \<open>The in-flight count is exact: after any interleaving of attempts taking leases and leases being
  dropped, the count of every configured deployment is the number of leases held on it, and a lease on
  anything else counts nothing.\<close>

theorem in_flight_exact:
  assumes "load_run tp lb held"
  shows "active d lb = word_of_nat (count (mset held) (Some d))"
proof (cases "d \<in> dp_id ` set (deployments tp)")
  case True
  with load_run_accounted [OF assms] show ?thesis by (simp add: leases_accounted_def active_def)
next
  case False
  with load_run_accounted [OF assms] have "lb d = None" "Some d \<notin> set held"
    by (auto simp: leases_accounted_def)
  then have none: "count (mset held) (Some d) = 0" by (simp add: count_eq_zero_iff)
  from \<open>lb d = None\<close> show ?thesis unfolding none by (simp add: active_def)
qed

definition one_deployment :: topology where
  "one_deployment =
    \<lparr>nodes = [], deployments = [\<lparr>dp_id = [1], dp_node = [2], dp_remote_model = [3]\<rparr>], routes = [],
     default_index = None\<rparr>"

theorem in_flight_exact_witness:
  "active [1] (lease_drop (Some [1]) (snd (acquire [1] (snd (acquire [1] (load_new one_deployment))))))
    = word_of_nat (count (mset (remove1 (Some [1]) [Some [1], Some [1]])) (Some ([1] :: ustr)))"
proof (rule in_flight_exact)
  let ?lb = "load_new one_deployment"
  have ids: "?lb = [[1] \<mapsto> 0]" by (simp add: load_new_def one_deployment_def)
  have "load_run one_deployment (snd (acquire [1] ?lb)) [Some [1]]"
    by (rule take [OF fresh, where d = "[1]"]) (simp add: ids acquire_def)
  then have "load_run one_deployment (snd (acquire [1] (snd (acquire [1] ?lb)))) [Some [1], Some [1]]"
    by (rule take [where d = "[1]"]) (simp add: ids acquire_def)
  then show "load_run one_deployment (lease_drop (Some [1]) (snd (acquire [1] (snd (acquire [1] ?lb)))))
      (remove1 (Some [1]) [Some [1], Some [1]])"
    by (rule give_back) simp
qed

end
