(* ===== verification/Router_Select.thy ===== *)
theory Router_Select
  imports Router_Capability Lw_Order
begin

text \<open>
  Which deployments a request is sent to, and in which order: \<open>lightweight-router/src/select.rs\<close>.

  The selector's state is the round-robin cursor of each route, aligned with the topology's routes, and
  the shared in-flight counts. Planning is one step: the cursor is drawn by one atomic addition, and
  least-busy reads the loads and reserves its choice under one lock. Health and observations are the
  maps the health book publishes.
\<close>

section \<open>Types\<close>

datatype selection =
    SelPriority
  | SelRoundRobin u64 nat
  | SelLeastBusy (active_before: u64) (concurrency_limit: "u32 option") (tied: bool)
  | SelSessionAffinity

datatype reassignment =
    StickyUnhealthy | StickyUnavailable | StickyCapabilityMismatch | StickyContextOverflow | StickyFailed

datatype sticky = Hit | Broken reassignment

record plan =
  pl_route :: ustr
  pl_policy :: route_policy
  pl_candidates :: "candidate list"
  pl_skipped :: "(ustr \<times> unavailable_reason) list"
  pl_unfit :: "(ustr \<times> capability_gap list) list"
  pl_selection :: selection
  pl_reservation :: "lease option"
  pl_sticky :: "sticky option"
  pl_route_size :: nat

definition plan_from :: "eligible \<Rightarrow> route_policy \<Rightarrow> selection \<Rightarrow> plan" where
  "plan_from el policy sel =
    \<lparr>pl_route = el_route el, pl_policy = policy, pl_candidates = el_candidates el,
     pl_skipped = el_skipped el, pl_unfit = el_unfit el, pl_selection = sel, pl_reservation = None,
     pl_sticky = None, pl_route_size = el_route_size el\<rparr>"

datatype routing_reason =
    ExplicitSingleDeployment | PrimaryHealthy | PrimaryUnavailableFallback | PrimaryFailedFallback
  | RoundRobinTurn | RoundRobinFailover | LeastBusyChoice | LeastBusyTiebreak | LeastBusyFailover
  | ContextOverflowFailover | SessionAffinity

record routing_decision =
  rd_route :: ustr
  rd_deployment :: ustr
  rd_node :: ustr
  rd_reason :: routing_reason

definition decision :: "plan \<Rightarrow> nat \<Rightarrow> routing_decision option" where
  "decision p attempt =
    (if attempt < length (pl_candidates p)
     then let c = pl_candidates p ! attempt;
              reason =
                (if attempt = 0 \<and> pl_sticky p = Some Hit then SessionAffinity
                 else case pl_policy p of
                   Priority \<Rightarrow>
                     if pl_route_size p = 1 then ExplicitSingleDeployment
                     else if attempt > 0 then PrimaryFailedFallback
                     else if ca_position c = 0 then PrimaryHealthy
                     else PrimaryUnavailableFallback
                 | RoundRobin \<Rightarrow> if attempt > 0 then RoundRobinFailover else RoundRobinTurn
                 | LeastBusy \<Rightarrow>
                     if attempt > 0 then LeastBusyFailover
                     else (case pl_selection p of
                             SelLeastBusy _ _ True \<Rightarrow> LeastBusyTiebreak
                           | _ \<Rightarrow> LeastBusyChoice))
          in Some \<lparr>rd_route = pl_route p, rd_deployment = ca_deployment c, rd_node = ca_node c,
                   rd_reason = reason\<rparr>
     else None)"

section \<open>Eligibility\<close>

fun eligible_loop ::
  "(ustr \<Rightarrow> ustr) \<Rightarrow> topology \<Rightarrow> (ustr \<rightharpoonup> node_status) \<Rightarrow> nat \<Rightarrow> ustr list \<Rightarrow> candidate list \<Rightarrow>
    (ustr \<times> unavailable_reason) list \<Rightarrow> candidate list \<times> (ustr \<times> unavailable_reason) list" where
  "eligible_loop lower tp health position [] candidates skipped = (candidates, skipped)"
| "eligible_loop lower tp health position (i # ids) candidates skipped =
    (case topology_deployment tp i of
       None \<Rightarrow> eligible_loop lower tp health (Suc position) ids candidates skipped
     | Some d \<Rightarrow>
         (case topology_node tp (dp_node d) of
            None \<Rightarrow> eligible_loop lower tp health (Suc position) ids candidates skipped
          | Some n \<Rightarrow>
              (case availability lower n d
                      (case health (nd_id n) of None \<Rightarrow> default_status | Some st \<Rightarrow> st) of
                 Available \<Rightarrow>
                   eligible_loop lower tp health (Suc position) ids
                     (candidates @ [\<lparr>ca_deployment = dp_id d, ca_node = nd_id n,
                                     ca_remote_model = dp_remote_model d, ca_position = position\<rparr>])
                     skipped
               | Unavailable reason \<Rightarrow>
                   eligible_loop lower tp health (Suc position) ids candidates
                     (skipped @ [(dp_id d, reason)]))))"

definition eligible_of ::
  "(ustr \<Rightarrow> ustr) \<Rightarrow> topology \<Rightarrow> route \<Rightarrow> (ustr \<rightharpoonup> node_status) \<Rightarrow> routing_failure + eligible" where
  "eligible_of lower tp r health =
    (let (candidates, skipped) = eligible_loop lower tp health 0 (rt_deployments r) [] []
     in if candidates = [] then Inl (RouteUnavailable (rt_name r))
        else Inr \<lparr>el_route = rt_name r, el_candidates = candidates, el_skipped = skipped,
                  el_unfit = [], el_route_size = length (rt_deployments r)\<rparr>)"

section \<open>The policies\<close>

definition order_priority :: "eligible \<Rightarrow> plan" where
  "order_priority el = plan_from el Priority SelPriority"

definition stateless_plan ::
  "(ustr \<Rightarrow> ustr) \<Rightarrow> topology \<Rightarrow> route \<Rightarrow> (ustr \<rightharpoonup> node_status) \<Rightarrow> routing_failure + plan" where
  "stateless_plan lower tp r health =
    and_then (eligible_of lower tp r health) (\<lambda>el. Inr (order_priority el))"

definition order_round_robin :: "eligible \<Rightarrow> u64 \<Rightarrow> plan" where
  "order_round_robin el cursor =
    (let len = max (length (el_candidates el)) 1;
         start = unat (cursor mod word_of_nat len)
     in plan_from (el\<lparr>el_candidates := rotate start (el_candidates el)\<rparr>) RoundRobin
          (SelRoundRobin cursor start))"

record load =
  ld_active :: u64
  ld_limit :: "u32 option"

definition capacity :: "load \<Rightarrow> u64 option" where
  "capacity l = (case ld_limit l of None \<Rightarrow> None | Some n \<Rightarrow> if n > 0 then Some (ucast n) else None)"

type_synonym u128 = "128 word"

definition compare_load :: "load \<Rightarrow> load \<Rightarrow> order" where
  "compare_load a b =
    (case (capacity a, capacity b) of
       (Some limit_a, Some limit_b) \<Rightarrow>
         cmp ((ucast (ld_active a) :: u128) * ucast limit_b)
             ((ucast (ld_active b) :: u128) * ucast limit_a)
     | (Some _, None) \<Rightarrow> Less
     | (None, Some _) \<Rightarrow> Greater
     | (None, None) \<Rightarrow> cmp (ld_active a) (ld_active b))"

definition compare_ranked :: "candidate \<times> load \<Rightarrow> candidate \<times> load \<Rightarrow> order" where
  "compare_ranked a b =
    order_then (compare_load (snd a) (snd b)) (cmp (ca_position (fst a)) (ca_position (fst b)))"

definition ranked_loads :: "candidate list \<Rightarrow> load list \<Rightarrow> (candidate \<times> load) list" where
  "ranked_loads cs loads =
    sort_by compare_ranked
      (map (\<lambda>(i, c). (c, if i < length loads then loads ! i else \<lparr>ld_active = 0, ld_limit = None\<rparr>))
        (enumerate 0 cs))"

definition order_least_busy :: "eligible \<Rightarrow> load list \<Rightarrow> plan" where
  "order_least_busy el loads =
    (let ranked = ranked_loads (el_candidates el) loads;
         (before, limit) =
           (case ranked of
              [] \<Rightarrow> (0, None)
            | (_, l) # _ \<Rightarrow>
                (ld_active l,
                 case capacity l of None \<Rightarrow> None | Some c \<Rightarrow> if unat c < 2 ^ 32 then Some (ucast c) else None));
         tie = (case ranked of
                  (_, first) # (_, second) # _ \<Rightarrow> compare_load first second = Equal
                | _ \<Rightarrow> False)
     in plan_from (el\<lparr>el_candidates := map fst ranked\<rparr>) LeastBusy (SelLeastBusy before limit tie))"

section \<open>The selector\<close>

record selector =
  sel_cursors :: "u64 list"
  sel_load :: load_book

definition selector_new :: "topology \<Rightarrow> load_book \<Rightarrow> selector" where
  "selector_new tp lb = \<lparr>sel_cursors = map (\<lambda>_. 0) (routes tp), sel_load = lb\<rparr>"

definition route_state :: "selector \<Rightarrow> topology \<Rightarrow> ustr \<Rightarrow> nat option" where
  "route_state sel tp name =
    (case index_where (\<lambda>r. rt_name r = name) (routes tp) of
       None \<Rightarrow> None
     | Some i \<Rightarrow> if i < length (sel_cursors sel) then Some i else None)"

definition cursor_of :: "selector \<Rightarrow> topology \<Rightarrow> ustr \<Rightarrow> u64 option" where
  "cursor_of sel tp name = map_option (\<lambda>i. sel_cursors sel ! i) (route_state sel tp name)"

definition loads_of ::
  "load_book \<Rightarrow> (ustr \<rightharpoonup> deployment_observation) \<Rightarrow> candidate list \<Rightarrow> load list" where
  "loads_of lb obs cs =
    map (\<lambda>c. \<lparr>ld_active = active (ca_deployment c) lb,
              ld_limit = map_option do_max_concurrent_requests (obs (ca_deployment c))\<rparr>) cs"

definition reserve_first :: "plan \<Rightarrow> selector \<Rightarrow> plan \<times> selector" where
  "reserve_first p sel =
    (case pl_candidates p of
       [] \<Rightarrow> (p\<lparr>pl_reservation := None\<rparr>, sel)
     | c # _ \<Rightarrow>
         let (l, lb) = acquire (ca_deployment c) (sel_load sel)
         in (p\<lparr>pl_reservation := Some l\<rparr>, sel\<lparr>sel_load := lb\<rparr>))"

definition sticky_standing :: "eligible \<Rightarrow> ustr \<Rightarrow> reassignment + nat" where
  "sticky_standing el i =
    (case index_where (\<lambda>c. ca_deployment c = i) (el_candidates el) of
       Some index \<Rightarrow> Inr index
     | None \<Rightarrow>
         if list_ex (\<lambda>(d, _). d = i) (el_unfit el) then Inl StickyCapabilityMismatch
         else (case find (\<lambda>(d, _). d = i) (el_skipped el) of
                 Some (_, NodeUnhealthy) \<Rightarrow> Inl StickyUnhealthy
               | Some (_, NodeUnknown) \<Rightarrow> Inl StickyUnhealthy
               | _ \<Rightarrow> Inl StickyUnavailable))"

definition plan_sticky ::
  "selector \<Rightarrow> route_policy \<Rightarrow> nat option \<Rightarrow> eligible \<Rightarrow> nat \<Rightarrow>
    (ustr \<rightharpoonup> deployment_observation) \<Rightarrow> plan \<times> selector" where
  "plan_sticky sel policy state el index obs =
    (let finish = (\<lambda>p. reserve_first (p\<lparr>pl_sticky := Some Hit\<rparr>) sel)
     in case (policy, state) of
          (RoundRobin, Some _) \<Rightarrow>
            finish (plan_from (el\<lparr>el_candidates := rotate index (el_candidates el)\<rparr>) RoundRobin
                      SelSessionAffinity)
        | (LeastBusy, Some _) \<Rightarrow>
            let first = el_candidates el ! index;
                el = el\<lparr>el_candidates := remove_at index (el_candidates el)\<rparr>;
                rest = order_least_busy el (loads_of (sel_load sel) obs (el_candidates el))
            in finish (rest\<lparr>pl_candidates := first # pl_candidates rest,
                            pl_selection := SelSessionAffinity\<rparr>)
        | _ \<Rightarrow>
            finish (plan_from
                      (el\<lparr>el_candidates := el_candidates el ! index # remove_at index (el_candidates el)\<rparr>)
                      policy SelSessionAffinity))"

definition standing_of :: "eligible \<Rightarrow> ustr option \<Rightarrow> (reassignment + nat) option" where
  "standing_of el i = map_option (sticky_standing el) i"

definition broken_of :: "(reassignment + nat) option \<Rightarrow> sticky option" where
  "broken_of standing = (case standing of Some (Inl r) \<Rightarrow> Some (Broken r) | _ \<Rightarrow> None)"

definition plan_policy ::
  "selector \<Rightarrow> route_policy \<Rightarrow> nat option \<Rightarrow> eligible \<Rightarrow> (ustr \<rightharpoonup> deployment_observation) \<Rightarrow>
    plan \<times> selector" where
  "plan_policy sel policy state el obs =
    (case (policy, state) of
       (RoundRobin, Some i) \<Rightarrow>
         (order_round_robin el (sel_cursors sel ! i),
          sel\<lparr>sel_cursors := (sel_cursors sel)[i := sel_cursors sel ! i + 1]\<rparr>)
     | (LeastBusy, Some _) \<Rightarrow>
         (order_least_busy el (loads_of (sel_load sel) obs (el_candidates el)), sel)
     | _ \<Rightarrow> (order_priority el, sel))"

definition plan_with_affinity ::
  "(ustr \<Rightarrow> ustr) \<Rightarrow> selector \<Rightarrow> topology \<Rightarrow> route \<Rightarrow> (ustr \<rightharpoonup> node_status) \<Rightarrow>
    (ustr \<rightharpoonup> deployment_observation) \<Rightarrow> request_requirements \<Rightarrow> ustr option \<Rightarrow>
    routing_failure + plan \<times> selector" where
  "plan_with_affinity lower sel tp r health obs needs sticky_id =
    and_then (eligible_of lower tp r health) (\<lambda>el.
    and_then (capability_filter el needs obs) (\<lambda>el.
      let state = route_state sel tp (rt_name r);
          standing = standing_of el sticky_id
      in case standing of
           Some (Inr index) \<Rightarrow> Inr (plan_sticky sel (rt_policy r) state el index obs)
         | _ \<Rightarrow>
             let (p, sel) = plan_policy sel (rt_policy r) state el obs;
                 (p, sel) = reserve_first p sel
             in Inr (p\<lparr>pl_sticky := broken_of standing\<rparr>, sel)))"

definition plan_request ::
  "(ustr \<Rightarrow> ustr) \<Rightarrow> selector \<Rightarrow> topology \<Rightarrow> route \<Rightarrow> (ustr \<rightharpoonup> node_status) \<Rightarrow>
    (ustr \<rightharpoonup> deployment_observation) \<Rightarrow> request_requirements \<Rightarrow> routing_failure + plan \<times> selector" where
  "plan_request lower sel tp r health obs needs =
    plan_with_affinity lower sel tp r health obs needs None"

section \<open>What a route advertises\<close>

record route_summary =
  rs_available :: bool
  rs_context_length :: "u32 option"
  rs_capabilities :: feature_set
  rs_max_concurrent_requests :: "u32 option"

definition min_opt :: "u32 option \<Rightarrow> u32 \<Rightarrow> u32 option" where
  "min_opt so_far n = Some (case so_far of None \<Rightarrow> n | Some c \<Rightarrow> min c n)"

fun summarize_loop ::
  "(ustr \<rightharpoonup> deployment_observation) \<Rightarrow> candidate list \<Rightarrow> u32 option \<Rightarrow> feature_set option \<Rightarrow>
    u32 option \<Rightarrow> bool \<Rightarrow> u32 option \<times> feature_set option \<times> u32 option \<times> bool" where
  "summarize_loop obs [] ctx caps conc every = (ctx, caps, conc, every)"
| "summarize_loop obs (c # cs) ctx caps conc every =
    (case obs (ca_deployment c) of
       None \<Rightarrow> summarize_loop obs cs ctx caps conc False
     | Some seen \<Rightarrow>
         summarize_loop obs cs (min_opt ctx (do_context_length seen))
           (Some (case caps of
                    Some so_far \<Rightarrow> intersect so_far (do_capabilities seen)
                  | None \<Rightarrow> do_capabilities seen))
           (min_opt conc (do_max_concurrent_requests seen)) every)"

definition summarize ::
  "(ustr \<Rightarrow> ustr) \<Rightarrow> topology \<Rightarrow> route \<Rightarrow> (ustr \<rightharpoonup> node_status) \<Rightarrow>
    (ustr \<rightharpoonup> deployment_observation) \<Rightarrow> route_summary" where
  "summarize lower tp r health obs =
    (case eligible_of lower tp r health of
       Inl _ \<Rightarrow> \<lparr>rs_available = False, rs_context_length = None, rs_capabilities = no_features,
                 rs_max_concurrent_requests = None\<rparr>
     | Inr el \<Rightarrow>
         let (ctx, caps, conc, every) = summarize_loop obs (el_candidates el) None None None True
         in if \<not> every
            then \<lparr>rs_available = True, rs_context_length = None, rs_capabilities = no_features,
                  rs_max_concurrent_requests = None\<rparr>
            else \<lparr>rs_available = True, rs_context_length = ctx,
                  rs_capabilities = (case caps of None \<Rightarrow> no_features | Some f \<Rightarrow> f),
                  rs_max_concurrent_requests = conc\<rparr>)"

end
