(* ===== verification/Router_Affinity.thy ===== *)
theory Router_Affinity
  imports Router_Health "HOL-Library.AList" "HOL-Library.Multiset"
begin

text \<open>
  Session affinity: \<open>lightweight-router/src/affinity.rs\<close>.

  Instants and durations are natural numbers of one unit, and each operation reads the clock once. The
  hash map is an association list with distinct keys whose order stands for the map's unspecified
  iteration order: the state machine below may permute it at any time. The keyed hash of a session id is
  a parameter, \<open>hash_one\<close>; nothing is assumed of it. Header values arrive as strings.
\<close>

section \<open>Sessions\<close>

definition MAX_SESSION_ID :: nat where "MAX_SESSION_ID = 256"

record affinity_policy =
  ap_enabled :: bool
  ap_header :: ustr
  ap_idle_ttl :: nat
  ap_max_entries :: nat

record affinity_key =
  ak_route :: ustr
  ak_session :: u64

record affinity_entry =
  ae_deployment :: ustr
  ae_created :: nat
  ae_last_used :: nat

datatype established = New | Unchanged | KeptExisting ustr

record affinity_book =
  ab_policy :: affinity_policy
  ab_entries :: "(affinity_key \<times> affinity_entry) list"
  ab_expired :: u64
  ab_capacity :: u64

definition affinity_new :: "affinity_policy \<Rightarrow> affinity_book" where
  "affinity_new policy = \<lparr>ab_policy = policy, ab_entries = [], ab_expired = 0, ab_capacity = 0\<rparr>"

definition usable :: "ustr \<Rightarrow> bool" where
  "usable i \<longleftrightarrow> i \<noteq> [] \<and> length i \<le> MAX_SESSION_ID \<and> list_all (\<lambda>c. 33 \<le> c \<and> c \<le> 126) i"

definition affinity_key_of :: "(ustr \<Rightarrow> u64) \<Rightarrow> ustr \<Rightarrow> ustr \<Rightarrow> affinity_key" where
  "affinity_key_of hash_one route i = \<lparr>ak_route = route, ak_session = hash_one i\<rparr>"

definition session ::
  "(ustr \<Rightarrow> u64) \<Rightarrow> affinity_book \<Rightarrow> ustr \<Rightarrow> (ustr \<rightharpoonup> ustr) \<Rightarrow> affinity_key option" where
  "session hash_one bk route headers =
    (if \<not> ap_enabled (ab_policy bk) then None
     else (case headers (ap_header (ab_policy bk)) of
             None \<Rightarrow> None
           | Some value \<Rightarrow>
               let i = trim value
               in if usable i then Some (affinity_key_of hash_one route i) else None))"

section \<open>The book\<close>

definition entry_expired :: "affinity_policy \<Rightarrow> affinity_entry \<Rightarrow> nat \<Rightarrow> bool" where
  "entry_expired policy e now \<longleftrightarrow> now - ae_last_used e > ap_idle_ttl policy"

abbreviation live :: "affinity_policy \<Rightarrow> nat \<Rightarrow> (affinity_key \<times> affinity_entry) list \<Rightarrow>
    (affinity_key \<times> affinity_entry) list" where
  "live policy now es \<equiv> filter (\<lambda>(_, e). \<not> entry_expired policy e now) es"

fun oldest :: "(affinity_key \<times> affinity_entry) list \<Rightarrow> affinity_key option" where
  "oldest [] = None"
| "oldest [(k, e)] = Some k"
| "oldest ((k, e) # (k', e') # es) =
    (if ae_last_used e \<le> ae_last_used e' then oldest ((k, e) # es) else oldest ((k', e') # es))"

lemma oldest_in: "oldest es = Some k \<Longrightarrow> k \<in> fst ` set es"
  by (induction es rule: oldest.induct) (auto split: if_splits)

function evict_lru :: "nat \<Rightarrow> (affinity_key \<times> affinity_entry) list \<Rightarrow> u64 \<Rightarrow>
    (affinity_key \<times> affinity_entry) list \<times> u64" where
  "evict_lru max_entries es n =
    (if length es \<ge> max_entries
     then (case oldest es of
             None \<Rightarrow> (es, n)
           | Some k \<Rightarrow> evict_lru max_entries (AList.delete k es) (n + 1))
     else (es, n))"
  by pat_completeness auto
termination
proof (relation "measure (\<lambda>(_, es, _). length es)")
  fix max_entries es and n :: u64 and k
  assume "oldest es = Some k"
  then have "k \<in> fst ` set es" by (rule oldest_in)
  then show "((max_entries, AList.delete k es, n + 1), (max_entries, es, n))
      \<in> measure (\<lambda>(_, es, _). length es)"
    by (auto simp: AList.delete_eq intro!: length_filter_less)
qed simp

declare evict_lru.simps [simp del]

definition affinity_insert :: "affinity_key \<Rightarrow> ustr \<Rightarrow> nat \<Rightarrow> affinity_book \<Rightarrow> affinity_book" where
  "affinity_insert key d now bk =
    (let policy = ab_policy bk; es = ab_entries bk
     in case map_of es key of
          Some e \<Rightarrow>
            bk\<lparr>ab_entries := AList.update key
                 \<lparr>ae_deployment = d,
                  ae_created = (if ae_deployment e = d \<and> \<not> entry_expired policy e now
                                then ae_created e else now),
                  ae_last_used = now\<rparr> es\<rparr>
        | None \<Rightarrow>
            let full = length es \<ge> ap_max_entries policy;
                kept = (if full then live policy now es else es);
                gone = (if full then word_of_nat (length es - length kept) else 0);
                (kept, cap) = evict_lru (ap_max_entries policy) kept (ab_capacity bk)
            in bk\<lparr>ab_entries := (key, \<lparr>ae_deployment = d, ae_created = now, ae_last_used = now\<rparr>) # kept,
                  ab_expired := ab_expired bk + gone, ab_capacity := cap\<rparr>)"

definition lookup_at :: "affinity_key \<Rightarrow> nat \<Rightarrow> affinity_book \<Rightarrow> ustr option \<times> affinity_book" where
  "lookup_at key now bk =
    (case map_of (ab_entries bk) key of
       None \<Rightarrow> (None, bk)
     | Some e \<Rightarrow>
         if entry_expired (ab_policy bk) e now
         then (None, bk\<lparr>ab_entries := AList.delete key (ab_entries bk), ab_expired := ab_expired bk + 1\<rparr>)
         else (Some (ae_deployment e),
               bk\<lparr>ab_entries := AList.update key (e\<lparr>ae_last_used := now\<rparr>) (ab_entries bk)\<rparr>))"

definition establish_at ::
  "affinity_key \<Rightarrow> ustr \<Rightarrow> nat \<Rightarrow> affinity_book \<Rightarrow> established \<times> affinity_book" where
  "establish_at key d now bk =
    (case map_of (ab_entries bk) key of
       Some e \<Rightarrow>
         if \<not> entry_expired (ab_policy bk) e now
         then (if ae_deployment e = d then Unchanged else KeptExisting (ae_deployment e),
               bk\<lparr>ab_entries := AList.update key (e\<lparr>ae_last_used := now\<rparr>) (ab_entries bk)\<rparr>)
         else (New, affinity_insert key d now bk)
     | None \<Rightarrow> (New, affinity_insert key d now bk))"

definition reassign_at :: "affinity_key \<Rightarrow> ustr \<Rightarrow> nat \<Rightarrow> affinity_book \<Rightarrow> affinity_book" where
  "reassign_at key d now bk = affinity_insert key d now bk"

definition sweep_at :: "nat \<Rightarrow> affinity_book \<Rightarrow> nat \<times> affinity_book" where
  "sweep_at now bk =
    (let es = ab_entries bk; kept = live (ab_policy bk) now es; removed = length es - length kept
     in (removed, bk\<lparr>ab_entries := kept, ab_expired := ab_expired bk + word_of_nat removed\<rparr>))"

definition sweep_interval :: "nat \<Rightarrow> affinity_book \<Rightarrow> nat" where
  "sweep_interval second bk = min (max (ap_idle_ttl (ab_policy bk)) second) (60 * second)"

section \<open>Invariants\<close>

inductive affinity_run :: "affinity_policy \<Rightarrow> affinity_book \<Rightarrow> bool" for policy where
  start: "affinity_run policy (affinity_new policy)"
| lookup: "affinity_run policy bk \<Longrightarrow> affinity_run policy (snd (lookup_at key now bk))"
| establish: "affinity_run policy bk \<Longrightarrow> affinity_run policy (snd (establish_at key d now bk))"
| reassign: "affinity_run policy bk \<Longrightarrow> affinity_run policy (reassign_at key d now bk)"
| sweep: "affinity_run policy bk \<Longrightarrow> affinity_run policy (snd (sweep_at now bk))"
| rehash: "affinity_run policy bk \<Longrightarrow> mset es = mset (ab_entries bk) \<Longrightarrow>
    affinity_run policy (bk\<lparr>ab_entries := es\<rparr>)"

definition affinity_ok :: "affinity_policy \<Rightarrow> affinity_book \<Rightarrow> bool" where
  "affinity_ok policy bk \<longleftrightarrow>
    ab_policy bk = policy \<and> distinct (map fst (ab_entries bk)) \<and>
    length (ab_entries bk) \<le> max 1 (ap_max_entries policy)"

lemma oldest_minimal:
  "oldest es = Some k \<Longrightarrow> \<exists>e. (k, e) \<in> set es \<and> (\<forall>(k', e') \<in> set es. ae_last_used e \<le> ae_last_used e')"
proof (induction es rule: oldest.induct)
  case (3 k0 e k' e' es)
  show ?case
  proof (cases "ae_last_used e \<le> ae_last_used e'")
    case True
    with 3 obtain m where "(k, m) \<in> set ((k0, e) # es)"
      "\<forall>(k', e') \<in> set ((k0, e) # es). ae_last_used m \<le> ae_last_used e'" by auto
    with True show ?thesis by (intro exI [of _ m]) auto
  next
    case False
    with 3 obtain m where "(k, m) \<in> set ((k', e') # es)"
      "\<forall>(k', e') \<in> set ((k', e') # es). ae_last_used m \<le> ae_last_used e'" by auto
    with False show ?thesis by (intro exI [of _ m]) auto
  qed
qed auto

lemma oldest_None: "oldest es = None \<longleftrightarrow> es = []"
  by (induction es rule: oldest.induct) auto

lemma evict_lru_sub:
  "set (fst (evict_lru m es n)) \<subseteq> set es \<and>
   (distinct (map fst es) \<longrightarrow> distinct (map fst (fst (evict_lru m es n))))"
proof (induction m es n rule: evict_lru.induct)
  case (1 m es n)
  show ?case
  proof (cases "m \<le> length es")
    case True
    show ?thesis
    proof (cases "oldest es")
      case (Some k)
      have "distinct (map fst es) \<Longrightarrow> distinct (map fst (AList.delete k es))" by (rule distinct_delete)
      moreover have "set (AList.delete k es) \<subseteq> set es" by (auto simp: AList.delete_eq)
      ultimately show ?thesis
        using 1 True Some by (simp add: evict_lru.simps [of m es n]) blast
    qed (simp add: evict_lru.simps [of m es n])
  qed (simp add: evict_lru.simps [of m es n])
qed

lemma evict_lru_room: "length (fst (evict_lru m es n)) < max 1 m"
proof (induction m es n rule: evict_lru.induct)
  case (1 m es n)
  show ?case
  proof (cases "oldest es")
    case None
    then have "es = []" by (simp add: oldest_None)
    then show ?thesis by (simp add: evict_lru.simps [of m "[]"])
  next
    case (Some k)
    with 1 show ?thesis by (auto simp: evict_lru.simps [of m es n])
  qed
qed

lemma evict_lru_oldest:
  "distinct (map fst es) \<Longrightarrow> x \<in> set es \<Longrightarrow> x \<notin> set (fst (evict_lru m es n)) \<Longrightarrow>
    m \<le> length es \<and> (\<forall>y \<in> set (fst (evict_lru m es n)). ae_last_used (snd x) \<le> ae_last_used (snd y))"
proof (induction m es n rule: evict_lru.induct)
  case (1 m es n)
  then have full: "m \<le> length es" by (auto simp: evict_lru.simps [of m es n] split: if_splits)
  with 1 obtain k where k: "oldest es = Some k"
    by (cases "oldest es") (auto simp: evict_lru.simps [of m es n])
  let ?rest = "AList.delete k es"
  have step: "fst (evict_lru m es n) = fst (evict_lru m ?rest (n + 1))"
    using full k by (simp add: evict_lru.simps [of m es n])
  obtain e where e: "(k, e) \<in> set es" "\<forall>(k', e') \<in> set es. ae_last_used e \<le> ae_last_used e'"
    using oldest_minimal [OF k] by blast
  show ?case
  proof (cases "x \<in> set ?rest")
    case True
    with 1 full k step show ?thesis by (simp add: distinct_delete)
  next
    case False
    with 1(3) have "fst x = k" by (auto simp: AList.delete_eq)
    with 1(2,3) e(1) have "x = (k, e)" by (metis eq_key_imp_eq_value prod.collapse)
    moreover have "set (fst (evict_lru m es n)) \<subseteq> set es" using evict_lru_sub by blast
    ultimately show ?thesis using e(2) full by fastforce
  qed
qed

lemma length_update_known:
  "map_of es key = Some e \<Longrightarrow> length (AList.update key v es) = length es"
  by (induction es) (auto split: if_splits)

lemma affinity_insert_ok:
  assumes "affinity_ok policy bk"
  shows "affinity_ok policy (affinity_insert key d now bk)"
proof (cases "map_of (ab_entries bk) key")
  case (Some e)
  with assms show ?thesis
    by (auto simp: affinity_ok_def affinity_insert_def Let_def distinct_update length_update_known)
next
  case None
  define kept where "kept = (if ap_max_entries policy \<le> length (ab_entries bk)
      then live policy now (ab_entries bk) else ab_entries bk)"
  let ?left = "fst (evict_lru (ap_max_entries policy) kept (ab_capacity bk))"
  have "distinct (map fst kept)" "set kept \<subseteq> set (ab_entries bk)"
    using assms by (auto simp: kept_def affinity_ok_def distinct_map_filter)
  moreover have "key \<notin> fst ` set (ab_entries bk)" using None by (simp add: map_of_eq_None_iff)
  ultimately have "distinct (map fst ?left)" "key \<notin> fst ` set ?left"
    using evict_lru_sub by blast+
  moreover have "ab_policy bk = policy" using assms by (simp add: affinity_ok_def)
  ultimately show ?thesis
    using None evict_lru_room [of "ap_max_entries policy" kept "ab_capacity bk"]
    by (auto simp: affinity_ok_def affinity_insert_def Let_def kept_def case_prod_unfold)
qed

lemma delete_ok: "affinity_ok policy bk \<Longrightarrow>
    affinity_ok policy (bk\<lparr>ab_entries := AList.delete key (ab_entries bk), ab_expired := n\<rparr>)"
  using length_delete_le [of key "ab_entries bk"] by (auto simp: affinity_ok_def distinct_delete)

lemma touch_ok: "affinity_ok policy bk \<Longrightarrow> map_of (ab_entries bk) key = Some e \<Longrightarrow>
    affinity_ok policy (bk\<lparr>ab_entries := AList.update key e' (ab_entries bk)\<rparr>)"
  by (auto simp: affinity_ok_def distinct_update length_update_known)

lemma affinity_run_ok: "affinity_run policy bk \<Longrightarrow> affinity_ok policy bk"
proof (induction rule: affinity_run.induct)
  case start
  show ?case by (simp add: affinity_ok_def affinity_new_def)
next
  case (lookup bk key now)
  then show ?case by (auto simp: lookup_at_def delete_ok touch_ok split: option.splits)
next
  case (establish bk key d now)
  then show ?case by (auto simp: establish_at_def affinity_insert_ok touch_ok split: option.splits)
next
  case (reassign bk key d now)
  then show ?case by (simp add: reassign_at_def affinity_insert_ok)
next
  case (sweep bk now)
  then show ?case
    by (auto simp: sweep_at_def affinity_ok_def Let_def distinct_map_filter
        intro: le_trans [OF length_filter_le])
next
  case (rehash bk es)
  then have "length es = length (ab_entries bk)" by (metis size_mset)
  moreover have "mset (map fst es) = mset (map fst (ab_entries bk))" using rehash by simp
  then have "distinct (map fst es) = distinct (map fst (ab_entries bk))" by (rule mset_eq_imp_distinct_iff)
  ultimately show ?case using rehash by (simp add: affinity_ok_def)
qed

text \<open>C22. The affinity book is bounded: after any sequence of lookups, commits, moves and sweeps, at any
  clock readings and in any iteration order of the map, it holds one entry per session and at most
  \<open>max_entries\<close> of them (one, should the limit be zero, which the configuration refuses).\<close>

theorem affinity_bounded:
  assumes "affinity_run policy bk"
  shows "distinct (map fst (ab_entries bk)) \<and> length (ab_entries bk) \<le> max 1 (ap_max_entries policy)"
  using affinity_run_ok [OF assms] by (simp add: affinity_ok_def)

definition demo_policy :: affinity_policy where
  "demo_policy = \<lparr>ap_enabled = True, ap_header = [1], ap_idle_ttl = 10, ap_max_entries = 2\<rparr>"

definition demo_key :: "u64 \<Rightarrow> affinity_key" where
  "demo_key s = \<lparr>ak_route = [1], ak_session = s\<rparr>"

definition demo_book :: affinity_book where
  "demo_book =
    snd (establish_at (demo_key 3) [33] 3 (snd (establish_at (demo_key 2) [22] 2
      (snd (establish_at (demo_key 1) [11] 1 (affinity_new demo_policy))))))"

theorem affinity_bounded_witness:
  "distinct (map fst (ab_entries demo_book)) \<and> length (ab_entries demo_book) \<le> max 1 2"
proof -
  have "affinity_run demo_policy demo_book"
    unfolding demo_book_def by (intro affinity_run.intros)
  from affinity_bounded [OF this] show ?thesis by (simp add: demo_policy_def)
qed

text \<open>The first commit of a session wins: after committing, and for as long as the session does not
  idle past its TTL, a lookup finds the deployment the session already preferred at that moment, and
  the newly committed one only when there was none.\<close>

theorem first_commit_wins:
  assumes "later - now \<le> ap_idle_ttl (ab_policy bk)"
  shows "fst (lookup_at key later (snd (establish_at key d now bk))) =
    Some (case fst (lookup_at key now bk) of Some preferred \<Rightarrow> preferred | None \<Rightarrow> d)"
proof -
  have inserted: "map_of (ab_entries (affinity_insert key d now bk)) key =
      Some \<lparr>ae_deployment = d,
            ae_created = (case map_of (ab_entries bk) key of
               Some e \<Rightarrow> if ae_deployment e = d \<and> \<not> entry_expired (ab_policy bk) e now
                         then ae_created e else now
             | None \<Rightarrow> now),
            ae_last_used = now\<rparr>"
    by (auto simp: affinity_insert_def Let_def update_conv case_prod_unfold split: option.splits)
  moreover have "ab_policy (affinity_insert key d now bk) = ab_policy bk"
    by (auto simp: affinity_insert_def Let_def case_prod_unfold split: option.splits)
  ultimately show ?thesis
    using assms
    by (auto simp: lookup_at_def establish_at_def entry_expired_def update_conv split: option.splits)
qed

theorem first_commit_wins_witness:
  "fst (lookup_at (demo_key 3) 9 (snd (establish_at (demo_key 3) [44] 5 demo_book))) = Some [33]"
proof -
  have "9 - 5 \<le> ap_idle_ttl (ab_policy demo_book)" by code_simp
  from first_commit_wins [OF this, of "demo_key 3" "[44]"]
  have "fst (lookup_at (demo_key 3) 9 (snd (establish_at (demo_key 3) [44] 5 demo_book))) =
      Some (case fst (lookup_at (demo_key 3) 5 demo_book) of Some p \<Rightarrow> p | None \<Rightarrow> [44])" .
  moreover have "fst (lookup_at (demo_key 3) 5 demo_book) = Some [33]" by code_simp
  ultimately show ?thesis by simp
qed

text \<open>Room is made in the documented order: a session is dropped for a new one only when the book is
  full, and then either it had expired, or no expired session is left and every session that stays was
  used at least as recently.\<close>

theorem eviction_order:
  assumes "affinity_run policy bk" "map_of (ab_entries bk) key = None"
    and "x \<in> set (ab_entries bk)" "x \<notin> set (ab_entries (affinity_insert key d now bk))"
  shows "ap_max_entries policy \<le> length (ab_entries bk) \<and>
    (entry_expired policy (snd x) now \<or>
     (\<forall>y \<in> set (ab_entries (affinity_insert key d now bk)) - {(key, \<lparr>ae_deployment = d, ae_created = now, ae_last_used = now\<rparr>)}.
        \<not> entry_expired policy (snd y) now \<and> ae_last_used (snd x) \<le> ae_last_used (snd y)))"
proof -
  have ok: "ab_policy bk = policy" "distinct (map fst (ab_entries bk))"
    using affinity_run_ok [OF assms(1)] by (simp_all add: affinity_ok_def)
  define kept where "kept = (if ap_max_entries policy \<le> length (ab_entries bk)
      then live policy now (ab_entries bk) else ab_entries bk)"
  let ?left = "fst (evict_lru (ap_max_entries policy) kept (ab_capacity bk))"
  have entries: "ab_entries (affinity_insert key d now bk) =
      (key, \<lparr>ae_deployment = d, ae_created = now, ae_last_used = now\<rparr>) # ?left"
    using assms(2) ok by (simp add: affinity_insert_def Let_def kept_def case_prod_unfold)
  have gone: "x \<notin> set ?left" using assms(4) by (simp add: entries)
  have distinct_kept: "distinct (map fst kept)" using ok by (simp add: kept_def distinct_map_filter)
  show ?thesis
  proof (cases "ap_max_entries policy \<le> length (ab_entries bk)")
    case full: True
    show ?thesis
    proof (cases "x \<in> set kept")
      case True
      have "\<forall>y \<in> set ?left. ae_last_used (snd x) \<le> ae_last_used (snd y)"
        using evict_lru_oldest [OF distinct_kept True gone] by blast
      moreover have "\<forall>y \<in> set ?left. \<not> entry_expired policy (snd y) now"
        using evict_lru_sub [of "ap_max_entries policy" kept "ab_capacity bk"] full by (auto simp: kept_def)
      ultimately show ?thesis using full by (simp add: entries)
    next
      case False
      with assms(3) full show ?thesis by (auto simp: kept_def)
    qed
  next
    case False
    then have "?left = ab_entries bk" by (simp add: kept_def evict_lru.simps)
    with gone assms(3) show ?thesis by simp
  qed
qed

theorem eviction_order_witness:
  "\<exists>x \<in> set (ab_entries demo_book). x \<notin> set (ab_entries (affinity_insert (demo_key 4) [44] 4 demo_book)) \<and>
    ap_max_entries demo_policy \<le> length (ab_entries demo_book)"
proof -
  let ?x = "(demo_key 2, \<lparr>ae_deployment = [22], ae_created = 2, ae_last_used = 2\<rparr>)"
  have "affinity_run demo_policy demo_book"
    unfolding demo_book_def by (intro affinity_run.intros)
  moreover have "map_of (ab_entries demo_book) (demo_key 4) = None" by code_simp
  moreover have x: "?x \<in> set (ab_entries demo_book)"
    "?x \<notin> set (ab_entries (affinity_insert (demo_key 4) [44] 4 demo_book))" by code_simp+
  ultimately have "ap_max_entries demo_policy \<le> length (ab_entries demo_book)"
    using eviction_order [of demo_policy demo_book "demo_key 4" ?x "[44]" 4] by blast
  with x show ?thesis by blast
qed

end
