(* ===== verification/Router_Fallback.thy ===== *)
theory Router_Fallback
  imports Router_Health "HOL-Library.AList" "HOL-Library.Multiset"
begin

text \<open>
  Explicit fallback between routes, \<open>lightweight-router/src/fallback.rs\<close>: the validation of the section of
  the configuration file, with its search for a cycle, and the list a request follows. The texts of the
  problems are the constructors of \<open>fallback_problem\<close>; the section, a \<open>BTreeMap\<close>, is its list of entries
  in key order.
\<close>

section \<open>Vocabulary\<close>

definition MAX_FALLBACK_ROUTES :: nat where "MAX_FALLBACK_ROUTES = 3"

definition AUTO_ROUTE :: ustr where "AUTO_ROUTE = ascii ''Auto''"

definition is_auto :: "(ustr \<Rightarrow> ustr) \<Rightarrow> ustr \<Rightarrow> bool" where
  "is_auto lower name = same_name lower AUTO_ROUTE name"

datatype fallback_reason = RouteUnavailableReason | RouteExhausted | RouteCapabilityMismatch

fun reason_as_str :: "fallback_reason \<Rightarrow> ustr" where
  "reason_as_str RouteUnavailableReason = ascii ''route_unavailable''"
| "reason_as_str RouteExhausted = ascii ''route_exhausted''"
| "reason_as_str RouteCapabilityMismatch = ascii ''route_capability_mismatch''"

type_synonym fallback_chains = "(ustr \<times> ustr list) list"

definition chain_of :: "fallback_chains \<Rightarrow> ustr \<Rightarrow> ustr list" where
  "chain_of cs r = (case find (\<lambda>(initial, _). initial = r) cs of Some (_, chain) \<Rightarrow> chain | None \<Rightarrow> [])"

section \<open>The search for a cycle\<close>

datatype mark = Open | Done

text \<open>A node without an entry is new. An entry is appended when a node is opened and changed in place when
  it is done.\<close>

type_synonym marks = "(ustr \<times> mark) list"

definition cycle_text :: "ustr list \<Rightarrow> ustr \<Rightarrow> ustr" where
  "cycle_text path node =
    concat (map (\<lambda>step. step @ ascii '' -> '') (dropWhile (\<lambda>seen. seen \<noteq> node) path)) @ node"

function (sequential) visit :: "fallback_chains \<Rightarrow> ustr \<Rightarrow> marks \<Rightarrow> ustr list \<Rightarrow> ustr option \<times> marks \<times> ustr list"
  and visit_all :: "fallback_chains \<Rightarrow> ustr list \<Rightarrow> marks \<Rightarrow> ustr list \<Rightarrow> ustr option \<times> marks \<times> ustr list" where
  "visit cs node marks path =
    (case map_of marks node of
       Some Done \<Rightarrow> (None, marks, path)
     | Some Open \<Rightarrow> (Some (cycle_text path node), marks, path)
     | None \<Rightarrow>
         (case visit_all cs (chain_of cs node) (marks @ [(node, Open)]) (path @ [node]) of
            (Some cycle, marks, path) \<Rightarrow> (Some cycle, marks, path)
          | (None, marks, path) \<Rightarrow> (None, AList.update node Done marks, butlast path)))"
| "visit_all cs [] marks path = (None, marks, path)"
| "visit_all cs (next # rest) marks path =
    (case visit cs next marks path of
       (Some cycle, marks, path) \<Rightarrow> (Some cycle, marks, path)
     | (None, marks, path) \<Rightarrow> visit_all cs rest marks path)"
  by pat_completeness auto

text \<open>A call never loses a mark, so every nested call works on fewer unmarked nodes.\<close>

lemma visit_marks_grow:
  "visit_visit_all_dom (Inl (cs, node, marks, path)) \<Longrightarrow>
    set (map fst marks) \<subseteq> set (map fst (fst (snd (visit cs node marks path))))"
  "visit_visit_all_dom (Inr (cs, rest, marks, path)) \<Longrightarrow>
    set (map fst marks) \<subseteq> set (map fst (fst (snd (visit_all cs rest marks path))))"
proof (induction rule: visit_visit_all.pinduct)
  case (1 cs node marks path)
  show ?case
  proof (cases "map_of marks node")
    case None
    note IH = "1.IH" [OF None]
    with None show ?thesis
      by (auto simp: visit.psimps [OF "1.hyps"] dom_update split: option.splits prod.splits)
        (metis UnCI image_iff insertCI fst_conv subset_iff)+
  next
    case (Some m)
    then show ?thesis by (cases m) (simp_all add: visit.psimps [OF "1.hyps"])
  qed
next
  case (2 cs marks path)
  then show ?case by (simp add: visit_all.psimps)
next
  case (3 cs nxt rest marks path)
  obtain c m p where v: "visit cs nxt marks path = (c, m, p)" by (metis surj_pair)
  show ?case
  proof (cases c)
    case None
    have "set (map fst marks) \<subseteq> set (map fst m)" using "3.IH"(1) v by simp
    also have "\<dots> \<subseteq> set (map fst (fst (snd (visit_all cs rest m p))))"
      using "3.IH"(2) v None by simp
    finally show ?thesis using v None by (simp add: visit_all.psimps(2) [OF "3.hyps"])
  next
    case (Some cyc)
    then show ?thesis using "3.IH"(1) v by (simp add: visit_all.psimps(2) [OF "3.hyps"])
  qed
qed

definition unmarked :: "fallback_chains \<Rightarrow> marks \<Rightarrow> nat" where
  "unmarked cs marks = card (set (map fst cs) - set (map fst marks))"

lemma unmarked_mono:
  fixes marks marks' :: marks
  shows "set (map fst marks) \<subseteq> set (map fst marks') \<Longrightarrow> unmarked cs marks' \<le> unmarked cs marks"
  unfolding unmarked_def by (intro card_mono) auto

lemma visit_unmarked:
  assumes "visit_visit_all_dom (Inl (cs, node, marks, path))" "(c, marks', path') = visit cs node marks path"
  shows "unmarked cs' marks' \<le> unmarked cs' marks"
  using visit_marks_grow(1) [OF assms(1)] assms(2) by (intro unmarked_mono) (metis fst_conv snd_conv)

lemma unmarked_open:
  fixes marks :: marks
  assumes "map_of marks node = None" "node \<in> set (map fst cs)"
  shows "unmarked cs (marks @ [(node, Open)]) < unmarked cs marks"
  unfolding unmarked_def using assms
  by (intro psubset_card_mono) (auto simp: map_of_eq_None_iff)

lemma chain_of_none: "node \<notin> set (map fst cs) \<Longrightarrow> chain_of cs node = []"
  by (auto simp: chain_of_def find_None_iff find_Some_iff split: option.splits) (metis fst_conv image_eqI nth_mem)

termination visit
proof (relation "measures [\<lambda>call. case call of Inl (cs, _, marks, _) \<Rightarrow> unmarked cs marks
      | Inr (cs, _, marks, _) \<Rightarrow> unmarked cs marks,
    \<lambda>call. case call of Inl _ \<Rightarrow> 1 | Inr (_, rest, _, _) \<Rightarrow> 2 * length rest]", goal_cases)
  case (2 cs node marks path)
  then show ?case
    using unmarked_open [of marks node cs] chain_of_none [of node cs] unmarked_mono [of marks "marks @ [(node, Open)]" cs]
    by (cases "node \<in> set (map fst cs)") (auto simp: order_le_less)
next
  case prems: 4
  from visit_unmarked [OF prems(4)] prems(1-3) show ?case by (fastforce simp: order_le_less)
qed auto


declare visit.simps [simp del]

text \<open>The outer loop: every initial route, with the marks kept and a fresh path.\<close>

fun find_cycle_from :: "fallback_chains \<Rightarrow> fallback_chains \<Rightarrow> marks \<Rightarrow> ustr option" where
  "find_cycle_from cs [] marks = None"
| "find_cycle_from cs ((initial, _) # rest) marks =
    (case visit cs initial marks [] of
       (Some cycle, _, _) \<Rightarrow> Some cycle
     | (None, marks, _) \<Rightarrow> find_cycle_from cs rest marks)"

definition find_cycle :: "fallback_chains \<Rightarrow> ustr option" where
  "find_cycle cs = find_cycle_from cs cs []"

section \<open>Validation of the section\<close>

datatype name_problem = NameEmpty | NameIsAuto | NameReserved | NameUnknown | NameIsClassifier

definition concrete :: "(ustr \<Rightarrow> ustr) \<Rightarrow> ustr \<Rightarrow> route list \<Rightarrow> ustr list \<Rightarrow> name_problem + ustr" where
  "concrete lower name rts classifier_routes =
    (if trim name = [] then Inl NameEmpty
     else if is_auto lower name then Inl NameIsAuto
     else if is_reserved name then Inl NameReserved
     else (case find (\<lambda>route. route_matches lower (rt_name route) name) rts of
             None \<Rightarrow> Inl NameUnknown
           | Some route \<Rightarrow>
               if rt_name route \<in> set classifier_routes then Inl NameIsClassifier else Inr (rt_name route)))"

datatype fallback_problem =
    BadInitial ustr name_problem
  | NeverReached ustr
  | MoreThanOneList ustr
  | EmptyList ustr
  | ListTooLong ustr nat
  | BadEntry ustr ustr name_problem
  | ListsItself ustr
  | ListsTwice ustr ustr
  | FallbackCycle ustr

text \<open>The inner loop over the targets: the chain so far, the problems, and whether all were good.\<close>

fun check_targets :: "(ustr \<Rightarrow> ustr) \<Rightarrow> route list \<Rightarrow> ustr list \<Rightarrow> ustr \<Rightarrow> ustr list
    \<Rightarrow> ustr list \<times> fallback_problem list \<times> bool \<Rightarrow> ustr list \<times> fallback_problem list \<times> bool" where
  "check_targets lower rts classifier_routes initial [] st = st"
| "check_targets lower rts classifier_routes initial (target # targets) (chain, problems, ok) =
    check_targets lower rts classifier_routes initial targets
      (case concrete lower target rts classifier_routes of
         Inl problem \<Rightarrow> (chain, problems @ [BadEntry initial target problem], False)
       | Inr route \<Rightarrow>
           if route = initial then (chain, problems @ [ListsItself initial], False)
           else if route \<in> set chain then (chain, problems @ [ListsTwice initial route], False)
           else (chain @ [route], problems, ok))"

text \<open>One iteration of the outer loop.\<close>

definition check_list :: "(ustr \<Rightarrow> ustr) \<Rightarrow> route list \<Rightarrow> ustr list \<Rightarrow> ustr list \<Rightarrow> ustr \<times> ustr list
    \<Rightarrow> fallback_chains \<times> fallback_problem list \<Rightarrow> fallback_chains \<times> fallback_problem list" where
  "check_list lower rts reachable classifier_routes = (\<lambda>(source, targets) (cs, problems).
    (case concrete lower source rts classifier_routes of
       Inl problem \<Rightarrow> (cs, problems @ [BadInitial source problem])
     | Inr initial \<Rightarrow>
         if initial \<notin> set reachable then (cs, problems @ [NeverReached source])
         else if initial \<in> set (map fst cs) then (cs, problems @ [MoreThanOneList initial])
         else if targets = [] then (cs, problems @ [EmptyList initial])
         else if MAX_FALLBACK_ROUTES < length targets
         then (cs, problems @ [ListTooLong initial (length targets)])
         else (case check_targets lower rts classifier_routes initial targets ([], problems, True) of
                 (chain, problems, ok) \<Rightarrow> (if ok then cs @ [(initial, chain)] else cs, problems))))"

definition route_position :: "route list \<Rightarrow> ustr \<Rightarrow> nat" where
  "route_position rts name = length (takeWhile (\<lambda>route. rt_name route \<noteq> name) rts)"

definition fallback_validate :: "(ustr \<Rightarrow> ustr) \<Rightarrow> (ustr \<times> ustr list) list \<Rightarrow> route list \<Rightarrow> ustr list
    \<Rightarrow> ustr list \<Rightarrow> fallback_problem list + fallback_chains" where
  "fallback_validate lower raw rts reachable classifier_routes =
    (let (cs, problems) = fold (check_list lower rts reachable classifier_routes) raw ([], []);
         problems = (if problems = [] then (case find_cycle cs of Some cycle \<Rightarrow> [FallbackCycle cycle] | None \<Rightarrow> [])
                     else problems)
     in if problems \<noteq> [] then Inl problems
        else Inr (sort_key (\<lambda>(initial, _). route_position rts initial) cs))"

section \<open>The search finds exactly the cycles\<close>

definition edges :: "fallback_chains \<Rightarrow> (ustr \<times> ustr) set" where
  "edges cs = {(a, b). b \<in> set (chain_of cs a)}"

definition marked :: "mark \<Rightarrow> marks \<Rightarrow> ustr set" where
  "marked k marks = {x. map_of marks x = Some k}"

text \<open>The state of the search: the open nodes are the path, which follows edges; what is done leads only to
  what is done, and nothing done lies on a cycle.\<close>

definition search_ok :: "fallback_chains \<Rightarrow> marks \<Rightarrow> ustr list \<Rightarrow> bool" where
  "search_ok cs marks path \<longleftrightarrow>
    marked Open marks = set path \<and> distinct path
    \<and> (\<forall>i. Suc i < length path \<longrightarrow> (path ! i, path ! Suc i) \<in> edges cs)
    \<and> edges cs `` marked Done marks \<subseteq> marked Done marks
    \<and> (\<forall>x \<in> marked Done marks. (x, x) \<notin> (edges cs)\<^sup>+)"

lemma path_reaches:
  assumes "\<forall>i. Suc i < length path \<longrightarrow> (path ! i, path ! Suc i) \<in> r" "i \<le> j" "j < length path"
  shows "(path ! i, path ! j) \<in> r\<^sup>*"
  using assms(2,3)
proof (induction j)
  case (Suc j)
  show ?case
  proof (cases "i = Suc j")
    case False
    with Suc have "(path ! i, path ! j) \<in> r\<^sup>*" by simp
    moreover have "(path ! j, path ! Suc j) \<in> r" using assms(1) Suc.prems by blast
    ultimately show ?thesis by (rule rtrancl_into_rtrancl)
  qed simp
qed simp

lemma closed_reach: "r `` D \<subseteq> D \<Longrightarrow> (a, b) \<in> r\<^sup>* \<Longrightarrow> a \<in> D \<Longrightarrow> b \<in> D"
  by (metis Image_closed_trancl ImageI)

lemma open_node_cycles:
  assumes "search_ok cs marks path" "node \<in> set path" "(last path, node) \<in> edges cs"
  shows "\<exists>x. (x, x) \<in> (edges cs)\<^sup>+"
proof -
  obtain i where i: "i < length path" "path ! i = node" using assms(2) by (metis in_set_conv_nth)
  have "(path ! i, path ! (length path - 1)) \<in> (edges cs)\<^sup>*"
    using assms(1) i(1) by (intro path_reaches) (auto simp: search_ok_def)
  moreover have "path ! (length path - 1) = last path" using i(1) by (metis last_conv_nth length_greater_0_conv less_nat_zero_code not_gr_zero)
  ultimately have "(node, last path) \<in> (edges cs)\<^sup>*" using i(2) by simp
  with assms(3) show ?thesis by (meson rtrancl_into_trancl1)
qed

lemma search_ok_open:
  assumes "search_ok cs marks path" "map_of marks node = None" "path = [] \<or> (last path, node) \<in> edges cs"
  shows "search_ok cs (marks @ [(node, Open)]) (path @ [node])"
    and "marked Done (marks @ [(node, Open)]) = marked Done marks"
proof -
  have o: "marked Open (marks @ [(node, Open)]) = insert node (marked Open marks)"
    and d: "marked Done (marks @ [(node, Open)]) = marked Done marks"
    using assms(2) by (auto simp: marked_def map_add_def split: option.splits)
  have "node \<notin> marked Open marks" using assms(2) by (simp add: marked_def)
  then have "node \<notin> set path" using assms(1) by (simp add: search_ok_def)
  moreover have "((path @ [node]) ! i, (path @ [node]) ! Suc i) \<in> edges cs" if "Suc i < length (path @ [node])" for i
  proof (cases "Suc i < length path")
    case True
    with assms(1) show ?thesis by (simp add: search_ok_def nth_append)
  next
    case False
    with that have "i = length path - 1" "path \<noteq> []" by auto
    with assms(3) show ?thesis by (simp add: nth_append last_conv_nth)
  qed
  ultimately show "search_ok cs (marks @ [(node, Open)]) (path @ [node])"
    using assms(1) by (simp add: search_ok_def o d)
  show "marked Done (marks @ [(node, Open)]) = marked Done marks" by (fact d)
qed

lemma search_ok_close:
  assumes "search_ok cs marks (path @ [node])" "set (chain_of cs node) \<subseteq> marked Done marks"
  shows "search_ok cs (AList.update node Done marks) path"
    and "marked Done (AList.update node Done marks) = insert node (marked Done marks)"
proof -
  have o: "marked Open (AList.update node Done marks) = marked Open marks - {node}"
    and d: "marked Done (AList.update node Done marks) = insert node (marked Done marks)"
    by (auto simp: marked_def update_conv' split: if_splits)
  have succ: "edges cs `` {node} \<subseteq> marked Done marks" using assms(2) by (auto simp: edges_def)
  have closed: "edges cs `` marked Done marks \<subseteq> marked Done marks" using assms(1) by (simp add: search_ok_def)
  have "node \<in> marked Open marks" using assms(1) by (simp add: search_ok_def)
  then have "node \<notin> marked Done marks" by (simp add: marked_def)
  have "(node, node) \<notin> (edges cs)\<^sup>+"
  proof
    assume "(node, node) \<in> (edges cs)\<^sup>+"
    then obtain s where "(node, s) \<in> edges cs" "(s, node) \<in> (edges cs)\<^sup>*" by (meson tranclD)
    with succ closed_reach [OF closed] have "node \<in> marked Done marks" by blast
    with \<open>node \<notin> marked Done marks\<close> show False by blast
  qed
  moreover have "(path ! i, path ! Suc i) \<in> edges cs" if "Suc i < length path" for i
    using assms(1) that unfolding search_ok_def by (metis (no_types, lifting) Suc_lessD butlast_snoc length_append_singleton less_SucI nth_append)
  ultimately show "search_ok cs (AList.update node Done marks) path"
    using assms(1) succ closed by (auto simp: search_ok_def o d)
  show "marked Done (AList.update node Done marks) = insert node (marked Done marks)" by (fact d)
qed


lemma visit_correct:
  "search_ok cs marks path \<Longrightarrow> path = [] \<or> (last path, node) \<in> edges cs \<Longrightarrow>
    (case visit cs node marks path of
       (Some _, _, _) \<Rightarrow> \<exists>x. (x, x) \<in> (edges cs)\<^sup>+
     | (None, marks', path') \<Rightarrow> path' = path \<and> search_ok cs marks' path
         \<and> insert node (marked Done marks) \<subseteq> marked Done marks')"
  "search_ok cs marks path \<Longrightarrow> path \<noteq> [] \<Longrightarrow> \<forall>n \<in> set rest. (last path, n) \<in> edges cs \<Longrightarrow>
    (case visit_all cs rest marks path of
       (Some _, _, _) \<Rightarrow> \<exists>x. (x, x) \<in> (edges cs)\<^sup>+
     | (None, marks', path') \<Rightarrow> path' = path \<and> search_ok cs marks' path
         \<and> set rest \<union> marked Done marks \<subseteq> marked Done marks')"
proof (induction cs node marks path and cs rest marks path rule: visit_visit_all.induct)
  case (1 cs node marks path)
  show ?case
  proof (cases "map_of marks node")
    case None
    let ?res = "visit_all cs (chain_of cs node) (marks @ [(node, Open)]) (path @ [node])"
    note opened = search_ok_open [OF "1.prems"(1) None "1.prems"(2)]
    have sub: "case ?res of (Some _, _, _) \<Rightarrow> \<exists>x. (x, x) \<in> (edges cs)\<^sup>+
       | (None, marks', path') \<Rightarrow> path' = path @ [node] \<and> search_ok cs marks' (path @ [node])
           \<and> set (chain_of cs node) \<union> marked Done (marks @ [(node, Open)]) \<subseteq> marked Done marks'"
      using opened(1) by (intro "1.IH" None) (simp_all add: edges_def)
    obtain c m p where res: "?res = (c, m, p)" by (metis surj_pair)
    show ?thesis
    proof (cases c)
      case (Some cyc)
      with sub res None show ?thesis by (simp add: visit.simps)
    next
      case c: None
      with sub res have p: "p = path @ [node]" and okm: "search_ok cs m (path @ [node])"
        and dn: "set (chain_of cs node) \<union> marked Done marks \<subseteq> marked Done m"
        by (simp_all add: opened(2))
      have "set (chain_of cs node) \<subseteq> marked Done m" using dn by blast
      note closed = search_ok_close [OF okm this]
      show ?thesis using None res c p dn closed by (auto simp: visit.simps)
    qed
  next
    case (Some k)
    show ?thesis
    proof (cases k)
      case Open
      with Some "1.prems"(1) have "node \<in> set path" unfolding search_ok_def marked_def by blast
      moreover from this "1.prems"(2) have "(last path, node) \<in> edges cs" by auto
      ultimately have "\<exists>x. (x, x) \<in> (edges cs)\<^sup>+" by (rule open_node_cycles [OF "1.prems"(1)])
      with Some Open show ?thesis by (simp add: visit.simps)
    next
      case Done
      with Some "1.prems"(1) show ?thesis by (simp add: visit.simps marked_def)
    qed
  qed
next
  case (2 cs marks path)
  then show ?case by simp
next
  case (3 cs nxt rest marks path)
  obtain c m p where v: "visit cs nxt marks path = (c, m, p)" by (metis surj_pair)
  have first: "case visit cs nxt marks path of
       (Some _, _, _) \<Rightarrow> \<exists>x. (x, x) \<in> (edges cs)\<^sup>+
     | (None, marks', path') \<Rightarrow> path' = path \<and> search_ok cs marks' path
         \<and> insert nxt (marked Done marks) \<subseteq> marked Done marks'"
    using 3 by (intro "3.IH"(1)) auto
  show ?case
  proof (cases c)
    case (Some cyc)
    with first v show ?thesis by simp
  next
    case None
    with first v have m: "p = path" "search_ok cs m path" "insert nxt (marked Done marks) \<subseteq> marked Done m" by simp_all
    have "case visit_all cs rest m p of (Some _, _, _) \<Rightarrow> \<exists>x. (x, x) \<in> (edges cs)\<^sup>+
       | (None, marks', path') \<Rightarrow> path' = p \<and> search_ok cs marks' p
           \<and> set rest \<union> marked Done m \<subseteq> marked Done marks'"
      using v None m "3.prems" by (intro "3.IH"(2)) auto
    with v None m show ?thesis by (auto split: option.splits prod.splits)
  qed
qed


lemma find_cycle_from_correct:
  assumes "search_ok cs marks []"
  shows "case find_cycle_from cs rest marks of
      Some _ \<Rightarrow> \<exists>x. (x, x) \<in> (edges cs)\<^sup>+
    | None \<Rightarrow> \<exists>D. fst ` set rest \<union> marked Done marks \<subseteq> D \<and> (\<forall>x \<in> D. (x, x) \<notin> (edges cs)\<^sup>+)"
  using assms
proof (induction cs rest marks rule: find_cycle_from.induct)
  case (1 cs marks)
  then show ?case by (auto simp: search_ok_def)
next
  case (2 cs initial chain rest marks)
  obtain c m p where v: "visit cs initial marks [] = (c, m, p)" by (metis surj_pair)
  note first = visit_correct(1) [OF "2.prems", of initial]
  show ?case
  proof (cases c)
    case None
    with first v have m: "search_ok cs m []" "insert initial (marked Done marks) \<subseteq> marked Done m" by simp_all
    note IH = "2.IH" [OF v [symmetric] None refl m(1)]
    show ?thesis
    proof (cases "find_cycle_from cs rest m")
      case rest: None
      with IH obtain D where "fst ` set rest \<union> marked Done m \<subseteq> D" "\<forall>x \<in> D. (x, x) \<notin> (edges cs)\<^sup>+" by auto
      with m(2) v None rest show ?thesis by (auto intro!: exI [of _ D])
    next
      case (Some cyc)
      with IH v None show ?thesis by simp
    qed
  next
    case (Some cyc)
    with first v show ?thesis by simp
  qed
qed

lemma find_cycle_acyclic: "find_cycle cs = None \<longleftrightarrow> acyclic (edges cs)"
proof -
  have start: "search_ok cs [] []" by (simp add: search_ok_def marked_def)
  note result = find_cycle_from_correct [OF start, of cs]
  show ?thesis
  proof (cases "find_cycle cs")
    case None
    with result obtain D where D: "fst ` set cs \<subseteq> D" "\<forall>x \<in> D. (x, x) \<notin> (edges cs)\<^sup>+"
      by (auto simp: find_cycle_def)
    have "x \<in> fst ` set cs" if "(x, x) \<in> (edges cs)\<^sup>+" for x
    proof (rule ccontr)
      assume "x \<notin> fst ` set cs"
      then have "edges cs `` {x} = {}" using chain_of_none [of x cs] by (auto simp: edges_def)
      with that show False by (metis ImageI empty_iff singletonI tranclD)
    qed
    with D None show ?thesis unfolding acyclic_def by blast
  next
    case (Some cyc)
    with result show ?thesis by (auto simp: find_cycle_def acyclic_def)
  qed
qed

text \<open>C25. The search for a cycle ends on every configuration, and reports a cycle exactly if the lists form
  one: the depth-first search with its marks agrees with the mathematical notion, an edge leading from a
  route to each entry of its list.\<close>

theorem find_cycle_iff: "find_cycle cs = None \<longleftrightarrow> acyclic (edges cs)"
  by (rule find_cycle_acyclic)

section \<open>What an accepted section is\<close>

lemma concrete_Inr:
  assumes "concrete lower name rts cls = Inr r"
  shows "r \<in> rt_name ` set rts" "r \<notin> set cls" "route_matches lower r name" "\<not> is_auto lower r"
  using assms
  by (auto simp: concrete_def find_Some_iff is_auto_def route_matches_def same_name_def split: if_splits option.splits)

definition good_chain :: "(ustr \<Rightarrow> ustr) \<Rightarrow> route list \<Rightarrow> ustr list \<Rightarrow> ustr \<Rightarrow> ustr list \<Rightarrow> bool" where
  "good_chain lower rts cls initial chain \<longleftrightarrow>
    distinct chain \<and> initial \<notin> set chain \<and> set chain \<subseteq> rt_name ` set rts - set cls
    \<and> (\<forall>r \<in> set chain. \<not> is_auto lower r)"

lemma check_targets_clean:
  assumes "check_targets lower rts cls initial targets (chain, problems, ok) = (chain', [], ok')"
    "good_chain lower rts cls initial chain"
  shows "problems = [] \<and> ok' = ok \<and> good_chain lower rts cls initial chain'
    \<and> (\<exists>more. chain' = chain @ more \<and> list_all2 (route_matches lower) more targets)"
  using assms
proof (induction targets arbitrary: chain problems ok)
  case (Cons t targets)
  show ?case
  proof (cases "concrete lower t rts cls")
    case (Inl e)
    with Cons.prems Cons.IH [of chain "problems @ [BadEntry initial t e]" False] show ?thesis by simp
  next
    case (Inr r)
    consider "r = initial" | "r \<noteq> initial" "r \<in> set chain" | "r \<noteq> initial" "r \<notin> set chain" by blast
    then show ?thesis
    proof cases
      case 1
      with Inr Cons.prems Cons.IH [of chain "problems @ [ListsItself initial]" False] show ?thesis by simp
    next
      case 2
      with Inr Cons.prems Cons.IH [of chain "problems @ [ListsTwice initial r]" False] show ?thesis by simp
    next
      case 3
      have "good_chain lower rts cls initial (chain @ [r])"
        using Cons.prems(2) concrete_Inr [OF Inr] 3 by (auto simp: good_chain_def)
      from Cons.IH [OF _ this, of problems ok] Cons.prems(1) Inr 3 concrete_Inr(3) [OF Inr]
      show ?thesis by fastforce
    qed
  qed
qed simp


text \<open>The invariant of the outer loop over a section without problems: the lists so far, each with the entry
  of the section it came from.\<close>

definition entry_of :: "(ustr \<Rightarrow> ustr) \<Rightarrow> route list \<Rightarrow> ustr list \<Rightarrow> ustr list \<Rightarrow> ustr \<times> ustr list
    \<Rightarrow> ustr \<times> ustr list \<Rightarrow> bool" where
  "entry_of lower rts reachable cls = (\<lambda>(source, targets) (initial, chain).
    initial \<in> set reachable \<and> initial \<in> rt_name ` set rts - set cls \<and> \<not> is_auto lower initial
    \<and> route_matches lower initial source
    \<and> chain \<noteq> [] \<and> length chain \<le> MAX_FALLBACK_ROUTES \<and> list_all2 (route_matches lower) chain targets
    \<and> good_chain lower rts cls initial chain)"

lemma check_list_clean:
  assumes "check_list lower rts reachable cls entry (cs, problems) = (cs', [])"
  shows "problems = [] \<and> (\<exists>list. cs' = cs @ [list] \<and> fst list \<notin> set (map fst cs) \<and> entry_of lower rts reachable cls entry list)"
proof -
  obtain source targets where entry: "entry = (source, targets)" by fastforce
  show ?thesis
  proof (cases "concrete lower source rts cls")
    case (Inl e)
    with assms show ?thesis by (simp add: check_list_def entry)
  next
    case (Inr initial)
    obtain chain ps ok where checked: "check_targets lower rts cls initial targets ([], problems, True) = (chain, ps, ok)"
      by (metis surj_pair)
    have guards: "initial \<in> set reachable" "initial \<notin> set (map fst cs)" "targets \<noteq> []"
      "length targets \<le> MAX_FALLBACK_ROUTES" "ps = []" "cs' = (if ok then cs @ [(initial, chain)] else cs)"
      using assms Inr checked by (auto simp: check_list_def entry split: if_splits)
    have start: "good_chain lower rts cls initial []" by (simp add: good_chain_def)
    from check_targets_clean [OF checked [unfolded guards(5)] start]
    have clean: "problems = []" "ok" "good_chain lower rts cls initial chain"
      "list_all2 (route_matches lower) chain targets"
      by auto
    then have "length chain = length targets" by (simp add: list_all2_lengthD)
    with clean guards concrete_Inr [OF Inr] show ?thesis
      by (auto simp: entry entry_of_def)
  qed
qed

lemma check_lists_clean:
  assumes "fold (check_list lower rts reachable cls) raw (cs, problems) = (cs', [])" "distinct (map fst cs)"
  shows "problems = [] \<and> (\<exists>more. cs' = cs @ more \<and> distinct (map fst cs')
    \<and> list_all2 (entry_of lower rts reachable cls) raw more)"
  using assms
proof (induction raw arbitrary: cs problems)
  case (Cons entry raw)
  obtain cs1 ps1 where one: "check_list lower rts reachable cls entry (cs, problems) = (cs1, ps1)" by fastforce
  then have run: "fold (check_list lower rts reachable cls) raw (cs1, ps1) = (cs', [])" using Cons.prems(1) by simp
  show ?case
  proof (cases "distinct (map fst cs1)")
    case True
    from Cons.IH [OF run True] have "ps1 = []" by blast
    from check_list_clean [OF one [unfolded this]] Cons.IH [OF run True] show ?thesis by fastforce
  next
    case False
    have "fst (check_list lower rts reachable cls entry (cs, problems)) = cs \<or>
        (\<exists>i c. i \<notin> set (map fst cs) \<and> fst (check_list lower rts reachable cls entry (cs, problems)) = cs @ [(i, c)])"
      by (cases entry) (auto simp: check_list_def split: sum.splits prod.splits if_splits)
    with one Cons.prems(2) False show ?thesis by auto
  qed
qed simp

lemma accepted_fallback:
  assumes "fallback_validate lower raw rts reachable cls = Inr cs"
  shows "distinct (map fst cs) \<and> acyclic (edges cs)
    \<and> (\<exists>entries. mset entries = mset cs \<and> list_all2 (entry_of lower rts reachable cls) raw entries)
    \<and> (\<forall>(initial, chain) \<in> set cs. distinct (initial # chain_of cs initial)
         \<and> 1 \<le> length (chain_of cs initial) \<and> length (chain_of cs initial) \<le> 3)"
proof (intro conjI)
  obtain cs0 problems where run: "fold (check_list lower rts reachable cls) raw ([], []) = (cs0, problems)" by fastforce
  let ?key = "\<lambda>(initial :: ustr, _ :: ustr list). route_position rts initial"
  have res: "problems = []" "find_cycle cs0 = None" "cs = sort_key ?key cs0"
    using assms run by (auto simp: fallback_validate_def split: if_splits option.splits)
  from check_lists_clean [OF run [unfolded res(1)]]
  have dist: "distinct (map fst cs0)" and entries: "list_all2 (entry_of lower rts reachable cls) raw cs0" by auto
  have chain_map: "chain_of xs r = (case map_of xs r of Some c \<Rightarrow> c | None \<Rightarrow> [])" for xs r
    by (induction xs) (auto simp: chain_of_def)
  have same: "mset cs = mset cs0" using res(3) by simp
  then have "mset (map fst cs) = mset (map fst cs0)" by simp
  then have dist': "distinct (map fst cs)" using dist mset_eq_imp_distinct_iff by blast
  have "map_of cs = map_of cs0"
    using map_of_inject_set [OF dist' dist] same by (metis mset_eq_setD)
  then have "edges cs = edges cs0" by (simp add: edges_def chain_map)
  with res(2) find_cycle_acyclic show "acyclic (edges cs)" by simp
  show "distinct (map fst cs)" by (fact dist')
  show "\<exists>entries. mset entries = mset cs \<and> list_all2 (entry_of lower rts reachable cls) raw entries"
    using same entries by metis
  show "\<forall>(initial, chain) \<in> set cs. distinct (initial # chain_of cs initial)
       \<and> 1 \<le> length (chain_of cs initial) \<and> length (chain_of cs initial) \<le> 3"
  proof clarify
    fix initial chain
    assume mem: "(initial, chain) \<in> set cs"
    then have "map_of cs initial = Some chain" using dist' by simp
    then have "chain_of cs initial = chain" by (simp add: chain_map)
    moreover have "\<exists>entry. entry_of lower rts reachable cls entry (initial, chain)"
      using entries mem same by (metis list_all2_conv_all_nth mset_eq_setD in_set_conv_nth)
    ultimately show "distinct (initial # chain_of cs initial)
       \<and> 1 \<le> length (chain_of cs initial) \<and> length (chain_of cs initial) \<le> 3"
      by (cases chain) (auto simp: entry_of_def good_chain_def MAX_FALLBACK_ROUTES_def)
  qed
qed

lemma accepted_chain:
  assumes "fallback_validate lower raw rts reachable cls = Inr cs"
  shows "distinct (initial # chain_of cs initial) \<and> length (chain_of cs initial) \<le> 3"
proof (cases "initial \<in> fst ` set cs")
  case True
  with accepted_fallback [OF assms] show ?thesis by auto
next
  case False
  then have "chain_of cs initial = []" by (induction cs) (auto simp: chain_of_def)
  then show ?thesis by simp
qed

text \<open>An accepted fallback section is well formed. Every entry of the section has become one list, in
  which the operator's names are spelled as configured; the initial routes are distinct, are configured
  routes that \<open>Auto\<close> can resolve to, and neither \<open>Auto\<close> nor a classifier's route; a list has between one
  and three entries, all distinct, all configured answering routes, none of them the initial route, so a
  request tries at most four routes and none twice; and the lists together form no cycle.\<close>

theorem accepted_fallback_well_formed:
  assumes "fallback_validate lower raw rts reachable cls = Inr cs"
  shows "distinct (map fst cs) \<and> acyclic (edges cs)
    \<and> (\<exists>entries. mset entries = mset cs \<and> list_all2 (entry_of lower rts reachable cls) raw entries)
    \<and> (\<forall>(initial, chain) \<in> set cs. distinct (initial # chain_of cs initial)
         \<and> 1 \<le> length (chain_of cs initial) \<and> length (chain_of cs initial) \<le> 3)"
  using assms by (rule accepted_fallback)

definition demo_routes :: "route list" where
  "demo_routes = map (\<lambda>name. \<lparr>rt_name = ascii name, rt_policy = Priority, rt_deployments = [],
     rt_description = None, rt_placement = None\<rparr>) [''General'', ''Coder'', ''Reasoning'']"

theorem accepted_fallback_well_formed_witness:
  "let cs = [(ascii ''Coder'', [ascii ''General'', ascii ''Reasoning''])] in
    fallback_validate (map to_ascii_lowercase) [(ascii ''coder'', [ascii ''general'', ascii ''REASONING''])]
      demo_routes [ascii ''General'', ascii ''Coder''] [] = Inr cs
    \<and> acyclic (edges cs)"
proof -
  let ?cs = "[(ascii ''Coder'', [ascii ''General'', ascii ''Reasoning''])]"
  have accepted: "fallback_validate (map to_ascii_lowercase) [(ascii ''coder'', [ascii ''general'', ascii ''REASONING''])]
      demo_routes [ascii ''General'', ascii ''Coder''] [] = Inr ?cs"
    by code_simp
  from accepted_fallback_well_formed [OF accepted] accepted show ?thesis by (simp add: Let_def)
qed

end
