(* ===== verification/Router_Budget.thy ===== *)
theory Router_Budget
  imports Lw_Text
begin

text \<open>
  The pre-commit budget of a request, \<open>lightweight-router/src/budget.rs\<close>: one absolute deadline, the check
  before new work, the bound on a wait, the stage a request was stopped in and the block of its trace.
  Instants and durations are natural numbers of nanoseconds; each operation takes the instant it reads.
\<close>

definition MIN_BUDGET_MS :: u64 where "MIN_BUDGET_MS = 1000"
definition MAX_BUDGET_MS :: u64 where "MAX_BUDGET_MS = 3600000"
definition EXHAUSTED :: ustr where "EXHAUSTED = ascii ''request_budget_exhausted''"

record request_budget =
  bu_deadline :: nat
  bu_configured :: nat
  bu_started :: nat

definition budget_start :: "nat \<Rightarrow> nat \<Rightarrow> request_budget" where
  "budget_start configured now = \<lparr>bu_deadline = now + configured, bu_configured = configured, bu_started = now\<rparr>"

definition remaining :: "nat \<Rightarrow> request_budget \<Rightarrow> nat" where
  "remaining now b = bu_deadline b - now"

definition budget_expired :: "nat \<Rightarrow> request_budget \<Rightarrow> bool" where
  "budget_expired now b \<longleftrightarrow> bu_deadline b \<le> now"

definition elapsed :: "nat \<Rightarrow> request_budget \<Rightarrow> nat" where
  "elapsed now b = now - bu_started b"

definition expired :: "nat \<Rightarrow> request_budget option \<Rightarrow> bool" where
  "expired now budget \<longleftrightarrow> (case budget of None \<Rightarrow> False | Some b \<Rightarrow> budget_expired now b)"

text \<open>\<open>bound\<close>: a result that is ready by the deadline is the result; an operation still pending when the
  deadline is due is cut. \<open>ready_at\<close> is the instant the operation is ready.\<close>

definition bound :: "request_budget option \<Rightarrow> nat \<Rightarrow> 'a \<Rightarrow> 'a option" where
  "bound budget ready_at result =
    (case budget of
       None \<Rightarrow> Some result
     | Some b \<Rightarrow> if ready_at \<le> bu_deadline b then Some result else None)"

datatype stage = Classifier | RoutePlanning | SameRouteAttempt | CrossRouteFallback

fun stage_as_str :: "stage \<Rightarrow> ustr" where
  "stage_as_str Classifier = ascii ''classifier''"
| "stage_as_str RoutePlanning = ascii ''route_planning''"
| "stage_as_str SameRouteAttempt = ascii ''same_route_attempt''"
| "stage_as_str CrossRouteFallback = ascii ''cross_route_fallback''"

text \<open>Whole milliseconds, at most \<open>u64::MAX\<close>.\<close>

definition budget_ms :: "nat \<Rightarrow> u64" where
  "budget_ms duration =
    (let millis = duration div 1000000 in if millis < 2 ^ 64 then word_of_nat millis else - 1)"

record budget_trace =
  bt_configured_ms :: u64
  bt_elapsed_before_commit_ms :: "u64 option"
  bt_remaining_at_commit_ms :: "u64 option"
  bt_elapsed_ms :: "u64 option"
  bt_remaining_ms :: "u64 option"
  bt_exhausted :: bool
  bt_stage :: "ustr option"
  bt_next_unattempted_route :: "ustr option"

definition trace_base :: "request_budget \<Rightarrow> budget_trace" where
  "trace_base b = \<lparr>bt_configured_ms = budget_ms (bu_configured b), bt_elapsed_before_commit_ms = None,
     bt_remaining_at_commit_ms = None, bt_elapsed_ms = None, bt_remaining_ms = None, bt_exhausted = False,
     bt_stage = None, bt_next_unattempted_route = None\<rparr>"

definition trace_committed :: "nat \<Rightarrow> request_budget \<Rightarrow> budget_trace" where
  "trace_committed now b = (trace_base b)\<lparr>bt_elapsed_before_commit_ms := Some (budget_ms (elapsed now b)),
     bt_remaining_at_commit_ms := Some (budget_ms (remaining now b))\<rparr>"

definition trace_ended :: "nat \<Rightarrow> request_budget \<Rightarrow> budget_trace" where
  "trace_ended now b = (trace_base b)\<lparr>bt_elapsed_ms := Some (budget_ms (elapsed now b)),
     bt_remaining_ms := Some (budget_ms (remaining now b))\<rparr>"

definition trace_exhausted :: "nat \<Rightarrow> request_budget \<Rightarrow> stage \<Rightarrow> ustr option \<Rightarrow> budget_trace" where
  "trace_exhausted now b st next = (trace_ended now b)\<lparr>bt_exhausted := True,
     bt_stage := Some (stage_as_str st), bt_next_unattempted_route := next\<rparr>"

section \<open>One deadline that time only shrinks\<close>

lemma budget_clock:
  fixes configured started
  defines "b \<equiv> budget_start configured started"
  assumes "started \<le> now"
  shows "remaining now b = configured - elapsed now b" "budget_expired now b \<longleftrightarrow> remaining now b = 0"
    "now \<le> later \<Longrightarrow> remaining later b \<le> remaining now b \<and> (budget_expired now b \<longrightarrow> budget_expired later b)"
  using assms by (auto simp: remaining_def elapsed_def budget_expired_def budget_start_def)

lemma bound_Some: "bound budget ready_at r = Some x \<longleftrightarrow> x = r \<and> (\<forall>b. budget = Some b \<longrightarrow> ready_at \<le> bu_deadline b)"
  by (auto simp: bound_def split: option.splits if_splits)

end
