(* ===== verification/Router_Proxy.thy ===== *)
theory Router_Proxy
  imports Router_Sse Router_Select Router_Affinity Router_Fallback Router_Budget
begin

text \<open>
  Forwarding one request, \<open>lightweight-router/src/proxy.rs\<close>: one attempt on one deployment, the walk over
  the candidates of a plan with its failover, the commit of an answer, the relay of a stream, and the chain
  of fallback routes under one budget.

  The shared state of the router is the record \<open>shared\<close>: the health book, the selector with its in-flight
  counts, the affinity book, and the log of the increments this request makes to the counters. What a node answers,
  how long each step takes and what the other requests do to the shared state while this one waits is
  input: the \<open>await\<close> of each attempt. Log lines, durations and the descriptive fields of the trace are not
  modelled; \<open>RouteObserved\<close> stands for the call to the route history, whatever it keeps of it. The JSON package and the tables outside the repository are the record \<open>ext\<close>.
\<close>

section \<open>Types\<close>

record ext =
  ex_lower :: "ustr \<Rightarrow> ustr"
  ex_hash :: "ustr \<Rightarrow> u64"
  ex_from_slice :: "u8 list \<Rightarrow> json option"
  ex_to_vec :: "json \<Rightarrow> u8 list option"
  ex_parse :: json_parse
  ex_print :: json_print

definition endpoint_path :: "endpoint \<Rightarrow> ustr" where
  "endpoint_path e = (case e of ChatCompletions \<Rightarrow> ascii ''/v1/chat/completions'' | Completions \<Rightarrow> ascii ''/v1/completions'')"

text \<open>How a request is counted, \<open>Outcome\<close> of \<open>metrics.rs\<close>, how its trace ends, and what route history
  observes, \<open>scoring/history.rs\<close>.\<close>

datatype request_outcome = OutOk | OutClientError | OutServerError | OutUnavailable | OutBudgetExhausted

definition outcome_of_status :: "nat \<Rightarrow> request_outcome" where
  "outcome_of_status status =
    (if 200 \<le> status \<and> status \<le> 399 then OutOk
     else if 400 \<le> status \<and> status \<le> 499 then OutClientError else OutServerError)"

datatype trace_outcome = Ended request_outcome | Interrupted | Cancelled

datatype route_observation = ObSuccess | ObServerError | ObInterrupted | ObUnavailable | ObMismatch | ObNeutral

fun observation_of_outcome :: "trace_outcome \<Rightarrow> route_observation" where
  "observation_of_outcome (Ended OutOk) = ObSuccess"
| "observation_of_outcome (Ended OutServerError) = ObServerError"
| "observation_of_outcome Interrupted = ObInterrupted"
| "observation_of_outcome (Ended OutUnavailable) = ObUnavailable"
| "observation_of_outcome _ = ObNeutral"

datatype metric =
    RequestCounted ustr request_outcome
  | RouteObserved ustr route_observation
  | FailoverCounted ustr
  | OverflowFailoverCounted ustr
  | FallbackCounted ustr ustr fallback_reason
  | ChainExhausted ustr fallback_reason
  | BudgetExhaustedCounted stage
  | AffinityHit ustr
  | AffinityMiss ustr
  | AffinityReassigned ustr reassignment
  | MismatchCounted ustr
  | DecisionCounted ustr route_policy routing_reason
  | TraceFinished ustr "nat option" trace_outcome

record shared =
  sh_health :: health_book
  sh_selector :: selector
  sh_affinity :: affinity_book
  sh_log :: "metric list"

definition log_metric :: "metric \<Rightarrow> shared \<Rightarrow> shared" where
  "log_metric m sh = sh\<lparr>sh_log := sh_log sh @ [m]\<rparr>"

text \<open>A node's answer: the headers the router copies, and the body as it arrives. \<open>na_complete\<close> says that
  the body was read to its end.\<close>

record node_answer =
  na_status :: nat
  na_content_type :: "ustr option"
  na_cache_control :: "ustr option"
  na_retry_after :: "ustr option"
  na_chunks :: "u8 list list"
  na_complete :: bool

datatype upstream_result = SendFailed bool ustr | Answered node_answer

record upstream_request =
  ur_url :: ustr
  ur_request_id :: ustr
  ur_accept :: "ustr option"
  ur_authorization :: "ustr option"
  ur_body :: "u8 list"

record await =
  aw_before :: nat
  aw_took :: nat
  aw_after :: nat
  aw_result :: upstream_result
  aw_others :: "shared \<Rightarrow> shared"

record refusal =
  rf_status :: nat
  rf_content_type :: "ustr option"
  rf_retry_after :: "ustr option"
  rf_body :: "u8 list"

text \<open>A response of the router's own is known by its status and error code.\<close>

datatype client_response =
    RouterError nat ustr
  | NodeAnswer nat "ustr option" "ustr option" "ustr option" "u8 list"
  | NodeStream nat "ustr option" "ustr option" "ustr option"

fun response_status :: "client_response \<Rightarrow> nat" where
  "response_status (RouterError status _) = status"
| "response_status (NodeAnswer status _ _ _ _) = status"
| "response_status (NodeStream status _ _ _) = status"

datatype committed_answer = Passing node_answer | Unreadable

datatype attempt = Commits committed_answer | Next "refusal option" | ContextOverflow refusal

section \<open>One attempt\<close>

definition REFUSAL_LIMIT :: nat where "REFUSAL_LIMIT = 64 * 1024"

definition CONTEXT_OVERFLOW :: ustr where "CONTEXT_OVERFLOW = ascii ''context_length_exceeded''"

fun read_bounded_from :: "u8 list \<Rightarrow> u8 list list \<Rightarrow> u8 list" where
  "read_bounded_from collected [] = collected"
| "read_bounded_from collected (chunk # chunks) =
    (let room = REFUSAL_LIMIT - length collected;
         collected = collected @ take (min (length chunk) room) chunk
     in if REFUSAL_LIMIT \<le> length collected then collected else read_bounded_from collected chunks)"

definition read_bounded :: "node_answer \<Rightarrow> u8 list" where
  "read_bounded a = read_bounded_from [] (na_chunks a)"

definition error_code :: "(u8 list \<Rightarrow> json option) \<Rightarrow> u8 list \<Rightarrow> ustr option" where
  "error_code from_slice body =
    Option.bind (from_slice body) (\<lambda>value. Option.bind (json_get (ascii ''error'') value) (\<lambda>err.
      Option.bind (json_get (ascii ''code'') err) (\<lambda>code. case code of JString s \<Rightarrow> Some s | _ \<Rightarrow> None)))"

definition whole_body :: "node_answer \<Rightarrow> u8 list option" where
  "whole_body a = (if na_complete a then Some (concat (na_chunks a)) else None)"

definition refusal_answer :: "refusal \<Rightarrow> node_answer" where
  "refusal_answer r = \<lparr>na_status = rf_status r, na_content_type = rf_content_type r, na_cache_control = None,
     na_retry_after = rf_retry_after r, na_chunks = [rf_body r], na_complete = True\<rparr>"

definition bad_request :: "(u8 list \<Rightarrow> json option) \<Rightarrow> node_answer \<Rightarrow> attempt" where
  "bad_request from_slice a =
    (case whole_body a of
       None \<Rightarrow> Commits Unreadable
     | Some body \<Rightarrow>
         if error_code from_slice body = Some CONTEXT_OVERFLOW
         then ContextOverflow \<lparr>rf_status = na_status a, rf_content_type = na_content_type a,
                rf_retry_after = na_retry_after a, rf_body = body\<rparr>
         else Commits (Passing (a\<lparr>na_chunks := [body]\<rparr>)))"

definition request_for :: "endpoint \<Rightarrow> (ustr \<rightharpoonup> ustr) \<Rightarrow> ustr \<Rightarrow> node \<Rightarrow> u8 list \<Rightarrow> upstream_request" where
  "request_for e headers request_id n payload =
    \<lparr>ur_url = node_endpoint n (endpoint_path e), ur_request_id = request_id,
     ur_accept = headers (ascii ''accept''), ur_authorization = header_value (nd_auth n), ur_body = payload\<rparr>"

text \<open>What the router makes of an answer: the attempt's result, and whether the node's model is forgotten.\<close>

definition judge_answer :: "(u8 list \<Rightarrow> json option) \<Rightarrow> node_answer \<Rightarrow> attempt \<times> bool" where
  "judge_answer from_slice a =
    (let status = na_status a
     in if status = 400 then (bad_request from_slice a, False)
        else if status \<notin> {404, 502, 503, 504} then (Commits (Passing a), False)
        else
          let refusal = \<lparr>rf_status = status, rf_content_type = na_content_type a,
                rf_retry_after = na_retry_after a, rf_body = read_bounded a\<rparr>
          in if status = 404
             then if error_code from_slice (rf_body refusal) \<noteq> Some (ascii ''model_not_found'')
                  then (Commits (Passing (refusal_answer refusal)), False)
                  else (Next None, True)
             else (Next (Some refusal), False))"

text \<open>The result, the request that was sent, the status of the answer, and the shared state.\<close>

definition attempt_one :: "ext \<Rightarrow> endpoint \<Rightarrow> (ustr \<rightharpoonup> ustr) \<Rightarrow> ustr \<Rightarrow> node \<Rightarrow> json_object \<Rightarrow> nat \<Rightarrow> await
    \<Rightarrow> shared \<Rightarrow> attempt \<times> upstream_request option \<times> nat option \<times> shared" where
  "attempt_one ex e headers request_id n request ready_at aw sh =
    (case ex_to_vec ex (JObject request) of
       None \<Rightarrow> (Next None, None, None, sh)
     | Some payload \<Rightarrow>
         let req = request_for e headers request_id n payload;
             sh = (aw_others aw sh)\<lparr>sh_log := sh_log sh\<rparr>
         in case aw_result aw of
              SendFailed unreachable reason \<Rightarrow>
                (Next None, Some req, None,
                 if unreachable
                 then sh\<lparr>sh_health := record_outcome (ex_lower ex) (nd_id n)
                        (Failure (ascii ''request: '' @ reason)) ready_at (sh_health sh)\<rparr>
                 else sh)
            | Answered a \<Rightarrow>
                let (result, forget) = judge_answer (ex_from_slice ex) a
                in (result, Some req, Some (na_status a),
                    if forget then sh\<lparr>sh_health := forget_model (nd_id n) (sh_health sh)\<rparr> else sh))"


section \<open>The tracker\<close>

datatype attempt_result = AttemptFailed | AttemptOverflow | AttemptCommitted | AttemptCut

record attempt_trace =
  at_route :: ustr
  at_deployment :: ustr
  at_reason :: routing_reason
  at_result :: attempt_result
  at_status :: "nat option"

datatype hop_outcome = HopCommitted | HopFailed

datatype hop_reason = ForFallback fallback_reason | ForOverflow | ForBudget

record hop =
  hp_route :: ustr
  hp_outcome :: hop_outcome
  hp_reason :: "hop_reason option"

record fallback_trace =
  ft_initial :: ustr
  ft_final :: ustr
  ft_exhausted :: bool
  ft_attempts :: "hop list"

text \<open>\<open>tk_too_small\<close> is the overflow block of the trace, \<open>None\<close> while nothing overflowed.\<close>

record tracker =
  tk_route :: ustr
  tk_attempts :: "attempt_trace list"
  tk_too_small :: "(ustr \<times> u32 option) list option"
  tk_answered_context :: "u32 option"
  tk_final_deployment :: "ustr option"
  tk_fallback :: "fallback_trace option"
  tk_budget_trace :: "budget_trace option"
  tk_observation :: "route_observation option"
  tk_unobserved :: bool
  tk_nested :: bool
  tk_budget :: "request_budget option"
  tk_finished :: bool

definition tracker_new :: "ustr \<Rightarrow> bool \<Rightarrow> request_budget option \<Rightarrow> tracker" where
  "tracker_new rt nested budget =
    \<lparr>tk_route = rt, tk_attempts = [], tk_too_small = None, tk_answered_context = None,
     tk_final_deployment = None, tk_fallback = None, tk_budget_trace = None, tk_observation = None,
     tk_unobserved = False, tk_nested = nested, tk_budget = budget, tk_finished = False\<rparr>"

definition observe_route :: "ustr \<Rightarrow> route_observation \<Rightarrow> bool \<Rightarrow> shared \<Rightarrow> shared" where
  "observe_route rt ob nested sh = (if nested then sh else log_metric (RouteObserved rt ob) sh)"

definition tracker_finish :: "nat \<Rightarrow> nat option \<Rightarrow> trace_outcome \<Rightarrow> tracker \<Rightarrow> shared \<Rightarrow> tracker \<times> shared" where
  "tracker_finish now status out tk sh =
    (if tk_finished tk then (tk, sh)
     else
       let sh = (if tk_unobserved tk then sh
                 else observe_route (tk_route tk)
                   (case tk_observation tk of Some ob \<Rightarrow> ob | None \<Rightarrow> observation_of_outcome out) (tk_nested tk) sh);
           tk = tk\<lparr>tk_finished := True,
                   tk_budget_trace := (case (tk_budget tk, tk_budget_trace tk) of
                       (Some b, None) \<Rightarrow> Some (trace_ended now b) | _ \<Rightarrow> tk_budget_trace tk)\<rparr>
       in (tk, log_metric (TraceFinished (tk_route tk) status out) sh))"

definition retarget :: "route \<Rightarrow> tracker \<Rightarrow> tracker" where
  "retarget r tk = tk\<lparr>tk_route := rt_name r, tk_observation := None, tk_unobserved := False,
     tk_final_deployment := None, tk_too_small := None, tk_answered_context := None\<rparr>"

definition unattempted :: "ustr \<Rightarrow> tracker \<Rightarrow> tracker" where
  "unattempted label tk = tk\<lparr>tk_route := label, tk_unobserved := True\<rparr>"

section \<open>Committing an answer\<close>

definition is_success_status :: "nat \<Rightarrow> bool" where
  "is_success_status status \<longleftrightarrow> 200 \<le> status \<and> status \<le> 299"

definition is_event_stream :: "node_answer \<Rightarrow> bool" where
  "is_event_stream a \<longleftrightarrow>
    (case na_content_type a of None \<Rightarrow> False | Some value \<Rightarrow> strip_prefix (ascii ''text/event-stream'') value \<noteq> None)"

fun committed_status :: "committed_answer \<Rightarrow> nat" where
  "committed_status (Passing a) = na_status a"
| "committed_status Unreadable = 502"

definition settle_affinity :: "affinity_key \<Rightarrow> sticky option \<Rightarrow> reassignment option \<Rightarrow> ustr \<Rightarrow> nat \<Rightarrow> shared \<Rightarrow> shared" where
  "settle_affinity key planned sticky_failed answered now sh =
    (let reassigned = (case (planned, sticky_failed) of
           (Some Hit, Some reason) \<Rightarrow> Some reason
         | (Some (Broken reason), _) \<Rightarrow> Some reason
         | _ \<Rightarrow> None)
     in case reassigned of
          Some reason \<Rightarrow>
            log_metric (AffinityReassigned (ak_route key) reason)
              (sh\<lparr>sh_affinity := reassign_at key answered now (sh_affinity sh)\<rparr>)
        | None \<Rightarrow> sh\<lparr>sh_affinity := snd (establish_at key answered now (sh_affinity sh))\<rparr>)"

text \<open>A stream keeps the lease and the tracker until it ends; a whole body is read here, and both end here.
  The result is the response, and the lease that is still held.\<close>

definition commit :: "ext \<Rightarrow> ustr \<Rightarrow> committed_answer \<Rightarrow> lease \<Rightarrow> nat \<Rightarrow> tracker \<Rightarrow> shared
    \<Rightarrow> client_response \<times> lease option \<times> tracker \<times> shared" where
  "commit ex rt answer l now tk sh =
    (let release = (\<lambda>sh. sh\<lparr>sh_selector := (sh_selector sh)\<lparr>sel_load := lease_drop l (sel_load (sh_selector sh))\<rparr>\<rparr>)
     in case answer of
          Unreadable \<Rightarrow>
            (let (tk, sh) = tracker_finish now (Some 502) (Ended (outcome_of_status 502)) tk sh
             in (RouterError 502 (ascii ''upstream_failed''), None, tk, release sh))
        | Passing a \<Rightarrow>
            if is_event_stream a \<and> is_success_status (na_status a)
            then (NodeStream (na_status a) (na_content_type a) (na_cache_control a) (na_retry_after a), Some l, tk, sh)
            else (case whole_body a of
                    None \<Rightarrow>
                      (let (tk, sh) = tracker_finish now (Some 502) (Ended OutServerError) tk sh
                       in (RouterError 502 (ascii ''upstream_failed''), None, tk, release sh))
                  | Some bytes \<Rightarrow>
                      (let bytes = (if is_success_status (na_status a)
                           then (case fst (rewrite_body_measuring (ex_from_slice ex) (ex_to_vec ex) bytes rt) of
                                   Some rewritten \<Rightarrow> rewritten | None \<Rightarrow> bytes)
                           else bytes);
                           (tk, sh) = tracker_finish now (Some (na_status a)) (Ended (outcome_of_status (na_status a))) tk sh
                       in (NodeAnswer (na_status a) (na_content_type a) (na_cache_control a) (na_retry_after a) bytes,
                           None, tk, release sh))))"

text \<open>The relay of a committed stream: the pieces the client is sent, and how the request ends.\<close>

fun relay :: "json_parse \<Rightarrow> json_print \<Rightarrow> u8 list list \<Rightarrow> bool \<Rightarrow> frame_rewriter \<Rightarrow> u8 list list
    \<Rightarrow> u8 list list \<times> trace_outcome \<times> frame_rewriter" where
  "relay parse print [] complete rw sent =
    (let (out, rw) = (if complete then finish print rw else abort_stream print rw);
         outcome = (if complete \<and> fr_saw_done rw then Ended OutOk else Interrupted)
     in (if out = [] then sent else sent @ [out], outcome, rw))"
| "relay parse print (chunk # chunks) complete rw sent =
    (let (out, rw) = push parse print chunk rw
     in if fr_finished rw then (sent @ [out], Interrupted, rw)
        else relay parse print chunks complete rw (if out = [] then sent else sent @ [out]))"

section \<open>The walk over the candidates of a plan\<close>

record route_context =
  cx_ext :: ext
  cx_topology :: topology
  cx_endpoint :: endpoint
  cx_headers :: "ustr \<rightharpoonup> ustr"
  cx_request_id :: ustr
  cx_route :: route
  cx_session :: "affinity_key option"
  cx_plan :: plan
  cx_observed :: "ustr \<rightharpoonup> deployment_observation"
  cx_budget :: "request_budget option"
  cx_net :: "nat \<Rightarrow> await"

record walk =
  wk_now :: nat
  wk_shared :: shared
  wk_tracker :: tracker
  wk_request :: json_object
  wk_reservation :: "lease option"
  wk_refusal :: "refusal option"
  wk_too_small :: "u32 option"
  wk_after_overflow :: bool
  wk_sticky_failed :: "reassignment option"
  wk_attempts :: nat
  wk_sent :: "(ustr \<times> nat \<times> upstream_request) list"
  wk_awaits :: nat

record route_failure =
  fl_response :: client_response
  fl_outcome :: request_outcome
  fl_observation :: "route_observation option"
  fl_reason :: "fallback_reason option"
  fl_route :: ustr

datatype route_end =
    RouteCommitted client_response "lease option" walk
  | RouteFailed route_failure walk
  | RouteBudgetExhausted bool walk

definition context_of :: "route_context \<Rightarrow> candidate \<Rightarrow> u32 option" where
  "context_of cx c = map_option do_context_length (cx_observed cx (ca_deployment c))"

definition larger_than :: "route_context \<Rightarrow> u32 option \<Rightarrow> candidate \<Rightarrow> bool" where
  "larger_than cx known c =
    (case known of
       None \<Rightarrow> True
     | Some least \<Rightarrow> (case context_of cx c of None \<Rightarrow> False | Some context_length \<Rightarrow> least < context_length))"

definition wk_log :: "metric \<Rightarrow> walk \<Rightarrow> walk" where
  "wk_log m wk = wk\<lparr>wk_shared := log_metric m (wk_shared wk)\<rparr>"

definition drop_lease :: "lease \<Rightarrow> walk \<Rightarrow> walk" where
  "drop_lease l wk = wk\<lparr>wk_shared := (wk_shared wk)\<lparr>sh_selector := (sh_selector (wk_shared wk))
     \<lparr>sel_load := lease_drop l (sel_load (sh_selector (wk_shared wk)))\<rparr>\<rparr>\<rparr>"

definition drop_reservation :: "walk \<Rightarrow> walk" where
  "drop_reservation wk =
    (case wk_reservation wk of None \<Rightarrow> wk | Some l \<Rightarrow> (drop_lease l wk)\<lparr>wk_reservation := None\<rparr>)"

text \<open>The slot of an attempt: the reserved one for the first choice, a new one otherwise.\<close>

definition take_slot :: "nat \<Rightarrow> candidate \<Rightarrow> walk \<Rightarrow> lease \<times> walk" where
  "take_slot index c wk =
    (case (wk_reservation wk, index) of
       (Some l, 0) \<Rightarrow> (l, wk\<lparr>wk_reservation := None\<rparr>)
     | _ \<Rightarrow>
         let wk = drop_reservation wk;
             (l, lb) = acquire (ca_deployment c) (sel_load (sh_selector (wk_shared wk)))
         in (l, wk\<lparr>wk_shared := (wk_shared wk)\<lparr>sh_selector := (sh_selector (wk_shared wk))\<lparr>sel_load := lb\<rparr>\<rparr>\<rparr>))"

definition record_attempt :: "route_context \<Rightarrow> candidate \<Rightarrow> routing_reason \<Rightarrow> attempt_result \<Rightarrow> nat option \<Rightarrow> walk \<Rightarrow> walk" where
  "record_attempt cx c reason res status wk =
    wk\<lparr>wk_tracker := (wk_tracker wk)\<lparr>tk_attempts := tk_attempts (wk_tracker wk) @
      [\<lparr>at_route = rt_name (cx_route cx), at_deployment = ca_deployment c, at_reason = reason,
        at_result = res, at_status = status\<rparr>]\<rparr>\<rparr>"


text \<open>After the loop: the last refusal, or nothing answered at all.\<close>

definition finish_walk :: "route_context \<Rightarrow> walk \<Rightarrow> route_end" where
  "finish_walk cx wk =
    (let wk = drop_reservation wk; rt = rt_name (cx_route cx)
     in case wk_refusal wk of
          Some refusal \<Rightarrow>
            let unready = rf_status refusal \<in> {502, 503, 504};
                exhausted = (unready \<and> tk_too_small (wk_tracker wk) = None)
            in RouteFailed
                 \<lparr>fl_response = NodeAnswer (rf_status refusal) (rf_content_type refusal) None
                    (rf_retry_after refusal) (rf_body refusal),
                  fl_outcome = outcome_of_status (rf_status refusal),
                  fl_observation = (if unready then Some ObUnavailable else None),
                  fl_reason = (if exhausted then Some RouteExhausted else None), fl_route = rt\<rparr> wk
        | None \<Rightarrow>
            RouteFailed
              \<lparr>fl_response = RouterError 503 (ascii ''route_unavailable''), fl_outcome = OutUnavailable,
               fl_observation = None, fl_reason = Some RouteUnavailableReason, fl_route = rt\<rparr> wk)"

text \<open>The committing branch of the loop.\<close>

definition committing :: "route_context \<Rightarrow> candidate \<Rightarrow> routing_reason \<Rightarrow> committed_answer \<Rightarrow> walk
    \<Rightarrow> tracker \<times> shared" where
  "committing cx c reason answer wk =
    (let rt = rt_name (cx_route cx);
         final = committed_status answer;
         tk = wk_tracker wk;
         tk = (if wk_after_overflow wk \<and> tk_too_small tk \<noteq> None then tk\<lparr>tk_answered_context := context_of cx c\<rparr> else tk);
         tk = tk\<lparr>tk_final_deployment := Some (ca_deployment c)\<rparr>;
         sh = wk_shared wk;
         sh = (case cx_session cx of
                 Some key \<Rightarrow>
                   if is_success_status final
                   then settle_affinity key (pl_sticky (cx_plan cx)) (wk_sticky_failed wk) (ca_deployment c) (wk_now wk) sh
                   else sh
               | None \<Rightarrow> sh);
         sh = log_metric (RequestCounted rt (outcome_of_status final)) sh;
         sh = log_metric (DecisionCounted rt (pl_policy (cx_plan cx)) reason) sh;
         tk = tk\<lparr>tk_budget_trace := (case cx_budget cx of Some b \<Rightarrow> Some (trace_committed (wk_now wk) b)
                                     | None \<Rightarrow> tk_budget_trace tk)\<rparr>
     in (tk, sh))"

definition commit_attempt :: "route_context \<Rightarrow> candidate \<Rightarrow> routing_reason \<Rightarrow> committed_answer \<Rightarrow> nat option
    \<Rightarrow> lease \<Rightarrow> walk \<Rightarrow> route_end" where
  "commit_attempt cx c reason answer status l wk =
    (let wk = record_attempt cx c reason AttemptCommitted status wk;
         (tk, sh) = committing cx c reason answer wk;
         (response, held, tk, sh) = commit (cx_ext cx) (rt_name (cx_route cx)) answer l (wk_now wk) tk sh
     in RouteCommitted response held (drop_reservation (wk\<lparr>wk_tracker := tk, wk_shared := sh\<rparr>)))"

text \<open>The step of the loop that sends a request: the attempt of one candidate, up to the judgement of its
  result. \<open>None\<close> is an attempt the deadline cut.\<close>

definition send_attempt :: "route_context \<Rightarrow> nat \<Rightarrow> candidate \<Rightarrow> node \<Rightarrow> walk
    \<Rightarrow> (attempt \<times> nat option) option \<times> lease \<times> walk" where
  "send_attempt cx index c n wk =
    (let aw = cx_net cx (wk_awaits wk);
         (l, wk) = take_slot index c wk;
         request = AList.update (ascii ''model'') (JString (ca_remote_model c)) (wk_request wk);
         wk = wk\<lparr>wk_request := request, wk_attempts := Suc (wk_attempts wk), wk_awaits := Suc (wk_awaits wk)\<rparr>;
         started = wk_now wk;
         ready_at = (if ex_to_vec (cx_ext cx) (JObject request) = None then started else started + aw_took aw);
         (result, req, status, sh) = attempt_one (cx_ext cx) (cx_endpoint cx) (cx_headers cx) (cx_request_id cx)
           n request ready_at aw (wk_shared wk);
         wk = wk\<lparr>wk_sent := wk_sent wk @ (case req of None \<Rightarrow> [] | Some r \<Rightarrow> [(ca_deployment c, started, r)])\<rparr>
     in case bound (cx_budget cx) ready_at (result, status) of
          None \<Rightarrow>
            (None, l, wk\<lparr>wk_now := (case cx_budget cx of Some b \<Rightarrow> bu_deadline b | None \<Rightarrow> ready_at),
                         wk_shared := (aw_others aw (wk_shared wk))\<lparr>sh_log := sh_log (wk_shared wk)\<rparr>\<rparr>)
        | Some r \<Rightarrow>
            (Some r, l, wk\<lparr>wk_shared := sh,
               wk_now := (case result of Commits _ \<Rightarrow> ready_at | _ \<Rightarrow> ready_at + aw_after aw)\<rparr>))"

text \<open>After an attempt that did not commit: go on with the rest, or stop. \<open>moves\<close> are the counters of a
  failover, counted only once the next deployment may start.\<close>

definition go_on :: "route_context \<Rightarrow> (nat \<times> candidate) list \<Rightarrow> metric list \<Rightarrow> walk \<Rightarrow> walk + route_end" where
  "go_on cx rest moves wk =
    (if expired (wk_now wk) (cx_budget cx)
     then Inr (RouteBudgetExhausted False (drop_reservation wk))
     else Inl (fold wk_log moves wk))"

definition failed_walk :: "route_context \<Rightarrow> candidate \<Rightarrow> routing_reason \<Rightarrow> bool \<Rightarrow> refusal option \<Rightarrow> nat option
    \<Rightarrow> lease \<Rightarrow> walk \<Rightarrow> walk" where
  "failed_walk cx c reason is_sticky refusal status l wk =
    (drop_lease l (record_attempt cx c reason AttemptFailed status wk))
      \<lparr>wk_after_overflow := False,
       wk_sticky_failed := (if is_sticky then Some StickyFailed else wk_sticky_failed wk),
       wk_refusal := (if refusal \<noteq> None then refusal else wk_refusal wk)\<rparr>"

definition after_failure :: "route_context \<Rightarrow> candidate \<Rightarrow> routing_reason \<Rightarrow> bool \<Rightarrow> (nat \<times> candidate) list
    \<Rightarrow> refusal option \<Rightarrow> nat option \<Rightarrow> lease \<Rightarrow> walk \<Rightarrow> walk + route_end" where
  "after_failure cx c reason is_sticky rest refusal status l wk =
    (let wk = failed_walk cx c reason is_sticky refusal status l wk
     in if list_ex (\<lambda>(_, next). larger_than cx (wk_too_small wk) next) rest
        then go_on cx rest [FailoverCounted (rt_name (cx_route cx))] wk
        else Inl wk)"

definition overflowed_walk :: "route_context \<Rightarrow> candidate \<Rightarrow> routing_reason \<Rightarrow> bool \<Rightarrow> refusal \<Rightarrow> nat option
    \<Rightarrow> lease \<Rightarrow> walk \<Rightarrow> walk" where
  "overflowed_walk cx c reason is_sticky refusal status l wk =
    (let wk = drop_lease l (record_attempt cx c reason AttemptOverflow status wk);
         tk = wk_tracker wk;
         steps = (case tk_too_small tk of None \<Rightarrow> [] | Some steps \<Rightarrow> steps)
     in wk\<lparr>wk_tracker := tk\<lparr>tk_too_small := Some (steps @ [(ca_deployment c, context_of cx c)])\<rparr>,
           wk_sticky_failed := (if is_sticky then Some StickyContextOverflow else wk_sticky_failed wk),
           wk_too_small := Some (max (case context_of cx c of Some n \<Rightarrow> n | None \<Rightarrow> - 1)
             (case wk_too_small wk of Some n \<Rightarrow> n | None \<Rightarrow> 0)),
           wk_refusal := Some refusal\<rparr>)"

definition after_overflow :: "route_context \<Rightarrow> candidate \<Rightarrow> routing_reason \<Rightarrow> bool \<Rightarrow> (nat \<times> candidate) list
    \<Rightarrow> refusal \<Rightarrow> nat option \<Rightarrow> lease \<Rightarrow> walk \<Rightarrow> walk + route_end" where
  "after_overflow cx c reason is_sticky rest refusal status l wk =
    (let wk = overflowed_walk cx c reason is_sticky refusal status l wk
     in if list_ex (\<lambda>(_, next). larger_than cx (wk_too_small wk) next) rest
        then go_on cx rest [FailoverCounted (rt_name (cx_route cx)),
               OverflowFailoverCounted (rt_name (cx_route cx))] (wk\<lparr>wk_after_overflow := True\<rparr>)
        else Inr (finish_walk cx wk))"

definition after_attempt :: "route_context \<Rightarrow> candidate \<Rightarrow> routing_reason \<Rightarrow> bool \<Rightarrow> (nat \<times> candidate) list
    \<Rightarrow> (attempt \<times> nat option) option \<Rightarrow> lease \<Rightarrow> walk \<Rightarrow> walk + route_end" where
  "after_attempt cx c reason is_sticky rest result l wk =
    (case result of
       None \<Rightarrow>
         Inr (RouteBudgetExhausted False
           (drop_reservation (drop_lease l (record_attempt cx c reason AttemptCut None wk))))
     | Some (Next refusal, status) \<Rightarrow> after_failure cx c reason is_sticky rest refusal status l wk
     | Some (ContextOverflow refusal, status) \<Rightarrow> after_overflow cx c reason is_sticky rest refusal status l wk
     | Some (Commits answer, status) \<Rightarrow> Inr (commit_attempt cx c reason answer status l wk))"

text \<open>The body of the loop: the walk goes on, or it has ended.\<close>

definition walk_step :: "route_context \<Rightarrow> nat \<Rightarrow> candidate \<Rightarrow> (nat \<times> candidate) list \<Rightarrow> walk \<Rightarrow> walk + route_end" where
  "walk_step cx index c rest wk =
    (if \<not> larger_than cx (wk_too_small wk) c then Inl wk
     else case decision (cx_plan cx) index of
       None \<Rightarrow> Inr (finish_walk cx wk)
     | Some dec \<Rightarrow>
         (case topology_node (cx_topology cx) (ca_node c) of
            None \<Rightarrow> Inl wk
          | Some n \<Rightarrow>
              let reason = (if wk_after_overflow wk then ContextOverflowFailover else rd_reason dec);
                  is_sticky = (index = 0 \<and> pl_sticky (cx_plan cx) = Some Hit);
                  wk = wk\<lparr>wk_now := wk_now wk + aw_before (cx_net cx (wk_awaits wk))\<rparr>
              in if expired (wk_now wk) (cx_budget cx)
                 then Inr (RouteBudgetExhausted (wk_attempts wk = 0) (drop_reservation wk))
                 else let (result, l, wk) = send_attempt cx index c n wk
                      in after_attempt cx c reason is_sticky rest result l wk))"

fun walk_candidates :: "route_context \<Rightarrow> (nat \<times> candidate) list \<Rightarrow> walk \<Rightarrow> route_end" where
  "walk_candidates cx [] wk = finish_walk cx wk"
| "walk_candidates cx ((index, c) # rest) wk =
    (case walk_step cx index c rest wk of
       Inl wk \<Rightarrow> walk_candidates cx rest wk
     | Inr ended \<Rightarrow> ended)"

section \<open>One attempt at one route\<close>

record request_context =
  rc_ext :: ext
  rc_topology :: topology
  rc_endpoint :: endpoint
  rc_headers :: "ustr \<rightharpoonup> ustr"
  rc_request_id :: ustr
  rc_needs :: request_requirements
  rc_budget :: "request_budget option"
  rc_net :: "nat \<Rightarrow> await"
  rc_is_auto :: bool
  rc_nested :: bool

definition routing_failure_response :: "routing_failure \<Rightarrow> client_response" where
  "routing_failure_response failure =
    (case failure of
       UnknownRoute _ \<Rightarrow> RouterError 404 (ascii ''model_not_found'')
     | NoDefaultRoute \<Rightarrow> RouterError 400 (ascii ''no_default_route'')
     | RouteUnavailable _ \<Rightarrow> RouterError 503 (ascii ''route_unavailable'')
     | CapabilityMismatch _ _ _ \<Rightarrow> RouterError 400 (ascii ''route_capability_mismatch''))"

definition planning_failed :: "route \<Rightarrow> routing_failure \<Rightarrow> walk \<Rightarrow> route_end" where
  "planning_failed r failure wk =
    (case failure of
       CapabilityMismatch _ _ _ \<Rightarrow>
         RouteFailed \<lparr>fl_response = routing_failure_response failure, fl_outcome = OutClientError,
             fl_observation = Some ObMismatch, fl_reason = Some RouteCapabilityMismatch, fl_route = rt_name r\<rparr>
           (wk_log (MismatchCounted (rt_name r)) wk)
     | _ \<Rightarrow>
         RouteFailed \<lparr>fl_response = routing_failure_response failure, fl_outcome = OutUnavailable,
             fl_observation = None,
             fl_reason = (case failure of RouteUnavailable _ \<Rightarrow> Some RouteUnavailableReason | _ \<Rightarrow> None),
             fl_route = rt_name r\<rparr> wk)"

definition fresh_walk :: "plan \<Rightarrow> walk \<Rightarrow> walk" where
  "fresh_walk p wk = wk\<lparr>wk_reservation := pl_reservation p, wk_refusal := None, wk_too_small := None,
     wk_after_overflow := False, wk_sticky_failed := None, wk_attempts := 0\<rparr>"

definition attempt_route :: "request_context \<Rightarrow> route \<Rightarrow> walk \<Rightarrow> route_end" where
  "attempt_route rq r wk =
    (let sh = wk_shared wk;
         key = session (ex_hash (rc_ext rq)) (sh_affinity sh) (rt_name r) (rc_headers rq);
         (sticky_id, book) = (case key of None \<Rightarrow> (None, sh_affinity sh)
                                        | Some k \<Rightarrow> lookup_at k (wk_now wk) (sh_affinity sh));
         sh = sh\<lparr>sh_affinity := book\<rparr>;
         wk = wk\<lparr>wk_shared := sh\<rparr>;
         seen = hb_deployments (sh_health sh)
     in case plan_with_affinity (ex_lower (rc_ext rq)) (sh_selector sh) (rc_topology rq) r
               (hb_nodes (sh_health sh)) seen (rc_needs rq) sticky_id of
          Inl failure \<Rightarrow> planning_failed r failure wk
        | Inr (p, sel) \<Rightarrow>
            let wk = wk\<lparr>wk_shared := sh\<lparr>sh_selector := sel\<rparr>\<rparr>;
                wk = (case key of
                        None \<Rightarrow> wk
                      | Some _ \<Rightarrow> wk_log (if pl_sticky p = Some Hit then AffinityHit (rt_name r)
                                          else AffinityMiss (rt_name r)) wk)
            in walk_candidates
                 \<lparr>cx_ext = rc_ext rq, cx_topology = rc_topology rq, cx_endpoint = rc_endpoint rq,
                  cx_headers = rc_headers rq, cx_request_id = rc_request_id rq, cx_route = r,
                  cx_session = key, cx_plan = p, cx_observed = seen, cx_budget = rc_budget rq, cx_net = rc_net rq\<rparr>
                 (enumerate 0 (pl_candidates p)) (fresh_walk p wk))"

section \<open>The chain of routes\<close>

type_synonym request_end = "client_response \<times> lease option \<times> walk"

text \<open>\<open>exhaust\<close>: the request the budget ended.\<close>

definition exhaust :: "stage \<Rightarrow> ustr option \<Rightarrow> walk \<Rightarrow> request_end" where
  "exhaust st next wk =
    (case tk_budget (wk_tracker wk) of
       None \<Rightarrow>
         (let (tk, sh) = tracker_finish (wk_now wk) None (Ended OutServerError) (wk_tracker wk) (wk_shared wk)
          in (RouterError 500 (ascii ''internal_error''), None, wk\<lparr>wk_tracker := tk, wk_shared := sh\<rparr>))
     | Some b \<Rightarrow>
         (let sh = (if tk_nested (wk_tracker wk) then wk_shared wk
                    else log_metric (BudgetExhaustedCounted st) (wk_shared wk));
              sh = log_metric (RequestCounted (tk_route (wk_tracker wk)) OutBudgetExhausted) sh;
              tk = (wk_tracker wk)\<lparr>tk_budget_trace := Some (trace_exhausted (wk_now wk) b st next)\<rparr>;
              (tk, sh) = tracker_finish (wk_now wk) (Some 504) (Ended OutBudgetExhausted) tk sh
          in (RouterError 504 EXHAUSTED, None, wk\<lparr>wk_tracker := tk, wk_shared := sh\<rparr>)))"

definition conclude :: "route_failure \<Rightarrow> walk \<Rightarrow> request_end" where
  "conclude failure wk =
    (let sh = log_metric (RequestCounted (fl_route failure) (fl_outcome failure)) (wk_shared wk);
         tk = (wk_tracker wk)\<lparr>tk_observation := fl_observation failure\<rparr>;
         (tk, sh) = tracker_finish (wk_now wk) (Some (response_status (fl_response failure)))
           (Ended (fl_outcome failure)) tk sh
     in (fl_response failure, None, wk\<lparr>wk_tracker := tk, wk_shared := sh\<rparr>))"

definition set_fallback :: "fallback_trace \<Rightarrow> walk \<Rightarrow> walk" where
  "set_fallback ft wk = wk\<lparr>wk_tracker := (wk_tracker wk)\<lparr>tk_fallback := Some ft\<rparr>\<rparr>"

definition conclude_chain :: "route \<Rightarrow> hop list \<Rightarrow> route_failure \<Rightarrow> walk \<Rightarrow> request_end" where
  "conclude_chain initial hops failure wk =
    (if hops = [] then conclude failure wk
     else
       let reason = (case fl_reason failure of
               Some r \<Rightarrow> Some (ForFallback r)
             | None \<Rightarrow> if tk_too_small (wk_tracker wk) \<noteq> None then Some ForOverflow else None);
           hops = hops @ [\<lparr>hp_route = fl_route failure, hp_outcome = HopFailed, hp_reason = reason\<rparr>];
           wk = (case fl_reason failure of
                   Some why \<Rightarrow> wk_log (ChainExhausted (rt_name initial) why) wk
                 | None \<Rightarrow> wk)
       in conclude failure
            (set_fallback \<lparr>ft_initial = rt_name initial, ft_final = fl_route failure,
               ft_exhausted = (fl_reason failure \<noteq> None), ft_attempts = hops\<rparr> wk))"

definition request_label :: "request_context \<Rightarrow> route \<Rightarrow> ustr" where
  "request_label rq r = (if rc_is_auto rq then AUTO_ROUTE else rt_name r)"

text \<open>The budget stopped the current route.\<close>

definition budget_stopped :: "request_context \<Rightarrow> route \<Rightarrow> bool \<Rightarrow> bool \<Rightarrow> walk \<Rightarrow> request_end" where
  "budget_stopped rq r on_fallback before_first wk =
    (if on_fallback
     then
       let tk = wk_tracker wk;
           tk = (case tk_fallback tk of
                   Some ft \<Rightarrow>
                     if ft_attempts ft = [] then tk
                     else tk\<lparr>tk_fallback := Some (ft\<lparr>ft_attempts := butlast (ft_attempts ft) @
                            [(last (ft_attempts ft))\<lparr>hp_outcome := HopFailed, hp_reason := Some ForBudget\<rparr>]\<rparr>)\<rparr>
                 | None \<Rightarrow> tk);
           tk = (if before_first then tk\<lparr>tk_unobserved := True\<rparr> else tk)
       in exhaust CrossRouteFallback None (wk\<lparr>wk_tracker := tk\<rparr>)
     else if before_first
     then exhaust RoutePlanning (Some (rt_name r))
            (wk\<lparr>wk_tracker := unattempted (request_label rq r) (wk_tracker wk)\<rparr>)
     else exhaust SameRouteAttempt None wk)"

text \<open>Moving to the next route of the plan: the failed route's observation and the trace.\<close>

definition move_on :: "request_context \<Rightarrow> route \<Rightarrow> route \<Rightarrow> hop list \<Rightarrow> route_failure \<Rightarrow> fallback_reason \<Rightarrow> walk \<Rightarrow> walk" where
  "move_on rq initial next hops failure reason wk =
    (let sh = observe_route (fl_route failure)
           (case fl_observation failure of Some ob \<Rightarrow> ob
            | None \<Rightarrow> observation_of_outcome (Ended (fl_outcome failure))) (rc_nested rq) (wk_shared wk);
         sh = log_metric (FallbackCounted (fl_route failure) (rt_name next) reason) sh;
         wk = wk\<lparr>wk_shared := sh, wk_tracker := retarget next (wk_tracker wk)\<rparr>
     in set_fallback \<lparr>ft_initial = rt_name initial, ft_final = rt_name next, ft_exhausted = False,
          ft_attempts = hops @ [\<lparr>hp_route = rt_name next, hp_outcome = HopCommitted, hp_reason = None\<rparr>]\<rparr> wk)"

definition failed_hop :: "route_failure \<Rightarrow> fallback_reason \<Rightarrow> hop" where
  "failed_hop failure reason =
    \<lparr>hp_route = fl_route failure, hp_outcome = HopFailed, hp_reason = Some (ForFallback reason)\<rparr>"

text \<open>The start check before a fallback route refused it.\<close>

definition next_refused :: "route \<Rightarrow> route \<Rightarrow> hop list \<Rightarrow> route_failure \<Rightarrow> fallback_reason \<Rightarrow> walk \<Rightarrow> request_end" where
  "next_refused initial next hops failure reason wk =
    (let tk = (wk_tracker wk)\<lparr>tk_observation := Some (case fl_observation failure of
           Some ob \<Rightarrow> ob | None \<Rightarrow> observation_of_outcome (Ended (fl_outcome failure)))\<rparr>
     in exhaust CrossRouteFallback (Some (rt_name next))
          (set_fallback \<lparr>ft_initial = rt_name initial, ft_final = fl_route failure, ft_exhausted = False,
             ft_attempts = hops @ [failed_hop failure reason]\<rparr> (wk\<lparr>wk_tracker := tk\<rparr>)))"

fun route_chain :: "request_context \<Rightarrow> route \<Rightarrow> route \<Rightarrow> ustr list \<Rightarrow> hop list \<Rightarrow> walk \<Rightarrow> request_end" where
  "route_chain rq initial r [] hops wk =
    (case attempt_route rq r wk of
       RouteCommitted response held wk \<Rightarrow> (response, held, wk)
     | RouteBudgetExhausted before_first wk \<Rightarrow> budget_stopped rq r (hops \<noteq> []) before_first wk
     | RouteFailed failure wk \<Rightarrow> conclude_chain initial hops failure wk)"
| "route_chain rq initial r (name # left) hops wk =
    (case attempt_route rq r wk of
       RouteCommitted response held wk \<Rightarrow> (response, held, wk)
     | RouteBudgetExhausted before_first wk \<Rightarrow> budget_stopped rq r (hops \<noteq> []) before_first wk
     | RouteFailed failure wk \<Rightarrow>
         (case (fl_reason failure, topology_route (rc_topology rq) name) of
            (Some reason, Some next) \<Rightarrow>
              if expired (wk_now wk) (rc_budget rq)
              then next_refused initial next hops failure reason wk
              else route_chain rq initial next left (hops @ [failed_hop failure reason])
                     (move_on rq initial next (hops @ [failed_hop failure reason]) failure reason wk)
          | _ \<Rightarrow> conclude_chain initial hops failure wk))"

text \<open>From the resolved route and the requirements on: the start check, and the chain over the frozen plan,
  which is the initial route's list for a client that asked for \<open>Auto\<close>.\<close>

definition fallback_plan :: "request_context \<Rightarrow> fallback_chains \<Rightarrow> route \<Rightarrow> ustr list" where
  "fallback_plan rq cs r = (if rc_is_auto rq \<and> \<not> rc_nested rq then chain_of cs (rt_name r) else [])"

definition forward_routed :: "request_context \<Rightarrow> fallback_chains \<Rightarrow> route \<Rightarrow> walk \<Rightarrow> request_end" where
  "forward_routed rq cs r wk =
    (if expired (wk_now wk) (rc_budget rq)
     then exhaust RoutePlanning (Some (rt_name r))
            (wk\<lparr>wk_tracker := unattempted (request_label rq r) (wk_tracker wk)\<rparr>)
     else route_chain rq r r (fallback_plan rq cs r) [] wk)"

section \<open>The body of a request\<close>

datatype body_problem = InvalidJson | NotAnObject | ModelNotAString

definition parse_body :: "(u8 list \<Rightarrow> json option) \<Rightarrow> u8 list \<Rightarrow> body_problem + json_object" where
  "parse_body from_slice body =
    (case from_slice body of
       None \<Rightarrow> Inl InvalidJson
     | Some (JObject obj) \<Rightarrow>
         (case map_of obj (ascii ''model'') of
            None \<Rightarrow> Inr obj
          | Some (JString _) \<Rightarrow> Inr obj
          | Some JNull \<Rightarrow> Inr obj
          | Some _ \<Rightarrow> Inl ModelNotAString)
     | Some _ \<Rightarrow> Inl NotAnObject)"

end
