(* ===== verification/Router_Select_Correct.thy ===== *)
theory Router_Select_Correct
  imports Router_Select "HOL-Library.Code_Target_Nat"
begin

text \<open>
  What a plan promises. The specification is \<open>routable\<close>: the deployments of a route, in configured
  order, that can take traffic now and can serve the request. Every policy, sticky or not, tries exactly
  these; the policies differ in the order alone.
\<close>

section \<open>The routable deployments\<close>

definition candidate_at ::
  "(ustr \<Rightarrow> ustr) \<Rightarrow> topology \<Rightarrow> (ustr \<rightharpoonup> node_status) \<Rightarrow> nat \<times> ustr \<Rightarrow> candidate option" where
  "candidate_at lower tp health = (\<lambda>(position, i).
    case topology_deployment tp i of
      None \<Rightarrow> None
    | Some d \<Rightarrow>
        (case topology_node tp (dp_node d) of
           None \<Rightarrow> None
         | Some n \<Rightarrow>
             if availability lower n d (case health (nd_id n) of None \<Rightarrow> default_status | Some st \<Rightarrow> st)
                = Available
             then Some \<lparr>ca_deployment = dp_id d, ca_node = nd_id n,
                        ca_remote_model = dp_remote_model d, ca_position = position\<rparr>
             else None))"

definition available_candidates ::
  "(ustr \<Rightarrow> ustr) \<Rightarrow> topology \<Rightarrow> route \<Rightarrow> (ustr \<rightharpoonup> node_status) \<Rightarrow> candidate list" where
  "available_candidates lower tp r health =
    List.map_filter (candidate_at lower tp health) (enumerate 0 (rt_deployments r))"

definition skipped_deployments ::
  "(ustr \<Rightarrow> ustr) \<Rightarrow> topology \<Rightarrow> route \<Rightarrow> (ustr \<rightharpoonup> node_status) \<Rightarrow> (ustr \<times> unavailable_reason) list" where
  "skipped_deployments lower tp r health = snd (eligible_loop lower tp health 0 (rt_deployments r) [] [])"

definition routable ::
  "(ustr \<Rightarrow> ustr) \<Rightarrow> topology \<Rightarrow> route \<Rightarrow> (ustr \<rightharpoonup> node_status) \<Rightarrow>
    (ustr \<rightharpoonup> deployment_observation) \<Rightarrow> request_requirements \<Rightarrow> candidate list" where
  "routable lower tp r health obs needs =
    filter (\<lambda>c. gaps needs (obs (ca_deployment c)) = []) (available_candidates lower tp r health)"

lemma map_filter_Cons:
  "List.map_filter f (x # xs) = (case f x of None \<Rightarrow> List.map_filter f xs | Some y \<Rightarrow> y # List.map_filter f xs)"
  by (simp add: List.map_filter_def split: option.splits)

lemma eligible_loop_candidates:
  "fst (eligible_loop lower tp health position ids cs sk) =
    cs @ List.map_filter (candidate_at lower tp health) (enumerate position ids)"
proof (induction ids arbitrary: position cs sk)
  case Nil
  then show ?case by (simp add: List.map_filter_def)
next
  case (Cons i ids)
  then show ?case
    by (auto simp: map_filter_Cons candidate_at_def split: option.splits deployment_health.splits)
qed

lemma available_candidates_eq:
  "available_candidates lower tp r health
    = fst (eligible_loop lower tp health 0 (rt_deployments r) [] [])"
  by (simp add: available_candidates_def eligible_loop_candidates)

lemma eligible_of_eq:
  "eligible_of lower tp r health =
    (if available_candidates lower tp r health = [] then Inl (RouteUnavailable (rt_name r))
     else Inr \<lparr>el_route = rt_name r, el_candidates = available_candidates lower tp r health,
               el_skipped = skipped_deployments lower tp r health, el_unfit = [],
               el_route_size = length (rt_deployments r)\<rparr>)"
  by (simp add: eligible_of_def available_candidates_eq skipped_deployments_def case_prod_unfold Let_def)

text \<open>The set the policy is handed, when there is one.\<close>

definition fit_of ::
  "(ustr \<Rightarrow> ustr) \<Rightarrow> topology \<Rightarrow> route \<Rightarrow> (ustr \<rightharpoonup> node_status) \<Rightarrow>
    (ustr \<rightharpoonup> deployment_observation) \<Rightarrow> request_requirements \<Rightarrow> eligible" where
  "fit_of lower tp r health obs needs =
    \<lparr>el_route = rt_name r, el_candidates = routable lower tp r health obs needs,
     el_skipped = skipped_deployments lower tp r health,
     el_unfit = map (\<lambda>c. (ca_deployment c, gaps needs (obs (ca_deployment c))))
       (filter (\<lambda>c. gaps needs (obs (ca_deployment c)) \<noteq> []) (available_candidates lower tp r health)),
     el_route_size = length (rt_deployments r)\<rparr>"

definition refusal ::
  "(ustr \<Rightarrow> ustr) \<Rightarrow> topology \<Rightarrow> route \<Rightarrow> (ustr \<rightharpoonup> node_status) \<Rightarrow>
    (ustr \<rightharpoonup> deployment_observation) \<Rightarrow> request_requirements \<Rightarrow> routing_failure" where
  "refusal lower tp r health obs needs =
    (let cs = available_candidates lower tp r health
     in if cs = [] \<or>
           (\<exists>(d, reason) \<in> set (skipped_deployments lower tp r health).
              obs d \<noteq> None \<and> gaps needs (obs d) = [])
        then RouteUnavailable (rt_name r)
        else CapabilityMismatch (rt_name r)
               (sorted_list_of_set (\<Union>c \<in> set cs. set (gaps needs (obs (ca_deployment c)))))
               (map (\<lambda>c. (ca_deployment c, gaps needs (obs (ca_deployment c)))) cs))"

lemma remdups_adj_sort_set: "remdups_adj (sort xs) = sorted_list_of_set (set xs)"
  for xs :: "'a::linorder list"
proof -
  have "sorted (remdups_adj (sort xs))" "distinct (remdups_adj (sort xs))"
    by (simp_all add: sorted_remdups_adj remdups_adj_sort)
  moreover have "set (remdups_adj (sort xs)) = set xs" by simp
  ultimately show ?thesis by (metis sorted_list_of_set.idem_if_sorted_distinct)
qed

lemma filters_compose:
  "and_then (eligible_of lower tp r health) (\<lambda>el. and_then (capability_filter el needs obs) k) =
    (if routable lower tp r health obs needs = [] then Inl (refusal lower tp r health obs needs)
     else k (fit_of lower tp r health obs needs))"
proof (cases "routable lower tp r health obs needs = []")
  case False
  then have "available_candidates lower tp r health \<noteq> []" by (auto simp: routable_def)
  with False show ?thesis
    by (simp add: eligible_of_eq capability_filter_def split_fit_eq fit_of_def routable_def Let_def)
next
  case True
  then have unfit: "filter (\<lambda>c. gaps needs (obs (ca_deployment c)) \<noteq> [])
      (available_candidates lower tp r health) = available_candidates lower tp r health"
    by (auto simp: routable_def filter_empty_conv filter_id_conv)
  have down: "list_ex (\<lambda>(d, _). case obs d of None \<Rightarrow> False | Some seen \<Rightarrow> gaps needs (Some seen) = []) sk
      \<longleftrightarrow> (\<exists>(d, reason) \<in> set sk. obs d \<noteq> None \<and> gaps needs (obs d) = [])" for sk
    by (auto simp: list_ex_iff split: option.splits) force+
  show ?thesis
  proof (cases "available_candidates lower tp r health = []")
    case True
    with \<open>routable lower tp r health obs needs = []\<close> show ?thesis
      by (simp add: eligible_of_eq refusal_def Let_def)
  next
    case False
    with True unfit show ?thesis
      by (simp add: eligible_of_eq capability_filter_def split_fit_eq routable_def refusal_def down
          remdups_adj_sort_set Let_def)
  qed
qed

section \<open>The candidates of a plan\<close>

lemma mset_remove_at: "i < length xs \<Longrightarrow> add_mset (xs ! i) (mset (remove_at i xs)) = mset xs"
proof -
  assume "i < length xs"
  then have "mset xs = mset (take i xs @ xs ! i # drop (Suc i) xs)" by (simp add: id_take_nth_drop [symmetric])
  then show ?thesis by (simp add: remove_at_def)
qed

lemma mset_ranked_loads: "mset (map fst (ranked_loads cs loads)) = mset cs"
proof -
  have "map fst (map (\<lambda>(i, c). (c, f i)) (enumerate n cs)) = cs" for n and f :: "nat \<Rightarrow> load"
    by (induction cs arbitrary: n) auto
  then show ?thesis
    by (simp only: ranked_loads_def mset_map mset_sort_by) (simp flip: mset_map)
qed

lemma image_ranked_loads [simp]: "image_mset fst (mset (ranked_loads cs loads)) = mset cs"
  using mset_ranked_loads by simp

lemma mset_rotate [simp]: "mset (rotate n xs) = mset xs"
  by (metis append_take_drop_id mset_append rotate_drop_take union_commute)

lemma order_candidates:
  "pl_candidates (order_priority el) = el_candidates el"
  "pl_candidates (order_round_robin el cursor) =
    rotate (unat (cursor mod word_of_nat (max (length (el_candidates el)) 1))) (el_candidates el)"
  "pl_candidates (order_least_busy el loads) = map fst (ranked_loads (el_candidates el) loads)"
  by (simp_all add: order_priority_def order_round_robin_def order_least_busy_def plan_from_def Let_def
      split: prod.splits)

lemma reserve_first_keeps [simp]:
  "pl_candidates (fst (reserve_first p sel)) = pl_candidates p"
  "pl_sticky (fst (reserve_first p sel)) = pl_sticky p"
  "sel_cursors (snd (reserve_first p sel)) = sel_cursors sel"
  by (simp_all add: reserve_first_def split: list.splits prod.splits)

lemma plan_policy_candidates:
  "mset (pl_candidates (fst (plan_policy sel policy state el obs))) = mset (el_candidates el)"
  by (simp add: plan_policy_def order_candidates mset_ranked_loads
      split: route_policy.splits option.splits)

lemma plan_sticky_candidates:
  assumes "index < length (el_candidates el)"
  shows "mset (pl_candidates (fst (plan_sticky sel policy state el index obs))) = mset (el_candidates el)"
    and "pl_candidates (fst (plan_sticky sel policy state el index obs)) \<noteq> []"
    and "hd (pl_candidates (fst (plan_sticky sel policy state el index obs))) = el_candidates el ! index"
proof -
  let ?p = "fst (plan_sticky sel policy state el index obs)" and ?cs = "el_candidates el"
  have "?cs \<noteq> []" using assms by auto
  then have first: "rotate index ?cs \<noteq> []" "hd (rotate index ?cs) = ?cs ! index"
    using assms by (simp_all add: hd_rotate_conv_nth)
  show "mset (pl_candidates ?p) = mset ?cs"
    using assms
    by (simp add: plan_sticky_def Let_def plan_from_def order_candidates mset_ranked_loads mset_remove_at
        split: route_policy.splits option.splits)
  show "pl_candidates ?p \<noteq> []" "hd (pl_candidates ?p) = ?cs ! index"
    using first
    by (simp_all add: plan_sticky_def Let_def plan_from_def split: route_policy.splits option.splits)
qed

text \<open>A plan is the policy's order of the fit set, or the sticky order, with the first reserved.\<close>

lemma plan_eq:
  "plan_with_affinity lower sel tp r health obs needs sticky_id =
    (let el = fit_of lower tp r health obs needs;
         state = route_state sel tp (rt_name r);
         standing = standing_of el sticky_id
     in if routable lower tp r health obs needs = [] then Inl (refusal lower tp r health obs needs)
        else (case standing of
           Some (Inr index) \<Rightarrow> Inr (plan_sticky sel (rt_policy r) state el index obs)
         | _ \<Rightarrow>
             Inr (case plan_policy sel (rt_policy r) state el obs of
                    (p, sel) \<Rightarrow> (fst (reserve_first p sel)\<lparr>pl_sticky := broken_of standing\<rparr>,
                                snd (reserve_first p sel)))))"
  unfolding plan_with_affinity_def filters_compose Let_def
  by (simp add: case_prod_unfold split: option.splits sum.splits)

lemma sticky_standing_Inr:
  "sticky_standing el i = Inr index \<Longrightarrow>
    index < length (el_candidates el) \<and> ca_deployment (el_candidates el ! index) = i"
  by (auto simp: sticky_standing_def dest!: index_where_Some
      split: option.splits if_splits unavailable_reason.splits)

lemma sticky_standing_Inl:
  "(\<exists>reason. sticky_standing el i = Inl reason) \<longleftrightarrow> i \<notin> ca_deployment ` set (el_candidates el)"
proof (cases "index_where (\<lambda>c. ca_deployment c = i) (el_candidates el)")
  case None
  then have "i \<notin> ca_deployment ` set (el_candidates el)" by (auto simp: index_where_None)
  with None show ?thesis
    by (simp add: sticky_standing_def split: option.splits unavailable_reason.splits)
next
  case (Some index)
  with index_where_Some [OF Some] show ?thesis by (auto simp: sticky_standing_def)
qed

lemma plan_candidates_routable:
  "case plan_with_affinity lower sel tp r health obs needs sticky_id of
     Inl _ \<Rightarrow> routable lower tp r health obs needs = []
   | Inr (p, _) \<Rightarrow>
       mset (pl_candidates p) = mset (routable lower tp r health obs needs) \<and> pl_candidates p \<noteq> []"
proof (cases "routable lower tp r health obs needs = []")
  case True
  then show ?thesis by (simp add: plan_eq)
next
  case False
  let ?el = "fit_of lower tp r health obs needs"
  let ?ok = "\<lambda>p. mset (pl_candidates p) = mset (routable lower tp r health obs needs) \<and> pl_candidates p \<noteq> []"
  have el: "el_candidates ?el = routable lower tp r health obs needs" by (simp add: fit_of_def)
  have policy: "?ok (fst (plan_policy sel policy state ?el obs))" for policy state
    using plan_policy_candidates [of sel policy state ?el obs] False el
    by (metis mset_zero_iff)
  have hit: "?ok (fst (plan_sticky sel policy state ?el index obs))"
    if "sticky_standing ?el i = Inr index" for policy state i index
    using plan_sticky_candidates [of index ?el] sticky_standing_Inr [OF that] el by simp
  show ?thesis
  proof (cases "standing_of ?el sticky_id")
    case None
    with False policy show ?thesis by (simp add: plan_eq Let_def case_prod_unfold)
  next
    case (Some standing)
    with False policy hit show ?thesis
      by (cases standing) (auto simp: plan_eq Let_def case_prod_unfold standing_of_def)
  qed
qed

text \<open>C3. Every plan, whatever the policy, the state of the selector or the session's preference,
  tries exactly the deployments of the route that can take traffic now and can serve this request, each
  once; a request is refused only when there is none.\<close>

theorem plan_tries_exactly_the_routable:
  "case plan_with_affinity lower sel tp r health obs needs sticky_id of
     Inl _ \<Rightarrow> routable lower tp r health obs needs = []
   | Inr (p, _) \<Rightarrow>
       mset (pl_candidates p) = mset (routable lower tp r health obs needs) \<and> pl_candidates p \<noteq> []"
  by (rule plan_candidates_routable)

text \<open>A refusal says what to do: the route is unavailable when nothing is up or when a deployment
  that is down was last seen able to serve the request, and otherwise the request is a mismatch that
  names every gap of every available deployment, in order and without repetition.\<close>

theorem refusal_reason:
  "plan_with_affinity lower sel tp r health obs needs sticky_id = Inl failure \<longleftrightarrow>
    routable lower tp r health obs needs = [] \<and> failure = refusal lower tp r health obs needs"
  by (auto simp: plan_eq Let_def split: option.splits sum.splits)

text \<open>Session affinity prefers and never forces: when the session's deployment is routable it is
  tried first, the rotation takes no turn and the plan says so; when it is not, the plan and the state
  are exactly those of a request without a session, and the plan says why.\<close>

theorem sticky_preference:
  assumes "plan_with_affinity lower sel tp r health obs needs (Some i) = Inr (p, sel')"
  shows "if i \<in> ca_deployment ` set (routable lower tp r health obs needs)
         then ca_deployment (hd (pl_candidates p)) = i \<and> pl_sticky p = Some Hit \<and>
              sel_cursors sel' = sel_cursors sel
         else \<exists>reason. pl_sticky p = Some (Broken reason) \<and>
                plan_request lower sel tp r health obs needs = Inr (p\<lparr>pl_sticky := None\<rparr>, sel')"
proof -
  let ?el = "fit_of lower tp r health obs needs"
  have el: "el_candidates ?el = routable lower tp r health obs needs" by (simp add: fit_of_def)
  show ?thesis
  proof (cases "sticky_standing ?el i")
    case (Inr index)
    note at = sticky_standing_Inr [OF Inr]
    then have "i \<in> ca_deployment ` set (el_candidates ?el)" by (metis imageI nth_mem)
    moreover have "(p, sel') = plan_sticky sel (rt_policy r) (route_state sel tp (rt_name r)) ?el index obs"
      using assms Inr by (auto simp: plan_eq standing_of_def Let_def split: if_splits)
    moreover have "pl_sticky (fst (plan_sticky sel policy state ?el index obs)) = Some Hit"
      "sel_cursors (snd (plan_sticky sel policy state ?el index obs)) = sel_cursors sel" for policy state
      by (simp_all add: plan_sticky_def Let_def split: route_policy.splits option.splits)
    ultimately show ?thesis
      using plan_sticky_candidates(3) [OF conjunct1 [OF at]] at el by (metis fst_conv snd_conv)
  next
    case (Inl reason)
    then have "i \<notin> ca_deployment ` set (el_candidates ?el)" using sticky_standing_Inl by blast
    with assms Inl el show ?thesis
      by (auto simp: plan_eq plan_request_def standing_of_def broken_of_def Let_def reserve_first_def
          plan_policy_def order_priority_def order_round_robin_def order_least_busy_def plan_from_def
          split: if_splits list.splits prod.splits)
  qed
qed

section \<open>Round robin\<close>

text \<open>The first choices of consecutive requests, each planned on the state the previous one left.\<close>

fun first_choices ::
  "(ustr \<Rightarrow> ustr) \<Rightarrow> selector \<Rightarrow> topology \<Rightarrow> route \<Rightarrow> (ustr \<rightharpoonup> node_status) \<Rightarrow>
    (ustr \<rightharpoonup> deployment_observation) \<Rightarrow> request_requirements \<Rightarrow> nat \<Rightarrow> candidate list" where
  "first_choices lower sel tp r health obs needs 0 = []"
| "first_choices lower sel tp r health obs needs (Suc k) =
    (case plan_request lower sel tp r health obs needs of
       Inl _ \<Rightarrow> []
     | Inr (p, sel') \<Rightarrow>
         hd (pl_candidates p) # first_choices lower sel' tp r health obs needs k)"

lemma round_robin_step:
  assumes "rt_policy r = RoundRobin" "cursor_of sel tp (rt_name r) = Some c"
    and "routable lower tp r health obs needs \<noteq> []"
    and "length (routable lower tp r health obs needs) < 2 ^ 64"
  obtains p sel' where "plan_request lower sel tp r health obs needs = Inr (p, sel')"
    "hd (pl_candidates p) = routable lower tp r health obs needs !
       (unat c mod length (routable lower tp r health obs needs))"
    "cursor_of sel' tp (rt_name r) = Some (c + 1)"
proof -
  let ?el = "fit_of lower tp r health obs needs" and ?cs = "routable lower tp r health obs needs"
  obtain i where i: "route_state sel tp (rt_name r) = Some i" "c = sel_cursors sel ! i"
    using assms(2) by (auto simp: cursor_of_def)
  then have "i < length (sel_cursors sel)" by (auto simp: route_state_def split: option.splits if_splits)
  let ?sel = "sel\<lparr>sel_cursors := (sel_cursors sel)[i := c + 1]\<rparr>"
  let ?res = "reserve_first (order_round_robin ?el c) ?sel"
  have plan: "plan_request lower sel tp r health obs needs =
      Inr (fst ?res\<lparr>pl_sticky := None\<rparr>, snd ?res)"
    using assms(1,3) i by (simp add: plan_request_def plan_eq Let_def standing_of_def broken_of_def plan_policy_def)
  have el: "el_candidates ?el = ?cs" by (simp add: fit_of_def)
  have "max (length ?cs) 1 = length ?cs" using assms(3) by (cases ?cs) auto
  moreover have "unat (word_of_nat (length ?cs) :: u64) = length ?cs"
    using assms(4) by (simp add: unat_of_nat take_bit_eq_mod)
  ultimately have "hd (pl_candidates (order_round_robin ?el c)) = ?cs ! (unat c mod length ?cs)"
    using assms(3) by (simp add: order_candidates el hd_rotate_conv_nth unat_mod_distrib)
  moreover have "cursor_of (snd ?res) tp (rt_name r) = Some (c + 1)"
    using i \<open>i < length (sel_cursors sel)\<close>
    by (auto simp: cursor_of_def route_state_def split: option.splits if_splits)
  ultimately show thesis using that plan by simp
qed

lemma first_choices_round_robin:
  assumes "rt_policy r = RoundRobin" "routable lower tp r health obs needs \<noteq> []"
    and "length (routable lower tp r health obs needs) < 2 ^ 64"
  shows "cursor_of sel tp (rt_name r) = Some c \<Longrightarrow> unat c + k < 2 ^ 64 \<Longrightarrow>
    first_choices lower sel tp r health obs needs k =
      map (\<lambda>j. routable lower tp r health obs needs !
                 ((unat c + j) mod length (routable lower tp r health obs needs))) [0..<k]"
proof (induction k arbitrary: sel c)
  case (Suc k)
  let ?cs = "routable lower tp r health obs needs"
  obtain p sel' where step: "plan_request lower sel tp r health obs needs = Inr (p, sel')"
    "hd (pl_candidates p) = ?cs ! (unat c mod length ?cs)"
    "cursor_of sel' tp (rt_name r) = Some (c + 1)"
    using round_robin_step assms Suc.prems(1) by metis
  have next_cursor: "unat (c + 1) = Suc (unat c)"
    using Suc.prems(2) by (subst unat_add_small) simp_all
  have "first_choices lower sel' tp r health obs needs k =
      map (\<lambda>j. ?cs ! ((unat (c + 1) + j) mod length ?cs)) [0..<k]"
    using Suc.prems(2) by (intro Suc.IH step(3)) (simp add: next_cursor)
  moreover have "map f [0..<Suc k] = f 0 # map (\<lambda>j. f (Suc j)) [0..<k]" for f :: "nat \<Rightarrow> candidate"
    using map_upt_Suc [of f k] by simp
  ultimately show ?case by (simp add: step next_cursor del: upt_Suc)
qed simp

lemma mset_ring:
  assumes "xs \<noteq> []"
  shows "mset (map (\<lambda>j. xs ! ((c + j) mod length xs)) [0..<m * length xs]) = repeat_mset m (mset xs)"
proof (induction m)
  case (Suc m)
  let ?n = "length xs"
  have once: "map (\<lambda>j. xs ! ((c + j) mod ?n)) [0..<?n] = rotate c xs"
    by (rule nth_equalityI) (simp_all add: nth_rotate add.commute)
  have "map (\<lambda>j. xs ! ((c + j) mod ?n)) [m * ?n..<m * ?n + ?n]
      = map (\<lambda>j. xs ! ((c + j) mod ?n)) (map (\<lambda>j. j + m * ?n) [0..<?n])"
    by (simp only: map_add_upt) (simp add: add.commute)
  also have "\<dots> = rotate c xs"
    unfolding once [symmetric] by (simp add: add.assoc [symmetric])
  finally have "mset (map (\<lambda>j. xs ! ((c + j) mod ?n)) [m * ?n..<m * ?n + ?n]) = mset xs" by simp
  moreover have "[0..<Suc m * ?n] = [0..<m * ?n] @ [m * ?n..<m * ?n + ?n]"
    using upt_add_eq_append [of 0 "m * ?n" ?n] by (simp add: add.commute)
  ultimately show ?case using Suc by (simp add: add.commute)
qed simp

text \<open>Round robin is fair: while the routable deployments stay the same, any \<open>rounds * n\<close> consecutive
  requests on a route with \<open>n\<close> of them choose each one first exactly \<open>rounds\<close> times, from wherever the
  cursor stands, as long as the 64-bit cursor does not wrap on the way.\<close>

theorem round_robin_fair:
  assumes "rt_policy r = RoundRobin" "cursor_of sel tp (rt_name r) = Some c"
    and "unat c + rounds * length (routable lower tp r health obs needs) < 2 ^ 64"
  shows "mset (first_choices lower sel tp r health obs needs
                 (rounds * length (routable lower tp r health obs needs)))
    = repeat_mset rounds (mset (routable lower tp r health obs needs))"
proof (cases "routable lower tp r health obs needs = [] \<or> rounds = 0")
  case False
  then have "length (routable lower tp r health obs needs)
      \<le> rounds * length (routable lower tp r health obs needs)" by simp
  with assms(3) have "length (routable lower tp r health obs needs) < 2 ^ 64" by linarith
  with False assms
  have "first_choices lower sel tp r health obs needs
          (rounds * length (routable lower tp r health obs needs)) =
      map (\<lambda>j. routable lower tp r health obs needs !
                 ((unat c + j) mod length (routable lower tp r health obs needs)))
        [0..<rounds * length (routable lower tp r health obs needs)]"
    by (intro first_choices_round_robin) auto
  with False mset_ring [of "routable lower tp r health obs needs"] show ?thesis by simp
qed auto

section \<open>Least busy\<close>

text \<open>The order the policy means: known capacities before unknown ones, then the exact fraction in use.\<close>

definition not_busier :: "load \<Rightarrow> load \<Rightarrow> bool" where
  "not_busier a b \<longleftrightarrow>
    (case (capacity a, capacity b) of
       (Some la, Some lb) \<Rightarrow> unat (ld_active a) * unat lb \<le> unat (ld_active b) * unat la
     | (Some _, None) \<Rightarrow> True
     | (None, Some _) \<Rightarrow> False
     | (None, None) \<Rightarrow> unat (ld_active a) \<le> unat (ld_active b))"

lemma unat_u128_product: "unat ((ucast (a :: u64) :: u128) * ucast (b :: u64)) = unat a * unat b"
proof -
  have "unat a * unat b < 2 ^ 64 * 2 ^ 64"
    using unat_lt_two_power [of a] unat_lt_two_power [of b] by (intro mult_strict_mono) auto
  moreover have "unat (ucast w :: u128) = unat w" for w :: u64
    using unat_lt_two_power [of w] by (simp add: unsigned_ucast_eq take_bit_eq_mod)
  ultimately show ?thesis by (simp add: unat_mul_small)
qed

lemma compare_load_iff:
  "compare_load a b \<noteq> Greater \<longleftrightarrow> not_busier a b"
  "compare_load a b = Less \<longleftrightarrow> \<not> not_busier b a"
  by (auto simp: compare_load_def not_busier_def word_less_nat_alt unat_u128_product
      split: option.splits)

lemma capacity_pos: "capacity l = Some n \<Longrightarrow> 0 < unat n"
proof -
  assume "capacity l = Some n"
  then obtain m where "ld_limit l = Some m" "0 < m" "n = ucast m"
    by (auto simp: capacity_def split: option.splits if_splits)
  moreover from this have "unat n = unat m"
    using unat_lt_two_power [of m] by (simp add: unsigned_ucast_eq take_bit_eq_mod)
  ultimately show ?thesis by (simp add: word_less_nat_alt)
qed

lemma not_busier_trans:
  assumes "not_busier a b" "not_busier b c"
  shows "not_busier a c"
proof (cases "capacity a")
  case None
  with assms show ?thesis by (auto simp: not_busier_def split: option.splits)
next
  case (Some la)
  show ?thesis
  proof (cases "capacity c")
    case None
    with Some show ?thesis by (simp add: not_busier_def)
  next
    case c: (Some lc)
    with assms(2) obtain lb where b: "capacity b = Some lb" by (auto simp: not_busier_def split: option.splits)
    have ab: "unat (ld_active a) * unat lb \<le> unat (ld_active b) * unat la"
      and bc: "unat (ld_active b) * unat lc \<le> unat (ld_active c) * unat lb"
      using assms Some b c by (simp_all add: not_busier_def)
    have "unat lb * (unat (ld_active a) * unat lc) \<le> unat lc * (unat (ld_active b) * unat la)"
      using mult_le_mono2 [OF ab, of "unat lc"] by (simp add: ac_simps)
    also have "\<dots> \<le> unat lb * (unat (ld_active c) * unat la)"
      using mult_le_mono2 [OF bc, of "unat la"] by (simp add: ac_simps)
    finally show ?thesis using capacity_pos [OF b] Some c by (simp add: not_busier_def)
  qed
qed

lemma not_busier_total: "not_busier a b \<or> not_busier b a"
  by (auto simp: not_busier_def split: option.splits)

lemma compare_ranked_iff:
  "compare_ranked a b \<noteq> Greater \<longleftrightarrow>
    not_busier (snd a) (snd b) \<and>
    (not_busier (snd b) (snd a) \<longrightarrow> ca_position (fst a) \<le> ca_position (fst b))"
  "compare_ranked a b = Less \<longleftrightarrow>
    \<not> not_busier (snd b) (snd a) \<or>
    not_busier (snd a) (snd b) \<and> ca_position (fst a) < ca_position (fst b)"
  using compare_load_iff [of "snd a" "snd b"] not_busier_total [of "snd a" "snd b"]
  by (cases "compare_load (snd a) (snd b)"; auto simp: compare_ranked_def)+

interpretation ranking: total_comparison compare_ranked
proof
  fix a b c :: "candidate \<times> load"
  show "compare_ranked a b = Greater \<longleftrightarrow> compare_ranked b a = Less"
    using compare_ranked_iff(1) [of a b] compare_ranked_iff(2) [of b a] not_busier_total by auto
  show "compare_ranked a c \<noteq> Greater"
    if "compare_ranked a b \<noteq> Greater" "compare_ranked b c \<noteq> Greater"
    using that not_busier_trans unfolding compare_ranked_iff by (meson le_trans)
qed

definition load_of :: "load_book \<Rightarrow> (ustr \<rightharpoonup> deployment_observation) \<Rightarrow> candidate \<Rightarrow> load" where
  "load_of lb obs c =
    \<lparr>ld_active = active (ca_deployment c) lb,
     ld_limit = map_option do_max_concurrent_requests (obs (ca_deployment c))\<rparr>"

lemma ranked_loads_of:
  "ranked_loads cs (loads_of lb obs cs) = sort_by compare_ranked (map (\<lambda>c. (c, load_of lb obs c)) cs)"
proof -
  have "map (\<lambda>(i, c). (c, if i < length ls then ls ! i else \<lparr>ld_active = 0, ld_limit = None\<rparr>))
      (enumerate 0 cs) = map (\<lambda>c. (c, load_of lb obs c)) cs" if "ls = loads_of lb obs cs" for ls
    by (rule nth_equalityI)
      (simp_all add: that loads_of_def load_of_def nth_enumerate_eq)
  then show ?thesis unfolding ranked_loads_def by simp
qed

lemma snd_ranked_loads: "(c, l) \<in> set (ranked_loads cs (loads_of lb obs cs)) \<Longrightarrow> l = load_of lb obs c"
  by (auto simp: ranked_loads_of)

lemma least_busy_sorted:
  "sorted_wrt (\<lambda>a b. not_busier (load_of lb obs a) (load_of lb obs b) \<and>
      (not_busier (load_of lb obs b) (load_of lb obs a) \<longrightarrow> ca_position a \<le> ca_position b))
    (map fst (ranked_loads cs (loads_of lb obs cs)))"
proof -
  have "sorted_wrt (\<lambda>a b. compare_ranked a b \<noteq> Greater) (ranked_loads cs (loads_of lb obs cs))"
    unfolding ranked_loads_of by (rule ranking.sorted_sort_by)
  then show ?thesis
    unfolding sorted_wrt_map compare_ranked_iff
    by (rule sorted_wrt_mono_rel [rotated]) (metis snd_ranked_loads prod.collapse)
qed

text \<open>Least-busy sends a request to the least loaded deployment and fails over in order of load: the
  candidates are sorted by the exact fraction of their slots in use (compared in 128 bits without
  overflow), those that never told their capacity last, and equally loaded ones in configured order.\<close>

theorem least_busy_order:
  assumes "rt_policy r = LeastBusy" "cursor_of sel tp (rt_name r) \<noteq> None"
    and "plan_request lower sel tp r health obs needs = Inr (p, sel')"
  shows "sorted_wrt (\<lambda>a b. not_busier (load_of (sel_load sel) obs a) (load_of (sel_load sel) obs b) \<and>
      (not_busier (load_of (sel_load sel) obs b) (load_of (sel_load sel) obs a) \<longrightarrow>
         ca_position a \<le> ca_position b)) (pl_candidates p)"
proof -
  let ?el = "fit_of lower tp r health obs needs"
  obtain i where "route_state sel tp (rt_name r) = Some i" using assms(2) by (auto simp: cursor_of_def)
  with assms(1,3) have "pl_candidates p =
      map fst (ranked_loads (el_candidates ?el) (loads_of (sel_load sel) obs (el_candidates ?el)))"
    by (auto simp: plan_request_def plan_eq Let_def standing_of_def plan_policy_def order_candidates
        split: if_splits)
  then show ?thesis by (simp only: least_busy_sorted)
qed

section \<open>Reservations\<close>

lemma reserve_first_load:
  "pl_candidates p = c # cs \<Longrightarrow>
    pl_reservation (fst (reserve_first p sel)) = Some (fst (acquire (ca_deployment c) (sel_load sel))) \<and>
    sel_load (snd (reserve_first p sel)) = snd (acquire (ca_deployment c) (sel_load sel))"
  by (simp add: reserve_first_def split: prod.splits)

lemma plan_policy_load: "sel_load (snd (plan_policy sel policy state el obs)) = sel_load sel"
  by (simp add: plan_policy_def split: route_policy.splits option.splits)

lemma plan_sticky_reserves: "\<exists>p0. plan_sticky sel policy state el index obs = reserve_first p0 sel"
proof (cases "policy = Priority \<or> state = None")
  case True
  then show ?thesis by (cases policy; cases state) (auto simp: plan_sticky_def Let_def)
next
  case False
  then show ?thesis by (cases policy; cases state) (auto simp: plan_sticky_def Let_def)
qed

text \<open>A plan holds exactly one slot, on the deployment it tries first: planning takes that one lease and
  changes no other in-flight count, for every policy and with or without a session.\<close>

theorem plan_reserves_first:
  assumes "plan_with_affinity lower sel tp r health obs needs sticky_id = Inr (p, sel')"
  shows "(pl_reservation p, sel_load sel') =
    (Some (fst (acquire (ca_deployment (hd (pl_candidates p))) (sel_load sel))),
     snd (acquire (ca_deployment (hd (pl_candidates p))) (sel_load sel)))"
proof -
  let ?el = "fit_of lower tp r health obs needs" and ?state = "route_state sel tp (rt_name r)"
  have nonempty: "pl_candidates p \<noteq> []"
    using plan_candidates_routable [of lower tp r health obs needs sel sticky_id] assms by simp
  have "\<exists>p0 sel0. sel_load sel0 = sel_load sel \<and> pl_candidates p = pl_candidates p0 \<and>
      pl_reservation p = pl_reservation (fst (reserve_first p0 sel0)) \<and>
      sel_load sel' = sel_load (snd (reserve_first p0 sel0))"
  proof (cases "\<exists>index. standing_of ?el sticky_id = Some (Inr index)")
    case True
    with assms obtain index where "plan_sticky sel (rt_policy r) ?state ?el index obs = (p, sel')"
      by (auto simp: plan_eq Let_def split: if_splits)
    moreover obtain p0 where "plan_sticky sel (rt_policy r) ?state ?el index obs = reserve_first p0 sel"
      using plan_sticky_reserves by blast
    ultimately show ?thesis by (metis fst_conv reserve_first_keeps(1) snd_conv)
  next
    case False
    with assms have p: "p = fst (reserve_first (fst (plan_policy sel (rt_policy r) ?state ?el obs))
          (snd (plan_policy sel (rt_policy r) ?state ?el obs)))\<lparr>pl_sticky := broken_of (standing_of ?el sticky_id)\<rparr>"
      "sel' = snd (reserve_first (fst (plan_policy sel (rt_policy r) ?state ?el obs))
          (snd (plan_policy sel (rt_policy r) ?state ?el obs)))"
      by (auto simp: plan_eq Let_def case_prod_unfold split: if_splits option.splits sum.splits)
    show ?thesis unfolding p
      by (rule exI [of _ "fst (plan_policy sel (rt_policy r) ?state ?el obs)"],
          rule exI [of _ "snd (plan_policy sel (rt_policy r) ?state ?el obs)"]) (simp add: plan_policy_load)
  qed
  then obtain p0 sel0 where "sel_load sel0 = sel_load sel" "pl_candidates p = pl_candidates p0"
    "pl_reservation p = pl_reservation (fst (reserve_first p0 sel0))"
    "sel_load sel' = sel_load (snd (reserve_first p0 sel0))" by blast
  moreover from nonempty obtain c cs where "pl_candidates p = c # cs" by (cases "pl_candidates p") auto
  ultimately show ?thesis using reserve_first_load [of p0 c cs sel0] by (metis list.sel(1))
qed

section \<open>What a route advertises\<close>

definition features_within :: "feature_set \<Rightarrow> feature_set \<Rightarrow> bool" where
  "features_within f g \<longleftrightarrow> intersect f g = f"

lemma features_within_iff:
  "features_within f g \<longleftrightarrow>
    (streaming f \<longrightarrow> streaming g) \<and> (sse_done f \<longrightarrow> sse_done g) \<and> (usage_chunk f \<longrightarrow> usage_chunk g) \<and>
    (chat_completions f \<longrightarrow> chat_completions g) \<and> (completions f \<longrightarrow> completions g) \<and>
    (tools f \<longrightarrow> tools g) \<and> (tool_call_deltas f \<longrightarrow> tool_call_deltas g) \<and>
    (tool_choice f \<longrightarrow> tool_choice g) \<and> (parallel_tool_calls f \<longrightarrow> parallel_tool_calls g) \<and>
    (reasoning_content f \<longrightarrow> reasoning_content g)"
proof -
  have meet: "((a \<and> b) = a) \<longleftrightarrow> (a \<longrightarrow> b)" for a b by blast
  show ?thesis by (cases f) (simp add: features_within_def intersect_def meet)
qed

lemma features_within_rules:
  "features_within f f" "features_within no_features f"
  "features_within (intersect f g) f" "features_within (intersect f g) g"
  "features_within f g \<Longrightarrow> features_within g h \<Longrightarrow> features_within f h"
  by (simp_all add: features_within_iff) (simp_all add: intersect_def no_features_def)

definition within_opt :: "(('a \<Rightarrow> 'a \<Rightarrow> bool)) \<Rightarrow> 'a option \<Rightarrow> 'a option \<Rightarrow> bool" where
  "within_opt le a b \<longleftrightarrow> (case b of None \<Rightarrow> True | Some y \<Rightarrow> (case a of None \<Rightarrow> False | Some x \<Rightarrow> le x y))"

lemma summarize_loop_bounds:
  assumes "summarize_loop obs cs ctx caps conc every = (ctx', caps', conc', True)"
  shows "every \<and> within_opt (\<le>) ctx' ctx \<and> within_opt features_within caps' caps \<and>
    (\<forall>c \<in> set cs. \<exists>seen. obs (ca_deployment c) = Some seen \<and>
       within_opt (\<le>) ctx' (Some (do_context_length seen)) \<and>
       within_opt features_within caps' (Some (do_capabilities seen)))"
  using assms
proof (induction cs arbitrary: ctx caps conc every)
  case Nil
  then show ?case by (auto simp: within_opt_def features_within_rules split: option.splits)
next
  case (Cons c cs)
  show ?case
  proof (cases "obs (ca_deployment c)")
    case None
    with Cons show ?thesis by fastforce
  next
    case (Some seen)
    let ?ctx = "min_opt ctx (do_context_length seen)"
    let ?caps = "Some (case caps of Some f \<Rightarrow> intersect f (do_capabilities seen) | None \<Rightarrow> do_capabilities seen)"
    have rest: "every" "within_opt (\<le>) ctx' ?ctx" "within_opt features_within caps' ?caps"
      "\<forall>c \<in> set cs. \<exists>seen. obs (ca_deployment c) = Some seen \<and>
         within_opt (\<le>) ctx' (Some (do_context_length seen)) \<and>
         within_opt features_within caps' (Some (do_capabilities seen))"
      using Cons.IH [of ?ctx ?caps "min_opt conc (do_max_concurrent_requests seen)" every] Cons.prems Some
      by simp_all
    have "within_opt (\<le>) ctx' ctx" "within_opt (\<le>) ctx' (Some (do_context_length seen))"
      using rest(2) by (auto simp: within_opt_def min_opt_def split: option.splits)
    moreover have "within_opt features_within caps' caps"
      "within_opt features_within caps' (Some (do_capabilities seen))"
      using rest(3) features_within_rules
      by (auto simp: within_opt_def split: option.splits)
    ultimately show ?thesis using rest Some by simp
  qed
qed

text \<open>C15. A route never advertises more than it can deliver: whatever request is planned on it by
  whatever selector, every deployment the plan may try offers at least the advertised context and every
  advertised feature; a deployment without figures silences the claim altogether.\<close>

theorem summary_conservative:
  assumes "plan_with_affinity lower sel tp r health obs needs sticky_id = Inr (p, sel')"
    and "c \<in> set (pl_candidates p)"
  shows "case obs (ca_deployment c) of
      None \<Rightarrow> rs_context_length (summarize lower tp r health obs) = None \<and>
              rs_capabilities (summarize lower tp r health obs) = no_features
    | Some seen \<Rightarrow>
        within_opt (\<lambda>seen_ctx advertised. advertised \<le> seen_ctx) (Some (do_context_length seen))
          (rs_context_length (summarize lower tp r health obs)) \<and>
        features_within (rs_capabilities (summarize lower tp r health obs)) (do_capabilities seen)"
proof -
  let ?cs = "available_candidates lower tp r health"
  have "mset (pl_candidates p) = mset (routable lower tp r health obs needs)"
    using plan_candidates_routable [of lower tp r health obs needs sel sticky_id] assms(1) by simp
  then have "set (pl_candidates p) = set (routable lower tp r health obs needs)" by (metis set_mset_mset)
  with assms(2) have c: "c \<in> set ?cs" by (simp add: routable_def)
  then have el: "eligible_of lower tp r health =
      Inr \<lparr>el_route = rt_name r, el_candidates = ?cs, el_skipped = skipped_deployments lower tp r health,
           el_unfit = [], el_route_size = length (rt_deployments r)\<rparr>"
    by (auto simp: eligible_of_eq)
  obtain ctx caps conc every where
    loop: "summarize_loop obs ?cs None None None True = (ctx, caps, conc, every)" by (metis prod_cases4)
  show ?thesis
  proof (cases every)
    case False
    with el loop show ?thesis
      by (auto simp: summarize_def within_opt_def features_within_rules split: option.splits)
  next
    case True
    with loop have "summarize_loop obs ?cs None None None True = (ctx, caps, conc, True)" by simp
    from summarize_loop_bounds [OF this] c obtain seen where
      "obs (ca_deployment c) = Some seen" "within_opt (\<le>) ctx (Some (do_context_length seen))"
      "within_opt features_within caps (Some (do_capabilities seen))" by blast
    with el loop True show ?thesis
      by (auto simp: summarize_def within_opt_def split: option.splits)
  qed
qed

section \<open>A worked route\<close>

definition demo_features :: feature_set where
  "demo_features = no_features\<lparr>chat_completions := True, streaming := True\<rparr>"

definition demo_node :: "nat \<Rightarrow> node" where
  "demo_node i = \<lparr>nd_id = [i], nd_base_url = [], nd_enabled = True, nd_auth = NoAuth\<rparr>"

definition demo_route :: "route_policy \<Rightarrow> route" where
  "demo_route policy = \<lparr>rt_name = [57], rt_policy = policy, rt_deployments = [[11], [12]],
     rt_description = None, rt_placement = None\<rparr>"

definition demo_topology :: "route_policy \<Rightarrow> topology" where
  "demo_topology policy =
    \<lparr>nodes = [demo_node 1, demo_node 2],
     deployments = [\<lparr>dp_id = [11], dp_node = [1], dp_remote_model = [7]\<rparr>,
                    \<lparr>dp_id = [12], dp_node = [2], dp_remote_model = [7]\<rparr>],
     routes = [demo_route policy], default_index = None\<rparr>"

definition demo_status :: node_status where
  "demo_status = apply_outcome default_status
     (Success \<lparr>ob_served = Some \<lparr>sm_id = [7], sm_context_length = 4096\<rparr>,
               ob_features = demo_features, ob_max_concurrent_requests = 2, ob_version = []\<rparr>) 1 0"

definition demo_health :: "ustr \<rightharpoonup> node_status" where
  "demo_health i = (if i = [1] \<or> i = [2] then Some demo_status else None)"

definition demo_seen :: "ustr \<rightharpoonup> deployment_observation" where
  "demo_seen i =
    (if i = [11] \<or> i = [12]
     then Some \<lparr>do_capabilities = demo_features, do_context_length = 4096,
                do_max_concurrent_requests = 2, do_observed_at = 0\<rparr> else None)"

definition demo_needs :: request_requirements where
  "demo_needs = no_requirements\<lparr>rq_endpoint := Some ChatCompletions, rq_prompt_tokens := Some 10\<rparr>"

definition demo_selector :: "route_policy \<Rightarrow> selector" where
  "demo_selector policy = selector_new (demo_topology policy)
     ((load_new (demo_topology policy))([11] \<mapsto> 1))"

definition demo_plan :: "route_policy \<Rightarrow> ustr option \<Rightarrow> routing_failure + plan \<times> selector" where
  "demo_plan policy i = plan_with_affinity id (demo_selector policy) (demo_topology policy)
     (demo_route policy) demo_health demo_seen demo_needs i"

theorem sticky_preference_witness:
  "(case demo_plan RoundRobin (Some [12]) of
      Inl _ \<Rightarrow> False | Inr (p, sel') \<Rightarrow> ca_deployment (hd (pl_candidates p)) = [12])"
proof -
  obtain p sel' where plan: "demo_plan RoundRobin (Some [12]) = Inr (p, sel')"
  proof -
    have "(case demo_plan RoundRobin (Some [12]) of Inl _ \<Rightarrow> False | Inr _ \<Rightarrow> True)" by code_simp
    then show thesis using that by (auto split: sum.splits)
  qed
  have "[12] \<in> ca_deployment ` set (routable id (demo_topology RoundRobin) (demo_route RoundRobin)
      demo_health demo_seen demo_needs)" by code_simp
  with sticky_preference [OF plan [unfolded demo_plan_def]] plan show ?thesis by simp
qed

lemma demo_plan_succeeds:
  obtains p sel' where "demo_plan policy None = Inr (p, sel')"
proof -
  have "\<forall>policy \<in> {Priority, RoundRobin, LeastBusy}.
      (case demo_plan policy None of Inl _ \<Rightarrow> False | Inr _ \<Rightarrow> True)" by code_simp
  then have "case demo_plan policy None of Inl _ \<Rightarrow> False | Inr _ \<Rightarrow> True"
    by (cases policy) simp_all
  then show thesis using that by (auto split: sum.splits)
qed

theorem round_robin_fair_witness:
  "mset (first_choices id (demo_selector RoundRobin) (demo_topology RoundRobin) (demo_route RoundRobin)
      demo_health demo_seen demo_needs 6)
    = repeat_mset 3 (mset (routable id (demo_topology RoundRobin) (demo_route RoundRobin)
        demo_health demo_seen demo_needs))"
proof -
  have two: "length (routable id (demo_topology RoundRobin) (demo_route RoundRobin) demo_health demo_seen
      demo_needs) = 2" by code_simp
  have "cursor_of (demo_selector RoundRobin) (demo_topology RoundRobin) (rt_name (demo_route RoundRobin))
      = Some 0" by code_simp
  moreover have "rt_policy (demo_route RoundRobin) = RoundRobin" by (simp add: demo_route_def)
  ultimately show ?thesis
    using round_robin_fair [where rounds = 3 and r = "demo_route RoundRobin" and lower = id
        and tp = "demo_topology RoundRobin" and sel = "demo_selector RoundRobin" and c = 0
        and health = demo_health and obs = demo_seen and needs = demo_needs] two
    by simp
qed

theorem least_busy_order_witness:
  "\<exists>p sel'. demo_plan LeastBusy None = Inr (p, sel') \<and>
    sorted_wrt (\<lambda>a b. not_busier (load_of (sel_load (demo_selector LeastBusy)) demo_seen a)
        (load_of (sel_load (demo_selector LeastBusy)) demo_seen b)) (pl_candidates p)"
proof -
  obtain p sel' where plan: "demo_plan LeastBusy None = Inr (p, sel')" by (rule demo_plan_succeeds)
  have "cursor_of (demo_selector LeastBusy) (demo_topology LeastBusy) (rt_name (demo_route LeastBusy))
      = Some 0" by code_simp
  then have "sorted_wrt (\<lambda>a b. not_busier (load_of (sel_load (demo_selector LeastBusy)) demo_seen a)
        (load_of (sel_load (demo_selector LeastBusy)) demo_seen b)) (pl_candidates p)"
    by (intro sorted_wrt_mono_rel [OF _ least_busy_order
          [OF _ _ plan [unfolded demo_plan_def, folded plan_request_def]]])
      (simp_all add: demo_route_def)
  with plan show ?thesis by blast
qed

theorem plan_reserves_first_witness:
  "\<exists>p sel'. demo_plan LeastBusy None = Inr (p, sel') \<and>
    pl_reservation p = Some (fst (acquire (ca_deployment (hd (pl_candidates p)))
      (sel_load (demo_selector LeastBusy))))"
proof -
  obtain p sel' where plan: "demo_plan LeastBusy None = Inr (p, sel')" by (rule demo_plan_succeeds)
  with plan_reserves_first [OF plan [unfolded demo_plan_def]] show ?thesis by simp
qed

theorem summary_conservative_witness:
  "\<exists>p sel' c seen. demo_plan RoundRobin None = Inr (p, sel') \<and> c \<in> set (pl_candidates p) \<and>
    demo_seen (ca_deployment c) = Some seen \<and>
    features_within (rs_capabilities (summarize id (demo_topology RoundRobin) (demo_route RoundRobin)
      demo_health demo_seen)) (do_capabilities seen)"
proof -
  obtain p sel' where plan: "demo_plan RoundRobin None = Inr (p, sel')" by (rule demo_plan_succeeds)
  have "(case demo_plan RoundRobin None of
      Inl _ \<Rightarrow> False | Inr (p, _) \<Rightarrow> pl_candidates p \<noteq> [] \<and> ca_deployment (hd (pl_candidates p)) = [11])"
    by code_simp
  with plan have "hd (pl_candidates p) \<in> set (pl_candidates p)" "ca_deployment (hd (pl_candidates p)) = [11]"
    by simp_all
  moreover from this(1) have "case demo_seen (ca_deployment (hd (pl_candidates p))) of
      None \<Rightarrow> rs_context_length (summarize id (demo_topology RoundRobin) (demo_route RoundRobin)
                demo_health demo_seen) = None \<and>
              rs_capabilities (summarize id (demo_topology RoundRobin) (demo_route RoundRobin)
                demo_health demo_seen) = no_features
    | Some seen \<Rightarrow>
        within_opt (\<lambda>seen_ctx advertised. advertised \<le> seen_ctx) (Some (do_context_length seen))
          (rs_context_length (summarize id (demo_topology RoundRobin) (demo_route RoundRobin)
             demo_health demo_seen)) \<and>
        features_within (rs_capabilities (summarize id (demo_topology RoundRobin) (demo_route RoundRobin)
             demo_health demo_seen)) (do_capabilities seen)"
    by (rule summary_conservative [OF plan [unfolded demo_plan_def]])
  moreover have "demo_seen [11] \<noteq> None" by (simp add: demo_seen_def)
  ultimately show ?thesis using plan by (auto split: option.splits)
qed

end
