(* ===== verification/Router_Proxy_Correct.thy ===== *)
theory Router_Proxy_Correct
  imports Router_Proxy Router_Select_Correct "HOL-Library.Sublist"
begin

text \<open>
  What holds of every request the router forwards, whatever the nodes answer and the other requests do:
  no in-flight slot is leaked, nothing is sent once the budget is spent, a node sees only its own
  credential, a prompt that overflowed one context is only tried on larger ones, routes are tried in the
  order of the plan, and a request is counted once.
\<close>

section \<open>The walk, step by step\<close>

lemma walk_step_cases:
  obtains (skip) "walk_step cx index c rest wk = Inl wk"
  | (stop) "walk_step cx index c rest wk = Inr (finish_walk cx wk)"
  | (refused) wk1 where "wk1 = wk\<lparr>wk_now := wk_now wk + aw_before (cx_net cx (wk_awaits wk))\<rparr>"
      "expired (wk_now wk1) (cx_budget cx)"
      "walk_step cx index c rest wk = Inr (RouteBudgetExhausted (wk_attempts wk = 0) (drop_reservation wk1))"
  | (sent) wk1 n reason is_sticky result l wk2
    where "wk1 = wk\<lparr>wk_now := wk_now wk + aw_before (cx_net cx (wk_awaits wk))\<rparr>"
      "\<not> expired (wk_now wk1) (cx_budget cx)" "larger_than cx (wk_too_small wk) c"
      "topology_node (cx_topology cx) (ca_node c) = Some n"
      "send_attempt cx index c n wk1 = (result, l, wk2)"
      "walk_step cx index c rest wk = after_attempt cx c reason is_sticky rest result l wk2"
proof -
  let ?wk1 = "wk\<lparr>wk_now := wk_now wk + aw_before (cx_net cx (wk_awaits wk))\<rparr>"
  show thesis
  proof (cases "larger_than cx (wk_too_small wk) c")
    case False
    then show ?thesis by (intro skip) (simp add: walk_step_def)
  next
    case large: True
    show ?thesis
    proof (cases "decision (cx_plan cx) index")
      case None
      with large show ?thesis by (intro stop) (simp add: walk_step_def)
    next
      case dec: (Some dec)
      show ?thesis
      proof (cases "topology_node (cx_topology cx) (ca_node c)")
        case None
        with large dec show ?thesis by (intro skip) (simp add: walk_step_def)
      next
        case (Some n)
        obtain result l wk2 where send: "send_attempt cx index c n ?wk1 = (result, l, wk2)" by (metis surj_pair)
        show ?thesis
        proof (cases "expired (wk_now ?wk1) (cx_budget cx)")
          case True
          with large dec Some show ?thesis by (intro refused [OF refl]) (simp_all add: walk_step_def Let_def)
        next
          case False
          with large dec Some send show ?thesis
            by (intro sent [OF refl False large Some send]) (simp add: walk_step_def Let_def)
        qed
      qed
    qed
  qed
qed

lemma walk_invariant:
  assumes "\<And>index c rest wk. (index, c) \<in> set cs \<Longrightarrow> keeps wk \<Longrightarrow>
      (case walk_step cx index c rest wk of Inl wk' \<Rightarrow> keeps wk' | Inr e \<Rightarrow> good e)"
    and "\<And>wk. keeps wk \<Longrightarrow> good (finish_walk cx wk)"
    and "keeps wk"
  shows "good (walk_candidates cx cs wk)"
  using assms
proof (induction cs arbitrary: wk)
  case (Cons ic cs)
  obtain index c where ic: "ic = (index, c)" by fastforce
  show ?case
  proof (cases "walk_step cx index c cs wk")
    case (Inl wk')
    with Cons.prems(1) [of index c wk cs] Cons.prems(3) have "keeps wk'" by (simp add: ic)
    with Cons.IH [OF Cons.prems(1,2)] Inl show ?thesis by (simp add: ic)
  next
    case (Inr e)
    with Cons.prems(1) [of index c wk cs] Cons.prems(3) show ?thesis by (simp add: ic)
  qed
qed simp

section \<open>In-flight slots\<close>

definition sh_load :: "shared \<Rightarrow> load_book" where
  "sh_load sh = sel_load (sh_selector sh)"

definition wk_load :: "walk \<Rightarrow> load_book" where
  "wk_load wk = sh_load (wk_shared wk)"

text \<open>The counts once the reservation, if there is one, has been given back.\<close>

definition settled :: "walk \<Rightarrow> load_book" where
  "settled wk = (case wk_reservation wk of None \<Rightarrow> wk_load wk | Some l \<Rightarrow> lease_drop l (wk_load wk))"

text \<open>The counts once a request's end has given back the lease of its stream, if it holds one.\<close>

definition end_settled :: "route_end \<Rightarrow> load_book" where
  "end_settled e =
    (case e of
       RouteCommitted _ held wk \<Rightarrow> (case held of None \<Rightarrow> wk_load wk | Some l \<Rightarrow> lease_drop l (wk_load wk))
     | RouteFailed _ wk \<Rightarrow> wk_load wk
     | RouteBudgetExhausted _ wk \<Rightarrow> wk_load wk)"

lemma lease_drop_acquire: "acquire d lb = (l, lb') \<Longrightarrow> lease_drop l lb' = lb"
  by (auto simp: acquire_def lease_drop_def fun_upd_idem split: option.splits)

lemma load_simps [simp]:
  "wk_load (wk\<lparr>wk_now := t\<rparr>) = wk_load wk" "wk_load (wk\<lparr>wk_tracker := tk\<rparr>) = wk_load wk"
  "wk_load (wk\<lparr>wk_request := q\<rparr>) = wk_load wk" "wk_load (wk\<lparr>wk_reservation := v\<rparr>) = wk_load wk"
  "wk_load (wk\<lparr>wk_refusal := f\<rparr>) = wk_load wk" "wk_load (wk\<lparr>wk_too_small := b\<rparr>) = wk_load wk"
  "wk_load (wk\<lparr>wk_after_overflow := o1\<rparr>) = wk_load wk" "wk_load (wk\<lparr>wk_sticky_failed := s1\<rparr>) = wk_load wk"
  "wk_load (wk\<lparr>wk_attempts := n1\<rparr>) = wk_load wk" "wk_load (wk\<lparr>wk_sent := n2\<rparr>) = wk_load wk"
  "wk_load (wk\<lparr>wk_awaits := n3\<rparr>) = wk_load wk" "wk_load (wk\<lparr>wk_shared := sh\<rparr>) = sh_load sh"
  "sh_load (sh\<lparr>sh_health := h\<rparr>) = sh_load sh" "sh_load (sh\<lparr>sh_affinity := a\<rparr>) = sh_load sh"
  "sh_load (sh\<lparr>sh_log := ms\<rparr>) = sh_load sh" "sh_load (log_metric m sh) = sh_load sh"
  "sh_load (wk_shared wk) = wk_load wk"
  by (simp_all add: wk_load_def sh_load_def log_metric_def)

lemma load_drop_lease [simp]:
  "wk_load (drop_lease l wk) = lease_drop l (wk_load wk)" "wk_reservation (drop_lease l wk) = wk_reservation wk"
  by (simp_all add: drop_lease_def wk_load_def sh_load_def)

lemma load_drop_reservation [simp]:
  "wk_load (drop_reservation wk) = settled wk" "wk_reservation (drop_reservation wk) = None"
  by (simp_all add: drop_reservation_def settled_def split: option.splits)

lemma take_slot_load:
  assumes "take_slot index c wk = (l, wk')"
  shows "lease_drop l (wk_load wk') = settled wk" "wk_reservation wk' = None"
proof -
  have "lease_drop l (wk_load wk') = settled wk \<and> wk_reservation wk' = None"
  proof (cases "wk_reservation wk \<noteq> None \<and> index = 0")
    case True
    with assms show ?thesis by (auto simp: take_slot_def settled_def)
  next
    case False
    obtain l1 lb where a: "acquire (ca_deployment c) (wk_load (drop_reservation wk)) = (l1, lb)" by fastforce
    have "wk_load (drop_reservation wk) = sel_load (sh_selector (wk_shared (drop_reservation wk)))"
      by (simp only: wk_load_def sh_load_def)
    with False assms a have "l = l1" "wk_load wk' = lb" "wk_reservation wk' = None"
      by (auto simp: take_slot_def Let_def sh_load_def split: option.splits nat.splits)
    with lease_drop_acquire [OF a] show ?thesis by simp
  qed
  then show "lease_drop l (wk_load wk') = settled wk" "wk_reservation wk' = None" by blast+
qed

text \<open>The other requests take and give back slots of their own; a wait in which their own balance is even
  leaves the counts as they were.\<close>

definition balanced :: "(nat \<Rightarrow> await) \<Rightarrow> bool" where
  "balanced net \<longleftrightarrow> (\<forall>k sh. sh_load (aw_others (net k) sh) = sh_load sh)"

lemma attempt_one_load:
  assumes "\<forall>sh. sh_load (aw_others aw sh) = sh_load sh"
  shows "sh_load (snd (snd (snd (attempt_one ex e headers rid n request t aw sh)))) = sh_load sh"
  using assms
  by (simp add: attempt_one_def Let_def case_prod_unfold split: option.splits upstream_result.splits)

lemma send_attempt_load:
  assumes "balanced (cx_net cx)" "send_attempt cx index c n wk = (result, l, wk')"
  shows "lease_drop l (wk_load wk') = settled wk" "wk_reservation wk' = None"
proof -
  obtain l1 wk1 where slot: "take_slot index c wk = (l1, wk1)" by fastforce
  have quiet: "\<forall>sh. sh_load (aw_others (cx_net cx k) sh) = sh_load sh" for k
    using assms(1) by (simp add: balanced_def)
  have "l = l1" "wk_load wk' = wk_load wk1" "wk_reservation wk' = wk_reservation wk1"
    using assms(2) slot quiet attempt_one_load [OF quiet]
    by (auto simp: send_attempt_def Let_def case_prod_unfold split: option.splits)
  with take_slot_load [OF slot] show "lease_drop l (wk_load wk') = settled wk" "wk_reservation wk' = None"
    by simp_all
qed

lemma record_attempt_simps [simp]:
  "wk_load (record_attempt cx c reason res status wk) = wk_load wk"
  "wk_reservation (record_attempt cx c reason res status wk) = wk_reservation wk"
  by (simp_all add: record_attempt_def)

lemma wk_log_simps [simp]:
  "wk_load (wk_log m wk) = wk_load wk" "wk_reservation (wk_log m wk) = wk_reservation wk"
  by (simp_all add: wk_log_def)

lemma tracker_finish_load [simp]: "sh_load (snd (tracker_finish now status out tk sh)) = sh_load sh"
  by (simp add: tracker_finish_def Let_def observe_route_def)

lemma finish_walk_load [simp]: "end_settled (finish_walk cx wk) = settled wk"
  by (simp add: finish_walk_def end_settled_def Let_def split: option.splits)

lemma commit_load:
  assumes "commit ex rt answer l now tk sh = (response, held, tk', sh')"
  shows "(case held of None \<Rightarrow> sh_load sh' | Some l' \<Rightarrow> lease_drop l' (sh_load sh')) = lease_drop l (sh_load sh)"
proof -
  have release: "sh_load (sh\<lparr>sh_selector := (sh_selector sh)\<lparr>sel_load := lease_drop l (sel_load (sh_selector sh))\<rparr>\<rparr>)
      = lease_drop l (sh_load sh)" for sh
    by (simp add: sh_load_def)
  show ?thesis
    using assms
    by (auto simp: commit_def Let_def case_prod_unfold release split: committed_answer.splits option.splits if_splits)
qed

lemma committing_load [simp]: "sh_load (snd (committing cx c reason answer wk)) = wk_load wk"
proof -
  have "sh_load (settle_affinity key planned failed d t sh) = sh_load sh" for key planned failed d t sh
    by (simp add: settle_affinity_def Let_def split: option.splits)
  then show ?thesis by (simp add: committing_def Let_def split: option.splits)
qed

lemma commit_attempt_load:
  assumes "wk_reservation wk = None"
  shows "end_settled (commit_attempt cx c reason answer status l wk) = lease_drop l (wk_load wk)"
proof -
  let ?wk = "record_attempt cx c reason AttemptCommitted status wk"
  obtain tk sh where com: "committing cx c reason answer ?wk = (tk, sh)" by fastforce
  then have load: "sh_load sh = wk_load wk" using committing_load [of cx c reason answer ?wk] by simp
  obtain response held tk' sh' where
    c: "commit (cx_ext cx) (rt_name (cx_route cx)) answer l (wk_now ?wk) tk sh = (response, held, tk', sh')"
    by (metis surj_pair)
  have "commit_attempt cx c reason answer status l wk
      = RouteCommitted response held (drop_reservation (?wk\<lparr>wk_tracker := tk', wk_shared := sh'\<rparr>))"
    by (simp add: commit_attempt_def Let_def com c)
  with commit_load [OF c] load assms show ?thesis by (simp add: end_settled_def settled_def split: option.splits)
qed

text \<open>What a step leaves: the counts of the walk that goes on, or of the end.\<close>

definition step_settled :: "walk + route_end \<Rightarrow> load_book" where
  "step_settled res = (case res of Inl wk \<Rightarrow> settled wk | Inr e \<Rightarrow> end_settled e)"

lemma go_on_load: "step_settled (go_on cx rest moves wk) = settled wk"
proof -
  have "wk_load (fold wk_log ms wk) = wk_load wk \<and> wk_reservation (fold wk_log ms wk) = wk_reservation wk" for ms wk
    by (induction ms arbitrary: wk) simp_all
  then show ?thesis by (simp add: go_on_def step_settled_def end_settled_def settled_def split: option.splits)
qed

lemma failed_walk_simps [simp]:
  "wk_load (failed_walk cx c reason is_sticky why status l wk) = lease_drop l (wk_load wk)"
  "wk_reservation (failed_walk cx c reason is_sticky why status l wk) = wk_reservation wk"
  by (simp_all add: failed_walk_def)

lemma overflowed_walk_simps [simp]:
  "wk_load (overflowed_walk cx c reason is_sticky why status l wk) = lease_drop l (wk_load wk)"
  "wk_reservation (overflowed_walk cx c reason is_sticky why status l wk) = wk_reservation wk"
  by (simp_all add: overflowed_walk_def Let_def)

lemma after_attempt_load:
  assumes "wk_reservation wk = None"
  shows "step_settled (after_attempt cx c reason is_sticky rest result l wk) = lease_drop l (wk_load wk)"
proof (cases result)
  case None
  with assms show ?thesis by (simp add: after_attempt_def step_settled_def end_settled_def settled_def)
next
  case (Some r)
  obtain a status where r: "r = (a, status)" by fastforce
  have final: "settled wk' = wk_load wk'" if "wk_reservation wk' = None" for wk' using that by (simp add: settled_def)
  show ?thesis
  proof (cases a)
    case (Commits answer)
    with Some r commit_attempt_load [OF assms] show ?thesis by (simp add: after_attempt_def step_settled_def)
  next
    case (Next why)
    with Some r assms show ?thesis
      by (simp add: after_attempt_def after_failure_def Let_def go_on_load final) (simp add: step_settled_def final)
  next
    case (ContextOverflow why)
    with Some r assms show ?thesis
      by (simp add: after_attempt_def after_overflow_def Let_def go_on_load final) (simp add: step_settled_def final)
  qed
qed

lemma walk_step_load:
  assumes "balanced (cx_net cx)"
  shows "step_settled (walk_step cx index c rest wk) = settled wk"
proof (cases rule: walk_step_cases [of cx index c rest wk])
  case (refused wk1)
  then show ?thesis by (simp add: step_settled_def end_settled_def settled_def split: option.splits)
next
  case (sent wk1 n reason is_sticky result l wk2)
  have "settled wk1 = settled wk" using sent(1) by (simp add: settled_def split: option.splits)
  with send_attempt_load [OF assms sent(5)] after_attempt_load sent(6) show ?thesis by simp
qed (simp_all add: step_settled_def)

lemma walk_load:
  assumes "balanced (cx_net cx)"
  shows "end_settled (walk_candidates cx cs wk) = settled wk"
proof (rule walk_invariant [where keeps = "\<lambda>w. settled w = settled wk" and good = "\<lambda>e. end_settled e = settled wk"])
  fix index c rest w
  assume "settled w = settled wk"
  with walk_step_load [OF assms, of index c rest w]
  show "case walk_step cx index c rest w of Inl wk' \<Rightarrow> settled wk' = settled wk | Inr e \<Rightarrow> end_settled e = settled wk"
    by (simp add: step_settled_def split: sum.splits)
qed simp_all

lemma plan_load:
  assumes "plan_with_affinity lower sel tp r health obs needs sticky_id = Inr (p, sel')"
  shows "\<exists>l. pl_reservation p = Some l \<and> lease_drop l (sel_load sel') = sel_load sel"
  using plan_reserves_first [OF assms] lease_drop_acquire by (metis Pair_inject prod.collapse)

lemma attempt_route_load:
  assumes "balanced (rc_net rq)"
  shows "end_settled (attempt_route rq r wk) = wk_load wk"
proof -
  let ?sh = "wk_shared wk"
  let ?key = "session (ex_hash (rc_ext rq)) (sh_affinity ?sh) (rt_name r) (rc_headers rq)"
  obtain sticky_id book where look: "(case ?key of None \<Rightarrow> (None, sh_affinity ?sh)
      | Some k \<Rightarrow> lookup_at k (wk_now wk) (sh_affinity ?sh)) = (sticky_id, book)" by fastforce
  let ?plan = "plan_with_affinity (ex_lower (rc_ext rq)) (sh_selector ?sh) (rc_topology rq) r
      (hb_nodes (sh_health ?sh)) (hb_deployments (sh_health ?sh)) (rc_needs rq) sticky_id"
  show ?thesis
  proof (cases ?plan)
    case (Inl failure)
    with look show ?thesis
      by (simp add: attempt_route_def Let_def planning_failed_def end_settled_def split: routing_failure.splits)
  next
    case (Inr ps)
    obtain p sel where ps: "ps = (p, sel)" by fastforce
    let ?wk1 = "wk\<lparr>wk_shared := ?sh\<lparr>sh_affinity := book, sh_selector := sel\<rparr>\<rparr>"
    let ?wk2 = "case ?key of None \<Rightarrow> ?wk1 | Some _ \<Rightarrow> wk_log (if pl_sticky p = Some Hit then AffinityHit (rt_name r)
                                          else AffinityMiss (rt_name r)) ?wk1"
    have "settled (fresh_walk p ?wk2)
        = (case pl_reservation p of None \<Rightarrow> sel_load sel | Some l \<Rightarrow> lease_drop l (sel_load sel))"
      by (simp add: settled_def fresh_walk_def sh_load_def split: option.splits)
    moreover obtain l where "pl_reservation p = Some l" "lease_drop l (sel_load sel) = sel_load (sh_selector ?sh)"
      using plan_load [OF Inr [unfolded ps]] by blast
    ultimately have start: "settled (fresh_walk p ?wk2) = wk_load wk"
      by (simp only: option.case wk_load_def sh_load_def)
    let ?cx = "\<lparr>cx_ext = rc_ext rq, cx_topology = rc_topology rq, cx_endpoint = rc_endpoint rq,
                  cx_headers = rc_headers rq, cx_request_id = rc_request_id rq, cx_route = r,
                  cx_session = ?key, cx_plan = p, cx_observed = hb_deployments (sh_health ?sh),
                  cx_budget = rc_budget rq, cx_net = rc_net rq\<rparr>"
    have "attempt_route rq r wk = walk_candidates ?cx (enumerate 0 (pl_candidates p)) (fresh_walk p ?wk2)"
      using look Inr ps by (simp add: attempt_route_def Let_def split: option.splits)
    then show ?thesis using walk_load [of ?cx] assms start by simp
  qed
qed

text \<open>The counts once the request is over: a stream gives its slot back when it ends.\<close>

definition request_settled :: "request_end \<Rightarrow> load_book" where
  "request_settled e = (case e of (_, None, wk) \<Rightarrow> wk_load wk | (_, Some l, wk) \<Rightarrow> lease_drop l (wk_load wk))"

lemma exhaust_load [simp]: "request_settled (exhaust st next wk) = wk_load wk"
  by (simp add: exhaust_def request_settled_def Let_def case_prod_unfold split: option.splits)

lemma conclude_load [simp]: "request_settled (conclude failure wk) = wk_load wk"
  by (simp add: conclude_def request_settled_def Let_def case_prod_unfold)

lemma set_fallback_load [simp]: "wk_load (set_fallback ft wk) = wk_load wk"
  by (simp add: set_fallback_def)

lemma conclude_chain_load [simp]: "request_settled (conclude_chain initial hops failure wk) = wk_load wk"
  by (simp add: conclude_chain_def Let_def split: option.splits)

lemma budget_stopped_load [simp]: "request_settled (budget_stopped rq r on_fallback before_first wk) = wk_load wk"
  by (simp add: budget_stopped_def Let_def)

lemma next_refused_load [simp]: "request_settled (next_refused initial next hops failure reason wk) = wk_load wk"
  by (simp add: next_refused_def Let_def)

lemma move_on_load [simp]: "wk_load (move_on rq initial next hops failure reason wk) = wk_load wk"
  by (simp add: move_on_def Let_def observe_route_def)

lemma route_chain_load:
  assumes "balanced (rc_net rq)"
  shows "request_settled (route_chain rq initial r plan hops wk) = wk_load wk"
proof (induction plan arbitrary: r hops wk)
  case Nil
  then show ?case
    using attempt_route_load [OF assms, of r wk]
    by (auto simp: end_settled_def split: route_end.splits option.splits)
      (auto simp: request_settled_def split: option.splits)
next
  case (Cons name left)
  then show ?case
    using attempt_route_load [OF assms, of r wk]
    by (auto simp: end_settled_def split: route_end.splits option.splits)
      (auto simp: request_settled_def split: option.splits)
qed

lemma forward_routed_load: "balanced (rc_net rq) \<Longrightarrow> request_settled (forward_routed rq cs r wk) = wk_load wk"
  by (simp add: forward_routed_def route_chain_load)

section \<open>A worked request\<close>

text \<open>Two routes on two nodes, the second the fallback of the first. The first node cannot be reached, the
  second is at first not ready, and answers when it is asked again on the second route.\<close>

definition demo_topology2 :: topology where
  "demo_topology2 = (demo_topology Priority)\<lparr>routes := [demo_route Priority,
     \<lparr>rt_name = [56], rt_policy = Priority, rt_deployments = [[12]], rt_description = None, rt_placement = None\<rparr>]\<rparr>"

definition demo_answer :: "nat \<Rightarrow> node_answer" where
  "demo_answer status = \<lparr>na_status = status, na_content_type = None, na_cache_control = None,
     na_retry_after = None, na_chunks = [[1], [2, 3]], na_complete = True\<rparr>"

definition demo_await :: "upstream_result \<Rightarrow> await" where
  "demo_await result = \<lparr>aw_before = 1, aw_took = 10, aw_after = 2, aw_result = result, aw_others = id\<rparr>"

definition demo_net :: "nat \<Rightarrow> await" where
  "demo_net k = demo_await
    (if k = 0 then SendFailed True [] else if k = 1 then Answered (demo_answer 503) else Answered (demo_answer 200))"

definition demo_request :: "request_budget option \<Rightarrow> request_context" where
  "demo_request budget =
    \<lparr>rc_ext = \<lparr>ex_lower = id, ex_hash = (\<lambda>_. 0), ex_from_slice = (\<lambda>_. None), ex_to_vec = (\<lambda>_. Some [5]),
       ex_parse = (\<lambda>_. None), ex_print = (\<lambda>_. [])\<rparr>,
     rc_topology = demo_topology2, rc_endpoint = ChatCompletions, rc_headers = Map.empty, rc_request_id = [3],
     rc_needs = demo_needs, rc_budget = budget, rc_net = demo_net, rc_is_auto = True, rc_nested = False\<rparr>"

definition demo_shared :: shared where
  "demo_shared = \<lparr>sh_health = (health_new demo_topology2 3)\<lparr>hb_nodes := demo_health, hb_deployments := demo_seen\<rparr>,
     sh_selector = selector_new demo_topology2 (load_new demo_topology2),
     sh_affinity = affinity_new \<lparr>ap_enabled = False, ap_header = [], ap_idle_ttl = 1, ap_max_entries = 1\<rparr>,
     sh_log = []\<rparr>"

definition demo_walk :: "request_budget option \<Rightarrow> walk" where
  "demo_walk budget = \<lparr>wk_now = 100, wk_shared = demo_shared, wk_tracker = tracker_new [57] False budget, wk_request = [],
     wk_reservation = None, wk_refusal = None, wk_too_small = None, wk_after_overflow = False,
     wk_sticky_failed = None, wk_attempts = 0, wk_sent = [], wk_awaits = 0\<rparr>"

definition demo_run :: "request_budget option \<Rightarrow> request_end" where
  "demo_run budget = forward_routed (demo_request budget) [([57], [[56]])] (demo_route Priority) (demo_walk budget)"

lemma demo_run_sends:
  "fst (demo_run None) = NodeAnswer 200 None None None [1, 2, 3] \<and> map fst (wk_sent (snd (snd (demo_run None)))) = [[11], [12], [12]]"
  by (intro conjI) code_simp+

section \<open>What is sent\<close>

text \<open>The operations of the walk that send nothing keep what was sent, the request and the clock.\<close>

definition walk_out :: "walk \<Rightarrow> (ustr \<times> nat \<times> upstream_request) list \<times> json_object" where
  "walk_out wk = (wk_sent wk, wk_request wk)"

lemma walk_out_simps [simp]:
  "walk_out (wk\<lparr>wk_now := t\<rparr>) = walk_out wk" "walk_out (wk\<lparr>wk_tracker := tk\<rparr>) = walk_out wk"
  "walk_out (wk\<lparr>wk_shared := sh\<rparr>) = walk_out wk" "walk_out (wk\<lparr>wk_after_overflow := b\<rparr>) = walk_out wk"
  "walk_out (drop_lease l wk) = walk_out wk" "walk_out (drop_reservation wk) = walk_out wk"
  "walk_out (record_attempt cx c reason res status wk) = walk_out wk" "walk_out (wk_log m wk) = walk_out wk"
  "walk_out (failed_walk cx c reason is_sticky why status l wk) = walk_out wk"
  "walk_out (overflowed_walk cx c reason is_sticky refused status l wk) = walk_out wk"
  "walk_out (fresh_walk p wk) = walk_out wk" "walk_out (set_fallback ft wk) = walk_out wk"
  by (simp_all add: walk_out_def drop_lease_def drop_reservation_def record_attempt_def wk_log_def
      failed_walk_def overflowed_walk_def fresh_walk_def set_fallback_def Let_def split: option.splits)

lemma walk_out_fold_log [simp]: "walk_out (fold wk_log ms wk) = walk_out wk"
  by (induction ms arbitrary: wk) simp_all

definition end_walk :: "route_end \<Rightarrow> walk" where
  "end_walk e = (case e of RouteCommitted _ _ wk \<Rightarrow> wk | RouteFailed _ wk \<Rightarrow> wk | RouteBudgetExhausted _ wk \<Rightarrow> wk)"

lemma end_walk_out [simp]:
  "walk_out (end_walk (finish_walk cx wk)) = walk_out wk"
  "walk_out (end_walk (commit_attempt cx c reason answer status l wk)) = walk_out wk"
  "walk_out (end_walk (planning_failed r failure wk)) = walk_out wk"
  by (simp_all add: finish_walk_def commit_attempt_def planning_failed_def end_walk_def Let_def case_prod_unfold
      split: option.splits routing_failure.splits)

definition step_walk :: "walk + route_end \<Rightarrow> walk" where
  "step_walk res = (case res of Inl wk \<Rightarrow> wk | Inr e \<Rightarrow> end_walk e)"

lemma after_attempt_out [simp]:
  "walk_out (step_walk (after_attempt cx c reason is_sticky rest result l wk)) = walk_out wk"
proof -
  have go: "walk_out (step_walk (go_on cx rest moves wk)) = walk_out wk" for moves wk
    by (simp add: go_on_def step_walk_def end_walk_def)
  show ?thesis
  proof (cases result)
    case None
    then show ?thesis by (simp add: after_attempt_def step_walk_def end_walk_def)
  next
    case (Some r)
    obtain a status where r: "r = (a, status)" by fastforce
    show ?thesis
      by (cases a) (simp_all add: Some r after_attempt_def after_failure_def after_overflow_def Let_def go,
          simp_all add: step_walk_def)
  qed
qed

lemma update_update: "AList.update k v (AList.update k w xs) = AList.update k v xs"
  by (induction xs) auto

text \<open>Request \<open>req\<close>, sent at \<open>t\<close> to deployment \<open>d\<close>, is the client's request for that deployment.\<close>

definition proper_send :: "request_context \<Rightarrow> json_object \<Rightarrow> ustr \<times> nat \<times> upstream_request \<Rightarrow> bool" where
  "proper_send rq request = (\<lambda>(d, t, req).
    (\<forall>b. rc_budget rq = Some b \<longrightarrow> t < bu_deadline b)
    \<and> (\<exists>dep n. dep \<in> set (deployments (rc_topology rq)) \<and> n \<in> set (nodes (rc_topology rq))
        \<and> dp_id dep = d \<and> dp_node dep = nd_id n
        \<and> ur_url req = node_endpoint n (endpoint_path (rc_endpoint rq))
        \<and> ur_request_id req = rc_request_id rq
        \<and> ur_accept req = rc_headers rq (ascii ''accept'')
        \<and> ur_authorization req = header_value (nd_auth n)
        \<and> ex_to_vec (rc_ext rq) (JObject (with_model (dp_remote_model dep) request)) = Some (ur_body req)))"

definition sends_ok :: "request_context \<Rightarrow> json_object \<Rightarrow> walk \<Rightarrow> walk \<Rightarrow> bool" where
  "sends_ok rq request wk wk' \<longleftrightarrow>
    (\<forall>name. with_model name (snd (walk_out wk')) = with_model name request)
    \<and> (\<exists>more. fst (walk_out wk') = fst (walk_out wk) @ more \<and> list_all (proper_send rq request) more)"

lemma sends_ok_trans: "sends_ok rq request wk wk1 \<Longrightarrow> sends_ok rq request wk1 wk2 \<Longrightarrow> sends_ok rq request wk wk2"
  by (auto simp: sends_ok_def)

lemma take_slot_out: "take_slot index c wk = (l, wk') \<Longrightarrow> walk_out wk' = walk_out wk \<and> wk_now wk' = wk_now wk"
proof -
  have "wk_now (drop_reservation wk) = wk_now wk"
    by (simp add: drop_reservation_def drop_lease_def split: option.splits)
  then show "take_slot index c wk = (l, wk') \<Longrightarrow> walk_out wk' = walk_out wk \<and> wk_now wk' = wk_now wk"
    by (auto simp: take_slot_def Let_def case_prod_unfold split: option.splits nat.splits) (simp_all add: walk_out_def)
qed

text \<open>The candidates of a plan are deployments of the topology.\<close>

definition real_candidate :: "topology \<Rightarrow> candidate \<Rightarrow> bool" where
  "real_candidate tp c \<longleftrightarrow> (\<exists>dep n. dep \<in> set (deployments tp) \<and> dp_id dep = ca_deployment c
     \<and> dp_remote_model dep = ca_remote_model c \<and> dp_node dep = ca_node c
     \<and> topology_node tp (ca_node c) = Some n \<and> nd_enabled n)"

lemma plan_candidates_real:
  assumes "plan_with_affinity lower sel tp r health obs needs sticky_id = Inr (p, sel')" "c \<in> set (pl_candidates p)"
  shows "real_candidate tp c"
proof -
  have "mset (pl_candidates p) = mset (routable lower tp r health obs needs)"
    using plan_candidates_routable [of lower tp r health obs needs sel sticky_id] assms(1) by simp
  then have "c \<in> set (available_candidates lower tp r health)"
    using assms(2) by (metis routable_def filter_is_subset mset_eq_setD subsetD)
  then obtain x where "candidate_at lower tp health x = Some c"
    by (auto simp: available_candidates_def List.map_filter_def)
  then obtain i dep n where dep: "topology_deployment tp i = Some dep" and n: "topology_node tp (dp_node dep) = Some n"
    and av: "availability lower n dep (case health (nd_id n) of None \<Rightarrow> default_status | Some st \<Rightarrow> st) = Available"
    and c: "ca_deployment c = dp_id dep" "ca_node c = nd_id n" "ca_remote_model c = dp_remote_model dep"
    by (auto simp: candidate_at_def split: option.splits prod.splits if_splits)
  have "nd_id n = dp_node dep" using n by (auto simp: topology_node_def find_Some_iff)
  moreover have "dep \<in> set (deployments tp)" using dep by (auto simp: topology_deployment_def find_Some_iff)
  moreover have "nd_enabled n" using av by (simp add: available_iff)
  ultimately show ?thesis using n c unfolding real_candidate_def by metis
qed

definition context_for :: "request_context \<Rightarrow> route_context \<Rightarrow> bool" where
  "context_for rq cx \<longleftrightarrow>
    cx_ext cx = rc_ext rq \<and> cx_topology cx = rc_topology rq \<and> cx_endpoint cx = rc_endpoint rq
    \<and> cx_headers cx = rc_headers rq \<and> cx_request_id cx = rc_request_id rq \<and> cx_budget cx = rc_budget rq
    \<and> cx_net cx = rc_net rq"

lemma send_attempt_sends:
  assumes cx: "context_for rq cx" and c: "real_candidate (rc_topology rq) c"
    and n: "topology_node (rc_topology rq) (ca_node c) = Some n"
    and now: "\<not> expired (wk_now wk) (rc_budget rq)"
    and req: "\<forall>name. with_model name (wk_request wk) = with_model name request"
    and send: "send_attempt cx index c n wk = (result, l, wk')"
  shows "sends_ok rq request wk wk'"
proof -
  obtain l1 wk1 where slot: "take_slot index c wk = (l1, wk1)" by fastforce
  note kept = take_slot_out [OF slot]
  have wk1: "wk_sent wk1 = wk_sent wk" "wk_request wk1 = wk_request wk" "wk_now wk1 = wk_now wk"
    using kept by (auto simp: walk_out_def)
  let ?request = "AList.update (ascii ''model'') (JString (ca_remote_model c)) (wk_request wk)"
  have same: "?request = with_model (ca_remote_model c) request" using req by (simp add: with_model_def)
  have again: "with_model name ?request = with_model name request" for name
    using req by (simp add: with_model_def update_update)
  have node: "n \<in> set (nodes (rc_topology rq))" "nd_id n = ca_node c"
    using n by (auto simp: topology_node_def find_Some_iff)
  from c obtain dep where dep: "dep \<in> set (deployments (rc_topology rq))" "dp_id dep = ca_deployment c"
    "dp_remote_model dep = ca_remote_model c" "dp_node dep = ca_node c"
    by (auto simp: real_candidate_def)
  have before: "\<forall>b. rc_budget rq = Some b \<longrightarrow> wk_now wk < bu_deadline b"
    using now by (auto simp: expired_def budget_expired_def)
  let ?a = "attempt_one (rc_ext rq) (rc_endpoint rq) (rc_headers rq) (rc_request_id rq) n ?request
      (if ex_to_vec (rc_ext rq) (JObject ?request) = None then wk_now wk else wk_now wk + aw_took (cx_net cx (wk_awaits wk)))
      (cx_net cx (wk_awaits wk)) (wk_shared wk1)"
  let ?more = "case fst (snd ?a) of None \<Rightarrow> [] | Some r \<Rightarrow> [(ca_deployment c, wk_now wk, r)]"
  have out: "walk_out wk' = (wk_sent wk @ ?more, ?request)"
    using send slot wk1 cx
    by (auto simp: send_attempt_def Let_def case_prod_unfold walk_out_def context_for_def split: option.splits)
  have "list_all (proper_send rq request) ?more"
  proof (cases "ex_to_vec (rc_ext rq) (JObject ?request)")
    case None
    then show ?thesis by (simp add: attempt_one_def)
  next
    case (Some payload)
    then have "fst (snd ?a) = Some (request_for (rc_endpoint rq) (rc_headers rq) (rc_request_id rq) n payload)"
      by (simp add: attempt_one_def Let_def case_prod_unfold split: upstream_result.splits)
    moreover have "proper_send rq request (ca_deployment c, wk_now wk,
        request_for (rc_endpoint rq) (rc_headers rq) (rc_request_id rq) n payload)"
      unfolding proper_send_def prod.case
      using before dep node Some same by (intro conjI exI [of _ dep] exI [of _ n]) (auto simp: request_for_def)
    ultimately show ?thesis by simp
  qed
  moreover define more where "more = ?more"
  ultimately have "walk_out wk' = (wk_sent wk @ more, ?request)" "list_all (proper_send rq request) more"
    using out by (simp_all only:)
  then show ?thesis using again by (auto simp: sends_ok_def) (simp add: walk_out_def)
qed

lemma sends_ok_refl:
  "\<forall>name. with_model name (wk_request wk) = with_model name request \<Longrightarrow> sends_ok rq request wk wk"
  by (simp add: sends_ok_def walk_out_def)

lemma walk_step_sends:
  assumes "context_for rq cx" "real_candidate (rc_topology rq) c"
    and req: "\<forall>name. with_model name (wk_request wk) = with_model name request"
  shows "sends_ok rq request wk (step_walk (walk_step cx index c rest wk))"
proof (cases rule: walk_step_cases [of cx index c rest wk])
  case (sent wk1 n reason is_sticky result l wk2)
  have "sends_ok rq request wk1 wk2"
    by (rule send_attempt_sends [OF assms(1,2) _ _ _ sent(5)]) (use sent assms in \<open>simp_all add: context_for_def\<close>)
  then show ?thesis using sent(1,6) by (simp add: sends_ok_def)
next
  case (refused wk1)
  with sends_ok_refl [OF req] show ?thesis by (simp add: step_walk_def sends_ok_def end_walk_def)
qed (use sends_ok_refl [OF req] in \<open>simp_all add: step_walk_def sends_ok_def\<close>)

lemma walk_sends:
  assumes "context_for rq cx" "\<forall>(index, c) \<in> set cs. real_candidate (rc_topology rq) c"
    and "\<forall>name. with_model name (wk_request wk) = with_model name request"
  shows "sends_ok rq request wk (end_walk (walk_candidates cx cs wk))"
proof (rule walk_invariant [where keeps = "sends_ok rq request wk" and good = "\<lambda>e. sends_ok rq request wk (end_walk e)"])
  fix index c rest w
  assume c: "(index, c) \<in> set cs" and w: "sends_ok rq request wk w"
  then have "\<forall>name. with_model name (wk_request w) = with_model name request"
    by (simp add: sends_ok_def walk_out_def)
  with c assms(1,2) have "sends_ok rq request w (step_walk (walk_step cx index c rest w))"
    by (intro walk_step_sends) auto
  with w have "sends_ok rq request wk (step_walk (walk_step cx index c rest w))" by (rule sends_ok_trans)
  then show "case walk_step cx index c rest w of Inl wk' \<Rightarrow> sends_ok rq request wk wk'
      | Inr e \<Rightarrow> sends_ok rq request wk (end_walk e)"
    by (simp add: step_walk_def split: sum.splits)
next
  fix w
  assume "sends_ok rq request wk w"
  then show "sends_ok rq request wk (end_walk (finish_walk cx w))" by (simp add: sends_ok_def)
qed (rule sends_ok_refl [OF assms(3)])

text \<open>A route attempt is a planning failure, or the walk over a plan.\<close>

definition route_candidates :: "request_context \<Rightarrow> route \<Rightarrow> walk \<Rightarrow> candidate list" where
  "route_candidates rq r wk = routable (ex_lower (rc_ext rq)) (rc_topology rq) r (hb_nodes (sh_health (wk_shared wk)))
     (hb_deployments (sh_health (wk_shared wk))) (rc_needs rq)"

lemma attempt_route_cases:
  obtains (unplanned) failure wk1 where "attempt_route rq r wk = planning_failed r failure wk1"
      "walk_out wk1 = walk_out wk" "wk_tracker wk1 = wk_tracker wk" "sh_log (wk_shared wk1) = sh_log (wk_shared wk)"
      "wk_now wk1 = wk_now wk" "route_candidates rq r wk = []"
  | (planned) cx p wk1 hit where "attempt_route rq r wk = walk_candidates cx (enumerate 0 (pl_candidates p)) wk1"
      "context_for rq cx" "cx_route cx = r" "cx_plan cx = p" "\<forall>c \<in> set (pl_candidates p). real_candidate (rc_topology rq) c"
      "walk_out wk1 = walk_out wk" "wk_tracker wk1 = wk_tracker wk"
      "sh_log (wk_shared wk1) = sh_log (wk_shared wk) @ hit" "set hit \<subseteq> {AffinityHit (rt_name r), AffinityMiss (rt_name r)}"
      "wk_too_small wk1 = None" "wk_now wk1 = wk_now wk" "cx_observed cx = hb_deployments (sh_health (wk_shared wk))"
      "mset (pl_candidates p) = mset (route_candidates rq r wk)"
proof -
  let ?sh = "wk_shared wk"
  let ?key = "session (ex_hash (rc_ext rq)) (sh_affinity ?sh) (rt_name r) (rc_headers rq)"
  obtain sticky_id book where look: "(case ?key of None \<Rightarrow> (None, sh_affinity ?sh)
      | Some k \<Rightarrow> lookup_at k (wk_now wk) (sh_affinity ?sh)) = (sticky_id, book)" by fastforce
  let ?plan = "plan_with_affinity (ex_lower (rc_ext rq)) (sh_selector ?sh) (rc_topology rq) r
      (hb_nodes (sh_health ?sh)) (hb_deployments (sh_health ?sh)) (rc_needs rq) sticky_id"
  note routed = plan_candidates_routable [of "ex_lower (rc_ext rq)" "rc_topology rq" r "hb_nodes (sh_health ?sh)"
      "hb_deployments (sh_health ?sh)" "rc_needs rq" "sh_selector ?sh" sticky_id]
  show thesis
  proof (cases ?plan)
    case (Inl failure)
    with look routed show ?thesis
      by (intro unplanned [of failure "wk\<lparr>wk_shared := ?sh\<lparr>sh_affinity := book\<rparr>\<rparr>"])
        (simp_all add: attempt_route_def Let_def route_candidates_def)
  next
    case (Inr ps)
    obtain p sel where ps: "ps = (p, sel)" by fastforce
    let ?wk1 = "wk\<lparr>wk_shared := ?sh\<lparr>sh_affinity := book, sh_selector := sel\<rparr>\<rparr>"
    let ?m = "if pl_sticky p = Some Hit then AffinityHit (rt_name r) else AffinityMiss (rt_name r)"
    let ?wk2 = "case ?key of None \<Rightarrow> ?wk1 | Some _ \<Rightarrow> wk_log ?m ?wk1"
    let ?cx = "\<lparr>cx_ext = rc_ext rq, cx_topology = rc_topology rq, cx_endpoint = rc_endpoint rq,
                  cx_headers = rc_headers rq, cx_request_id = rc_request_id rq, cx_route = r,
                  cx_session = ?key, cx_plan = p, cx_observed = hb_deployments (sh_health ?sh),
                  cx_budget = rc_budget rq, cx_net = rc_net rq\<rparr>"
    have run: "attempt_route rq r wk = walk_candidates ?cx (enumerate 0 (pl_candidates p)) (fresh_walk p ?wk2)"
      using look Inr ps by (simp add: attempt_route_def Let_def split: option.splits)
    have real: "\<forall>c \<in> set (pl_candidates p). real_candidate (rc_topology rq) c"
      using plan_candidates_real [OF Inr [unfolded ps]] by blast
    have all: "mset (pl_candidates p) = mset (route_candidates rq r wk)"
      using routed Inr ps by (simp add: route_candidates_def)
    show ?thesis
      by (rule planned [where hit = "case ?key of None \<Rightarrow> [] | Some _ \<Rightarrow> [?m]", OF run _ _ _ real _ _ _ _ _ _ _ all])
        (simp_all add: context_for_def fresh_walk_def wk_log_def log_metric_def walk_out_def split: option.splits,
          blast)
  qed
qed

lemma attempt_route_sends:
  assumes "\<forall>name. with_model name (wk_request wk) = with_model name request"
  shows "sends_ok rq request wk (end_walk (attempt_route rq r wk))"
proof (cases rule: attempt_route_cases [of rq r wk])
  case (unplanned failure wk1)
  with sends_ok_refl [OF assms] show ?thesis by (simp add: sends_ok_def)
next
  case (planned cx p wk1 hit)
  have "wk_request wk1 = wk_request wk" using planned(6) by (simp add: walk_out_def)
  then have "sends_ok rq request wk1 (end_walk (attempt_route rq r wk))"
    unfolding planned(1) using planned(2,5) assms by (intro walk_sends) (auto simp: in_set_enumerate_eq)
  with planned(6) show ?thesis by (simp add: sends_ok_def)
qed

lemma request_end_out [simp]:
  "walk_out (snd (snd (exhaust st next wk))) = walk_out wk"
  "walk_out (snd (snd (conclude failure wk))) = walk_out wk"
  "walk_out (snd (snd (conclude_chain initial hops failure wk))) = walk_out wk"
  "walk_out (snd (snd (budget_stopped rq r on_fallback before_first wk))) = walk_out wk"
  "walk_out (snd (snd (next_refused initial nxt hops failure reason wk))) = walk_out wk"
  "walk_out (move_on rq initial nxt hops failure reason wk) = walk_out wk"
  by (simp_all add: exhaust_def conclude_def conclude_chain_def budget_stopped_def next_refused_def move_on_def
      Let_def case_prod_unfold split: option.splits)

lemma route_chain_sends:
  assumes "\<forall>name. with_model name (wk_request wk) = with_model name request"
  shows "sends_ok rq request wk (snd (snd (route_chain rq initial r plan hops wk)))"
  using assms
proof (induction plan arbitrary: r hops wk)
  case Nil
  from attempt_route_sends [OF Nil, of rq r] show ?case
    by (auto simp: end_walk_def sends_ok_def split: route_end.splits)
next
  case (Cons name left)
  have first: "sends_ok rq request wk (end_walk (attempt_route rq r wk))" using Cons.prems by (rule attempt_route_sends)
  show ?case
  proof (cases "attempt_route rq r wk")
    case (RouteFailed failure wk1)
    with first have wk1: "sends_ok rq request wk wk1" by (simp add: end_walk_def)
    have more: "sends_ok rq request wk wk2" if "sends_ok rq request wk1 wk2" for wk2
      using wk1 that by (rule sends_ok_trans)
    have "sends_ok rq request wk1 (snd (snd (route_chain rq initial nxt left hops'
        (move_on rq initial nxt hops' failure reason wk1))))" for nxt hops' reason
    proof -
      let ?wk2 = "move_on rq initial nxt hops' failure reason wk1"
      have "\<forall>name. with_model name (wk_request ?wk2) = with_model name request"
        using wk1 request_end_out(6) [of rq initial nxt hops' failure reason wk1]
        by (simp add: sends_ok_def walk_out_def)
      from Cons.IH [OF this] show ?thesis by (simp add: sends_ok_def)
    qed
    with RouteFailed wk1 more show ?thesis by (auto simp: sends_ok_def split: option.splits)
  qed (use first in \<open>auto simp: end_walk_def sends_ok_def\<close>)
qed

text \<open>C24. What the nodes see of a request. Every request the router sends goes to the node of a configured
  deployment, under the request's id, with that node's own credential and none of the client's headers but
  \<open>Accept\<close>, so the client's credential reaches no node and a node's credential no other node; its body is
  the client's with the deployment's model name in place of the route's and nothing else changed; and it is
  sent strictly before the request's deadline, if there is one, whatever happened before it.\<close>

theorem sends_are_proper:
  "\<exists>more. wk_sent (snd (snd (forward_routed rq cs r wk))) = wk_sent wk @ more
    \<and> list_all (proper_send rq (wk_request wk)) more"
proof -
  have "sends_ok rq (wk_request wk) wk (snd (snd (forward_routed rq cs r wk)))"
  proof (cases "expired (wk_now wk) (rc_budget rq)")
    case True
    with sends_ok_refl [of wk "wk_request wk" rq] show ?thesis by (simp add: forward_routed_def sends_ok_def)
  next
    case False
    with route_chain_sends [of wk "wk_request wk"] show ?thesis by (simp add: forward_routed_def)
  qed
  then show ?thesis by (auto simp: sends_ok_def walk_out_def)
qed

end
