(* ===== verification/Router_Proxy_Order.thy ===== *)
theory Router_Proxy_Order
  imports Router_Proxy_Correct
begin

text \<open>
  The order of a forwarded request: which deployments of a route are tried and when the walk goes on, how
  often a request is counted, and which routes a chain of fallbacks visits.
\<close>

section \<open>Which deployments are tried\<close>

definition attempts_of :: "walk \<Rightarrow> attempt_trace list" where
  "attempts_of wk = tk_attempts (wk_tracker wk)"

lemma attempts_simps [simp]:
  "attempts_of (drop_lease l wk) = attempts_of wk" "attempts_of (drop_reservation wk) = attempts_of wk"
  "attempts_of (wk_log m wk) = attempts_of wk" "attempts_of (wk\<lparr>wk_after_overflow := b\<rparr>) = attempts_of wk"
  "attempts_of (wk\<lparr>wk_now := t\<rparr>) = attempts_of wk" "attempts_of (wk\<lparr>wk_shared := sh\<rparr>) = attempts_of wk"
  "attempts_of (fresh_walk p wk) = attempts_of wk"
  by (simp_all add: attempts_of_def drop_lease_def drop_reservation_def wk_log_def fresh_walk_def split: option.splits)

lemma too_small_simps [simp]:
  "wk_too_small (drop_lease l wk) = wk_too_small wk" "wk_too_small (wk_log m wk) = wk_too_small wk"
  "wk_too_small (record_attempt cx c reason res status wk) = wk_too_small wk"
  "wk_too_small (failed_walk cx c reason is_sticky why status l wk) = wk_too_small wk"
  "wk_too_small (fold wk_log ms wk) = wk_too_small wk"
proof -
  show "wk_too_small (fold wk_log ms wk) = wk_too_small wk"
    by (induction ms arbitrary: wk) (simp_all add: wk_log_def)
qed (simp_all add: drop_lease_def wk_log_def record_attempt_def failed_walk_def)

lemma attempts_fold_log [simp]: "attempts_of (fold wk_log ms wk) = attempts_of wk"
  by (induction ms arbitrary: wk) simp_all

lemma send_attempt_keeps:
  assumes "send_attempt cx index c n wk = (result, l, wk')"
  shows "wk_tracker wk' = wk_tracker wk" "wk_too_small wk' = wk_too_small wk"
proof -
  obtain l1 wk1 where slot: "take_slot index c wk = (l1, wk1)" by fastforce
  have "wk_tracker wk1 = wk_tracker wk \<and> wk_too_small wk1 = wk_too_small wk"
    using slot
    by (auto simp: take_slot_def Let_def case_prod_unfold drop_reservation_def drop_lease_def
        split: option.splits nat.splits)
  then show "wk_tracker wk' = wk_tracker wk" "wk_too_small wk' = wk_too_small wk"
    using assms slot by (auto simp: send_attempt_def Let_def case_prod_unfold split: option.splits)
qed

definition known_context :: "route_context \<Rightarrow> ustr \<Rightarrow> u32" where
  "known_context cx d = (case cx_observed cx d of Some ob \<Rightarrow> do_context_length ob | None \<Rightarrow> - 1)"

lemma context_of_known: "(case context_of cx c of Some n \<Rightarrow> n | None \<Rightarrow> - 1) = known_context cx (ca_deployment c)"
  by (simp add: context_of_def known_context_def split: option.splits)

lemma record_attempt_attempts [simp]:
  "attempts_of (record_attempt cx c reason res status wk) = attempts_of wk @
    [\<lparr>at_route = rt_name (cx_route cx), at_deployment = ca_deployment c, at_reason = reason, at_result = res,
      at_status = status\<rparr>]"
  by (simp add: attempts_of_def record_attempt_def)

lemma failed_walk_attempts [simp]:
  "attempts_of (failed_walk cx c reason is_sticky why status l wk) =
    attempts_of (record_attempt cx c reason AttemptFailed status wk)"
  "attempts_of (overflowed_walk cx c reason is_sticky refused status l wk) =
    attempts_of (record_attempt cx c reason AttemptOverflow status wk)"
  by (simp_all add: failed_walk_def overflowed_walk_def Let_def attempts_of_def record_attempt_def drop_lease_def)

lemma tracker_finish_attempts [simp]:
  "tk_attempts (fst (tracker_finish now status out tk sh)) = tk_attempts tk"
  by (simp add: tracker_finish_def Let_def)

lemma commit_attempt_attempts:
  "\<exists>response held wk'. commit_attempt cx c reason answer status l wk = RouteCommitted response held wk'
    \<and> attempts_of wk' = attempts_of (record_attempt cx c reason AttemptCommitted status wk)"
proof -
  let ?wk = "record_attempt cx c reason AttemptCommitted status wk"
  have "tk_attempts (fst (committing cx c reason answer ?wk)) = tk_attempts (wk_tracker ?wk)"
    by (simp add: committing_def Let_def)
  moreover have "tk_attempts (fst (snd (snd (commit ex rt answer l now tk sh)))) = tk_attempts tk" for ex rt now tk sh
    by (simp add: commit_def Let_def case_prod_unfold split: committed_answer.splits option.splits)
  ultimately show ?thesis
    by (auto simp: commit_attempt_def Let_def case_prod_unfold) (simp add: attempts_of_def record_attempt_def)
qed

text \<open>One step of the walk: nothing was tried, or the candidate was, and then its context is larger than
  every one the prompt is known to overflow.\<close>

definition step_tries :: "route_context \<Rightarrow> candidate \<Rightarrow> walk \<Rightarrow> walk + route_end \<Rightarrow> attempt_trace list \<Rightarrow> bool" where
  "step_tries cx c wk res ts \<longleftrightarrow>
    attempts_of (step_walk res) = attempts_of wk @ ts
    \<and> (ts = [] \<or> (\<exists>t. ts = [t] \<and> at_deployment t = ca_deployment c \<and> larger_than cx (wk_too_small wk) c))
    \<and> (case res of
         Inl wk' \<Rightarrow>
           (\<forall>t \<in> set ts. at_result t = AttemptFailed \<or> at_result t = AttemptOverflow)
           \<and> (\<forall>m. wk_too_small wk = Some m \<longrightarrow> (\<exists>m' \<ge> m. wk_too_small wk' = Some m'))
           \<and> (\<forall>t \<in> set ts. at_result t = AttemptOverflow \<longrightarrow>
                (\<exists>m'. wk_too_small wk' = Some m' \<and> known_context cx (ca_deployment c) \<le> m'))
       | Inr e \<Rightarrow> (\<exists>response held wk'. e = RouteCommitted response held wk') \<longleftrightarrow>
           (\<exists>t. ts = [t] \<and> at_result t = AttemptCommitted))"

lemma finish_walk_tries [simp]:
  "attempts_of (end_walk (finish_walk cx wk)) = attempts_of wk" "finish_walk cx wk \<noteq> RouteCommitted response held wk'"
  by (simp_all add: finish_walk_def Let_def end_walk_def split: option.splits)

lemma after_attempt_tries:
  assumes "larger_than cx (wk_too_small wk) c"
  shows "\<exists>ts. step_tries cx c wk (after_attempt cx c reason is_sticky rest result l wk) ts"
proof (cases result)
  case None
  with assms show ?thesis by (simp add: after_attempt_def step_tries_def step_walk_def end_walk_def)
next
  case (Some r)
  obtain a status where r: "r = (a, status)" by fastforce
  show ?thesis
  proof (cases a)
    case (Commits answer)
    obtain response held wk' where "commit_attempt cx c reason answer status l wk = RouteCommitted response held wk'"
      "attempts_of wk' = attempts_of (record_attempt cx c reason AttemptCommitted status wk)"
      using commit_attempt_attempts by blast
    with Some r Commits assms show ?thesis
      by (simp add: after_attempt_def step_tries_def step_walk_def end_walk_def)
  next
    case (Next why)
    have "\<exists>ts. step_tries cx c wk (go_on cx rest ms (failed_walk cx c reason is_sticky why status l wk)) ts" for ms
      using assms by (simp add: go_on_def step_tries_def step_walk_def end_walk_def)
    moreover have "\<exists>ts. step_tries cx c wk (Inl (failed_walk cx c reason is_sticky why status l wk)) ts"
      using assms by (simp add: step_tries_def step_walk_def)
    ultimately show ?thesis using Some r Next
      by (simp add: after_attempt_def after_failure_def Let_def)
  next
    case (ContextOverflow refused)
    let ?wk = "overflowed_walk cx c reason is_sticky refused status l wk"
    have small: "wk_too_small ?wk = Some (max (known_context cx (ca_deployment c))
        (case wk_too_small wk of Some n \<Rightarrow> n | None \<Rightarrow> 0))"
      by (simp add: overflowed_walk_def Let_def context_of_known)
    then have "\<exists>ts. step_tries cx c wk (go_on cx rest ms (?wk\<lparr>wk_after_overflow := True\<rparr>)) ts" for ms
      using assms by (auto simp: go_on_def step_tries_def step_walk_def end_walk_def)
    moreover have "\<exists>ts. step_tries cx c wk (Inr (finish_walk cx ?wk)) ts"
      using assms by (simp add: step_tries_def step_walk_def)
    ultimately show ?thesis using Some r ContextOverflow
      by (simp add: after_attempt_def after_overflow_def Let_def)
  qed
qed

lemma walk_step_tries: "\<exists>ts. step_tries cx c wk (walk_step cx index c rest wk) ts"
proof (cases rule: walk_step_cases [of cx index c rest wk])
  case (sent wk1 n reason is_sticky result l wk2)
  have kept: "attempts_of wk2 = attempts_of wk" "wk_too_small wk2 = wk_too_small wk"
    using send_attempt_keeps [OF sent(5)] sent(1) by (simp_all add: attempts_of_def)
  then have "step_tries cx c wk2 = step_tries cx c wk" by (intro ext) (simp only: step_tries_def)
  with after_attempt_tries [of cx wk2 c reason is_sticky rest result l] sent(3,6) kept show ?thesis by simp
next
  case (refused wk1)
  then show ?thesis by (simp add: step_tries_def step_walk_def end_walk_def)
qed (simp_all add: step_tries_def step_walk_def)


text \<open>What the walk over a plan tries, in order.\<close>

definition grows_after_overflow :: "(ustr \<rightharpoonup> deployment_observation) \<Rightarrow> attempt_trace \<Rightarrow> attempt_trace \<Rightarrow> bool" where
  "grows_after_overflow seen a b \<longleftrightarrow> at_result a = AttemptOverflow \<longrightarrow>
    (\<exists>oa ob. seen (at_deployment a) = Some oa \<and> seen (at_deployment b) = Some ob
       \<and> do_context_length oa < do_context_length ob)"

lemma above_known:
  assumes "larger_than cx (Some m) c" "known_context cx d \<le> m"
  shows "\<exists>oa ob. cx_observed cx d = Some oa \<and> cx_observed cx (ca_deployment c) = Some ob
    \<and> do_context_length oa < do_context_length ob"
proof -
  from assms(1) obtain ob where ob: "cx_observed cx (ca_deployment c) = Some ob" "m < do_context_length ob"
    by (auto simp: larger_than_def context_of_def split: option.splits)
  with assms(2) have less: "known_context cx d < do_context_length ob" by (meson le_less_trans)
  then have "known_context cx d \<noteq> - 1" by (metis word_order.extremum linorder_not_less)
  with less ob show ?thesis by (auto simp: known_context_def split: option.splits)
qed

definition walk_tries :: "route_context \<Rightarrow> (nat \<times> candidate) list \<Rightarrow> walk \<Rightarrow> route_end \<Rightarrow> attempt_trace list \<Rightarrow> bool" where
  "walk_tries cx cs wk e new \<longleftrightarrow>
    attempts_of (end_walk e) = attempts_of wk @ new
    \<and> subseq (map at_deployment new) (map (\<lambda>(_, c). ca_deployment c) cs)
    \<and> sorted_wrt (grows_after_overflow (cx_observed cx)) new
    \<and> (\<forall>d m. wk_too_small wk = Some m \<and> known_context cx d \<le> m \<longrightarrow>
         (\<forall>b \<in> set new. \<exists>oa ob. cx_observed cx d = Some oa \<and> cx_observed cx (at_deployment b) = Some ob
            \<and> do_context_length oa < do_context_length ob))
    \<and> (\<forall>t \<in> set (butlast new). at_result t = AttemptFailed \<or> at_result t = AttemptOverflow)
    \<and> ((\<exists>response held wk'. e = RouteCommitted response held wk') \<longleftrightarrow>
         new \<noteq> [] \<and> at_result (last new) = AttemptCommitted)"

lemma walk_tries_ok: "\<exists>new. walk_tries cx cs wk (walk_candidates cx cs wk) new"
proof (induction cs arbitrary: wk)
  case Nil
  show ?case by (auto simp: walk_tries_def intro!: exI [of _ "[]"])
next
  case (Cons ic cs)
  obtain index c where ic: "ic = (index, c)" by fastforce
  obtain ts where ts: "step_tries cx c wk (walk_step cx index c cs wk) ts" using walk_step_tries by blast
  show ?case
  proof (cases "walk_step cx index c cs wk")
    case (Inr e)
    have e: "attempts_of (end_walk e) = attempts_of wk @ ts"
      "ts = [] \<or> (\<exists>t. ts = [t] \<and> at_deployment t = ca_deployment c \<and> larger_than cx (wk_too_small wk) c)"
      "(\<exists>response held wk'. e = RouteCommitted response held wk') \<longleftrightarrow> (\<exists>t. ts = [t] \<and> at_result t = AttemptCommitted)"
      using ts unfolding step_tries_def Inr step_walk_def sum.case by blast+
    from e(2) have "walk_tries cx (ic # cs) wk e ts"
    proof
      assume "ts = []"
      with e show ?thesis by (simp add: walk_tries_def)
    next
      assume "\<exists>t. ts = [t] \<and> at_deployment t = ca_deployment c \<and> larger_than cx (wk_too_small wk) c"
      then obtain t where t: "ts = [t]" "at_deployment t = ca_deployment c" "larger_than cx (wk_too_small wk) c" by blast
      from e(1,3) t above_known [of cx _ c] show ?thesis by (simp add: walk_tries_def ic) metis
    qed
    with Inr show ?thesis by (auto simp: ic)
  next
    case (Inl wk')
    obtain new where new: "walk_tries cx cs wk' (walk_candidates cx cs wk') new" using Cons.IH by blast
    have here: "attempts_of wk' = attempts_of wk @ ts"
      "ts = [] \<or> (\<exists>t. ts = [t] \<and> at_deployment t = ca_deployment c \<and> larger_than cx (wk_too_small wk) c)"
      "\<forall>t \<in> set ts. at_result t = AttemptFailed \<or> at_result t = AttemptOverflow"
      and mono: "\<forall>m. wk_too_small wk = Some m \<longrightarrow> (\<exists>m' \<ge> m. wk_too_small wk' = Some m')"
      and over: "\<forall>t \<in> set ts. at_result t = AttemptOverflow \<longrightarrow>
        (\<exists>m'. wk_too_small wk' = Some m' \<and> known_context cx (ca_deployment c) \<le> m')"
      using ts unfolding step_tries_def Inl step_walk_def sum.case by blast+
    have later: "\<forall>b \<in> set new. \<exists>oa ob. cx_observed cx d = Some oa \<and> cx_observed cx (at_deployment b) = Some ob
          \<and> do_context_length oa < do_context_length ob"
      if "wk_too_small wk = Some m" "known_context cx d \<le> m" for d m
    proof -
      from mono [rule_format, OF that(1)] obtain m' where m': "m \<le> m'" "wk_too_small wk' = Some m'" by blast
      with that(2) have "known_context cx d \<le> m'" by order
      with m'(2) new show ?thesis unfolding walk_tries_def by blast
    qed
    have "walk_tries cx (ic # cs) wk (walk_candidates cx cs wk') (ts @ new)"
    proof (cases ts)
      case Nil
      show ?thesis
        unfolding walk_tries_def
      proof (intro conjI)
        show "subseq (map at_deployment (ts @ new)) (map (\<lambda>(_, c). ca_deployment c) (ic # cs))"
          using new Nil by (simp add: walk_tries_def list_emb_Cons)
        show "\<forall>d m. wk_too_small wk = Some m \<and> known_context cx d \<le> m \<longrightarrow>
           (\<forall>b \<in> set (ts @ new). \<exists>oa ob. cx_observed cx d = Some oa \<and> cx_observed cx (at_deployment b) = Some ob
              \<and> do_context_length oa < do_context_length ob)"
          using later Nil by simp
      qed (use new Nil here(1) in \<open>simp_all add: walk_tries_def\<close>)
    next
      case (Cons t ts')
      with here(2) have "ts' = []" "at_deployment t = ca_deployment c" "larger_than cx (wk_too_small wk) c" by auto
      with Cons here(1,3) have t: "ts = [t]" "attempts_of wk' = attempts_of wk @ [t]" "at_deployment t = ca_deployment c"
        "larger_than cx (wk_too_small wk) c" "at_result t = AttemptFailed \<or> at_result t = AttemptOverflow"
        by simp_all
      have t7: "\<exists>m'. wk_too_small wk' = Some m' \<and> known_context cx (ca_deployment c) \<le> m'" if "at_result t = AttemptOverflow"
        using over that t(1) by simp
      have first: "grows_after_overflow (cx_observed cx) t b" if "b \<in> set new" for b
        unfolding grows_after_overflow_def
      proof
        assume "at_result t = AttemptOverflow"
        from t7 [OF this] obtain m' where "wk_too_small wk' = Some m'" "known_context cx (ca_deployment c) \<le> m'" by blast
        with new that have "\<exists>oa ob. cx_observed cx (ca_deployment c) = Some oa \<and> cx_observed cx (at_deployment b) = Some ob
            \<and> do_context_length oa < do_context_length ob"
          unfolding walk_tries_def by blast
        then show "\<exists>oa ob. cx_observed cx (at_deployment t) = Some oa \<and> cx_observed cx (at_deployment b) = Some ob
            \<and> do_context_length oa < do_context_length ob" unfolding t(3) .
      qed
      have known: "\<forall>b \<in> set ([t] @ new). \<exists>oa ob. cx_observed cx d = Some oa \<and> cx_observed cx (at_deployment b) = Some ob
            \<and> do_context_length oa < do_context_length ob"
        if "wk_too_small wk = Some m" "known_context cx d \<le> m" for d m
      proof -
        from later [OF that]
        have "\<forall>b \<in> set new. \<exists>oa ob. cx_observed cx d = Some oa \<and> cx_observed cx (at_deployment b) = Some ob
            \<and> do_context_length oa < do_context_length ob" .
        with above_known [of cx m c d] t(3,4) that show ?thesis by simp
      qed
      have parts: "attempts_of (end_walk (walk_candidates cx cs wk')) = attempts_of wk @ [t] @ new"
        "subseq (map at_deployment new) (map (\<lambda>(_, c). ca_deployment c) cs)"
        "sorted_wrt (grows_after_overflow (cx_observed cx)) new"
        "\<forall>t \<in> set (butlast new). at_result t = AttemptFailed \<or> at_result t = AttemptOverflow"
        "(\<exists>response held wk1. walk_candidates cx cs wk' = RouteCommitted response held wk1) \<longleftrightarrow>
           new \<noteq> [] \<and> at_result (last new) = AttemptCommitted"
        using new t(2) by (simp_all add: walk_tries_def)
      show ?thesis
        unfolding walk_tries_def t(1)
      proof (intro conjI)
        show "subseq (map at_deployment ([t] @ new)) (map (\<lambda>(_, c). ca_deployment c) (ic # cs))"
          using parts(2) t(3) by (simp add: ic)
        show "sorted_wrt (grows_after_overflow (cx_observed cx)) ([t] @ new)" using parts(3) first by simp
        show "\<forall>t \<in> set (butlast ([t] @ new)). at_result t = AttemptFailed \<or> at_result t = AttemptOverflow"
          using parts(4) t(5) by simp
        show "(\<exists>response held wk1. walk_candidates cx cs wk' = RouteCommitted response held wk1) \<longleftrightarrow>
            [t] @ new \<noteq> [] \<and> at_result (last ([t] @ new)) = AttemptCommitted"
          using parts(5) t(5) by auto
      qed (use parts(1) known in simp_all)
    qed
    with Inl show ?thesis by (auto simp: ic)
  qed
qed




section \<open>A request is counted once\<close>

fun is_counted :: "metric \<Rightarrow> bool" where
  "is_counted (RequestCounted _ _) = True"
| "is_counted _ = False"

fun is_finished :: "metric \<Rightarrow> bool" where
  "is_finished (TraceFinished _ _ _) = True"
| "is_finished _ = False"

definition tally :: "shared \<Rightarrow> nat \<times> nat" where
  "tally sh = (length (filter is_counted (sh_log sh)), length (filter is_finished (sh_log sh)))"

definition wk_tally :: "walk \<Rightarrow> (nat \<times> nat) \<times> bool \<times> request_budget option" where
  "wk_tally wk = (tally (wk_shared wk), tk_finished (wk_tracker wk), tk_budget (wk_tracker wk))"

lemma tally_simps [simp]:
  "tally (log_metric m sh) = (fst (tally sh) + (if is_counted m then 1 else 0), snd (tally sh) + (if is_finished m then 1 else 0))"
  "tally (sh\<lparr>sh_health := h\<rparr>) = tally sh" "tally (sh\<lparr>sh_affinity := a\<rparr>) = tally sh" "tally (sh\<lparr>sh_selector := s1\<rparr>) = tally sh"
  "tally (sh\<lparr>sh_log := sh_log sh'\<rparr>) = tally sh'"
  by (simp_all add: tally_def log_metric_def)

lemma wk_tally_simps [simp]:
  "wk_tally (drop_lease l wk) = wk_tally wk" "wk_tally (drop_reservation wk) = wk_tally wk"
  "wk_tally (record_attempt cx c reason res status wk) = wk_tally wk"
  "wk_tally (wk\<lparr>wk_now := t\<rparr>) = wk_tally wk" "wk_tally (wk\<lparr>wk_after_overflow := b\<rparr>) = wk_tally wk"
  "wk_tally (failed_walk cx c reason is_sticky why status l wk) = wk_tally wk"
  "wk_tally (overflowed_walk cx c reason is_sticky refused status l wk) = wk_tally wk"
  "wk_tally (fresh_walk p wk) = wk_tally wk" "wk_tally (set_fallback ft wk) = wk_tally wk"
  "\<not> is_counted m \<Longrightarrow> \<not> is_finished m \<Longrightarrow> wk_tally (wk_log m wk) = wk_tally wk"
  by (simp_all add: wk_tally_def drop_lease_def drop_reservation_def record_attempt_def failed_walk_def
      overflowed_walk_def fresh_walk_def set_fallback_def wk_log_def Let_def split: option.splits)

lemma attempt_one_tally: "tally (snd (snd (snd (attempt_one ex e headers rid n request t aw sh)))) = tally sh"
  by (simp add: attempt_one_def Let_def case_prod_unfold split: option.splits upstream_result.splits)

lemma send_attempt_tally:
  assumes "send_attempt cx index c n wk = (result, l, wk')"
  shows "wk_tally wk' = wk_tally wk" "result = None \<Longrightarrow> cx_budget cx \<noteq> None"
proof -
  obtain l1 wk1 where slot: "take_slot index c wk = (l1, wk1)" by fastforce
  have "wk_tally wk1 = wk_tally wk"
    using slot wk_tally_simps(2) [of wk]
    by (auto simp: take_slot_def Let_def case_prod_unfold wk_tally_def drop_reservation_def drop_lease_def
        split: option.splits nat.splits)
  then show "wk_tally wk' = wk_tally wk" "result = None \<Longrightarrow> cx_budget cx \<noteq> None"
    using assms slot
    by (auto simp: send_attempt_def Let_def case_prod_unfold wk_tally_def attempt_one_tally bound_def split: option.splits)
qed

text \<open>How a route attempt changes the tally: a committed answer is counted, and its trace finished unless it
  is a stream; anything else counts nothing yet. The budget ends a route only if there is one.\<close>

definition end_tally :: "request_budget option \<Rightarrow> walk \<Rightarrow> route_end \<Rightarrow> bool" where
  "end_tally budget wk e \<longleftrightarrow>
    (case e of
       RouteCommitted _ held wk' \<Rightarrow>
         tally (wk_shared wk') = (fst (tally (wk_shared wk)) + 1,
           snd (tally (wk_shared wk)) + (if held = None then 1 else 0))
     | RouteFailed _ wk' \<Rightarrow> wk_tally wk' = wk_tally wk
     | RouteBudgetExhausted _ wk' \<Rightarrow> wk_tally wk' = wk_tally wk \<and> budget \<noteq> None)"

lemma tracker_finish_tally:
  "tally (snd (tracker_finish now status out tk sh)) =
    (fst (tally sh), snd (tally sh) + (if tk_finished tk then 0 else 1))"
  by (simp add: tracker_finish_def Let_def observe_route_def)

lemma committing_tally:
  "tally (snd (committing cx c reason answer wk)) = (fst (tally (wk_shared wk)) + 1, snd (tally (wk_shared wk)))"
  "tk_finished (fst (committing cx c reason answer wk)) = tk_finished (wk_tracker wk)"
proof -
  have "tally (settle_affinity key planned failed d t sh) = tally sh" for key planned failed d t sh
    by (simp add: settle_affinity_def Let_def split: option.splits)
  then show "tally (snd (committing cx c reason answer wk)) = (fst (tally (wk_shared wk)) + 1, snd (tally (wk_shared wk)))"
    by (simp add: committing_def Let_def split: option.splits)
  show "tk_finished (fst (committing cx c reason answer wk)) = tk_finished (wk_tracker wk)"
    by (simp add: committing_def Let_def)
qed

lemma commit_attempt_tally:
  assumes "\<not> tk_finished (wk_tracker wk)"
  shows "end_tally budget wk (commit_attempt cx c reason answer status l wk)"
proof -
  let ?wk = "record_attempt cx c reason AttemptCommitted status wk"
  obtain tk sh where com: "committing cx c reason answer ?wk = (tk, sh)" by fastforce
  have one: "tally sh = (fst (tally (wk_shared wk)) + 1, snd (tally (wk_shared wk)))" "\<not> tk_finished tk"
    using committing_tally [of cx c reason answer ?wk] com assms wk_tally_simps(3) [of cx c reason AttemptCommitted status wk]
    by (simp_all add: wk_tally_def)
  obtain response held tk' sh' where
    c: "commit (cx_ext cx) (rt_name (cx_route cx)) answer l (wk_now ?wk) tk sh = (response, held, tk', sh')"
    by (metis surj_pair)
  then have "tally sh' = (fst (tally sh), snd (tally sh) + (if held = None then 1 else 0))"
    using one(2)
    by (auto simp: commit_def Let_def case_prod_unfold tracker_finish_tally
        split: committed_answer.splits option.splits if_splits)
  with one have "tally sh' = (fst (tally (wk_shared wk)) + 1, snd (tally (wk_shared wk)) + (if held = None then 1 else 0))" by simp
  moreover have "tally (wk_shared (drop_reservation w)) = tally (wk_shared w)" for w
    using wk_tally_simps(2) [of w] by (simp add: wk_tally_def)
  ultimately show ?thesis by (simp add: commit_attempt_def Let_def com c end_tally_def)
qed

definition step_tally :: "request_budget option \<Rightarrow> walk \<Rightarrow> walk + route_end \<Rightarrow> bool" where
  "step_tally budget wk res \<longleftrightarrow> (case res of Inl wk' \<Rightarrow> wk_tally wk' = wk_tally wk | Inr e \<Rightarrow> end_tally budget wk e)"

lemma end_tally_cong: "wk_tally wk1 = wk_tally wk2 \<Longrightarrow> end_tally budget wk1 e = end_tally budget wk2 e"
  by (auto simp: end_tally_def wk_tally_def split: route_end.splits)

lemma finish_walk_tally [simp]: "end_tally budget wk (finish_walk cx wk)"
  by (simp add: finish_walk_def end_tally_def Let_def split: option.splits)

lemma go_on_tally:
  assumes "list_all (\<lambda>m. \<not> is_counted m \<and> \<not> is_finished m) moves"
  shows "step_tally (cx_budget cx) wk (go_on cx rest moves wk)"
proof -
  have "wk_tally (fold wk_log moves w) = wk_tally w" for w
    using assms by (induction moves arbitrary: w) simp_all
  then show ?thesis by (auto simp: go_on_def step_tally_def end_tally_def expired_def split: option.splits)
qed

lemma after_attempt_tally:
  assumes "\<not> tk_finished (wk_tracker wk)" "result = None \<Longrightarrow> cx_budget cx \<noteq> None"
  shows "step_tally (cx_budget cx) wk (after_attempt cx c reason is_sticky rest result l wk)"
proof (cases result)
  case None
  with assms show ?thesis by (simp add: after_attempt_def step_tally_def end_tally_def)
next
  case (Some r)
  obtain a status where r: "r = (a, status)" by fastforce
  have cong: "step_tally budget wk = step_tally budget wk1" if "wk_tally wk = wk_tally wk1" for wk wk1 budget
    using that end_tally_cong [OF that] by (intro ext) (auto simp: step_tally_def split: sum.splits)
  show ?thesis
  proof (cases a)
    case (Commits answer)
    with Some r commit_attempt_tally [OF assms(1)] show ?thesis by (simp add: after_attempt_def step_tally_def)
  next
    case (Next why)
    let ?wk = "failed_walk cx c reason is_sticky why status l wk"
    have "step_tally (cx_budget cx) ?wk (after_failure cx c reason is_sticky rest why status l wk)"
      by (simp add: after_failure_def Let_def go_on_tally) (simp add: step_tally_def)
    with Some r Next cong [of ?wk wk] show ?thesis by (simp add: after_attempt_def)
  next
    case (ContextOverflow refused)
    let ?wk = "(overflowed_walk cx c reason is_sticky refused status l wk)\<lparr>wk_after_overflow := True\<rparr>"
    have "end_tally (cx_budget cx) ?wk (finish_walk cx (overflowed_walk cx c reason is_sticky refused status l wk))"
      using end_tally_cong [of ?wk "overflowed_walk cx c reason is_sticky refused status l wk"] by simp
    then have "step_tally (cx_budget cx) ?wk (after_overflow cx c reason is_sticky rest refused status l wk)"
      by (simp add: after_overflow_def Let_def go_on_tally) (simp add: step_tally_def)
    with Some r ContextOverflow cong [of ?wk wk] show ?thesis by (simp add: after_attempt_def)
  qed
qed

lemma walk_tally_ok:
  assumes "\<not> tk_finished (wk_tracker wk)"
  shows "end_tally (cx_budget cx) wk (walk_candidates cx cs wk)"
proof (rule walk_invariant [where keeps = "\<lambda>w. wk_tally w = wk_tally wk"
      and good = "\<lambda>e. end_tally (cx_budget cx) wk e"])
  fix index c rest w
  assume w: "wk_tally w = wk_tally wk"
  with assms have open_w: "\<not> tk_finished (wk_tracker w)" by (simp add: wk_tally_def)
  have "step_tally (cx_budget cx) w (walk_step cx index c rest w)"
  proof (cases rule: walk_step_cases [of cx index c rest w])
    case (sent wk1 n reason is_sticky result l wk2)
    note kept = send_attempt_tally [OF sent(5)]
    have "\<not> tk_finished (wk_tracker wk2)" using kept(1) sent(1) open_w by (simp add: wk_tally_def)
    from after_attempt_tally [OF this kept(2)] sent(6)
    have "step_tally (cx_budget cx) wk2 (walk_step cx index c rest w)" by simp
    moreover have "wk_tally wk2 = wk_tally w" using kept(1) sent(1) by simp
    ultimately show ?thesis
      using end_tally_cong [of wk2 w] by (auto simp: step_tally_def split: sum.splits)
  next
    case (refused wk1)
    then show ?thesis by (auto simp: step_tally_def end_tally_def expired_def split: option.splits)
  qed (simp_all add: step_tally_def)
  with w end_tally_cong [OF w] show "case walk_step cx index c rest w of Inl wk' \<Rightarrow> wk_tally wk' = wk_tally wk
      | Inr e \<Rightarrow> end_tally (cx_budget cx) wk e"
    by (auto simp: step_tally_def split: sum.splits)
next
  fix w
  assume "wk_tally w = wk_tally wk"
  from end_tally_cong [OF this] show "end_tally (cx_budget cx) wk (finish_walk cx w)" by (metis finish_walk_tally)
qed simp


lemma attempt_route_tally:
  assumes "\<not> tk_finished (wk_tracker wk)"
  shows "end_tally (rc_budget rq) wk (attempt_route rq r wk)"
proof (cases rule: attempt_route_cases [of rq r wk])
  case (unplanned failure wk1)
  then have "wk_tally wk1 = wk_tally wk" by (simp add: wk_tally_def tally_def)
  with unplanned(1) show ?thesis by (auto simp: planning_failed_def end_tally_def split: routing_failure.splits)
next
  case (planned cx p wk1 hit)
  have "filter is_counted hit = []" "filter is_finished hit = []"
    using planned(9) by (auto simp: filter_empty_conv)
  then have same: "wk_tally wk1 = wk_tally wk" using planned(7,8) by (simp add: wk_tally_def tally_def)
  then have "\<not> tk_finished (wk_tracker wk1)" using assms by (simp add: wk_tally_def)
  from walk_tally_ok [OF this, of cx] end_tally_cong [OF same] planned(1,2) show ?thesis
    by (simp add: context_for_def)
qed

definition request_tally :: "walk \<Rightarrow> request_end \<Rightarrow> bool" where
  "request_tally wk e \<longleftrightarrow> tally (wk_shared (snd (snd e))) =
    (fst (tally (wk_shared wk)) + 1, snd (tally (wk_shared wk)) + (if fst (snd e) = None then 1 else 0))"

lemma request_tally_cong: "wk_tally wk1 = wk_tally wk2 \<Longrightarrow> request_tally wk1 e = request_tally wk2 e"
  by (simp add: request_tally_def wk_tally_def)

lemma conclude_tally: "\<not> tk_finished (wk_tracker wk) \<Longrightarrow> request_tally wk (conclude failure wk)"
  by (simp add: conclude_def request_tally_def Let_def case_prod_unfold tracker_finish_tally)

lemma exhaust_tally:
  "\<not> tk_finished (wk_tracker wk) \<Longrightarrow> tk_budget (wk_tracker wk) \<noteq> None \<Longrightarrow> request_tally wk (exhaust st nxt wk)"
  by (auto simp: exhaust_def request_tally_def Let_def case_prod_unfold tracker_finish_tally)

lemma conclude_chain_tally:
  assumes "\<not> tk_finished (wk_tracker wk)"
  shows "request_tally wk (conclude_chain initial hops failure wk)"
proof (cases "hops = []")
  case True
  with conclude_tally [OF assms] show ?thesis by (simp add: conclude_chain_def)
next
  case False
  obtain ft wk1 where end_wk: "conclude_chain initial hops failure wk = conclude failure (set_fallback ft wk1)"
    and wk1: "wk_tally wk1 = wk_tally wk"
    using False by (cases "fl_reason failure") (auto simp: conclude_chain_def Let_def)
  have "\<not> tk_finished (wk_tracker (set_fallback ft wk1))"
    using assms wk1 by (simp add: set_fallback_def wk_tally_def)
  from conclude_tally [OF this] end_wk wk1 request_tally_cong [of "set_fallback ft wk1" wk] show ?thesis by simp
qed

lemma exhaust_tracker_tally:
  assumes "\<not> tk_finished (wk_tracker wk)" "tk_budget (wk_tracker wk) \<noteq> None"
    and "tk_finished tk = tk_finished (wk_tracker wk)" "tk_budget tk = tk_budget (wk_tracker wk)"
  shows "request_tally wk (exhaust st nxt (wk\<lparr>wk_tracker := tk\<rparr>))"
proof -
  have "request_tally (wk\<lparr>wk_tracker := tk\<rparr>) (exhaust st nxt (wk\<lparr>wk_tracker := tk\<rparr>))"
    by (rule exhaust_tally) (use assms in simp_all)
  moreover have "wk_tally (wk\<lparr>wk_tracker := tk\<rparr>) = wk_tally wk" using assms(3,4) by (simp add: wk_tally_def)
  ultimately show ?thesis using request_tally_cong by blast
qed

lemma budget_stopped_tally:
  assumes "\<not> tk_finished (wk_tracker wk)" "tk_budget (wk_tracker wk) \<noteq> None"
  shows "request_tally wk (budget_stopped rq r on_fallback before_first wk)"
proof (cases on_fallback)
  case True
  then show ?thesis
    by (simp add: budget_stopped_def Let_def)
      (intro conjI impI exhaust_tracker_tally [OF assms]; simp split: option.splits)
next
  case False
  with exhaust_tally [OF assms] show ?thesis
    by (simp add: budget_stopped_def) (intro impI exhaust_tracker_tally [OF assms]; simp add: unattempted_def)
qed

lemma next_refused_tally:
  assumes "\<not> tk_finished (wk_tracker wk)" "tk_budget (wk_tracker wk) \<noteq> None"
  shows "request_tally wk (next_refused initial nxt hops failure reason wk)"
  unfolding next_refused_def Let_def set_fallback_def
  by (simp, rule exhaust_tracker_tally [OF assms]) simp_all

lemma move_on_tally [simp]: "wk_tally (move_on rq initial nxt hops failure reason wk) = wk_tally wk"
  by (simp add: move_on_def Let_def) (simp add: wk_tally_def observe_route_def retarget_def)


lemma route_chain_tally:
  assumes "\<not> tk_finished (wk_tracker wk)" "tk_budget (wk_tracker wk) = rc_budget rq"
  shows "request_tally wk (route_chain rq initial r plan hops wk)"
  using assms
proof (induction plan arbitrary: r hops wk)
  case Nil
  note tally = attempt_route_tally [OF Nil(1), of rq r]
  show ?case
  proof (cases "attempt_route rq r wk")
    case (RouteCommitted response held wk1)
    with tally show ?thesis by (simp add: end_tally_def request_tally_def)
  next
    case (RouteFailed failure wk1)
    with tally have same: "wk_tally wk1 = wk_tally wk" by (simp add: end_tally_def)
    then have "\<not> tk_finished (wk_tracker wk1)" using Nil by (simp add: wk_tally_def)
    from conclude_chain_tally [OF this] RouteFailed request_tally_cong [OF same] show ?thesis by simp
  next
    case (RouteBudgetExhausted b wk1)
    with tally have same: "wk_tally wk1 = wk_tally wk" "rc_budget rq \<noteq> None" by (simp_all add: end_tally_def)
    then have "\<not> tk_finished (wk_tracker wk1)" "tk_budget (wk_tracker wk1) \<noteq> None"
      using Nil by (simp_all add: wk_tally_def)
    from budget_stopped_tally [OF this] RouteBudgetExhausted request_tally_cong [OF same(1)] show ?thesis by simp
  qed
next
  case (Cons name left)
  note tally = attempt_route_tally [OF Cons.prems(1), of rq r]
  show ?case
  proof (cases "attempt_route rq r wk")
    case (RouteCommitted response held wk1)
    with tally show ?thesis by (simp add: end_tally_def request_tally_def)
  next
    case (RouteBudgetExhausted b wk1)
    with tally have same: "wk_tally wk1 = wk_tally wk" "rc_budget rq \<noteq> None" by (simp_all add: end_tally_def)
    then have "\<not> tk_finished (wk_tracker wk1)" "tk_budget (wk_tracker wk1) \<noteq> None"
      using Cons.prems by (simp_all add: wk_tally_def)
    from budget_stopped_tally [OF this] RouteBudgetExhausted request_tally_cong [OF same(1)] show ?thesis by simp
  next
    case (RouteFailed failure wk1)
    with tally have same: "wk_tally wk1 = wk_tally wk" by (simp add: end_tally_def)
    then have wk1: "\<not> tk_finished (wk_tracker wk1)" "tk_budget (wk_tracker wk1) = rc_budget rq"
      using Cons.prems by (simp_all add: wk_tally_def)
    have concluded: "request_tally wk (conclude_chain initial hops failure wk1)"
      using conclude_chain_tally [OF wk1(1)] request_tally_cong [OF same] by simp
    have refused: "request_tally wk (next_refused initial nxt hops failure reason wk1)"
      if "expired (wk_now wk1) (rc_budget rq)" for nxt reason
      using next_refused_tally [OF wk1(1)] wk1(2) that request_tally_cong [OF same] by (auto simp: expired_def split: option.splits)
    have moved: "request_tally wk (route_chain rq initial nxt left hops' (move_on rq initial nxt hops' failure reason wk1))"
      for nxt hops' reason
    proof -
      let ?wk2 = "move_on rq initial nxt hops' failure reason wk1"
      have "wk_tally ?wk2 = wk_tally wk1" by simp
      then have "\<not> tk_finished (wk_tracker ?wk2)" "tk_budget (wk_tracker ?wk2) = rc_budget rq"
        using wk1 by (simp_all add: wk_tally_def)
      from Cons.IH [OF this] request_tally_cong [of ?wk2 wk] same show ?thesis by simp
    qed
    from RouteFailed concluded refused moved show ?thesis by (simp split: option.splits)
  qed
qed

text \<open>Over all its deployment attempts and fallback routes a routed request makes one increment of the request
  counter and one finished trace; only a committed stream leaves its trace to be finished when the stream ends.\<close>

lemma forward_routed_tally:
  assumes "\<not> tk_finished (wk_tracker wk)" "tk_budget (wk_tracker wk) = rc_budget rq"
  shows "request_tally wk (forward_routed rq cs r wk)"
proof (cases "expired (wk_now wk) (rc_budget rq)")
  case True
  then have "tk_budget (wk_tracker wk) \<noteq> None" using assms(2) by (auto simp: expired_def split: option.splits)
  with True show ?thesis
    by (simp add: forward_routed_def) (rule exhaust_tracker_tally [OF assms(1)]; simp add: unattempted_def)
next
  case False
  with route_chain_tally [OF assms] show ?thesis by (simp add: forward_routed_def)
qed

end
