(* ===== verification/Router_Proxy_Chain.thy ===== *)
theory Router_Proxy_Chain
  imports Router_Proxy_Order
begin

text \<open>
  The chain of routes of one request: which routes are tried, in which order, and what the trace says of
  them.
\<close>

section \<open>One route\<close>

text \<open>A stretch of the walk that stays on one route: the attempts it adds are on that route, and the trace
  of the chain is left alone.\<close>

definition on_route :: "ustr \<Rightarrow> walk \<Rightarrow> walk \<Rightarrow> bool" where
  "on_route name wk wk' \<longleftrightarrow> tk_fallback (wk_tracker wk') = tk_fallback (wk_tracker wk)
    \<and> (\<exists>new. attempts_of wk' = attempts_of wk @ new \<and> list_all (\<lambda>t. at_route t = name) new)"

lemma on_route_refl [simp]: "on_route name wk wk"
  by (simp add: on_route_def)

lemma on_route_trans: "on_route name wk wk1 \<Longrightarrow> on_route name wk1 wk2 \<Longrightarrow> on_route name wk wk2"
  by (fastforce simp: on_route_def)

lemma on_route_same [simp]:
  "on_route name wk (drop_lease l wk') = on_route name wk wk'"
  "on_route name wk (drop_reservation wk') = on_route name wk wk'"
  "on_route name wk (wk_log m wk') = on_route name wk wk'"
  "on_route name wk (wk'\<lparr>wk_after_overflow := b\<rparr>) = on_route name wk wk'"
  "on_route name wk (wk'\<lparr>wk_now := t\<rparr>) = on_route name wk wk'"
  by (simp_all add: on_route_def) (simp_all add: drop_lease_def drop_reservation_def wk_log_def split: option.splits)

lemma on_route_fold_log [simp]: "on_route name wk (fold wk_log ms wk') = on_route name wk wk'"
  by (induction ms arbitrary: wk') simp_all

lemma on_route_record:
  "on_route (rt_name (cx_route cx)) wk (record_attempt cx c reason res status wk)"
  "on_route (rt_name (cx_route cx)) wk (failed_walk cx c reason is_sticky why status l wk)"
  "on_route (rt_name (cx_route cx)) wk (overflowed_walk cx c reason is_sticky refused status l wk)"
  by (simp_all add: on_route_def)
    (simp_all add: record_attempt_def failed_walk_def overflowed_walk_def drop_lease_def Let_def)

lemma tracker_finish_fallback [simp]:
  "tk_fallback (fst (tracker_finish now status out tk sh)) = tk_fallback tk"
  by (simp add: tracker_finish_def Let_def)

lemma on_route_commit:
  "on_route (rt_name (cx_route cx)) wk (end_walk (commit_attempt cx c reason answer status l wk))"
proof -
  let ?wk = "record_attempt cx c reason AttemptCommitted status wk"
  obtain response held wk' where end_wk: "commit_attempt cx c reason answer status l wk = RouteCommitted response held wk'"
      and attempts: "attempts_of wk' = attempts_of ?wk"
    using commit_attempt_attempts by blast
  have "tk_fallback (fst (committing cx c reason answer w)) = tk_fallback (wk_tracker w)" for w
    by (simp add: committing_def Let_def)
  moreover have "tk_fallback (fst (snd (snd (commit ex rt answer l now tk sh)))) = tk_fallback tk" for ex rt now tk sh
    by (simp add: commit_def Let_def case_prod_unfold split: committed_answer.splits option.splits)
  ultimately have "tk_fallback (wk_tracker wk') = tk_fallback (wk_tracker ?wk)"
    using end_wk by (auto simp: commit_attempt_def Let_def case_prod_unfold drop_reservation_def drop_lease_def
        split: option.splits)
  with attempts end_wk on_route_record(1) [of cx wk c reason AttemptCommitted status] show ?thesis
    by (simp add: end_walk_def on_route_def)
qed

lemma finish_walk_route [simp]: "on_route name wk (end_walk (finish_walk cx wk)) "
  by (simp add: finish_walk_def end_walk_def Let_def split: option.splits)

lemma after_attempt_route:
  "on_route (rt_name (cx_route cx)) wk (step_walk (after_attempt cx c reason is_sticky rest result l wk))"
proof -
  have go: "on_route name wk (step_walk (go_on cx rest moves w)) = on_route name wk w" for name moves w
    by (simp add: go_on_def step_walk_def end_walk_def)
  show ?thesis
  proof (cases result)
    case None
    with on_route_record show ?thesis by (simp add: after_attempt_def step_walk_def end_walk_def)
  next
    case (Some r)
    obtain a status where r: "r = (a, status)" by fastforce
    show ?thesis
    proof (cases a)
      case (Commits answer)
      with on_route_commit Some r show ?thesis by (simp add: after_attempt_def step_walk_def)
    next
      case (Next why)
      with on_route_record(2) Some r show ?thesis
        by (simp add: after_attempt_def after_failure_def Let_def go) (simp add: step_walk_def)
    next
      case (ContextOverflow refused)
      let ?wk = "overflowed_walk cx c reason is_sticky refused status l wk"
      have "on_route (rt_name (cx_route cx)) wk (end_walk (finish_walk cx ?wk))"
        by (rule on_route_trans [OF on_route_record(3) finish_walk_route])
      with ContextOverflow on_route_record(3) Some r show ?thesis
        by (simp add: after_attempt_def after_overflow_def Let_def go) (simp add: step_walk_def)
    qed
  qed
qed

text \<open>How a route attempt ends: on its own route, and a failure names it.\<close>

definition ends_on :: "ustr \<Rightarrow> walk \<Rightarrow> route_end \<Rightarrow> bool" where
  "ends_on name wk e \<longleftrightarrow> on_route name wk (end_walk e)
    \<and> (\<forall>failure wk'. e = RouteFailed failure wk' \<longrightarrow> fl_route failure = name)"

lemma finish_walk_ends: "ends_on (rt_name (cx_route cx)) wk (finish_walk cx wk)"
proof -
  have "fl_route failure = rt_name (cx_route cx)" if "finish_walk cx wk = RouteFailed failure wk'" for failure wk'
    using that by (auto simp: finish_walk_def Let_def split: option.splits)
  then show ?thesis by (simp add: ends_on_def)
qed

lemma after_attempt_failed:
  assumes "after_attempt cx c reason is_sticky rest result l wk = Inr (RouteFailed failure wk')"
  shows "fl_route failure = rt_name (cx_route cx)"
proof -
  have "commit_attempt cx c reason answer status l wk \<noteq> RouteFailed failure wk'" for answer status
    using commit_attempt_attempts [of cx c reason answer status l wk] by auto
  moreover have "fl_route failure = rt_name (cx_route cx)" if "finish_walk cx w = RouteFailed failure wk'" for w
    using that finish_walk_ends [of cx w] by (simp add: ends_on_def)
  ultimately show ?thesis using assms
    by (auto simp: after_attempt_def after_failure_def after_overflow_def go_on_def Let_def
        split: option.splits attempt.splits if_splits prod.splits)
qed

lemma walk_ends: "ends_on (rt_name (cx_route cx)) wk (walk_candidates cx cs wk)"
proof (rule walk_invariant [where keeps = "on_route (rt_name (cx_route cx)) wk"])
  fix index c rest w
  assume w: "on_route (rt_name (cx_route cx)) wk w"
  show "case walk_step cx index c rest w of Inl wk' \<Rightarrow> on_route (rt_name (cx_route cx)) wk wk'
      | Inr e \<Rightarrow> ends_on (rt_name (cx_route cx)) wk e"
  proof (cases rule: walk_step_cases [of cx index c rest w])
    case stop
    with finish_walk_ends [of cx w] w show ?thesis by (auto simp: ends_on_def intro: on_route_trans)
  next
    case (refused wk1)
    with w show ?thesis by (simp add: ends_on_def end_walk_def)
  next
    case (sent wk1 n reason is_sticky result l wk2)
    have "wk_tracker wk2 = wk_tracker w" using send_attempt_keeps [OF sent(5)] sent(1) by simp
    with w have "on_route (rt_name (cx_route cx)) wk wk2" by (simp add: on_route_def attempts_of_def)
    from on_route_trans [OF this after_attempt_route] sent(6)
    have "on_route (rt_name (cx_route cx)) wk (step_walk (walk_step cx index c rest w))" by simp
    with after_attempt_failed sent(6) show ?thesis
      by (auto simp: ends_on_def step_walk_def split: sum.splits)
  qed (use w in simp)
next
  fix w
  assume "on_route (rt_name (cx_route cx)) wk w"
  with finish_walk_ends [of cx w] show "ends_on (rt_name (cx_route cx)) wk (finish_walk cx w)"
    by (auto simp: ends_on_def intro: on_route_trans)
qed simp

lemma attempt_route_ends: "ends_on (rt_name r) wk (attempt_route rq r wk)"
proof (cases rule: attempt_route_cases [of rq r wk])
  case (unplanned failure wk1)
  then show ?thesis
    by (auto simp: planning_failed_def ends_on_def end_walk_def on_route_def attempts_of_def wk_log_def
        split: routing_failure.splits)
next
  case (planned cx p wk1 hit)
  from walk_ends [of cx wk1] planned(1,3,7) show ?thesis by (simp add: ends_on_def on_route_def attempts_of_def)
qed

section \<open>The chain\<close>

definition fallback_of :: "walk \<Rightarrow> fallback_trace option" where
  "fallback_of wk = tk_fallback (wk_tracker wk)"

fun failed_for_fallback :: "hop \<Rightarrow> bool" where
  "failed_for_fallback h \<longleftrightarrow> hp_outcome h = HopFailed \<and> (\<exists>why. hp_reason h = Some (ForFallback why))"

text \<open>What the trace says of the routes: the initial one and those of the plan, in the plan's order and
  without a gap; all but the last failed for a reason that a fallback is for.\<close>

definition trace_follows :: "ustr list \<Rightarrow> fallback_trace \<Rightarrow> bool" where
  "trace_follows plan ft \<longleftrightarrow> prefix (map hp_route (ft_attempts ft)) plan \<and> ft_attempts ft \<noteq> []
    \<and> ft_initial ft = hd plan \<and> ft_final ft = hp_route (last (ft_attempts ft))
    \<and> list_all failed_for_fallback (butlast (ft_attempts ft))"

definition chain_follows :: "ustr list \<Rightarrow> walk \<Rightarrow> walk \<Rightarrow> bool" where
  "chain_follows plan wk wk' \<longleftrightarrow>
    (\<exists>new. attempts_of wk' = attempts_of wk @ new \<and> subseq (remdups_adj (map at_route new)) plan)
    \<and> (case fallback_of wk' of
         None \<Rightarrow> \<exists>new. attempts_of wk' = attempts_of wk @ new \<and> list_all (\<lambda>t. at_route t = hd plan) new
       | Some ft \<Rightarrow> trace_follows plan ft)"

text \<open>The state between two routes of the chain.\<close>

definition chain_at :: "route \<Rightarrow> hop list \<Rightarrow> ustr \<Rightarrow> walk \<Rightarrow> bool" where
  "chain_at initial hops name wk \<longleftrightarrow> list_all failed_for_fallback hops
    \<and> fallback_of wk = (if hops = [] then None
        else Some \<lparr>ft_initial = rt_name initial, ft_final = name, ft_exhausted = False,
               ft_attempts = hops @ [\<lparr>hp_route = name, hp_outcome = HopCommitted, hp_reason = None\<rparr>]\<rparr>)"

lemma chain_simps [simp]:
  "attempts_of (set_fallback ft wk) = attempts_of wk" "fallback_of (set_fallback ft wk) = Some ft"
  "attempts_of (move_on rq initial nxt hops failure reason wk) = attempts_of wk"
  "fallback_of (move_on rq initial nxt hops failure reason wk) = Some \<lparr>ft_initial = rt_name initial,
     ft_final = rt_name nxt, ft_exhausted = False,
     ft_attempts = hops @ [\<lparr>hp_route = rt_name nxt, hp_outcome = HopCommitted, hp_reason = None\<rparr>]\<rparr>"
  "fallback_of (wk_log m wk) = fallback_of wk"
  by (simp_all add: set_fallback_def move_on_def retarget_def attempts_of_def fallback_of_def wk_log_def Let_def)

lemma ending_simps [simp]:
  "attempts_of (snd (snd (exhaust st nxt wk))) = attempts_of wk"
  "fallback_of (snd (snd (exhaust st nxt wk))) = fallback_of wk"
  "attempts_of (snd (snd (conclude failure wk))) = attempts_of wk"
  "fallback_of (snd (snd (conclude failure wk))) = fallback_of wk"
  by (simp_all add: exhaust_def conclude_def attempts_of_def fallback_of_def Let_def case_prod_unfold split: option.splits)

lemma conclude_chain_follows:
  assumes "chain_at initial hops name wk" "fl_route failure = name"
  shows "attempts_of (snd (snd (conclude_chain initial hops failure wk))) = attempts_of wk"
    and "fallback_of (snd (snd (conclude_chain initial hops failure wk))) =
      (if hops = [] then None
       else Some \<lparr>ft_initial = rt_name initial, ft_final = name, ft_exhausted = (fl_reason failure \<noteq> None),
         ft_attempts = hops @ [\<lparr>hp_route = name, hp_outcome = HopFailed,
           hp_reason = (case fl_reason failure of Some r \<Rightarrow> Some (ForFallback r)
             | None \<Rightarrow> if tk_too_small (wk_tracker wk) \<noteq> None then Some ForOverflow else None)\<rparr>]\<rparr>)"
  using assms by (auto simp: conclude_chain_def chain_at_def Let_def split: option.splits)

lemma budget_stopped_follows:
  assumes "chain_at initial hops name wk"
  shows "attempts_of (snd (snd (budget_stopped rq r (hops \<noteq> []) before_first wk))) = attempts_of wk"
    and "fallback_of (snd (snd (budget_stopped rq r (hops \<noteq> []) before_first wk))) =
      (if hops = [] then None
       else Some \<lparr>ft_initial = rt_name initial, ft_final = name, ft_exhausted = False,
         ft_attempts = hops @ [\<lparr>hp_route = name, hp_outcome = HopFailed, hp_reason = Some ForBudget\<rparr>]\<rparr>)"
proof -
  have set_tracker: "attempts_of (wk\<lparr>wk_tracker := tk\<rparr>) = tk_attempts tk"
    "fallback_of (wk\<lparr>wk_tracker := tk\<rparr>) = tk_fallback tk" for tk
    by (simp_all add: attempts_of_def fallback_of_def)
  note traced = assms [unfolded chain_at_def fallback_of_def, THEN conjunct2]
  show "attempts_of (snd (snd (budget_stopped rq r (hops \<noteq> []) before_first wk))) = attempts_of wk"
    by (simp add: budget_stopped_def Let_def unattempted_def set_tracker attempts_of_def [of wk] split: option.splits)
  show "fallback_of (snd (snd (budget_stopped rq r (hops \<noteq> []) before_first wk))) =
      (if hops = [] then None
       else Some \<lparr>ft_initial = rt_name initial, ft_final = name, ft_exhausted = False,
         ft_attempts = hops @ [\<lparr>hp_route = name, hp_outcome = HopFailed, hp_reason = Some ForBudget\<rparr>]\<rparr>)"
    by (simp add: budget_stopped_def Let_def unattempted_def set_tracker traced fallback_of_def [of wk])
qed

lemma next_refused_follows:
  "attempts_of (snd (snd (next_refused initial nxt hops failure reason wk))) = attempts_of wk"
  "fallback_of (snd (snd (next_refused initial nxt hops failure reason wk))) =
     Some \<lparr>ft_initial = rt_name initial, ft_final = fl_route failure, ft_exhausted = False,
             ft_attempts = hops @ [failed_hop failure reason]\<rparr>"
  by (simp_all add: next_refused_def Let_def) (simp add: attempts_of_def)

lemma subseq_remdups_adj_append:
  assumes "list_all (\<lambda>x. x = a) xs" "subseq (remdups_adj ys) zs"
  shows "subseq (remdups_adj (xs @ ys)) (a # zs)"
  using assms(1)
proof (induction xs)
  case Nil
  with assms(2) show ?case by (simp add: list_emb_Cons)
next
  case (Cons x xs)
  then have IH: "subseq (remdups_adj (xs @ ys)) (a # zs)" by simp
  show ?case
  proof (cases xs)
    case Nil
    with Cons.prems assms(2) show ?thesis by (cases ys) auto
  next
    case (Cons y xs')
    with Cons.prems IH show ?thesis by simp
  qed
qed

text \<open>Where the chain ends, seen from the route it is at: \<open>left\<close> are the routes of the plan after it.\<close>

definition chain_ends :: "route \<Rightarrow> hop list \<Rightarrow> ustr \<Rightarrow> ustr list \<Rightarrow> walk \<Rightarrow> walk \<Rightarrow> bool" where
  "chain_ends initial hops name left wk wk' \<longleftrightarrow>
    (\<exists>new. attempts_of wk' = attempts_of wk @ new \<and> subseq (remdups_adj (map at_route new)) (name # left)
       \<and> (fallback_of wk' = None \<longrightarrow> list_all (\<lambda>t. at_route t = name) new))
    \<and> (\<forall>ft. fallback_of wk' = Some ft \<longrightarrow> ft_initial ft = rt_name initial
         \<and> prefix (map hp_route (ft_attempts ft)) (map hp_route hops @ name # left) \<and> ft_attempts ft \<noteq> []
         \<and> ft_final ft = hp_route (last (ft_attempts ft))
         \<and> list_all failed_for_fallback (butlast (ft_attempts ft)))"

lemma chain_ends_here:
  assumes "on_route name wk wk1" "list_all failed_for_fallback hops"
    and "attempts_of wk' = attempts_of wk1"
    and "fallback_of wk' = None \<or> (\<exists>out why exhausted. fallback_of wk' = Some \<lparr>ft_initial = rt_name initial,
        ft_final = name, ft_exhausted = exhausted,
        ft_attempts = hops @ [\<lparr>hp_route = name, hp_outcome = out, hp_reason = why\<rparr>]\<rparr>)"
  shows "chain_ends initial hops name left wk wk'"
proof -
  from assms(1,3) obtain new where new: "attempts_of wk' = attempts_of wk @ new" "list_all (\<lambda>t. at_route t = name) new"
    by (auto simp: on_route_def)
  have "subseq (remdups_adj (map at_route new @ [])) (name # left)"
    by (rule subseq_remdups_adj_append) (use new(2) in \<open>simp_all add: list_all_iff\<close>)
  with new assms(2,4) show ?thesis by (auto simp: chain_ends_def)
qed

lemma topology_route_name: "topology_route tp name = Some r \<Longrightarrow> rt_name r = name"
  by (auto simp: topology_route_def find_Some_iff)

lemma chain_at_end:
  assumes "chain_at initial hops (rt_name r) wk" "attempt_route rq r wk = e"
  shows "chain_at initial hops (rt_name r) (end_walk e)" "on_route (rt_name r) wk (end_walk e)"
  using assms attempt_route_ends [of r wk rq]
  by (auto simp: chain_at_def ends_on_def on_route_def fallback_of_def)

lemma route_committed_chain:
  assumes "chain_at initial hops (rt_name r) wk" "attempt_route rq r wk = RouteCommitted response held wk'"
  shows "chain_ends initial hops (rt_name r) left wk wk'"
  using chain_at_end [OF assms] by (intro chain_ends_here) (auto simp: end_walk_def chain_at_def)

lemma route_budget_chain:
  assumes "chain_at initial hops (rt_name r) wk" "attempt_route rq r wk = RouteBudgetExhausted before_first wk'"
  shows "chain_ends initial hops (rt_name r) left wk (snd (snd (budget_stopped rq r (hops \<noteq> []) before_first wk')))"
proof -
  have at: "chain_at initial hops (rt_name r) wk'" and on: "on_route (rt_name r) wk wk'"
    using chain_at_end [OF assms] by (simp_all add: end_walk_def)
  from on show ?thesis
    by (rule chain_ends_here)
      (use at in \<open>auto simp: chain_at_def budget_stopped_follows [OF at]\<close>)
qed

lemma route_failed_chain:
  assumes "chain_at initial hops (rt_name r) wk" "attempt_route rq r wk = RouteFailed failure wk'"
  shows "chain_at initial hops (rt_name r) wk'" "on_route (rt_name r) wk wk'" "fl_route failure = rt_name r"
    "chain_ends initial hops (rt_name r) left wk (snd (snd (conclude_chain initial hops failure wk')))"
    "chain_ends initial hops (rt_name r) left wk (snd (snd (next_refused initial nxt hops failure reason wk')))"
proof -
  show at: "chain_at initial hops (rt_name r) wk'" and on: "on_route (rt_name r) wk wk'"
    using chain_at_end [OF assms] by (simp_all add: end_walk_def)
  show name: "fl_route failure = rt_name r"
    using attempt_route_ends [of r wk rq] assms(2) by (simp add: ends_on_def)
  show "chain_ends initial hops (rt_name r) left wk (snd (snd (conclude_chain initial hops failure wk')))"
    by (rule chain_ends_here [OF on])
      (use at in \<open>auto simp: chain_at_def conclude_chain_follows [OF at name]\<close>)
  show "chain_ends initial hops (rt_name r) left wk (snd (snd (next_refused initial nxt hops failure reason wk')))"
    by (rule chain_ends_here [OF on])
      (use at in \<open>auto simp: chain_at_def next_refused_follows failed_hop_def name\<close>)
qed

lemma chain_ends_moved:
  assumes "on_route name wk wk1" "attempts_of wk2 = attempts_of wk1" "hp_route h = name"
    and "chain_ends initial (hops @ [h]) next left wk2 wk'" "fallback_of wk' \<noteq> None"
  shows "chain_ends initial hops name (next # left) wk wk'"
proof -
  from assms(1) obtain new1 where new1: "attempts_of wk1 = attempts_of wk @ new1" "list_all (\<lambda>t. at_route t = name) new1"
    by (auto simp: on_route_def)
  from assms(4) obtain new2 where new2: "attempts_of wk' = attempts_of wk2 @ new2"
    "subseq (remdups_adj (map at_route new2)) (next # left)" by (auto simp: chain_ends_def)
  have "subseq (remdups_adj (map at_route new1 @ map at_route new2)) (name # next # left)"
    by (rule subseq_remdups_adj_append [OF _ new2(2)]) (use new1(2) in \<open>simp add: list_all_iff\<close>)
  with new1(1) new2(1) assms(2) have "\<exists>new. attempts_of wk' = attempts_of wk @ new
      \<and> subseq (remdups_adj (map at_route new)) (name # next # left)"
    by (intro exI [of _ "new1 @ new2"]) simp
  with assms(3-5) show ?thesis by (auto simp: chain_ends_def)
qed

text \<open>Once the chain has left the initial route, the trace says so.\<close>

lemma route_chain_traced:
  assumes "chain_at initial hops (rt_name r) wk" "hops \<noteq> []"
  shows "fallback_of (snd (snd (route_chain rq initial r plan hops wk))) \<noteq> None"
  using assms
proof (induction plan arbitrary: r hops wk)
  case Nil
  show ?case
  proof (cases "attempt_route rq r wk")
    case (RouteCommitted response held wk1)
    with chain_at_end(1) [OF Nil(1) RouteCommitted] Nil(2) show ?thesis by (simp add: chain_at_def end_walk_def)
  next
    case (RouteFailed failure wk1)
    with conclude_chain_follows(2) [OF route_failed_chain(1,3) [OF Nil(1) RouteFailed]] Nil(2) show ?thesis by simp
  next
    case (RouteBudgetExhausted before_first wk1)
    with budget_stopped_follows(2) [of initial hops "rt_name r" wk1 rq r before_first]
      chain_at_end(1) [OF Nil(1) RouteBudgetExhausted] Nil(2) show ?thesis by (simp add: end_walk_def)
  qed
next
  case (Cons name left)
  show ?case
  proof (cases "attempt_route rq r wk")
    case (RouteCommitted response held wk1)
    with chain_at_end(1) [OF Cons.prems(1) RouteCommitted] Cons.prems(2) show ?thesis by (simp add: chain_at_def end_walk_def)
  next
    case (RouteBudgetExhausted before_first wk1)
    with budget_stopped_follows(2) [of initial hops "rt_name r" wk1 rq r before_first]
      chain_at_end(1) [OF Cons.prems(1) RouteBudgetExhausted] Cons.prems(2) show ?thesis by (simp add: end_walk_def)
  next
    case (RouteFailed failure wk1)
    note failed = route_failed_chain(1,3) [OF Cons.prems(1) RouteFailed]
    have moved: "fallback_of (snd (snd (route_chain rq initial nxt left (hops @ [failed_hop failure reason])
        (move_on rq initial nxt (hops @ [failed_hop failure reason]) failure reason wk1)))) \<noteq> None" for nxt reason
      by (rule Cons.IH) (use failed in \<open>simp_all add: chain_at_def failed_hop_def\<close>)
    with RouteFailed conclude_chain_follows(2) [OF failed] Cons.prems(2) next_refused_follows(2) show ?thesis
      by (auto split: option.splits)
  qed
qed

lemma route_chain_follows:
  assumes "chain_at initial hops (rt_name r) wk"
  shows "chain_ends initial hops (rt_name r) plan wk (snd (snd (route_chain rq initial r plan hops wk)))"
  using assms
proof (induction plan arbitrary: r hops wk)
  case Nil
  show ?case
  proof (cases "attempt_route rq r wk")
    case (RouteCommitted response held wk1)
    with route_committed_chain [OF Nil] show ?thesis by simp
  next
    case (RouteFailed failure wk1)
    with route_failed_chain(4) [OF Nil] show ?thesis by simp
  next
    case (RouteBudgetExhausted before_first wk1)
    with route_budget_chain [OF Nil] show ?thesis by simp
  qed
next
  case (Cons name left)
  show ?case
  proof (cases "attempt_route rq r wk")
    case (RouteCommitted response held wk1)
    with route_committed_chain [OF Cons.prems] show ?thesis by simp
  next
    case (RouteBudgetExhausted before_first wk1)
    with route_budget_chain [OF Cons.prems] show ?thesis by simp
  next
    case (RouteFailed failure wk1)
    note failed = route_failed_chain [OF Cons.prems RouteFailed]
    have moved: "chain_ends initial hops (rt_name r) (name # left) wk
        (snd (snd (route_chain rq initial nxt left (hops @ [failed_hop failure reason])
          (move_on rq initial nxt (hops @ [failed_hop failure reason]) failure reason wk1))))"
      if "topology_route (rc_topology rq) name = Some nxt" for nxt reason
    proof -
      let ?hops = "hops @ [failed_hop failure reason]"
      let ?wk2 = "move_on rq initial nxt ?hops failure reason wk1"
      have at: "chain_at initial ?hops (rt_name nxt) ?wk2"
        using failed(1,3) by (simp add: chain_at_def failed_hop_def)
      have "chain_ends initial ?hops name left ?wk2 (snd (snd (route_chain rq initial nxt left ?hops ?wk2)))"
        using Cons.IH [OF at] topology_route_name [OF that] by simp
      from chain_ends_moved [OF failed(2) _ _ this] route_chain_traced [OF at] show ?thesis
        by (simp add: failed_hop_def failed(3))
    qed
    with RouteFailed failed(4,5) show ?thesis by (auto split: option.splits)
  qed
qed

lemma forward_routed_follows:
  assumes "tk_fallback (wk_tracker wk) = None"
  shows "chain_follows (rt_name r # fallback_plan rq cs r) wk (snd (snd (forward_routed rq cs r wk)))"
proof -
  have "chain_ends r [] (rt_name r) (fallback_plan rq cs r) wk (snd (snd (forward_routed rq cs r wk)))"
  proof (cases "expired (wk_now wk) (rc_budget rq)")
    case True
    let ?wk = "wk\<lparr>wk_tracker := unattempted (request_label rq r) (wk_tracker wk)\<rparr>"
    have "attempts_of ?wk = attempts_of wk" "fallback_of ?wk = None"
      using assms by (simp_all add: attempts_of_def fallback_of_def unattempted_def)
    with True show ?thesis by (simp add: forward_routed_def chain_ends_def)
  next
    case False
    have "chain_at r [] (rt_name r) wk" using assms by (simp add: chain_at_def fallback_of_def)
    from route_chain_follows [OF this] False show ?thesis by (simp add: forward_routed_def)
  qed
  then show ?thesis
    by (auto simp: chain_ends_def chain_follows_def trace_follows_def split: option.splits)
qed



section \<open>The chain of an accepted configuration\<close>

lemma subseq_distinct: "subseq xs ys \<Longrightarrow> distinct ys \<Longrightarrow> distinct xs"
  by (auto simp: subseq_conv_nths distinct_nthsI)

text \<open>A request of an accepted configuration tries at most four routes, none of them twice, whichever
  route it starts from: over all its attempts each route is one unbroken stretch.\<close>

theorem at_most_four_routes:
  assumes "fallback_validate lower raw rts reachable cls = Inr cs" "tk_fallback (wk_tracker wk) = None"
  shows "\<exists>new. attempts_of (snd (snd (forward_routed rq cs r wk))) = attempts_of wk @ new
    \<and> distinct (remdups_adj (map at_route new)) \<and> length (remdups_adj (map at_route new)) \<le> 4"
proof -
  have plan: "distinct (rt_name r # fallback_plan rq cs r) \<and> length (fallback_plan rq cs r) \<le> 3"
    using accepted_chain [OF assms(1), of "rt_name r"] by (simp add: fallback_plan_def)
  obtain new where new: "attempts_of (snd (snd (forward_routed rq cs r wk))) = attempts_of wk @ new"
    "subseq (remdups_adj (map at_route new)) (rt_name r # fallback_plan rq cs r)"
    using forward_routed_follows [OF assms(2), of r rq cs] unfolding chain_follows_def by blast
  from list_emb_length [OF new(2)] subseq_distinct [OF new(2)] plan new(1) show ?thesis by auto
qed

theorem at_most_four_routes_witness:
  "let cs = [([57], [[56]])] in
    fallback_validate id [([57], [[56]])] (routes demo_topology2) [[57]] [] = Inr cs
    \<and> (\<exists>new. attempts_of (snd (snd (demo_run None))) = new \<and> distinct (remdups_adj (map at_route new))
        \<and> length (remdups_adj (map at_route new)) \<le> 4)"
proof -
  have accepted: "fallback_validate id [([57], [[56]])] (routes demo_topology2) [[57]] [] = Inr [([57], [[56]])]"
    by code_simp
  have open_walk: "tk_fallback (wk_tracker (demo_walk None)) = None" "attempts_of (demo_walk None) = []"
    by (simp_all add: demo_walk_def tracker_new_def attempts_of_def)
  from at_most_four_routes [OF accepted open_walk(1), of "demo_request None" "demo_route Priority"] accepted open_walk(2)
  show ?thesis by (simp add: demo_run_def)
qed

end
