(* ===== verification/Router_Settings.thy ===== *)
theory Router_Settings
  imports Router_Fallback Router_Affinity Router_Placement Router_Budget Lw_Net
begin

text \<open>
  Validation of the configuration file, \<open>lightweight-router/src/config.rs\<close>, up to the \<open>auto_route\<close> section: the
  file as written, the reasons to refuse it, and one validator for each section. The list of errors is
  passed through every validator, as the code passes \<open>&mut errors\<close>. A reason's text is its constructor.

  Parsing a URL and checking a header name are code of other packages: parameters, the fields of
  \<open>settings_ext\<close>, with the lower-casing of the names.
\<close>

section \<open>The file\<close>

record url =
  url_text :: ustr
  url_scheme :: ustr
  url_host :: "ustr option"
  url_username :: ustr
  url_password :: "ustr option"
  url_query :: "ustr option"
  url_fragment :: "ustr option"

record settings_ext =
  sx_lower :: "ustr \<Rightarrow> ustr"
  sx_url :: "ustr \<Rightarrow> url option"
  sx_header_name :: "ustr \<Rightarrow> bool"

definition DEFAULT_PORT :: nat where "DEFAULT_PORT = 11500"
definition DEFAULT_SESSION_HEADER :: ustr where "DEFAULT_SESSION_HEADER = ascii ''x-lightweight-session''"
definition MAX_SESSION_ENTRIES :: usize where "MAX_SESSION_ENTRIES = 1000000"
definition MAX_TRACE_CAPACITY :: usize where "MAX_TRACE_CAPACITY = 10000"

definition RESERVED_SESSION_HEADERS :: "ustr list" where
  "RESERVED_SESSION_HEADERS = map ascii [''authorization'', ''proxy-authorization'', ''cookie'', ''x-request-id'',
     ''content-type'', ''content-length'', ''accept'', ''host'']"

record health_file =
  hf_interval_secs :: u64
  hf_timeout_secs :: u64
  hf_failure_threshold :: u32

definition default_health_file :: health_file where
  "default_health_file = \<lparr>hf_interval_secs = 5, hf_timeout_secs = 3, hf_failure_threshold = 2\<rparr>"

record request_file =
  qf_connect_timeout_secs :: u64
  qf_pre_commit_budget_ms :: "u64 option"

definition default_request_file :: request_file where
  "default_request_file = \<lparr>qf_connect_timeout_secs = 5, qf_pre_commit_budget_ms = None\<rparr>"

record affinity_file =
  sf_enabled :: bool
  sf_header :: ustr
  sf_idle_ttl_secs :: u64
  sf_max_entries :: usize

definition default_affinity_file :: affinity_file where
  "default_affinity_file =
    \<lparr>sf_enabled = False, sf_header = DEFAULT_SESSION_HEADER, sf_idle_ttl_secs = 30 * 60, sf_max_entries = 10000\<rparr>"

definition default_trace_capacity :: usize where "default_trace_capacity = 200"

record placement_file =
  pf_interval_secs :: u64
  pf_load_timeout_secs :: u64
  pf_backoff_secs :: u64
  pf_backoff_max_secs :: u64

definition default_placement_file :: placement_file where
  "default_placement_file =
    \<lparr>pf_interval_secs = 15, pf_load_timeout_secs = 600, pf_backoff_secs = 30, pf_backoff_max_secs = 600\<rparr>"

record route_placement_file =
  rp_min_ready :: u32
  rp_warm_standby :: u32
  rp_allowed_nodes :: "ustr list"

record node_file =
  nf_id :: ustr
  nf_url :: ustr
  nf_enabled :: bool
  nf_api_key_env :: "ustr option"

record deployment_file =
  df_node :: ustr
  df_model :: ustr

record route_file =
  rf_name :: ustr
  rf_strategy :: route_policy
  rf_description :: "ustr option"
  rf_deployments :: "deployment_file list"
  rf_placement :: "route_placement_file option"

record health_policy =
  hy_interval :: nat
  hy_timeout :: nat
  hy_failure_threshold :: u32

section \<open>Reasons to refuse\<close>

datatype url_problem = NotAUrl | BadScheme | NoHost | CarriesCredentials | HasQueryOrFragment

datatype header_problem = HeaderEmpty | HeaderInvalid | HeaderReserved

datatype placement_problem =
    MinReadyZero
  | NoAllowedNodes
  | AllowedTwice ustr
  | AllowedWithoutDeployment ustr
  | TargetTooLarge u32 nat

datatype description_problem = DescriptionEmpty | DescriptionTooLong | DescriptionControl

datatype secret_owner = TheRouter | TheNode ustr | TheJev

datatype target_problem = IsAuto | IsReserved | NotConfigured

datatype rule_problem =
    RuleNoName
  | RuleNameTooLong
  | RuleNameStart
  | RuleNameCharacter nat
  | RuleNameTaken
  | RuleMatchesAll
  | RuleZeroTokens ustr
  | RuleNeverMatches ustr
  | RuleRouteAndClassify
  | RuleNeedsRoute
  | RuleNoClassifier
  | RuleTarget ustr target_problem

text \<open>Problems of the classifier section; the text of a constructor is where the setting was written.\<close>

datatype classifier_problem =
    ClFallback ustr target_problem
  | ClNoRoutes
  | ClTooManyRoutes nat
  | ClListedTwice ustr
  | ClCandidate ustr target_problem
  | ClBothForms
  | ClNoRoute
  | ClRoute ustr ustr target_problem
  | ClConfidence ustr
  | ClTimeoutMissing ustr
  | ClTimeoutRange ustr
  | ClInputChars ustr
  | ClJevNotHttps ustr
  | ClJevUrl ustr url_problem
  | ClJevModelMissing
  | ClJevModelEmpty
  | ClJevModelBad
  | ClNeedsLightweight
  | ClNeedsJev

datatype provider_kind = ByLightweight | ByJev

datatype scoring_problem =
    ScClassifierWeight
  | ScPriorWeight
  | ScHistoryWeight
  | ScHalfLife
  | ScMinSamples
  | ScShrinkage
  | ScNoClassifier
  | ScPriorTarget ustr target_problem
  | ScPriorRange ustr
  | ScPriorTwice ustr
  | ScTooInfluential provider_kind

datatype auto_problem = FallbackTarget ustr target_problem | TooManyRules nat

datatype config_error =
    NoNodes
  | NoRoutes
  | BadListen ustr
  | BadNodeId ustr node_id_problem
  | DuplicateNode ustr
  | BadUrl ustr ustr url_problem
  | BadEnvName secret_owner ustr
  | MissingEnv secret_owner ustr
  | BadRouteName ustr alias_problem
  | ReservedRouteName ustr
  | DuplicateRoute ustr
  | EmptyRoute ustr
  | UnknownNode ustr ustr
  | EmptyModel ustr ustr
  | BadModel ustr ustr
  | DuplicateDeployment ustr ustr
  | UnknownDefaultRoute ustr
  | BadHealth ustr u64
  | TimeoutExceedsInterval
  | BadConnectTimeout
  | BadPreCommitBudget u64 u64
  | BadSessionHeader ustr header_problem
  | BadSessionLimit ustr u64 u64
  | BadTraceCapacity usize
  | BadPlacementTiming ustr u64
  | BackoffMaxBelowInitial
  | BadRoutePlacement ustr placement_problem
  | AutoRouteNameTaken ustr
  | BadAutoRoute auto_problem
  | BadAutoRule ustr rule_problem
  | BadAutoClassifier classifier_problem
  | BadAdaptiveScoring scoring_problem
  | BadCrossRouteFallback fallback_problem
  | BadRouteDescription ustr description_problem

section \<open>The sections\<close>

text \<open>Durations are in milliseconds.\<close>

definition from_secs :: "u64 \<Rightarrow> nat" where
  "from_secs secs = unat secs * 1000"

definition validate_listen :: "ustr list \<Rightarrow> config_error list \<Rightarrow> socket_addr list \<times> config_error list" where
  "validate_listen raw errors =
    (if raw = [] then ([\<lparr>sa_ip = V4 [127, 0, 0, 1], sa_scope = 0, sa_port = DEFAULT_PORT\<rparr>], errors)
     else fold (\<lambda>value (found, errors).
            case socket_addr_parse (trim value) of
              Some address \<Rightarrow> (found @ [address], errors)
            | None \<Rightarrow> (found, errors @ [BadListen value])) raw ([], errors))"

definition validate_health :: "health_file \<Rightarrow> config_error list \<Rightarrow> health_policy \<times> config_error list" where
  "validate_health raw errors =
    (\<lparr>hy_interval = from_secs (hf_interval_secs raw), hy_timeout = from_secs (hf_timeout_secs raw),
      hy_failure_threshold = hf_failure_threshold raw\<rparr>,
     errors @
     (if hf_interval_secs raw = 0 then [BadHealth (ascii ''interval_secs'') 1] else []) @
     (if hf_timeout_secs raw = 0 then [BadHealth (ascii ''timeout_secs'') 1] else []) @
     (if hf_failure_threshold raw = 0 then [BadHealth (ascii ''failure_threshold'') 1] else []) @
     (if hf_timeout_secs raw > hf_interval_secs raw then [TimeoutExceedsInterval] else []))"

definition validate_budget :: "u64 option \<Rightarrow> config_error list \<Rightarrow> nat option \<times> config_error list" where
  "validate_budget raw errors =
    (case raw of
       None \<Rightarrow> (None, errors)
     | Some ms \<Rightarrow>
         if MIN_BUDGET_MS \<le> ms \<and> ms \<le> MAX_BUDGET_MS then (Some (unat ms), errors)
         else (None, errors @ [BadPreCommitBudget MIN_BUDGET_MS MAX_BUDGET_MS]))"

definition MAX_TTL_SECS :: u64 where "MAX_TTL_SECS = 24 * 60 * 60"

definition header_problem_of :: "settings_ext \<Rightarrow> ustr \<Rightarrow> header_problem option" where
  "header_problem_of ex header =
    (if header = [] then Some HeaderEmpty
     else if \<not> sx_header_name ex header then Some HeaderInvalid
     else if header \<in> set RESERVED_SESSION_HEADERS then Some HeaderReserved
     else None)"

definition validate_affinity :: "settings_ext \<Rightarrow> affinity_file \<Rightarrow> config_error list
    \<Rightarrow> affinity_policy \<times> config_error list" where
  "validate_affinity ex raw errors =
    (let header = map to_ascii_lowercase (trim (sf_header raw))
     in (\<lparr>ap_enabled = sf_enabled raw, ap_header = header, ap_idle_ttl = from_secs (sf_idle_ttl_secs raw),
          ap_max_entries = unat (sf_max_entries raw)\<rparr>,
         errors @
         (case header_problem_of ex header of Some problem \<Rightarrow> [BadSessionHeader (sf_header raw) problem] | None \<Rightarrow> []) @
         (if sf_idle_ttl_secs raw = 0 \<or> sf_idle_ttl_secs raw > MAX_TTL_SECS
          then [BadSessionLimit (ascii ''idle_ttl_secs'') 1 MAX_TTL_SECS] else []) @
         (if sf_max_entries raw = 0 \<or> sf_max_entries raw > MAX_SESSION_ENTRIES
          then [BadSessionLimit (ascii ''max_entries'') 1 MAX_SESSION_ENTRIES] else [])))"

definition validate_placement :: "placement_file \<Rightarrow> config_error list \<Rightarrow> placement_policy \<times> config_error list" where
  "validate_placement raw errors =
    (\<lparr>pp_interval = from_secs (pf_interval_secs raw), pp_load_timeout = from_secs (pf_load_timeout_secs raw),
      pp_backoff = from_secs (pf_backoff_secs raw), pp_backoff_max = from_secs (pf_backoff_max_secs raw)\<rparr>,
     errors @
     map (\<lambda>(field, _). BadPlacementTiming field 1)
       (filter (\<lambda>(_, value). value < 1)
         [(ascii ''interval_secs'', pf_interval_secs raw), (ascii ''load_timeout_secs'', pf_load_timeout_secs raw),
          (ascii ''backoff_secs'', pf_backoff_secs raw)]) @
     (if pf_backoff_max_secs raw < pf_backoff_secs raw then [BackoffMaxBelowInitial] else []))"

section \<open>Nodes\<close>

definition usable_env_name :: "ustr \<Rightarrow> bool" where
  "usable_env_name var \<longleftrightarrow> var \<noteq> [] \<and> list_all (\<lambda>c. is_ascii_alphanumeric c \<or> c = 95) var
    \<and> \<not> (48 \<le> hd var \<and> hd var \<le> 57)"

definition read_secret :: "secret_owner \<Rightarrow> ustr \<Rightarrow> (ustr \<rightharpoonup> ustr) \<Rightarrow> config_error list \<Rightarrow> ustr option \<times> config_error list" where
  "read_secret owner var env errors =
    (if \<not> usable_env_name var then (None, errors @ [BadEnvName owner var])
     else (case map_option trim (env var) of
             None \<Rightarrow> (None, errors @ [MissingEnv owner var])
           | Some value \<Rightarrow> if value \<noteq> [] then (Some value, errors) else (None, errors @ [MissingEnv owner var])))"

definition validate_url :: "settings_ext \<Rightarrow> ustr \<Rightarrow> url_problem + url" where
  "validate_url ex raw =
    (case sx_url ex (trim raw) of
       None \<Rightarrow> Inl NotAUrl
     | Some u \<Rightarrow>
         if url_scheme u \<notin> {ascii ''http'', ascii ''https''} then Inl BadScheme
         else if (case url_host u of None \<Rightarrow> True | Some host \<Rightarrow> host = []) then Inl NoHost
         else if url_username u \<noteq> [] \<or> url_password u \<noteq> None then Inl CarriesCredentials
         else if url_query u \<noteq> None \<or> url_fragment u \<noteq> None then Inl HasQueryOrFragment
         else Inr u)"

text \<open>One node: the keys seen so far, the nodes so far and the errors so far.\<close>

definition validate_node :: "settings_ext \<Rightarrow> (ustr \<rightharpoonup> ustr) \<Rightarrow> node_file
    \<Rightarrow> ustr list \<times> node list \<times> config_error list \<Rightarrow> ustr list \<times> node list \<times> config_error list" where
  "validate_node ex env entry = (\<lambda>(seen, ns, errors).
    case node_id_parse (nf_id entry) of
      Inl problem \<Rightarrow> (seen, ns, errors @ [BadNodeId (nf_id entry) problem])
    | Inr i \<Rightarrow>
        if map to_ascii_lowercase i \<in> set seen then (seen, ns, errors @ [DuplicateNode i])
        else
          let seen = map to_ascii_lowercase i # seen;
              (base_url, errors) = (case validate_url ex (nf_url entry) of
                  Inr u \<Rightarrow> (Some u, errors)
                | Inl problem \<Rightarrow> (None, errors @ [BadUrl i (nf_url entry) problem]));
              (auth, errors) = (case (nf_api_key_env entry, nf_enabled entry) of
                  (Some var, True) \<Rightarrow>
                    (case read_secret (TheNode i) var env errors of
                       (Some secret, errors) \<Rightarrow> (Bearer var secret, errors)
                     | (None, errors) \<Rightarrow> (NoAuth, errors))
                | _ \<Rightarrow> (NoAuth, errors))
          in (case base_url of
                Some u \<Rightarrow>
                  (seen, ns @ [\<lparr>nd_id = i, nd_base_url = url_text u, nd_enabled = nf_enabled entry, nd_auth = auth\<rparr>], errors)
              | None \<Rightarrow> (seen, ns, errors)))"

definition validate_nodes :: "settings_ext \<Rightarrow> (ustr \<rightharpoonup> ustr) \<Rightarrow> node_file list \<Rightarrow> config_error list
    \<Rightarrow> node list \<times> config_error list" where
  "validate_nodes ex env raw errors = snd (fold (validate_node ex env) raw ([], [], errors))"

section \<open>Routes\<close>

fun allowed_of :: "ustr list \<Rightarrow> deployment list \<Rightarrow> ustr list \<Rightarrow> ustr list \<Rightarrow> ustr list \<Rightarrow> placement_problem + ustr list" where
  "allowed_of members deps [] named taken = Inr taken"
| "allowed_of members deps (node # rest) named taken =
    (if map to_ascii_lowercase node \<in> set named then Inl (AllowedTwice node)
     else
       let found = filter (\<lambda>i. list_ex (\<lambda>d. dp_id d = i \<and> text_eq_ignore_ascii_case (dp_node d) node) deps) members
       in if found = [] then Inl (AllowedWithoutDeployment node)
          else allowed_of members deps rest (map to_ascii_lowercase node # named) (taken @ found))"

definition member_position :: "ustr list \<Rightarrow> ustr \<Rightarrow> nat" where
  "member_position members i = length (takeWhile (\<lambda>m. m \<noteq> i) members)"

definition route_placement_of :: "route_placement_file \<Rightarrow> ustr list \<Rightarrow> deployment list \<Rightarrow> placement_problem + route_placement" where
  "route_placement_of raw members deps =
    (if rp_min_ready raw = 0 then Inl MinReadyZero
     else if rp_allowed_nodes raw = [] then Inl NoAllowedNodes
     else and_then (allowed_of members deps (rp_allowed_nodes raw) [] []) (\<lambda>found.
       let placement = \<lparr>min_ready = rp_min_ready raw, warm_standby = rp_warm_standby raw,
             allowed = sort_key (member_position members) found\<rparr>
       in if unat (placement_target placement) > length members
          then Inl (TargetTooLarge (placement_target placement) (length members))
          else Inr placement))"

definition validate_route_placement :: "ustr \<Rightarrow> route_placement_file \<Rightarrow> ustr list \<Rightarrow> deployment list
    \<Rightarrow> config_error list \<Rightarrow> route_placement option \<times> config_error list" where
  "validate_route_placement rt raw members deps errors =
    (case route_placement_of raw members deps of
       Inl problem \<Rightarrow> (None, errors @ [BadRoutePlacement rt problem])
     | Inr placement \<Rightarrow> (Some placement, errors))"

definition MAX_DESCRIPTION_CHARS :: nat where "MAX_DESCRIPTION_CHARS = 200"

definition validate_description :: "ustr \<Rightarrow> description_problem + ustr" where
  "validate_description raw =
    (let description = trim raw
     in if description = [] then Inl DescriptionEmpty
        else if length description > MAX_DESCRIPTION_CHARS then Inl DescriptionTooLong
        else if list_ex is_control description then Inl DescriptionControl
        else Inr description)"

text \<open>One deployment of a route: the members so far, all deployments so far, the errors so far.\<close>

definition list_deployment :: "(ustr \<Rightarrow> ustr) \<Rightarrow> ustr \<Rightarrow> node list \<Rightarrow> deployment_file
    \<Rightarrow> ustr list \<times> deployment list \<times> config_error list \<Rightarrow> ustr list \<times> deployment list \<times> config_error list" where
  "list_deployment lower rt ns listed = (\<lambda>(members, deps, errors).
    case find (\<lambda>n. nd_id n = trim (df_node listed)) ns of
      None \<Rightarrow>
        (members, deps,
         if \<not> isl (node_id_parse (df_node listed))
            \<and> \<not> list_ex (\<lambda>e. case e of BadUrl node _ _ \<Rightarrow> node = trim (df_node listed) | _ \<Rightarrow> False) errors
         then errors @ [UnknownNode rt (df_node listed)] else errors)
    | Some n \<Rightarrow>
        let model = trim (df_model listed)
        in if model = [] then (members, deps, errors @ [EmptyModel rt (nd_id n)])
           else if list_ex is_control model then (members, deps, errors @ [BadModel rt (nd_id n)])
           else
             let (i, deps) = (case find (\<lambda>d. dp_node d = nd_id n \<and> same_name lower (dp_remote_model d) model) deps of
                     Some d \<Rightarrow> (dp_id d, deps)
                   | None \<Rightarrow>
                       let d = \<lparr>dp_id = deployment_id_of (nd_id n) model, dp_node = nd_id n, dp_remote_model = model\<rparr>
                       in (dp_id d, deps @ [d]))
             in if i \<in> set members then (members, deps, errors @ [DuplicateDeployment rt i])
                else (members @ [i], deps, errors))"

definition validate_route :: "(ustr \<Rightarrow> ustr) \<Rightarrow> node list \<Rightarrow> route_file
    \<Rightarrow> route list \<times> deployment list \<times> config_error list \<Rightarrow> route list \<times> deployment list \<times> config_error list" where
  "validate_route lower ns entry = (\<lambda>(rts, deps, errors).
    case route_name_parse (rf_name entry) of
      Inl Reserved \<Rightarrow> (rts, deps, errors @ [ReservedRouteName (rf_name entry)])
    | Inl problem \<Rightarrow> (rts, deps, errors @ [BadRouteName (rf_name entry) problem])
    | Inr name \<Rightarrow>
        if list_ex (\<lambda>r. route_matches lower (rt_name r) name) rts then (rts, deps, errors @ [DuplicateRoute name])
        else if rf_deployments entry = [] then (rts, deps, errors @ [EmptyRoute name])
        else
          let (members, deps, errors) = fold (list_deployment lower name ns) (rf_deployments entry) ([], deps, errors);
              (placement, errors) = (case rf_placement entry of
                  None \<Rightarrow> (None, errors)
                | Some raw \<Rightarrow> validate_route_placement name raw members deps errors);
              (description, errors) = (case rf_description entry of
                  None \<Rightarrow> (None, errors)
                | Some raw \<Rightarrow> (case validate_description raw of
                      Inl problem \<Rightarrow> (None, errors @ [BadRouteDescription name problem])
                    | Inr text \<Rightarrow> (Some text, errors)))
          in (rts @ [\<lparr>rt_name = name, rt_policy = rf_strategy entry, rt_deployments = members,
                rt_description = description, rt_placement = placement\<rparr>], deps, errors))"

definition validate_routes :: "(ustr \<Rightarrow> ustr) \<Rightarrow> route_file list \<Rightarrow> node list \<Rightarrow> config_error list
    \<Rightarrow> route list \<times> deployment list \<times> config_error list" where
  "validate_routes lower raw ns errors = fold (validate_route lower ns) raw ([], [], errors)"

end
