(* ===== verification/Router_Classifier.thy ===== *)
theory Router_Classifier
  imports Router_Settings Router_Capability Router_Sse Lw_Float
begin

text \<open>
  The route classifier, \<open>lightweight-router/src/classifier\<close>: the section as written and its validation
  (\<open>mod.rs\<close>, \<open>lightweight.rs\<close>, \<open>jev.rs\<close>), the reading of a provider's answer, and one classification with its two
  deadlines. The text given to a provider and the exchange with it are not modelled: a classification takes
  what the provider's call ended with and the instant it was ready. JSON values are those of \<open>Router_Sse\<close>.
\<close>

section \<open>The section as written\<close>

definition MAX_TIMEOUT_MS :: u64 where "MAX_TIMEOUT_MS = 120000"
definition DEFAULT_MIN_CONFIDENCE :: f64 where "DEFAULT_MIN_CONFIDENCE = 0x3FE4CCCCCCCCCCCD"
definition DEFAULT_MAX_INPUT_CHARS :: usize where "DEFAULT_MAX_INPUT_CHARS = 2000"
definition MAX_INPUT_CHARS :: usize where "MAX_INPUT_CHARS = 32000"
definition MAX_CANDIDATES :: nat where "MAX_CANDIDATES = 16"
definition DEFAULT_BASE_URL :: ustr where "DEFAULT_BASE_URL = ascii ''https://api.typesafe.ai''"
definition DEFAULT_API_KEY_ENV :: ustr where "DEFAULT_API_KEY_ENV = ascii ''TYPESAFE_API_KEY''"

record lightweight_file =
  lf_route :: ustr
  lf_timeout_ms :: "u64 option"
  lf_min_confidence :: f64
  lf_max_input_chars :: usize

record jev_file =
  jf_base_url :: ustr
  jf_api_key_env :: ustr
  jf_model :: "ustr option"
  jf_timeout_ms :: "u64 option"
  jf_min_confidence :: f64
  jf_max_input_chars :: usize
  jf_include_user_text :: bool

record classifier_file =
  cs_provider :: provider_kind
  cs_routes :: "ustr list"
  cs_fallback_route :: "ustr option"
  cs_lightweight :: "lightweight_file option"
  cs_jev :: "jev_file option"
  cs_route :: "ustr option"
  cs_timeout_ms :: "u64 option"
  cs_min_confidence :: "f64 option"
  cs_max_input_chars :: "usize option"

section \<open>The validated classifier\<close>

record route_choice =
  ch_route :: ustr
  ch_description :: "ustr option"

record limits =
  li_timeout :: nat
  li_min_confidence :: f64
  li_max_input_chars :: usize

datatype key_source = KeyEnvironment | KeyStore | KeyMissing

record lightweight_classifier =
  lw_route :: ustr
  lw_limits :: limits

record jev_classifier =
  jv_base_url :: ustr
  jv_api_key_env :: ustr
  jv_key :: "ustr option"
  jv_key_source :: key_source
  jv_model :: ustr
  jv_limits :: limits
  jv_include_user_text :: bool

datatype classifier_provider = LightweightProvider lightweight_classifier | JevProvider jev_classifier

fun provider_kind_of :: "classifier_provider \<Rightarrow> provider_kind" where
  "provider_kind_of (LightweightProvider _) = ByLightweight"
| "provider_kind_of (JevProvider _) = ByJev"

fun provider_limits :: "classifier_provider \<Rightarrow> limits" where
  "provider_limits (LightweightProvider l) = lw_limits l"
| "provider_limits (JevProvider j) = jv_limits j"

fun provider_route :: "classifier_provider \<Rightarrow> ustr option" where
  "provider_route (LightweightProvider l) = Some (lw_route l)"
| "provider_route (JevProvider _) = None"

record route_classifier =
  cl_candidates :: "route_choice list"
  cl_fallback :: ustr
  cl_provider :: classifier_provider
  cl_standby :: "classifier_provider option"

section \<open>Validation\<close>

text \<open>The configured route a name refers to: \<open>configured\<close> here, and \<open>target\<close> of \<open>auto_route.rs\<close>, which has the same body.\<close>

definition target :: "(ustr \<Rightarrow> ustr) \<Rightarrow> ustr \<Rightarrow> route list \<Rightarrow> target_problem + ustr" where
  "target lower name rts =
    (if is_auto lower name then Inl IsAuto
     else if is_reserved name then Inl IsReserved
     else (case find (\<lambda>r. route_matches lower (rt_name r) name) rts of
             Some r \<Rightarrow> Inr (rt_name r)
           | None \<Rightarrow> Inl NotConfigured))"

definition configured :: "(ustr \<Rightarrow> ustr) \<Rightarrow> ustr \<Rightarrow> route list \<Rightarrow> target_problem + ustr" where
  "configured lower name rts =
    (if is_auto lower name then Inl IsAuto
     else if is_reserved name then Inl IsReserved
     else (case find (\<lambda>r. route_matches lower (rt_name r) name) rts of
             Some r \<Rightarrow> Inr (rt_name r)
           | None \<Rightarrow> Inl NotConfigured))"

text \<open>\<open>validate_limits\<close>: the limits, if nothing is wrong with them, and what is wrong. Timeouts are in milliseconds.\<close>

definition validate_limits :: "ustr \<Rightarrow> u64 option \<Rightarrow> f64 \<Rightarrow> usize \<Rightarrow> limits option \<times> classifier_problem list" where
  "validate_limits prefix timeout_ms min_confidence max_input_chars =
    (let problems =
       (if is_finite min_confidence \<and> unit_range min_confidence then [] else [ClConfidence prefix]) @
       (case timeout_ms of
          None \<Rightarrow> [ClTimeoutMissing prefix]
        | Some timeout \<Rightarrow> if timeout = 0 \<or> timeout > MAX_TIMEOUT_MS then [ClTimeoutRange prefix] else []) @
       (if max_input_chars = 0 \<or> max_input_chars > MAX_INPUT_CHARS then [ClInputChars prefix] else [])
     in (if problems = []
         then Some \<lparr>li_timeout = unat (case timeout_ms of Some timeout \<Rightarrow> timeout | None \<Rightarrow> 1),
                li_min_confidence = min_confidence, li_max_input_chars = max_input_chars\<rparr>
         else None, problems))"

definition lightweight_validate :: "(ustr \<Rightarrow> ustr) \<Rightarrow> lightweight_file \<Rightarrow> route list \<Rightarrow> ustr
    \<Rightarrow> lightweight_classifier option \<times> classifier_problem list" where
  "lightweight_validate lower raw rts prefix =
    (let (limits, problems) = validate_limits prefix (lf_timeout_ms raw) (lf_min_confidence raw) (lf_max_input_chars raw)
     in case configured lower (lf_route raw) rts of
          Inl problem \<Rightarrow> (None, ClRoute prefix (lf_route raw) problem # problems)
        | Inr r \<Rightarrow> (map_option (\<lambda>limits. \<lparr>lw_route = r, lw_limits = limits\<rparr>) limits, problems))"

definition url_is_loopback :: "url \<Rightarrow> bool" where
  "url_is_loopback u = is_some_and (url_host u) (\<lambda>host.
    text_eq_ignore_ascii_case host (ascii ''localhost'')
    \<or> is_some_and (ip_addr_parse (rev (dropWhile (\<lambda>c. c = 93) (rev (dropWhile (\<lambda>c. c = 91) host))))) ip_is_loopback)"

definition jev_base_url_of :: "settings_ext \<Rightarrow> ustr \<Rightarrow> ustr option \<times> classifier_problem list" where
  "jev_base_url_of ex raw =
    (case validate_url ex raw of
       Inr u \<Rightarrow>
         if url_scheme u = ascii ''https'' \<or> url_is_loopback u
         then (Some (rev (dropWhile (\<lambda>c. c = 47) (rev (url_text u)))), [])
         else (None, [ClJevNotHttps raw])
     | Inl problem \<Rightarrow> (None, [ClJevUrl raw problem]))"

definition jev_model_of :: "ustr option \<Rightarrow> ustr option \<times> classifier_problem list" where
  "jev_model_of raw =
    (case map_option trim raw of
       None \<Rightarrow> (None, [ClJevModelMissing])
     | Some model \<Rightarrow>
         if model = [] then (None, [ClJevModelEmpty])
         else if list_ex is_control model \<or> byte_len model > 128 then (None, [ClJevModelBad])
         else (Some model, []))"

definition present :: "ustr option \<Rightarrow> ustr option" where
  "present value = (case map_option trim value of Some v \<Rightarrow> if v \<noteq> [] then Some v else None | None \<Rightarrow> None)"

definition from_store :: "(ustr \<rightharpoonup> ustr) \<Rightarrow> ustr \<Rightarrow> ustr option" where
  "from_store stored var = (if usable_env_name var then present (stored var) else None)"

text \<open>The key and where it was found; \<open>Inl\<close>: the active provider has none, and the reasons.\<close>

definition jev_key_of :: "bool \<Rightarrow> ustr \<Rightarrow> (ustr \<rightharpoonup> ustr) \<Rightarrow> (ustr \<rightharpoonup> ustr) \<Rightarrow> config_error list + ustr option \<times> key_source" where
  "jev_key_of is_active var env stored =
    (if is_active
     then (case read_secret TheJev var env [] of
             (Some key, _) \<Rightarrow> Inr (Some key, KeyEnvironment)
           | (None, env_errors) \<Rightarrow>
               (case from_store stored var of
                  Some key \<Rightarrow> Inr (Some key, KeyStore)
                | None \<Rightarrow> Inl env_errors))
     else (case present (env var) of
             Some key \<Rightarrow> Inr (Some key, KeyEnvironment)
           | None \<Rightarrow>
               (case from_store stored var of
                  Some key \<Rightarrow> Inr (Some key, KeyStore)
                | None \<Rightarrow> Inr (None, KeyMissing))))"

definition jev_validate :: "settings_ext \<Rightarrow> jev_file \<Rightarrow> bool \<Rightarrow> (ustr \<rightharpoonup> ustr) \<Rightarrow> (ustr \<rightharpoonup> ustr)
    \<Rightarrow> jev_classifier option \<times> classifier_problem list \<times> config_error list" where
  "jev_validate ex raw is_active env stored =
    (let (base_url, problems1) = jev_base_url_of ex (jf_base_url raw);
         (model, problems2) = jev_model_of (jf_model raw);
         (limits, problems3) = validate_limits (ascii ''jev.'') (jf_timeout_ms raw) (jf_min_confidence raw) (jf_max_input_chars raw);
         problems = problems1 @ problems2 @ problems3
     in case jev_key_of is_active (jf_api_key_env raw) env stored of
          Inl env_errors \<Rightarrow> (None, problems, env_errors)
        | Inr (key, source) \<Rightarrow>
            (case (base_url, model, limits) of
               (Some base_url, Some model, Some limits) \<Rightarrow>
                 Some \<lparr>jv_base_url = base_url, jv_api_key_env = jf_api_key_env raw, jv_key = key, jv_key_source = source,
                   jv_model = model, jv_limits = limits, jv_include_user_text = jf_include_user_text raw\<rparr>
             | _ \<Rightarrow> None, problems, []))"

definition add_candidate :: "(ustr \<Rightarrow> ustr) \<Rightarrow> route list \<Rightarrow> ustr
    \<Rightarrow> route_choice list \<times> classifier_problem list \<Rightarrow> route_choice list \<times> classifier_problem list" where
  "add_candidate lower rts name = (\<lambda>(candidates, problems).
    case configured lower name rts of
      Inr found \<Rightarrow>
        if list_ex (\<lambda>c. ch_route c = found) candidates then (candidates, problems @ [ClListedTwice name])
        else (candidates @ [\<lparr>ch_route = found,
                ch_description = Option.bind (find (\<lambda>r. rt_name r = found) rts) rt_description\<rparr>], problems)
    | Inl problem \<Rightarrow> (candidates, problems @ [ClCandidate name problem]))"

text \<open>The settings of the Lightweight provider: its block, or the shorthand in the section itself, and the
  prefix that says which.\<close>

definition lightweight_settings :: "classifier_file \<Rightarrow> (lightweight_file \<times> ustr) option \<times> classifier_problem list" where
  "lightweight_settings raw =
    (let shorthand = (cs_route raw \<noteq> None \<or> cs_timeout_ms raw \<noteq> None \<or> cs_min_confidence raw \<noteq> None
           \<or> cs_max_input_chars raw \<noteq> None)
     in case (cs_lightweight raw, shorthand) of
          (Some _, True) \<Rightarrow> (None, [ClBothForms])
        | (Some block, False) \<Rightarrow> (Some (block, ascii ''lightweight.''), [])
        | (None, True) \<Rightarrow>
            (case cs_route raw of
               Some name \<Rightarrow>
                 (Some (\<lparr>lf_route = name, lf_timeout_ms = cs_timeout_ms raw,
                    lf_min_confidence = (case cs_min_confidence raw of Some c \<Rightarrow> c | None \<Rightarrow> DEFAULT_MIN_CONFIDENCE),
                    lf_max_input_chars = (case cs_max_input_chars raw of Some n \<Rightarrow> n | None \<Rightarrow> DEFAULT_MAX_INPUT_CHARS)\<rparr>, []), [])
             | None \<Rightarrow> (None, [ClNoRoute]))
        | (None, False) \<Rightarrow> (None, []))"

definition classifier_validate :: "settings_ext \<Rightarrow> classifier_file \<Rightarrow> route list \<Rightarrow> ustr \<Rightarrow> (ustr \<rightharpoonup> ustr) \<Rightarrow> (ustr \<rightharpoonup> ustr)
    \<Rightarrow> config_error list \<Rightarrow> route_classifier option \<times> config_error list" where
  "classifier_validate ex raw rts auto_fallback env stored errors =
    (let lower = sx_lower ex;
         before = length errors;
         fallback_name = (case cs_fallback_route raw of Some name \<Rightarrow> name | None \<Rightarrow> auto_fallback);
         (fallback, problems) = (case configured lower fallback_name rts of
             Inr r \<Rightarrow> (Some r, []) | Inl problem \<Rightarrow> (None, [ClFallback fallback_name problem]));
         problems = problems @ (if cs_routes raw = [] then [ClNoRoutes] else []);
         problems = problems @ (if length (cs_routes raw) > MAX_CANDIDATES then [ClTooManyRoutes (length (cs_routes raw))] else []);
         (candidates, problems) = fold (add_candidate lower rts) (cs_routes raw) ([], problems);
         (file, form) = lightweight_settings raw;
         problems = problems @ form;
         (lightweight, checked) = (case file of
             None \<Rightarrow> (None, [])
           | Some (f, prefix) \<Rightarrow> lightweight_validate lower f rts prefix);
         problems = problems @ checked;
         (jev, checked, errors) = (case cs_jev raw of
             None \<Rightarrow> (None, [], errors)
           | Some f \<Rightarrow> (case jev_validate ex f (cs_provider raw = ByJev) env stored of
               (jev, checked, env_errors) \<Rightarrow> (jev, checked, errors @ env_errors)));
         problems = problems @ checked @
           (if cs_provider raw = ByLightweight \<and> file = None then [ClNeedsLightweight]
            else if cs_provider raw = ByJev \<and> cs_jev raw = None then [ClNeedsJev] else []);
         errors = errors @ map BadAutoClassifier problems
     in if length errors > before then (None, errors)
        else
          let lightweight = map_option LightweightProvider lightweight;
              jev = map_option JevProvider jev;
              (provider, standby) = (case cs_provider raw of
                  ByLightweight \<Rightarrow> (lightweight, jev) | ByJev \<Rightarrow> (jev, lightweight))
          in (case (provider, fallback) of
                (Some provider, Some fallback) \<Rightarrow>
                  (Some \<lparr>cl_candidates = candidates, cl_fallback = fallback, cl_provider = provider, cl_standby = standby\<rparr>, errors)
              | _ \<Rightarrow> (None, errors)))"

section \<open>Reading an answer\<close>

text \<open>The JSON readers, which are not part of the repository: \<open>rd_body\<close> of the bytes of a response, \<open>rd_text\<close> of a text.\<close>

record json_reader =
  rd_body :: "u8 list \<Rightarrow> json option"
  rd_text :: "ustr \<Rightarrow> json option"

datatype answer_problem = NotJson | NoContent | NoObject | NoRouteNamed | UnknownChoice | BadConfidence | NoAnswer | NotAChoice | NoChoice

record verdict =
  vd_route :: ustr
  vd_confidence :: f64
  vd_model :: "ustr option"

fun json_string :: "json option \<Rightarrow> ustr option" where
  "json_string (Some (JString s)) = Some s"
| "json_string _ = None"

fun json_item :: "nat \<Rightarrow> json option \<Rightarrow> json option" where
  "json_item i (Some (JArray items)) = (if i < length items then Some (items ! i) else None)"
| "json_item i _ = None"

definition json_field :: "ustr \<Rightarrow> json option \<Rightarrow> json option" where
  "json_field key v = Option.bind v (json_get key)"

text \<open>\<open>Value::as_f64\<close>; a negative integer is its 64-bit pattern.\<close>

fun json_as_f64 :: "json \<Rightarrow> f64 option" where
  "json_as_f64 (JFloat x) = Some x"
| "json_as_f64 (JPosInt n) = Some (f64_pack False (f64_round (unat n) 1))"
| "json_as_f64 (JNegInt n) = Some (f64_pack True (f64_round (2 ^ 64 - unat n) 1))"
| "json_as_f64 _ = None"

definition confidence_of :: "json option \<Rightarrow> f64 option" where
  "confidence_of v = (case Option.bind v json_as_f64 of Some c \<Rightarrow> if unit_range c then Some c else None | None \<Rightarrow> None)"

definition or_fail :: "'a option \<Rightarrow> 'e \<Rightarrow> 'e + 'a" where
  "or_fail v e = (case v of Some x \<Rightarrow> Inr x | None \<Rightarrow> Inl e)"

text \<open>\<open>content.find('{')\<close> to \<open>content.rfind('}')\<close>.\<close>

definition json_slice :: "ustr \<Rightarrow> ustr option" where
  "json_slice content =
    (case index_where (\<lambda>c. c = 123) content of
       None \<Rightarrow> None
     | Some start \<Rightarrow>
         (case index_where (\<lambda>c. c = 125) (rev content) of
            None \<Rightarrow> None
          | Some after \<Rightarrow>
              let stop = length content - 1 - after
              in if stop < start then None else Some (take (stop - start + 1) (drop start content))))"

definition parse_answer :: "(ustr \<Rightarrow> ustr) \<Rightarrow> json_reader \<Rightarrow> u8 list \<Rightarrow> route_choice list \<Rightarrow> answer_problem + verdict" where
  "parse_answer lower rd body candidates =
    and_then (or_fail (rd_body rd body) NotJson) (\<lambda>response.
    and_then (or_fail (json_string (json_field (ascii ''content'') (json_field (ascii ''message'')
        (json_item 0 (json_field (ascii ''choices'') (Some response)))))) NoContent) (\<lambda>content.
    and_then (or_fail (json_slice content) NoObject) (\<lambda>slice.
    and_then (or_fail (rd_text rd slice) NoObject) (\<lambda>obj.
    and_then (or_fail (json_string (json_field (ascii ''route'') (Some obj))) NoRouteNamed) (\<lambda>named.
    and_then (or_fail (find (\<lambda>c. route_matches lower (ch_route c) named) candidates) UnknownChoice) (\<lambda>choice.
    and_then (or_fail (confidence_of (json_field (ascii ''confidence'') (Some obj))) BadConfidence) (\<lambda>confidence.
      Inr \<lparr>vd_route = ch_route choice, vd_confidence = confidence, vd_model = None\<rparr>)))))))"

definition parse_response :: "json_reader \<Rightarrow> u8 list \<Rightarrow> route_choice list \<Rightarrow> answer_problem + verdict" where
  "parse_response rd body candidates =
    and_then (or_fail (rd_body rd body) NotJson) (\<lambda>response.
    and_then (or_fail (json_field (ascii ''route'') (json_field (ascii ''answers'') (Some response))) NoAnswer) (\<lambda>answer.
    if json_string (json_field (ascii ''type'') (Some answer)) \<noteq> Some (ascii ''choice'') then Inl NotAChoice
    else
    and_then (or_fail (json_string (json_field (ascii ''choice'') (Some answer))) NoChoice) (\<lambda>named.
    and_then (or_fail (find (\<lambda>c. ch_route c = named) candidates) UnknownChoice) (\<lambda>choice.
    and_then (or_fail (confidence_of (json_field (ascii ''confidence'') (Some answer))) BadConfidence) (\<lambda>confidence.
      Inr \<lparr>vd_route = ch_route choice, vd_confidence = confidence,
        vd_model = (case json_string (json_field (ascii ''model'') (Some response)) of
            Some model \<Rightarrow> if byte_len model \<le> 128 \<and> \<not> list_ex is_control model then Some model else None
          | None \<Rightarrow> None)\<rparr>)))))"

section \<open>One classification\<close>

datatype classifier_outcome =
    Chosen | LowConfidence | Invalid | ClUnavailable | TimedOut | AuthError | RateLimited | ConnectionError
  | ProviderError | Nested | RequestBudgetExhausted

fun provider_answered :: "classifier_outcome \<Rightarrow> bool" where
  "provider_answered Chosen = True"
| "provider_answered LowConfidence = True"
| "provider_answered _ = False"

text \<open>\<open>lightweight::call\<close>, from the nested response on: the marker of an exhausted budget, the status, and the
  body if it could be read within \<open>ANSWER_LIMIT\<close>.\<close>

record nested_response =
  nr_exhausted :: bool
  nr_status :: nat
  nr_body :: "u8 list option"

definition success_status :: "nat \<Rightarrow> bool" where
  "success_status code \<longleftrightarrow> 200 \<le> code \<and> code < 300"

definition lightweight_call :: "(ustr \<Rightarrow> ustr) \<Rightarrow> json_reader \<Rightarrow> route_choice list \<Rightarrow> nested_response
    \<Rightarrow> classifier_outcome + verdict" where
  "lightweight_call lower rd candidates response =
    (if nr_exhausted response then Inl RequestBudgetExhausted
     else if \<not> success_status (nr_status response) then Inl ClUnavailable
     else (case nr_body response of
             None \<Rightarrow> Inl ClUnavailable
           | Some body \<Rightarrow> (case parse_answer lower rd body candidates of Inl _ \<Rightarrow> Inl Invalid | Inr v \<Rightarrow> Inr v)))"

text \<open>\<open>jev::call\<close>: the chunks of a response are read up to \<open>RESPONSE_LIMIT\<close>; a chunk that breaks off is \<open>None\<close>.\<close>

definition RESPONSE_LIMIT :: nat where "RESPONSE_LIMIT = 256 * 1024"

fun read_limited :: "u8 list option list \<Rightarrow> u8 list \<Rightarrow> u8 list option" where
  "read_limited [] collected = Some collected"
| "read_limited (None # chunks) collected = None"
| "read_limited (Some chunk # chunks) collected =
    (if length collected + length chunk > RESPONSE_LIMIT then None else read_limited chunks (collected @ chunk))"

datatype jev_exchange = JevTransport bool | JevResponse nat "u8 list option list"

definition failure_for :: "nat \<Rightarrow> classifier_outcome" where
  "failure_for code =
    (if code \<in> {401, 403} then AuthError else if code \<in> {429, 529} then RateLimited else ProviderError)"

definition transport_failure :: "bool \<Rightarrow> classifier_outcome" where
  "transport_failure is_timeout = (if is_timeout then TimedOut else ConnectionError)"

definition jev_call :: "json_reader \<Rightarrow> jev_classifier \<Rightarrow> route_choice list \<Rightarrow> jev_exchange \<Rightarrow> classifier_outcome + verdict" where
  "jev_call rd jev candidates exchange =
    (if jv_key jev = None then Inl AuthError
     else (case exchange of
             JevTransport is_timeout \<Rightarrow> Inl (transport_failure is_timeout)
           | JevResponse code chunks \<Rightarrow>
               if \<not> success_status code then Inl (failure_for code)
               else (case read_limited chunks [] of
                       None \<Rightarrow> Inl Invalid
                     | Some body \<Rightarrow> (case parse_response rd body candidates of Inl _ \<Rightarrow> Inl Invalid | Inr v \<Rightarrow> Inr v))))"

text \<open>What the provider's side does during one classification: the exchange, and the instant its result is ready.\<close>

record provider_side =
  ps_nested :: nested_response
  ps_exchange :: jev_exchange
  ps_ready_at :: nat

record classification =
  cn_provider :: provider_kind
  cn_outcome :: classifier_outcome
  cn_verdict :: "verdict option"
  cn_duration :: nat
  cn_request_id :: ustr
  cn_input_truncated :: bool

definition classification_route :: "route_classifier \<Rightarrow> classification \<Rightarrow> ustr" where
  "classification_route cl cn =
    (case (cn_verdict cn, cn_outcome cn) of
       (Some v, Chosen) \<Rightarrow> vd_route v
     | _ \<Rightarrow> cl_fallback cl)"

definition nested_classification :: "provider_kind \<Rightarrow> classification" where
  "nested_classification kind = \<lparr>cn_provider = kind, cn_outcome = Nested, cn_verdict = None, cn_duration = 0,
     cn_request_id = [], cn_input_truncated = False\<rparr>"

text \<open>\<open>classify\<close>, begun at \<open>now\<close> (nanoseconds): the earlier of the provider's deadline and the request's ends the
  wait, and which of the two it was decides the outcome.\<close>

definition classify :: "(ustr \<Rightarrow> ustr) \<Rightarrow> json_reader \<Rightarrow> route_classifier \<Rightarrow> provider_side \<Rightarrow> ustr \<Rightarrow> bool
    \<Rightarrow> request_budget option \<Rightarrow> nat \<Rightarrow> classification" where
  "classify lower rd cl side request_id truncated budget now =
    (let kind = provider_kind_of (cl_provider cl);
         limits = provider_limits (cl_provider cl)
     in if expired now budget
        then \<lparr>cn_provider = kind, cn_outcome = RequestBudgetExhausted, cn_verdict = None, cn_duration = 0,
               cn_request_id = [], cn_input_truncated = truncated\<rparr>
        else
          let provider_deadline = now + li_timeout limits * 1000000;
              budget_first = (case budget of None \<Rightarrow> False | Some b \<Rightarrow> bu_deadline b \<le> provider_deadline);
              deadline = (case budget of None \<Rightarrow> provider_deadline | Some b \<Rightarrow> min provider_deadline (bu_deadline b));
              (nested_id, answer) = (case cl_provider cl of
                  LightweightProvider l \<Rightarrow>
                    (request_id @ ascii ''-classify'', lightweight_call lower rd (cl_candidates cl) (ps_nested side))
                | JevProvider j \<Rightarrow> ([], jev_call rd j (cl_candidates cl) (ps_exchange side)));
              (outcome, v) =
                (if ps_ready_at side > deadline
                 then (if budget_first then RequestBudgetExhausted else TimedOut, None)
                 else (case answer of
                         Inl outcome \<Rightarrow> (outcome, None)
                       | Inr v \<Rightarrow>
                           if f64_lt (vd_confidence v) (li_min_confidence limits) then (LowConfidence, Some v)
                           else (Chosen, Some v)))
          in \<lparr>cn_provider = kind, cn_outcome = outcome, cn_verdict = v,
               cn_duration = min deadline (ps_ready_at side) - now,
               cn_request_id = nested_id, cn_input_truncated = truncated\<rparr>)"

section \<open>What a classifier is told\<close>

record classification_input =
  ci_endpoint :: endpoint
  ci_tools :: bool
  ci_tool_choice :: tool_choice_requirement
  ci_reasoning :: bool
  ci_prompt_tokens :: "u32 option"
  ci_text :: ustr
  ci_truncated :: bool

text \<open>\<open>truncate\<close>: the first \<open>max_chars\<close> characters, and whether anything was cut.\<close>

definition truncate_text :: "ustr \<Rightarrow> nat \<Rightarrow> ustr \<times> bool" where
  "truncate_text t max_chars = (take max_chars t, max_chars < length t)"

definition prompt_text :: "prompt \<Rightarrow> ustr" where
  "prompt_text p =
    (case p of
       Chat messages \<Rightarrow>
         (case find (\<lambda>m. cm_role m = User) (rev messages) of
            Some m \<Rightarrow> cm_content m
          | None \<Rightarrow> if messages = [] then [] else cm_content (last messages))
     | Text t \<Rightarrow> t)"

text \<open>\<open>chat\<close> and \<open>prompts\<close>: what the gateway's own types make of the body, if they can read it.\<close>

definition input_read :: "endpoint \<Rightarrow> 'tool generation_request option \<Rightarrow> ustr list option \<Rightarrow> request_requirements \<Rightarrow> nat
    \<Rightarrow> classification_input" where
  "input_read e chat prompts needs max_chars =
    (let whole = (case e of
           ChatCompletions \<Rightarrow> (case chat of Some g \<Rightarrow> prompt_text (gr_prompt g) | None \<Rightarrow> [])
         | Completions \<Rightarrow> (case prompts of Some (first # _) \<Rightarrow> first | _ \<Rightarrow> []));
         (t, truncated) = truncate_text whole max_chars
     in \<lparr>ci_endpoint = e, ci_tools = rq_tools needs, ci_tool_choice = rq_tool_choice needs, ci_reasoning = rq_reasoning needs,
          ci_prompt_tokens = rq_prompt_tokens needs, ci_text = t, ci_truncated = truncated\<rparr>)"

section \<open>The check of the external provider, and the status the admin view shows\<close>

datatype check_status = CheckOk | ModelNotListed | ApiKeyMissing | InvalidResponse | CheckTimeout | CheckFailed classifier_outcome

record check_report =
  ck_status :: check_status
  ck_model_listed :: "bool option"
  ck_http_status :: "nat option"

text \<open>The head of the answer, and its body within the timeout; \<open>None\<close> in either place is a timeout.\<close>

type_synonym check_exchange = "(bool + nat \<times> u8 list option list option) option"

definition listed_models :: "json_reader \<Rightarrow> u8 list \<Rightarrow> ustr list option" where
  "listed_models rd body =
    Option.bind (rd_body rd body) (\<lambda>response.
      case json_get (ascii ''models'') response of
        Some (JArray models) \<Rightarrow> Some (List.map_filter (\<lambda>model. json_string (json_get (ascii ''name'') model)) models)
      | _ \<Rightarrow> None)"

definition jev_check :: "json_reader \<Rightarrow> jev_classifier \<Rightarrow> check_exchange \<Rightarrow> check_report" where
  "jev_check rd jev exchange =
    (let report = \<lparr>ck_status = CheckOk, ck_model_listed = None, ck_http_status = None\<rparr>
     in if jv_key jev = None then report\<lparr>ck_status := ApiKeyMissing\<rparr>
        else (case exchange of
                None \<Rightarrow> report\<lparr>ck_status := CheckTimeout\<rparr>
              | Some (Inl is_timeout) \<Rightarrow> report\<lparr>ck_status := CheckFailed (transport_failure is_timeout)\<rparr>
              | Some (Inr (code, body)) \<Rightarrow>
                  let report = report\<lparr>ck_http_status := Some code\<rparr>
                  in if \<not> success_status code then report\<lparr>ck_status := CheckFailed (failure_for code)\<rparr>
                     else (case body of
                             None \<Rightarrow> report\<lparr>ck_status := CheckTimeout\<rparr>
                           | Some chunks \<Rightarrow>
                               (case read_limited chunks [] of
                                  None \<Rightarrow> report\<lparr>ck_status := InvalidResponse\<rparr>
                                | Some bytes \<Rightarrow>
                                    (case listed_models rd bytes of
                                       None \<Rightarrow> report\<lparr>ck_status := InvalidResponse\<rparr>
                                     | Some names \<Rightarrow>
                                         let listed = (jv_model jev \<in> set names)
                                         in report\<lparr>ck_model_listed := Some listed,
                                              ck_status := (if listed then CheckOk else ModelNotListed)\<rparr>)))))"

record classifier_status =
  st_last_success :: "u64 option"
  st_last_failure :: "(u64 \<times> classifier_outcome) option"
  st_last_check :: "check_report option"

definition status_record :: "u64 \<Rightarrow> classifier_outcome \<Rightarrow> classifier_status \<Rightarrow> classifier_status" where
  "status_record unix_now outcome st =
    (if provider_answered outcome then st\<lparr>st_last_success := Some unix_now\<rparr>
     else if outcome \<notin> {Nested, RequestBudgetExhausted} then st\<lparr>st_last_failure := Some (unix_now, outcome)\<rparr>
     else st)"

definition status_record_check :: "check_report \<Rightarrow> classifier_status \<Rightarrow> classifier_status" where
  "status_record_check report st = st\<lparr>st_last_check := Some report\<rparr>"

section \<open>What validation gives\<close>

lemma is_auto_same: "route_matches lower a b \<Longrightarrow> is_auto lower a \<longleftrightarrow> is_auto lower b"
  by (simp add: is_auto_def route_matches_def same_name_def)

definition configured_route :: "(ustr \<Rightarrow> ustr) \<Rightarrow> route list \<Rightarrow> ustr \<Rightarrow> bool" where
  "configured_route lower rts name \<longleftrightarrow> name \<in> rt_name ` set rts \<and> \<not> is_auto lower name"

lemma target_Inr:
  assumes "target lower name rts = Inr r"
  shows "configured_route lower rts r \<and> route_matches lower r name"
proof -
  obtain q where q: "find (\<lambda>r. route_matches lower (rt_name r) name) rts = Some q" "r = rt_name q" "\<not> is_auto lower name"
    using assms by (auto simp: target_def split: if_splits option.splits)
  then have "q \<in> set rts" "route_matches lower (rt_name q) name" by (auto simp: find_Some_iff)
  with q is_auto_same show ?thesis by (auto simp: configured_route_def)
qed

lemma configured_is_target: "configured = target"
  by (intro ext) (simp add: configured_def target_def)

lemmas configured_Inr = target_Inr [folded configured_is_target]

definition limits_ok :: "limits \<Rightarrow> bool" where
  "limits_ok li \<longleftrightarrow> unit_range (li_min_confidence li) \<and> 0 < li_timeout li \<and> li_timeout li \<le> 120000
    \<and> 0 < li_max_input_chars li \<and> li_max_input_chars li \<le> MAX_INPUT_CHARS"

lemma validate_limits_clean:
  assumes "validate_limits prefix timeout confidence chars = (found, [])"
  shows "\<exists>li. found = Some li \<and> limits_ok li"
proof -
  have "0 < unat t \<and> unat t \<le> 120000" if "t \<noteq> 0" "\<not> MAX_TIMEOUT_MS < t" for t
    using that by (simp add: MAX_TIMEOUT_MS_def word_less_nat_alt unat_gt_0)
  then show ?thesis
    using assms by (auto simp: validate_limits_def limits_ok_def Let_def word_gt_0 not_less split: option.splits if_splits)
qed

fun provider_ok :: "(ustr \<Rightarrow> ustr) \<Rightarrow> route list \<Rightarrow> classifier_provider \<Rightarrow> bool" where
  "provider_ok lower rts (LightweightProvider l) \<longleftrightarrow> limits_ok (lw_limits l) \<and> configured_route lower rts (lw_route l)"
| "provider_ok lower rts (JevProvider j) \<longleftrightarrow> limits_ok (jv_limits j)"

lemma lightweight_validate_clean:
  assumes "lightweight_validate lower raw rts prefix = (found, [])"
  shows "\<exists>l. found = Some l \<and> provider_ok lower rts (LightweightProvider l)"
proof -
  obtain li problems where li: "validate_limits prefix (lf_timeout_ms raw) (lf_min_confidence raw) (lf_max_input_chars raw) = (li, problems)"
    by fastforce
  with assms obtain r where r: "configured lower (lf_route raw) rts = Inr r"
    "found = map_option (\<lambda>limits. \<lparr>lw_route = r, lw_limits = limits\<rparr>) li" "problems = []"
    by (auto simp: lightweight_validate_def split: sum.splits)
  with validate_limits_clean li configured_Inr show ?thesis by fastforce
qed

lemma jev_validate_clean:
  assumes "jev_validate ex raw is_active env stored = (found, [], [])"
  shows "\<exists>j. found = Some j \<and> limits_ok (jv_limits j) \<and> (is_active \<longrightarrow> jv_key j \<noteq> None)"
proof -
  obtain base p1 where base: "jev_base_url_of ex (jf_base_url raw) = (base, p1)" by fastforce
  obtain model p2 where model: "jev_model_of (jf_model raw) = (model, p2)" by fastforce
  obtain li p3 where li: "validate_limits (ascii ''jev.'') (jf_timeout_ms raw) (jf_min_confidence raw) (jf_max_input_chars raw) = (li, p3)"
    by fastforce
  have "p1 = [] \<and> p2 = [] \<and> p3 = []"
    using assms base model li by (auto simp: jev_validate_def Let_def split: sum.splits)
  then have some: "base \<noteq> None" "model \<noteq> None" "\<exists>l. li = Some l \<and> limits_ok l"
    using base model li validate_limits_clean
    by (auto simp: jev_base_url_of_def jev_model_of_def split: sum.splits if_splits option.splits)
  have key: "\<exists>key source. jev_key_of is_active (jf_api_key_env raw) env stored = Inr (key, source) \<and> (is_active \<longrightarrow> key \<noteq> None)"
    using assms base model li
    by (auto simp: jev_validate_def jev_key_of_def read_secret_def Let_def split: sum.splits prod.splits option.splits if_splits)
  with some assms base model li show ?thesis by (auto simp: jev_validate_def Let_def)
qed

definition classifier_ok :: "(ustr \<Rightarrow> ustr) \<Rightarrow> route list \<Rightarrow> route_classifier \<Rightarrow> bool" where
  "classifier_ok lower rts cl \<longleftrightarrow> cl_candidates cl \<noteq> [] \<and> length (cl_candidates cl) \<le> MAX_CANDIDATES
    \<and> distinct (map ch_route (cl_candidates cl)) \<and> list_all (\<lambda>c. configured_route lower rts (ch_route c)) (cl_candidates cl)
    \<and> configured_route lower rts (cl_fallback cl) \<and> provider_ok lower rts (cl_provider cl)
    \<and> (case cl_standby cl of None \<Rightarrow> True | Some p \<Rightarrow> provider_ok lower rts p)
    \<and> (case cl_provider cl of JevProvider j \<Rightarrow> jv_key j \<noteq> None | _ \<Rightarrow> True)"

lemma add_candidates_clean:
  assumes "fold (add_candidate lower rts) names ([], problems) = (candidates, [])"
  shows "problems = [] \<and> length candidates = length names \<and> distinct (map ch_route candidates)
    \<and> list_all (\<lambda>c. configured_route lower rts (ch_route c)) candidates"
proof -
  let ?keeps = "\<lambda>done (cs, _). length cs = length (done :: ustr list) \<and> distinct (map ch_route cs)
    \<and> list_all (\<lambda>c. configured_route lower rts (ch_route c)) (cs :: route_choice list)"
  have "snd ([] :: route_choice list, problems) = [] \<and> ?keeps names (fold (add_candidate lower rts) names ([], problems))"
  proof (rule fold_clean [where clean = "\<lambda>s. snd s = []"])
    fix x and s :: "route_choice list \<times> classifier_problem list"
    assume "snd (add_candidate lower rts x s) = []"
    then show "snd s = []" by (cases s) (auto simp: add_candidate_def split: sum.splits if_splits)
  next
    fix "done" x and s :: "route_choice list \<times> classifier_problem list"
    assume keeps: "?keeps done s" and clean: "snd (add_candidate lower rts x s) = []"
    obtain cs ps where s: "s = (cs, ps)" by (cases s)
    from clean s obtain r where "configured lower x rts = Inr r" "\<not> list_ex (\<lambda>c. ch_route c = r) cs"
      by (auto simp: add_candidate_def split: sum.splits if_splits)
    with keeps s configured_Inr [of lower x rts r] show "?keeps (done @ [x]) (add_candidate lower rts x s)"
      by (auto simp: add_candidate_def list_ex_iff)
  qed (use assms in simp_all)
  with assms show ?thesis by simp
qed

lemma lightweight_settings_None:
  "lightweight_settings raw = (None, []) \<Longrightarrow> cs_lightweight raw = None \<and> cs_route raw = None"
  by (auto simp: lightweight_settings_def Let_def split: option.splits bool.splits)

text \<open>The errors only grow, so a section that leaves none was checked from none, and every part of it passed.\<close>

lemma classifier_validate_clean:
  assumes "classifier_validate ex raw rts auto_fallback env stored errors = (found, [])"
  shows "errors = [] \<and> (\<exists>cl. found = Some cl \<and> classifier_ok (sx_lower ex) rts cl)"
proof -
  let ?name = "case cs_fallback_route raw of Some name \<Rightarrow> name | None \<Rightarrow> auto_fallback"
  obtain fallback p0 where fallback: "(case configured (sx_lower ex) ?name rts of
      Inr r \<Rightarrow> (Some r, []) | Inl problem \<Rightarrow> (None, [ClFallback ?name problem])) = (fallback, p0)" by fastforce
  define p1 where "p1 = (p0 @ (if cs_routes raw = [] then [ClNoRoutes] else [])) @
    (if length (cs_routes raw) > MAX_CANDIDATES then [ClTooManyRoutes (length (cs_routes raw))] else [])"
  obtain candidates p2 where candidates: "fold (add_candidate (sx_lower ex) rts) (cs_routes raw) ([], p1) = (candidates, p2)"
    by fastforce
  obtain f form where f: "lightweight_settings raw = (f, form)" by fastforce
  obtain lw p3 where lw: "(case f of None \<Rightarrow> (None, []) | Some (f, prefix) \<Rightarrow> lightweight_validate (sx_lower ex) f rts prefix) = (lw, p3)"
    by fastforce
  obtain jev p4 errors1 where jev: "(case cs_jev raw of None \<Rightarrow> (None, [], errors)
      | Some f \<Rightarrow> (case jev_validate ex f (cs_provider raw = ByJev) env stored of
          (jev, checked, env_errors) \<Rightarrow> (jev, checked, errors @ env_errors))) = (jev, p4, errors1)"
    by (metis prod_cases3)
  define p5 where "p5 = (if cs_provider raw = ByLightweight \<and> f = None then [ClNeedsLightweight]
    else if cs_provider raw = ByJev \<and> cs_jev raw = None then [ClNeedsJev] else [])"
  define whole where "whole = ((p2 @ form) @ p3) @ p4 @ p5"
  let ?sides = "case cs_provider raw of ByLightweight \<Rightarrow> (map_option LightweightProvider lw, map_option JevProvider jev)
      | ByJev \<Rightarrow> (map_option JevProvider jev, map_option LightweightProvider lw)"
  have run: "classifier_validate ex raw rts auto_fallback env stored errors =
      (if length (errors1 @ map BadAutoClassifier whole) > length errors then (None, errors1 @ map BadAutoClassifier whole)
       else (case (fst ?sides, fallback) of
         (Some provider, Some fallback) \<Rightarrow> (Some \<lparr>cl_candidates = candidates, cl_fallback = fallback, cl_provider = provider,
             cl_standby = snd ?sides\<rparr>, errors1 @ map BadAutoClassifier whole)
       | _ \<Rightarrow> (None, errors1 @ map BadAutoClassifier whole)))"
    unfolding classifier_validate_def Let_def fallback prod.case p1_def [symmetric] candidates f lw jev
      p5_def [symmetric] whole_def [symmetric]
    by (cases "cs_provider raw") (simp_all only: provider_kind.case prod.case fst_conv snd_conv)
  then have "errors1 @ map BadAutoClassifier whole = []" using assms by (auto split: if_splits option.splits)
  then have clean: "errors1 = []" "p2 = []" "form = []" "p3 = []" "p4 = []" "p5 = []" by (simp_all add: whole_def)
  have errors: "errors = []" using jev clean by (auto split: option.splits prod.splits)
  from add_candidates_clean [OF candidates [unfolded clean]]
  have cands: "p1 = []" "length candidates = length (cs_routes raw)" "distinct (map ch_route candidates)"
    "list_all (\<lambda>c. configured_route (sx_lower ex) rts (ch_route c)) candidates" by auto
  then have "p0 = []" "candidates \<noteq> []" "length candidates \<le> MAX_CANDIDATES"
    by (auto simp: p1_def split: if_splits)
  moreover from \<open>p0 = []\<close> obtain r where "fallback = Some r" "configured_route (sx_lower ex) rts r"
    using fallback configured_Inr by (auto split: sum.splits)
  moreover have "\<exists>l. lw = Some l \<and> provider_ok (sx_lower ex) rts (LightweightProvider l)" if "f \<noteq> None"
    using that lw clean(4) lightweight_validate_clean by (auto split: prod.splits)
  moreover have "lw = None" if "f = None" using that lw by simp
  moreover have "\<exists>j. jev = Some j \<and> limits_ok (jv_limits j) \<and> (cs_provider raw = ByJev \<longrightarrow> jv_key j \<noteq> None)"
    if "cs_jev raw \<noteq> None"
    using that jev clean(1,5) jev_validate_clean by (fastforce split: prod.splits)
  moreover have "jev = None" if "cs_jev raw = None" using that jev by simp
  moreover have "f \<noteq> None" if "cs_provider raw = ByLightweight" using that clean(6) by (cases f) (auto simp: p5_def)
  moreover have "cs_jev raw \<noteq> None" if "cs_provider raw = ByJev" using that clean(6) by (cases "cs_jev raw") (auto simp: p5_def)
  ultimately show ?thesis using run assms errors clean cands(3,4)
    by (cases "cs_provider raw"; cases "f = None"; cases "cs_jev raw = None") (auto simp: classifier_ok_def whole_def)
qed

section \<open>What a classification gives\<close>

lemma read_limited_bound: "read_limited chunks collected = Some body \<Longrightarrow> length collected \<le> RESPONSE_LIMIT \<Longrightarrow> length body \<le> RESPONSE_LIMIT"
  by (induction chunks collected rule: read_limited.induct) (auto split: if_splits)

lemma input_read_bound: "length (ci_text (input_read e chat prompts needs max_chars)) \<le> max_chars"
  by (simp add: input_read_def truncate_text_def Let_def)

lemma or_fail_Inr [simp]: "or_fail v e = Inr x \<longleftrightarrow> v = Some x"
  by (auto simp: or_fail_def split: option.splits)

definition verdict_of :: "route_choice list \<Rightarrow> verdict \<Rightarrow> bool" where
  "verdict_of candidates v \<longleftrightarrow> vd_route v \<in> ch_route ` set candidates \<and> unit_range (vd_confidence v)"

lemma confidence_of_Some: "confidence_of v = Some c \<Longrightarrow> unit_range c"
  by (auto simp: confidence_of_def split: option.splits if_splits)

lemma parse_answer_Inr: "parse_answer lower rd body candidates = Inr v \<Longrightarrow> verdict_of candidates v"
  by (auto simp: parse_answer_def and_then_Inr_iff verdict_of_def find_Some_iff dest: confidence_of_Some)

lemma parse_response_Inr: "parse_response rd body candidates = Inr v \<Longrightarrow> verdict_of candidates v"
  by (auto simp: parse_response_def and_then_Inr_iff verdict_of_def find_Some_iff dest: confidence_of_Some split: if_splits)

lemma lightweight_call_Inr: "lightweight_call lower rd candidates response = Inr v \<Longrightarrow> verdict_of candidates v"
  by (auto simp: lightweight_call_def split: if_splits option.splits sum.splits dest: parse_answer_Inr)

lemma jev_call_Inr: "jev_call rd jev candidates exchange = Inr v \<Longrightarrow> verdict_of candidates v"
  by (auto simp: jev_call_def split: if_splits option.splits sum.splits jev_exchange.splits dest: parse_response_Inr)

text \<open>What a finished classification can be.\<close>

definition classification_ok :: "route_classifier \<Rightarrow> classification \<Rightarrow> bool" where
  "classification_ok cl cn \<longleftrightarrow>
    (case cn_verdict cn of
       None \<Rightarrow> cn_outcome cn \<notin> {Chosen, LowConfidence}
     | Some v \<Rightarrow> verdict_of (cl_candidates cl) v
         \<and> cn_outcome cn = (if f64_lt (vd_confidence v) (li_min_confidence (provider_limits (cl_provider cl)))
             then LowConfidence else Chosen))"

lemma call_outcome:
  "lightweight_call lower rd candidates response = Inl out \<Longrightarrow> out \<notin> {Chosen, LowConfidence}"
  "jev_call rd jev candidates exchange = Inl out \<Longrightarrow> out \<notin> {Chosen, LowConfidence}"
  by (auto simp: lightweight_call_def jev_call_def failure_for_def transport_failure_def
      split: if_splits option.splits sum.splits jev_exchange.splits)

lemma classify_ok: "classification_ok cl (classify lower rd cl side request_id truncated budget now)"
proof (cases "expired now budget")
  case True
  then show ?thesis by (simp add: classify_def classification_ok_def)
next
  case False
  show ?thesis
    by (cases "cl_provider cl")
      (auto simp: classify_def False classification_ok_def Let_def call_outcome split: sum.split option.split
        dest: lightweight_call_Inr jev_call_Inr call_outcome)
qed

lemma classification_route_ok:
  assumes "classification_ok cl cn"
  shows "classification_route cl cn \<in> insert (cl_fallback cl) (ch_route ` set (cl_candidates cl))"
  using assms
  by (auto simp: classification_ok_def classification_route_def verdict_of_def split: option.splits classifier_outcome.splits if_splits)

end
