(* ===== verification/Router_Scoring.thy ===== *)
theory Router_Scoring
  imports Router_Classifier "HOL-Library.Option_ord"
begin

text \<open>
  Adaptive scoring, \<open>lightweight-router/src/scoring/mod.rs\<close>: the section, its validation with the bound on what
  the priors may move, and the contest between the accepted verdict and the fallback, in \<open>f64\<close> arithmetic. The
  observations of the route history that the trace shows beside a score are not modelled; no score reads them.
\<close>

section \<open>The section\<close>

definition MIN_HALF_LIFE_SECS :: u64 where "MIN_HALF_LIFE_SECS = 60"
definition MAX_HALF_LIFE_SECS :: u64 where "MAX_HALF_LIFE_SECS = 604800"
definition DEFAULT_HALF_LIFE_SECS :: u64 where "DEFAULT_HALF_LIFE_SECS = 3600"
definition DEFAULT_MIN_SAMPLES :: u32 where "DEFAULT_MIN_SAMPLES = 20"
definition MAX_SAMPLES :: u32 where "MAX_SAMPLES = 10000"

record weights =
  we_classifier :: f64
  we_prior :: f64
  we_history :: f64

record history_file =
  hi_half_life_secs :: u64
  hi_min_samples :: u32
  hi_shrinkage_samples :: "u32 option"

text \<open>The priors of the file, in the order of a \<open>BTreeMap\<close>: by name.\<close>

record scoring_file =
  sc_enabled :: bool
  sc_weights :: weights
  sc_priors :: "(ustr \<times> f64) list"
  sc_history :: history_file

record history_policy =
  hp_half_life :: nat
  hp_min_samples :: u32
  hp_shrinkage_samples :: u32

record adaptive_scoring =
  as_enabled :: bool
  as_weights :: weights
  as_priors :: "(ustr \<times> f64) list"
  as_history :: history_policy

definition influence_radius :: "weights \<Rightarrow> f64" where
  "influence_radius w = f64_div (we_prior w) (we_classifier w)"

definition prior_of :: "adaptive_scoring \<Rightarrow> ustr \<Rightarrow> f64" where
  "prior_of sc name = (case find (\<lambda>(r, _). r = name) (as_priors sc) of Some (_, prior) \<Rightarrow> prior | None \<Rightarrow> 0)"

definition classifier_baseline :: "route_classifier \<Rightarrow> f64" where
  "classifier_baseline cl = li_min_confidence (provider_limits (cl_provider cl))"

section \<open>The contest\<close>

datatype scoring_reason = Scored | Uncontested | BelowThreshold | NoVerdict | InternalError

datatype classifier_basis = VerdictBasis | BaselineBasis

record candidate_score =
  cr_route :: ustr
  cr_basis :: classifier_basis
  cr_classifier_signal :: f64
  cr_prior_signal :: f64
  cr_total :: f64

record scoring_decision =
  sd_route :: ustr
  sd_reason :: scoring_reason
  sd_classified :: ustr
  sd_overrode :: bool
  sd_rejected :: "verdict option"
  sd_candidates :: "candidate_score list"

definition score_of :: "adaptive_scoring \<Rightarrow> ustr \<Rightarrow> classifier_basis \<Rightarrow> f64 \<Rightarrow> candidate_score" where
  "score_of sc name basis confidence =
    (let classifier_signal = f64_mul (we_classifier (as_weights sc)) confidence;
         prior_signal = f64_mul (we_prior (as_weights sc)) (prior_of sc name)
     in \<lparr>cr_route = name, cr_basis = basis, cr_classifier_signal = classifier_signal,
          cr_prior_signal = prior_signal, cr_total = f64_add classifier_signal prior_signal\<rparr>)"

definition scoring_decide :: "adaptive_scoring \<Rightarrow> classification \<Rightarrow> route_classifier \<Rightarrow> scoring_decision" where
  "scoring_decide sc cn cl =
    (let classified = classification_route cl cn;
         start = \<lparr>sd_route = classified, sd_reason = NoVerdict, sd_classified = classified, sd_overrode = False,
                  sd_rejected = None, sd_candidates = []\<rparr>
     in case (cn_verdict cn, cn_outcome cn) of
          (Some v, Chosen) \<Rightarrow>
            (let mine = score_of sc (vd_route v) VerdictBasis (vd_confidence v)
             in if vd_route v = cl_fallback cl
                then start\<lparr>sd_route := vd_route v, sd_reason := Uncontested, sd_candidates := [mine]\<rparr>
                else
                  let other = score_of sc (cl_fallback cl) BaselineBasis (classifier_baseline cl);
                      contest = start\<lparr>sd_candidates := [mine, other]\<rparr>
                  in if \<not> (is_finite (cr_total mine) \<and> is_finite (cr_total other))
                     then contest\<lparr>sd_reason := InternalError\<rparr>
                     else
                       let winner = (if f64_lt (cr_total mine) (cr_total other) then cl_fallback cl else vd_route v)
                       in contest\<lparr>sd_route := winner, sd_reason := Scored, sd_overrode := (winner \<noteq> classified)\<rparr>)
        | (Some rejected, LowConfidence) \<Rightarrow>
            start\<lparr>sd_reason := BelowThreshold, sd_rejected := Some rejected\<rparr>
        | _ \<Rightarrow> start)"

section \<open>Validation\<close>

definition contenders :: "route_classifier \<Rightarrow> ustr list" where
  "contenders cl = map ch_route (cl_candidates cl) @ [cl_fallback cl]"

definition weight_problems :: "weights \<Rightarrow> scoring_problem list" where
  "weight_problems w =
    (if is_finite (we_classifier w) \<and> f64_lt 0 (we_classifier w) \<and> f64_le (we_classifier w) F64_ONE then [] else [ScClassifierWeight]) @
    (if is_finite (we_prior w) \<and> unit_range (we_prior w) then [] else [ScPriorWeight]) @
    (if f64_eq (we_history w) 0 then [] else [ScHistoryWeight])"

definition history_problems :: "history_file \<Rightarrow> scoring_problem list" where
  "history_problems hi =
    (if MIN_HALF_LIFE_SECS \<le> hi_half_life_secs hi \<and> hi_half_life_secs hi \<le> MAX_HALF_LIFE_SECS then [] else [ScHalfLife]) @
    (if 1 \<le> hi_min_samples hi \<and> hi_min_samples hi \<le> MAX_SAMPLES then [] else [ScMinSamples]) @
    (let shrinkage = (case hi_shrinkage_samples hi of Some n \<Rightarrow> n | None \<Rightarrow> hi_min_samples hi)
     in if 1 \<le> shrinkage \<and> shrinkage \<le> MAX_SAMPLES then [] else [ScShrinkage])"

definition add_prior :: "(ustr \<Rightarrow> ustr) \<Rightarrow> ustr list \<Rightarrow> ustr \<times> f64
    \<Rightarrow> (ustr \<times> f64) list \<times> scoring_problem list \<Rightarrow> (ustr \<times> f64) list \<times> scoring_problem list" where
  "add_prior lower names = (\<lambda>(name, prior) (priors, problems).
    if is_auto lower name then (priors, problems @ [ScPriorTarget name IsAuto])
    else if is_reserved name then (priors, problems @ [ScPriorTarget name IsReserved])
    else (case find (\<lambda>r. route_matches lower r name) names of
            None \<Rightarrow> (priors, problems @ [ScPriorTarget name NotConfigured])
          | Some r \<Rightarrow>
              if \<not> (is_finite prior \<and> unit_range prior) then (priors, problems @ [ScPriorRange name])
              else if list_ex (\<lambda>(seen, _). seen = r) priors then (priors, problems @ [ScPriorTwice r])
              else (priors @ [(r, prior)], problems)))"

definition influence_problems :: "weights \<Rightarrow> classifier_provider list \<Rightarrow> scoring_problem list" where
  "influence_problems w providers =
    (let radius = influence_radius w
     in map (\<lambda>p. ScTooInfluential (provider_kind_of p))
          (filter (\<lambda>p. f64_lt 0 radius
             \<and> f64_le (f64_mul F64_HALF (f64_sub F64_ONE (li_min_confidence (provider_limits p)))) radius) providers))"

definition providers :: "route_classifier \<Rightarrow> classifier_provider list" where
  "providers cl = cl_provider cl # (case cl_standby cl of None \<Rightarrow> [] | Some p \<Rightarrow> [p])"

definition scoring_validate :: "(ustr \<Rightarrow> ustr) \<Rightarrow> scoring_file \<Rightarrow> route_classifier option \<Rightarrow> bool
    \<Rightarrow> config_error list \<Rightarrow> adaptive_scoring option \<times> config_error list" where
  "scoring_validate lower raw classifier written errors =
    (let ill = weight_problems (sc_weights raw);
         (priors, problems) = (case classifier of
             None \<Rightarrow> ([], ill @ history_problems (sc_history raw) @ (if \<not> written then [ScNoClassifier] else []))
           | Some cl \<Rightarrow>
               (let (priors, problems) = fold (add_prior lower (contenders cl)) (sc_priors raw)
                      ([], ill @ history_problems (sc_history raw))
                in (sort_key (\<lambda>(r, _). index_where (\<lambda>c. c = r) (contenders cl)) priors,
                    problems @ (if ill = [] then influence_problems (sc_weights raw) (providers cl) else []))))
     in if problems \<noteq> [] then (None, errors @ map BadAdaptiveScoring problems)
        else (Some \<lparr>as_enabled = sc_enabled raw, as_weights = sc_weights raw, as_priors = priors,
               as_history = \<lparr>hp_half_life = from_secs (hi_half_life_secs (sc_history raw)),
                 hp_min_samples = hi_min_samples (sc_history raw),
                 hp_shrinkage_samples = (case hi_shrinkage_samples (sc_history raw) of
                   Some n \<Rightarrow> n | None \<Rightarrow> hi_min_samples (sc_history raw))\<rparr>\<rparr>, errors))"

section \<open>What validation gives\<close>

definition scoring_ok :: "route_classifier \<Rightarrow> adaptive_scoring \<Rightarrow> bool" where
  "scoring_ok cl sc \<longleftrightarrow> unit_range (we_classifier (as_weights sc)) \<and> f64_mag (we_classifier (as_weights sc)) \<noteq> 0
    \<and> unit_range (we_prior (as_weights sc)) \<and> f64_eq (we_history (as_weights sc)) 0
    \<and> list_all (\<lambda>(r, prior). r \<in> set (contenders cl) \<and> unit_range prior) (as_priors sc)
    \<and> distinct (map fst (as_priors sc))"

lemma weight_problems_none:
  assumes "weight_problems w = []"
  shows "unit_range (we_classifier w) \<and> f64_mag (we_classifier w) \<noteq> 0 \<and> unit_range (we_prior w) \<and> f64_eq (we_history w) 0"
proof -
  have w: "f64_lt 0 (we_classifier w)" "f64_le (we_classifier w) F64_ONE" "unit_range (we_prior w)" "f64_eq (we_history w) 0"
    using assms by (auto simp: weight_problems_def split: if_splits)
  have "unit_range (we_classifier w)" using w(1,2) by (auto simp: unit_range_def f64_lt_def f64_le_def)
  moreover have "f64_mag (we_classifier w) \<noteq> 0" 
  proof -
    have "0 < f64_key (we_classifier w)" using w(1) by (simp add: f64_lt_def f64_key_ONE)
    then show ?thesis by (auto simp: f64_key_def split: if_splits)
  qed
  ultimately show ?thesis using w(3,4) by simp
qed

lemma add_priors_clean:
  assumes "fold (add_prior lower names) raw ([], problems) = (priors, [])"
  shows "problems = [] \<and> list_all (\<lambda>(r, prior). r \<in> set names \<and> unit_range prior) priors \<and> distinct (map fst priors)"
proof -
  let ?keeps = "\<lambda>done (priors, _). list_all (\<lambda>(r, prior). r \<in> set names \<and> unit_range prior) priors
    \<and> distinct (map fst (priors :: (ustr \<times> f64) list))"
  have "snd ([] :: (ustr \<times> f64) list, problems) = [] \<and> ?keeps raw (fold (add_prior lower names) raw ([], problems))"
  proof (rule fold_clean [where clean = "\<lambda>s. snd s = []"])
    fix x and s :: "(ustr \<times> f64) list \<times> scoring_problem list"
    assume "snd (add_prior lower names x s) = []"
    then show "snd s = []" by (cases s; cases x) (auto simp: add_prior_def split: option.splits if_splits)
  next
    fix "done" :: "(ustr \<times> f64) list" and x and s :: "(ustr \<times> f64) list \<times> scoring_problem list"
    assume keeps: "?keeps done s" and clean: "snd (add_prior lower names x s) = []"
    obtain ps qs where s: "s = (ps, qs)" by (cases s)
    obtain name prior where x: "x = (name, prior)" by (cases x)
    from clean s x obtain r where "find (\<lambda>r. route_matches lower r name) names = Some r" "unit_range prior"
      "\<not> list_ex (\<lambda>(seen, _). seen = r) ps" "add_prior lower names x s = (ps @ [(r, prior)], qs)"
      by (auto simp: add_prior_def split: option.splits if_splits)
    with keeps s show "?keeps (done @ [x]) (add_prior lower names x s)"
      by (auto simp: find_Some_iff list_ex_iff)
  qed (use assms in simp_all)
  with assms show ?thesis by simp
qed

lemma scoring_validate_clean:
  assumes "scoring_validate lower raw classifier written errors = (found, [])" "classifier = None \<longrightarrow> \<not> written"
  shows "errors = [] \<and> (\<exists>cl sc. classifier = Some cl \<and> found = Some sc \<and> scoring_ok cl sc)"
proof (cases classifier)
  case None
  with assms show ?thesis by (auto simp: scoring_validate_def Let_def)
next
  case (Some cl)
  obtain priors problems where priors: "fold (add_prior lower (contenders cl)) (sc_priors raw)
      ([], weight_problems (sc_weights raw) @ history_problems (sc_history raw)) = (priors, problems)" by fastforce
  have clean: "problems = []" "errors = []"
    "found = Some \<lparr>as_enabled = sc_enabled raw, as_weights = sc_weights raw,
       as_priors = sort_key (\<lambda>(r, _). index_where (\<lambda>c. c = r) (contenders cl)) priors,
       as_history = \<lparr>hp_half_life = from_secs (hi_half_life_secs (sc_history raw)),
         hp_min_samples = hi_min_samples (sc_history raw),
         hp_shrinkage_samples = (case hi_shrinkage_samples (sc_history raw) of
           Some n \<Rightarrow> n | None \<Rightarrow> hi_min_samples (sc_history raw))\<rparr>\<rparr>"
    using assms(1) Some priors by (auto simp: scoring_validate_def Let_def split: if_splits)
  from add_priors_clean [OF priors [unfolded clean]] weight_problems_none [of "sc_weights raw"]
  have "scoring_ok cl (the found)"
    by (auto simp: scoring_ok_def clean(3) list_all_iff distinct_map inj_on_def)
  with clean Some show ?thesis by simp
qed

section \<open>What the contest gives\<close>

lemma prior_of_unit: "scoring_ok cl sc \<Longrightarrow> unit_range (prior_of sc name)"
proof -
  have "unit_range 0" by (simp add: unit_range_def f64_le_def f64_key_ONE F64_ONE_MAG_def)
  moreover assume "scoring_ok cl sc"
  ultimately show ?thesis
    by (fastforce simp: scoring_ok_def prior_of_def list_all_iff split: option.splits dest: find_SomeD)
qed

lemma score_finite:
  assumes "scoring_ok cl sc" "unit_range confidence"
  shows "is_finite (cr_total (score_of sc name basis confidence)) \<and> \<not> is_nan (cr_total (score_of sc name basis confidence))"
proof -
  have "unit_range (f64_mul (we_classifier (as_weights sc)) confidence)"
    "unit_range (f64_mul (we_prior (as_weights sc)) (prior_of sc name))"
    using assms f64_mul_unit prior_of_unit [OF assms(1)] by (simp_all add: scoring_ok_def)
  with f64_add_unit show ?thesis by (simp add: score_of_def Let_def)
qed

text \<open>A verdict at or above the bar whose prior signal is not below the fallback's is not overturned: the
  rounded products and sums keep the order.\<close>

lemma verdict_keeps:
  assumes "scoring_ok cl sc" "unit_range confidence" "unit_range base" "f64_le base confidence"
    and "f64_le (prior_of sc other) (prior_of sc mine) \<or> f64_mag (we_prior (as_weights sc)) = 0"
  shows "\<not> f64_lt (cr_total (score_of sc mine b confidence)) (cr_total (score_of sc other b' base))"
proof -
  let ?c = "we_classifier (as_weights sc)" and ?p = "we_prior (as_weights sc)"
  have u: "unit_range ?c" "unit_range ?p" using assms(1) by (simp_all add: scoring_ok_def)
  note priors = prior_of_unit [OF assms(1), of other] prior_of_unit [OF assms(1), of mine]
  note products = f64_mul_unit [OF u(2) priors(1), THEN conjunct1] f64_mul_unit [OF u(2) priors(2), THEN conjunct1]
    f64_mul_unit [OF u(1) assms(3), THEN conjunct1] f64_mul_unit [OF u(1) assms(2), THEN conjunct1]
  have "f64_le (f64_mul ?p (prior_of sc other)) (f64_mul ?p (prior_of sc mine))"
  proof (cases "f64_mag ?p = 0")
    case True
    with u priors products f64_mul_zero show ?thesis by (simp add: unit_range_le)
  next
    case False
    with assms(5) f64_mul_mono [OF u(2) priors] show ?thesis by blast
  qed
  moreover have "f64_le (f64_mul ?c base) (f64_mul ?c confidence)" by (rule f64_mul_mono) (fact u assms)+
  ultimately have "f64_le (cr_total (score_of sc other b' base)) (cr_total (score_of sc mine b confidence))"
    unfolding score_of_def Let_def using f64_add_mono products by simp
  then show ?thesis using f64_le_total by (auto simp: f64_le_def f64_lt_def)
qed

lemma classified_confidence:
  assumes "classification_ok cl cn" "cn_outcome cn = Chosen" "limits_ok (provider_limits (cl_provider cl))"
  shows "\<exists>v. cn_verdict cn = Some v \<and> classification_route cl cn = vd_route v \<and> verdict_of (cl_candidates cl) v
    \<and> f64_le (classifier_baseline cl) (vd_confidence v) \<and> unit_range (classifier_baseline cl)"
proof -
  obtain v where "cn_verdict cn = Some v" "verdict_of (cl_candidates cl) v"
    "\<not> f64_lt (vd_confidence v) (classifier_baseline cl)"
    using assms by (auto simp: classification_ok_def classifier_baseline_def split: option.splits if_splits)
  then show ?thesis using assms f64_le_total unit_range_finite
    by (auto simp: classification_route_def limits_ok_def classifier_baseline_def verdict_of_def)
qed

lemma scoring_decide_cases:
  assumes "classification_ok cl cn" "scoring_ok cl sc" "limits_ok (provider_limits (cl_provider cl))"
  shows "sd_reason (scoring_decide sc cn cl) \<noteq> InternalError
    \<and> sd_route (scoring_decide sc cn cl) \<in> {classification_route cl cn, cl_fallback cl}
    \<and> (cn_outcome cn \<noteq> Chosen \<longrightarrow> sd_route (scoring_decide sc cn cl) = cl_fallback cl)
    \<and> (f64_le (prior_of sc (cl_fallback cl)) (prior_of sc (classification_route cl cn)) \<or> f64_mag (we_prior (as_weights sc)) = 0
        \<longrightarrow> sd_route (scoring_decide sc cn cl) = classification_route cl cn)
    \<and> (sd_overrode (scoring_decide sc cn cl) \<longleftrightarrow> sd_route (scoring_decide sc cn cl) \<noteq> classification_route cl cn)"
proof (cases "cn_outcome cn = Chosen")
  case True
  from classified_confidence [OF assms(1) True assms(3)] obtain v where v: "cn_verdict cn = Some v"
    "classification_route cl cn = vd_route v" "verdict_of (cl_candidates cl) v"
    "f64_le (classifier_baseline cl) (vd_confidence v)" "unit_range (classifier_baseline cl)" by blast
  have conf: "unit_range (vd_confidence v)" using v(3) by (simp add: verdict_of_def)
  have "\<not> f64_lt (cr_total (score_of sc (vd_route v) b (vd_confidence v)))
        (cr_total (score_of sc (cl_fallback cl) b' (classifier_baseline cl)))"
    if "f64_le (prior_of sc (cl_fallback cl)) (prior_of sc (vd_route v)) \<or> f64_mag (we_prior (as_weights sc)) = 0" for b b'
    using that verdict_keeps assms(2) conf v(4,5) by blast
  with True v score_finite [OF assms(2) conf] score_finite [OF assms(2) v(5)] show ?thesis
    by (auto simp: scoring_decide_def Let_def)
next
  case False
  then have "classification_route cl cn = cl_fallback cl"
    by (auto simp: classification_route_def split: option.splits classifier_outcome.splits)
  with False show ?thesis
    by (auto simp: scoring_decide_def Let_def split: option.splits classifier_outcome.splits)
qed

text \<open>C18. Adaptive scoring only ever chooses between the route the classification resolved to and the fallback; a
  verdict that was not accepted never comes back; the internal-error branch is unreachable with an accepted
  section; and while the prior weight is zero, or the verdict's prior is no smaller than the fallback's, the
  result is the classification's, rounding of the products and sums included.\<close>

theorem scoring_contest:
  assumes "scoring_validate lower raw (Some cl) True [] = (Some sc, [])" "limits_ok (provider_limits (cl_provider cl))"
    and "cn = classify lower rd cl side request_id truncated budget now" "decision = scoring_decide sc cn cl"
  shows "sd_reason decision \<noteq> InternalError \<and> sd_route decision \<in> {classification_route cl cn, cl_fallback cl}
    \<and> (cn_outcome cn \<noteq> Chosen \<longrightarrow> sd_route decision = cl_fallback cl)
    \<and> (f64_le (prior_of sc (cl_fallback cl)) (prior_of sc (classification_route cl cn)) \<or> f64_eq (we_prior (as_weights sc)) 0
        \<longrightarrow> sd_route decision = classification_route cl cn)
    \<and> (sd_overrode decision \<longleftrightarrow> sd_route decision \<noteq> classification_route cl cn)"
proof -
  have ok: "scoring_ok cl sc" using scoring_validate_clean [OF assms(1)] by simp
  have zero: "f64_mag x = 0" if "f64_eq x 0" for x
    using that by (auto simp: f64_eq_def f64_key_ONE) (auto simp: f64_key_def split: if_splits)
  have "classification_ok cl cn" unfolding assms(3) by (rule classify_ok)
  from scoring_decide_cases [OF this ok assms(2)] zero [of "we_prior (as_weights sc)"] show ?thesis
    unfolding assms(4) by auto
qed

section \<open>The bound on the priors and rounding\<close>

text \<open>\<open>weights.classifier = 0.58\<close>, \<open>weights.prior = 0.087\<close>, a threshold of \<open>0.7\<close> and a verdict of \<open>0.85\<close>.\<close>

definition demo_weights :: weights where
  "demo_weights = \<lparr>we_classifier = 0x3fe28f5c28f5c28f, we_prior = 0x3fb645a1cac08312, we_history = 0\<rparr>"

definition demo_classifier :: route_classifier where
  "demo_classifier =
    \<lparr>cl_candidates = [\<lparr>ch_route = ascii ''Coder'', ch_description = None\<rparr>], cl_fallback = ascii ''General'',
     cl_provider = LightweightProvider \<lparr>lw_route = ascii ''Q'',
       lw_limits = \<lparr>li_timeout = 30000, li_min_confidence = 0x3fe6666666666666, li_max_input_chars = 2000\<rparr>\<rparr>,
     cl_standby = None\<rparr>"

definition demo_scoring_file :: scoring_file where
  "demo_scoring_file = \<lparr>sc_enabled = True, sc_weights = demo_weights, sc_priors = [(ascii ''General'', F64_ONE)],
     sc_history = \<lparr>hi_half_life_secs = DEFAULT_HALF_LIFE_SECS, hi_min_samples = DEFAULT_MIN_SAMPLES, hi_shrinkage_samples = None\<rparr>\<rparr>"

definition demo_scoring :: adaptive_scoring where
  "demo_scoring = \<lparr>as_enabled = True, as_weights = demo_weights, as_priors = [(ascii ''General'', F64_ONE)],
     as_history = \<lparr>hp_half_life = 3600000, hp_min_samples = 20, hp_shrinkage_samples = 20\<rparr>\<rparr>"

definition demo_verdict :: classification where
  "demo_verdict = \<lparr>cn_provider = ByLightweight, cn_outcome = Chosen,
     cn_verdict = Some \<lparr>vd_route = ascii ''Coder'', vd_confidence = 0x3feb333333333333, vd_model = None\<rparr>,
     cn_duration = 0, cn_request_id = [], cn_input_truncated = False\<rparr>"

lemma demo_normal:
  "normal 0x3fe28f5c28f5c28f 1021 5224175567749775" "normal 0x3feb333333333333 1021 7656119366529843"
  "normal 0x3fb645a1cac08312 1018 6269010681299730" "normal F64_ONE 1022 4503599627370496"
  "normal 0x3fe6666666666666 1021 6305039478318694" "normal F64_HALF 1021 4503599627370496"
  "normal 0x3fd3333333333334 1020 5404319552844596" "normal 0x3fdf8d4fdf3b6459 1020 8881098465174617"
  "normal 0x3fd9fbe76c8b4395 1020 7313845794849685"
  by (simp_all add: normal_def f64_mag_def f64_neg_def F64_ONE_def F64_HALF_def)

lemma demo_arithmetic:
  "f64_div 0x3fb645a1cac08312 0x3fe28f5c28f5c28f = 0x3fc3333333333333"
  "f64_mul F64_HALF (f64_sub F64_ONE 0x3fe6666666666666) = 0x3fc3333333333334"
  "f64_mul 0x3fe28f5c28f5c28f 0x3feb333333333333 = 0x3fdf8d4fdf3b6459"
  "f64_mul 0x3fe28f5c28f5c28f 0x3fe6666666666666 = 0x3fd9fbe76c8b4395"
  "f64_mul 0x3fb645a1cac08312 F64_ONE = 0x3fb645a1cac08312"
  "f64_mul 0x3fb645a1cac08312 0 = 0"
  "f64_add 0x3fdf8d4fdf3b6459 0 = 0x3fdf8d4fdf3b6459"
  "f64_add 0x3fd9fbe76c8b4395 0x3fb645a1cac08312 = 0x3fdf8d4fdf3b645a"
proof -
  have "f64_sub F64_ONE 0x3fe6666666666666 = 0x3fd3333333333334"
    by (simp add: f64_sub_normal [OF demo_normal(4,5), of 1021] f64_round_nearest [where e = 1020 and m = 5404319552844596] f64_pack_def)
  then show "f64_mul F64_HALF (f64_sub F64_ONE 0x3fe6666666666666) = 0x3fc3333333333334"
    by (simp add: f64_mul_normal [OF demo_normal(6,7)] f64_round_nearest [where e = 1019 and m = 5404319552844596] f64_pack_def)
  show "f64_mul 0x3fb645a1cac08312 0 = 0" by (rule f64_mul_0) (rule normal_facts [OF demo_normal(3)])+
  show "f64_add 0x3fdf8d4fdf3b6459 0 = 0x3fdf8d4fdf3b6459" by (rule f64_add_0 [OF demo_normal(8)])
qed (simp_all add: f64_div_normal [OF demo_normal(3,1), of 1018] f64_mul_normal [OF demo_normal(1,2)]
    f64_mul_normal [OF demo_normal(1,5)] f64_mul_normal [OF demo_normal(3,4)] f64_add_normal [OF demo_normal(9,3), of 1018]
    f64_round_nearest [where e = 1019 and m = 5404319552844595] f64_round_nearest [where e = 1020 and m = 8881098465174617]
    f64_round_nearest [where e = 1020 and m = 7313845794849684] f64_round_nearest [where e = 1018 and m = 6269010681299730] f64_pack_def)

lemma demo_accepted: "scoring_validate id demo_scoring_file (Some demo_classifier) True [] = (Some demo_scoring, [])"
proof -
  have "weight_problems demo_weights = []"
    by (simp add: weight_problems_def demo_weights_def is_finite_def f64_lt_def f64_le_def f64_eq_def unit_range_def is_nan_def
        f64_key_def f64_mag_def f64_neg_def F64_INF_def F64_ONE_def)
  moreover have "influence_problems demo_weights (providers demo_classifier) = []"
    by (simp add: influence_problems_def influence_radius_def providers_def demo_weights_def demo_classifier_def demo_arithmetic
        f64_le_def f64_key_def f64_mag_def f64_neg_def)
  moreover have "history_problems (sc_history demo_scoring_file) = []" by code_simp
  moreover have "fold (add_prior id (contenders demo_classifier)) (sc_priors demo_scoring_file) ([], []) = ([(ascii ''General'', F64_ONE)], [])"
    by code_simp
  ultimately show ?thesis
    by (simp add: scoring_validate_def demo_scoring_file_def demo_scoring_def DEFAULT_HALF_LIFE_SECS_def
        DEFAULT_MIN_SAMPLES_def from_secs_def)
qed

text \<open>The bound on the weights, which is to keep a verdict in the upper half of the accepted range from being
  overturned, is checked in rounded arithmetic and can be off by a rounding: with a classifier weight of
  0.58, a prior weight of 0.087 and a threshold of 0.7 the section is accepted, and a verdict of 0.85, which is not
  below the middle of 0.7 and 1, loses to the fallback with a prior of 1.\<close>

theorem confident_verdict_overturned:
  "scoring_validate id demo_scoring_file (Some demo_classifier) True [] = (Some demo_scoring, [])
   \<and> classification_ok demo_classifier demo_verdict
   \<and> f64_units (f64_mag (classifier_baseline demo_classifier)) + f64_units (f64_mag F64_ONE)
       \<le> 2 * f64_units (f64_mag (vd_confidence (the (cn_verdict demo_verdict))))
   \<and> classification_route demo_classifier demo_verdict = ascii ''Coder''
   \<and> sd_route (scoring_decide demo_scoring demo_verdict demo_classifier) = ascii ''General''"
proof -
  have "classification_ok demo_classifier demo_verdict"
    by (simp add: classification_ok_def demo_verdict_def demo_classifier_def verdict_of_def unit_range_mag F64_ONE_MAG_def
        f64_lt_def f64_key_def f64_mag_def f64_neg_def)
  moreover have "f64_units (f64_mag (classifier_baseline demo_classifier)) + f64_units (f64_mag F64_ONE)
       \<le> 2 * f64_units (f64_mag (vd_confidence (the (cn_verdict demo_verdict))))"
    by (simp add: classifier_baseline_def demo_classifier_def demo_verdict_def normal_facts(1) [OF demo_normal(2)]
        normal_facts(1) [OF demo_normal(4)] normal_facts(1) [OF demo_normal(5)])
  moreover have "classification_route demo_classifier demo_verdict = ascii ''Coder''"
    by (simp add: classification_route_def demo_verdict_def)
  moreover have "prior_of demo_scoring (ascii ''Coder'') = 0" "prior_of demo_scoring (ascii ''General'') = F64_ONE"
    "ascii ''Coder'' \<noteq> ascii ''General''" by code_simp+
  then have "sd_route (scoring_decide demo_scoring demo_verdict demo_classifier) = ascii ''General''"
    by (simp add: scoring_decide_def score_of_def Let_def demo_verdict_def demo_classifier_def classifier_baseline_def)
      (simp add: demo_scoring_def demo_weights_def demo_arithmetic f64_lt_def is_nan_def is_finite_def f64_key_def f64_mag_def
        f64_neg_def F64_INF_def)
  ultimately show ?thesis using demo_accepted by blast
qed

text \<open>A nested classification request that was refused.\<close>

definition demo_reader :: json_reader where
  "demo_reader = \<lparr>rd_body = (\<lambda>_. None), rd_text = (\<lambda>_. None)\<rparr>"

definition demo_side :: provider_side where
  "demo_side = \<lparr>ps_nested = \<lparr>nr_exhausted = False, nr_status = 503, nr_body = None\<rparr>,
     ps_exchange = JevTransport False, ps_ready_at = 5\<rparr>"

theorem scoring_contest_witness:
  "cn_outcome (classify id demo_reader demo_classifier demo_side [] False None 0) = ClUnavailable
   \<and> sd_reason (scoring_decide demo_scoring (classify id demo_reader demo_classifier demo_side [] False None 0) demo_classifier)
       \<noteq> InternalError
   \<and> sd_route (scoring_decide demo_scoring (classify id demo_reader demo_classifier demo_side [] False None 0) demo_classifier)
       = cl_fallback demo_classifier"
proof -
  have out: "cn_outcome (classify id demo_reader demo_classifier demo_side [] False None 0) = ClUnavailable"
    by (simp add: classify_def expired_def Let_def demo_classifier_def demo_side_def lightweight_call_def success_status_def)
  have "limits_ok (provider_limits (cl_provider demo_classifier))"
    by (simp add: limits_ok_def demo_classifier_def unit_range_mag F64_ONE_MAG_def f64_mag_def f64_neg_def MAX_INPUT_CHARS_def)
  from scoring_contest [OF demo_accepted this refl refl, of demo_reader demo_side "[]" False None 0] out
  show ?thesis by simp
qed

end
