(* ===== verification/Router_Auto.thy ===== *)
theory Router_Auto
  imports Router_Scoring
begin

text \<open>
  Automatic routing, \<open>lightweight-router/src/auto_route.rs\<close>: the conditions of a rule, the choice of a route, and
  the validation of the section.
\<close>

section \<open>Rules\<close>

definition FALLBACK_RULE :: ustr where "FALLBACK_RULE = ascii ''_fallback''"
definition MAX_RULE_NAME_CHARS :: nat where "MAX_RULE_NAME_CHARS = 64"
definition MAX_RULES :: nat where "MAX_RULES = 64"

datatype auto_endpoint = AutoChat | AutoCompletion

fun auto_endpoint_of :: "auto_endpoint \<Rightarrow> endpoint" where
  "auto_endpoint_of AutoChat = ChatCompletions"
| "auto_endpoint_of AutoCompletion = Completions"

record auto_condition =
  co_endpoint :: "auto_endpoint option"
  co_requires_tools :: "bool option"
  co_tool_choice :: "tool_choice_requirement option"
  co_requires_reasoning :: "bool option"
  co_min_prompt_tokens :: "u32 option"
  co_max_prompt_tokens :: "u32 option"

definition no_condition :: auto_condition where
  "no_condition = \<lparr>co_endpoint = None, co_requires_tools = None, co_tool_choice = None,
     co_requires_reasoning = None, co_min_prompt_tokens = None, co_max_prompt_tokens = None\<rparr>"

definition cond_matches :: "auto_condition \<Rightarrow> request_requirements \<Rightarrow> bool" where
  "cond_matches c needs \<longleftrightarrow>
    is_none_or (co_endpoint c) (\<lambda>want. rq_endpoint needs = Some (auto_endpoint_of want))
    \<and> is_none_or (co_requires_tools c) (\<lambda>want. rq_tools needs = want)
    \<and> is_none_or (co_tool_choice c) (\<lambda>want. rq_tool_choice needs = want)
    \<and> is_none_or (co_requires_reasoning c) (\<lambda>want. rq_reasoning needs = want)
    \<and> is_none_or (co_min_prompt_tokens c) (\<lambda>least. is_some_and (rq_prompt_tokens needs) (\<lambda>tokens. least \<le> tokens))
    \<and> is_none_or (co_max_prompt_tokens c) (\<lambda>most. is_some_and (rq_prompt_tokens needs) (\<lambda>tokens. tokens \<le> most))"

definition cond_empty :: "auto_condition \<Rightarrow> bool" where
  "cond_empty c \<longleftrightarrow> c = no_condition"

definition contradiction :: "auto_condition \<Rightarrow> ustr option" where
  "contradiction c =
    (if (case (co_min_prompt_tokens c, co_max_prompt_tokens c) of (Some least, Some most) \<Rightarrow> most < least | _ \<Rightarrow> False)
     then Some (ascii ''min_prompt_tokens is greater than max_prompt_tokens'')
     else if co_endpoint c = Some AutoCompletion \<and> co_requires_tools c = Some True
     then Some (ascii ''a text completion never declares tools'')
     else if co_endpoint c = Some AutoCompletion \<and> co_requires_reasoning c = Some True
     then Some (ascii ''a text completion never asks for reasoning'')
     else if co_endpoint c = Some AutoCompletion \<and> is_some_and (co_tool_choice c) (\<lambda>choice. choice \<noteq> TcUnspecified)
     then Some (ascii ''a text completion never sends tool_choice'')
     else if co_requires_tools c = Some False \<and> co_tool_choice c \<in> {Some TcRequired, Some TcFunction}
     then Some (ascii ''tool_choice required or a named function is only valid with tools'')
     else None)"

record auto_rule =
  ru_name :: ustr
  ru_when :: auto_condition
  ru_route :: ustr
  ru_classify :: bool

record auto_route =
  au_enabled :: bool
  au_fallback :: ustr
  au_rules :: "auto_rule list"
  au_classifier :: "route_classifier option"
  au_scoring :: "adaptive_scoring option"
  au_cross_route_fallback :: fallback_chains

record auto_decision =
  ad_route :: ustr
  ad_rule :: "ustr option"
  ad_classify :: bool

definition claims :: "(ustr \<Rightarrow> ustr) \<Rightarrow> auto_route \<Rightarrow> ustr option \<Rightarrow> bool" where
  "claims lower au requested \<longleftrightarrow> au_enabled au \<and> is_some_and requested (is_auto lower)"

definition decide :: "auto_route \<Rightarrow> request_requirements \<Rightarrow> auto_decision" where
  "decide au needs =
    (case find (\<lambda>rule. cond_matches (ru_when rule) needs) (au_rules au) of
       None \<Rightarrow> \<lparr>ad_route = au_fallback au, ad_rule = None, ad_classify = False\<rparr>
     | Some rule \<Rightarrow> \<lparr>ad_route = ru_route rule, ad_rule = Some (ru_name rule), ad_classify = ru_classify rule\<rparr>)"

definition rule_label :: "auto_decision \<Rightarrow> ustr" where
  "rule_label d = (case ad_rule d of Some name \<Rightarrow> name | None \<Rightarrow> FALLBACK_RULE)"

text \<open>\<open>targets\<close>: the routes in the order of the rules, the candidates at the first rule that classifies,
  the fallback last, each once.\<close>

fun ordered_targets :: "ustr list \<Rightarrow> auto_rule list \<Rightarrow> bool \<Rightarrow> ustr list" where
  "ordered_targets candidates [] classified = []"
| "ordered_targets candidates (rule # rules) classified =
    (if ru_classify rule \<and> \<not> classified
     then candidates @ ru_route rule # ordered_targets candidates rules True
     else ru_route rule # ordered_targets candidates rules classified)"

definition keep_first :: "ustr list \<Rightarrow> ustr list" where
  "keep_first names = fold (\<lambda>name kept. if name \<in> set kept then kept else kept @ [name]) names []"

definition targets :: "auto_route \<Rightarrow> ustr list" where
  "targets au =
    (let candidates = (case au_classifier au of None \<Rightarrow> [] | Some cl \<Rightarrow> map ch_route (cl_candidates cl))
     in keep_first (ordered_targets candidates (au_rules au) False @ [au_fallback au]))"

section \<open>Validation\<close>

record auto_rule_file =
  rl_name :: ustr
  rl_when :: auto_condition
  rl_route :: "ustr option"
  rl_classify :: bool

record auto_route_file =
  ar_enabled :: bool
  ar_fallback_route :: ustr
  ar_rules :: "auto_rule_file list"
  ar_classifier :: "classifier_file option"
  ar_adaptive_scoring :: "scoring_file option"
  ar_cross_route_fallback :: "(ustr \<times> ustr list) list option"

definition rule_name :: "ustr \<Rightarrow> rule_problem option" where
  "rule_name name =
    (if name = [] then Some RuleNoName
     else if length name > MAX_RULE_NAME_CHARS then Some RuleNameTooLong
     else if \<not> is_ascii_alphanumeric (hd name) then Some RuleNameStart
     else map_option RuleNameCharacter
       (find (\<lambda>c. \<not> (is_ascii_alphanumeric c \<or> c \<in> set (ascii ''._-''))) name))"

text \<open>The label of a rule without a name is its number.\<close>

definition rule_text :: "(nat \<Rightarrow> ustr) \<Rightarrow> nat \<Rightarrow> ustr \<Rightarrow> ustr" where
  "rule_text number index name = (if name = [] then ascii ''#'' @ number (Suc index) else name)"

text \<open>The problems of one rule, in the order they are reported, and the route it names.\<close>

definition name_problems :: "ustr list \<Rightarrow> ustr \<Rightarrow> rule_problem list" where
  "name_problems seen name =
    (case rule_name name of
       Some problem \<Rightarrow> [problem]
     | None \<Rightarrow> if list_ex (\<lambda>other. text_eq_ignore_ascii_case other name) seen then [RuleNameTaken] else [])"

definition condition_problems :: "auto_rule_file \<Rightarrow> rule_problem list" where
  "condition_problems entry =
    (if cond_empty (rl_when entry) \<and> \<not> rl_classify entry then [RuleMatchesAll] else []) @
    map (\<lambda>(field, _). RuleZeroTokens field)
      (filter (\<lambda>(_, value). value = Some 0)
        [(ascii ''min_prompt_tokens'', co_min_prompt_tokens (rl_when entry)),
         (ascii ''max_prompt_tokens'', co_max_prompt_tokens (rl_when entry))]) @
    (case contradiction (rl_when entry) of Some problem \<Rightarrow> [RuleNeverMatches problem] | None \<Rightarrow> [])"

definition rule_route :: "(ustr \<Rightarrow> ustr) \<Rightarrow> auto_route_file \<Rightarrow> route list \<Rightarrow> route_classifier option \<Rightarrow> auto_rule_file
    \<Rightarrow> ustr option \<times> rule_problem list" where
  "rule_route lower raw rts classifier entry =
    (case (rl_route entry, rl_classify entry) of
       (Some _, True) \<Rightarrow> (None, [RuleRouteAndClassify])
     | (None, False) \<Rightarrow> (None, [RuleNeedsRoute])
     | (None, True) \<Rightarrow>
         (case classifier of
            Some cl \<Rightarrow> (Some (cl_fallback cl), [])
          | None \<Rightarrow> (None, if Option.is_none (ar_classifier raw) then [RuleNoClassifier] else []))
     | (Some name, False) \<Rightarrow>
         (case target lower name rts of
            Inr r \<Rightarrow> (Some r, [])
          | Inl problem \<Rightarrow> (None, [RuleTarget name problem])))"

definition validate_rule :: "(nat \<Rightarrow> ustr) \<Rightarrow> (ustr \<Rightarrow> ustr) \<Rightarrow> auto_route_file \<Rightarrow> route list \<Rightarrow> route_classifier option
    \<Rightarrow> nat \<times> auto_rule_file \<Rightarrow> auto_rule list \<times> ustr list \<times> config_error list
    \<Rightarrow> auto_rule list \<times> ustr list \<times> config_error list" where
  "validate_rule number lower raw rts classifier = (\<lambda>(index, entry) (rules, seen, errors).
    let name = trim (rl_name entry);
        named = name_problems seen name;
        held = named @ condition_problems entry;
        (r, missing) = rule_route lower raw rts classifier entry;
        errors = errors @ map (BadAutoRule (rule_text number index name)) (held @ missing);
        seen = (if named = [] then seen @ [name] else seen)
    in (case r of
          Some r \<Rightarrow>
            if held = []
            then (rules @ [\<lparr>ru_name = name, ru_when = rl_when entry, ru_route = r, ru_classify = rl_classify entry\<rparr>], seen, errors)
            else (rules, seen, errors)
        | None \<Rightarrow> (rules, seen, errors)))"

definition reachable_routes :: "auto_rule list \<Rightarrow> ustr \<Rightarrow> route_classifier option \<Rightarrow> ustr list" where
  "reachable_routes rules fallback classifier =
    map ru_route rules @ [fallback] @
    (case classifier of None \<Rightarrow> [] | Some cl \<Rightarrow> map ch_route (cl_candidates cl) @ [cl_fallback cl])"

definition validate_fallback_section :: "(ustr \<Rightarrow> ustr) \<Rightarrow> auto_route_file \<Rightarrow> route list \<Rightarrow> auto_rule list
    \<Rightarrow> target_problem + ustr \<Rightarrow> route_classifier option \<Rightarrow> bool \<Rightarrow> config_error list
    \<Rightarrow> fallback_chains option \<times> config_error list" where
  "validate_fallback_section lower raw rts rules fallback classifier clean errors =
    (case (ar_cross_route_fallback raw, fallback) of
       (Some raw_fallback, Inr auto_fallback) \<Rightarrow>
         if clean
         then (case fallback_validate lower raw_fallback rts (reachable_routes rules auto_fallback classifier)
                   (case classifier of None \<Rightarrow> [] | Some cl \<Rightarrow> List.map_filter provider_route (providers cl)) of
                 Inl problems \<Rightarrow> (None, errors @ map BadCrossRouteFallback problems)
               | Inr cs \<Rightarrow> (Some cs, errors))
         else (Some [], errors)
     | _ \<Rightarrow> (Some [], errors))"

definition auto_validate :: "settings_ext \<Rightarrow> (nat \<Rightarrow> ustr) \<Rightarrow> auto_route_file \<Rightarrow> route list \<Rightarrow> (ustr \<rightharpoonup> ustr)
    \<Rightarrow> (ustr \<rightharpoonup> ustr) \<Rightarrow> config_error list \<Rightarrow> auto_route option \<times> config_error list" where
  "auto_validate ex number raw rts env stored errors =
    (let lower = sx_lower ex;
         before = length errors;
         errors = errors @ map AutoRouteNameTaken (filter (is_auto lower) (map rt_name rts));
         fallback = target lower (ar_fallback_route raw) rts;
         errors = errors @ (case fallback of
             Inl problem \<Rightarrow> [BadAutoRoute (FallbackTarget (ar_fallback_route raw) problem)] | Inr _ \<Rightarrow> []);
         (classifier, errors) = (case ar_classifier raw of
             None \<Rightarrow> (None, errors)
           | Some written \<Rightarrow> classifier_validate ex written rts (ar_fallback_route raw) env stored errors);
         (scoring, errors) = (case ar_adaptive_scoring raw of
             None \<Rightarrow> (None, errors)
           | Some written \<Rightarrow> scoring_validate lower written classifier (ar_classifier raw \<noteq> None) errors);
         errors = errors @ (if length (ar_rules raw) > MAX_RULES then [BadAutoRoute (TooManyRules (length (ar_rules raw)))] else []);
         (rules, _, errors) = fold (validate_rule number lower raw rts classifier) (enumerate 0 (ar_rules raw)) ([], [], errors);
         (cs, errors) = validate_fallback_section lower raw rts rules fallback classifier (length errors = before) errors
     in if length errors > before then (None, errors)
        else (case (fallback, cs) of
                (Inr auto_fallback, Some accepted) \<Rightarrow>
                  (Some \<lparr>au_enabled = ar_enabled raw, au_fallback = auto_fallback, au_rules = rules,
                     au_classifier = classifier, au_scoring = scoring, au_cross_route_fallback = accepted\<rparr>, errors)
              | _ \<Rightarrow> (None, errors)))"

section \<open>Which route a request gets\<close>

lemma keep_first_aux:
  "distinct kept \<Longrightarrow> distinct (fold (\<lambda>name kept. if name \<in> set kept then kept else kept @ [name]) names kept)
    \<and> set (fold (\<lambda>name kept. if name \<in> set kept then kept else kept @ [name]) names kept) = set kept \<union> set names"
  by (induction names arbitrary: kept) auto

lemma keep_first: "distinct (keep_first names)" "set (keep_first names) = set names"
  using keep_first_aux [of "[]" names] by (simp_all add: keep_first_def)

lemma set_ordered_targets:
  "set (ordered_targets candidates rules classified) =
    ru_route ` set rules \<union> (if \<not> classified \<and> list_ex ru_classify rules then set candidates else {})"
  by (induction rules arbitrary: classified) auto

lemma set_targets:
  "set (targets au) = insert (au_fallback au) (ru_route ` set (au_rules au)
    \<union> (if list_ex ru_classify (au_rules au) then (case au_classifier au of None \<Rightarrow> {} | Some cl \<Rightarrow> ch_route ` set (cl_candidates cl)) else {}))"
  by (auto simp: targets_def keep_first set_ordered_targets split: option.splits)

lemma decide_cases:
  obtains (fallback) "decide au needs = \<lparr>ad_route = au_fallback au, ad_rule = None, ad_classify = False\<rparr>"
      "\<forall>rule \<in> set (au_rules au). \<not> cond_matches (ru_when rule) needs"
  | (rule) before rule after where "au_rules au = before @ rule # after" "cond_matches (ru_when rule) needs"
      "\<forall>r \<in> set before. \<not> cond_matches (ru_when r) needs"
      "decide au needs = \<lparr>ad_route = ru_route rule, ad_rule = Some (ru_name rule), ad_classify = ru_classify rule\<rparr>"
proof (cases "find (\<lambda>rule. cond_matches (ru_when rule) needs) (au_rules au)")
  case None
  then show ?thesis by (intro fallback) (simp add: decide_def, auto simp: find_None_iff)
next
  case (Some r)
  then obtain i where i: "i < length (au_rules au)" "cond_matches (ru_when (au_rules au ! i)) needs" "r = au_rules au ! i"
    "\<forall>j < i. \<not> cond_matches (ru_when (au_rules au ! j)) needs" by (auto simp: find_Some_iff)
  show ?thesis
  proof (rule rule [of "take i (au_rules au)" r "drop (Suc i) (au_rules au)"])
    show "au_rules au = take i (au_rules au) @ r # drop (Suc i) (au_rules au)" using i by (simp add: id_take_nth_drop)
    show "\<forall>q \<in> set (take i (au_rules au)). \<not> cond_matches (ru_when q) needs" using i by (auto simp: in_set_conv_nth)
  qed (use i Some in \<open>simp_all add: decide_def\<close>)
qed

lemma decide_target: "ad_route (decide au needs) \<in> set (targets au)"
  by (cases rule: decide_cases [of au needs]) (auto simp: set_targets)

lemma decide_classifies:
  assumes "ad_classify (decide au needs)" "au_classifier au = Some cl"
  shows "ch_route ` set (cl_candidates cl) \<subseteq> set (targets au)"
  using assms by (cases rule: decide_cases [of au needs]) (auto simp: set_targets list_ex_iff)

text \<open>A condition that is refused as a contradiction can match no request: no text completion, and no chat
  request that the gateway accepts, that is, one that asks for a tool call only if it declares tools.\<close>

theorem contradiction_never_matches:
  assumes "contradiction c = Some problem" "gr_tools g = [] \<Longrightarrow> gr_tool_choice g \<in> {ToolUnspecified, ToolAuto, ToolNone}"
  shows "\<not> cond_matches c (completion_requirements prompts max_tokens) \<and> \<not> cond_matches c (chat_requirements g max_tokens)"
  using assms
  by (auto simp: contradiction_def cond_matches_def completion_requirements_def chat_requirements_def no_requirements_def
      is_none_or_def is_some_and_def split: if_splits option.splits tool_choice_control.splits)

definition both_ways :: auto_condition where
  "both_ways = no_condition\<lparr>co_requires_tools := Some False, co_tool_choice := Some TcRequired\<rparr>"

theorem contradiction_never_matches_witness:
  "contradiction both_ways \<noteq> None \<and> \<not> cond_matches both_ways (chat_requirements small_request (Some 16))"
proof -
  have "contradiction both_ways = Some (ascii ''tool_choice required or a named function is only valid with tools'')"
    by (simp add: contradiction_def both_ways_def no_condition_def)
  from contradiction_never_matches [OF this, of small_request "[]" "Some 16"] this show ?thesis
    by (simp add: small_request_def)
qed

section \<open>What validation gives\<close>

text \<open>A rule of an accepted section and the entry it comes from.\<close>

definition rule_from :: "(ustr \<Rightarrow> ustr) \<Rightarrow> route list \<Rightarrow> route_classifier option \<Rightarrow> auto_rule_file \<Rightarrow> auto_rule \<Rightarrow> bool" where
  "rule_from lower rts classifier entry rule \<longleftrightarrow>
    ru_name rule = trim (rl_name entry) \<and> rule_name (ru_name rule) = None
    \<and> ru_when rule = rl_when entry \<and> contradiction (ru_when rule) = None \<and> ru_classify rule = rl_classify entry
    \<and> (\<not> ru_classify rule \<longrightarrow> ru_when rule \<noteq> no_condition)
    \<and> (case rl_route entry of
         Some name \<Rightarrow> \<not> ru_classify rule \<and> target lower name rts = Inr (ru_route rule)
       | None \<Rightarrow> ru_classify rule \<and> (\<exists>cl. classifier = Some cl \<and> ru_route rule = cl_fallback cl))"

lemma validate_rule_errors: "snd (snd (validate_rule number lower raw rts classifier x s)) = [] \<Longrightarrow> snd (snd s) = []"
  by (cases x; cases s) (auto simp: validate_rule_def Let_def split: option.splits if_splits prod.splits)

lemma validate_rules_errors:
  "snd (snd (fold (validate_rule number lower raw rts classifier) xs s)) = [] \<Longrightarrow> snd (snd s) = []"
  using fold_clean [where clean = "\<lambda>s. snd (snd s) = []" and keeps = "\<lambda>_ _. True"] validate_rule_errors by blast

lemma validate_rule_clean:
  assumes "snd (snd (validate_rule number lower raw rts classifier (index, entry) (rules, seen, errors))) = []"
    and "classifier = None \<longrightarrow> ar_classifier raw = None"
  shows "errors = [] \<and> (\<exists>rule. rule_from lower rts classifier entry rule
    \<and> \<not> list_ex (\<lambda>other. text_eq_ignore_ascii_case other (ru_name rule)) seen
    \<and> validate_rule number lower raw rts classifier (index, entry) (rules, seen, errors) = (rules @ [rule], seen @ [ru_name rule], []))"
proof -
  let ?name = "trim (rl_name entry)"
  obtain r missing where route: "rule_route lower raw rts classifier entry = (r, missing)" by fastforce
  have none: "errors = []" "name_problems seen ?name = []" "condition_problems entry = []" "missing = []"
    using assms(1) route by (auto simp: validate_rule_def Let_def split: option.splits if_splits)
  have name: "rule_name ?name = None" "\<not> list_ex (\<lambda>other. text_eq_ignore_ascii_case other ?name) seen"
    using none(2) by (auto simp: name_problems_def split: option.splits if_splits)
  have cond: "\<not> rl_classify entry \<longrightarrow> rl_when entry \<noteq> no_condition" "contradiction (rl_when entry) = None"
    using none(3) by (auto simp: condition_problems_def cond_empty_def split: option.splits if_splits)
  obtain q where q: "r = Some q" "case rl_route entry of Some name \<Rightarrow> \<not> rl_classify entry \<and> target lower name rts = Inr q
      | None \<Rightarrow> rl_classify entry \<and> (\<exists>cl. classifier = Some cl \<and> q = cl_fallback cl)"
    using route none(4) assms(2) by (auto simp: rule_route_def split: option.splits bool.splits sum.splits if_splits)
  let ?rule = "\<lparr>ru_name = ?name, ru_when = rl_when entry, ru_route = q, ru_classify = rl_classify entry\<rparr>"
  have "validate_rule number lower raw rts classifier (index, entry) (rules, seen, errors) = (rules @ [?rule], seen @ [?name], [])"
    using none route q(1) by (simp add: validate_rule_def Let_def)
  moreover have "rule_from lower rts classifier entry ?rule"
    using name cond q(2) by (auto simp: rule_from_def split: option.splits)
  ultimately show ?thesis using none(1) name(2) by (intro conjI exI [of _ ?rule]) simp_all
qed

lemma validate_rules_clean:
  assumes "fold (validate_rule number lower raw rts classifier) (enumerate k entries) ([], [], errors) = (rules, seen, [])"
    and "classifier = None \<longrightarrow> ar_classifier raw = None"
  shows "errors = [] \<and> list_all2 (rule_from lower rts classifier) entries rules
    \<and> sorted_wrt (\<lambda>a b. \<not> text_eq_ignore_ascii_case (ru_name a) (ru_name b)) rules"
proof -
  let ?keeps = "\<lambda>done (rules, seen, _). list_all2 (rule_from lower rts classifier) (map snd done) rules \<and> seen = map ru_name rules
    \<and> sorted_wrt (\<lambda>a b. \<not> text_eq_ignore_ascii_case (ru_name a) (ru_name b)) rules"
  have "snd (snd ([] :: auto_rule list, [] :: ustr list, errors)) = []
    \<and> ?keeps (enumerate k entries) (fold (validate_rule number lower raw rts classifier) (enumerate k entries) ([], [], errors))"
  proof (rule fold_clean [where clean = "\<lambda>s. snd (snd s) = []"])
    fix x :: "nat \<times> auto_rule_file" and s :: "auto_rule list \<times> ustr list \<times> config_error list"
    assume "snd (snd (validate_rule number lower raw rts classifier x s)) = []"
    then show "snd (snd s) = []" using validate_rule_clean [OF _ assms(2)] by (cases x; cases s) fastforce
  next
    fix "done" :: "(nat \<times> auto_rule_file) list" and x and s :: "auto_rule list \<times> ustr list \<times> config_error list"
    assume keeps: "?keeps done s" and clean: "snd (snd (validate_rule number lower raw rts classifier x s)) = []"
    obtain rules seen errors where s: "s = (rules, seen, errors)" by (cases s)
    obtain index entry where x: "x = (index, entry)" by (cases x)
    from validate_rule_clean [OF clean [unfolded s x] assms(2)] keeps s x
    show "?keeps (done @ [x]) (validate_rule number lower raw rts classifier x s)"
      by (auto simp: list_all2_appendI sorted_wrt_append list_ex_iff)
  qed (use assms in simp_all)
  with assms(1) show ?thesis by simp
qed

text \<open>An accepted section: every route \<open>Auto\<close> can resolve to is a configured route and not \<open>Auto\<close> itself, and the
  lists of fallback routes are well formed.\<close>

definition auto_ok :: "(ustr \<Rightarrow> ustr) \<Rightarrow> route list \<Rightarrow> auto_route_file \<Rightarrow> auto_route \<Rightarrow> bool" where
  "auto_ok lower rts raw au \<longleftrightarrow> au_enabled au = ar_enabled raw \<and> target lower (ar_fallback_route raw) rts = Inr (au_fallback au)
    \<and> \<not> list_ex (is_auto lower) (map rt_name rts)
    \<and> list_all2 (rule_from lower rts (au_classifier au)) (ar_rules raw) (au_rules au)
    \<and> sorted_wrt (\<lambda>a b. \<not> text_eq_ignore_ascii_case (ru_name a) (ru_name b)) (au_rules au)
    \<and> length (au_rules au) \<le> MAX_RULES
    \<and> (case au_classifier au of None \<Rightarrow> True | Some cl \<Rightarrow> classifier_ok lower rts cl)
    \<and> (case au_scoring au of None \<Rightarrow> True | Some sc \<Rightarrow> \<exists>cl. au_classifier au = Some cl \<and> scoring_ok cl sc)
    \<and> (au_cross_route_fallback au = [] \<or> (\<exists>lists classifier_routes.
         fallback_validate lower lists rts (reachable_routes (au_rules au) (au_fallback au) (au_classifier au)) classifier_routes
           = Inr (au_cross_route_fallback au)))"

lemma validate_fallback_section_clean:
  assumes "validate_fallback_section lower raw rts rules fallback classifier True errors = (cs, [])" "fallback = Inr f"
  shows "errors = [] \<and> (\<exists>accepted. cs = Some accepted \<and> (accepted = [] \<or> (\<exists>lists classifier_routes.
    fallback_validate lower lists rts (reachable_routes rules f classifier) classifier_routes = Inr accepted)))"
proof (cases "ar_cross_route_fallback raw")
  case None
  with assms show ?thesis by (auto simp: validate_fallback_section_def)
next
  case (Some lists)
  have "problems \<noteq> []" if "fallback_validate lower lists rts reachable cls = Inl problems" for reachable cls problems
    using that by (auto simp: fallback_validate_def Let_def split: prod.splits if_splits)
  with Some assms show ?thesis
    by (auto simp: validate_fallback_section_def split: sum.splits)
qed

lemma auto_validate_clean:
  assumes "auto_validate ex number raw rts env stored errors = (found, [])"
  shows "errors = [] \<and> (\<exists>au. found = Some au \<and> auto_ok (sx_lower ex) rts raw au)"
proof -
  let ?lower = "sx_lower ex"
  define fallback where "fallback = target ?lower (ar_fallback_route raw) rts"
  define errors1 where "errors1 = errors @ map AutoRouteNameTaken (filter (is_auto ?lower) (map rt_name rts))"
  define errors2 where "errors2 = errors1 @ (case fallback of
      Inl problem \<Rightarrow> [BadAutoRoute (FallbackTarget (ar_fallback_route raw) problem)] | Inr _ \<Rightarrow> [])"
  obtain classifier errors3 where classifier: "(case ar_classifier raw of None \<Rightarrow> (None, errors2)
      | Some written \<Rightarrow> classifier_validate ex written rts (ar_fallback_route raw) env stored errors2) = (classifier, errors3)" by fastforce
  obtain scoring errors4 where scoring: "(case ar_adaptive_scoring raw of None \<Rightarrow> (None, errors3)
      | Some written \<Rightarrow> scoring_validate ?lower written classifier (ar_classifier raw \<noteq> None) errors3) = (scoring, errors4)" by fastforce
  define errors5 where "errors5 = errors4 @ (if length (ar_rules raw) > MAX_RULES then [BadAutoRoute (TooManyRules (length (ar_rules raw)))] else [])"
  obtain rules seen errors6 where rules: "fold (validate_rule number ?lower raw rts classifier) (enumerate 0 (ar_rules raw)) ([], [], errors5)
      = (rules, seen, errors6)" by (metis prod_cases3)
  obtain cs errors7 where cs: "validate_fallback_section ?lower raw rts rules fallback classifier (length errors6 = length errors) errors6
      = (cs, errors7)" by fastforce
  have run: "auto_validate ex number raw rts env stored errors =
      (if length errors7 > length errors then (None, errors7)
       else (case (fallback, cs) of
         (Inr auto_fallback, Some accepted) \<Rightarrow>
           (Some \<lparr>au_enabled = ar_enabled raw, au_fallback = auto_fallback, au_rules = rules, au_classifier = classifier,
              au_scoring = scoring, au_cross_route_fallback = accepted\<rparr>, errors7)
       | _ \<Rightarrow> (None, errors7)))"
    unfolding auto_validate_def Let_def fallback_def [symmetric] errors1_def [symmetric] errors2_def [symmetric] classifier prod.case
      scoring errors5_def [symmetric] rules cs ..
  have "errors7 = []" using run assms by (auto split: if_splits sum.splits option.splits)
  moreover from this have "errors6 = []"
    using cs by (auto simp: validate_fallback_section_def split: option.splits sum.splits if_splits)
  moreover from this have "errors5 = []" using validate_rules_errors [of number ?lower raw rts classifier "enumerate 0 (ar_rules raw)" "([], [], errors5)"] rules
    by simp
  moreover from this have small: "errors4 = []" "length (ar_rules raw) \<le> MAX_RULES" by (auto simp: errors5_def split: if_splits)
  moreover from this have "errors3 = []" using scoring by (auto simp: scoring_validate_def Let_def split: option.splits prod.splits if_splits)
  ultimately have clean: "errors7 = []" "errors6 = []" "errors5 = []" "errors4 = []" "errors3 = []" by blast+
  have "errors2 = [] \<and> (case classifier of None \<Rightarrow> ar_classifier raw = None | Some cl \<Rightarrow> classifier_ok ?lower rts cl)"
    using classifier classifier_validate_clean clean(5) by (fastforce split: option.splits)
  then have two: "errors2 = []" "classifier = None \<longrightarrow> ar_classifier raw = None"
    "case classifier of None \<Rightarrow> True | Some cl \<Rightarrow> classifier_ok ?lower rts cl" by (auto split: option.splits)
  have three: "case scoring of None \<Rightarrow> True | Some sc \<Rightarrow> \<exists>cl. classifier = Some cl \<and> scoring_ok cl sc"
    using scoring scoring_validate_clean two(2) clean(4) by (fastforce split: option.splits)
  obtain f where f: "fallback = Inr f" "errors1 = []" using two(1) by (auto simp: errors2_def split: sum.splits)
  then have errors: "errors = []" "\<not> list_ex (is_auto ?lower) (map rt_name rts)"
    by (auto simp: errors1_def list_ex_iff filter_empty_conv)
  from validate_rules_clean [OF rules [unfolded clean] two(2)]
  have four: "list_all2 (rule_from ?lower rts classifier) (ar_rules raw) rules"
    "sorted_wrt (\<lambda>a b. \<not> text_eq_ignore_ascii_case (ru_name a) (ru_name b)) rules" by auto
  have "validate_fallback_section ?lower raw rts rules fallback classifier True [] = (cs, [])" using cs clean errors(1) by simp
  from validate_fallback_section_clean [OF this f(1)]
  obtain accepted where "cs = Some accepted" "accepted = [] \<or> (\<exists>lists classifier_routes.
      fallback_validate ?lower lists rts (reachable_routes rules f classifier) classifier_routes = Inr accepted)" by auto
  with run assms errors f four two three small(2) clean show ?thesis
    by (cases scoring; cases classifier) (auto simp: auto_ok_def fallback_def list_all2_lengthD [OF four(1), symmetric])
qed

end
