(* ===== verification/Router_Config.thy ===== *)
theory Router_Config
  imports Router_Auto
begin

text \<open>
  The whole configuration, \<open>validate_with_store\<close> of \<open>lightweight-router/src/config.rs\<close>, and what an accepted file
  gives the rest of the router: a topology in which every reference resolves.
\<close>

section \<open>The configuration\<close>

record router_file =
  fi_listen :: "ustr list"
  fi_api_key_env :: "ustr option"
  fi_default_route :: "ustr option"
  fi_health :: health_file
  fi_request :: request_file
  fi_session_affinity :: affinity_file
  fi_trace_capacity :: usize
  fi_placement :: placement_file
  fi_auto_route :: "auto_route_file option"
  fi_nodes :: "node_file list"
  fi_routes :: "route_file list"

record router_config =
  cf_topology :: topology
  cf_listen :: "socket_addr list"
  cf_client_key :: "ustr option"
  cf_health :: health_policy
  cf_connect_timeout :: nat
  cf_pre_commit_budget :: "nat option"
  cf_affinity :: affinity_policy
  cf_trace_capacity :: usize
  cf_placement :: placement_policy
  cf_auto :: "auto_route option"

definition resolve_default :: "(ustr \<Rightarrow> ustr) \<Rightarrow> route list \<Rightarrow> ustr option \<Rightarrow> config_error list
    \<Rightarrow> nat option \<times> config_error list" where
  "resolve_default lower rts raw errors =
    (case raw of
       None \<Rightarrow> (None, errors)
     | Some name \<Rightarrow>
         if is_reserved name then (None, errors @ [UnknownDefaultRoute name])
         else (case index_where (\<lambda>r. route_matches lower (rt_name r) name) rts of
                 None \<Rightarrow> (None, errors @ [UnknownDefaultRoute name])
               | Some i \<Rightarrow> (Some i, errors)))"

definition validate_with_store :: "settings_ext \<Rightarrow> (nat \<Rightarrow> ustr) \<Rightarrow> (ustr \<rightharpoonup> ustr) \<Rightarrow> (ustr \<rightharpoonup> ustr) \<Rightarrow> router_file
    \<Rightarrow> config_error list + router_config" where
  "validate_with_store ex number env stored f =
    (let (listen, errors) = validate_listen (fi_listen f) [];
         (client_key, errors) = (case fi_api_key_env f of
             None \<Rightarrow> (None, errors) | Some var \<Rightarrow> read_secret TheRouter var env errors);
         (health, errors) = validate_health (fi_health f) errors;
         errors = errors @ (if qf_connect_timeout_secs (fi_request f) = 0 then [BadConnectTimeout] else []);
         (budget, errors) = validate_budget (qf_pre_commit_budget_ms (fi_request f)) errors;
         (affinity, errors) = validate_affinity ex (fi_session_affinity f) errors;
         (placement, errors) = validate_placement (fi_placement f) errors;
         errors = errors @ (if fi_trace_capacity f > MAX_TRACE_CAPACITY then [BadTraceCapacity MAX_TRACE_CAPACITY] else []);
         errors = errors @ (if fi_nodes f = [] then [NoNodes] else []);
         errors = errors @ (if fi_routes f = [] then [NoRoutes] else []);
         (ns, errors) = validate_nodes ex env (fi_nodes f) errors;
         (rts, deps, errors) = validate_routes (sx_lower ex) (fi_routes f) ns errors;
         (default, errors) = resolve_default (sx_lower ex) rts (fi_default_route f) errors;
         (auto, errors) = (case fi_auto_route f of
             None \<Rightarrow> (None, errors) | Some raw \<Rightarrow> auto_validate ex number raw rts env stored errors)
     in if errors \<noteq> [] then Inl errors
        else Inr
          \<lparr>cf_topology = \<lparr>nodes = ns, deployments = deps, routes = rts, default_index = default\<rparr>,
           cf_listen = listen, cf_client_key = client_key, cf_health = health,
           cf_connect_timeout = from_secs (qf_connect_timeout_secs (fi_request f)),
           cf_pre_commit_budget = budget, cf_affinity = affinity, cf_trace_capacity = fi_trace_capacity f,
           cf_placement = placement, cf_auto = auto\<rparr>)"

text \<open>\<open>warnings\<close>: the classifier's timeout and the budget it can use up, in milliseconds.\<close>

definition config_warnings :: "router_config \<Rightarrow> (nat \<times> nat) list" where
  "config_warnings c =
    (case (cf_pre_commit_budget c, Option.bind (cf_auto c) au_classifier) of
       (Some budget, Some cl) \<Rightarrow>
         (let timeout = li_timeout (provider_limits (cl_provider cl)) in if budget \<le> timeout then [(timeout, budget)] else [])
     | _ \<Rightarrow> [])"

section \<open>Each validator leaves no error behind\<close>

text \<open>The errors only grow, so an accepted file has none after any step; what a step established is read off
  the step itself.\<close>

lemma validate_listen_clean:
  assumes "validate_listen raw errors = (addrs, [])"
  shows "errors = [] \<and> addrs \<noteq> []"
proof -
  let ?step = "\<lambda>value (found, errors). case socket_addr_parse (trim value) of
      Some address \<Rightarrow> (found @ [address], errors) | None \<Rightarrow> (found, errors @ [BadListen value])"
  have "errors = [] \<and> length addrs = length found + length raw" if "fold ?step raw (found, errors) = (addrs, [])" for found
    using that by (induction raw arbitrary: found errors) (force split: option.splits)+
  from this [of "[]"] assms show ?thesis by (auto simp: validate_listen_def split: if_splits)
qed

lemma read_secret_clean:
  "read_secret owner var env errors = (secret, []) \<Longrightarrow> errors = [] \<and> secret \<noteq> None"
  by (auto simp: read_secret_def split: option.splits if_splits)

lemma validate_health_clean:
  "validate_health raw errors = (policy, []) \<Longrightarrow> errors = []
    \<and> 0 < hy_timeout policy \<and> hy_timeout policy \<le> hy_interval policy \<and> hy_failure_threshold policy \<noteq> 0"
  by (auto simp: validate_health_def from_secs_def word_le_nat_alt not_less unat_gt_0 split: if_splits)

lemma validate_budget_clean:
  assumes "validate_budget raw errors = (budget, [])"
  shows "errors = [] \<and> (\<forall>ms. budget = Some ms \<longrightarrow> 1000 \<le> ms \<and> ms \<le> 3600000)"
proof -
  have "1000 \<le> unat ms \<and> unat ms \<le> 3600000" if "MIN_BUDGET_MS \<le> ms" "ms \<le> MAX_BUDGET_MS" for ms
    using that by (simp add: MIN_BUDGET_MS_def MAX_BUDGET_MS_def word_le_nat_alt)
  with assms show ?thesis by (auto simp: validate_budget_def split: option.splits if_splits)
qed

definition affinity_policy_ok :: "affinity_policy \<Rightarrow> bool" where
  "affinity_policy_ok policy \<longleftrightarrow> ap_header policy \<noteq> [] \<and> ap_header policy \<notin> set RESERVED_SESSION_HEADERS
    \<and> 0 < ap_idle_ttl policy \<and> ap_idle_ttl policy \<le> 24 * 60 * 60 * 1000
    \<and> 1 \<le> ap_max_entries policy \<and> ap_max_entries policy \<le> 1000000"

lemma validate_affinity_clean:
  assumes "validate_affinity ex raw errors = (policy, [])"
  shows "errors = [] \<and> affinity_policy_ok policy"
proof -
  have "0 < unat n \<and> unat n \<le> 24 * 60 * 60" if "n \<noteq> 0" "n \<le> MAX_TTL_SECS" for n
    using that by (simp add: MAX_TTL_SECS_def word_le_nat_alt unat_gt_0)
  moreover have "1 \<le> unat n \<and> unat n \<le> 1000000" if "n \<noteq> 0" "n \<le> MAX_SESSION_ENTRIES" for n
    using that by (simp add: MAX_SESSION_ENTRIES_def word_le_nat_alt unat_gt_0 Suc_le_eq)
  ultimately show ?thesis using assms
    by (auto simp: validate_affinity_def affinity_policy_ok_def header_problem_of_def from_secs_def Let_def not_less
        split: option.splits if_splits)
qed

definition placement_policy_ok :: "placement_policy \<Rightarrow> bool" where
  "placement_policy_ok policy \<longleftrightarrow> 0 < pp_interval policy \<and> 0 < pp_load_timeout policy
    \<and> 0 < pp_backoff policy \<and> pp_backoff policy \<le> pp_backoff_max policy"

lemma validate_placement_clean:
  "validate_placement raw errors = (policy, []) \<Longrightarrow> errors = [] \<and> placement_policy_ok policy"
  by (auto simp: validate_placement_def placement_policy_ok_def from_secs_def word_le_nat_alt not_less unat_gt_0
      word_less_nat_alt split: if_splits)

section \<open>Nodes\<close>

lemma node_id_parse_Inr:
  "node_id_parse raw = Inr i \<Longrightarrow> i = trim raw \<and> node_id_parse i = Inr i"
  by (auto simp: node_id_parse_def Let_def trim_idem split: if_splits option.splits)

definition node_from :: "settings_ext \<Rightarrow> (ustr \<rightharpoonup> ustr) \<Rightarrow> node_file \<Rightarrow> node \<Rightarrow> bool" where
  "node_from ex env entry n \<longleftrightarrow> node_id_parse (nf_id entry) = Inr (nd_id n) \<and> nd_enabled n = nf_enabled entry
    \<and> (\<exists>u. validate_url ex (nf_url entry) = Inr u \<and> nd_base_url n = url_text u)
    \<and> nd_auth n = (case nf_api_key_env entry of
         Some var \<Rightarrow> if nf_enabled entry then Bearer var (trim (the (env var))) else NoAuth
       | None \<Rightarrow> NoAuth)"

definition node_key :: "node \<Rightarrow> ustr" where
  "node_key n = map to_ascii_lowercase (nd_id n)"

lemma read_secret_Some:
  "read_secret owner var env errors = (Some secret, errors') \<Longrightarrow>
    \<exists>value. env var = Some value \<and> secret = trim value \<and> errors' = errors"
  by (auto simp: read_secret_def split: option.splits if_splits)

lemma validate_node_clean:
  assumes "snd (snd (validate_node ex env entry (seen, ns, errors))) = []"
  shows "errors = [] \<and> (\<exists>n. node_from ex env entry n \<and> node_key n \<notin> set seen
    \<and> validate_node ex env entry (seen, ns, errors) = (node_key n # seen, ns @ [n], []))"
proof -
  obtain i where i: "node_id_parse (nf_id entry) = Inr i" "map to_ascii_lowercase i \<notin> set seen"
    using assms by (auto simp: validate_node_def split: sum.splits if_splits)
  obtain u where u: "validate_url ex (nf_url entry) = Inr u"
    using assms i
    by (cases "validate_url ex (nf_url entry)")
      (auto simp: validate_node_def Let_def split: option.splits bool.splits prod.splits dest!: read_secret_clean)
  show ?thesis
  proof (cases "nf_api_key_env entry")
    case None
    with assms i u show ?thesis by (auto simp: validate_node_def Let_def node_from_def node_key_def)
  next
    case (Some var)
    show ?thesis
    proof (cases "nf_enabled entry")
      case False
      with Some assms i u show ?thesis by (auto simp: validate_node_def Let_def node_from_def node_key_def)
    next
      case True
      obtain secret errors' where read: "read_secret (TheNode i) var env errors = (secret, errors')" by fastforce
      with assms i u Some True have "errors' = []"
        by (auto simp: validate_node_def Let_def split: option.splits)
      with read_secret_clean read have clean: "errors = []" "secret \<noteq> None" by blast+
      with read_secret_Some read obtain v where "env var = Some v" "secret = Some (trim v)" by blast
      with read \<open>errors' = []\<close> clean assms i u Some True show ?thesis
        by (auto simp: validate_node_def Let_def node_from_def node_key_def)
    qed
  qed
qed

lemma validate_nodes_clean:
  assumes "validate_nodes ex env raw errors = (ns, [])"
  shows "errors = [] \<and> list_all2 (node_from ex env) raw ns \<and> distinct (map node_key ns)"
proof -
  let ?keeps = "\<lambda>done (seen, ns, _). list_all2 (node_from ex env) done ns \<and> distinct (map node_key ns)
    \<and> set seen = set (map node_key ns)"
  obtain seen where run: "fold (validate_node ex env) raw ([], [], errors) = (seen, ns, [])"
    using assms by (cases "fold (validate_node ex env) raw ([], [], errors)") (auto simp: validate_nodes_def)
  have "snd (snd ([] :: ustr list, [] :: node list, errors)) = []
      \<and> ?keeps raw (fold (validate_node ex env) raw ([], [], errors))"
  proof (rule fold_clean [where clean = "\<lambda>s. snd (snd s) = []"])
    show "snd (snd (fold (validate_node ex env) raw ([], [], errors))) = []" using run by simp
  next
    fix x and s :: "ustr list \<times> node list \<times> config_error list"
    assume "snd (snd (validate_node ex env x s)) = []"
    then show "snd (snd s) = []" using validate_node_clean by (cases s) fastforce
  next
    fix "done" x and s :: "ustr list \<times> node list \<times> config_error list"
    assume keeps: "?keeps done s" and clean: "snd (snd (validate_node ex env x s)) = []"
    obtain seen ns errors where s: "s = (seen, ns, errors)" by (cases s)
    from validate_node_clean [OF clean [unfolded s]] obtain n where "node_from ex env x n" "node_key n \<notin> set seen"
      "validate_node ex env x s = (node_key n # seen, ns @ [n], [])" unfolding s by blast
    with keeps s show "?keeps (done @ [x]) (validate_node ex env x s)" by (simp add: list_all2_appendI)
  qed simp
  with run show ?thesis by simp
qed

section \<open>Deployments\<close>

text \<open>The deployments so far: derived from a configured node and a model, one for each pair.\<close>

definition deployment_ok :: "node list \<Rightarrow> deployment \<Rightarrow> bool" where
  "deployment_ok ns d \<longleftrightarrow> dp_node d \<in> nd_id ` set ns \<and> dp_id d = deployment_id_of (dp_node d) (dp_remote_model d)
    \<and> trim (dp_remote_model d) = dp_remote_model d \<and> dp_remote_model d \<noteq> [] \<and> \<not> list_ex is_control (dp_remote_model d)"

definition same_deployment :: "(ustr \<Rightarrow> ustr) \<Rightarrow> deployment \<Rightarrow> deployment \<Rightarrow> bool" where
  "same_deployment lower a b \<longleftrightarrow> dp_node a = dp_node b \<and> same_name lower (dp_remote_model a) (dp_remote_model b)"

definition deployments_ok :: "(ustr \<Rightarrow> ustr) \<Rightarrow> node list \<Rightarrow> deployment list \<Rightarrow> bool" where
  "deployments_ok lower ns deps \<longleftrightarrow> list_all (deployment_ok ns) deps
    \<and> sorted_wrt (\<lambda>a b. \<not> same_deployment lower a b) deps"

definition nodes_ok :: "node list \<Rightarrow> bool" where
  "nodes_ok ns \<longleftrightarrow> distinct (map node_key ns) \<and> list_all (\<lambda>n. node_id_parse (nd_id n) = Inr (nd_id n)) ns"

lemma nodes_ok_ids: "nodes_ok ns \<Longrightarrow> distinct (map nd_id ns)"
proof -
  assume "nodes_ok ns"
  then have "distinct (map (map to_ascii_lowercase) (map nd_id ns))" by (simp add: nodes_ok_def node_key_def [abs_def] comp_def)
  then show ?thesis by (simp only: distinct_map)
qed

lemma deployment_ids_distinct:
  assumes "nodes_ok ns" "deployments_ok lower ns deps"
  shows "distinct (map dp_id deps)"
proof -
  have id_eq: "dp_node a = dp_node b \<and> dp_remote_model a = dp_remote_model b"
    if "a \<in> set deps" "b \<in> set deps" "dp_id a = dp_id b" for a b
  proof -
    have "node_id_parse (dp_node d) = Inr (dp_node d) \<and> dp_id d = deployment_id_of (dp_node d) (dp_remote_model d)"
      if "d \<in> set deps" for d
      using that assms by (auto simp: nodes_ok_def deployments_ok_def deployment_ok_def list_all_iff)
    with that deployment_id_unique [of "dp_node a" "dp_node a" "dp_node b" "dp_node b"] show ?thesis by metis
  qed
  have "sorted_wrt (\<lambda>a b. \<not> same_deployment lower a b) deps" using assms(2) by (simp add: deployments_ok_def)
  then have "sorted_wrt (\<lambda>a b. dp_id a \<noteq> dp_id b) deps"
    by (rule sorted_wrt_mono_rel [rotated]) (metis id_eq same_deployment_def same_name_equivalence(1))
  then show ?thesis by (simp add: distinct_map sorted_wrt_iff_nth_less distinct_conv_nth inj_on_def in_set_conv_nth)
      (metis linorder_neqE_nat)
qed

text \<open>How one listed deployment of a route ends when it leaves no error: it is a member, or its node's name
  cannot even be parsed.\<close>

definition listed_as :: "(ustr \<Rightarrow> ustr) \<Rightarrow> deployment_file \<Rightarrow> deployment \<Rightarrow> bool" where
  "listed_as lower listed d \<longleftrightarrow> dp_node d = trim (df_node listed) \<and> same_name lower (dp_remote_model d) (df_model listed)"

lemma list_deployment_cases:
  assumes "snd (snd (list_deployment lower rt ns listed (members, deps, errors))) = []"
  obtains (dropped) "errors = []" "isl (node_id_parse (df_node listed))"
      "list_deployment lower rt ns listed (members, deps, errors) = (members, deps, [])"
  | (shared) d where "errors = []" "d \<in> set deps" "listed_as lower listed d" "dp_id d \<notin> set members"
      "list_deployment lower rt ns listed (members, deps, errors) = (members @ [dp_id d], deps, [])"
  | (added) d where "errors = []" "deployment_ok ns d" "listed_as lower listed d" "dp_id d \<notin> set members"
      "\<forall>e \<in> set deps. \<not> same_deployment lower e d"
      "list_deployment lower rt ns listed (members, deps, errors) = (members @ [dp_id d], deps @ [d], [])"
proof (cases "find (\<lambda>n. nd_id n = trim (df_node listed)) ns")
  case None
  with assms show ?thesis by (intro dropped) (auto simp: list_deployment_def split: if_splits)
next
  case (Some n)
  let ?model = "trim (df_model listed)"
  have n: "n \<in> set ns" "nd_id n = trim (df_node listed)" using Some by (auto simp: find_Some_iff)
  have model: "?model \<noteq> []" "\<not> list_ex is_control ?model"
    using assms Some by (auto simp: list_deployment_def Let_def split: if_splits)
  show ?thesis
  proof (cases "find (\<lambda>d. dp_node d = nd_id n \<and> same_name lower (dp_remote_model d) ?model) deps")
    case None
    let ?d = "\<lparr>dp_id = deployment_id_of (nd_id n) ?model, dp_node = nd_id n, dp_remote_model = ?model\<rparr>"
    have "\<forall>e \<in> set deps. \<not> same_deployment lower e ?d" using None by (auto simp: find_None_iff same_deployment_def)
    with assms Some None model n show ?thesis
      by (intro added [of ?d])
        (auto simp: list_deployment_def Let_def listed_as_def deployment_ok_def trim_idem same_name_equivalence(1)
          intro: rev_image_eqI split: if_splits)
  next
    case found: (Some d)
    then have "d \<in> set deps" "listed_as lower listed d" using n by (auto simp: find_Some_iff listed_as_def)
    with assms Some found model show ?thesis
      by (intro shared [of d]) (auto simp: list_deployment_def Let_def split: if_splits)
  qed
qed

text \<open>The members of a route, after some of its listed deployments.\<close>

definition members_ok :: "(ustr \<Rightarrow> ustr) \<Rightarrow> deployment_file list \<Rightarrow> deployment list \<Rightarrow> ustr list \<Rightarrow> bool" where
  "members_ok lower listed deps members \<longleftrightarrow> distinct members
    \<and> (\<forall>i \<in> set members. \<exists>d \<in> set deps. dp_id d = i \<and> (\<exists>l \<in> set listed. listed_as lower l d))
    \<and> (\<forall>l \<in> set listed. isl (node_id_parse (df_node l)) \<or> (\<exists>d \<in> set deps. dp_id d \<in> set members \<and> listed_as lower l d))"

lemma deployments_ok_snoc:
  "deployments_ok lower ns deps \<Longrightarrow> deployment_ok ns d \<Longrightarrow> \<forall>e \<in> set deps. \<not> same_deployment lower e d \<Longrightarrow>
    deployments_ok lower ns (deps @ [d])"
  by (auto simp: deployments_ok_def sorted_wrt_append)

lemma members_ok_more: "members_ok lower listed deps members \<Longrightarrow> members_ok lower listed (deps @ extra) members"
  unfolding members_ok_def by (simp add: bex_Un) blast

lemma members_ok_snoc:
  assumes "members_ok lower listed deps members" "d \<in> set deps" "listed_as lower l d" "dp_id d \<notin> set members"
  shows "members_ok lower (listed @ [l]) deps (members @ [dp_id d])"
  using assms by (auto simp: members_ok_def) blast

lemma members_ok_dropped:
  "members_ok lower listed deps members \<Longrightarrow> isl (node_id_parse (df_node l)) \<Longrightarrow> members_ok lower (listed @ [l]) deps members"
  by (auto simp: members_ok_def) blast

lemma list_deployments_clean:
  assumes "fold (list_deployment lower rt ns) listed ([], deps, errors) = (members, deps', [])"
  shows "errors = [] \<and> (\<exists>extra. deps' = deps @ extra) \<and> (deployments_ok lower ns deps \<longrightarrow> deployments_ok lower ns deps')
    \<and> members_ok lower listed deps' members"
proof -
  let ?keeps = "\<lambda>done (members, deps', _). (\<exists>extra. deps' = deps @ extra)
    \<and> (deployments_ok lower ns deps \<longrightarrow> deployments_ok lower ns deps') \<and> members_ok lower done deps' members"
  have "snd (snd ([] :: ustr list, deps, errors)) = []
      \<and> ?keeps listed (fold (list_deployment lower rt ns) listed ([], deps, errors))"
  proof (rule fold_clean [where clean = "\<lambda>s. snd (snd s) = []"])
    fix x and s :: "ustr list \<times> deployment list \<times> config_error list"
    assume "snd (snd (list_deployment lower rt ns x s)) = []"
    then show "snd (snd s) = []" by (cases s) (auto elim: list_deployment_cases)
  next
    fix "done" x and s :: "ustr list \<times> deployment list \<times> config_error list"
    assume keeps: "?keeps done s" and clean: "snd (snd (list_deployment lower rt ns x s)) = []"
    obtain m d e where s: "s = (m, d, e)" by (cases s)
    have clean': "snd (snd (list_deployment lower rt ns x (m, d, e))) = []" using clean s by simp
    from clean' show "?keeps (done @ [x]) (list_deployment lower rt ns x s)"
    proof (cases rule: list_deployment_cases)
      case dropped
      with keeps s show ?thesis by (auto intro: members_ok_dropped)
    next
      case (shared dep)
      with keeps s show ?thesis by (auto intro: members_ok_snoc)
    next
      case (added dep)
      with keeps s members_ok_snoc [OF members_ok_more [of lower "done" d m "[dep]"], of dep x] show ?thesis
        by (auto intro: deployments_ok_snoc)
    qed
  qed (use assms in \<open>simp_all add: members_ok_def\<close>)
  with assms(1) show ?thesis by simp
qed

section \<open>Routes\<close>

lemma allowed_of_Inr:
  assumes "allowed_of members deps names named taken = Inr found"
  shows "\<exists>new. found = taken @ new \<and> set new \<subseteq> set members
    \<and> (\<forall>i \<in> set new. \<exists>d \<in> set deps. dp_id d = i \<and> (\<exists>name \<in> set names. text_eq_ignore_ascii_case (dp_node d) name))
    \<and> (names \<noteq> [] \<longrightarrow> new \<noteq> [])
    \<and> distinct (map (map to_ascii_lowercase) names) \<and> set (map (map to_ascii_lowercase) names) \<inter> set named = {}
    \<and> new = concat (map (\<lambda>name. filter (\<lambda>i. list_ex (\<lambda>d. dp_id d = i \<and> text_eq_ignore_ascii_case (dp_node d) name) deps) members) names)"
  using assms
proof (induction names arbitrary: named taken)
  case (Cons name names)
  let ?found = "filter (\<lambda>i. list_ex (\<lambda>d. dp_id d = i \<and> text_eq_ignore_ascii_case (dp_node d) name) deps) members"
  have step: "map to_ascii_lowercase name \<notin> set named" "?found \<noteq> []"
    "allowed_of members deps names (map to_ascii_lowercase name # named) (taken @ ?found) = Inr found"
    using Cons.prems by (auto simp: Let_def split: if_splits)
  from Cons.IH [OF step(3)] obtain new where new: "found = (taken @ ?found) @ new" "set new \<subseteq> set members"
    "\<forall>i \<in> set new. \<exists>d \<in> set deps. dp_id d = i \<and> (\<exists>name \<in> set names. text_eq_ignore_ascii_case (dp_node d) name)"
    "distinct (map (map to_ascii_lowercase) names)"
    "set (map (map to_ascii_lowercase) names) \<inter> set (map to_ascii_lowercase name # named) = {}"
    "new = concat (map (\<lambda>name. filter (\<lambda>i. list_ex (\<lambda>d. dp_id d = i \<and> text_eq_ignore_ascii_case (dp_node d) name) deps) members) names)"
    by blast
  have "\<forall>i \<in> set (?found @ new). \<exists>d \<in> set deps. dp_id d = i \<and> (\<exists>n \<in> set (name # names). text_eq_ignore_ascii_case (dp_node d) n)"
    using new(3) by (auto simp: list_ex_iff) blast+
  with new step(1,2) show ?case by (intro exI [of _ "?found @ new"]) auto
qed simp

text \<open>What an accepted placement gives a route: deployments of the route, in its order and without
  repetition, on the nodes the operator named, and no larger a target than the route has members.\<close>

definition placed_from :: "route_placement_file \<Rightarrow> deployment list \<Rightarrow> ustr list \<Rightarrow> route_placement \<Rightarrow> bool" where
  "placed_from raw deps members p \<longleftrightarrow> min_ready p = rp_min_ready raw \<and> min_ready p \<noteq> 0 \<and> warm_standby p = rp_warm_standby raw
    \<and> allowed p \<noteq> [] \<and> distinct (allowed p) \<and> set (allowed p) \<subseteq> set members
    \<and> sorted (map (member_position members) (allowed p))
    \<and> (\<forall>i \<in> set (allowed p). \<exists>d \<in> set deps. dp_id d = i
         \<and> (\<exists>name \<in> set (rp_allowed_nodes raw). text_eq_ignore_ascii_case (dp_node d) name))
    \<and> unat (placement_target p) \<le> length members"

lemma route_placement_of_Inr:
  assumes "route_placement_of raw members deps = Inr p" "distinct members" "distinct (map dp_id deps)"
  shows "placed_from raw deps members p"
proof -
  obtain found where found: "allowed_of members deps (rp_allowed_nodes raw) [] [] = Inr found"
    using assms(1) by (auto simp: route_placement_of_def and_then_Inr_iff split: if_splits)
  then have p: "rp_min_ready raw \<noteq> 0" "rp_allowed_nodes raw \<noteq> []"
    "p = \<lparr>min_ready = rp_min_ready raw, warm_standby = rp_warm_standby raw,
          allowed = sort_key (member_position members) found\<rparr>" "unat (placement_target p) \<le> length members"
    using assms(1) by (auto simp: route_placement_of_def Let_def split: if_splits)
  let ?of = "\<lambda>name. filter (\<lambda>i. list_ex (\<lambda>d. dp_id d = i \<and> text_eq_ignore_ascii_case (dp_node d) name) deps) members"
  from allowed_of_Inr [OF found]
  have new: "set found \<subseteq> set members" "found \<noteq> []" "distinct (map (map to_ascii_lowercase) (rp_allowed_nodes raw))"
    "found = concat (map ?of (rp_allowed_nodes raw))"
    "\<forall>i \<in> set found. \<exists>d \<in> set deps. dp_id d = i \<and> (\<exists>name \<in> set (rp_allowed_nodes raw). text_eq_ignore_ascii_case (dp_node d) name)"
    using p(2) by auto
  have disjoint: "a = b" if "a \<in> set (rp_allowed_nodes raw)" "b \<in> set (rp_allowed_nodes raw)" "i \<in> set (?of a)" "i \<in> set (?of b)" for a b i
  proof -
    from that(3,4) obtain d e where "d \<in> set deps" "e \<in> set deps" "dp_id d = i" "dp_id e = i"
      "text_eq_ignore_ascii_case (dp_node d) a" "text_eq_ignore_ascii_case (dp_node e) b" by (auto simp: list_ex_iff)
    moreover then have "d = e" using assms(3) by (metis distinct_map inj_onD)
    ultimately have "map to_ascii_lowercase a = map to_ascii_lowercase b" by (simp add: text_eq_ignore_ascii_case_def)
    with that(1,2) new(3) show ?thesis by (metis distinct_map inj_onD)
  qed
  have "distinct (concat (map ?of names))" if "set names \<subseteq> set (rp_allowed_nodes raw)" "distinct names" for names
    using that
  proof (induction names)
    case (Cons a names)
    have "set (?of a) \<inter> set (concat (map ?of names)) = {}"
    proof (rule equals0I)
      fix i
      assume "i \<in> set (?of a) \<inter> set (concat (map ?of names))"
      then obtain b where "i \<in> set (?of a)" "b \<in> set names" "i \<in> set (?of b)" by auto
      moreover from this Cons.prems have "a = b" by (intro disjoint [of a b i]) auto
      ultimately show False using Cons.prems by simp
    qed
    with Cons assms(2) show ?case by (simp only: list.map concat.simps distinct_append) simp
  qed simp
  moreover have "distinct (rp_allowed_nodes raw)" using new(3) by (simp only: distinct_map)
  ultimately have "distinct found" unfolding new(4) by blast
  moreover have "sort_key (member_position members) found \<noteq> []" using new(2) by (metis length_0_conv length_sort)
  ultimately show ?thesis using p(1,4) new(1,5) unfolding placed_from_def p(3) by simp
qed

lemma validate_alias_idem: "validate_alias raw = Inr a \<Longrightarrow> validate_alias a = Inr a"
  by (auto simp: validate_alias_def Let_def trim_idem split: if_splits option.splits)

text \<open>A route of an accepted file and the entry it comes from.\<close>

definition route_from :: "(ustr \<Rightarrow> ustr) \<Rightarrow> deployment list \<Rightarrow> route_file \<Rightarrow> route \<Rightarrow> bool" where
  "route_from lower deps entry r \<longleftrightarrow> route_name_parse (rf_name entry) = Inr (rt_name r) \<and> rt_policy r = rf_strategy entry
    \<and> members_ok lower (rf_deployments entry) deps (rt_deployments r)
    \<and> (case rf_placement entry of
         None \<Rightarrow> rt_placement r = None
       | Some raw \<Rightarrow> \<exists>p. rt_placement r = Some p \<and> placed_from raw deps (rt_deployments r) p)
    \<and> rt_description r = map_option trim (rf_description entry)"

lemma route_from_more: "route_from lower deps entry r \<Longrightarrow> route_from lower (deps @ extra) entry r"
proof -
  have "placed_from raw (deps @ extra) members p" if "placed_from raw deps members p" for raw members p
    using that unfolding placed_from_def set_append by blast
  moreover assume "route_from lower deps entry r"
  ultimately show ?thesis
    using members_ok_more [of lower "rf_deployments entry" deps "rt_deployments r" extra]
    by (auto simp: route_from_def split: option.splits)
qed

lemma validate_route_clean:
  assumes "snd (snd (validate_route lower ns entry (rts, deps, errors))) = []"
  shows "errors = [] \<and> (\<exists>r extra. validate_route lower ns entry (rts, deps, errors) = (rts @ [r], deps @ extra, [])
    \<and> (nodes_ok ns \<longrightarrow> deployments_ok lower ns deps \<longrightarrow> route_from lower (deps @ extra) entry r \<and> deployments_ok lower ns (deps @ extra))
    \<and> (\<forall>q \<in> set rts. \<not> route_matches lower (rt_name q) (rt_name r)))"
proof -
  obtain name where name: "route_name_parse (rf_name entry) = Inr name" "\<not> list_ex (\<lambda>r. route_matches lower (rt_name r) name) rts"
      "rf_deployments entry \<noteq> []"
    using assms(1) by (auto simp: validate_route_def split: sum.splits alias_problem.splits if_splits)
  obtain members deps1 errors1 where run: "fold (list_deployment lower name ns) (rf_deployments entry) ([], deps, errors) = (members, deps1, errors1)"
    by (metis surj_pair)
  obtain placement errors2 where placed: "(case rf_placement entry of None \<Rightarrow> (None, errors1)
      | Some raw \<Rightarrow> validate_route_placement name raw members deps1 errors1) = (placement, errors2)" by fastforce
  obtain description errors3 where described: "(case rf_description entry of None \<Rightarrow> (None, errors2)
      | Some raw \<Rightarrow> (case validate_description raw of Inl problem \<Rightarrow> (None, errors2 @ [BadRouteDescription name problem])
          | Inr text \<Rightarrow> (Some text, errors2))) = (description, errors3)" by fastforce
  let ?r = "\<lparr>rt_name = name, rt_policy = rf_strategy entry, rt_deployments = members, rt_description = description, rt_placement = placement\<rparr>"
  have res: "validate_route lower ns entry (rts, deps, errors) = (rts @ [?r], deps1, errors3)"
    using name run placed described by (simp add: validate_route_def)
  with assms(1) have errors3: "errors3 = []" by simp
  then have errors2: "errors2 = []" and desc: "description = map_option trim (rf_description entry)"
    using described by (auto simp: validate_description_def Let_def split: option.splits sum.splits if_splits)
  then have errors1: "errors1 = []" and place: "case rf_placement entry of None \<Rightarrow> placement = None
      | Some raw \<Rightarrow> \<exists>p. placement = Some p \<and> route_placement_of raw members deps1 = Inr p"
    using placed by (auto simp: validate_route_placement_def split: option.splits sum.splits)
  from list_deployments_clean [OF run [unfolded errors1]]
  obtain extra where clean: "errors = []" "deps1 = deps @ extra" "deployments_ok lower ns deps \<longrightarrow> deployments_ok lower ns deps1"
    "members_ok lower (rf_deployments entry) deps1 members" by blast
  have "placed_from raw deps1 members p" if "route_placement_of raw members deps1 = Inr p" "deployments_ok lower ns deps1" "nodes_ok ns" for raw p
    using that(1) clean(4) deployment_ids_distinct [OF that(3,2)]
    by (intro route_placement_of_Inr) (auto simp: members_ok_def)
  with place have "nodes_ok ns \<longrightarrow> deployments_ok lower ns deps1 \<longrightarrow> route_from lower deps1 entry ?r"
    using name(1) clean(4) desc by (auto simp: route_from_def split: option.splits)
  with res clean errors3 name(2) show ?thesis by (auto simp: list_ex_iff)
qed

lemma validate_route_errors: "snd (snd (validate_route lower ns entry s)) = [] \<Longrightarrow> snd (snd s) = []"
  using validate_route_clean by (cases s) fastforce

lemma validate_routes_errors:
  "validate_routes lower raw ns errors = (rts, deps, []) \<Longrightarrow> errors = []"
  using fold_clean [where clean = "\<lambda>s. snd (snd s) = []" and keeps = "\<lambda>_ _. True" and f = "validate_route lower ns"
      and s = "([], [], errors)" and xs = raw] validate_route_errors
  by (auto simp: validate_routes_def)

lemma validate_routes_clean:
  assumes "validate_routes lower raw ns errors = (rts, deps, [])" "nodes_ok ns"
  shows "errors = [] \<and> list_all2 (route_from lower deps) raw rts \<and> deployments_ok lower ns deps
    \<and> sorted_wrt (\<lambda>a b. \<not> route_matches lower (rt_name a) (rt_name b)) rts"
proof -
  let ?keeps = "\<lambda>done (rts, deps, _). list_all2 (route_from lower deps) done rts \<and> deployments_ok lower ns deps
    \<and> sorted_wrt (\<lambda>a b. \<not> route_matches lower (rt_name a) (rt_name b)) rts"
  have "snd (snd ([] :: route list, [] :: deployment list, errors)) = [] \<and> ?keeps raw (fold (validate_route lower ns) raw ([], [], errors))"
  proof (rule fold_clean [where clean = "\<lambda>s. snd (snd s) = []"])
    fix x and s :: "route list \<times> deployment list \<times> config_error list"
    assume "snd (snd (validate_route lower ns x s)) = []"
    then show "snd (snd s) = []" by (rule validate_route_errors)
  next
    fix "done" x and s :: "route list \<times> deployment list \<times> config_error list"
    assume keeps: "?keeps done s" and clean: "snd (snd (validate_route lower ns x s)) = []"
    obtain rts deps errors where s: "s = (rts, deps, errors)" by (cases s)
    from validate_route_clean [OF clean [unfolded s]] keeps s assms(2) obtain r extra
      where "validate_route lower ns x s = (rts @ [r], deps @ extra, [])" "route_from lower (deps @ extra) x r"
        "deployments_ok lower ns (deps @ extra)" "\<forall>q \<in> set rts. \<not> route_matches lower (rt_name q) (rt_name r)"
      by auto
    moreover have "list_all2 (route_from lower (deps @ extra)) done rts"
      using keeps s by (auto intro: list_all2_mono route_from_more)
    ultimately show "?keeps (done @ [x]) (validate_route lower ns x s)"
      using keeps s by (simp add: list_all2_appendI sorted_wrt_append)
  qed (use assms in \<open>simp_all add: validate_routes_def deployments_ok_def\<close>)
  with assms(1) show ?thesis by (simp add: validate_routes_def)
qed

section \<open>An accepted file\<close>

lemma resolve_default_clean:
  assumes "resolve_default lower rts raw errors = (dflt, [])"
  shows "errors = [] \<and> (case raw of
      None \<Rightarrow> dflt = None
    | Some name \<Rightarrow> \<exists>i. dflt = Some i \<and> i < length rts \<and> route_matches lower (rt_name (rts ! i)) name)"
  using assms
  by (cases raw) (auto simp: resolve_default_def split: option.splits if_splits dest: sym index_where_Some)

definition config_ok :: "settings_ext \<Rightarrow> (ustr \<rightharpoonup> ustr) \<Rightarrow> router_file \<Rightarrow> router_config \<Rightarrow> bool" where
  "config_ok ex env f c \<longleftrightarrow>
    (let tp = cf_topology c; lower = sx_lower ex in
     list_all2 (node_from ex env) (fi_nodes f) (nodes tp) \<and> nodes tp \<noteq> [] \<and> nodes_ok (nodes tp)
     \<and> deployments_ok lower (nodes tp) (deployments tp)
     \<and> list_all2 (route_from lower (deployments tp)) (fi_routes f) (routes tp) \<and> routes tp \<noteq> []
     \<and> sorted_wrt (\<lambda>a b. \<not> route_matches lower (rt_name a) (rt_name b)) (routes tp)
     \<and> (case fi_default_route f of
          None \<Rightarrow> default_index tp = None
        | Some name \<Rightarrow> \<exists>i. default_index tp = Some i \<and> i < length (routes tp) \<and> route_matches lower (rt_name (routes tp ! i)) name)
     \<and> cf_listen c \<noteq> [] \<and> (fi_api_key_env f \<noteq> None \<longrightarrow> cf_client_key c \<noteq> None)
     \<and> 0 < hy_timeout (cf_health c) \<and> hy_timeout (cf_health c) \<le> hy_interval (cf_health c) \<and> hy_failure_threshold (cf_health c) \<noteq> 0
     \<and> 0 < cf_connect_timeout c
     \<and> (case cf_pre_commit_budget c of None \<Rightarrow> True | Some ms \<Rightarrow> 1000 \<le> ms \<and> ms \<le> 3600000)
     \<and> affinity_policy_ok (cf_affinity c) \<and> placement_policy_ok (cf_placement c) \<and> cf_trace_capacity c \<le> MAX_TRACE_CAPACITY
     \<and> (case fi_auto_route f of
          None \<Rightarrow> cf_auto c = None
        | Some raw \<Rightarrow> \<exists>au. cf_auto c = Some au \<and> auto_ok lower (routes tp) raw au))"

lemma nodes_ok_from:
  assumes "list_all2 (node_from ex env) raw ns" "distinct (map node_key ns)"
  shows "nodes_ok ns"
proof -
  have "node_id_parse (nd_id n) = Inr (nd_id n)" if "n \<in> set ns" for n
    using that assms(1) node_id_parse_Inr by (auto simp: list_all2_conv_all_nth in_set_conv_nth node_from_def)
  with assms(2) show ?thesis by (simp add: nodes_ok_def list_all_iff)
qed

lemma validate_with_store_Inr:
  assumes "validate_with_store ex number env stored f = Inr c"
  shows "config_ok ex env f c"
proof -
  obtain listen e1 where listen: "validate_listen (fi_listen f) [] = (listen, e1)" by fastforce
  obtain key e2 where key: "(case fi_api_key_env f of None \<Rightarrow> (None, e1) | Some var \<Rightarrow> read_secret TheRouter var env e1) = (key, e2)"
    by fastforce
  obtain health e3 where health: "validate_health (fi_health f) e2 = (health, e3)" by fastforce
  define e4 where "e4 = e3 @ (if qf_connect_timeout_secs (fi_request f) = 0 then [BadConnectTimeout] else [])"
  obtain budget e5 where budget: "validate_budget (qf_pre_commit_budget_ms (fi_request f)) e4 = (budget, e5)" by fastforce
  obtain affinity e6 where affinity: "validate_affinity ex (fi_session_affinity f) e5 = (affinity, e6)" by fastforce
  obtain placement e7 where placement: "validate_placement (fi_placement f) e6 = (placement, e7)" by fastforce
  define e8 where "e8 = e7 @ (if fi_trace_capacity f > MAX_TRACE_CAPACITY then [BadTraceCapacity MAX_TRACE_CAPACITY] else [])"
  define e9 where "e9 = e8 @ (if fi_nodes f = [] then [NoNodes] else [])"
  define e10 where "e10 = e9 @ (if fi_routes f = [] then [NoRoutes] else [])"
  obtain ns e11 where ns: "validate_nodes ex env (fi_nodes f) e10 = (ns, e11)" by fastforce
  obtain rts deps e12 where rts: "validate_routes (sx_lower ex) (fi_routes f) ns e11 = (rts, deps, e12)" by (metis prod_cases3)
  obtain dflt e13 where dflt: "resolve_default (sx_lower ex) rts (fi_default_route f) e12 = (dflt, e13)" by fastforce
  obtain auto e14 where auto: "(case fi_auto_route f of None \<Rightarrow> (None, e13)
      | Some raw \<Rightarrow> auto_validate ex number raw rts env stored e13) = (auto, e14)" by fastforce
  have run: "validate_with_store ex number env stored f = (if e14 \<noteq> [] then Inl e14 else Inr
          \<lparr>cf_topology = \<lparr>nodes = ns, deployments = deps, routes = rts, default_index = dflt\<rparr>,
           cf_listen = listen, cf_client_key = key, cf_health = health,
           cf_connect_timeout = from_secs (qf_connect_timeout_secs (fi_request f)),
           cf_pre_commit_budget = budget, cf_affinity = affinity, cf_trace_capacity = fi_trace_capacity f,
           cf_placement = placement, cf_auto = auto\<rparr>)"
    unfolding validate_with_store_def Let_def listen prod.case key health e4_def [symmetric] budget affinity placement
      e8_def [symmetric] e9_def [symmetric] e10_def [symmetric] ns rts dflt auto ..
  then have e14: "e14 = []" using assms by (auto split: if_splits)
  have a: "e13 = [] \<and> (case fi_auto_route f of None \<Rightarrow> auto = None
      | Some raw \<Rightarrow> \<exists>au. auto = Some au \<and> auto_ok (sx_lower ex) rts raw au)"
    using auto e14 auto_validate_clean by (auto split: option.splits)
  note d = resolve_default_clean [OF dflt [unfolded conjunct1 [OF a]]]
  have "e11 = []" using rts conjunct1 [OF d] validate_routes_errors by blast
  note n = validate_nodes_clean [OF ns [unfolded this]]
  have ok: "nodes_ok ns" using n nodes_ok_from by blast
  note r = validate_routes_clean [OF rts [unfolded conjunct1 [OF d]] ok]
  have e: "e7 = []" "fi_trace_capacity f \<le> MAX_TRACE_CAPACITY" "fi_nodes f \<noteq> []" "fi_routes f \<noteq> []"
    using conjunct1 [OF n] by (auto simp: e8_def e9_def e10_def split: if_splits)
  note p = validate_placement_clean [OF placement [unfolded e(1)]]
  note af = validate_affinity_clean [OF affinity [unfolded conjunct1 [OF p]]]
  note b = validate_budget_clean [OF budget [unfolded conjunct1 [OF af]]]
  have c: "e3 = []" "0 < from_secs (qf_connect_timeout_secs (fi_request f))"
    using conjunct1 [OF b] by (auto simp: e4_def from_secs_def unat_gt_0 split: if_splits)
  note h = validate_health_clean [OF health [unfolded c(1)]]
  have k: "e1 = [] \<and> (fi_api_key_env f \<noteq> None \<longrightarrow> key \<noteq> None)"
    using key conjunct1 [OF h] read_secret_clean by (auto split: option.splits)
  note l = validate_listen_clean [OF listen [unfolded conjunct1 [OF k]]]
  have "ns \<noteq> []" "rts \<noteq> []" using n r e by auto
  with a d n r ok p af b c h k l e run assms e14 show ?thesis
    unfolding config_ok_def Let_def by (auto split: option.splits)
qed

section \<open>What the router may rely on\<close>

lemma config_ok_parts:
  assumes "config_ok ex env f c"
  shows "nodes_ok (nodes (cf_topology c))" "deployments_ok (sx_lower ex) (nodes (cf_topology c)) (deployments (cf_topology c))"
    "list_all2 (route_from (sx_lower ex) (deployments (cf_topology c))) (fi_routes f) (routes (cf_topology c))"
    "sorted_wrt (\<lambda>a b. \<not> route_matches (sx_lower ex) (rt_name a) (rt_name b)) (routes (cf_topology c))"
  using assms by (simp_all add: config_ok_def Let_def)

lemma route_of_config:
  assumes "config_ok ex env f c" "r \<in> set (routes (cf_topology c))"
  obtains entry where "entry \<in> set (fi_routes f)" "route_from (sx_lower ex) (deployments (cf_topology c)) entry r"
proof -
  from assms(2) obtain i where "i < length (routes (cf_topology c))" "r = routes (cf_topology c) ! i" by (auto simp: in_set_conv_nth)
  with config_ok_parts(3) [OF assms(1)] show ?thesis
    by (intro that [of "fi_routes f ! i"]) (auto simp: list_all2_conv_all_nth)
qed

text \<open>Among routes whose names do not match each other, a search by a name finds the route that has it.\<close>

lemma find_unmatched:
  assumes "sorted_wrt (\<lambda>a b. \<not> route_matches lower (rt_name a) (rt_name b)) rts" "r \<in> set rts"
    and "route_matches lower (rt_name r) name"
  shows "find (\<lambda>q. route_matches lower (rt_name q) name) rts = Some r"
  using assms
proof (induction rts)
  case (Cons q rts)
  have same: "route_matches lower (rt_name q) (rt_name r)" if "route_matches lower (rt_name q) name"
    using that Cons.prems(3) same_name_equivalence(2,3) unfolding route_matches_def by metis
  show ?case
  proof (cases "q = r")
    case False
    with Cons.prems(2) have "r \<in> set rts" by simp
    with Cons same show ?thesis by auto
  qed (use Cons.prems in simp)
qed simp

lemma find_route_name:
  assumes "sorted_wrt (\<lambda>a b. \<not> route_matches lower (rt_name a) (rt_name b)) rts" "r \<in> set rts"
  shows "find (\<lambda>q. rt_name q = rt_name r) rts = Some r"
  using assms
proof (induction rts)
  case (Cons q rts)
  then show ?case using same_name_equivalence(1) unfolding route_matches_def by (cases "q = r") force+
qed simp

text \<open>In an accepted configuration every configured route is the answer to its own name, every member of a
  route is a deployment on a configured node, and the default is the route the operator named.\<close>

lemma config_resolves:
  assumes "config_ok ex env f c" "r \<in> set (routes (cf_topology c))"
  shows "topology_route (cf_topology c) (rt_name r) = Some r"
    and "route_resolve (sx_lower ex) (cf_topology c) (Some (rt_name r)) = Inr r"
    and "i \<in> set (rt_deployments r) \<Longrightarrow>
      \<exists>d n. topology_deployment (cf_topology c) i = Some d \<and> topology_node (cf_topology c) (dp_node d) = Some n"
proof -
  note parts = config_ok_parts [OF assms(1)]
  obtain entry where entry: "route_from (sx_lower ex) (deployments (cf_topology c)) entry r"
    using route_of_config [OF assms] by blast
  then have "selector_parse (Some (rt_name r)) = Named (rt_name r)"
    using accepted_name_selects by (auto simp: route_from_def route_name_parse_def)
  with find_unmatched [OF parts(4) assms(2), of "rt_name r"] same_name_equivalence(1)
  show "route_resolve (sx_lower ex) (cf_topology c) (Some (rt_name r)) = Inr r"
    by (simp add: route_resolve_def route_matches_def)
  show "topology_route (cf_topology c) (rt_name r) = Some r"
    using find_route_name [OF parts(4) assms(2)] by (simp add: topology_route_def)
  assume "i \<in> set (rt_deployments r)"
  then obtain d where "d \<in> set (deployments (cf_topology c))" "dp_id d = i"
    using entry by (auto simp: route_from_def members_ok_def)
  then obtain e where e: "topology_deployment (cf_topology c) i = Some e" "e \<in> set (deployments (cf_topology c))"
    by (cases "topology_deployment (cf_topology c) i")
      (auto simp: topology_deployment_def find_None_iff dest: find_SomeD)
  then have "dp_node e \<in> nd_id ` set (nodes (cf_topology c))"
    using parts(2) by (auto simp: deployments_ok_def deployment_ok_def list_all_iff)
  then obtain n where "topology_node (cf_topology c) (dp_node e) = Some n"
    by (cases "topology_node (cf_topology c) (dp_node e)") (auto simp: topology_node_def find_None_iff)
  with e(1) show "\<exists>d n. topology_deployment (cf_topology c) i = Some d \<and> topology_node (cf_topology c) (dp_node d) = Some n" by blast
qed

text \<open>C17. A configuration the router starts with is well formed: each node and each route comes from its entry
  of the file, in order, with the settings of that entry; node ids are distinct even ignoring case, deployment
  ids are derived and one per node and model, route names do not match each other; the default, the
  automatic routing section, the credentials, timeouts, budgets, session and placement settings are within
  what their sections promise.\<close>

theorem accepted_config_well_formed:
  "validate_with_store ex number env stored f = Inr c \<Longrightarrow> config_ok ex env f c"
  by (rule validate_with_store_Inr)

text \<open>C9. In a configuration the router starts with, every reference resolves: a request that names a configured route
  gets that route, in whatever place of the list it stands; every member of a route is a deployment and its
  node is configured; and a request that names none gets the default the file names, or the error that there
  is none.\<close>

theorem accepted_config_resolves:
  assumes "validate_with_store ex number env stored f = Inr c"
  shows "(\<forall>r \<in> set (routes (cf_topology c)).
      route_resolve (sx_lower ex) (cf_topology c) (Some (rt_name r)) = Inr r
      \<and> (\<forall>i \<in> set (rt_deployments r). \<exists>d n. topology_deployment (cf_topology c) i = Some d
           \<and> topology_node (cf_topology c) (dp_node d) = Some n))
    \<and> (case fi_default_route f of
         None \<Rightarrow> route_resolve (sx_lower ex) (cf_topology c) None = Inl NoDefaultRoute
       | Some name \<Rightarrow> \<exists>r \<in> set (routes (cf_topology c)). route_resolve (sx_lower ex) (cf_topology c) None = Inr r
           \<and> route_matches (sx_lower ex) (rt_name r) name)"
proof -
  have ok: "config_ok ex env f c" by (rule validate_with_store_Inr [OF assms])
  have none: "selector_parse None = DefaultModel" by (simp add: selector_parse_def trim_def)
  have "case fi_default_route f of
         None \<Rightarrow> route_resolve (sx_lower ex) (cf_topology c) None = Inl NoDefaultRoute
       | Some name \<Rightarrow> \<exists>r \<in> set (routes (cf_topology c)). route_resolve (sx_lower ex) (cf_topology c) None = Inr r
           \<and> route_matches (sx_lower ex) (rt_name r) name"
  proof (cases "fi_default_route f")
    case None
    with ok show ?thesis by (simp add: config_ok_def Let_def route_resolve_def none default_route_def)
  next
    case (Some name)
    then obtain i where "default_index (cf_topology c) = Some i" "i < length (routes (cf_topology c))"
      "route_matches (sx_lower ex) (rt_name (routes (cf_topology c) ! i)) name"
      using ok by (auto simp: config_ok_def Let_def)
    with Some show ?thesis
      by (simp add: route_resolve_def none default_route_def)
  qed
  then show ?thesis using config_resolves(2,3) [OF ok] by (intro conjI ballI) simp_all
qed

section \<open>A small configuration\<close>

definition demo_ext :: settings_ext where
  "demo_ext = \<lparr>sx_lower = map to_ascii_lowercase,
     sx_url = (\<lambda>t. Some \<lparr>url_text = t, url_scheme = ascii ''http'', url_host = Some (ascii ''192.0.2.10''), url_username = [],
       url_password = None, url_query = None, url_fragment = None\<rparr>),
     sx_header_name = (\<lambda>_. True)\<rparr>"

definition demo_route_file :: "string \<Rightarrow> string \<Rightarrow> route_file" where
  "demo_route_file name node = \<lparr>rf_name = ascii name, rf_strategy = RoundRobin, rf_description = None,
     rf_deployments = [\<lparr>df_node = ascii node, df_model = ascii name\<rparr>], rf_placement = None\<rparr>"

definition demo_classifier_file :: classifier_file where
  "demo_classifier_file = \<lparr>cs_provider = ByLightweight, cs_routes = [ascii ''general'', ascii ''Coder''], cs_fallback_route = None,
     cs_lightweight = None, cs_jev = None, cs_route = Some (ascii ''Q''), cs_timeout_ms = Some 30000,
     cs_min_confidence = None, cs_max_input_chars = None\<rparr>"

definition demo_auto_file :: auto_route_file where
  "demo_auto_file = \<lparr>ar_enabled = True, ar_fallback_route = ascii ''General'',
     ar_rules = [\<lparr>rl_name = ascii ''tools'', rl_when = no_condition\<lparr>co_requires_tools := Some True\<rparr>,
                   rl_route = Some (ascii ''coder''), rl_classify = False\<rparr>,
                 \<lparr>rl_name = ascii ''semantic'', rl_when = no_condition, rl_route = None, rl_classify = True\<rparr>],
     ar_classifier = Some demo_classifier_file, ar_adaptive_scoring = None,
     ar_cross_route_fallback = Some [(ascii ''Coder'', [ascii ''General''])]\<rparr>"

definition demo_router_file :: "string \<Rightarrow> router_file" where
  "demo_router_file node = \<lparr>fi_listen = [ascii ''[::1]:11500''], fi_api_key_env = None, fi_default_route = Some (ascii '' general''),
     fi_health = default_health_file, fi_request = default_request_file, fi_session_affinity = default_affinity_file,
     fi_trace_capacity = default_trace_capacity, fi_placement = default_placement_file, fi_auto_route = Some demo_auto_file,
     fi_nodes = [\<lparr>nf_id = ascii ''a'', nf_url = ascii ''http://192.0.2.10:11434'', nf_enabled = True, nf_api_key_env = None\<rparr>],
     fi_routes = [demo_route_file ''General'' ''a'', demo_route_file ''Coder'' node, demo_route_file ''Q'' ''a'']\<rparr>"

definition demo_config :: router_config where
  "demo_config = projr (validate_with_store demo_ext (\<lambda>_. []) (\<lambda>_. None) (\<lambda>_. None) (demo_router_file ''a''))"

lemma demo_config: "validate_with_store demo_ext (\<lambda>_. []) (\<lambda>_. None) (\<lambda>_. None) (demo_router_file ''a'') = Inr demo_config"
proof -
  have "\<not> isl (validate_with_store demo_ext (\<lambda>_. []) (\<lambda>_. None) (\<lambda>_. None) (demo_router_file ''a''))" by code_simp
  then show ?thesis by (simp add: demo_config_def)
qed

theorem accepted_config_well_formed_witness: "config_ok demo_ext (\<lambda>_. None) (demo_router_file ''a'') demo_config"
  by (rule accepted_config_well_formed [OF demo_config])

theorem accepted_config_resolves_witness:
  "\<exists>r \<in> set (routes (cf_topology demo_config)).
     route_resolve (sx_lower demo_ext) (cf_topology demo_config) None = Inr r \<and> route_matches (sx_lower demo_ext) (rt_name r) (ascii '' general'')"
  using accepted_config_resolves [OF demo_config] by (simp add: demo_router_file_def)

text \<open>A deployment whose node has a name that no node can have is left out of its route without an error:
  the file is accepted, and the route has no deployment at all.\<close>

theorem unparseable_node_dropped:
  "map (\<lambda>r. rt_deployments r) (routes (cf_topology (projr
      (validate_with_store demo_ext (\<lambda>_. []) (\<lambda>_. None) (\<lambda>_. None) (demo_router_file ''no such node'')))))
    = [[ascii ''a/General''], [], [ascii ''a/Q'']]
   \<and> \<not> isl (validate_with_store demo_ext (\<lambda>_. []) (\<lambda>_. None) (\<lambda>_. None) (demo_router_file ''no such node''))"
  by code_simp

end
