(* ===== verification/Router_Request.thy ===== *)
theory Router_Request
  imports Router_Proxy_Chain Router_Config
begin

text \<open>
  A request from its body on, \<open>forward_as\<close>, \<open>route_request\<close> and \<open>resolve_auto\<close> of \<open>lightweight-router/src/proxy.rs\<close>: the
  budget it is given, the route it asks for or that \<open>Auto\<close> resolves to, its requirements, and the chain of
  \<open>Router_Proxy\<close>. Reading the requirements rests on the wire types and is input (\<open>in_extracted\<close>), as is what the
  classifier's provider does (\<open>in_side\<close>) and what the other requests, and the nested one, do to the shared state
  meanwhile (\<open>in_others\<close>). Apart from the awaits the clock stands still.
\<close>

section \<open>The router and the request\<close>

record router =
  ro_ext :: ext
  ro_reader :: json_reader
  ro_topology :: topology
  ro_auto :: "auto_route option"
  ro_request_budget :: "nat option"

record incoming =
  in_endpoint :: endpoint
  in_headers :: "ustr \<rightharpoonup> ustr"
  in_body :: "u8 list"
  in_request_id :: ustr
  in_extracted :: "client_response + request_requirements"
  in_truncated :: bool
  in_side :: provider_side
  in_others :: "shared \<Rightarrow> shared"
  in_net :: "nat \<Rightarrow> await"
  in_unix_now :: u64

datatype auto_event =
    Classified provider_kind classifier_outcome "ustr option"
  | RouteScored scoring_reason ustr bool
  | AutoDecided ustr ustr bool

record router_state =
  rs_shared :: shared
  rs_status :: classifier_status
  rs_events :: "auto_event list"

definition log_auto :: "auto_event \<Rightarrow> router_state \<Rightarrow> router_state" where
  "log_auto e st = st\<lparr>rs_events := rs_events st @ [e]\<rparr>"

definition count_request :: "ustr \<Rightarrow> request_outcome \<Rightarrow> router_state \<Rightarrow> router_state" where
  "count_request name out st = st\<lparr>rs_shared := log_metric (RequestCounted name out) (rs_shared st)\<rparr>"

definition UNKNOWN_ROUTE :: ustr where "UNKNOWN_ROUTE = ascii ''_unknown''"

section \<open>Resolving \<open>Auto\<close>\<close>

record auto_resolution =
  az_route :: "routing_failure + route"
  az_needs :: request_requirements
  az_rule :: "ustr option"
  az_classification :: "classification option"
  az_scoring :: "scoring_decision option"

datatype auto_stop = Refused client_response | AutoBudgetExhausted classification "ustr option"

definition classification_of :: "router \<Rightarrow> auto_route \<Rightarrow> incoming \<Rightarrow> bool \<Rightarrow> request_budget option \<Rightarrow> nat \<Rightarrow> auto_decision
    \<Rightarrow> classification option" where
  "classification_of ro au inc nested budget now choice =
    (case au_classifier au of
       None \<Rightarrow> None
     | Some cl \<Rightarrow>
         if \<not> ad_classify choice then None
         else if nested then Some (nested_classification (provider_kind_of (cl_provider cl)))
         else Some (classify (ex_lower (ro_ext ro)) (ro_reader ro) cl (in_side inc) (in_request_id inc) (in_truncated inc) budget now))"

definition scoring_of :: "auto_route \<Rightarrow> classification option \<Rightarrow> scoring_decision option" where
  "scoring_of au cn =
    (case (cn, au_classifier au, au_scoring au) of
       (Some c, Some cl, Some sc) \<Rightarrow> if as_enabled sc then Some (scoring_decide sc c cl) else None
     | _ \<Rightarrow> None)"

definition resolved_route :: "auto_route \<Rightarrow> auto_decision \<Rightarrow> classification option \<Rightarrow> scoring_decision option \<Rightarrow> ustr" where
  "resolved_route au choice cn scored =
    (case (scored, cn, au_classifier au) of
       (Some sd, _, _) \<Rightarrow> sd_route sd
     | (None, Some c, Some cl) \<Rightarrow> classification_route cl c
     | _ \<Rightarrow> ad_route choice)"

text \<open>The time a classification takes.\<close>

definition after_classification :: "nat \<Rightarrow> classification option \<Rightarrow> nat" where
  "after_classification now cn = now + (case cn of None \<Rightarrow> 0 | Some c \<Rightarrow> cn_duration c)"

definition resolve_auto :: "router \<Rightarrow> auto_route \<Rightarrow> incoming \<Rightarrow> bool \<Rightarrow> request_budget option \<Rightarrow> nat \<Rightarrow> router_state
    \<Rightarrow> (auto_stop + auto_resolution) \<times> router_state" where
  "resolve_auto ro au inc nested budget now st =
    (case in_extracted inc of
       Inl refused \<Rightarrow> (Inl (Refused refused), count_request AUTO_ROUTE OutClientError st)
     | Inr needs \<Rightarrow>
         let choice = decide au needs;
             cn = classification_of ro au inc nested budget now choice;
             st = (if cn \<noteq> None then st\<lparr>rs_shared := (in_others inc (rs_shared st))\<lparr>sh_log := sh_log (rs_shared st)\<rparr>\<rparr> else st)
         in case cn of
              Some c \<Rightarrow>
                if cn_outcome c = RequestBudgetExhausted
                then (Inl (AutoBudgetExhausted c (ad_rule choice)), log_auto (Classified (cn_provider c) (cn_outcome c) None) st)
                else
                  let scored = scoring_of au cn;
                      st = (case scored of None \<Rightarrow> st | Some sd \<Rightarrow> log_auto (RouteScored (sd_reason sd) (sd_route sd) (sd_overrode sd)) st);
                      st = (case au_classifier au of
                              None \<Rightarrow> st
                            | Some cl \<Rightarrow>
                                log_auto (Classified (cn_provider c) (cn_outcome c)
                                    (if cn_outcome c = Chosen then Some (classification_route cl c) else None))
                                  (st\<lparr>rs_status := status_record (in_unix_now inc) (cn_outcome c) (rs_status st)\<rparr>));
                      resolved = resolved_route au choice cn scored
                  in (Inr \<lparr>az_route = (case topology_route (ro_topology ro) resolved of Some r \<Rightarrow> Inr r | None \<Rightarrow> Inl (UnknownRoute resolved)),
                        az_needs = needs, az_rule = ad_rule choice, az_classification = cn, az_scoring = scored\<rparr>,
                      log_auto (AutoDecided (rule_label choice) resolved (ad_rule choice = None)) st)
            | None \<Rightarrow>
                let resolved = resolved_route au choice None None
                in (Inr \<lparr>az_route = (case topology_route (ro_topology ro) resolved of Some r \<Rightarrow> Inr r | None \<Rightarrow> Inl (UnknownRoute resolved)),
                      az_needs = needs, az_rule = ad_rule choice, az_classification = None, az_scoring = None\<rparr>,
                    log_auto (AutoDecided (rule_label choice) resolved (ad_rule choice = None)) st))"

section \<open>The whole request\<close>

fun body_refusal :: "body_problem \<Rightarrow> client_response" where
  "body_refusal InvalidJson = RouterError 400 (ascii ''invalid_json'')"
| "body_refusal NotAnObject = RouterError 400 (ascii ''invalid_request_body'')"
| "body_refusal ModelNotAString = RouterError 400 (ascii ''invalid_request_body'')"

definition requested_model :: "json_object \<Rightarrow> ustr option" where
  "requested_model obj = (case map_of obj (ascii ''model'') of Some (JString s) \<Rightarrow> Some s | _ \<Rightarrow> None)"

definition new_walk :: "nat \<Rightarrow> tracker \<Rightarrow> json_object \<Rightarrow> shared \<Rightarrow> walk" where
  "new_walk now tk request sh = \<lparr>wk_now = now, wk_shared = sh, wk_tracker = tk, wk_request = request,
     wk_reservation = None, wk_refusal = None, wk_too_small = None, wk_after_overflow = False,
     wk_sticky_failed = None, wk_attempts = 0, wk_sent = [], wk_awaits = 0\<rparr>"

record served =
  sv_response :: client_response
  sv_held :: "lease option"
  sv_walk :: "walk option"
  sv_state :: router_state

definition unrouted :: "client_response \<Rightarrow> router_state \<Rightarrow> served" where
  "unrouted response st = \<lparr>sv_response = response, sv_held = None, sv_walk = None, sv_state = st\<rparr>"

definition routed :: "router_state \<Rightarrow> request_end \<Rightarrow> served" where
  "routed st = (\<lambda>(response, held, wk). \<lparr>sv_response = response, sv_held = held, sv_walk = Some wk,
     sv_state = st\<lparr>rs_shared := wk_shared wk\<rparr>\<rparr>)"

text \<open>A request whose requirements cannot be read: counted and traced under its route.\<close>

definition refuse_routed :: "route \<Rightarrow> client_response \<Rightarrow> walk \<Rightarrow> request_end" where
  "refuse_routed r refused wk =
    (let sh = log_metric (RequestCounted (rt_name r) OutClientError) (wk_shared wk);
         (tk, sh) = tracker_finish (wk_now wk) (Some (response_status refused)) (Ended OutClientError) (wk_tracker wk) sh
     in (refused, None, wk\<lparr>wk_tracker := tk, wk_shared := sh\<rparr>))"

text \<open>From the resolution on; \<open>needs\<close> are the requirements read for \<open>Auto\<close>, if it was asked for.\<close>

definition serve_route :: "router \<Rightarrow> incoming \<Rightarrow> json_object \<Rightarrow> bool \<Rightarrow> request_budget option \<Rightarrow> nat \<Rightarrow> route
    \<Rightarrow> request_requirements option \<Rightarrow> router_state \<Rightarrow> served" where
  "serve_route ro inc request nested budget now r early st =
    (let wk = new_walk now (tracker_new (rt_name r) nested budget) request (rs_shared st);
         cs = (case ro_auto ro of Some au \<Rightarrow> au_cross_route_fallback au | None \<Rightarrow> []);
         extracted = (case early of Some needs \<Rightarrow> Inr needs | None \<Rightarrow> in_extracted inc)
     in routed st (case extracted of
          Inl refused \<Rightarrow> refuse_routed r refused wk
        | Inr needs \<Rightarrow>
            forward_routed
              \<lparr>rc_ext = ro_ext ro, rc_topology = ro_topology ro, rc_endpoint = in_endpoint inc, rc_headers = in_headers inc,
               rc_request_id = in_request_id inc, rc_needs = needs, rc_budget = budget, rc_net = in_net inc,
               rc_is_auto = (early \<noteq> None), rc_nested = nested\<rparr> cs r wk))"

definition serve_resolution :: "router \<Rightarrow> incoming \<Rightarrow> json_object \<Rightarrow> bool \<Rightarrow> request_budget option \<Rightarrow> nat
    \<Rightarrow> routing_failure + route \<Rightarrow> request_requirements option \<Rightarrow> router_state \<Rightarrow> served" where
  "serve_resolution ro inc request nested budget now resolution early st =
    (case resolution of
       Inl failure \<Rightarrow> unrouted (routing_failure_response failure) (count_request UNKNOWN_ROUTE OutClientError st)
     | Inr r \<Rightarrow> serve_route ro inc request nested budget now r early st)"

definition serve_auto :: "router \<Rightarrow> auto_route \<Rightarrow> incoming \<Rightarrow> json_object \<Rightarrow> bool \<Rightarrow> request_budget option \<Rightarrow> nat
    \<Rightarrow> router_state \<Rightarrow> served" where
  "serve_auto ro au inc request nested budget now st =
    (case resolve_auto ro au inc nested budget now st of
       (Inr az, st) \<Rightarrow>
         serve_resolution ro inc request nested budget (after_classification now (az_classification az)) (az_route az) (Some (az_needs az)) st
     | (Inl (Refused refused), st) \<Rightarrow> unrouted refused st
     | (Inl (AutoBudgetExhausted cn _), st) \<Rightarrow>
         routed st (exhaust Classifier None
           (new_walk (after_classification now (Some cn))
             ((tracker_new AUTO_ROUTE nested budget)\<lparr>tk_unobserved := True\<rparr>) request (rs_shared st))))"

definition route_request :: "router \<Rightarrow> incoming \<Rightarrow> bool \<Rightarrow> request_budget option \<Rightarrow> nat \<Rightarrow> router_state \<Rightarrow> served" where
  "route_request ro inc nested budget now st =
    (case parse_body (ex_from_slice (ro_ext ro)) (in_body inc) of
       Inl problem \<Rightarrow> unrouted (body_refusal problem) (count_request UNKNOWN_ROUTE OutClientError st)
     | Inr request \<Rightarrow>
         let requested = requested_model request;
             lower = ex_lower (ro_ext ro)
         in case ro_auto ro of
              Some au \<Rightarrow>
                if claims lower au requested then serve_auto ro au inc request nested budget now st
                else serve_resolution ro inc request nested budget now (route_resolve lower (ro_topology ro) requested) None st
            | None \<Rightarrow> serve_resolution ro inc request nested budget now (route_resolve lower (ro_topology ro) requested) None st)"

definition forward_as :: "router \<Rightarrow> incoming \<Rightarrow> bool \<Rightarrow> request_budget option \<Rightarrow> nat \<Rightarrow> router_state \<Rightarrow> served" where
  "forward_as ro inc nested inherited now st =
    route_request ro inc nested
      (if nested then inherited else map_option (\<lambda>configured. budget_start configured now) (ro_request_budget ro)) now st"

section \<open>Slots and counters of a whole request\<close>

text \<open>What the provider and the other requests may do while a classification waits: they leave the in-flight counts
  as they found them when they are done, and only a request that has a budget can be told that it ran out.\<close>

definition meanwhile_ok :: "incoming \<Rightarrow> request_budget option \<Rightarrow> bool" where
  "meanwhile_ok inc budget \<longleftrightarrow> (\<forall>sh. sh_load (in_others inc sh) = sh_load sh)
    \<and> (budget = None \<longrightarrow> \<not> nr_exhausted (ps_nested (in_side inc)))"

lemma resolve_auto_shared:
  assumes "meanwhile_ok inc budget" "resolve_auto ro au inc nested budget now st = (result, st')"
  shows "sh_load (rs_shared st') = sh_load (rs_shared st)"
    and "tally (rs_shared st') = (fst (tally (rs_shared st)) + (case result of Inl (Refused _) \<Rightarrow> 1 | _ \<Rightarrow> 0), snd (tally (rs_shared st)))"
  using assms
  by (auto simp: resolve_auto_def meanwhile_ok_def count_request_def log_auto_def Let_def tally_def log_metric_def
      split: sum.splits option.splits if_splits)

lemma classify_exhausted:
  assumes "cn_outcome (classify lower rd cl side rid truncated budget now) = RequestBudgetExhausted" "budget = None"
  shows "nr_exhausted (ps_nested side)"
  using assms
  by (auto simp: classify_def expired_def Let_def lightweight_call_def jev_call_def failure_for_def transport_failure_def
      split: if_splits classifier_provider.splits sum.splits option.splits jev_exchange.splits)

lemma resolve_auto_exhausted:
  assumes "meanwhile_ok inc budget" "resolve_auto ro au inc nested budget now st = (Inl (AutoBudgetExhausted cn rule), st')"
  shows "budget \<noteq> None"
  using assms classify_exhausted
  by (fastforce simp: resolve_auto_def meanwhile_ok_def classification_of_def nested_classification_def Let_def
      split: sum.splits option.splits if_splits)

definition served_load :: "served \<Rightarrow> load_book" where
  "served_load sv = (case sv_held sv of
      None \<Rightarrow> sh_load (rs_shared (sv_state sv)) | Some l \<Rightarrow> lease_drop l (sh_load (rs_shared (sv_state sv))))"

lemma served_load_routed [simp]: "served_load (routed st e) = request_settled e"
  by (simp add: served_load_def routed_def request_settled_def case_prod_unfold split: option.split)

lemma served_load_unrouted [simp]: "served_load (unrouted response st) = sh_load (rs_shared st)"
  by (simp add: served_load_def unrouted_def)

lemma new_walk_load [simp]: "wk_load (new_walk now tk request sh) = sh_load sh"
  by (simp only: wk_load_def new_walk_def walk.simps)

lemma refuse_routed_load [simp]: "request_settled (refuse_routed r refused wk) = wk_load wk"
  by (simp add: refuse_routed_def request_settled_def Let_def case_prod_unfold)

lemma serve_route_load:
  assumes "balanced (in_net inc)"
  shows "served_load (serve_route ro inc request nested budget now r early st) = sh_load (rs_shared st)"
  using assms by (simp add: serve_route_def Let_def forward_routed_load split: sum.split)

lemma count_request_load [simp]: "sh_load (rs_shared (count_request name out st)) = sh_load (rs_shared st)"
  by (simp add: count_request_def)

lemma serve_resolution_load:
  "balanced (in_net inc) \<Longrightarrow>
    served_load (serve_resolution ro inc request nested budget now resolution early st) = sh_load (rs_shared st)"
  by (simp add: serve_resolution_def serve_route_load split: sum.splits)

lemma serve_auto_load:
  assumes "balanced (in_net inc)" "meanwhile_ok inc budget"
  shows "served_load (serve_auto ro au inc request nested budget now st) = sh_load (rs_shared st)"
proof -
  obtain result st' where run: "resolve_auto ro au inc nested budget now st = (result, st')" by fastforce
  with resolve_auto_shared(1) [OF assms(2) run] assms(1) show ?thesis
    by (auto simp: serve_auto_def serve_resolution_load split: sum.splits auto_stop.splits)
qed

text \<open>C10. No in-flight slot is leaked by a request. Whatever its body, whatever the classifier's provider and the nodes answer,
  however many deployments and routes are tried, and however it ends (a refused body, an unknown route, an
  answer, the last refusal, no deployment at all, the budget), the in-flight counts are in the end what they were
  before, except that a stream that was committed still holds exactly one slot, which it gives back when it ends.\<close>

theorem no_slot_leaked:
  assumes "balanced (in_net inc)" "meanwhile_ok inc budget"
  shows "served_load (route_request ro inc nested budget now st) = sh_load (rs_shared st)"
  using serve_resolution_load [OF assms(1)] serve_auto_load [OF assms]
  by (simp add: route_request_def Let_def split: sum.splits option.splits)

section \<open>One count for every request\<close>

definition served_counted :: "router_state \<Rightarrow> served \<Rightarrow> bool" where
  "served_counted st sv \<longleftrightarrow> tally (rs_shared (sv_state sv)) =
    (fst (tally (rs_shared st)) + 1,
     snd (tally (rs_shared st)) + (if sv_walk sv \<noteq> None \<and> sv_held sv = None then 1 else 0))"

lemma served_counted_unrouted: "served_counted st (unrouted response (count_request name out st))"
  by (simp add: served_counted_def unrouted_def count_request_def)

lemma served_counted_routed:
  "request_tally wk e \<Longrightarrow> tally (wk_shared wk) = tally (rs_shared st) \<Longrightarrow> served_counted st (routed st' e)"
  by (simp add: served_counted_def routed_def request_tally_def case_prod_unfold)

lemma refuse_routed_tally: "\<not> tk_finished (wk_tracker wk) \<Longrightarrow> request_tally wk (refuse_routed r refused wk)"
  by (simp add: refuse_routed_def request_tally_def Let_def case_prod_unfold tracker_finish_tally)

lemma serve_resolution_counted: "served_counted st (serve_resolution ro inc request nested budget now resolution early st)"
proof (cases resolution)
  case (Inr r)
  let ?wk = "new_walk now (tracker_new (rt_name r) nested budget) request (rs_shared st)"
  have "\<not> tk_finished (wk_tracker ?wk)" "tk_budget (wk_tracker ?wk) = budget" "wk_shared ?wk = rs_shared st"
    by (simp_all add: new_walk_def tracker_new_def)
  then have "request_tally ?wk (refuse_routed r refused ?wk)" "rc_budget rq = budget \<Longrightarrow> request_tally ?wk (forward_routed rq cs r ?wk)"
    "tally (wk_shared ?wk) = tally (rs_shared st)" for refused rq cs
    by (simp_all add: refuse_routed_tally forward_routed_tally)
  then show ?thesis unfolding serve_resolution_def serve_route_def Let_def Inr sum.case
    by (intro served_counted_routed [of ?wk]) (simp_all split: sum.split)
qed (simp add: serve_resolution_def served_counted_unrouted)

lemma served_counted_cong: "tally (rs_shared st1) = tally (rs_shared st2) \<Longrightarrow> served_counted st1 sv = served_counted st2 sv"
  by (simp add: served_counted_def)

lemma serve_auto_counted:
  assumes "meanwhile_ok inc budget"
  shows "served_counted st (serve_auto ro au inc request nested budget now st)"
proof -
  obtain result st' where run: "resolve_auto ro au inc nested budget now st = (result, st')" by fastforce
  note shared = resolve_auto_shared(2) [OF assms run]
  consider (resolved) az where "result = Inr az" | (refused) response where "result = Inl (Refused response)"
    | (exhausted) cn rule where "result = Inl (AutoBudgetExhausted cn rule)"
    by (cases result; cases "projl result") auto
  then show ?thesis
  proof cases
    case resolved
    with shared have "tally (rs_shared st') = tally (rs_shared st)" by simp
    moreover have "served_counted st' (serve_auto ro au inc request nested budget now st)"
      using resolved run by (simp add: serve_auto_def serve_resolution_counted)
    ultimately show ?thesis using served_counted_cong by blast
  next
    case refused
    with shared run show ?thesis by (simp add: serve_auto_def served_counted_def unrouted_def)
  next
    case exhausted
    let ?wk = "new_walk (after_classification now (Some cn)) ((tracker_new AUTO_ROUTE nested budget)\<lparr>tk_unobserved := True\<rparr>) request (rs_shared st')"
    have "budget \<noteq> None" using resolve_auto_exhausted assms run exhausted by blast
    then have "request_tally ?wk (exhaust Classifier None ?wk)"
      by (intro exhaust_tally) (simp_all add: new_walk_def tracker_new_def)
    moreover have "tally (wk_shared ?wk) = tally (rs_shared st)" using shared exhausted by (simp add: new_walk_def)
    ultimately show ?thesis using run exhausted by (simp add: serve_auto_def served_counted_routed)
  qed
qed

text \<open>C23. Every request is counted exactly once, whatever happens to it: on every path, from a body that is not JSON to a
  chain of fallback routes, there is one increment of the request counter; a request that got as far as a
  route, or to \<open>Auto\<close> with its budget spent, has one finished trace, and only a committed stream leaves its
  trace to be finished when the stream ends.\<close>

theorem request_counted_once:
  assumes "meanwhile_ok inc budget"
  shows "served_counted st (route_request ro inc nested budget now st)"
  using serve_auto_counted [OF assms] serve_resolution_counted
  by (simp add: route_request_def Let_def served_counted_unrouted split: sum.splits option.splits)

section \<open>Where \<open>Auto\<close> ends up\<close>

lemma targets_configured:
  assumes "auto_ok lower rts raw au" "name \<in> set (targets au)"
  shows "configured_route lower rts name"
proof -
  have rule: "configured_route lower rts (ru_route rule)" if "rule \<in> set (au_rules au)" for rule
  proof -
    from that assms(1) obtain entry where from_entry: "rule_from lower rts (au_classifier au) entry rule"
      by (auto simp: auto_ok_def list_all2_conv_all_nth in_set_conv_nth)
    show ?thesis
    proof (cases "rl_route entry")
      case None
      with from_entry assms(1) show ?thesis by (auto simp: rule_from_def auto_ok_def classifier_ok_def)
    next
      case (Some n)
      with from_entry target_Inr show ?thesis by (auto simp: rule_from_def)
    qed
  qed
  have "configured_route lower rts (au_fallback au)" using assms(1) target_Inr by (auto simp: auto_ok_def)
  moreover have "configured_route lower rts (ch_route c)" if "au_classifier au = Some cl" "c \<in> set (cl_candidates cl)" for c cl
    using that assms(1) by (auto simp: auto_ok_def classifier_ok_def list_all_iff)
  ultimately show ?thesis using assms(2) rule by (auto simp: set_targets split: if_splits option.splits)
qed

lemma classifying_rule_fallback:
  assumes "auto_ok lower rts raw au" "ad_classify (decide au needs)"
  shows "\<exists>cl. au_classifier au = Some cl \<and> ad_route (decide au needs) = cl_fallback cl"
proof (cases rule: decide_cases [of au needs])
  case fallback
  with assms(2) show ?thesis by simp
next
  case (rule before rule after)
  then have "rule \<in> set (au_rules au)" "ru_classify rule" using assms(2) by auto
  moreover from this assms(1) obtain entry where "rule_from lower rts (au_classifier au) entry rule"
    by (auto simp: auto_ok_def list_all2_conv_all_nth in_set_conv_nth)
  ultimately show ?thesis using rule by (auto simp: rule_from_def split: option.splits)
qed

lemma nested_classification_ok: "classification_ok cl (nested_classification kind)"
  by (simp add: classification_ok_def nested_classification_def)

lemma resolved_target:
  assumes "auto_ok lower rts raw au" "cn = classification_of ro au inc nested budget now (decide au needs)"
  shows "resolved_route au (decide au needs) cn (scoring_of au cn) \<in> set (targets au)
    \<and> (nested \<longrightarrow> resolved_route au (decide au needs) cn (scoring_of au cn) = ad_route (decide au needs))"
proof (cases cn)
  case None
  then show ?thesis using decide_target by (simp add: resolved_route_def scoring_of_def)
next
  case (Some c)
  then have classifies: "ad_classify (decide au needs)" using assms(2) by (auto simp: classification_of_def split: option.splits if_splits)
  with classifying_rule_fallback [OF assms(1)] obtain cl where cl: "au_classifier au = Some cl" "ad_route (decide au needs) = cl_fallback cl"
    by blast
  have c: "classification_ok cl c" "nested \<longrightarrow> cn_outcome c = Nested"
    using assms(2) Some cl(1) classify_ok nested_classification_ok
    by (auto simp: classification_of_def nested_classification_def split: if_splits)
  have li: "limits_ok (provider_limits (cl_provider cl))"
    using assms(1) cl(1) by (cases "cl_provider cl") (auto simp: auto_ok_def classifier_ok_def)
  have inside: "insert (cl_fallback cl) (ch_route ` set (cl_candidates cl)) \<subseteq> set (targets au)"
    using decide_target [of au needs] decide_classifies [OF classifies cl(1)] cl(2) by simp
  have route: "classification_route cl c \<in> set (targets au)" "nested \<longrightarrow> classification_route cl c = cl_fallback cl"
    using classification_route_ok [OF c(1)] inside c(2) by (auto simp: classification_route_def split: option.splits)
  show ?thesis
  proof (cases "scoring_of au cn")
    case None
    with Some cl route show ?thesis by (simp add: resolved_route_def)
  next
    case scored: (Some sd)
    then obtain sc where sc: "au_scoring au = Some sc" "sd = scoring_decide sc c cl"
      using Some cl(1) by (auto simp: scoring_of_def split: option.splits if_splits)
    then have "scoring_ok cl sc" using assms(1) cl(1) by (auto simp: auto_ok_def)
    from scoring_decide_cases [OF c(1) this li] sc route inside c(2) scored cl(2) show ?thesis
      by (auto simp: resolved_route_def)
  qed
qed


section \<open>Worked requests\<close>

text \<open>The router of the small configuration, and a request for \<open>Auto\<close> that declares no tools: the classifying rule
  matches, the classifier route refuses, and the request goes to the fallback, where no node has been seen.\<close>

definition demo_parts :: ext where
  "demo_parts = \<lparr>ex_lower = map to_ascii_lowercase, ex_hash = (\<lambda>_. 0),
     ex_from_slice = (\<lambda>_. Some (JObject [(ascii ''model'', JString (ascii ''auto''))])), ex_to_vec = (\<lambda>_. Some []),
     ex_parse = (\<lambda>_. None), ex_print = (\<lambda>_. [])\<rparr>"

definition demo_router :: router where
  "demo_router = \<lparr>ro_ext = demo_parts, ro_reader = demo_reader, ro_topology = cf_topology demo_config,
     ro_auto = cf_auto demo_config, ro_request_budget = None\<rparr>"

definition demo_incoming :: incoming where
  "demo_incoming = \<lparr>in_endpoint = ChatCompletions, in_headers = (\<lambda>_. None), in_body = [], in_request_id = ascii ''r'',
     in_extracted = Inr (chat_requirements small_request None), in_truncated = False, in_side = demo_side, in_others = id,
     in_net = demo_net, in_unix_now = 0\<rparr>"

definition demo_state :: router_state where
  "demo_state = \<lparr>rs_shared = demo_shared, rs_status = \<lparr>st_last_success = None, st_last_failure = None, st_last_check = None\<rparr>, rs_events = []\<rparr>"

lemma demo_meanwhile: "balanced (in_net demo_incoming)" "meanwhile_ok demo_incoming None"
  by (simp_all add: balanced_def demo_net_def demo_await_def meanwhile_ok_def demo_incoming_def demo_side_def)

theorem no_slot_leaked_witness:
  "served_load (route_request demo_router demo_incoming False None 7 demo_state) = sh_load demo_shared"
  using no_slot_leaked [OF demo_meanwhile, of demo_router False 7 demo_state] by (simp add: demo_state_def)

theorem request_counted_once_witness:
  "served_counted demo_state (route_request demo_router demo_incoming False None 7 demo_state)"
  by (rule request_counted_once [OF demo_meanwhile(2)])


end
