(* ===== verification/Spec2Isabelle.thy ===== *)
theory Spec2Isabelle
  imports Gguf_Correct Memory_Admission Scheduler_System Catalog_Correct Engine_Backend Gateway_Jobs Gateway_Limits Router_Placement Sse Router_Request
begin

text \<open>
  Lightweight runs language models on small machines. A gateway (\<open>crates/lightweight-gateway\<close>) serves one
  model at a time over an OpenAI-compatible interface: it keeps a catalog of models (\<open>crates/lightweight-catalog\<close>),
  reads a model's GGUF file (\<open>crates/lightweight-gguf\<close>), works out the memory a load needs
  (\<open>crates/lightweight-memory\<close>), starts an engine (\<open>crates/lightweight-backend-llamacpp\<close>), and lets requests into
  the engine's slots through a scheduler. A router (\<open>crates/lightweight-router\<close>) gives stable model names over
  several gateways: it probes their health, filters the deployments of a route by what a request needs, orders
  them by the route's policy, keeps sessions on one deployment, forwards the request with failover and fallback
  under one budget, rewrites the answer to the public name, and asks empty nodes to load models ahead of demand.
  This development models the decision logic of these parts and proves what they promise.

  \<^bold>\<open>Conventions.\<close> Machine integers are words at their width (\<open>u32\<close>, \<open>u64\<close>, \<open>usize\<close> as 64 bits) with the
  wrapping, checked and saturating operations of the standard library (\<open>Lw_Prelude\<close>); \<open>Result\<close> is a sum
  with \<open>Inl\<close> the error, \<open>?\<close> is \<open>and_then\<close>; state is passed explicitly as records; hash and tree maps are
  maps or, where iteration order matters, association lists. Strings of the router are lists of Unicode
  scalar values, bytes of a file are lists of \<open>u8\<close>. Clock readings, ids and counters that only grow are
  natural numbers, and an operation reads the clock once. Floats are bit patterns of IEEE binary64. Code outside
  the repository is a parameter: \<open>lower\<close> (Unicode lower-casing), \<open>hash_one\<close> (the keyed hash of a session id),
  \<open>backing_off\<close> (the callback given to the placement planner), the parsers of URLs and header names
  (\<open>settings_ext\<close>), the JSON package (\<open>parse\<close>, \<open>print\<close> and their byte versions, fields of the record \<open>ext\<close>; for the
  catalog file \<open>encode\<close> and \<open>decode\<close>). What a node answers, when, and what other requests do meanwhile is the input
  \<open>await\<close> of each attempt; what the operating system does with a process or a file is an argument of the
  operation that asks for it. Loops are structural recursion or functions with a termination proof, so no
  fuel is used: the search for a free alias runs over the \<open>u32\<close> range the code counts through, starting an engine
  over its three attempts, waiting for it over the list of looks taken.

  \<^bold>\<open>Shared theories.\<close> \<open>Lw_Prelude\<close>: machine integers, results, little-endian bytes. \<open>Lw_Order\<close>: comparisons
  and the stable sort, with the contract of a comparison as the locale \<open>total_comparison\<close>. \<open>Lw_Text\<close>: strings,
  their searches and splits, and UTF-8 with its lossy decoding. \<open>Lw_Btree\<close>: the ordered map, with its contract as
  the locale \<open>ordered_map\<close>. \<open>Lw_Float\<close> and \<open>Lw_Float_Int\<close>: \<open>f64\<close> arithmetic and where it is exact. \<open>Lw_Net\<close>: the
  addresses of the standard library.

  \<^bold>\<open>The model file.\<close> \<open>Ggml\<close> is the tensor type table of \<open>lightweight-core/src/ggml.rs\<close>; \<open>Gguf_Value\<close> the values
  and errors (\<open>value.rs\<close>, \<open>error.rs\<close>); \<open>Gguf_Reader\<close> the bounded reader (\<open>reader.rs\<close>), a cursor over the bytes
  of a file with its limits and budgets, where a read past the end is the I/O error the operating system
  would give; \<open>Gguf_Writer\<close> the fixture writer (\<open>fixture.rs\<close>). \<open>Gguf_Safety\<close> has the invariants of the
  cursor (locale \<open>cursor_reader\<close>, interpreted on every reader), \<open>Gguf_Roundtrip\<close> reads back each written piece
  (locale \<open>codec\<close>), \<open>Gguf_Correct\<close> has the properties: what is written
  is read back, the reader never runs off the file, tensor data lies inside it, counts are bounded by its
  length, and a tensor whose size wraps is accepted. \<open>Gguf_Metadata\<close> is the typed view of a header
  (\<open>metadata.rs\<close>, \<open>architecture.rs\<close>).

  \<^bold>\<open>Memory.\<close> \<open>Memory_Estimate\<close> is the estimator (\<open>estimate.rs\<close>, \<open>estimator.rs\<close>): weights, cache and compute buffers of a
  load, whether it fits, and the searches for a context and a number of slots. \<open>Memory_Admission\<close> shows that the
  verdict compares exact sums, that what is suggested fits, and that the searches find the greatest that is safe.

  \<^bold>\<open>The catalog.\<close> \<open>Model_Id\<close>: ids (\<open>lightweight-core/src/ids.rs\<close>) and that they are read back. \<open>Catalog_Store\<close>: the
  records of models, their aliases and the catalog file (\<open>record.rs\<close>, \<open>store.rs\<close>). \<open>Catalog_Install\<close>: pinned models,
  plans and the operations of the gateway's \<open>manager.rs\<close> on the catalog. \<open>Catalog_Correct\<close>: names stay unambiguous
  under every operation, a failed save is undone, the file is read back, plans are honest, a model that is served
  is not removed.

  \<^bold>\<open>The engine and the gateway around it.\<close> \<open>Engine_Backend\<close> starts, replaces and stops the engine
  (\<open>backend.rs\<close>, \<open>supervisor.rs\<close>): what is allocated is what was priced, and an engine that was replaced answers nothing. \<open>Gateway_Jobs\<close> has
  the long operations and their watchers (\<open>jobs.rs\<close>), \<open>Gateway_Limits\<close> the request limits (\<open>limits.rs\<close>): a window
  never admits more than its limit, and a refusal names a wait that is enough.

  \<^bold>\<open>The scheduler\<close> (\<open>lightweight-gateway/src/scheduler.rs\<close>). \<open>Scheduler\<close> has the callers, bands, queue, slots,
  tickets, permits and pauses, one definition for each operation. \<open>Scheduler_Order\<close> shows the order of service
  (locale \<open>priority_pick\<close>, interpreted on the queue): the repeated choice is the stable order of the rank,
  starvation is bounded, positions are honest. \<open>Scheduler_System\<close> is the state machine over all operations
  in any order (locales \<open>slot_keeper\<close> and \<open>accounted_keeper\<close>, interpreted on the two loops that hand out
  slots): no slot is lost or held twice, none idles before a waiting request, capacity is respected. The
  blocking waits are sequences of these steps.

  \<^bold>\<open>Configuring the router.\<close> \<open>Router_Settings\<close> validates the sections of the configuration file (\<open>config.rs\<close>),
  \<open>Router_Classifier\<close> and \<open>Router_Scoring\<close> those of the classifier and of the scoring, which they also model,
  \<open>Router_Auto\<close> the rules of automatic routing (\<open>auto_route.rs\<close>) and their choice. \<open>Router_Config\<close> is the whole
  file: every reference of an accepted one resolves.

  \<^bold>\<open>The router.\<close> \<open>Router_Names\<close>: names and identities (\<open>lightweight-catalog/src/alias.rs\<close>, \<open>domain.rs\<close>).
  \<open>Router_Health\<close>: topology and health book (\<open>domain.rs\<close>, \<open>health.rs\<close>); the verdict is a function of the
  probe history. \<open>Router_Capability\<close>: what a request needs, what a deployment lacks, in-flight counts
  (\<open>requirements.rs\<close>, \<open>capability.rs\<close>, \<open>load.rs\<close>). \<open>Router_Select\<close>: eligibility, policies, the selector and the
  route summary (\<open>select.rs\<close>); \<open>Router_Select_Correct\<close> relates every plan to the specification \<open>routable\<close>
  and shows fairness, load order (interpretation \<open>ranking\<close> of \<open>total_comparison\<close>), session preference and the
  conservative summary. \<open>Router_Affinity\<close>: the bounded session book (\<open>affinity.rs\<close>) under any interleaving and
  iteration order. \<open>Router_Placement\<close>: planning of loads and backoff (\<open>placement.rs\<close>).

  \<^bold>\<open>Event streams.\<close> \<open>Sse_Framing\<close> finds the end of a frame, once for text and once for bytes (locale \<open>framing\<close>,
  interpreted on both searches): taking frames off as chunks arrive is taking them off the whole. \<open>Sse\<close> is
  the codec of \<open>lightweight-core/src/sse.rs\<close>: the decoder refines the events of the whole text, and what is
  encoded is decoded. \<open>Router_Sse\<close> is the rewriter of \<open>lightweight-router/src/sse.rs\<close>: it refines rewriting the
  whole stream, ends it at most once, and shows the client the public model name.

  \<^bold>\<open>Forwarding.\<close> \<open>Router_Fallback\<close> validates the fallback lists (\<open>fallback.rs\<close>): the search for a cycle ends and
  finds one exactly if there is one. \<open>Router_Budget\<close> is the one deadline of a request (\<open>budget.rs\<close>).
  \<open>Router_Proxy\<close> is the request from its resolved route to the end of its response (\<open>proxy.rs\<close>): attempt,
  walk over the plan, commit, relay, chain of routes. \<open>Router_Proxy_Correct\<close> has what a node is sent and the
  accounting of slots, \<open>Router_Proxy_Order\<close> the order of failover, \<open>Router_Proxy_Chain\<close> that fallback follows the
  frozen plan and ends. \<open>Router_Request\<close> is the request from its body on, with the resolution of \<open>Auto\<close>: no slot
  leaks, and a request is counted once.

  \<^bold>\<open>Not modelled.\<close> HTTP handlers and clients, wire types, JSON, files, downloads, probes and clocks, which are
  inputs where a decision reads them; the order in which \<open>load_model\<close> and \<open>unload_model\<close> of \<open>manager.rs\<close> call
  the modelled operations; the history beside a score (\<open>scoring/history.rs\<close>), the classifier's prompts and
  exchange, its settings file and the secret store; the reading of requirements from the wire types; metrics,
  traces and log lines; the command line, benchmarks, self-update and the platform probes; a client that goes away.

  This theory composes the health book with the selector and the placement planner.
\<close>

section \<open>From probes to routing and placement\<close>

text \<open>The health map the router plans with is the book's map of node states.\<close>

definition record_failures ::
  "(ustr \<Rightarrow> ustr) \<Rightarrow> ustr \<Rightarrow> (ustr \<times> nat) list \<Rightarrow> health_book \<Rightarrow> health_book" where
  "record_failures lower nid failures hb =
    foldl (\<lambda>hb (reason, now). record_outcome lower nid (Failure reason) now hb) hb failures"

lemma candidate_node_healthy:
  assumes "c \<in> set (available_candidates lower tp r health)"
  shows "\<exists>st. health (ca_node c) = Some st \<and> ns_health st = Healthy"
  using assms
  by (auto simp: available_candidates_def map_filter_set candidate_at_def available_iff default_status_def
      split: option.splits if_splits)

lemma record_failure:
  assumes "hb_nodes hb nid = Some st"
  shows "hb_nodes (record_outcome lower nid (Failure reason) now hb) nid =
      Some (apply_outcome st (Failure reason) (hb_threshold hb) now)"
    and "hb_threshold (record_outcome lower nid out now hb) = hb_threshold hb"
  using assms
  by (auto simp: record_outcome_def observe_deployments_def Let_def split: option.splits outcome.splits)

lemma failures_counted:
  assumes "hb_nodes hb nid = Some st" "failures \<noteq> []" "unat (hb_threshold hb) \<le> length failures"
  shows "\<exists>st'. hb_nodes (record_failures lower nid failures hb) nid = Some st' \<and> ns_health st' = Unhealthy"
proof -
  have "\<exists>st'. hb_nodes (record_failures lower nid fs hb) nid = Some st' \<and>
      hb_threshold (record_failures lower nid fs hb) = hb_threshold hb \<and>
      min (2 ^ 32 - 1) (length fs) \<le> unat (consecutive_failures st') \<and>
      (fs \<noteq> [] \<longrightarrow> unat (hb_threshold hb) \<le> unat (consecutive_failures st') \<longrightarrow> ns_health st' = Unhealthy)" for fs
  proof (induction fs rule: rev_induct)
    case Nil
    show ?case using assms(1) by (simp add: record_failures_def)
  next
    case (snoc f fs)
    obtain reason now where f: "f = (reason, now)" by fastforce
    let ?hb = "record_failures lower nid fs hb"
    from snoc obtain st' where st': "hb_nodes ?hb nid = Some st'" "hb_threshold ?hb = hb_threshold hb"
      "min (2 ^ 32 - 1) (length fs) \<le> unat (consecutive_failures st')" by blast
    have "record_failures lower nid (fs @ [f]) hb = record_outcome lower nid (Failure reason) now ?hb"
      by (simp add: record_failures_def f)
    with record_failure [OF st'(1)] st' show ?case
      by (auto simp: apply_outcome_def Let_def unat_sat_add word_le_nat_alt)
  qed
  from this [of failures] obtain st' where st': "hb_nodes (record_failures lower nid failures hb) nid = Some st'"
    "min (2 ^ 32 - 1) (length failures) \<le> unat (consecutive_failures st')"
    "unat (hb_threshold hb) \<le> unat (consecutive_failures st') \<longrightarrow> ns_health st' = Unhealthy"
    using assms(2) by blast
  have "unat (hb_threshold hb) \<le> 2 ^ 32 - 1" using unat_lt_two_power [of "hb_threshold hb"] by simp
  with st'(2) assms(3) have "unat (hb_threshold hb) \<le> unat (consecutive_failures st')" by linarith
  with st' show ?thesis by blast
qed


definition demo_hb :: health_book where
  "demo_hb = (health_new (demo_topology Priority) 1)\<lparr>hb_nodes := demo_health\<rparr>"


end
